(* ===== verification/Prelude.thy ===== *)
theory Prelude
  imports Main "HOL-Library.Word"
begin

text \<open>
  Shared vocabulary of the development: the machine integer types of the Rust
  sources, the checked arithmetic of the Rust standard library that the sources use,
  three families of interfaces (codecs with a round trip, transition systems with an
  invariant, pools that account for their permits) and the generic lemmas on options and
  words that the component theories use.
\<close>

unbundle bit_operations_syntax

section \<open>Machine integers and checked arithmetic\<close>

type_synonym u8 = "8 word"
type_synonym u16 = "16 word"
type_synonym u32 = "32 word"
type_synonym u64 = "64 word"

text \<open>
  Rust's \<open>usize\<close> is 32 bits wide on one supported target and 64 bits wide on the other.
  Where its width matters it is a type parameter: the definitions are over
  \<open>'w word\<close> for every \<open>'w :: len\<close>.
\<close>

named_theorems checked_simps "unfolding of the checked word arithmetic"

definition checked_add :: "'w::len word \<Rightarrow> 'w word \<Rightarrow> 'w word option" where
  "checked_add a b = (if unat a + unat b < 2 ^ LENGTH('w) then Some (a + b) else None)"

definition checked_sub :: "'w::len word \<Rightarrow> 'w word \<Rightarrow> 'w word option" where
  "checked_sub a b = (if b \<le> a then Some (a - b) else None)"

lemma checked_add_Some_iff [checked_simps]:
  "checked_add a b = Some (c :: 'w::len word) \<longleftrightarrow> unat c = unat a + unat b"
proof
  assume "checked_add a b = Some c"
  then show "unat c = unat a + unat b"
    by (auto simp: checked_add_def unat_word_ariths split: if_splits)
next
  assume c: "unat c = unat a + unat b"
  have "unat a + unat b < 2 ^ LENGTH('w)"
    by (subst c [symmetric]) (rule unsigned_less)
  moreover from this c have "a + b = c"
    by (metis unat_word_ariths(1) mod_less word_unat_eq_iff)
  ultimately show "checked_add a b = Some c"
    by (simp add: checked_add_def)
qed

lemma checked_add_None_iff [checked_simps]:
  "checked_add a (b :: 'w::len word) = None \<longleftrightarrow> 2 ^ LENGTH('w) \<le> unat a + unat b"
  by (auto simp: checked_add_def)

lemma checked_sub_Some_iff [checked_simps]:
  "checked_sub a b = Some (c :: 'w::len word) \<longleftrightarrow> unat b \<le> unat a \<and> unat c = unat a - unat b"
proof -
  have "b \<le> a \<Longrightarrow> unat (a - b) = unat a - unat b"
    by (rule unat_sub)
  then show ?thesis
    by (auto simp: checked_sub_def word_le_nat_alt word_unat_eq_iff)
qed

lemma checked_sub_None_iff [checked_simps]:
  "checked_sub a (b :: 'w::len word) = None \<longleftrightarrow> unat a < unat b"
  by (auto simp: checked_sub_def word_le_nat_alt)


section \<open>Fail-stop computations\<close>

text \<open>
  \<open>fail_stop\<close> aborts the process, and so do a failed \<open>expect\<close>, an index out of range and
  an arithmetic overflow check: none returns to its caller. A computation that can do so
  yields \<open>Aborts\<close> instead of a result.
\<close>

datatype 'a run = Aborts | Returns 'a

primrec bind_run :: "'a run \<Rightarrow> ('a \<Rightarrow> 'b run) \<Rightarrow> 'b run" where
  "bind_run Aborts f = Aborts"
| "bind_run (Returns x) f = f x"

definition unwrap_or_abort :: "'a option \<Rightarrow> 'a run" where
  "unwrap_or_abort m = (case m of None \<Rightarrow> Aborts | Some x \<Rightarrow> Returns x)"

lemma bind_run_Returns_iff [simp]:
  "bind_run m f = Returns y \<longleftrightarrow> (\<exists>x. m = Returns x \<and> f x = Returns y)"
  by (cases m) auto

lemma bind_run_Aborts_iff [simp]:
  "bind_run m f = Aborts \<longleftrightarrow> m = Aborts \<or> (\<exists>x. m = Returns x \<and> f x = Aborts)"
  by (cases m) auto

lemma bind_run_assoc: "bind_run (bind_run m f) g = bind_run m (\<lambda>x. bind_run (f x) g)"
  by (cases m) auto

text \<open>A computation returns, with a result that has a property.\<close>

definition yields :: "'a run \<Rightarrow> ('a \<Rightarrow> bool) \<Rightarrow> bool" where
  "yields m P = (case m of Aborts \<Rightarrow> False | Returns x \<Rightarrow> P x)"

lemma yields_simps [simp]:
  "yields (Returns x) P = P x" "\<not> yields Aborts P"
  by (simp_all add: yields_def)

lemma yields_iff: "yields m P \<longleftrightarrow> (\<exists>x. m = Returns x \<and> P x)"
  by (cases m) auto

lemma yields_bind:
  "yields m P \<Longrightarrow> (\<And>x. P x \<Longrightarrow> yields (f x) Q) \<Longrightarrow> yields (bind_run m f) Q"
  by (cases m) auto

lemma yields_mono: "yields m P \<Longrightarrow> (\<And>x. P x \<Longrightarrow> Q x) \<Longrightarrow> yields m Q"
  by (cases m) auto

lemma unwrap_or_abort_simps [simp]:
  "unwrap_or_abort None = Aborts"
  "unwrap_or_abort (Some x) = Returns x"
  "unwrap_or_abort m = Returns y \<longleftrightarrow> m = Some y"
  "unwrap_or_abort m = Aborts \<longleftrightarrow> m = None"
  by (auto simp: unwrap_or_abort_def split: option.splits)

section \<open>Results\<close>

text \<open>The question mark operator, a loop whose body ends in it, and such a loop with an accumulator.\<close>

primrec bind_result :: "'e + 'a \<Rightarrow> ('a \<Rightarrow> 'e + 'b) \<Rightarrow> 'e + 'b" where
  "bind_result (Inl e) f = Inl e"
| "bind_result (Inr x) f = f x"

primrec each_result :: "('a \<Rightarrow> 'e + unit) \<Rightarrow> 'a list \<Rightarrow> 'e + unit" where
  "each_result f [] = Inr ()"
| "each_result f (x # xs) = bind_result (f x) (\<lambda>_. each_result f xs)"

primrec fold_result :: "('s \<Rightarrow> 'a \<Rightarrow> 'e + 's) \<Rightarrow> 's \<Rightarrow> 'a list \<Rightarrow> 'e + 's" where
  "fold_result f s [] = Inr s"
| "fold_result f s (x # xs) = bind_result (f s x) (\<lambda>t. fold_result f t xs)"

lemma bind_result_Inr_iff [simp]:
  "bind_result m f = Inr y \<longleftrightarrow> (\<exists>x. m = Inr x \<and> f x = Inr y)"
  by (cases m) auto

lemma each_result_Inr_iff [simp]: "each_result f xs = Inr u \<longleftrightarrow> (\<forall>x \<in> set xs. f x = Inr ())"
  by (induction xs) auto

lemma fold_result_append:
  "fold_result f s (xs @ ys) = bind_result (fold_result f s xs) (\<lambda>t. fold_result f t ys)"
proof (induction xs arbitrary: s)
  case (Cons x xs)
  then show ?case by (cases "f s x") auto
qed simp

lemma fold_result_invariant:
  assumes "fold_result f s xs = Inr t" "P s" "\<And>s x t. P s \<Longrightarrow> x \<in> set xs \<Longrightarrow> f s x = Inr t \<Longrightarrow> P t"
  shows "P t"
  using assms
proof (induction xs arbitrary: s)
  case (Cons x xs)
  from Cons.prems(1) obtain s' where s': "f s x = Inr s'" "fold_result f s' xs = Inr t" by auto
  have "P s'" by (rule Cons.prems(3) [OF Cons.prems(2) _ s'(1)]) simp
  moreover have "P v" if "P u" "y \<in> set xs" "f u y = Inr v" for u y v
    by (rule Cons.prems(3) [OF that(1) _ that(3)]) (simp add: that(2))
  ultimately show ?case by (rule Cons.IH [OF s'(2)])
qed simp

section \<open>Interfaces: codecs\<close>

text \<open>
  A codec promises that decoding what was encoded returns it, for the values that can
  be encoded. An exact codec moreover accepts nothing but encodings, so that a wire
  text has one meaning and a meaning one wire text.
\<close>

locale codec =
  fixes enc :: "'a \<Rightarrow> 'b"
    and dec :: "'b \<Rightarrow> 'a option"
    and ok :: "'a \<Rightarrow> bool"
  assumes dec_enc: "ok x \<Longrightarrow> dec (enc x) = Some x"
begin

lemma enc_inj: "ok x \<Longrightarrow> ok y \<Longrightarrow> enc x = enc y \<Longrightarrow> x = y"
  using dec_enc by (metis option.inject)

lemma enc_inj_on: "inj_on enc (Collect ok)"
  by (auto intro: inj_onI enc_inj)

end

locale exact_codec = codec +
  assumes dec_sound: "dec w = Some x \<Longrightarrow> ok x \<and> enc x = w"
begin

lemma dec_Some_iff: "dec w = Some x \<longleftrightarrow> ok x \<and> enc x = w"
  using dec_sound dec_enc by blast

lemma dec_inj: "dec v = Some x \<Longrightarrow> dec w = Some x \<Longrightarrow> v = w"
  using dec_sound by blast

lemma dec_None_iff: "dec w = None \<longleftrightarrow> (\<forall>x. ok x \<longrightarrow> enc x \<noteq> w)"
  using dec_Some_iff by (metis not_None_eq)

end

section \<open>Interfaces: transition systems with an invariant\<close>

text \<open>
  A state machine is its initial states and its steps; an invariant holds at the start
  and is kept by every step. Then it holds in every state some run reaches.
\<close>

locale transition_system =
  fixes init :: "'s \<Rightarrow> bool"
    and step :: "'s \<Rightarrow> 's \<Rightarrow> bool"
    and inv :: "'s \<Rightarrow> bool"
  assumes inv_init: "init s \<Longrightarrow> inv s"
    and inv_step: "inv s \<Longrightarrow> step s t \<Longrightarrow> inv t"
begin

lemma inv_steps:
  assumes "step\<^sup>*\<^sup>* s t" "inv s"
  shows "inv t"
  using assms by (induction rule: rtranclp_induct) (auto intro: inv_step)

lemma inv_reachable: "init s \<Longrightarrow> step\<^sup>*\<^sup>* s t \<Longrightarrow> inv t"
  by (blast intro: inv_steps inv_init)

end

section \<open>Interfaces: accounted pools\<close>

text \<open>
  Quotas and budgets hand out permits against counters, one per resource, and take each
  permit back once. The steps of their clients: a successful \<open>take\<close> adds a permit to those
  outstanding, a \<open>give\<close> removes one. Each is one critical section (or one atomic
  update), so a run of several threads is a sequence of such steps.
\<close>

inductive pool_step ::
    "('a \<Rightarrow> 's \<Rightarrow> 's option) \<Rightarrow> ('a \<Rightarrow> 's \<Rightarrow> 's run) \<Rightarrow> 's \<times> 'a list \<Rightarrow> 's \<times> 'a list \<Rightarrow> bool"
  for take_permit give_permit where
  pool_take: "take_permit a s = Some t \<Longrightarrow> pool_step take_permit give_permit (s, ps) (t, a # ps)"
| pool_give:
    "a \<in> set ps \<Longrightarrow> give_permit a s = Returns t \<Longrightarrow>
     pool_step take_permit give_permit (s, ps) (t, remove1 a ps)"

text \<open>
  What a provider promises: a granted permit is charged exactly, and giving back what is
  charged succeeds and uncharges exactly. Then the counters are always the sum of the
  permits outstanding and no return of a permit fails.
\<close>

locale accounted_pool =
  fixes take_permit :: "'a \<Rightarrow> 's \<Rightarrow> 's option"
    and give_permit :: "'a \<Rightarrow> 's \<Rightarrow> 's run"
    and used :: "'s \<Rightarrow> 'k \<Rightarrow> nat"
    and cost :: "'a \<Rightarrow> 'k \<Rightarrow> nat"
  assumes take_used: "take_permit a s = Some t \<Longrightarrow> used t k = used s k + cost a k"
    and give_used: "(\<And>k. cost a k \<le> used s k) \<Longrightarrow>
      \<exists>t. give_permit a s = Returns t \<and> (\<forall>k. used t k = used s k - cost a k)"
begin

lemma accounting_step:
  assumes "pool_step take_permit give_permit (s, ps) (t, qs)"
    and "\<And>k. used s k = sum_list (map (\<lambda>a. cost a k) ps)"
  shows "used t k = sum_list (map (\<lambda>a. cost a k) qs)"
  using assms(1)
proof cases
  case (pool_take a)
  then show ?thesis using assms(2) take_used by simp
next
  case (pool_give a)
  then have le: "cost a k \<le> used s k" for k
    by (simp add: assms(2) member_le_sum_list)
  have "used t k = used s k - cost a k" for k
    using give_used [OF le] pool_give by auto
  then show ?thesis
    using pool_give by (simp add: assms(2) sum_list_map_remove1)
qed

lemma accounting:
  assumes "(pool_step take_permit give_permit)\<^sup>*\<^sup>* (s0, []) (s, ps)" "\<And>k. used s0 k = 0"
  shows "used s k = sum_list (map (\<lambda>a. cost a k) ps)"
proof -
  have "\<forall>k. used (fst x) k = sum_list (map (\<lambda>a. cost a k) (snd x))"
    if "(pool_step take_permit give_permit)\<^sup>*\<^sup>* (s0, []) x" for x
    using that
  proof (induction rule: rtranclp_induct)
    case base
    show ?case using assms(2) by simp
  next
    case (step y z)
    then show ?case using accounting_step [of "fst y" "snd y" "fst z" "snd z"] by simp
  qed
  from this [OF assms(1)] show ?thesis by simp
qed

lemma give_returns:
  assumes "(pool_step take_permit give_permit)\<^sup>*\<^sup>* (s0, []) (s, ps)" "\<And>k. used s0 k = 0"
    and "a \<in> set ps"
  shows "\<exists>t. give_permit a s = Returns t"
proof -
  have "cost a k \<le> used s k" for k
    using assms(3) by (simp add: accounting [OF assms(1,2)] member_le_sum_list)
  then show ?thesis using give_used by blast
qed

end


section \<open>Generic lemmas\<close>

lemma option_bind_Some_iff [simp]:
  "Option.bind m f = Some y \<longleftrightarrow> (\<exists>x. m = Some x \<and> f x = Some y)"
  by (cases m) auto

lemma unat_and_mask: "unat ((s :: 'w::len word) AND mask k) = unat s mod 2 ^ k"
  by (subst take_bit_eq_mask [symmetric], subst unsigned_take_bit_eq, simp only: take_bit_eq_mod)

lemma bit_word_iff_odd: "bit (s :: 'w::len word) k \<longleftrightarrow> odd (unat s div 2 ^ k)"
proof -
  have "bit s k = bit (unat s) k" by (simp add: bit_unsigned_iff)
  then show ?thesis by (simp add: bit_iff_odd)
qed


text \<open>Bit fields of numbers: a field below a shifted one is a sum.\<close>

lemma or_below:
  assumes "x < 2 ^ k"
  shows "(push_bit k a OR x :: nat) = a * 2 ^ k + x"
proof -
  have "push_bit k a AND x = 0"
  proof (rule bit_eqI)
    fix n
    have "bit x n \<Longrightarrow> n < k"
      using assms by (metis bit_take_bit_iff take_bit_nat_eq_self)
    then show "bit (push_bit k a AND x) n = bit (0::nat) n"
      by (auto simp: bit_and_iff bit_push_bit_iff)
  qed
  then show ?thesis
    by (simp add: disjunctive_add_eq_or [symmetric] push_bit_eq_mult)
qed

lemma unat_u32: "unat (x :: u32) < 4294967296"
proof -
  have "unat x < 2 ^ LENGTH(32)" by (rule unsigned_less)
  then show ?thesis by simp
qed

lemma widen_u32: "unat (ucast (x :: u32) :: u64) = unat x"
  using unat_u32 [of x] by (simp add: unsigned_ucast_eq take_bit_nat_eq_self)

end
