(* ===== verification/Sealable_Counter.thy ===== *)
theory Sealable_Counter
  imports Prelude
begin

text \<open>
  The fail-stop admission counter of \<open>crates/xlfn-kernel/src/sealable_counter.rs\<close> and its
  transition functions (\<open>sealable_counter/transitions.rs\<close>): one machine word holds the
  sealed bit, the waiting bit and the number of active permits. The theory models the
  32-bit, the 64-bit and the pointer-width transitions and every operation of
  \<open>SealableCounter\<close>, gives the abstract counter (three separate fields) and shows that the
  word operations implement it.
\<close>

section \<open>Layout and transitions\<close>

datatype 'a TransitionOutcome = Success 'a | Rejected | FailStop

datatype ReleaseOutcome = StillActive | BecameIdle

datatype Sealed = Sealed

datatype ReopenError = ReopenError

definition SEALED_BIT_32 :: u32 where "SEALED_BIT_32 = 0x80000000"
definition WAITING_BIT_32 :: u32 where "WAITING_BIT_32 = 0x40000000"
definition ACTIVE_COUNT_MASK_32 :: u32 where "ACTIVE_COUNT_MASK_32 = 0x3FFFFFFF"

definition SEALED_BIT_64 :: u64 where "SEALED_BIT_64 = 0x8000000000000000"
definition WAITING_BIT_64 :: u64 where "WAITING_BIT_64 = 0x4000000000000000"
definition ACTIVE_COUNT_MASK_64 :: u64 where "ACTIVE_COUNT_MASK_64 = 0x3FFFFFFFFFFFFFFF"

definition acquire_step_32 :: "u32 \<Rightarrow> u32 TransitionOutcome" where
  "acquire_step_32 s =
     (if s AND SEALED_BIT_32 \<noteq> 0 then Rejected
      else if s AND ACTIVE_COUNT_MASK_32 = ACTIVE_COUNT_MASK_32 then FailStop
      else Success (s + 1))"

definition acquire_step_64 :: "u64 \<Rightarrow> u64 TransitionOutcome" where
  "acquire_step_64 s =
     (if s AND SEALED_BIT_64 \<noteq> 0 then Rejected
      else if s AND ACTIVE_COUNT_MASK_64 = ACTIVE_COUNT_MASK_64 then FailStop
      else Success (s + 1))"

definition release_step_32 :: "u32 \<Rightarrow> u32 TransitionOutcome" where
  "release_step_32 s =
     (if s AND ACTIVE_COUNT_MASK_32 = 0 then FailStop else Success (s - 1))"

definition release_step_64 :: "u64 \<Rightarrow> u64 TransitionOutcome" where
  "release_step_64 s =
     (if s AND ACTIVE_COUNT_MASK_64 = 0 then FailStop else Success (s - 1))"

definition release_without_notification_step_32 :: "u32 \<Rightarrow> u32 TransitionOutcome" where
  "release_without_notification_step_32 s =
     (let active = s AND ACTIVE_COUNT_MASK_32 in
      if active = 0 then FailStop
      else if active = 1 \<and> s AND WAITING_BIT_32 \<noteq> 0 then Rejected
      else Success (s - 1))"

definition release_without_notification_step_64 :: "u64 \<Rightarrow> u64 TransitionOutcome" where
  "release_without_notification_step_64 s =
     (let active = s AND ACTIVE_COUNT_MASK_64 in
      if active = 0 then FailStop
      else if active = 1 \<and> s AND WAITING_BIT_64 \<noteq> 0 then Rejected
      else Success (s - 1))"

definition release_outcome_step_32 :: "u32 \<Rightarrow> ReleaseOutcome" where
  "release_outcome_step_32 p =
     (if p AND ACTIVE_COUNT_MASK_32 = 1 then BecameIdle else StillActive)"

definition release_outcome_step_64 :: "u64 \<Rightarrow> ReleaseOutcome" where
  "release_outcome_step_64 p =
     (if p AND ACTIVE_COUNT_MASK_64 = 1 then BecameIdle else StillActive)"

definition reopen_step_32 :: "u32 \<Rightarrow> u32 TransitionOutcome" where
  "reopen_step_32 s =
     (if s AND SEALED_BIT_32 \<noteq> 0 \<and> s AND ACTIVE_COUNT_MASK_32 = 0 then Success 0
      else Rejected)"

definition reopen_step_64 :: "u64 \<Rightarrow> u64 TransitionOutcome" where
  "reopen_step_64 s =
     (if s AND SEALED_BIT_64 \<noteq> 0 \<and> s AND ACTIVE_COUNT_MASK_64 = 0 then Success 0
      else Rejected)"

text \<open>
  The pointer-width layout of \<open>sealable_counter.rs\<close>: the constants are computed from
  \<open>usize::BITS\<close>, here the length of the word type. The adapters run the same
  transitions on it; \<open>adapters_agree_32\<close> and \<open>adapters_agree_64\<close> below show that at each
  supported width they are the width-specific ones.
\<close>

definition SEALED_BIT :: "'w::len word" where
  "SEALED_BIT = push_bit (LENGTH('w) - 1) 1"

definition WAITING_BIT :: "'w::len word" where
  "WAITING_BIT = drop_bit 1 SEALED_BIT"

definition ACTIVE_COUNT_MASK :: "'w::len word" where
  "ACTIVE_COUNT_MASK = WAITING_BIT - 1"

definition acquire_step :: "'w::len word \<Rightarrow> 'w word TransitionOutcome" where
  "acquire_step s =
     (if s AND SEALED_BIT \<noteq> 0 then Rejected
      else if s AND ACTIVE_COUNT_MASK = ACTIVE_COUNT_MASK then FailStop
      else Success (s + 1))"

definition release_step :: "'w::len word \<Rightarrow> 'w word TransitionOutcome" where
  "release_step s =
     (if s AND ACTIVE_COUNT_MASK = 0 then FailStop else Success (s - 1))"

definition release_without_notification_step :: "'w::len word \<Rightarrow> 'w word TransitionOutcome" where
  "release_without_notification_step s =
     (let active = s AND ACTIVE_COUNT_MASK in
      if active = 0 then FailStop
      else if active = 1 \<and> s AND WAITING_BIT \<noteq> 0 then Rejected
      else Success (s - 1))"

definition release_outcome_step :: "'w::len word \<Rightarrow> ReleaseOutcome" where
  "release_outcome_step p =
     (if p AND ACTIVE_COUNT_MASK = 1 then BecameIdle else StillActive)"

definition reopen_step :: "'w::len word \<Rightarrow> 'w word TransitionOutcome" where
  "reopen_step s =
     (if s AND SEALED_BIT \<noteq> 0 \<and> s AND ACTIVE_COUNT_MASK = 0 then Success 0
      else Rejected)"

definition idle_seal_logic :: "'w::len word \<Rightarrow> 'w word option" where
  "idle_seal_logic s =
     (if s AND (SEALED_BIT OR ACTIVE_COUNT_MASK) = 0 then Some (s OR SEALED_BIT) else None)"

definition undo_idle_seal_logic :: "'w::len word \<Rightarrow> 'w word option" where
  "undo_idle_seal_logic s =
     (if s AND SEALED_BIT \<noteq> 0 \<and> s AND ACTIVE_COUNT_MASK = 0
      then Some (s AND NOT SEALED_BIT) else None)"


section \<open>The counter\<close>

text \<open>
  The state of \<open>SealableCounter\<close> is its one atomic word. Each operation is one atomic
  read-modify-write (Rust's \<open>try_update\<close> retries a compare-exchange until it applies the
  update to the value it replaces), so it is a function from the word to a result and
  the next word. The operations hand a transition's \<open>FailStop\<close> to \<open>fail_stop\<close>.
\<close>

definition to_update :: "'a TransitionOutcome \<Rightarrow> 'a option run" where
  "to_update t = (case t of Success next \<Rightarrow> Returns (Some next)
                          | Rejected \<Rightarrow> Returns None
                          | FailStop \<Rightarrow> Aborts)"

definition acquire_update :: "'w::len word \<Rightarrow> 'w word option run" where
  "acquire_update s = to_update (acquire_step s)"

definition release_update :: "'w::len word \<Rightarrow> 'w word option run" where
  "release_update s = to_update (release_step s)"

definition release_without_notification_update :: "'w::len word \<Rightarrow> 'w word option run" where
  "release_without_notification_update s = to_update (release_without_notification_step s)"

definition reopen_update :: "'w::len word \<Rightarrow> 'w word option run" where
  "reopen_update s = to_update (reopen_step s)"

definition try_update ::
    "('a \<Rightarrow> 'a option run) \<Rightarrow> 'a \<Rightarrow> (('a + 'a) \<times> 'a) run" where
  "try_update f s =
     bind_run (f s) (\<lambda>r. Returns (case r of None \<Rightarrow> (Inl s, s) | Some n \<Rightarrow> (Inr s, n)))"

definition new_open :: "'w::len word" where
  "new_open = 0"

definition new_sealed :: "'w::len word" where
  "new_sealed = SEALED_BIT"

definition try_acquire :: "'w::len word \<Rightarrow> ((Sealed + unit) \<times> 'w word) run" where
  "try_acquire s =
     bind_run (try_update acquire_update s)
       (\<lambda>(r, n). Returns (case r of Inl _ \<Rightarrow> Inl Sealed | Inr _ \<Rightarrow> Inr (), n))"

definition release :: "'w::len word \<Rightarrow> (ReleaseOutcome \<times> 'w word) run" where
  "release s =
     bind_run (try_update release_update s)
       (\<lambda>(r, n). case r of Inl _ \<Rightarrow> Aborts
                         | Inr previous \<Rightarrow> Returns (release_outcome_step previous, n))"

definition try_release_without_notification ::
    "'w::len word \<Rightarrow> (ReleaseOutcome option \<times> 'w word) run" where
  "try_release_without_notification s =
     bind_run (try_update release_without_notification_update s)
       (\<lambda>(r, n). Returns (case r of Inl _ \<Rightarrow> None
                                  | Inr previous \<Rightarrow> Some (release_outcome_step previous), n))"

definition mark_waiting :: "'w::len word \<Rightarrow> 'w word \<times> 'w word" where
  "mark_waiting s = (s AND ACTIVE_COUNT_MASK, s OR WAITING_BIT)"

definition seal :: "'w::len word \<Rightarrow> 'w word" where
  "seal s = s OR SEALED_BIT"

text \<open>
  \<open>try_seal_if_idle\<close> loads the word and compare-exchanges it in a second step: between
  the two the word may have become \<open>current\<close>. It does not retry.
\<close>

definition try_idle_seal :: "'w::len word \<Rightarrow> 'w word \<Rightarrow> bool \<times> 'w word" where
  "try_idle_seal observed current =
     (case idle_seal_logic observed of
        Some next \<Rightarrow> if current = observed then (True, next) else (False, current)
      | None \<Rightarrow> (False, current))"

definition try_seal_if_idle :: "'w::len word \<Rightarrow> bool \<times> 'w word" where
  "try_seal_if_idle s = try_idle_seal s s"

definition undo_idle_seal :: "'w::len word \<Rightarrow> (ReopenError + unit) \<times> 'w word" where
  "undo_idle_seal s =
     (case undo_idle_seal_logic s of None \<Rightarrow> (Inl ReopenError, s) | Some n \<Rightarrow> (Inr (), n))"

definition reopen :: "'w::len word \<Rightarrow> ((ReopenError + unit) \<times> 'w word) run" where
  "reopen s =
     bind_run (try_update reopen_update s)
       (\<lambda>(r, n). Returns (case r of Inl _ \<Rightarrow> Inl ReopenError | Inr _ \<Rightarrow> Inr (), n))"

definition is_sealed :: "'w::len word \<Rightarrow> bool" where
  "is_sealed s \<longleftrightarrow> s AND SEALED_BIT \<noteq> 0"

definition active :: "'w::len word \<Rightarrow> 'w word" where
  "active s = s AND ACTIVE_COUNT_MASK"


section \<open>The abstract counter\<close>

text \<open>
  What the packed word stands for: an admission that may be sealed, a drain notification
  that may be requested, and the number of permits out. The abstract operations are the
  ones of a counter with a limit; the limit is the largest number the mask holds.
\<close>

definition is_waiting :: "'w::len word \<Rightarrow> bool" where
  "is_waiting s \<longleftrightarrow> s AND WAITING_BIT \<noteq> 0"

definition permits :: "'w::len word \<Rightarrow> nat" where
  "permits s = unat (active s)"

record counter_view =
  v_sealed :: bool
  v_waiting :: bool
  v_active :: nat

definition view :: "'w::len word \<Rightarrow> counter_view" where
  "view s = \<lparr>v_sealed = is_sealed s, v_waiting = is_waiting s, v_active = permits s\<rparr>"

definition active_limit :: "'w::len itself \<Rightarrow> nat" where
  "active_limit _ = 2 ^ (LENGTH('w) - 2) - 1"

definition spec_acquire :: "nat \<Rightarrow> counter_view \<Rightarrow> counter_view TransitionOutcome" where
  "spec_acquire limit v =
     (if v_sealed v then Rejected
      else if v_active v = limit then FailStop
      else Success (v\<lparr>v_active := v_active v + 1\<rparr>))"

definition spec_release :: "counter_view \<Rightarrow> counter_view TransitionOutcome" where
  "spec_release v =
     (if v_active v = 0 then FailStop else Success (v\<lparr>v_active := v_active v - 1\<rparr>))"

definition spec_release_without_notification :: "counter_view \<Rightarrow> counter_view TransitionOutcome" where
  "spec_release_without_notification v =
     (if v_active v = 0 then FailStop
      else if v_active v = 1 \<and> v_waiting v then Rejected
      else Success (v\<lparr>v_active := v_active v - 1\<rparr>))"

definition spec_reopen :: "counter_view \<Rightarrow> counter_view TransitionOutcome" where
  "spec_reopen v =
     (if v_sealed v \<and> v_active v = 0
      then Success \<lparr>v_sealed = False, v_waiting = False, v_active = 0\<rparr> else Rejected)"


section \<open>The word implements the abstract counter\<close>

subsection \<open>Reading the word\<close>

named_theorems layout "the layout constants as powers of two"

lemma WAITING_BIT_eq [layout]:
  assumes "2 < LENGTH('w::len)"
  shows "(WAITING_BIT :: 'w word) = push_bit (LENGTH('w) - 2) 1"
proof -
  have "(WAITING_BIT :: 'w word) = drop_bit 1 (push_bit (Suc (LENGTH('w) - 2)) 1)"
    using assms by (simp add: WAITING_BIT_def SEALED_BIT_def Suc_diff_Suc numeral_2_eq_2)
  also have "\<dots> = push_bit (LENGTH('w) - 2) 1"
    using assms by (intro bit_word_eqI) (auto simp: bit_simps)
  finally show ?thesis .
qed

lemma ACTIVE_COUNT_MASK_eq [layout]:
  assumes "2 < LENGTH('w::len)"
  shows "(ACTIVE_COUNT_MASK :: 'w word) = mask (LENGTH('w) - 2)"
  by (simp add: ACTIVE_COUNT_MASK_def WAITING_BIT_eq [OF assms] mask_eq_exp_minus_1 push_bit_eq_mult)

lemma is_sealed_iff: "is_sealed (s :: 'w::len word) \<longleftrightarrow> bit s (LENGTH('w) - 1)"
  by (simp add: is_sealed_def SEALED_BIT_def bit_iff_and_push_bit_not_eq_0)

lemma waiting_iff:
  "2 < LENGTH('w::len) \<Longrightarrow> is_waiting (s :: 'w word) \<longleftrightarrow> bit s (LENGTH('w) - 2)"
  by (simp add: is_waiting_def WAITING_BIT_eq bit_iff_and_push_bit_not_eq_0)

lemma permits_mod:
  "2 < LENGTH('w::len) \<Longrightarrow> permits (s :: 'w word) = unat s mod 2 ^ (LENGTH('w) - 2)"
  by (simp add: permits_def active_def ACTIVE_COUNT_MASK_eq unat_and_mask)

lemma permits_less:
  assumes "2 < LENGTH('w::len)"
  shows "permits (s :: 'w word) < 2 ^ (LENGTH('w) - 2)"
  by (simp add: permits_mod [OF assms])

text \<open>The three fields as digits of the word's value.\<close>

lemma quarters:
  assumes "2 < LENGTH('w::len)"
  shows "unat (s :: 'w word) div 2 ^ (LENGTH('w) - 2) < 4"
proof -
  have "LENGTH('w) = LENGTH('w) - 2 + 2"
    using assms by simp
  then have "(2::nat) ^ LENGTH('w) = 2 ^ (LENGTH('w) - 2) * 2 ^ 2"
    by (metis power_add)
  then have "unat s < 2 ^ (LENGTH('w) - 2) * 4"
    using unsigned_less [of s, where 'a = nat] by simp
  then show ?thesis
    by (simp add: less_mult_imp_div_less mult.commute)
qed

lemma view_digits:
  assumes "2 < LENGTH('w::len)"
  shows "view (s :: 'w word) =
    (let N = 2 ^ (LENGTH('w) - 2); q = unat s div N
     in \<lparr>v_sealed = (2 \<le> q), v_waiting = odd q, v_active = unat s mod N\<rparr>)"
proof -
  define N :: nat where "N = 2 ^ (LENGTH('w) - 2)"
  have "LENGTH('w) - 1 = Suc (LENGTH('w) - 2)"
    using assms by simp
  then have "unat s div 2 ^ (LENGTH('w) - 1) = unat s div N div 2"
    by (simp only: N_def power_Suc2 div_mult2_eq)
  moreover have "odd (q div 2) \<longleftrightarrow> 2 \<le> q" if "q < 4" for q :: nat
    using that by presburger
  ultimately have "is_sealed s \<longleftrightarrow> 2 \<le> unat s div N"
    using quarters [OF assms, of s] unfolding is_sealed_iff bit_word_iff_odd N_def by simp
  then show ?thesis
    using assms by (simp add: view_def waiting_iff bit_word_iff_odd permits_mod N_def Let_def)
qed

lemma view_inject:
  assumes w: "2 < LENGTH('w::len)" and eq: "view (s :: 'w word) = view t"
  shows "s = t"
proof -
  define N :: nat where "N = 2 ^ (LENGTH('w) - 2)"
  from eq have "(2 \<le> unat s div N) = (2 \<le> unat t div N)" "odd (unat s div N) = odd (unat t div N)"
    and m: "unat s mod N = unat t mod N"
    by (simp_all add: view_digits [OF w] N_def Let_def)
  moreover have "a = b" if "(2 \<le> a) = (2 \<le> b)" "odd a = odd b" "a < 4" "b < 4" for a b :: nat
    using that by presburger
  ultimately have "unat s div N = unat t div N"
    using quarters [OF w] unfolding N_def by blast
  with m have "unat s = unat t" by (metis div_mult_mod_eq)
  then show ?thesis by (simp add: word_unat_eq_iff)
qed

lemma view_plus_one:
  assumes w: "2 < LENGTH('w::len)" and lt: "v_active (view s) < active_limit TYPE('w)"
  shows "view ((s :: 'w word) + 1) = (view s)\<lparr>v_active := v_active (view s) + 1\<rparr>"
proof -
  define N :: nat where "N = 2 ^ (LENGTH('w) - 2)"
  have N: "0 < N" and m: "Suc (unat s mod N) < N"
    using lt by (simp_all add: view_digits [OF w] active_limit_def N_def Let_def)
  have dm: "Suc (unat s) div N = unat s div N" "Suc (unat s) mod N = Suc (unat s mod N)"
    using m by (simp_all add: div_Suc mod_Suc)
  have "s + 1 \<noteq> 0"
  proof
    assume "s + 1 = 0"
    then have "Suc (unat s) mod 2 ^ LENGTH('w) = 0"
      by (metis unat_word_ariths(1) unat_1 unat_0 Suc_eq_plus1)
    moreover have "N dvd 2 ^ LENGTH('w)"
      by (simp add: N_def le_imp_power_dvd)
    ultimately have "Suc (unat s) mod N = 0"
      by (meson dvd_trans mod_eq_0_iff_dvd)
    then show False using dm by simp
  qed
  then have "unat (s + 1) = Suc (unat s)"
    by (simp add: unatSuc add.commute)
  then show ?thesis
    using dm by (simp add: view_digits [OF w] Let_def flip: N_def)
qed

lemma view_minus_one:
  assumes w: "2 < LENGTH('w::len)" and gt: "0 < v_active (view s)"
  shows "view ((s :: 'w word) - 1) = (view s)\<lparr>v_active := v_active (view s) - 1\<rparr>"
proof -
  define N :: nat where "N = 2 ^ (LENGTH('w) - 2)"
  have m: "0 < unat s mod N"
    using gt by (simp add: view_digits [OF w] N_def Let_def)
  then have pos: "0 < unat s" by (metis mod_0 neq0_conv)
  then have u: "unat (s - 1) = unat s - 1"
    by (metis unat_minus_one unat_0 less_numeral_extra(3))
  obtain u' where u': "unat s = Suc u'"
    using pos gr0_implies_Suc by blast
  have "u' div N = unat s div N" "u' mod N = unat s mod N - 1"
    using m unfolding u' by (auto simp: div_Suc mod_Suc split: if_splits)
  then show ?thesis
    using u u' by (simp add: view_digits [OF w] Let_def flip: N_def)
qed


subsection \<open>Refinement of every transition\<close>

lemma view_eqI:
  "is_sealed s = v_sealed v \<Longrightarrow> is_waiting s = v_waiting v \<Longrightarrow>
   permits s = v_active v \<Longrightarrow> view s = v"
  by (simp add: view_def)

lemma view_sel [simp]:
  "v_sealed (view s) = is_sealed s"
  "v_waiting (view s) = is_waiting s"
  "v_active (view s) = permits s"
  by (simp_all add: view_def)

lemma active_eq_0_iff: "active s = 0 \<longleftrightarrow> permits s = 0"
  by (simp add: permits_def unat_eq_zero)

lemma active_eq_1_iff:
  assumes "2 < LENGTH('w::len)"
  shows "active (s :: 'w word) = 1 \<longleftrightarrow> permits s = 1"
  by (simp add: permits_def word_unat_eq_iff)

lemma active_eq_mask_iff:
  assumes "2 < LENGTH('w::len)"
  shows "active (s :: 'w word) = ACTIVE_COUNT_MASK \<longleftrightarrow> permits s = active_limit TYPE('w)"
proof -
  have "(ACTIVE_COUNT_MASK :: 'w word) = active (- 1)"
    by (simp add: active_def)
  moreover have "permits (- 1 :: 'w word) = active_limit TYPE('w)"
  proof -
    have "permits (- 1 :: 'w word) = take_bit (LENGTH('w) - 2) (mask LENGTH('w) :: nat)"
      by (simp only: permits_mod [OF assms] unsigned_minus_1_eq_mask take_bit_eq_mod)
    then have "permits (- 1 :: 'w word) = mask (LENGTH('w) - 2)"
      by simp
    then show ?thesis
      by (simp add: mask_eq_exp_minus_1 active_limit_def)
  qed
  ultimately show ?thesis
    by (metis permits_def word_unat_eq_iff)
qed

lemma active_le_limit:
  assumes "2 < LENGTH('w::len)"
  shows "permits (s :: 'w word) \<le> active_limit TYPE('w)"
  using permits_less [OF assms, of s] by (simp add: active_limit_def)

lemma acquire_step_refines:
  assumes "2 < LENGTH('w::len)"
  shows "map_TransitionOutcome view (acquire_step (s :: 'w word))
         = spec_acquire (active_limit TYPE('w)) (view s)"
proof -
  have "permits s \<noteq> active_limit TYPE('w) \<Longrightarrow> permits s < active_limit TYPE('w)"
    using active_le_limit [OF assms, of s] by simp
  then show ?thesis
    using active_eq_mask_iff [OF assms, of s] view_plus_one [OF assms, of s]
    by (simp add: acquire_step_def spec_acquire_def is_sealed_def active_def)
qed

lemma release_step_refines:
  assumes "2 < LENGTH('w::len)"
  shows "map_TransitionOutcome view (release_step (s :: 'w word)) = spec_release (view s)"
  using view_minus_one [OF assms, of s] active_eq_0_iff [of s]
  by (simp add: release_step_def spec_release_def active_def)

lemma release_without_notification_step_refines:
  assumes "2 < LENGTH('w::len)"
  shows "map_TransitionOutcome view (release_without_notification_step (s :: 'w word))
         = spec_release_without_notification (view s)"
  using view_minus_one [OF assms, of s] active_eq_0_iff [of s] active_eq_1_iff [OF assms, of s]
  by (simp add: release_without_notification_step_def spec_release_without_notification_def
      active_def is_waiting_def Let_def)

lemma view_zero: "view (0 :: 'w::len word) = \<lparr>v_sealed = False, v_waiting = False, v_active = 0\<rparr>"
  by (simp add: view_def is_sealed_def is_waiting_def permits_def active_def)

lemma reopen_step_refines:
  "map_TransitionOutcome view (reopen_step (s :: 'w::len word)) = spec_reopen (view s)"
  using active_eq_0_iff [of s]
  by (simp add: reopen_step_def spec_reopen_def view_zero is_sealed_def active_def)

lemma view_seal:
  assumes w: "2 < LENGTH('w::len)"
  shows "view (seal (s :: 'w word)) = (view s)\<lparr>v_sealed := True\<rparr>"
proof -
  have "active (seal s) = active s"
    using w by (intro bit_word_eqI)
      (auto simp: active_def seal_def SEALED_BIT_def ACTIVE_COUNT_MASK_eq [OF w] bit_simps)
  moreover have "bit (seal s) (LENGTH('w) - 2) = bit s (LENGTH('w) - 2)"
    using w by (auto simp: seal_def SEALED_BIT_def bit_simps)
  moreover have "is_sealed (seal s)"
    by (simp add: is_sealed_iff seal_def SEALED_BIT_def bit_simps)
  ultimately show ?thesis
    by (intro view_eqI) (simp_all add: waiting_iff [OF w] permits_def)
qed

lemma view_mark_waiting:
  assumes w: "2 < LENGTH('w::len)"
  shows "view (snd (mark_waiting (s :: 'w word))) = (view s)\<lparr>v_waiting := True\<rparr>"
    and "unat (fst (mark_waiting s)) = v_active (view s)"
proof -
  let ?t = "s OR WAITING_BIT"
  have "active ?t = active s"
    using w by (intro bit_word_eqI)
      (auto simp: active_def WAITING_BIT_eq [OF w] ACTIVE_COUNT_MASK_eq [OF w] bit_simps)
  moreover have "is_sealed ?t = is_sealed s"
    using w by (auto simp: is_sealed_iff WAITING_BIT_eq [OF w] bit_simps)
  moreover have "(WAITING_BIT :: 'w word) \<noteq> 0"
    using w by (simp add: WAITING_BIT_eq [OF w])
  ultimately show "view (snd (mark_waiting s)) = (view s)\<lparr>v_waiting := True\<rparr>"
    by (intro view_eqI) (simp_all add: mark_waiting_def is_waiting_def permits_def)
  show "unat (fst (mark_waiting s)) = v_active (view s)"
    by (simp add: mark_waiting_def permits_def active_def)
qed


named_theorems counter_fields "the fields of the word after each operation"

lemma fields_plus_one [counter_fields]:
  assumes "2 < LENGTH('w::len)" "permits s < active_limit TYPE('w)"
  shows "is_sealed ((s :: 'w word) + 1) = is_sealed s" "is_waiting (s + 1) = is_waiting s"
    "permits (s + 1) = Suc (permits s)"
  using view_plus_one [OF assms(1), of s] assms(2) by (simp_all add: view_def)

lemma fields_minus_one [counter_fields]:
  assumes "2 < LENGTH('w::len)" "0 < permits s"
  shows "is_sealed ((s :: 'w word) - 1) = is_sealed s" "is_waiting (s - 1) = is_waiting s"
    "permits (s - 1) = permits s - 1"
  using view_minus_one [OF assms(1), of s] assms(2) by (simp_all add: view_def)

lemma fields_seal [counter_fields]:
  assumes "2 < LENGTH('w::len)"
  shows "is_sealed (seal (s :: 'w word))" "is_waiting (seal s) = is_waiting s"
    "permits (seal s) = permits s"
  using view_seal [OF assms, of s] by (simp_all add: view_def)

lemma fields_mark_waiting [counter_fields]:
  assumes "2 < LENGTH('w::len)"
  shows "is_sealed (snd (mark_waiting (s :: 'w word))) = is_sealed s"
    "is_waiting (snd (mark_waiting s))" "permits (snd (mark_waiting s)) = permits s"
  using view_mark_waiting(1) [OF assms, of s] by (simp_all add: view_def)

lemma fields_zero [counter_fields]:
  "\<not> is_sealed (0 :: 'w::len word)" "\<not> is_waiting (0 :: 'w word)" "permits (0 :: 'w word) = 0"
  using view_zero [where 'w = 'w] by (simp_all add: view_def)

lemma fields_new_sealed [counter_fields]:
  assumes "2 < LENGTH('w::len)"
  shows "is_sealed (new_sealed :: 'w word)" "\<not> is_waiting (new_sealed :: 'w word)"
    "permits (new_sealed :: 'w word) = 0"
  using fields_seal [OF assms, of 0] fields_zero [where 'w = 'w]
  by (simp_all add: seal_def new_sealed_def)

subsection \<open>The width-specific transitions are the pointer-width ones\<close>

lemma layout_32 [simp]:
  "(SEALED_BIT :: u32) = SEALED_BIT_32" "(WAITING_BIT :: u32) = WAITING_BIT_32"
  "(ACTIVE_COUNT_MASK :: u32) = ACTIVE_COUNT_MASK_32"
  by (simp_all add: ACTIVE_COUNT_MASK_def WAITING_BIT_def SEALED_BIT_def
      SEALED_BIT_32_def WAITING_BIT_32_def ACTIVE_COUNT_MASK_32_def)

lemma layout_64 [simp]:
  "(SEALED_BIT :: u64) = SEALED_BIT_64" "(WAITING_BIT :: u64) = WAITING_BIT_64"
  "(ACTIVE_COUNT_MASK :: u64) = ACTIVE_COUNT_MASK_64"
  by (simp_all add: ACTIVE_COUNT_MASK_def WAITING_BIT_def SEALED_BIT_def
      SEALED_BIT_64_def WAITING_BIT_64_def ACTIVE_COUNT_MASK_64_def)

lemma adapters_agree_32:
  "acquire_step = acquire_step_32"
  "release_step = release_step_32"
  "release_without_notification_step = release_without_notification_step_32"
  "release_outcome_step = release_outcome_step_32"
  "reopen_step = reopen_step_32"
  by (simp_all add: fun_eq_iff acquire_step_def acquire_step_32_def release_step_def
      release_step_32_def release_without_notification_step_def
      release_without_notification_step_32_def release_outcome_step_def
      release_outcome_step_32_def reopen_step_def reopen_step_32_def Let_def)

lemma adapters_agree_64:
  "acquire_step = acquire_step_64"
  "release_step = release_step_64"
  "release_without_notification_step = release_without_notification_step_64"
  "release_outcome_step = release_outcome_step_64"
  "reopen_step = reopen_step_64"
  by (simp_all add: fun_eq_iff acquire_step_def acquire_step_64_def release_step_def
      release_step_64_def release_without_notification_step_def
      release_without_notification_step_64_def release_outcome_step_def
      release_outcome_step_64_def reopen_step_def reopen_step_64_def Let_def)


section \<open>The operations, by the fields they read\<close>

lemmas update_defs = try_update_def to_update_def acquire_update_def release_update_def
  release_without_notification_update_def reopen_update_def

lemma try_acquire_cases:
  assumes "2 < LENGTH('w::len)"
  shows "try_acquire (s :: 'w word) =
    (if is_sealed s then Returns (Inl Sealed, s)
     else if permits s = active_limit TYPE('w) then Aborts
     else Returns (Inr (), s + 1))"
  using active_eq_mask_iff [OF assms, of s]
  by (simp add: try_acquire_def update_defs acquire_step_def is_sealed_def active_def)

lemma release_outcome_iff:
  assumes "2 < LENGTH('w::len)"
  shows "release_outcome_step (s :: 'w word) =
    (if permits s = 1 then BecameIdle else StillActive)"
  using active_eq_1_iff [OF assms, of s] by (simp add: release_outcome_step_def active_def)

lemma release_cases:
  assumes "2 < LENGTH('w::len)"
  shows "release (s :: 'w word) =
    (if permits s = 0 then Aborts
     else Returns (if permits s = 1 then BecameIdle else StillActive, s - 1))"
  using active_eq_0_iff [of s]
  by (simp add: release_def update_defs release_step_def release_outcome_iff [OF assms] active_def)

lemma try_release_without_notification_cases:
  assumes "2 < LENGTH('w::len)"
  shows "try_release_without_notification (s :: 'w word) =
    (if permits s = 0 then Aborts
     else if permits s = 1 \<and> is_waiting s then Returns (None, s)
     else Returns (Some (if permits s = 1 then BecameIdle else StillActive), s - 1))"
  using active_eq_0_iff [of s] active_eq_1_iff [OF assms, of s]
  by (simp add: try_release_without_notification_def update_defs Let_def
      release_without_notification_step_def release_outcome_iff [OF assms] active_def is_waiting_def)

lemma reopen_cases:
  "reopen (s :: 'w::len word) =
    (if is_sealed s \<and> permits s = 0 then Returns (Inr (), 0)
     else Returns (Inl ReopenError, s))"
  using active_eq_0_iff [of s]
  by (simp add: reopen_def update_defs reopen_step_def is_sealed_def active_def)

lemma idle_seal_logic_cases:
  "idle_seal_logic (s :: 'w::len word) =
    (if \<not> is_sealed s \<and> permits s = 0 then Some (seal s) else None)"
  using active_eq_0_iff [of s]
  by (simp add: idle_seal_logic_def is_sealed_def active_def seal_def
      bit.conj_disj_distrib or_eq_0_iff)

lemma undo_seal:
  assumes "\<not> is_sealed s"
  shows "seal s AND NOT SEALED_BIT = (s :: 'w::len word)"
  using assms by (intro bit_word_eqI)
    (auto simp: is_sealed_iff seal_def SEALED_BIT_def bit_simps)


text \<open>What each operation tells its caller when it returns.\<close>

lemma try_acquire_InrD:
  assumes "2 < LENGTH('w::len)" "try_acquire (s :: 'w word) = Returns (Inr (), c)"
  shows "\<not> is_sealed s \<and> \<not> is_sealed c \<and> is_waiting c = is_waiting s \<and> permits c = Suc (permits s)"
proof -
  from assms have "\<not> is_sealed s" "permits s \<noteq> active_limit TYPE('w)" "c = s + 1"
    by (auto simp: try_acquire_cases split: if_splits)
  moreover from this have "permits s < active_limit TYPE('w)"
    using active_le_limit [OF assms(1), of s] by simp
  ultimately show ?thesis
    using assms(1) by (simp add: counter_fields)
qed

lemma try_acquire_InlD:
  assumes "2 < LENGTH('w::len)" "try_acquire (s :: 'w word) = Returns (Inl e, c)"
  shows "is_sealed s \<and> c = s"
  using assms by (auto simp: try_acquire_cases split: if_splits)

lemma try_release_SomeD:
  assumes "2 < LENGTH('w::len)"
    "try_release_without_notification (s :: 'w word) = Returns (Some out, c)"
  shows "0 < permits s \<and> permits c = permits s - 1 \<and> is_sealed c = is_sealed s \<and>
    is_waiting c = is_waiting s \<and> (is_waiting s \<longrightarrow> 0 < permits c) \<and>
    (out = BecameIdle \<longleftrightarrow> permits c = 0)"
  using assms by (auto simp: try_release_without_notification_cases counter_fields split: if_splits)

lemma try_release_NoneD:
  assumes "2 < LENGTH('w::len)"
    "try_release_without_notification (s :: 'w word) = Returns (None, c)"
  shows "permits s = 1 \<and> is_waiting s \<and> c = s"
  using assms by (auto simp: try_release_without_notification_cases split: if_splits)

lemma releaseD:
  assumes "2 < LENGTH('w::len)" "release (s :: 'w word) = Returns (out, c)"
  shows "0 < permits s \<and> permits c = permits s - 1 \<and> is_sealed c = is_sealed s \<and>
    is_waiting c = is_waiting s \<and> (out = BecameIdle \<longleftrightarrow> permits c = 0)"
  using assms by (auto simp: release_cases counter_fields split: if_splits)

lemma mark_waitingD:
  assumes "2 < LENGTH('w::len)" "mark_waiting (s :: 'w word) = (n, c)"
  shows "is_waiting c \<and> is_sealed c = is_sealed s \<and> permits c = permits s \<and> (n = 0 \<longleftrightarrow> permits s = 0)"
  using fields_mark_waiting [OF assms(1), of s] assms(2) active_eq_0_iff [of s]
  by (auto simp: mark_waiting_def active_def)

lemma reopen_InrD:
  assumes "reopen (s :: 'w::len word) = Returns (Inr r, c)"
  shows "is_sealed s \<and> permits s = 0 \<and> \<not> is_sealed c \<and> \<not> is_waiting c \<and> permits c = 0"
  using assms by (auto simp: reopen_cases counter_fields split: if_splits)

lemmas counter_dests = try_acquire_InrD try_acquire_InlD try_release_SomeD try_release_NoneD
  releaseD mark_waitingD

section \<open>Interface: sealable admission\<close>

text \<open>
  What the owners of a gate rely on: admission through a sealed counter is refused and
  leaves it unchanged, and no operation other than a reopen unseals it or adds to the
  active count. Then a sealed counter refuses every later admission and can only drain.
\<close>

locale admission =
  fixes enter :: "'s \<Rightarrow> ((Sealed + unit) \<times> 's) run"
    and sealed :: "'s \<Rightarrow> bool"
    and count :: "'s \<Rightarrow> nat"
    and move :: "'s \<Rightarrow> 's \<Rightarrow> bool"
  assumes enter_sealed: "sealed s \<Longrightarrow> enter s = Returns (Inl Sealed, s)"
    and move_sealed: "sealed s \<Longrightarrow> move s t \<Longrightarrow> sealed t \<and> count t \<le> count s"
begin

lemma sealed_moves:
  assumes "move\<^sup>*\<^sup>* s t" "sealed s"
  shows "sealed t \<and> count t \<le> count s"
  using assms by (induction rule: rtranclp_induct) (auto dest: move_sealed)

lemma sealed_forever: "move\<^sup>*\<^sup>* s t \<Longrightarrow> sealed s \<Longrightarrow> enter t = Returns (Inl Sealed, t)"
  using sealed_moves enter_sealed by blast

lemma drained_forever: "move\<^sup>*\<^sup>* s t \<Longrightarrow> sealed s \<Longrightarrow> count s = 0 \<Longrightarrow> count t = 0"
  using sealed_moves by fastforce

end

text \<open>The moves of a counter that no owner has reopened.\<close>

inductive counter_step :: "'w::len word \<Rightarrow> 'w word \<Rightarrow> bool" where
  acquire: "try_acquire s = Returns (r, t) \<Longrightarrow> counter_step s t"
| release_slow: "release s = Returns (o1, t) \<Longrightarrow> counter_step s t"
| release_fast: "try_release_without_notification s = Returns (o2, t) \<Longrightarrow> counter_step s t"
| mark: "counter_step s (snd (mark_waiting s))"
| do_seal: "counter_step s (seal s)"
| seal_idle: "try_idle_seal observed s = (b, t) \<Longrightarrow> counter_step s t"

lemma try_idle_seal_cases:
  "try_idle_seal observed (s :: 'w::len word) =
    (if s = observed \<and> \<not> is_sealed s \<and> permits s = 0 then (True, seal s) else (False, s))"
  by (simp add: try_idle_seal_def idle_seal_logic_cases)

lemma counter_step_sealed:
  assumes w: "2 < LENGTH('w::len)" and s: "is_sealed s" and st: "counter_step s (t :: 'w word)"
  shows "is_sealed t \<and> permits t \<le> permits s"
  using st
proof cases
  case (acquire r)
  with s show ?thesis by (simp add: try_acquire_cases [OF w])
next
  case (release_slow o1)
  with s show ?thesis
    by (auto simp: release_cases [OF w] counter_fields w split: if_splits)
next
  case (release_fast o2)
  with s show ?thesis
    by (auto simp: try_release_without_notification_cases [OF w] counter_fields w split: if_splits)
next
  case mark
  with s show ?thesis by (simp add: counter_fields w)
next
  case do_seal
  then show ?thesis by (simp add: counter_fields w)
next
  case (seal_idle observed b)
  with s show ?thesis by (simp add: try_idle_seal_cases)
qed

interpretation counter32: admission "try_acquire :: u32 \<Rightarrow> _" is_sealed permits counter_step
  by unfold_locales (use counter_step_sealed [where 'w = 32] in \<open>auto simp: try_acquire_cases\<close>)

interpretation counter64: admission "try_acquire :: u64 \<Rightarrow> _" is_sealed permits counter_step
  by unfold_locales (use counter_step_sealed [where 'w = 64] in \<open>auto simp: try_acquire_cases\<close>)


text \<open>
  The pointer-width adapters run the transition functions of the target's width: at 32
  bits they are the 32-bit functions, at 64 bits the 64-bit functions, layout constants
  included.
\<close>

lemma usize_adapters_agree:
  "(acquire_step, release_step, release_without_notification_step, release_outcome_step, reopen_step)
   = (acquire_step_32, release_step_32, release_without_notification_step_32,
      release_outcome_step_32, reopen_step_32) \<and>
   (acquire_step, release_step, release_without_notification_step, release_outcome_step, reopen_step)
   = (acquire_step_64, release_step_64, release_without_notification_step_64,
      release_outcome_step_64, reopen_step_64)"
  by (simp add: adapters_agree_32 adapters_agree_64)

section \<open>What the counter promises\<close>

text \<open>
  C5: the packed word implements the abstract counter. On every word, at every width of
  more than two bits, each transition function has the outcome of the abstract operation
  on the three fields the word stands for, rejections and fail-stops included: no
  arithmetic on the word carries from one field into another. Two different words stand
  for different fields.
\<close>

theorem counter_refines_abstract:
  assumes "2 < LENGTH('w::len)"
  shows "map_TransitionOutcome view (acquire_step (s :: 'w word))
           = spec_acquire (active_limit TYPE('w)) (view s) \<and>
    map_TransitionOutcome view (release_step s) = spec_release (view s) \<and>
    map_TransitionOutcome view (release_without_notification_step s)
      = spec_release_without_notification (view s) \<and>
    map_TransitionOutcome view (reopen_step s) = spec_reopen (view s) \<and>
    (\<forall>t. view s = view t \<longrightarrow> s = t)"
  using acquire_step_refines [OF assms, of s] release_step_refines [OF assms, of s]
    release_without_notification_step_refines [OF assms, of s] reopen_step_refines [of s]
    view_inject [OF assms, of s]
  by simp

theorem counter_refines_abstract_witness:
  "map_TransitionOutcome view (acquire_step (0x3FFFFFFF :: u32)) = FailStop \<and>
   map_TransitionOutcome view (release_step (0x80000001 :: u32))
     = Success \<lparr>v_sealed = True, v_waiting = False, v_active = 0\<rparr>"
  using counter_refines_abstract [of "0x3FFFFFFF :: u32"] counter_refines_abstract [of "0x80000001 :: u32"]
  by (simp add: spec_acquire_def spec_release_def view_def active_limit_def is_sealed_def is_waiting_def
      permits_def active_def SEALED_BIT_32_def WAITING_BIT_32_def ACTIVE_COUNT_MASK_32_def)

text \<open>
  Sealing is final for admission. From a sealed word, whatever other operations run
  (admissions, releases of either kind, waiters that register, further seals), every
  later \<open>try_acquire\<close> is refused and leaves the word unchanged, and the active count has
  not grown. Only \<open>reopen\<close> and the undo of an idle seal, which their callers serialize,
  are excluded.
\<close>

lemma sealed_counter_stays_sealed:
  assumes "counter_step\<^sup>*\<^sup>* s (t :: u64)" "is_sealed s"
  shows "try_acquire t = Returns (Inl Sealed, t) \<and> unat (active t) \<le> unat (active s)"
  using counter64.sealed_forever [OF assms] counter64.sealed_moves [OF assms]
  by (simp add: permits_def)

text \<open>
  The idle seal is exactly reversible. \<open>try_seal_if_idle\<close> succeeds on a word that is open
  and has no permit out and on no other; it then seals it and keeps the waiting bit, and
  \<open>undo_idle_seal\<close> returns the very word it started from. Where it fails the word is
  unchanged.
\<close>

lemma idle_seal_reversible:
  assumes "2 < LENGTH('w::len)"
  shows "try_seal_if_idle (s :: 'w word) =
      (if \<not> is_sealed s \<and> active s = 0 then (True, seal s) else (False, s)) \<and>
    (fst (try_seal_if_idle s) \<longrightarrow> undo_idle_seal (snd (try_seal_if_idle s)) = (Inr (), s))"
  using undo_seal [of s] fields_seal [OF assms, of s] active_eq_0_iff [of s] active_eq_0_iff [of "seal s"]
  by (auto simp: try_seal_if_idle_def try_idle_seal_cases undo_idle_seal_def undo_idle_seal_logic_def
      is_sealed_def active_def)

end
