(* ===== verification/Drain_Gate.thy ===== *)
theory Drain_Gate
  imports Sealable_Counter
begin

text \<open>
  The one-counter drain gate of \<open>crates/xlfn-kernel/src/drain_gate.rs\<close>, its control
  typestates (\<open>drain_gate/control.rs\<close>) and the shared control flow of its release tail and
  wait loop (\<open>drain_gate/protocol.rs\<close>), as a machine whose steps interleave: any number of
  permits, and any number of managers that claim the gate, seal it, wait for it to drain
  and reopen it. One step is one atomic action of the code: a read-modify-write of the
  counter, the acquisition or release of a mutex, a park or a notification of the
  condition variable. The invariant gives the gate's promises: the count is exact, no
  wakeup is lost, a drained gate is touched by no release any more, and a reopen of a
  drained gate succeeds. The memory order of the atomics is not modelled: the steps are
  sequentially consistent.
\<close>

section \<open>The machine\<close>

subsection \<open>Agents\<close>

text \<open>
  \<open>GateControl<'a, Phase>\<close>: the type parameter \<open>Phase\<close> of the exclusive management claim.
\<close>

datatype gate_phase = GateUnknown | GateSealed | GateDrained | GateOpen

text \<open>
  Where a permit stands. \<open>Inside\<close>: \<open>try_enter\<close> returned it. \<open>ReleaseBlocked\<close>: its drop ran
  \<open>try_release_without_notification\<close>, which kept the count. \<open>ReleaseLocked\<close>: it owns the
  notification mutex and still its count. \<open>ReleaseNotify\<close>: it released the last count and
  has not called \<open>notify_all\<close> yet. \<open>ReleaseUnlock\<close>: only the unlock is left.
\<close>

datatype permit_pc =
  Outside | Inside | ReleaseBlocked | ReleaseLocked | ReleaseNotify | ReleaseUnlock

text \<open>
  What a wait returns to: a control claim in some phase, or, for a \<open>TerminalDrainGate\<close>,
  which has no control, the persistent observation that it is drained.
\<close>

datatype drain_target = ToPhase gate_phase | ToTerminal

datatype manager_pc =
  NoClaim
| Control gate_phase
| WaitLock drain_target
| WaitObserve drain_target
| WaitPark drain_target
| Parked drain_target
| WaitRelock drain_target
| WaitUnlock drain_target
| TryLock
| TryObserve
| Reopening
| ReopenUnlock
| TerminalDrained

datatype agent = Permit nat | Manager nat

record 'c gate =
  counter :: 'c
  idle_lock :: "agent option"
  control_lock :: "nat option"
  terminal :: bool
  permit :: "nat \<Rightarrow> permit_pc"
  manager :: "nat \<Rightarrow> manager_pc"

definition gate_new_open :: "bool \<Rightarrow> 'w::len word gate" where
  "gate_new_open t = \<lparr>counter = new_open, idle_lock = None, control_lock = None, terminal = t,
     permit = (\<lambda>_. Outside), manager = (\<lambda>_. NoClaim)\<rparr>"

definition gate_new_sealed :: "'w::len word gate" where
  "gate_new_sealed = \<lparr>counter = new_sealed, idle_lock = None, control_lock = None,
     terminal = False, permit = (\<lambda>_. Outside), manager = (\<lambda>_. NoClaim)\<rparr>"

definition gate_init :: "'w::len word gate \<Rightarrow> bool" where
  "gate_init s \<longleftrightarrow> s = gate_new_sealed \<or> (\<exists>t. s = gate_new_open t)"

definition set_permit :: "nat \<Rightarrow> permit_pc \<Rightarrow> 'c gate \<Rightarrow> 'c gate" where
  "set_permit i pc s = s\<lparr>permit := (permit s)(i := pc)\<rparr>"

definition set_manager :: "nat \<Rightarrow> manager_pc \<Rightarrow> 'c gate \<Rightarrow> 'c gate" where
  "set_manager j pc s = s\<lparr>manager := (manager s)(j := pc)\<rparr>"

text \<open>\<open>notify_all\<close> wakes every parked waiter; each must take the mutex again.\<close>

definition wake :: "manager_pc \<Rightarrow> manager_pc" where
  "wake pc = (case pc of Parked t \<Rightarrow> WaitRelock t | _ \<Rightarrow> pc)"

subsection \<open>Permits: \<open>try_enter\<close> and \<open>release\<close>\<close>

text \<open>
  The counter operations appear through what they return. A \<open>try_enter\<close> of a sealed gate
  returns \<open>Err(Sealed)\<close> and changes nothing. The release first tries without
  notification; if the count is retained it runs the release tail: lock, release,
  notify when the outcome is \<open>BecameIdle\<close>, unlock.
\<close>

inductive permit_step :: "nat \<Rightarrow> 'w::len word gate \<Rightarrow> 'w word gate \<Rightarrow> bool" for i where
  enter_ok:
    "permit s i = Outside \<Longrightarrow> try_acquire (counter s) = Returns (Inr (), c) \<Longrightarrow>
     permit_step i s (set_permit i Inside (s\<lparr>counter := c\<rparr>))"
| enter_err:
    "permit s i = Outside \<Longrightarrow> try_acquire (counter s) = Returns (Inl Sealed, c) \<Longrightarrow>
     permit_step i s (s\<lparr>counter := c\<rparr>)"
| release_fast:
    "permit s i = Inside \<Longrightarrow>
     try_release_without_notification (counter s) = Returns (Some out, c) \<Longrightarrow>
     permit_step i s (set_permit i Outside (s\<lparr>counter := c\<rparr>))"
| release_retained:
    "permit s i = Inside \<Longrightarrow>
     try_release_without_notification (counter s) = Returns (None, c) \<Longrightarrow>
     permit_step i s (set_permit i ReleaseBlocked (s\<lparr>counter := c\<rparr>))"
| release_lock:
    "permit s i = ReleaseBlocked \<Longrightarrow> idle_lock s = None \<Longrightarrow>
     permit_step i s (set_permit i ReleaseLocked (s\<lparr>idle_lock := Some (Permit i)\<rparr>))"
| release_count:
    "permit s i = ReleaseLocked \<Longrightarrow> release (counter s) = Returns (out, c) \<Longrightarrow>
     permit_step i s
       (set_permit i (if out = BecameIdle then ReleaseNotify else ReleaseUnlock) (s\<lparr>counter := c\<rparr>))"
| release_notify:
    "permit s i = ReleaseNotify \<Longrightarrow>
     permit_step i s (set_permit i ReleaseUnlock (s\<lparr>manager := wake \<circ> manager s\<rparr>))"
| release_unlock:
    "permit s i = ReleaseUnlock \<Longrightarrow>
     permit_step i s (set_permit i Outside (s\<lparr>idle_lock := None\<rparr>))"

subsection \<open>Managers: claim, seal, wait, reopen\<close>

text \<open>
  \<open>claim\<close> takes the control mutex (\<open>try_claim\<close> gives up when it is taken); the claim moves between its phases as the methods of
  \<open>GateControl\<close> consume and return it, and a drop in any phase frees the mutex. A call
  that needs a sealed gate returns the claim unchanged when it is not. A wait
  registers through \<open>mark_waiting\<close> under the notification mutex, parks while the count it
  observed is not zero, and observes again when woken (or spuriously). \<open>reopen\<close> holds the
  notification mutex across the counter's reopen. A terminal gate has no control: its
  \<open>wait\<close> seals and then waits, and may run in several threads at once.
\<close>

inductive manager_step :: "nat \<Rightarrow> 'w::len word gate \<Rightarrow> 'w word gate \<Rightarrow> bool" for j where
  claim:
    "manager s j = NoClaim \<Longrightarrow> \<not> terminal s \<Longrightarrow> control_lock s = None \<Longrightarrow>
     manager_step j s (set_manager j (Control GateUnknown) (s\<lparr>control_lock := Some j\<rparr>))"
| try_claim_busy:
    "manager s j = NoClaim \<Longrightarrow> \<not> terminal s \<Longrightarrow> control_lock s \<noteq> None \<Longrightarrow> manager_step j s s"
| drop_control:
    "manager s j = Control ph \<Longrightarrow>
     manager_step j s (set_manager j NoClaim (s\<lparr>control_lock := None\<rparr>))"
| control_seal:
    "manager s j = Control ph \<Longrightarrow>
     manager_step j s (set_manager j (Control GateSealed) (s\<lparr>counter := seal (counter s)\<rparr>))"
| wait_idle:
    "manager s j = Control GateUnknown \<Longrightarrow>
     manager_step j s (set_manager j (WaitLock (ToPhase GateUnknown)) s)"
| wait_if_sealed:
    "manager s j = Control GateUnknown \<Longrightarrow> is_sealed (counter s) \<Longrightarrow>
     manager_step j s (set_manager j (WaitLock (ToPhase GateDrained)) s)"
| unsealed_err:
    "manager s j = Control GateUnknown \<Longrightarrow> \<not> is_sealed (counter s) \<Longrightarrow> manager_step j s s"
| wait_sealed:
    "manager s j = Control GateSealed \<Longrightarrow>
     manager_step j s (set_manager j (WaitLock (ToPhase GateDrained)) s)"
| try_drained:
    "manager s j = Control GateUnknown \<Longrightarrow> is_sealed (counter s) \<Longrightarrow>
     manager_step j s (set_manager j TryLock s)"
| try_drained_busy:
    "manager s j = TryLock \<Longrightarrow> idle_lock s \<noteq> None \<Longrightarrow>
     manager_step j s (set_manager j (Control GateUnknown) s)"
| try_drained_lock:
    "manager s j = TryLock \<Longrightarrow> idle_lock s = None \<Longrightarrow>
     manager_step j s (set_manager j TryObserve (s\<lparr>idle_lock := Some (Manager j)\<rparr>))"
| try_drained_observe:
    "manager s j = TryObserve \<Longrightarrow> mark_waiting (counter s) = (n, c) \<Longrightarrow>
     manager_step j s
       (set_manager j (WaitUnlock (ToPhase (if n \<noteq> 0 then GateUnknown else GateDrained)))
         (s\<lparr>counter := c\<rparr>))"
| terminal_seal:
    "manager s j = NoClaim \<Longrightarrow> terminal s \<Longrightarrow>
     manager_step j s (s\<lparr>counter := seal (counter s)\<rparr>)"
| terminal_wait:
    "manager s j = NoClaim \<Longrightarrow> terminal s \<Longrightarrow>
     manager_step j s (set_manager j (WaitLock ToTerminal) (s\<lparr>counter := seal (counter s)\<rparr>))"
| wait_lock:
    "manager s j = WaitLock t \<Longrightarrow> idle_lock s = None \<Longrightarrow>
     manager_step j s (set_manager j (WaitObserve t) (s\<lparr>idle_lock := Some (Manager j)\<rparr>))"
| wait_observe:
    "manager s j = WaitObserve t \<Longrightarrow> mark_waiting (counter s) = (n, c) \<Longrightarrow>
     manager_step j s
       (set_manager j (if n \<noteq> 0 then WaitPark t else WaitUnlock t) (s\<lparr>counter := c\<rparr>))"
| wait_park:
    "manager s j = WaitPark t \<Longrightarrow>
     manager_step j s (set_manager j (Parked t) (s\<lparr>idle_lock := None\<rparr>))"
| wait_spurious:
    "manager s j = Parked t \<Longrightarrow> manager_step j s (set_manager j (WaitRelock t) s)"
| wait_relock:
    "manager s j = WaitRelock t \<Longrightarrow> idle_lock s = None \<Longrightarrow>
     manager_step j s (set_manager j (WaitObserve t) (s\<lparr>idle_lock := Some (Manager j)\<rparr>))"
| wait_unlock:
    "manager s j = WaitUnlock t \<Longrightarrow>
     manager_step j s
       (set_manager j (case t of ToPhase ph \<Rightarrow> Control ph | ToTerminal \<Rightarrow> TerminalDrained)
         (s\<lparr>idle_lock := None\<rparr>))"
| reopen_lock:
    "manager s j = Control GateDrained \<Longrightarrow> idle_lock s = None \<Longrightarrow>
     manager_step j s (set_manager j Reopening (s\<lparr>idle_lock := Some (Manager j)\<rparr>))"
| reopen_count:
    "manager s j = Reopening \<Longrightarrow> reopen (counter s) = Returns (Inr (), c) \<Longrightarrow>
     manager_step j s (set_manager j ReopenUnlock (s\<lparr>counter := c\<rparr>))"
| reopen_unlock:
    "manager s j = ReopenUnlock \<Longrightarrow>
     manager_step j s (set_manager j (Control GateOpen) (s\<lparr>idle_lock := None\<rparr>))"

inductive gate_step :: "'w::len word gate \<Rightarrow> 'w word gate \<Rightarrow> bool" where
  by_permit: "permit_step i s t \<Longrightarrow> gate_step s t"
| by_manager: "manager_step j s t \<Longrightarrow> gate_step s t"


section \<open>The invariant\<close>

subsection \<open>What a program point owns\<close>

fun counts :: "permit_pc \<Rightarrow> bool" where
  "counts Inside = True"
| "counts ReleaseBlocked = True"
| "counts ReleaseLocked = True"
| "counts _ = False"

fun permit_locks :: "permit_pc \<Rightarrow> bool" where
  "permit_locks ReleaseLocked = True"
| "permit_locks ReleaseNotify = True"
| "permit_locks ReleaseUnlock = True"
| "permit_locks _ = False"

fun manager_locks :: "manager_pc \<Rightarrow> bool" where
  "manager_locks (WaitObserve t) = True"
| "manager_locks (WaitPark t) = True"
| "manager_locks (WaitUnlock t) = True"
| "manager_locks TryObserve = True"
| "manager_locks Reopening = True"
| "manager_locks ReopenUnlock = True"
| "manager_locks _ = False"

fun waits_for :: "manager_pc \<Rightarrow> drain_target option" where
  "waits_for (WaitLock t) = Some t"
| "waits_for (WaitObserve t) = Some t"
| "waits_for (WaitPark t) = Some t"
| "waits_for (Parked t) = Some t"
| "waits_for (WaitRelock t) = Some t"
| "waits_for (WaitUnlock t) = Some t"
| "waits_for _ = None"

fun terminal_pc :: "manager_pc \<Rightarrow> bool" where
  "terminal_pc TerminalDrained = True"
| "terminal_pc pc = (waits_for pc = Some ToTerminal)"

fun claims :: "manager_pc \<Rightarrow> bool" where
  "claims NoClaim = False"
| "claims pc = (\<not> terminal_pc pc)"

fun knows_sealed :: "manager_pc \<Rightarrow> bool" where
  "knows_sealed (Control ph) = (ph = GateSealed \<or> ph = GateDrained)"
| "knows_sealed TryLock = True"
| "knows_sealed TryObserve = True"
| "knows_sealed Reopening = True"
| "knows_sealed TerminalDrained = True"
| "knows_sealed pc = (waits_for pc \<in> {Some (ToPhase GateSealed), Some (ToPhase GateDrained), Some ToTerminal})"

fun knows_drained :: "manager_pc \<Rightarrow> bool" where
  "knows_drained (Control ph) = (ph = GateDrained)"
| "knows_drained (WaitUnlock t) = (t = ToPhase GateDrained \<or> t = ToTerminal)"
| "knows_drained Reopening = True"
| "knows_drained TerminalDrained = True"
| "knows_drained _ = False"

subsection \<open>The clauses\<close>

text \<open>The count is the number of permits that own one.\<close>

definition owners :: "'c gate \<Rightarrow> nat set" where
  "owners s = {i. counts (permit s i)}"

definition inv_count :: "'w::len word gate \<Rightarrow> bool" where
  "inv_count s \<longleftrightarrow> finite (owners s) \<and> permits (counter s) = card (owners s)"

text \<open>The notification mutex is owned by exactly the program points between lock and unlock.\<close>

definition inv_lock :: "'w::len word gate \<Rightarrow> bool" where
  "inv_lock s \<longleftrightarrow> (\<forall>i. permit_locks (permit s i) \<longleftrightarrow> idle_lock s = Some (Permit i)) \<and>
     (\<forall>j. manager_locks (manager s j) \<longleftrightarrow> idle_lock s = Some (Manager j))"

text \<open>Management is exclusive, and a terminal gate has none.\<close>

definition inv_control :: "'w::len word gate \<Rightarrow> bool" where
  "inv_control s \<longleftrightarrow> (\<forall>j. claims (manager s j) \<longleftrightarrow> control_lock s = Some j) \<and>
     (\<forall>j. terminal_pc (manager s j) \<longrightarrow> terminal s) \<and>
     (terminal s \<longrightarrow> control_lock s = None)"

definition inv_sealed :: "'w::len word gate \<Rightarrow> bool" where
  "inv_sealed s \<longleftrightarrow> (\<forall>j. knows_sealed (manager s j) \<longrightarrow> is_sealed (counter s))"

text \<open>A drained gate is sealed and no permit is inside it, nor in its release tail.\<close>

definition inv_drained :: "'w::len word gate \<Rightarrow> bool" where
  "inv_drained s \<longleftrightarrow> (\<forall>j. knows_drained (manager s j) \<longrightarrow>
     is_sealed (counter s) \<and> (\<forall>i. permit s i = Outside))"

text \<open>
  A parked waiter has registered, and either a count is still out, whose last release
  must then notify, or a notification is pending.
\<close>

definition inv_wakeup :: "'w::len word gate \<Rightarrow> bool" where
  "inv_wakeup s \<longleftrightarrow>
     (\<forall>j t. manager s j = Parked t \<longrightarrow> is_waiting (counter s) \<and>
        (0 < permits (counter s) \<or> (\<exists>i. permit s i = ReleaseNotify))) \<and>
     (\<forall>j t. manager s j = WaitPark t \<longrightarrow> is_waiting (counter s) \<and> 0 < permits (counter s))"

definition gate_inv :: "'w::len word gate \<Rightarrow> bool" where
  "gate_inv s \<longleftrightarrow> inv_count s \<and> inv_lock s \<and> inv_control s \<and> inv_sealed s \<and> inv_drained s \<and> inv_wakeup s"

subsection \<open>Preservation\<close>

lemma sel_set_permit [simp]:
  "counter (set_permit i pc s) = counter s" "idle_lock (set_permit i pc s) = idle_lock s"
  "control_lock (set_permit i pc s) = control_lock s" "terminal (set_permit i pc s) = terminal s"
  "manager (set_permit i pc s) = manager s" "permit (set_permit i pc s) = (permit s)(i := pc)"
  by (simp_all add: set_permit_def)

lemma sel_set_manager [simp]:
  "counter (set_manager j mp s) = counter s" "idle_lock (set_manager j mp s) = idle_lock s"
  "control_lock (set_manager j mp s) = control_lock s" "terminal (set_manager j mp s) = terminal s"
  "permit (set_manager j mp s) = permit s" "manager (set_manager j mp s) = (manager s)(j := mp)"
  by (simp_all add: set_manager_def)

lemma wake_simps [simp]:
  "terminal_pc (wake pc) = terminal_pc pc" "claims (wake pc) = claims pc"
  "knows_sealed (wake pc) = knows_sealed pc" "knows_drained (wake pc) = knows_drained pc"
  "manager_locks (wake pc) = manager_locks pc" "wake pc \<noteq> Parked t"
  "wake pc = WaitPark t \<longleftrightarrow> pc = WaitPark t"
  by (cases pc; simp add: wake_def)+

lemma owners_simps [simp]:
  "i \<in> owners s \<longleftrightarrow> counts (permit s i)"
  "owners (set_permit i pc s) = (if counts pc then insert i (owners s) else owners s - {i})"
  "owners (set_manager j mp s) = owners s" "owners (s\<lparr>counter := c\<rparr>) = owners s"
  "owners (s\<lparr>idle_lock := l\<rparr>) = owners s" "owners (s\<lparr>control_lock := cl\<rparr>) = owners s"
  "owners (s\<lparr>manager := m\<rparr>) = owners s"
  by (auto simp: owners_def)

lemma permit_step_count:
  assumes w: "2 < LENGTH('w::len)" and st: "permit_step i s (t :: 'w word gate)" and inv: "inv_count s"
  shows "inv_count t"
  using st inv
  by cases (auto simp: inv_count_def card_insert_if card_Diff_singleton_if insert_absorb
      dest!: counter_dests [OF w])

lemma manager_step_count:
  assumes w: "2 < LENGTH('w::len)" and st: "manager_step j s (t :: 'w word gate)"
    and inv: "inv_count s" "inv_drained s"
  shows "inv_count t"
  using st inv
  by cases (auto simp: inv_count_def fields_seal [OF w] dest!: counter_dests [OF w] reopen_InrD)

lemma inv_lockD:
  assumes "inv_lock s"
  shows "permit_locks (permit s i) \<longleftrightarrow> idle_lock s = Some (Permit i)"
    and "manager_locks (manager s j) \<longleftrightarrow> idle_lock s = Some (Manager j)"
  using assms by (auto simp: inv_lock_def)

lemma inv_controlD:
  assumes "inv_control s"
  shows "claims (manager s j) \<longleftrightarrow> control_lock s = Some j"
    and "terminal_pc (manager s j) \<Longrightarrow> terminal s"
    and "terminal s \<Longrightarrow> control_lock s = None"
  using assms by (auto simp: inv_control_def)

lemma permit_step_lock:
  assumes st: "permit_step i s (t :: 'w::len word gate)" and inv: "inv_lock s"
  shows "inv_lock t"
  using st inv inv_lockD(1) [OF inv, of i]
  by cases (auto simp: inv_lock_def)

lemma manager_step_lock:
  assumes st: "manager_step j s (t :: 'w::len word gate)" and inv: "inv_lock s"
  shows "inv_lock t"
  using st inv inv_lockD(2) [OF inv, of j]
  by cases (auto simp: inv_lock_def split: drain_target.splits)

lemma permit_step_control:
  assumes st: "permit_step i s (t :: 'w::len word gate)" and inv: "inv_control s"
  shows "inv_control t"
  using st inv by cases (auto simp: inv_control_def)

lemma manager_step_control:
  assumes st: "manager_step j s (t :: 'w::len word gate)" and inv: "inv_control s"
  shows "inv_control t"
  using st inv inv_controlD(1,2) [OF inv, of j]
  by cases (auto simp: inv_control_def split: drain_target.splits)

text \<open>While one manager has the claim, no other knows anything of the gate.\<close>

lemma claims_iff: "claims pc \<longleftrightarrow> pc \<noteq> NoClaim \<and> \<not> terminal_pc pc"
  by (cases pc) auto

lemma other_managers:
  assumes inv: "inv_control s" and "claims (manager s j)" "k \<noteq> j"
  shows "manager s k = NoClaim"
proof -
  have "control_lock s = Some j" using assms inv_controlD(1) [OF inv, of j] by simp
  then show ?thesis
    using assms(3) inv_controlD(1,2) [OF inv, of k] inv_controlD(3) [OF inv]
    by (auto simp: claims_iff)
qed

lemma permit_step_sealed:
  assumes w: "2 < LENGTH('w::len)" and st: "permit_step i s (t :: 'w word gate)" and inv: "inv_sealed s"
  shows "inv_sealed t"
  using st inv by cases (auto simp: inv_sealed_def dest!: counter_dests [OF w])

lemma manager_step_sealed:
  assumes w: "2 < LENGTH('w::len)" and st: "manager_step j s (t :: 'w word gate)"
    and inv: "inv_sealed s" "inv_control s"
  shows "inv_sealed t"
proof -
  have j: "knows_sealed (manager s j) \<Longrightarrow> is_sealed (counter s)"
    using inv unfolding inv_sealed_def by blast
  from st show ?thesis
  proof cases
    case (reopen_count c)
    then have "k \<noteq> j \<Longrightarrow> manager s k = NoClaim" for k
      using other_managers [OF inv(2), of j k] by simp
    with reopen_count show ?thesis by (auto simp: inv_sealed_def)
  qed (use inv(1) j in \<open>auto simp: inv_sealed_def fields_seal [OF w]
         dest!: counter_dests [OF w] split: drain_target.splits\<close>)
qed

lemma permit_step_drained:
  assumes w: "2 < LENGTH('w::len)" and st: "permit_step i s (t :: 'w word gate)" and inv: "inv_drained s"
  shows "inv_drained t"
  using st inv by cases (force simp: inv_drained_def dest!: counter_dests [OF w])+

text \<open>
  The observation that makes a drained gate: the count is zero under the notification
  mutex, so no permit owns a count, and none is in its release tail either.
\<close>

lemma all_outside:
  assumes "inv_count s" "inv_lock s" "permits (counter s) = 0" "idle_lock s = Some (Manager j)"
  shows "permit s i = Outside"
proof -
  have "i \<notin> owners s" using assms(1,3) by (auto simp: inv_count_def simp del: owners_simps(1))
  moreover have "\<not> permit_locks (permit s i)" using inv_lockD(1) [OF assms(2)] assms(4) by simp
  ultimately show ?thesis by (cases "permit s i") auto
qed

lemma manager_step_drained:
  assumes w: "2 < LENGTH('w::len)" and st: "manager_step j s (t :: 'w word gate)"
    and inv: "inv_count s" "inv_lock s" "inv_control s" "inv_sealed s" "inv_drained s"
  shows "inv_drained t"
proof -
  have d: "knows_drained (manager s j) \<Longrightarrow> is_sealed (counter s) \<and> (\<forall>i. permit s i = Outside)"
    using inv unfolding inv_drained_def by blast
  have j: "knows_sealed (manager s j) \<Longrightarrow> is_sealed (counter s)"
    using inv unfolding inv_sealed_def by blast
  have z: "manager_locks (manager s j) \<Longrightarrow> permits (counter s) = 0 \<Longrightarrow> permit s i = Outside" for i
    using all_outside [OF inv(1,2), of j i] inv_lockD(2) [OF inv(2), of j] by simp
  from st show ?thesis
  proof cases
    case (reopen_count c)
    then have "k \<noteq> j \<Longrightarrow> manager s k = NoClaim" for k
      using other_managers [OF inv(3), of j k] by simp
    with reopen_count show ?thesis by (auto simp: inv_drained_def)
  qed (use inv(5) d j z in \<open>auto simp: inv_drained_def fields_seal [OF w]
         dest!: counter_dests [OF w] split: drain_target.splits if_splits\<close>)
qed

lemma permit_step_wakeup:
  assumes w: "2 < LENGTH('w::len)" and st: "permit_step i s (t :: 'w word gate)"
    and inv: "inv_lock s" "inv_wakeup s"
  shows "inv_wakeup t"
proof -
  have l: "permit_locks (permit s i) \<Longrightarrow> manager s j \<noteq> WaitPark u" for j u
    using inv_lockD(1) [OF inv(1), of i] inv_lockD(2) [OF inv(1), of j] by auto
  from st inv(2) l show ?thesis
    by cases (force simp: inv_wakeup_def dest!: counter_dests [OF w])+
qed

lemma manager_step_wakeup:
  assumes w: "2 < LENGTH('w::len)" and st: "manager_step j s (t :: 'w word gate)"
    and inv: "inv_drained s" "inv_wakeup s"
  shows "inv_wakeup t"
proof -
  have d: "knows_drained (manager s j) \<Longrightarrow> permit s i = Outside" for i
    using inv(1) unfolding inv_drained_def by blast
  from st inv(2) d show ?thesis
    by cases (force simp: inv_wakeup_def fields_seal [OF w]
        dest!: counter_dests [OF w] reopen_InrD split: drain_target.splits if_splits)+
qed

subsection \<open>Every reachable state\<close>

lemma gate_inv_init:
  assumes w: "2 < LENGTH('w::len)" and "gate_init (s :: 'w word gate)"
  shows "gate_inv s"
  using assms(2) fields_new_sealed [OF w]
  by (auto simp: gate_init_def gate_new_open_def gate_new_sealed_def gate_inv_def inv_count_def
      inv_lock_def inv_control_def inv_sealed_def inv_drained_def inv_wakeup_def owners_def
      new_open_def fields_zero)

lemma gate_inv_step:
  assumes w: "2 < LENGTH('w::len)" and inv: "gate_inv s" and st: "gate_step s (t :: 'w word gate)"
  shows "gate_inv t"
  using st
proof cases
  case (by_permit i)
  with inv show ?thesis
    unfolding gate_inv_def
    by (metis w permit_step_count permit_step_lock permit_step_control permit_step_sealed
        permit_step_drained permit_step_wakeup)
next
  case (by_manager j)
  with inv show ?thesis
    unfolding gate_inv_def
    by (metis w manager_step_count manager_step_lock manager_step_control manager_step_sealed
        manager_step_drained manager_step_wakeup)
qed

lemma gate_system:
  assumes "2 < LENGTH('w::len)"
  shows "transition_system gate_init gate_step (gate_inv :: 'w word gate \<Rightarrow> bool)"
  by unfold_locales (use gate_inv_init [OF assms] gate_inv_step [OF assms] in blast)+

interpretation gate32: transition_system gate_init gate_step "gate_inv :: 32 word gate \<Rightarrow> bool"
  by (rule gate_system) simp

interpretation gate64: transition_system gate_init gate_step "gate_inv :: 64 word gate \<Rightarrow> bool"
  by (rule gate_system) simp

definition gate_reachable :: "'w::len word gate \<Rightarrow> bool" where
  "gate_reachable s \<longleftrightarrow> (\<exists>s0. gate_init s0 \<and> gate_step\<^sup>*\<^sup>* s0 s)"

lemma reachable_inv:
  assumes "2 < LENGTH('w::len)" "gate_reachable (s :: 'w word gate)"
  shows "gate_inv s"
  using assms(2) transition_system.inv_reachable [OF gate_system [OF assms(1)]]
  by (auto simp: gate_reachable_def)

lemma reachable_step: "gate_reachable s \<Longrightarrow> gate_step s t \<Longrightarrow> gate_reachable t"
  unfolding gate_reachable_def by (blast intro: rtranclp.rtrancl_into_rtrancl)

lemma reachable_new_sealed: "gate_reachable gate_new_sealed"
  by (auto simp: gate_reachable_def gate_init_def)

lemma reachable_new_open: "gate_reachable (gate_new_open t)"
  by (auto simp: gate_reachable_def gate_init_def)

lemma owner_counted:
  assumes "gate_inv (s :: 'w::len word gate)" "counts (permit s i)"
  shows "0 < permits (counter s)"
proof -
  have "i \<in> owners s" "finite (owners s)" "permits (counter s) = card (owners s)"
    using assms by (simp_all add: gate_inv_def inv_count_def)
  then show ?thesis by (metis card_gt_0_iff empty_iff)
qed

lemma counted_owner:
  assumes "gate_inv (s :: 'w::len word gate)" "0 < permits (counter s)"
  shows "\<exists>i. counts (permit s i)"
proof -
  have "owners s \<noteq> {}" using assms by (auto simp: gate_inv_def inv_count_def)
  then show ?thesis by (auto simp: owners_def)
qed

lemma drained_state:
  assumes "gate_inv (s :: 'w::len word gate)" "knows_drained (manager s j)"
  shows "is_sealed (counter s)" "permit s i = Outside" "permits (counter s) = 0"
proof -
  show "is_sealed (counter s)" and out: "permit s i = Outside" for i
    using assms unfolding gate_inv_def inv_drained_def by blast+
  show "permits (counter s) = 0"
    using counted_owner [OF assms(1)] out by (metis counts.simps(4) gr0I)
qed

lemma parked_state:
  assumes inv: "gate_inv (s :: 'w::len word gate)" and "manager s j = Parked t"
  shows "is_waiting (counter s)" "\<exists>i. counts (permit s i) \<or> permit s i = ReleaseNotify"
proof -
  have "is_waiting (counter s) \<and> (0 < permits (counter s) \<or> (\<exists>i. permit s i = ReleaseNotify))"
    using assms unfolding gate_inv_def inv_wakeup_def by blast
  then show "is_waiting (counter s)" "\<exists>i. counts (permit s i) \<or> permit s i = ReleaseNotify"
    using counted_owner [OF inv] by blast+
qed

lemma lock_holder_steps:
  assumes w: "2 < LENGTH('w::len)" and inv: "gate_inv (s :: 'w word gate)" and l: "idle_lock s = Some a"
  shows "(\<exists>i t. a = Permit i \<and> permit_locks (permit s i) \<and> permit_step i s t) \<or>
         (\<exists>k t. a = Manager k \<and> manager_locks (manager s k) \<and> manager_step k s t)"
proof (cases a)
  case (Permit i)
  have lk: "permit_locks (permit s i)" using inv_lockD(1) [of s i] inv l Permit by (simp add: gate_inv_def)
  have "permit s i = ReleaseLocked \<Longrightarrow> \<exists>out c. release (counter s) = Returns (out, c)"
    using owner_counted [OF inv, of i] by (simp add: release_cases [OF w])
  with lk have "\<exists>t. permit_step i s t"
    by (cases "permit s i") (auto intro: permit_step.intros)
  with lk Permit show ?thesis by blast
next
  case (Manager k)
  have lk: "manager_locks (manager s k)" using inv_lockD(2) [of s k] inv l Manager by (simp add: gate_inv_def)
  have "manager s k = Reopening \<Longrightarrow> \<exists>c. reopen (counter s) = Returns (Inr (), c)"
    using drained_state [OF inv, of k] by (simp add: reopen_cases)
  with lk have "\<exists>t. manager_step k s t"
    by (cases "manager s k")
      (auto intro: manager_step.intros wait_observe [OF _ surjective_pairing]
        try_drained_observe [OF _ surjective_pairing])
  with lk Manager show ?thesis by blast
qed


section \<open>What the gate promises\<close>

text \<open>
  C1: reclamation safety of the drain gate. In every reachable state, once a manager holds
  the drained claim (or a terminal wait has returned), admission is sealed, no permit is
  inside the gate and none is anywhere in its release tail, neither holding the
  notification mutex nor about to take it: the owner may reclaim the gate. A later
  \<open>try_enter\<close> returns \<open>Err(Sealed)\<close>.
\<close>

theorem drained_gate_is_quiescent:
  assumes "2 < LENGTH('w::len)" "gate_reachable (s :: 'w word gate)"
    and "manager s j = Control GateDrained \<or> manager s j = TerminalDrained"
  shows "permit s i = Outside \<and> active (counter s) = 0 \<and>
    try_acquire (counter s) = Returns (Inl Sealed, counter s)"
proof -
  have "gate_inv s" "knows_drained (manager s j)"
    using assms reachable_inv by auto
  note d = drained_state [OF this]
  then show ?thesis
    by (simp add: try_acquire_cases [OF assms(1)] permits_def unat_eq_zero)
qed

text \<open>
  C2: no lost wakeup. A waiter of a reachable gate that is parked on the condition
  variable has left the waiting bit set, and there is a permit that still owns a count
  (whose final release then has to take the mutex and notify) or a permit that has
  released the last count and is about to notify. So nobody stays parked at a gate all
  permits have left.
\<close>

theorem no_lost_wakeup:
  assumes "2 < LENGTH('w::len)" "gate_reachable (s :: 'w word gate)" "manager s j = Parked t"
  shows "is_waiting (counter s) \<and> (\<exists>i. counts (permit s i) \<or> permit s i = ReleaseNotify)"
  using parked_state [OF reachable_inv [OF assms(1,2)] assms(3)] by blast

text \<open>
  C3: the fail-stop branches of the gate are unreachable from its own operations. A permit
  that is dropped never finds the count at zero, neither on the fast path nor in the
  release tail, and the reopen of a drained gate always succeeds, so that the
  \<open>fail_stop\<close> of \<open>GateControl::reopen\<close> is never called.
\<close>

theorem gate_never_fail_stops:
  assumes "2 < LENGTH('w::len)" "gate_reachable (s :: 'w word gate)"
  shows "(permit s i = Inside \<longrightarrow> try_release_without_notification (counter s) \<noteq> Aborts) \<and>
    (permit s i = ReleaseLocked \<longrightarrow> release (counter s) \<noteq> Aborts) \<and>
    (manager s j = Reopening \<longrightarrow> reopen (counter s) = Returns (Inr (), new_open))"
proof -
  have inv: "gate_inv s" using assms reachable_inv by blast
  show ?thesis
    using owner_counted [OF inv, of i] drained_state [OF inv, of j]
    by (auto simp: try_release_without_notification_cases release_cases assms(1) reopen_cases
        new_open_def)
qed

text \<open>
  C4: progress. Whenever a manager of a reachable gate waits for it to drain, the wait is
  for a reason: some permit is still inside, held by its client, or the release tail of a
  permit can take a step, or the manager that holds the notification mutex can, or the
  waiter itself can (without a spurious wakeup). The mutex and the condition variable
  never deadlock.
\<close>

theorem waiting_gate_progress:
  assumes "2 < LENGTH('w::len)" "gate_reachable (s :: 'w word gate)" "waits_for (manager s j) \<noteq> None"
  shows "(\<exists>i. permit s i = Inside) \<or>
    (\<exists>i t. permit s i \<notin> {Outside, Inside} \<and> permit_step i s t) \<or>
    (\<exists>k t. idle_lock s = Some (Manager k) \<and> manager_step k s t) \<or>
    ((\<forall>u. manager s j \<noteq> Parked u) \<and> (\<exists>t. manager_step j s t))"
proof (cases "idle_lock s")
  case (Some a)
  have inv: "gate_inv s" using assms reachable_inv by blast
  from lock_holder_steps [OF assms(1) inv Some] show ?thesis
    using Some by (metis insert_iff permit_locks.simps(4,5) singletonD)
next
  case None
  have inv: "gate_inv s" using assms reachable_inv by blast
  then have nl: "\<not> permit_locks (permit s i)" "\<not> manager_locks (manager s k)" for i k
    using None inv_lockD [of s] by (auto simp: gate_inv_def)
  show ?thesis
  proof (cases "\<exists>u. manager s j = Parked u")
    case False
    then have "\<exists>t. manager_step j s t"
      using assms(3) nl(2) [of j] None
      by (cases "manager s j") (auto intro: manager_step.intros)
    then show ?thesis using False by blast
  next
    case True
    then obtain i where i: "counts (permit s i) \<or> permit s i = ReleaseNotify"
      using parked_state(2) [OF inv] by blast
    then consider "permit s i = Inside" | "permit s i = ReleaseBlocked"
      using nl(1) [of i] by (cases "permit s i") auto
    then show ?thesis
    proof cases
      case 2
      moreover from this have "\<exists>t. permit_step i s t" using release_lock None by blast
      ultimately have "permit s i \<notin> {Outside, Inside} \<and> (\<exists>t. permit_step i s t)" by simp
      then show ?thesis by blast
    qed blast
  qed
qed

subsection \<open>Witnesses\<close>

text \<open>
  A run of a gate that is created sealed: a manager claims it, waits, and finds it
  drained. A run of an open gate: a permit enters, a manager seals the gate and waits for
  the permit, parked; the permit's drop retains the count and takes the mutex.
\<close>

lemma drained_run:
  "\<exists>s :: 64 word gate. gate_reachable s \<and> manager s 0 = Control GateDrained"
proof -
  let ?d = "ToPhase GateDrained"
  obtain s1 :: "64 word gate" where 1: "gate_reachable s1" "manager s1 0 = Control GateUnknown"
      "counter s1 = new_sealed" "idle_lock s1 = None"
    using reachable_step [OF reachable_new_sealed by_manager [OF claim [of _ 0]]]
    by (force simp: gate_new_sealed_def)
  obtain s2 :: "64 word gate" where 2: "gate_reachable s2" "manager s2 0 = WaitLock ?d"
      "counter s2 = new_sealed" "idle_lock s2 = None"
    using reachable_step [OF 1(1) by_manager [OF wait_if_sealed [OF 1(2)]]] 1
    by (force simp: counter_fields)
  obtain s3 :: "64 word gate" where 3: "gate_reachable s3" "manager s3 0 = WaitObserve ?d"
      "counter s3 = new_sealed"
    using reachable_step [OF 2(1) by_manager [OF wait_lock [OF 2(2,4)]]] 2 by force
  obtain s4 :: "64 word gate" where 4: "gate_reachable s4" "manager s4 0 = WaitUnlock ?d"
    using reachable_step [OF 3(1) by_manager [OF wait_observe [OF 3(2) surjective_pairing]]] 3
    by (force simp: mark_waiting_def new_sealed_def SEALED_BIT_64_def ACTIVE_COUNT_MASK_64_def)
  show ?thesis
    using reachable_step [OF 4(1) by_manager [OF wait_unlock [OF 4(2)]]] by force
qed

lemma parked_run:
  "\<exists>s :: 64 word gate. gate_reachable s \<and> manager s 0 = Parked (ToPhase GateDrained) \<and>
     permit s 0 = Inside \<and> idle_lock s = None \<and> counter s = 0xC000000000000001"
proof -
  let ?d = "ToPhase GateDrained"
  obtain s1 :: "64 word gate" where 1: "gate_reachable s1" "permit s1 0 = Inside" "counter s1 = 1"
      "manager s1 0 = NoClaim" "idle_lock s1 = None" "control_lock s1 = None" "\<not> terminal s1"
    using reachable_step [OF reachable_new_open [of False] by_permit [OF enter_ok [of _ 0 1]]]
    by (force simp: gate_new_open_def new_open_def try_acquire_cases counter_fields active_limit_def)
  obtain s2 :: "64 word gate" where 2: "gate_reachable s2" "permit s2 0 = Inside" "counter s2 = 1"
      "manager s2 0 = Control GateUnknown" "idle_lock s2 = None"
    using reachable_step [OF 1(1) by_manager [OF claim [OF 1(4,7,6)]]] 1 by force
  obtain s3 :: "64 word gate" where 3: "gate_reachable s3" "permit s3 0 = Inside"
      "counter s3 = 0x8000000000000001" "manager s3 0 = Control GateSealed" "idle_lock s3 = None"
    using reachable_step [OF 2(1) by_manager [OF control_seal [OF 2(4)]]] 2
    by (force simp: seal_def SEALED_BIT_64_def)
  obtain s4 :: "64 word gate" where 4: "gate_reachable s4" "permit s4 0 = Inside"
      "counter s4 = 0x8000000000000001" "manager s4 0 = WaitLock ?d" "idle_lock s4 = None"
    using reachable_step [OF 3(1) by_manager [OF wait_sealed [OF 3(4)]]] 3 by force
  obtain s5 :: "64 word gate" where 5: "gate_reachable s5" "permit s5 0 = Inside"
      "counter s5 = 0x8000000000000001" "manager s5 0 = WaitObserve ?d"
    using reachable_step [OF 4(1) by_manager [OF wait_lock [OF 4(4,5)]]] 4 by force
  obtain s6 :: "64 word gate" where 6: "gate_reachable s6" "permit s6 0 = Inside"
      "counter s6 = 0xC000000000000001" "manager s6 0 = WaitPark ?d"
    using reachable_step [OF 5(1) by_manager [OF wait_observe [OF 5(4) surjective_pairing]]] 5
    by (force simp: mark_waiting_def WAITING_BIT_64_def ACTIVE_COUNT_MASK_64_def)
  show ?thesis
    using reachable_step [OF 6(1) by_manager [OF wait_park [OF 6(4)]]] 6 by force
qed

lemma release_tail_run:
  "\<exists>s :: 64 word gate. gate_reachable s \<and> permit s 0 = ReleaseLocked \<and>
     counter s = 0xC000000000000001"
proof -
  obtain s1 :: "64 word gate" where 1: "gate_reachable s1" "permit s1 0 = Inside"
      "idle_lock s1 = None" "counter s1 = 0xC000000000000001"
    using parked_run by blast
  then have kept: "try_release_without_notification (counter s1) = Returns (None, counter s1)"
    by (simp add: try_release_without_notification_cases permits_def active_def is_waiting_def
        WAITING_BIT_64_def ACTIVE_COUNT_MASK_64_def)
  obtain s2 :: "64 word gate" where 2: "gate_reachable s2" "permit s2 0 = ReleaseBlocked"
      "idle_lock s2 = None" "counter s2 = 0xC000000000000001"
    using reachable_step [OF 1(1) by_permit [OF release_retained [OF 1(2) kept]]] 1 by force
  show ?thesis
    using reachable_step [OF 2(1) by_permit [OF release_lock [OF 2(2,3)]]] 2 by force
qed

theorem drained_gate_is_quiescent_witness:
  "\<exists>s :: 64 word gate. gate_reachable s \<and> manager s 0 = Control GateDrained \<and>
     permit s 7 = Outside \<and> active (counter s) = 0 \<and>
     try_acquire (counter s) = Returns (Inl Sealed, counter s)"
proof -
  obtain s :: "64 word gate" where "gate_reachable s" "manager s 0 = Control GateDrained"
    using drained_run by blast
  then show ?thesis using drained_gate_is_quiescent [of s 0 7] by auto
qed

theorem no_lost_wakeup_witness:
  "\<exists>s :: 64 word gate. gate_reachable s \<and> manager s 0 = Parked (ToPhase GateDrained) \<and>
     is_waiting (counter s) \<and> (\<exists>i. counts (permit s i) \<or> permit s i = ReleaseNotify)"
proof -
  obtain s :: "64 word gate" where "gate_reachable s" "manager s 0 = Parked (ToPhase GateDrained)"
    using parked_run by blast
  then show ?thesis using no_lost_wakeup [of s 0 "ToPhase GateDrained"] by auto
qed

theorem gate_never_fail_stops_witness:
  "\<exists>s :: 64 word gate. gate_reachable s \<and> permit s 0 = ReleaseLocked \<and> release (counter s) \<noteq> Aborts"
proof -
  obtain s :: "64 word gate" where "gate_reachable s" "permit s 0 = ReleaseLocked"
    using release_tail_run by blast
  then show ?thesis using gate_never_fail_stops [of s 0 0] by auto
qed

theorem waiting_gate_progress_witness:
  "\<exists>s :: 64 word gate. gate_reachable s \<and> waits_for (manager s 0) = Some (ToPhase GateDrained) \<and>
    ((\<exists>i. permit s i = Inside) \<or>
    (\<exists>i t. permit s i \<notin> {Outside, Inside} \<and> permit_step i s t) \<or>
    (\<exists>k t. idle_lock s = Some (Manager k) \<and> manager_step k s t) \<or>
    ((\<forall>u. manager s 0 \<noteq> Parked u) \<and> (\<exists>t. manager_step 0 s t)))"
proof -
  obtain s :: "64 word gate" where s: "gate_reachable s" "manager s 0 = Parked (ToPhase GateDrained)"
    using parked_run by blast
  then show ?thesis using waiting_gate_progress [of s 0] by (intro exI [of _ s]) simp
qed

end
