(* ===== verification/Striped_Gate.thy ===== *)
theory Striped_Gate
  imports Drain_Gate
begin

text \<open>
  The striped drain gate of \<open>crates/xlfn-kernel/src/drain_gate.rs\<close>: one counter per stripe
  behind one notification mutex. The loops over the stripes (\<open>drain_gate/protocol.rs\<close>) are
  modelled as functions on the list of counters. Whole-gate sealing with rollback is
  modelled a second time as a machine, because admissions and releases of other threads
  may run between any two of its steps; it is shown to be all-or-nothing under that
  interference. The theory also models the assignment of stripes to threads.
\<close>

section \<open>The loops over the stripes\<close>

type_synonym 'w stripes = "'w word list"

definition striped_new_open :: "nat \<Rightarrow> 'w::len word list" where
  "striped_new_open n = replicate n new_open"

definition striped_new_sealed :: "nat \<Rightarrow> 'w::len word list" where
  "striped_new_sealed n = replicate n new_sealed"

text \<open>\<open>counter(stripe)\<close>: an index out of range is a failed \<open>expect\<close>.\<close>

definition stripe_counter :: "'w::len word list \<Rightarrow> nat \<Rightarrow> 'w word run" where
  "stripe_counter cs i = (if i < length cs then Returns (cs ! i) else Aborts)"

definition striped_try_enter :: "'w::len word list \<Rightarrow> nat \<Rightarrow> ((Sealed + nat) \<times> 'w word list) run" where
  "striped_try_enter cs i =
     bind_run (stripe_counter cs i) (\<lambda>c.
     bind_run (try_acquire c) (\<lambda>(r, c').
     Returns (case r of Inl e \<Rightarrow> Inl e | Inr _ \<Rightarrow> Inr i, cs[i := c'])))"

fun seal_all_stripes :: "'w::len word list \<Rightarrow> 'w word list" where
  "seal_all_stripes [] = []"
| "seal_all_stripes (c # cs) = seal c # seal_all_stripes cs"

fun observe_stripes :: "bool \<Rightarrow> 'w::len word list \<Rightarrow> bool \<times> 'w word list" where
  "observe_stripes idle [] = (idle, [])"
| "observe_stripes idle (c # cs) =
     (let (n, c') = mark_waiting c;
          (b, cs') = observe_stripes (if n \<noteq> 0 then False else idle) cs
      in (b, c' # cs'))"

definition observe_stripes_idle :: "'w::len word list \<Rightarrow> bool \<times> 'w word list" where
  "observe_stripes_idle cs = observe_stripes True cs"

text \<open>The rollback undoes the stripes below the one that refused, in order.\<close>

fun undo_stripes :: "nat \<Rightarrow> 'w::len word list \<Rightarrow> 'w word list run" where
  "undo_stripes 0 cs = Returns cs"
| "undo_stripes (Suc n) [] = Aborts"
| "undo_stripes (Suc n) (c # cs) =
     (case undo_idle_seal c of
        (Inl _, _) \<Rightarrow> Aborts
      | (Inr _, c') \<Rightarrow> bind_run (undo_stripes n cs) (\<lambda>cs'. Returns (c' # cs')))"

function seal_stripes :: "nat \<Rightarrow> 'w::len word list \<Rightarrow> (bool \<times> 'w word list) run" where
  "seal_stripes i cs =
     (if i < length cs then
        (case try_seal_if_idle (cs ! i) of
           (True, c) \<Rightarrow> seal_stripes (Suc i) (cs[i := c])
         | (False, c) \<Rightarrow> bind_run (undo_stripes i (cs[i := c])) (\<lambda>cs'. Returns (False, cs')))
      else Returns (True, cs))"
  by pat_completeness auto
termination by (relation "measure (\<lambda>(i, cs). length cs - i)") auto

declare seal_stripes.simps [simp del]

definition striped_try_seal_if_idle :: "'w::len word list \<Rightarrow> (bool \<times> 'w word list) run" where
  "striped_try_seal_if_idle cs = seal_stripes 0 cs"

function reopen_stripes :: "nat \<Rightarrow> 'w::len word list \<Rightarrow> (nat \<times> 'w word list) run" where
  "reopen_stripes i cs =
     (if i < length cs then
        bind_run (reopen (cs ! i)) (\<lambda>(r, c).
          case r of Inr _ \<Rightarrow> reopen_stripes (Suc i) (cs[i := c])
                  | Inl _ \<Rightarrow> Returns (i, cs[i := c]))
      else Returns (i, cs))"
  by pat_completeness auto
termination by (relation "measure (\<lambda>(i, cs). length cs - i)") auto

declare reopen_stripes.simps [simp del]

definition striped_reopen :: "'w::len word list \<Rightarrow> ((ReopenError + unit) \<times> 'w word list) run" where
  "striped_reopen cs =
     (if list_ex (\<lambda>c. \<not> is_sealed c \<or> active c \<noteq> 0) cs then Returns (Inl ReopenError, cs)
      else bind_run (reopen_stripes 0 cs) (\<lambda>(opened, cs').
        Returns (if opened = length cs then Inr () else Inl ReopenError, cs')))"

definition striped_active :: "'w::len word list \<Rightarrow> 'w word run" where
  "striped_active cs =
     fold (\<lambda>c acc. bind_run acc (\<lambda>a. unwrap_or_abort (checked_add a (active c)))) cs (Returns 0)"

definition striped_is_sealed :: "'w::len word list \<Rightarrow> bool" where
  "striped_is_sealed cs = list_all is_sealed cs"

section \<open>Threads and stripes\<close>

definition DEFAULT_STRIPE_COUNT :: "'w::len word" where
  "DEFAULT_STRIPE_COUNT = 32"

text \<open>
  The thread-local cell starts at \<open>usize::MAX\<close>, the process-wide counter at zero; the
  counter's \<open>fetch_add\<close> wraps around.
\<close>

record ('t, 'u) stripe_env =
  thread_stripe :: "'t \<Rightarrow> 'u"
  next_stripe :: 'u

definition stripe_env_init :: "('t, 'w::len word) stripe_env" where
  "stripe_env_init = \<lparr>thread_stripe = (\<lambda>_. - 1), next_stripe = 0\<rparr>"

definition current_thread_stripe ::
    "'t \<Rightarrow> ('t, 'w::len word) stripe_env \<Rightarrow> 'w word \<times> ('t, 'w word) stripe_env" where
  "current_thread_stripe t e =
     (let current = thread_stripe e t in
      if current \<noteq> - 1 then (current, e)
      else let assigned = next_stripe e AND (DEFAULT_STRIPE_COUNT - 1)
           in (assigned, e\<lparr>thread_stripe := (thread_stripe e)(t := assigned),
                           next_stripe := next_stripe e + 1\<rparr>))"

definition try_enter_current ::
    "'t \<Rightarrow> ('t, 'w::len word) stripe_env \<Rightarrow> 'w word list
      \<Rightarrow> ((Sealed + nat) \<times> 'w word list) run \<times> ('t, 'w word) stripe_env" where
  "try_enter_current t e cs =
     (let (i, e') = current_thread_stripe t e in (striped_try_enter cs (unat i), e'))"

section \<open>The loops without interference\<close>

definition stripe_open_idle :: "'w::len word \<Rightarrow> bool" where
  "stripe_open_idle c \<longleftrightarrow> \<not> is_sealed c \<and> active c = 0"

definition stripe_drained :: "'w::len word \<Rightarrow> bool" where
  "stripe_drained c \<longleftrightarrow> is_sealed c \<and> active c = 0"

lemma active_zero_iff: "active (c :: 'w::len word) = 0 \<longleftrightarrow> permits c = 0"
  by (simp add: permits_def unat_eq_zero)

lemma seal_all_stripes_eq: "seal_all_stripes cs = map seal cs"
  by (induction cs) auto

lemma observe_stripes_eq:
  "observe_stripes b cs = (b \<and> list_all (\<lambda>c. active c = 0) cs, map (snd \<circ> mark_waiting) cs)"
  by (induction b cs rule: observe_stripes.induct)
    (auto simp: mark_waiting_def active_def Let_def split: prod.splits)

lemma try_seal_if_idle_eq:
  "try_seal_if_idle c = (if stripe_open_idle c then (True, seal c) else (False, c))"
  by (simp add: try_seal_if_idle_def try_idle_seal_cases stripe_open_idle_def active_zero_iff)

lemma undo_idle_seal_eq:
  "undo_idle_seal c = (if stripe_drained c then (Inr (), c AND NOT SEALED_BIT) else (Inl ReopenError, c))"
  by (simp add: undo_idle_seal_def undo_idle_seal_logic_def stripe_drained_def is_sealed_def active_def)

lemma drained_seal:
  "2 < LENGTH('w::len) \<Longrightarrow> stripe_open_idle (c :: 'w word) \<Longrightarrow> stripe_drained (seal c)"
  by (simp add: stripe_drained_def stripe_open_idle_def active_zero_iff fields_seal)

lemma undo_stripes_seal:
  assumes "2 < LENGTH('w::len)" "list_all stripe_open_idle (xs :: 'w word list)"
  shows "undo_stripes (length xs) (map seal xs @ ys) = Returns (xs @ ys)"
  using assms(2)
  by (induction xs)
    (auto simp: undo_idle_seal_eq drained_seal [OF assms(1)] undo_seal stripe_open_idle_def)

lemma seal_stripes_from:
  assumes w: "2 < LENGTH('w::len)" and "list_all stripe_open_idle (xs :: 'w word list)"
  shows "seal_stripes (length xs) (map seal xs @ ys) =
    Returns (if list_all stripe_open_idle ys then (True, map seal (xs @ ys)) else (False, xs @ ys))"
  using assms(2)
proof (induction ys arbitrary: xs)
  case Nil
  then show ?case by (simp add: seal_stripes.simps)
next
  case (Cons y ys)
  show ?case
  proof (cases "stripe_open_idle y")
    case True
    have "seal_stripes (length xs) (map seal xs @ y # ys)
        = seal_stripes (length (xs @ [y])) (map seal (xs @ [y]) @ ys)"
      using True by (subst seal_stripes.simps) (simp add: try_seal_if_idle_eq nth_append list_update_append)
    then show ?thesis using Cons.IH [of "xs @ [y]"] Cons.prems True by simp
  next
    case False
    then show ?thesis
      using undo_stripes_seal [OF w Cons.prems, of "y # ys"]
      by (subst seal_stripes.simps) (simp add: try_seal_if_idle_eq nth_append list_update_append)
  qed
qed

lemma reopen_stripes_from:
  assumes "list_all stripe_drained ys"
  shows "reopen_stripes (length xs) (xs @ (ys :: 'w::len word list))
    = Returns (length (xs @ ys), xs @ map (\<lambda>_. new_open) ys)"
  using assms
proof (induction ys arbitrary: xs)
  case Nil
  then show ?case by (simp add: reopen_stripes.simps)
next
  case (Cons y ys)
  then have "reopen y = Returns (Inr (), new_open)"
    by (simp add: reopen_cases stripe_drained_def active_zero_iff new_open_def)
  then have "reopen_stripes (length xs) (xs @ y # ys)
      = reopen_stripes (length (xs @ [new_open])) ((xs @ [new_open]) @ ys)"
    by (subst reopen_stripes.simps) (simp add: nth_append list_update_append)
  then show ?case using Cons.IH [of "xs @ [new_open]"] Cons.prems by simp
qed

lemma fold_aborts: "fold (\<lambda>c acc. bind_run acc (f c)) cs Aborts = Aborts"
  by (induction cs) auto

lemma striped_active_from:
  "fold (\<lambda>c acc. bind_run acc (\<lambda>a. unwrap_or_abort (checked_add a (active c)))) cs (Returns a) =
    (if unat a + sum_list (map permits cs) < 2 ^ LENGTH('w)
     then Returns (a + sum_list (map active cs)) else Aborts)" for a :: "'w::len word"
proof (induction cs arbitrary: a)
  case (Cons c cs)
  show ?case
  proof (cases "unat a + permits c < 2 ^ LENGTH('w)")
    case True
    then have "checked_add a (active c) = Some (a + active c)" "unat (a + active c) = unat a + permits c"
      by (simp_all add: checked_add_def permits_def unat_word_ariths)
    then show ?thesis using Cons.IH [of "a + active c"] by (simp add: add.assoc)
  next
    case False
    then have "checked_add a (active c) = None" by (simp add: checked_add_def permits_def)
    then show ?thesis using False by (simp add: fold_aborts)
  qed
qed simp

section \<open>Sealing with interference\<close>

text \<open>
  \<open>try_seal_if_idle\<close> of the whole gate takes no mutex: between its steps any permit may enter
  or leave any stripe. Its caller has the management claim, so no other thread seals or
  reopens. The load and the compare-exchange of one stripe are separate: the stripe may
  have changed in between, which the exchange notices.
\<close>

datatype seal_pc = Sealing nat | Undoing nat nat | SealedAll | RolledBack | SealAborted

inductive permit_move :: "'w::len word \<Rightarrow> 'w word \<Rightarrow> bool" where
  pm_acquire: "try_acquire c = Returns (r, d) \<Longrightarrow> permit_move c d"
| pm_release: "release c = Returns (out, d) \<Longrightarrow> permit_move c d"
| pm_release_fast: "try_release_without_notification c = Returns (out', d) \<Longrightarrow> permit_move c d"

inductive seal_stripes_step :: "'w::len word list \<times> seal_pc \<Rightarrow> 'w word list \<times> seal_pc \<Rightarrow> bool" where
  interference:
    "k < length cs \<Longrightarrow> permit_move (cs ! k) c \<Longrightarrow> seal_stripes_step (cs, pc) (cs[k := c], pc)"
| seal_one:
    "i < length cs \<Longrightarrow> try_idle_seal observed (cs ! i) = (True, c) \<Longrightarrow>
     seal_stripes_step (cs, Sealing i) (cs[i := c], Sealing (Suc i))"
| seal_refused:
    "i < length cs \<Longrightarrow> try_idle_seal observed (cs ! i) = (False, c) \<Longrightarrow>
     seal_stripes_step (cs, Sealing i) (cs[i := c], Undoing 0 i)"
| seal_done: "seal_stripes_step (cs, Sealing (length cs)) (cs, SealedAll)"
| undo_one:
    "r < i \<Longrightarrow> undo_idle_seal (cs ! r) = (Inr u, c) \<Longrightarrow>
     seal_stripes_step (cs, Undoing r i) (cs[r := c], Undoing (Suc r) i)"
| undo_fail_stop:
    "r < i \<Longrightarrow> undo_idle_seal (cs ! r) = (Inl e, c) \<Longrightarrow>
     seal_stripes_step (cs, Undoing r i) (cs, SealAborted)"
| undo_done: "seal_stripes_step (cs, Undoing i i) (cs, RolledBack)"

text \<open>Which stripes the attempt has sealed and not yet undone.\<close>

fun own_seal :: "nat \<Rightarrow> seal_pc \<Rightarrow> nat \<Rightarrow> bool" where
  "own_seal n (Sealing i) k = (k < i)"
| "own_seal n (Undoing r i) k = (r \<le> k \<and> k < i)"
| "own_seal n SealedAll k = (k < n)"
| "own_seal n RolledBack k = False"
| "own_seal n SealAborted k = False"

definition seal_stripes_inv :: "bool list \<Rightarrow> 'w::len word list \<times> seal_pc \<Rightarrow> bool" where
  "seal_stripes_inv sealed0 s \<longleftrightarrow>
     (case s of (cs, pc) \<Rightarrow> length cs = length sealed0 \<and> pc \<noteq> SealAborted \<and>
       (\<forall>r i. pc = Undoing r i \<longrightarrow> r \<le> i \<and> i < length cs) \<and>
       (\<forall>k < length cs. if own_seal (length cs) pc k then stripe_drained (cs ! k) \<and> \<not> sealed0 ! k
                        else is_sealed (cs ! k) = sealed0 ! k))"

definition seal_stripes_init :: "bool list \<Rightarrow> 'w::len word list \<times> seal_pc \<Rightarrow> bool" where
  "seal_stripes_init sealed0 s \<longleftrightarrow> map is_sealed (fst s) = sealed0 \<and> snd s = Sealing 0"

lemma permit_move_sealed:
  assumes w: "2 < LENGTH('w::len)" and "permit_move c (d :: 'w word)"
  shows "is_sealed d = is_sealed c" "stripe_drained c \<Longrightarrow> stripe_drained d"
proof -
  have f: "is_sealed d = is_sealed c \<and> (is_sealed c \<longrightarrow> permits c = 0 \<longrightarrow> permits d = 0)"
    using assms(2)
  proof cases
    case (pm_acquire r)
    then show ?thesis by (cases r) (auto dest!: counter_dests [OF w])
  next
    case (pm_release out)
    then show ?thesis by (auto dest!: counter_dests [OF w])
  next
    case (pm_release_fast out')
    then show ?thesis by (cases out') (auto dest!: counter_dests [OF w])
  qed
  then show "is_sealed d = is_sealed c" "stripe_drained c \<Longrightarrow> stripe_drained d"
    by (auto simp: stripe_drained_def active_zero_iff)
qed

lemma undo_drained:
  assumes "2 < LENGTH('w::len)" "stripe_drained (c :: 'w word)"
  shows "undo_idle_seal c = (Inr (), c AND NOT SEALED_BIT)" "\<not> is_sealed (c AND NOT SEALED_BIT)"
  using assms(2) by (simp_all add: undo_idle_seal_eq is_sealed_def and.assoc)

lemma seal_stripes_inv_step:
  assumes w: "2 < LENGTH('w::len)" and inv: "seal_stripes_inv b s"
    and st: "seal_stripes_step s (t :: 'w word list \<times> seal_pc)"
  shows "seal_stripes_inv b t"
  using st
proof cases
  case (interference k cs c pc)
  then show ?thesis
    using inv permit_move_sealed [OF w interference(4)]
    by (auto simp: seal_stripes_inv_def nth_list_update split: if_splits)
next
  case (seal_one i cs observed c)
  then have "stripe_open_idle (cs ! i)" "c = seal (cs ! i)"
    by (auto simp: try_idle_seal_cases stripe_open_idle_def active_zero_iff split: if_splits)
  then have "stripe_drained c" "\<not> is_sealed (cs ! i)"
    using drained_seal [OF w] by (auto simp: stripe_open_idle_def)
  then show ?thesis
    using inv seal_one by (auto simp: seal_stripes_inv_def nth_list_update split: if_splits)
next
  case (seal_refused i cs observed c)
  then have "c = cs ! i" by (auto simp: try_idle_seal_cases split: if_splits)
  then show ?thesis using inv seal_refused by (auto simp: seal_stripes_inv_def)
next
  case (undo_one r i cs u c)
  then have "stripe_drained (cs ! r)" using inv by (auto simp: seal_stripes_inv_def)
  then have "\<not> is_sealed c" using undo_drained [OF w] undo_one(4) by auto
  then show ?thesis
    using inv undo_one by (auto simp: seal_stripes_inv_def nth_list_update split: if_splits)
next
  case (undo_fail_stop r i cs e c)
  then have "stripe_drained (cs ! r)" using inv by (auto simp: seal_stripes_inv_def)
  then show ?thesis using undo_drained [OF w] undo_fail_stop(4) by auto
qed (use inv in \<open>auto simp: seal_stripes_inv_def split: if_splits\<close>)

lemma seal_stripes_system:
  assumes "2 < LENGTH('w::len)"
  shows "transition_system (seal_stripes_init b) seal_stripes_step
    (seal_stripes_inv b :: 'w word list \<times> seal_pc \<Rightarrow> bool)"
proof unfold_locales
  show "seal_stripes_init b s \<Longrightarrow> seal_stripes_inv b s" for s :: "'w word list \<times> seal_pc"
    by (auto simp: seal_stripes_inv_def seal_stripes_init_def)
qed (rule seal_stripes_inv_step [OF assms])

interpretation sealing32: transition_system "seal_stripes_init b" seal_stripes_step
  "seal_stripes_inv b :: 32 word list \<times> seal_pc \<Rightarrow> bool" for b
  by (rule seal_stripes_system) simp

interpretation sealing64: transition_system "seal_stripes_init b" seal_stripes_step
  "seal_stripes_inv b :: 64 word list \<times> seal_pc \<Rightarrow> bool" for b
  by (rule seal_stripes_system) simp

section \<open>Stripes of threads\<close>

definition stripe_env_ok :: "('t, 'w::len word) stripe_env \<Rightarrow> bool" where
  "stripe_env_ok e \<longleftrightarrow> (\<forall>t. thread_stripe e t = - 1 \<or> unat (thread_stripe e t) < 32)"

lemma stripe_env_ok_init: "stripe_env_ok stripe_env_init"
  by (simp add: stripe_env_ok_def stripe_env_init_def)

lemma assigned_stripe_less:
  assumes "5 < LENGTH('w::len)"
  shows "unat ((n :: 'w word) AND (DEFAULT_STRIPE_COUNT - 1)) < 32"
proof -
  have "(DEFAULT_STRIPE_COUNT - 1 :: 'w word) = mask 5"
    by (simp add: DEFAULT_STRIPE_COUNT_def mask_eq_exp_minus_1)
  then show ?thesis by (simp add: unat_and_mask)
qed

lemma unset_stripe_large:
  assumes "5 < LENGTH('w::len)"
  shows "32 \<le> unat (- 1 :: 'w word)"
proof -
  have "(2::nat) ^ 6 \<le> 2 ^ LENGTH('w)" using assms by (intro power_increasing) auto
  then show ?thesis by (simp add: unsigned_minus_1_eq_mask mask_eq_exp_minus_1)
qed

section \<open>What the striped gate promises\<close>

text \<open>
  C9: whole-gate sealing is all-or-nothing under interference. Whatever admissions and
  releases of other threads run between its steps, an attempt that reports success has
  every stripe sealed and idle and every stripe open at the start, an attempt that
  reports failure leaves exactly the stripes sealed that were sealed before, and the
  \<open>fail_stop\<close> in the rollback is never reached: a stripe this attempt sealed stays sealed
  and idle until it is undone.
\<close>

theorem try_seal_if_idle_all_or_nothing:
  assumes "seal_stripes_step\<^sup>*\<^sup>* (cs, Sealing 0) (cs' :: u64 list, pc)"
  shows "pc \<noteq> SealAborted \<and>
    (pc = SealedAll \<longrightarrow> list_all stripe_drained cs' \<and> \<not> list_ex is_sealed cs) \<and>
    (pc = RolledBack \<longrightarrow> map is_sealed cs' = map is_sealed cs)"
proof -
  have "seal_stripes_inv (map is_sealed cs) (cs', pc)"
    using sealing64.inv_reachable [OF _ assms] by (simp add: seal_stripes_init_def)
  then show ?thesis
    by (auto simp: seal_stripes_inv_def list_all_length list_ex_length intro!: nth_equalityI)
qed

text \<open>
  Without interference the attempt has one outcome: if every stripe is open and idle it
  seals all of them, and otherwise it returns false and every counter is bit for bit what
  it was (the rollback restores even the waiting bits).
\<close>

lemma striped_try_seal_outcome:
  assumes "2 < LENGTH('w::len)"
  shows "striped_try_seal_if_idle (cs :: 'w word list) =
    Returns (if list_all stripe_open_idle cs then (True, map seal cs) else (False, cs))"
  using seal_stripes_from [OF assms, of "[]" cs] by (simp add: striped_try_seal_if_idle_def)

text \<open>
  A drained striped gate, and no other, is reopened: every stripe then has the word of a
  new gate. A gate with one stripe open or one permit out is refused and unchanged, and
  no partial reopen is ever left behind.
\<close>

lemma striped_reopen_outcome:
  "striped_reopen (cs :: 'w::len word list) =
    Returns (if list_all stripe_drained cs then (Inr (), striped_new_open (length cs))
             else (Inl ReopenError, cs))"
proof (cases "list_all stripe_drained cs")
  case True
  then show ?thesis
    using reopen_stripes_from [OF True, of "[]"]
    by (auto simp: striped_reopen_def stripe_drained_def list_all_iff list_ex_iff
        striped_new_open_def map_replicate_const)
next
  case False
  then show ?thesis
    by (auto simp: striped_reopen_def stripe_drained_def list_all_iff list_ex_iff)
qed

text \<open>
  One observation registers the waiter everywhere and misses no permit. It sets the
  waiting bit of every stripe, also of those after the first busy one, changes no count
  and no seal, and reports idle exactly when every stripe's count is zero.
\<close>

lemma observe_stripes_registers_everywhere:
  assumes "2 < LENGTH('w::len)" "observe_stripes_idle (cs :: 'w word list) = (idle, cs')"
  shows "list_all is_waiting cs' \<and> map is_sealed cs' = map is_sealed cs \<and>
    map permits cs' = map permits cs \<and> (idle \<longleftrightarrow> list_all (\<lambda>c. active c = 0) cs)"
  using assms(2) by (auto simp: observe_stripes_idle_def observe_stripes_eq fields_mark_waiting [OF assms(1)]
      list_all_iff)

text \<open>
  The total of a striped gate is exact or the process stops: the checked sum returns
  the number of permits over all stripes whenever that number fits the machine word, and
  aborts (never wraps) otherwise.
\<close>

lemma striped_active_exact:
  "striped_active (cs :: 'w::len word list) = Returns a \<longleftrightarrow> unat a = sum_list (map permits cs)"
  (is "?lhs \<longleftrightarrow> _")
proof -
  have sum: "sum_list (map permits cs) < 2 ^ LENGTH('w) \<Longrightarrow>
      unat (sum_list (map active cs)) = sum_list (map permits cs)" for cs :: "'w word list"
    by (induction cs) (simp_all add: permits_def unat_word_ariths)
  have "?lhs \<longleftrightarrow> sum_list (map permits cs) < 2 ^ LENGTH('w) \<and> a = sum_list (map active cs)"
    using striped_active_from [of cs "0 :: 'w word"] by (auto simp: striped_active_def)
  also have "\<dots> \<longleftrightarrow> unat a = sum_list (map permits cs)"
    using sum [of cs] by (metis unsigned_less word_unat_eq_iff)
  finally show ?thesis .
qed

text \<open>
  A thread's stripe is in range and stays its own. From any reachable assignment,
  \<open>current_thread_stripe\<close> returns an index below the stripe count, keeps the assignment
  of every other thread, and returns the same index when the thread asks again; so
  entering through the current thread's stripe never fails the index check of a gate with
  the default number of stripes.
\<close>

lemma current_thread_stripe_stable:
  assumes "5 < LENGTH('w::len)" "stripe_env_ok (e :: ('t, 'w word) stripe_env)"
    and "current_thread_stripe t e = (i, e')" "length (cs :: 'w word list) = 32"
  shows "stripe_env_ok e' \<and> current_thread_stripe t e' = (i, e') \<and>
    (\<forall>u. u \<noteq> t \<longrightarrow> thread_stripe e' u = thread_stripe e u) \<and>
    stripe_counter cs (unat i) = Returns (cs ! unat i)"
  using assms assigned_stripe_less [OF assms(1), of "next_stripe e"] unset_stripe_large [OF assms(1)]
  by (auto simp: current_thread_stripe_def stripe_env_ok_def stripe_counter_def Let_def split: if_splits)

subsection \<open>Witnesses\<close>

theorem try_seal_if_idle_all_or_nothing_witness:
  "\<exists>cs'. seal_stripes_step\<^sup>*\<^sup>* ([0, 1], Sealing 0) (cs' :: u64 list, RolledBack) \<and>
     map is_sealed cs' = [False, False]"
proof -
  have "seal_stripes_step ([0, 1 :: u64], Sealing 0) ([seal 0, 1], Sealing 1)"
    using seal_one [of 0 "[0, 1 :: u64]" 0 "seal 0"] by (simp add: try_idle_seal_cases fields_zero)
  moreover have "seal_stripes_step ([seal 0, 1 :: u64], Sealing 1) ([seal 0, 1], Undoing 0 1)"
    using seal_refused [of 1 "[seal 0, 1 :: u64]" 1 1]
    by (simp add: try_idle_seal_cases permits_def active_def ACTIVE_COUNT_MASK_64_def)
  moreover have "seal_stripes_step ([seal 0, 1 :: u64], Undoing 0 1) ([0, 1], Undoing 1 1)"
    using undo_one [of 0 1 "[seal 0, 1 :: u64]" "()" 0] undo_seal [of "0 :: u64"]
    by (simp add: undo_idle_seal_eq drained_seal stripe_open_idle_def fields_zero active_zero_iff)
  moreover have "seal_stripes_step ([0, 1 :: u64], Undoing 1 1) ([0, 1], RolledBack)"
    by (rule undo_done)
  ultimately have run: "seal_stripes_step\<^sup>*\<^sup>* ([0, 1], Sealing 0) ([0, 1 :: u64], RolledBack)"
    by (meson converse_rtranclp_into_rtranclp rtranclp.rtrancl_refl)
  have "map is_sealed [0, 1 :: u64] = [False, False]"
    by (simp add: is_sealed_def SEALED_BIT_64_def)
  with run try_seal_if_idle_all_or_nothing [OF run] show ?thesis by auto
qed

end
