(* ===== verification/Operation_Gate.thy ===== *)
theory Operation_Gate
  imports Drain_Gate
begin

text \<open>
  The terminal drain gate of \<open>crates/xlfn-kernel/src/drain_gate.rs\<close> and the operation gate built
  on it (\<open>crates/xlfn-kernel/src/operation_gate.rs\<close>): a gate that is closed once and never
  reopened. Its operations are those of the drain gate; its machine is the drain gate's
  machine started from a terminal gate. The theory shows the gate's documented promises:
  admission ends at the close, and the drained observation never expires.
\<close>

section \<open>Operations\<close>

datatype GateClosed = GateClosed

definition terminal_gate_new :: "'w::len word gate" where
  "terminal_gate_new = gate_new_open True"

definition terminal_is_sealed :: "'w::len word gate \<Rightarrow> bool" where
  "terminal_is_sealed g = is_sealed (counter g)"

definition terminal_active :: "'w::len word gate \<Rightarrow> 'w word" where
  "terminal_active g = active (counter g)"

definition terminal_seal :: "'w::len word gate \<Rightarrow> 'w word gate" where
  "terminal_seal g = g\<lparr>counter := seal (counter g)\<rparr>"

text \<open>Entering gives a permit, numbered by the caller's slot.\<close>

definition terminal_try_enter :: "nat \<Rightarrow> 'w::len word gate \<Rightarrow> ((Sealed + nat) \<times> 'w word gate) run" where
  "terminal_try_enter i g =
     bind_run (try_acquire (counter g)) (\<lambda>(r, c).
       Returns (case r of Inl e \<Rightarrow> (Inl e, g\<lparr>counter := c\<rparr>)
                        | Inr _ \<Rightarrow> (Inr i, set_permit i Inside (g\<lparr>counter := c\<rparr>))))"

text \<open>\<open>wait\<close> seals and enters the wait loop of the drain gate, as manager \<open>j\<close>.\<close>

definition terminal_wait_begin :: "nat \<Rightarrow> 'w::len word gate \<Rightarrow> 'w word gate" where
  "terminal_wait_begin j g = set_manager j (WaitLock ToTerminal) (g\<lparr>counter := seal (counter g)\<rparr>)"

definition is_closing :: "'w::len word gate \<Rightarrow> bool" where
  "is_closing g = terminal_is_sealed g"

definition begin_close :: "'w::len word gate \<Rightarrow> 'w word gate" where
  "begin_close g = terminal_seal g"

definition enter :: "nat \<Rightarrow> 'w::len word gate \<Rightarrow> ((GateClosed + nat) \<times> 'w word gate) run" where
  "enter i g =
     bind_run (terminal_try_enter i g) (\<lambda>(r, g').
       Returns (case r of Inl _ \<Rightarrow> Inl GateClosed | Inr p \<Rightarrow> Inr p, g'))"

definition close_and_wait_begin :: "'w::len word gate \<Rightarrow> 'w word gate" where
  "close_and_wait_begin g = begin_close g"

section \<open>The operations are steps of the machine\<close>

definition terminal_reachable :: "'w::len word gate \<Rightarrow> bool" where
  "terminal_reachable g \<longleftrightarrow> gate_step\<^sup>*\<^sup>* terminal_gate_new g"

lemma terminal_reachable_gate: "terminal_reachable g \<Longrightarrow> gate_reachable g"
  by (auto simp: terminal_reachable_def gate_reachable_def gate_init_def terminal_gate_new_def)

lemma gate_step_terminal: "gate_step s t \<Longrightarrow> terminal t = terminal s"
  by (auto elim!: gate_step.cases permit_step.cases manager_step.cases)

lemma gate_steps_terminal: "gate_step\<^sup>*\<^sup>* s t \<Longrightarrow> terminal t = terminal s"
  by (induction rule: rtranclp_induct) (auto dest: gate_step_terminal)

lemma terminal_reachable_terminal: "terminal_reachable g \<Longrightarrow> terminal g"
  using gate_steps_terminal [of terminal_gate_new g]
  by (simp add: terminal_reachable_def terminal_gate_new_def gate_new_open_def)

text \<open>A terminal gate has no claim, hence no reopen: nothing unseals it.\<close>

lemma terminal_no_reopen:
  assumes "gate_inv s" "terminal s"
  shows "manager s j \<noteq> Reopening"
  using assms inv_controlD(1) [of s j] inv_controlD(3) [of s] by (auto simp: gate_inv_def)

lemma terminal_step_sealed:
  assumes w: "2 < LENGTH('w::len)" and "gate_inv s" "terminal s" "is_sealed (counter s)"
    and st: "gate_step s (t :: 'w word gate)"
  shows "is_sealed (counter t)"
  using st
proof cases
  case (by_permit i)
  then show ?thesis
    using assms(4) by cases (auto dest!: counter_dests [OF w])
next
  case (by_manager j)
  then show ?thesis
    using assms(4) terminal_no_reopen [OF assms(2,3), of j]
    by cases (auto simp: fields_seal [OF w] dest!: counter_dests [OF w])
qed

lemma terminal_steps_sealed:
  assumes w: "2 < LENGTH('w::len)" and "gate_inv s" "terminal s" "is_sealed (counter s)"
    and "gate_step\<^sup>*\<^sup>* s (t :: 'w word gate)"
  shows "is_sealed (counter t) \<and> gate_inv t \<and> terminal t"
  using assms(5)
proof (induction rule: rtranclp_induct)
  case base
  show ?case using assms by simp
next
  case (step y z)
  then show ?case
    using terminal_step_sealed [OF w] gate_inv_step [OF w] gate_step_terminal by blast
qed

text \<open>Once every permit is outside a sealed terminal gate, every permit stays outside.\<close>

lemma terminal_step_outside:
  assumes w: "2 < LENGTH('w::len)" and "is_sealed (counter s)" "\<forall>i. permit s i = Outside"
    and st: "gate_step s (t :: 'w word gate)"
  shows "\<forall>i. permit t i = Outside"
  using st
proof cases
  case (by_permit i)
  then show ?thesis
    using assms(2,3) by cases (auto dest!: counter_dests [OF w])
next
  case (by_manager j)
  then show ?thesis
    using assms(3) by cases auto
qed

lemma terminal_steps_outside:
  assumes w: "2 < LENGTH('w::len)" and "gate_inv s" "terminal s" "is_sealed (counter s)"
    and "\<forall>i. permit s i = Outside" "gate_step\<^sup>*\<^sup>* s (t :: 'w word gate)"
  shows "\<forall>i. permit t i = Outside"
  using assms(6)
proof (induction rule: rtranclp_induct)
  case base
  show ?case by (rule assms)
next
  case (step y z)
  then show ?case
    using terminal_step_outside [OF w] terminal_steps_sealed [OF w assms(2-4)] by blast
qed

lemma enter_cases:
  assumes "2 < LENGTH('w::len)"
  shows "enter i (g :: 'w word gate) =
    (if is_closing g then Returns (Inl GateClosed, g)
     else if permits (counter g) = active_limit TYPE('w) then Aborts
     else Returns (Inr i, set_permit i Inside (g\<lparr>counter := counter g + 1\<rparr>)))"
  by (simp add: enter_def terminal_try_enter_def is_closing_def terminal_is_sealed_def
      try_acquire_cases [OF assms])

section \<open>What the operation gate promises\<close>

text \<open>
  Closing is final. In every state a terminal gate can reach from a state in which
  \<open>begin_close\<close> has run, however the operations of all threads interleave, \<open>enter\<close> returns
  \<open>GateClosed\<close> and changes nothing.
\<close>

lemma operation_gate_close_final:
  assumes "2 < LENGTH('w::len)" "terminal_reachable (g :: 'w word gate)"
    and "gate_step\<^sup>*\<^sup>* (begin_close g) t"
  shows "is_closing t \<and> enter i t = Returns (Inl GateClosed, t)"
proof -
  have g: "terminal g" "gate_inv g"
    using assms terminal_reachable_terminal terminal_reachable_gate reachable_inv by blast+
  have "gate_inv (begin_close g)"
    using g(2) by (auto simp: begin_close_def terminal_seal_def gate_inv_def inv_count_def
        inv_lock_def inv_control_def inv_sealed_def inv_drained_def inv_wakeup_def fields_seal [OF assms(1)])
  then have "is_sealed (counter t)"
    using terminal_steps_sealed [OF assms(1) _ _ _ assms(3)] g(1)
    by (simp add: begin_close_def terminal_seal_def fields_seal [OF assms(1)])
  then show ?thesis
    by (simp add: enter_cases [OF assms(1)] is_closing_def terminal_is_sealed_def)
qed

text \<open>
  C17: the drained observation never expires. Once \<open>TerminationWaitGuard::wait\<close> has returned
  to any thread, in every later state the active count is zero, every operation guard
  has been released completely, and no operation can enter.
\<close>

theorem operations_drained_persistent:
  assumes "2 < LENGTH('w::len)" "terminal_reachable (g :: 'w word gate)"
    and "manager g j = TerminalDrained" "gate_step\<^sup>*\<^sup>* g t"
  shows "terminal_active t = 0 \<and> permit t i = Outside \<and> enter i t = Returns (Inl GateClosed, t)"
proof -
  have g: "terminal g" "gate_inv g"
    using assms terminal_reachable_terminal terminal_reachable_gate reachable_inv by blast+
  note d = drained_state [OF g(2), of j, unfolded assms(3)]
  have t: "is_sealed (counter t)" "gate_inv t"
    using terminal_steps_sealed [OF assms(1) g(2,1) _ assms(4)] d(1) by simp_all
  have out: "\<forall>i. permit t i = Outside"
    using terminal_steps_outside [OF assms(1) g(2,1) _ _ assms(4)] d(1,2) by simp
  then have "permits (counter t) = 0"
    using counted_owner [OF t(2)] by (metis counts.simps(4) gr0I)
  then show ?thesis
    using t(1) out by (simp add: enter_cases [OF assms(1)] terminal_active_def is_closing_def
        terminal_is_sealed_def permits_def unat_eq_zero)
qed

subsection \<open>Witnesses\<close>

lemma terminal_drained_run:
  "\<exists>g :: 64 word gate. terminal_reachable g \<and> manager g 0 = TerminalDrained"
proof -
  let ?new = "terminal_gate_new :: 64 word gate"
  have step: "terminal_reachable s \<Longrightarrow> gate_step s t \<Longrightarrow> terminal_reachable t" for s t :: "64 word gate"
    unfolding terminal_reachable_def by (rule rtranclp.rtrancl_into_rtrancl)
  have 0: "terminal_reachable ?new" by (simp add: terminal_reachable_def)
  obtain s1 :: "64 word gate" where 1: "terminal_reachable s1" "manager s1 0 = WaitLock ToTerminal"
      "counter s1 = 0x8000000000000000" "idle_lock s1 = None"
    using step [OF 0 by_manager [OF terminal_wait [of _ 0]]]
    by (force simp: terminal_gate_new_def gate_new_open_def new_open_def seal_def SEALED_BIT_64_def)
  obtain s2 :: "64 word gate" where 2: "terminal_reachable s2" "manager s2 0 = WaitObserve ToTerminal"
      "counter s2 = 0x8000000000000000"
    using step [OF 1(1) by_manager [OF wait_lock [OF 1(2,4)]]] 1 by force
  obtain s3 :: "64 word gate" where 3: "terminal_reachable s3" "manager s3 0 = WaitUnlock ToTerminal"
    using step [OF 2(1) by_manager [OF wait_observe [OF 2(2) surjective_pairing]]] 2
    by (force simp: mark_waiting_def ACTIVE_COUNT_MASK_64_def)
  show ?thesis using step [OF 3(1) by_manager [OF wait_unlock [OF 3(2)]]] by force
qed

theorem operations_drained_persistent_witness:
  "\<exists>g :: 64 word gate. terminal_reachable g \<and> manager g 0 = TerminalDrained \<and>
     terminal_active g = 0 \<and> enter 5 g = Returns (Inl GateClosed, g)"
proof -
  obtain g :: "64 word gate" where g: "terminal_reachable g" "manager g 0 = TerminalDrained"
    using terminal_drained_run by blast
  then show ?thesis using operations_drained_persistent [OF _ g rtranclp.rtrancl_refl, of 5] by auto
qed

end
