(* ===== verification/Quota.thy ===== *)
theory Quota
  imports Prelude Sealable_Counter
begin

text \<open>
  The fail-stop accounting primitives of \<open>crates/xlfn-kernel/src/invariant.rs\<close> and the bounded
  permit counter of \<open>crates/xlfn-kernel/src/quota.rs\<close>. The quota is an accounted pool: its
  count is the number of permits outstanding, it never exceeds the limit, and dropping a
  permit never aborts.
\<close>

section \<open>Fail-stop accounting\<close>

definition checked_sub_or_abort :: "'w::len word \<Rightarrow> 'w word \<Rightarrow> 'w word run" where
  "checked_sub_or_abort v amount = unwrap_or_abort (checked_sub v amount)"

text \<open>
  The atomic subtractions return the value observed before and leave the difference; the
  variants differ in memory order only, \<open>checked_atomic_sub_u64\<close> in the width.
\<close>

definition checked_atomic_sub_ordered :: "'w::len word \<Rightarrow> 'w word \<Rightarrow> ('w word \<times> 'w word) run" where
  "checked_atomic_sub_ordered c amount =
     bind_run (try_update (\<lambda>v. Returns (checked_sub v amount)) c)
       (\<lambda>(r, c'). case r of Inl _ \<Rightarrow> Aborts | Inr previous \<Rightarrow> Returns (previous, c'))"

definition checked_atomic_sub :: "'w::len word \<Rightarrow> 'w word \<Rightarrow> ('w word \<times> 'w word) run" where
  "checked_atomic_sub c amount = checked_atomic_sub_ordered c amount"

definition checked_atomic_dec :: "'w::len word \<Rightarrow> ('w word \<times> 'w word) run" where
  "checked_atomic_dec c = checked_atomic_sub c 1"

definition checked_atomic_sub_relaxed :: "'w::len word \<Rightarrow> 'w word \<Rightarrow> ('w word \<times> 'w word) run" where
  "checked_atomic_sub_relaxed c amount = checked_atomic_sub_ordered c amount"

definition checked_atomic_dec_relaxed :: "'w::len word \<Rightarrow> ('w word \<times> 'w word) run" where
  "checked_atomic_dec_relaxed c = checked_atomic_sub_relaxed c 1"

definition checked_atomic_dec_release :: "'w::len word \<Rightarrow> ('w word \<times> 'w word) run" where
  "checked_atomic_dec_release c = checked_atomic_sub_ordered c 1"

definition checked_atomic_sub_u64 :: "u64 \<Rightarrow> u64 \<Rightarrow> (u64 \<times> u64) run" where
  "checked_atomic_sub_u64 c amount =
     bind_run (try_update (\<lambda>v. Returns (checked_sub v amount)) c)
       (\<lambda>(r, c'). case r of Inl _ \<Rightarrow> Aborts | Inr previous \<Rightarrow> Returns (previous, c'))"

definition checked_atomic_dec_u64 :: "u64 \<Rightarrow> (u64 \<times> u64) run" where
  "checked_atomic_dec_u64 c = checked_atomic_sub_u64 c 1"

lemma checked_atomic_sub_ordered_eq:
  "checked_atomic_sub_ordered c amount =
    (if amount \<le> c then Returns (c, c - amount) else Aborts)"
  by (simp add: checked_atomic_sub_ordered_def try_update_def checked_sub_def)

section \<open>The quota\<close>

datatype QuotaExceeded = QuotaExceeded

record 'u Quota =
  used :: 'u
  limit :: 'u

definition quota_new :: "'w::len word \<Rightarrow> 'w word Quota" where
  "quota_new l = \<lparr>used = 0, limit = l\<rparr>"

definition acquire_count :: "'w::len word Quota \<Rightarrow> ((QuotaExceeded + unit) \<times> 'w word Quota) run" where
  "acquire_count q =
     bind_run (try_update (\<lambda>u. Returns (if u < limit q then Some (u + 1) else None)) (used q))
       (\<lambda>(r, u). Returns (case r of Inl _ \<Rightarrow> Inl QuotaExceeded | Inr _ \<Rightarrow> Inr (), q\<lparr>used := u\<rparr>))"

text \<open>\<open>try_acquire\<close> and \<open>try_acquire_detached\<close>; the permit is the capability to call the drop.\<close>

definition quota_try_acquire :: "unit \<Rightarrow> 'w::len word Quota \<Rightarrow> 'w word Quota option" where
  "quota_try_acquire _ q =
     (case acquire_count q of Returns (Inr _, q') \<Rightarrow> Some q' | _ \<Rightarrow> None)"

definition quota_permit_drop :: "unit \<Rightarrow> 'w::len word Quota \<Rightarrow> 'w word Quota run" where
  "quota_permit_drop _ q =
     bind_run (checked_atomic_dec_relaxed (used q)) (\<lambda>(_, u). Returns (q\<lparr>used := u\<rparr>))"

definition quota_used :: "'w::len word Quota \<Rightarrow> 'w word" where
  "quota_used q = used q"

lemma acquire_count_eq:
  "acquire_count q = Returns (if used q < limit q then (Inr (), q\<lparr>used := used q + 1\<rparr>)
                              else (Inl QuotaExceeded, q))"
  by (simp add: acquire_count_def try_update_def)

lemma unat_add_one:
  assumes "u < (l :: 'w::len word)"
  shows "unat (u + 1) = unat u + 1" "u + 1 \<le> l"
proof -
  have "unat u + 1 < 2 ^ LENGTH('w)"
    using assms unsigned_less [of l, where 'a = nat] unfolding word_less_nat_alt by linarith
  then show u: "unat (u + 1) = unat u + 1" by (simp add: unat_word_ariths)
  show "u + 1 \<le> l" using assms u by (simp add: word_le_nat_alt word_less_nat_alt)
qed

lemma quota_try_acquire_eq:
  "quota_try_acquire x q = (if used q < limit q then Some (q\<lparr>used := used q + 1\<rparr>) else None)"
  by (simp add: quota_try_acquire_def acquire_count_eq)

lemma quota_permit_drop_eq:
  "quota_permit_drop x q = (if 1 \<le> used q then Returns (q\<lparr>used := used q - 1\<rparr>) else Aborts)"
  by (simp add: quota_permit_drop_def checked_atomic_dec_relaxed_def checked_atomic_sub_relaxed_def
      checked_atomic_sub_ordered_eq)

interpretation quota: accounted_pool quota_try_acquire quota_permit_drop
  "\<lambda>(q :: 'w::len word Quota) (_ :: unit). unat (used q)" "\<lambda>_ _. 1"
  by unfold_locales
    (auto simp: quota_try_acquire_eq quota_permit_drop_eq unat_add_one unat_sub word_le_nat_alt
      split: if_splits)

lemma quota_limit_kept:
  assumes "(pool_step quota_try_acquire quota_permit_drop)\<^sup>*\<^sup>* x y"
    and "limit (fst x) = l" "used (fst x) \<le> (l :: 'w::len word)"
  shows "limit (fst y) = l \<and> used (fst y) \<le> l"
  using assms(1)
proof (induction rule: rtranclp_induct)
  case base
  show ?case using assms(2,3) by simp
next
  case (step y z)
  from step(2) step(3) show ?case
  proof cases
    case (pool_take a s t ps)
    then show ?thesis
      using step(3) unat_add_one(2) by (auto simp: quota_try_acquire_eq split: if_splits)
  next
    case (pool_give a ps s t)
    then show ?thesis
      using step(3) by (auto simp: quota_permit_drop_eq word_le_nat_alt unat_sub split: if_splits)
  qed
qed

text \<open>
  C15: the quota counts exactly and never exceeds its limit. After any interleaving of
  acquisitions and permit drops on a new quota, \<open>used\<close> is the number of permits
  outstanding and at most the limit, dropping any of them succeeds, and an acquisition is
  refused exactly when the limit is reached: the increment never wraps.
\<close>

theorem quota_exact:
  assumes "(pool_step quota_try_acquire quota_permit_drop)\<^sup>*\<^sup>* (quota_new l, []) (q, ps)"
  shows "unat (quota_used q) = length ps \<and> length ps \<le> unat (l :: 'w::len word) \<and>
    (ps \<noteq> [] \<longrightarrow> (\<exists>q'. quota_permit_drop () q = Returns q')) \<and>
    (quota_try_acquire () q = None \<longleftrightarrow> length ps = unat l)"
proof -
  have u: "unat (used q) = length ps"
    using quota.accounting [OF assms] by (simp add: quota_new_def sum_list_triv)
  moreover have "limit q = l" "used q \<le> l"
    using quota_limit_kept [OF assms] by (simp_all add: quota_new_def)
  moreover have "ps \<noteq> [] \<Longrightarrow> \<exists>q'. quota_permit_drop () q = Returns q'"
    using quota.give_returns [OF assms, of "hd ps"] by (cases ps) (auto simp: quota_new_def)
  ultimately show ?thesis
    by (auto simp: quota_used_def quota_try_acquire_eq word_le_nat_alt word_less_nat_alt)
qed

theorem quota_exact_witness:
  "quota_try_acquire () (\<lparr>used = 1, limit = 1\<rparr> :: u32 Quota) = None"
proof -
  have "(pool_step quota_try_acquire quota_permit_drop)\<^sup>*\<^sup>* (quota_new (1 :: u32), [])
      (\<lparr>used = 1, limit = 1\<rparr>, [()])"
    by (rule r_into_rtranclp, rule pool_take) (simp add: quota_try_acquire_eq quota_new_def)
  from quota_exact [OF this] show ?thesis by simp
qed

end
