(* ===== verification/Errors.thy ===== *)
theory Errors
  imports Prelude
begin

text \<open>
  The error vocabulary of \<open>crates/xlfn/src/error.rs\<close> and the value types of
  \<open>crates/xlfn/src/value/raw.rs\<close>: worksheet errors and their C API codes, input errors,
  callback statuses and the framework error \<open>XllError\<close> with its mapping to the worksheet.
  Integers of the C API are \<open>int\<close> and \<open>nat\<close> (no arithmetic is done on them), diagnostic texts
  are strings.
\<close>

section \<open>Worksheet errors\<close>

datatype ExcelError =
  Null | DivisionByZero | Value | Reference | Name | Number | NotAvailable | GettingData

definition XLERR_NULL :: int where "XLERR_NULL = 0"
definition XLERR_DIV0 :: int where "XLERR_DIV0 = 7"
definition XLERR_VALUE :: int where "XLERR_VALUE = 15"
definition XLERR_REF :: int where "XLERR_REF = 23"
definition XLERR_NAME :: int where "XLERR_NAME = 29"
definition XLERR_NUM :: int where "XLERR_NUM = 36"
definition XLERR_NA :: int where "XLERR_NA = 42"
definition XLERR_GETTING_DATA :: int where "XLERR_GETTING_DATA = 43"

lemmas xlerr_defs = XLERR_NULL_def XLERR_DIV0_def XLERR_VALUE_def XLERR_REF_def XLERR_NAME_def
  XLERR_NUM_def XLERR_NA_def XLERR_GETTING_DATA_def

fun code :: "ExcelError \<Rightarrow> int" where
  "code Null = XLERR_NULL"
| "code DivisionByZero = XLERR_DIV0"
| "code Value = XLERR_VALUE"
| "code Reference = XLERR_REF"
| "code Name = XLERR_NAME"
| "code Number = XLERR_NUM"
| "code NotAvailable = XLERR_NA"
| "code GettingData = XLERR_GETTING_DATA"

definition from_code :: "int \<Rightarrow> ExcelError option" where
  "from_code c =
     (if c = XLERR_NULL then Some Null
      else if c = XLERR_DIV0 then Some DivisionByZero
      else if c = XLERR_VALUE then Some Value
      else if c = XLERR_REF then Some Reference
      else if c = XLERR_NAME then Some Name
      else if c = XLERR_NUM then Some Number
      else if c = XLERR_NA then Some NotAvailable
      else if c = XLERR_GETTING_DATA then Some GettingData
      else None)"

fun excel_error_text :: "ExcelError \<Rightarrow> string" where
  "excel_error_text Null = ''#NULL!''"
| "excel_error_text DivisionByZero = ''#DIV/0!''"
| "excel_error_text Value = ''#VALUE!''"
| "excel_error_text Reference = ''#REF!''"
| "excel_error_text Name = ''#NAME?''"
| "excel_error_text Number = ''#NUM!''"
| "excel_error_text NotAvailable = ''#N/A''"
| "excel_error_text GettingData = ''#GETTING_DATA''"

section \<open>Value types\<close>

datatype XlValueType =
  XlNumber | XlString | XlBoolean | XlReference | XlError | XlFlow | XlMulti | XlMissing | XlNil
| XlSimpleReference | XlInteger | XlBigData

definition value_type_from_raw :: "nat \<Rightarrow> XlValueType option" where
  "value_type_from_raw raw =
     (if raw = 0x0001 then Some XlNumber
      else if raw = 0x0002 then Some XlString
      else if raw = 0x0004 then Some XlBoolean
      else if raw = 0x0008 then Some XlReference
      else if raw = 0x0010 then Some XlError
      else if raw = 0x0020 then Some XlFlow
      else if raw = 0x0040 then Some XlMulti
      else if raw = 0x0080 then Some XlMissing
      else if raw = 0x0100 then Some XlNil
      else if raw = 0x0400 then Some XlSimpleReference
      else if raw = 0x0800 then Some XlInteger
      else if raw = 0x0002 OR 0x0800 then Some XlBigData
      else None)"

text \<open>Diagnostic identifiers are the big-endian number of eight letters.\<close>

definition from_ascii8 :: "string \<Rightarrow> nat" where
  "from_ascii8 s = foldl (\<lambda>n c. n * 256 + of_char c) 0 s"

section \<open>Framework errors\<close>

datatype InputError =
  NullPointer
| WrongType string XlValueType
| NonFinite
| NotInteger
| NumericOverflow
| OutOfRange
| InvalidUtf16
| Malformed string
| UnknownEnum string string
| TooLarge nat nat

record Shape =
  rows :: nat
  columns :: nat

datatype DomainErrorCode = InvalidInput | Overflow | NativeFailure

datatype ExcelCallbackStatus = CallbackSuccess | Abort | Uncalced | Failed int

definition XLRET_SUCCESS :: int where "XLRET_SUCCESS = 0"
definition XLRET_ABORT :: int where "XLRET_ABORT = 1"
definition XLRET_UNCALCED :: int where "XLRET_UNCALCED = 64"

definition callback_status_from_raw :: "int \<Rightarrow> ExcelCallbackStatus" where
  "callback_status_from_raw status =
     (if status = XLRET_SUCCESS then CallbackSuccess
      else if status = XLRET_ABORT then Abort
      else if status = XLRET_UNCALCED then Uncalced
      else Failed status)"

fun is_terminal :: "ExcelCallbackStatus \<Rightarrow> bool" where
  "is_terminal Abort = True"
| "is_terminal Uncalced = True"
| "is_terminal _ = False"

datatype ExcelApiFunction =
  Caller | SheetName | SheetId | GetDocument | GetName | Register | Unregister | SetName | Evaluate
| EventRegister | Rtd | Free | AsyncReturn | Coerce

fun api_function_text :: "ExcelApiFunction \<Rightarrow> string" where
  "api_function_text Caller = ''xlfCaller''"
| "api_function_text SheetName = ''xlSheetNm''"
| "api_function_text SheetId = ''xlSheetId''"
| "api_function_text GetDocument = ''xlfGetDocument''"
| "api_function_text GetName = ''xlGetName''"
| "api_function_text Register = ''xlfRegister''"
| "api_function_text Unregister = ''xlfUnregister''"
| "api_function_text SetName = ''xlfSetName''"
| "api_function_text Evaluate = ''xlfEvaluate''"
| "api_function_text EventRegister = ''xlEventRegister''"
| "api_function_text Rtd = ''xlfRtd''"
| "api_function_text Free = ''xlFree''"
| "api_function_text AsyncReturn = ''xlAsyncReturn''"
| "api_function_text Coerce = ''xlCoerce''"

datatype ExcelApiFailure =
  Status ExcelCallbackStatus
| Suppressed ExcelCallbackStatus
| UnexpectedResult
| InvalidRegistrationId int
| Indeterminate ExcelCallbackStatus

datatype XllError =
  Input string InputError
| ShapeMismatch Shape Shape
| ElementCountMismatch nat nat nat nat
| Domain DomainErrorCode
| Custom ExcelError string
| ExcelApi ExcelApiFunction ExcelApiFailure
| WindowsApi string int
| RegistrationConflict "nat list"
| MetadataDebtBindingChanged "nat list"
| LibraryLoad string nat
| MissingSymbol string
| AbiMismatch nat nat
| Native int string
| RtdSubscriptionShutdown nat int string XllError
| RtdProducerFailure string XllError
| ExcelValue ExcelError
| InvalidHandle
| StaleHandle
| Closing
| Overloaded
| ReentrantCall
| Panic
| Internal nat

type_synonym 'a XllResult = "XllError + 'a"

fun excel_error :: "XllError \<Rightarrow> ExcelError" where
  "excel_error (RtdProducerFailure topic source) = excel_error source"
| "excel_error (Domain c) = Number"
| "excel_error (Input argument NumericOverflow) = Number"
| "excel_error InvalidHandle = NotAvailable"
| "excel_error StaleHandle = NotAvailable"
| "excel_error Closing = NotAvailable"
| "excel_error Overloaded = NotAvailable"
| "excel_error ReentrantCall = NotAvailable"
| "excel_error (ExcelValue e) = e"
| "excel_error (Custom e message) = e"
| "excel_error _ = Value"

datatype 'e ServiceFault = FaultError 'e | Panicked
datatype 'e ServiceSlotError = SlotClosed | Fault "'e ServiceFault"

fun map_service_slot_error :: "XllError ServiceSlotError \<Rightarrow> XllError" where
  "map_service_slot_error SlotClosed = Closing"
| "map_service_slot_error (Fault (FaultError e)) = e"
| "map_service_slot_error (Fault Panicked) = Panic"

section \<open>Properties\<close>

interpretation excel_error_code: exact_codec code from_code "\<lambda>_. True"
proof unfold_locales
  show "from_code (code e) = Some e" for e
    by (cases e) (simp_all add: from_code_def xlerr_defs)
  show "from_code c = Some e \<Longrightarrow> True \<and> code e = c" for c e
    by (auto simp: from_code_def xlerr_defs split: if_splits)
qed

text \<open>
  Worksheet error codes are an exact encoding. Decoding the C API code of a worksheet
  error returns that error, different errors have different codes, and a code decodes to
  an error only if it is that error's code: every other code is rejected.
\<close>

lemma excel_error_code_exact:
  "from_code c = Some e \<longleftrightarrow> code e = c"
  using excel_error_code.dec_Some_iff [of c e] by blast

text \<open>The worksheet errors an application chose: its own values and custom errors.\<close>

fun application_error :: "XllError \<Rightarrow> ExcelError option" where
  "application_error (RtdProducerFailure topic source) = application_error source"
| "application_error (ExcelValue e) = Some e"
| "application_error (Custom e message) = Some e"
| "application_error _ = None"

lemma excel_error_framework:
  "application_error e = None \<Longrightarrow> excel_error e \<in> {Value, Number, NotAvailable}"
  by (induction e rule: excel_error.induct) auto

lemma excel_error_application: "application_error e = Some x \<Longrightarrow> excel_error e = x"
  by (induction e rule: application_error.induct) auto

text \<open>
  What a worksheet can see of a failure. An error the application chose (its own Excel
  value or a custom error), also behind any number of RTD producer wrappers, reaches the
  worksheet unchanged; every failure of the framework reaches it as one of \<open>#VALUE!\<close>,
  \<open>#NUM!\<close> and \<open>#N/A\<close>, and \<open>#NUM!\<close> only for a domain error or a numeric overflow.
\<close>

lemma excel_error_visibility:
  "(\<forall>x. application_error e = Some x \<longrightarrow> excel_error e = x) \<and>
   (application_error e = None \<longrightarrow> excel_error e \<in> {Value, Number, NotAvailable}) \<and>
   excel_error (RtdProducerFailure topic e) = excel_error e"
  using excel_error_framework excel_error_application by simp

end
