(* ===== verification/Rtd_Budget.thy ===== *)
theory Rtd_Budget
  imports Errors
begin

text \<open>
  Admission accounting of RTD subscriptions: the capacities and limits of
  \<open>crates/xlfn/src/subscription/topic.rs\<close> and the budgets of \<open>subscription/budget.rs\<close>. A budget
  charges four resources against limits under one mutex; a channel charges its buffered
  values against two budgets at once, its source's and the runtime's, and keeps a ledger
  of what its queue holds while in-flight batches own the rest as permits. The theory
  shows that the charges are exact, that a refused batch leaves both budgets as they
  were, and that no subtraction underflows.
\<close>

section \<open>Capacities and limits\<close>

text \<open>The payload of \<open>Bounded\<close> is a \<open>NonZeroUsize\<close>; \<open>capacity_ok\<close> states that.\<close>

datatype 'u RtdCapacity = Disabled | Bounded 'u

definition disabled_if_zero :: "'w::len word \<Rightarrow> 'w word RtdCapacity" where
  "disabled_if_zero v = (if v \<noteq> 0 then Bounded v else Disabled)"

fun capacity_get :: "'w::len word RtdCapacity \<Rightarrow> 'w word" where
  "capacity_get Disabled = 0"
| "capacity_get (Bounded v) = v"

fun is_disabled :: "'u RtdCapacity \<Rightarrow> bool" where
  "is_disabled Disabled = True"
| "is_disabled (Bounded v) = False"

definition capacity_ok :: "'w::len word RtdCapacity \<Rightarrow> bool" where
  "capacity_ok c \<longleftrightarrow> c \<noteq> Bounded 0"

record 'u RtdSourceLimits =
  sl_subscriptions :: "'u RtdCapacity"
  sl_values :: "'u RtdCapacity"
  sl_bytes :: "'u RtdCapacity"

definition source_limits_standard :: "'w::len word RtdSourceLimits" where
  "source_limits_standard =
     \<lparr>sl_subscriptions = disabled_if_zero 4096, sl_values = disabled_if_zero 4096,
      sl_bytes = disabled_if_zero (64 * 1024 * 1024)\<rparr>"

record 'u RtdLimits =
  max_pending :: "'u RtdCapacity"
  max_active :: "'u RtdCapacity"
  max_queued_updates :: "'u RtdCapacity"
  max_source_ids :: "'u RtdCapacity"
  max_total_topic_bytes :: "'u RtdCapacity"
  max_buffered_values :: "'u RtdCapacity"
  max_buffered_bytes :: "'u RtdCapacity"
  max_workers :: "'u RtdCapacity"

definition limits_standard :: "'w::len word RtdLimits" where
  "limits_standard =
     \<lparr>max_pending = disabled_if_zero 4096, max_active = disabled_if_zero 4096,
      max_queued_updates = disabled_if_zero 4096, max_source_ids = disabled_if_zero 4096,
      max_total_topic_bytes = disabled_if_zero (64 * 1024 * 1024),
      max_buffered_values = disabled_if_zero 4096,
      max_buffered_bytes = disabled_if_zero (64 * 1024 * 1024), max_workers = disabled_if_zero 64\<rparr>"

section \<open>A budget\<close>

record 'u Usage =
  u_subscriptions :: 'u
  u_values :: 'u
  u_bytes :: 'u
  u_workers :: 'u

record 'u ChannelBudget =
  b_limit :: "'u Usage"
  b_used :: "'u Usage"

definition usage_default :: "'w::len word Usage" where
  "usage_default = \<lparr>u_subscriptions = 0, u_values = 0, u_bytes = 0, u_workers = 0\<rparr>"

definition budget_new :: "'w::len word Usage \<Rightarrow> 'w word ChannelBudget" where
  "budget_new l = \<lparr>b_limit = l, b_used = usage_default\<rparr>"

definition budget_source :: "'w::len word RtdSourceLimits \<Rightarrow> 'w word ChannelBudget" where
  "budget_source ls = budget_new
     \<lparr>u_subscriptions = capacity_get (sl_subscriptions ls), u_values = capacity_get (sl_values ls),
      u_bytes = capacity_get (sl_bytes ls), u_workers = - 1\<rparr>"

definition budget_runtime :: "'w::len word RtdLimits \<Rightarrow> 'w word ChannelBudget" where
  "budget_runtime ls = budget_new
     \<lparr>u_subscriptions = - 1, u_values = capacity_get (max_buffered_values ls),
      u_bytes = capacity_get (max_buffered_bytes ls), u_workers = capacity_get (max_workers ls)\<rparr>"

definition configure_source :: "'w::len word RtdSourceLimits \<Rightarrow> 'w word ChannelBudget \<Rightarrow> 'w word ChannelBudget" where
  "configure_source ls s = s\<lparr>b_limit := (b_limit s)
     \<lparr>u_subscriptions := capacity_get (sl_subscriptions ls), u_values := capacity_get (sl_values ls),
      u_bytes := capacity_get (sl_bytes ls)\<rparr>\<rparr>"

definition configure_worker_limit :: "'w::len word \<Rightarrow> 'w word ChannelBudget \<Rightarrow> 'w word ChannelBudget" where
  "configure_worker_limit l s = s\<lparr>b_limit := (b_limit s)\<lparr>u_workers := l\<rparr>\<rparr>"

definition charge_add :: "'w::len word \<Rightarrow> 'w word \<Rightarrow> 'w word \<Rightarrow> 'w word option" where
  "charge_add u amount l =
     (if amount = 0 then Some u
      else (case checked_add u amount of None \<Rightarrow> None | Some n \<Rightarrow> if n \<le> l then Some n else None))"

definition budget_acquire :: "'w::len word Usage \<Rightarrow> 'w word ChannelBudget \<Rightarrow> bool \<times> 'w word ChannelBudget" where
  "budget_acquire a s =
     (case charge_add (u_subscriptions (b_used s)) (u_subscriptions a) (u_subscriptions (b_limit s)) of
        None \<Rightarrow> (False, s)
      | Some subscriptions \<Rightarrow>
     (case charge_add (u_values (b_used s)) (u_values a) (u_values (b_limit s)) of
        None \<Rightarrow> (False, s)
      | Some vals \<Rightarrow>
     (case charge_add (u_bytes (b_used s)) (u_bytes a) (u_bytes (b_limit s)) of
        None \<Rightarrow> (False, s)
      | Some bytes \<Rightarrow>
     (case charge_add (u_workers (b_used s)) (u_workers a) (u_workers (b_limit s)) of
        None \<Rightarrow> (False, s)
      | Some workers \<Rightarrow>
        (True, s\<lparr>b_used := \<lparr>u_subscriptions = subscriptions, u_values = vals, u_bytes = bytes,
                            u_workers = workers\<rparr>\<rparr>)))))"

definition acquire_buffered :: "'w::len word \<Rightarrow> 'w word \<Rightarrow> 'w word ChannelBudget \<Rightarrow> bool \<times> 'w word ChannelBudget" where
  "acquire_buffered v b s =
     (case checked_add (u_values (b_used s)) v of
        None \<Rightarrow> (False, s)
      | Some next_values \<Rightarrow>
     (case checked_add (u_bytes (b_used s)) b of
        None \<Rightarrow> (False, s)
      | Some next_bytes \<Rightarrow>
        if (v \<noteq> 0 \<and> next_values > u_values (b_limit s)) \<or> (b \<noteq> 0 \<and> next_bytes > u_bytes (b_limit s))
        then (False, s)
        else (True, s\<lparr>b_used := (b_used s)\<lparr>u_values := next_values, u_bytes := next_bytes\<rparr>\<rparr>)))"

text \<open>
  The releases subtract with \<open>-=\<close>: an underflow panics in a build with overflow checks and
  wraps in one without. The model aborts; that no run reaches it is one of the theorems,
  so the two builds agree.
\<close>

definition release_buffered :: "'w::len word \<Rightarrow> 'w word \<Rightarrow> 'w word ChannelBudget \<Rightarrow> 'w word ChannelBudget run" where
  "release_buffered v b s =
     bind_run (unwrap_or_abort (checked_sub (u_values (b_used s)) v)) (\<lambda>nv.
     bind_run (unwrap_or_abort (checked_sub (u_bytes (b_used s)) b)) (\<lambda>nb.
     Returns (s\<lparr>b_used := (b_used s)\<lparr>u_values := nv, u_bytes := nb\<rparr>\<rparr>)))"

definition budget_release :: "'w::len word Usage \<Rightarrow> 'w word ChannelBudget \<Rightarrow> 'w word ChannelBudget run" where
  "budget_release a s =
     bind_run (unwrap_or_abort (checked_sub (u_subscriptions (b_used s)) (u_subscriptions a))) (\<lambda>ns.
     bind_run (unwrap_or_abort (checked_sub (u_values (b_used s)) (u_values a))) (\<lambda>nv.
     bind_run (unwrap_or_abort (checked_sub (u_bytes (b_used s)) (u_bytes a))) (\<lambda>nb.
     bind_run (unwrap_or_abort (checked_sub (u_workers (b_used s)) (u_workers a))) (\<lambda>nw.
     Returns (s\<lparr>b_used := \<lparr>u_subscriptions = ns, u_values = nv, u_bytes = nb, u_workers = nw\<rparr>\<rparr>)))))"

definition one_subscription :: "'w::len word Usage" where
  "one_subscription = usage_default\<lparr>u_subscriptions := 1\<rparr>"

definition one_worker :: "'w::len word Usage" where
  "one_worker = usage_default\<lparr>u_workers := 1\<rparr>"

definition try_subscription :: "'w::len word ChannelBudget \<Rightarrow> unit XllResult \<times> 'w word ChannelBudget" where
  "try_subscription s =
     (let (ok, s') = budget_acquire one_subscription s in (if ok then Inr () else Inl Overloaded, s'))"

definition try_worker :: "'w::len word ChannelBudget \<Rightarrow> unit XllResult \<times> 'w word ChannelBudget" where
  "try_worker s =
     (let (ok, s') = budget_acquire one_worker s in (if ok then Inr () else Inl Overloaded, s'))"

definition subscription_permit_drop :: "'w::len word ChannelBudget \<Rightarrow> 'w word ChannelBudget run" where
  "subscription_permit_drop s = budget_release one_subscription s"

definition worker_permit_drop :: "'w::len word ChannelBudget \<Rightarrow> 'w word ChannelBudget run" where
  "worker_permit_drop s = budget_release one_worker s"

section \<open>Two budgets and a ledger\<close>

record 'u BudgetPair =
  bp_source :: "'u ChannelBudget"
  bp_runtime :: "'u ChannelBudget"

text \<open>
  A batch is charged to the source and then to the runtime, and returned to the source when the
  runtime refuses. The two budgets have a lock each; here the pair is one operation, so the
  states between the two locks, in which the source alone is charged, are not seen. What other
  channels may do in between is a step of the channel system below.
\<close>

definition pair_acquire :: "'w::len word \<Rightarrow> 'w word \<Rightarrow> 'w word BudgetPair \<Rightarrow> (bool \<times> 'w word BudgetPair) run" where
  "pair_acquire v b p =
     (case acquire_buffered v b (bp_source p) of
        (False, src) \<Rightarrow> Returns (False, p\<lparr>bp_source := src\<rparr>)
      | (True, src) \<Rightarrow>
     (case acquire_buffered v b (bp_runtime p) of
        (False, rt) \<Rightarrow> bind_run (release_buffered v b src) (\<lambda>src'.
                        Returns (False, p\<lparr>bp_source := src', bp_runtime := rt\<rparr>))
      | (True, rt) \<Rightarrow> Returns (True, p\<lparr>bp_source := src, bp_runtime := rt\<rparr>)))"

definition pair_release :: "'w::len word \<Rightarrow> 'w word \<Rightarrow> 'w word BudgetPair \<Rightarrow> 'w word BudgetPair run" where
  "pair_release v b p =
     bind_run (release_buffered v b (bp_source p)) (\<lambda>src.
     bind_run (release_buffered v b (bp_runtime p)) (\<lambda>rt.
     Returns (p\<lparr>bp_source := src, bp_runtime := rt\<rparr>)))"

record 'u BufferLedger =
  l_values :: 'u
  l_bytes :: 'u

text \<open>A permit is its two charges; \<open>permit_drop\<close> returns them to both budgets.\<close>

type_synonym 'u BufferPermit = "'u \<times> 'u"

text \<open>A batch of no values reserves nothing; its byte count is zero (a debug assertion).\<close>

definition try_push_batch ::
    "'w::len word \<Rightarrow> 'w word \<Rightarrow> 'w word BufferLedger \<times> 'w word BudgetPair
      \<Rightarrow> (bool \<times> 'w word BufferLedger \<times> 'w word BudgetPair) run" where
  "try_push_batch v b = (\<lambda>(l, p).
     if v = 0 then Returns (True, l, p)
     else (case checked_add (l_values l) v of
        None \<Rightarrow> Returns (False, l, p)
      | Some next_values \<Rightarrow>
     (case checked_add (l_bytes l) b of
        None \<Rightarrow> Returns (False, l, p)
      | Some next_bytes \<Rightarrow>
        bind_run (pair_acquire v b p) (\<lambda>(ok, p').
          Returns (if ok then (True, \<lparr>l_values = next_values, l_bytes = next_bytes\<rparr>, p')
                   else (False, l, p'))))))"

definition try_push ::
    "'w::len word \<Rightarrow> 'w word BufferLedger \<times> 'w word BudgetPair
      \<Rightarrow> (bool \<times> 'w word BufferLedger \<times> 'w word BudgetPair) run" where
  "try_push b = try_push_batch 1 b"

definition ledger_split ::
    "'w::len word \<Rightarrow> 'w word \<Rightarrow> 'w word BufferLedger \<Rightarrow> ('w word BufferPermit option \<times> 'w word BufferLedger) run" where
  "ledger_split v b l =
     (if v = 0 then Returns (None, l)
      else if v \<le> l_values l \<and> b \<le> l_bytes l
      then Returns (Some (v, b), \<lparr>l_values = l_values l - v, l_bytes = l_bytes l - b\<rparr>)
      else Aborts)"

definition take_all :: "'w::len word BufferLedger \<Rightarrow> ('w word BufferPermit option \<times> 'w word BufferLedger) run" where
  "take_all l = ledger_split (l_values l) (l_bytes l) l"

definition resize_charge :: "'w::len word BudgetPair \<Rightarrow> 'w word \<Rightarrow> 'w word \<Rightarrow> (bool \<times> 'w word BudgetPair) run" where
  "resize_charge p current requested =
     (if requested > current then pair_acquire 0 (requested - current) p
      else if requested < current
      then bind_run (pair_release 0 (current - requested) p) (\<lambda>p'. Returns (True, p'))
      else Returns (True, p))"

definition ledger_resize ::
    "'w::len word \<Rightarrow> 'w word BufferLedger \<times> 'w word BudgetPair
      \<Rightarrow> (bool \<times> 'w word BufferLedger \<times> 'w word BudgetPair) run" where
  "ledger_resize b = (\<lambda>(l, p).
     bind_run (resize_charge p (l_bytes l) b) (\<lambda>(ok, p').
       Returns (if ok then (True, l\<lparr>l_bytes := b\<rparr>, p') else (False, l, p'))))"

definition permit_drop :: "'w::len word BufferPermit \<Rightarrow> 'w word BudgetPair \<Rightarrow> 'w word BudgetPair run" where
  "permit_drop = (\<lambda>(v, b) p. if v \<noteq> 0 \<or> b \<noteq> 0 then pair_release v b p else Returns p)"


section \<open>Exact accounting of one budget\<close>

datatype resource = RSubscriptions | RValues | RBytes | RWorkers

fun usage_of :: "'w::len word Usage \<Rightarrow> resource \<Rightarrow> nat" where
  "usage_of u RSubscriptions = unat (u_subscriptions u)"
| "usage_of u RValues = unat (u_values u)"
| "usage_of u RBytes = unat (u_bytes u)"
| "usage_of u RWorkers = unat (u_workers u)"

lemma all_resource:
  "(\<forall>k. P k) \<longleftrightarrow> P RSubscriptions \<and> P RValues \<and> P RBytes \<and> P RWorkers"
  by (metis resource.exhaust)

lemma charge_add_Some_iff [checked_simps]:
  "charge_add u a l = Some (n :: 'w::len word) \<longleftrightarrow>
     unat n = unat u + unat a \<and> (a \<noteq> 0 \<longrightarrow> unat n \<le> unat l)"
proof (cases "a = 0")
  case True
  then show ?thesis by (auto simp: charge_add_def word_unat_eq_iff)
next
  case False
  then have "charge_add u a l = Some n \<longleftrightarrow> checked_add u a = Some n \<and> n \<le> l"
    by (auto simp: charge_add_def split: option.splits)
  then show ?thesis using False by (simp add: checked_simps word_le_nat_alt)
qed

text \<open>
  The permits of one budget: a whole usage (a subscription, a worker) or the values and
  bytes of a batch. Granting one and taking it back are the two operations of a pool.
\<close>

datatype 'u charge = Whole "'u Usage" | Buffered 'u 'u

fun charge_cost :: "'w::len word charge \<Rightarrow> resource \<Rightarrow> nat" where
  "charge_cost (Whole a) k = usage_of a k"
| "charge_cost (Buffered v b) RValues = unat v"
| "charge_cost (Buffered v b) RBytes = unat b"
| "charge_cost (Buffered v b) k = 0"

fun budget_acquire_charge :: "'w::len word charge \<Rightarrow> 'w word ChannelBudget \<Rightarrow> bool \<times> 'w word ChannelBudget" where
  "budget_acquire_charge (Whole a) s = budget_acquire a s"
| "budget_acquire_charge (Buffered v b) s = acquire_buffered v b s"

definition budget_take :: "'w::len word charge \<Rightarrow> 'w word ChannelBudget \<Rightarrow> 'w word ChannelBudget option" where
  "budget_take c s = (let (ok, t) = budget_acquire_charge c s in if ok then Some t else None)"

fun budget_give :: "'w::len word charge \<Rightarrow> 'w word ChannelBudget \<Rightarrow> 'w word ChannelBudget run" where
  "budget_give (Whole a) s = budget_release a s"
| "budget_give (Buffered v b) s = release_buffered v b s"

lemma budget_acquire_True:
  assumes "budget_acquire a s = (True, t)"
  shows "b_limit t = b_limit s" "usage_of (b_used t) k = usage_of (b_used s) k + usage_of a k"
    "usage_of a k \<noteq> 0 \<Longrightarrow> usage_of (b_used t) k \<le> usage_of (b_limit s) k"
  using assms
  by (cases k; auto simp: budget_acquire_def checked_simps split: option.splits)+

lemma acquire_buffered_True:
  assumes "acquire_buffered v b s = (True, t)"
  shows "b_limit t = b_limit s" "usage_of (b_used t) k = usage_of (b_used s) k + charge_cost (Buffered v b) k"
    "charge_cost (Buffered v b) k \<noteq> 0 \<Longrightarrow> usage_of (b_used t) k \<le> usage_of (b_limit s) k"
  using assms
  by (cases k; auto simp: acquire_buffered_def checked_simps word_le_nat_alt word_less_nat_alt not_less
      split: option.splits if_splits)+

lemma budget_acquire_False: "budget_acquire a s = (False, t) \<Longrightarrow> t = s"
  by (auto simp: budget_acquire_def split: option.splits)

lemma acquire_buffered_False: "acquire_buffered v b s = (False, t) \<Longrightarrow> t = s"
  by (auto simp: acquire_buffered_def split: option.splits if_splits)

lemma budget_take_Some:
  assumes "budget_take c s = Some t"
  shows "b_limit t = b_limit s" "usage_of (b_used t) k = usage_of (b_used s) k + charge_cost c k"
    "charge_cost c k \<noteq> 0 \<Longrightarrow> usage_of (b_used t) k \<le> usage_of (b_limit s) k"
  using assms budget_acquire_True [of _ s t] acquire_buffered_True [of _ _ s t]
  by (cases c; auto simp: budget_take_def split: prod.splits if_splits)+

lemma release_buffered_eq:
  assumes "unat v \<le> unat (u_values (b_used s))" "unat b \<le> unat (u_bytes (b_used s))"
  shows "release_buffered v b s = Returns (s\<lparr>b_used := (b_used s)
    \<lparr>u_values := u_values (b_used s) - v, u_bytes := u_bytes (b_used s) - b\<rparr>\<rparr>)"
  using assms by (simp add: release_buffered_def checked_sub_def word_le_nat_alt)

lemma budget_give_Returns:
  assumes "\<And>k. charge_cost c k \<le> usage_of (b_used s) k"
  shows "\<exists>t. budget_give c s = Returns t \<and> b_limit t = b_limit s \<and>
    (\<forall>k. usage_of (b_used t) k = usage_of (b_used s) k - charge_cost c k)"
proof (cases c)
  case (Whole a)
  have le: "u_subscriptions a \<le> u_subscriptions (b_used s)" "u_values a \<le> u_values (b_used s)"
    "u_bytes a \<le> u_bytes (b_used s)" "u_workers a \<le> u_workers (b_used s)"
    using assms [of RSubscriptions] assms [of RValues] assms [of RBytes] assms [of RWorkers] Whole
    by (simp_all add: word_le_nat_alt)
  have "\<exists>t. budget_release a s = Returns t \<and> b_limit t = b_limit s \<and>
      (\<forall>k. usage_of (b_used t) k = usage_of (b_used s) k - usage_of a k)"
    using le by (auto simp: budget_release_def checked_sub_def unat_sub all_resource)
  then show ?thesis using Whole by simp
next
  case (Buffered v b)
  have le: "unat v \<le> unat (u_values (b_used s))" "unat b \<le> unat (u_bytes (b_used s))"
    using assms [of RValues] assms [of RBytes] Buffered by simp_all
  then show ?thesis
    using Buffered by (auto simp: release_buffered_eq unat_sub word_le_nat_alt all_resource)
qed

interpretation budget: accounted_pool budget_take budget_give
  "\<lambda>(s :: 'w::len word ChannelBudget). usage_of (b_used s)" charge_cost
  by unfold_locales (use budget_take_Some(2) budget_give_Returns in blast)+

lemma budget_limit_kept:
  assumes "(pool_step budget_take budget_give)\<^sup>*\<^sup>* x (y :: 'w::len word ChannelBudget \<times> 'w word charge list)"
    and "snd x = []" "\<And>k. usage_of (b_used (fst x)) k = 0"
  shows "b_limit (fst y) = b_limit (fst x) \<and>
    (\<forall>k. usage_of (b_used (fst y)) k \<le> usage_of (b_limit (fst x)) k)"
  using assms(1)
proof (induction rule: rtranclp_induct)
  case base
  show ?case using assms(3) by simp
next
  case (step y z)
  from step(2) show ?case
  proof cases
    case (pool_take c s t ps)
    then have "usage_of (b_used t) k \<le> usage_of (b_limit (fst x)) k" for k
      using step.IH budget_take_Some(2,3) [of c s t k] by (cases "charge_cost c k = 0") auto
    then show ?thesis using pool_take step.IH budget_take_Some(1) [of c s t] by simp
  next
    case (pool_give c ps s t)
    have s: "(pool_step budget_take budget_give)\<^sup>*\<^sup>* (fst x, []) (s, ps)"
      using step.hyps(1) assms(2) pool_give by (metis prod.collapse)
    have "charge_cost c k \<le> usage_of (b_used s) k" for k
      using budget.accounting [OF s assms(3)] pool_give by (simp add: member_le_sum_list)
    from budget_give_Returns [OF this] have "b_limit t = b_limit s"
      "usage_of (b_used t) k = usage_of (b_used s) k - charge_cost c k" for k
      using pool_give by auto
    then show ?thesis using pool_give step.IH by (auto intro: le_trans diff_le_self)
  qed
qed

section \<open>Two budgets at once\<close>

text \<open>Releasing what was just acquired restores the budget exactly.\<close>

lemma acquire_release_buffered:
  assumes "acquire_buffered v b s = (True, t)"
  shows "release_buffered v b t = Returns (s :: 'w::len word ChannelBudget)"
proof -
  obtain nv nb where n: "unat nv = unat (u_values (b_used s)) + unat v"
      "unat nb = unat (u_bytes (b_used s)) + unat b"
      "t = s\<lparr>b_used := (b_used s)\<lparr>u_values := nv, u_bytes := nb\<rparr>\<rparr>"
    using assms by (auto simp: acquire_buffered_def checked_simps split: option.splits if_splits)
  then have "nv - v = u_values (b_used s)" "nb - b = u_bytes (b_used s)"
    by (simp_all add: word_unat_eq_iff unat_sub word_le_nat_alt)
  then show ?thesis using n by (simp add: release_buffered_eq)
qed

lemma pair_acquire_cases:
  "pair_acquire v b (p :: 'w::len word BudgetPair) =
    (if fst (acquire_buffered v b (bp_source p)) \<and> fst (acquire_buffered v b (bp_runtime p))
     then Returns (True, \<lparr>bp_source = snd (acquire_buffered v b (bp_source p)),
                          bp_runtime = snd (acquire_buffered v b (bp_runtime p))\<rparr>)
     else Returns (False, p))"
  using acquire_release_buffered [of v b "bp_source p"] acquire_buffered_False [of v b]
  by (auto simp: pair_acquire_def split: prod.splits bool.splits)

text \<open>What a channel sees of a budget: the values and the bytes charged to it.\<close>

definition buffered :: "'w::len word ChannelBudget \<Rightarrow> nat \<times> nat" where
  "buffered s = (usage_of (b_used s) RValues, usage_of (b_used s) RBytes)"

definition add2 :: "nat \<times> nat \<Rightarrow> nat \<times> nat \<Rightarrow> nat \<times> nat" where
  "add2 x y = (fst x + fst y, snd x + snd y)"

definition unat2 :: "'w::len word \<times> 'w word \<Rightarrow> nat \<times> nat" where
  "unat2 q = (unat (fst q), unat (snd q))"

lemma acquire_buffered_charge:
  "fst (acquire_buffered v b s) \<Longrightarrow>
     buffered (snd (acquire_buffered v b s)) = add2 (buffered s) (unat v, unat b)"
  using acquire_buffered_True(2) [of v b s "snd (acquire_buffered v b s)" RValues]
    acquire_buffered_True(2) [of v b s "snd (acquire_buffered v b s)" RBytes]
  by (cases "acquire_buffered v b s") (simp add: buffered_def add2_def)

lemma release_buffered_charge:
  assumes "unat v \<le> fst (buffered s)" "unat b \<le> snd (buffered s)"
  shows "\<exists>t. release_buffered v b s = Returns t \<and>
    buffered t = (fst (buffered s) - unat v, snd (buffered s) - unat b)"
  using assms by (simp add: buffered_def release_buffered_eq unat_sub word_le_nat_alt)

lemma pair_acquire_charge:
  assumes "pair_acquire v b p = Returns (ok, q)"
  shows "ok \<Longrightarrow> buffered (bp_source q) = add2 (buffered (bp_source p)) (unat v, unat b)"
    "ok \<Longrightarrow> buffered (bp_runtime q) = add2 (buffered (bp_runtime p)) (unat v, unat b)"
    "\<not> ok \<Longrightarrow> q = p"
  using assms acquire_buffered_charge [of v b]
  by (auto simp: pair_acquire_cases split: if_splits prod.splits)

lemma pair_acquire_returns: "\<exists>ok q. pair_acquire v b p = Returns (ok, q)"
  by (auto simp: pair_acquire_cases)

lemma pair_release_charge:
  assumes "unat v \<le> fst (buffered (bp_source p))" "unat b \<le> snd (buffered (bp_source p))"
    "unat v \<le> fst (buffered (bp_runtime p))" "unat b \<le> snd (buffered (bp_runtime p))"
  shows "\<exists>q. pair_release v b p = Returns q \<and>
    buffered (bp_source q) = (fst (buffered (bp_source p)) - unat v, snd (buffered (bp_source p)) - unat b) \<and>
    buffered (bp_runtime q) = (fst (buffered (bp_runtime p)) - unat v, snd (buffered (bp_runtime p)) - unat b)"
  using release_buffered_charge [OF assms(1,2)] release_buffered_charge [OF assms(3,4)]
  by (auto simp: pair_release_def)

section \<open>A channel's ledger and its permits\<close>

text \<open>
  The accounts of one channel: its ledger, the permits of its in-flight batches and the two
  budgets. The other channels charge the same budgets in between; \<open>other_source\<close> and
  \<open>other_runtime\<close> record what they hold (they exist for the proof only).
\<close>

record 'u accounts =
  acc_ledger :: "'u BufferLedger"
  acc_permits :: "'u BufferPermit list"
  acc_pair :: "'u BudgetPair"
  other_source :: "nat \<times> nat"
  other_runtime :: "nat \<times> nat"

inductive accounts_step :: "'w::len word accounts \<Rightarrow> 'w word accounts \<Rightarrow> bool" where
  push:
    "try_push_batch v b (acc_ledger s, acc_pair s) = Returns (ok, l, p) \<Longrightarrow>
     accounts_step s (s\<lparr>acc_ledger := l, acc_pair := p\<rparr>)"
| split:
    "ledger_split v b (acc_ledger s) = Returns (q, l) \<Longrightarrow>
     accounts_step s (s\<lparr>acc_ledger := l,
       acc_permits := (case q of None \<Rightarrow> acc_permits s | Some x \<Rightarrow> x # acc_permits s)\<rparr>)"
| resize:
    "ledger_resize b (acc_ledger s, acc_pair s) = Returns (ok, l, p) \<Longrightarrow>
     accounts_step s (s\<lparr>acc_ledger := l, acc_pair := p\<rparr>)"
| drop_permit:
    "q \<in> set (acc_permits s) \<Longrightarrow> permit_drop q (acc_pair s) = Returns p \<Longrightarrow>
     accounts_step s (s\<lparr>acc_permits := remove1 q (acc_permits s), acc_pair := p\<rparr>)"
| other_source_acquire:
    "acquire_buffered v b (bp_source (acc_pair s)) = (True, t) \<Longrightarrow>
     accounts_step s (s\<lparr>acc_pair := (acc_pair s)\<lparr>bp_source := t\<rparr>,
       other_source := add2 (other_source s) (unat v, unat b)\<rparr>)"
| other_source_release:
    "unat v \<le> fst (other_source s) \<Longrightarrow> unat b \<le> snd (other_source s) \<Longrightarrow>
     release_buffered v b (bp_source (acc_pair s)) = Returns t \<Longrightarrow>
     accounts_step s (s\<lparr>acc_pair := (acc_pair s)\<lparr>bp_source := t\<rparr>,
       other_source := (fst (other_source s) - unat v, snd (other_source s) - unat b)\<rparr>)"
| other_runtime_acquire:
    "acquire_buffered v b (bp_runtime (acc_pair s)) = (True, t) \<Longrightarrow>
     accounts_step s (s\<lparr>acc_pair := (acc_pair s)\<lparr>bp_runtime := t\<rparr>,
       other_runtime := add2 (other_runtime s) (unat v, unat b)\<rparr>)"
| other_runtime_release:
    "unat v \<le> fst (other_runtime s) \<Longrightarrow> unat b \<le> snd (other_runtime s) \<Longrightarrow>
     release_buffered v b (bp_runtime (acc_pair s)) = Returns t \<Longrightarrow>
     accounts_step s (s\<lparr>acc_pair := (acc_pair s)\<lparr>bp_runtime := t\<rparr>,
       other_runtime := (fst (other_runtime s) - unat v, snd (other_runtime s) - unat b)\<rparr>)"

text \<open>What the channel holds: the ledger's queue and the permits.\<close>

definition held :: "'w::len word accounts \<Rightarrow> nat \<times> nat" where
  "held s = (unat (l_values (acc_ledger s)) + sum_list (map (\<lambda>q. unat (fst q)) (acc_permits s)),
             unat (l_bytes (acc_ledger s)) + sum_list (map (\<lambda>q. unat (snd q)) (acc_permits s)))"

definition accounts_inv :: "'w::len word accounts \<Rightarrow> bool" where
  "accounts_inv s \<longleftrightarrow>
     buffered (bp_source (acc_pair s)) = add2 (other_source s) (held s) \<and>
     buffered (bp_runtime (acc_pair s)) = add2 (other_runtime s) (held s)"

definition accounts_init :: "'w::len word accounts \<Rightarrow> bool" where
  "accounts_init s \<longleftrightarrow> acc_ledger s = \<lparr>l_values = 0, l_bytes = 0\<rparr> \<and> acc_permits s = [] \<and>
     buffered (bp_source (acc_pair s)) = other_source s \<and>
     buffered (bp_runtime (acc_pair s)) = other_runtime s"

lemma push_held:
  assumes "try_push_batch v b (l, p) = Returns (ok, l', p')" "accounts_inv (s\<lparr>acc_ledger := l, acc_pair := p\<rparr>)"
  shows "accounts_inv (s\<lparr>acc_ledger := l', acc_pair := p'\<rparr>)"
proof -
  consider "l' = l" "p' = p" | "unat (l_values l') = unat (l_values l) + unat v"
      "unat (l_bytes l') = unat (l_bytes l) + unat b" "pair_acquire v b p = Returns (True, p')"
    using assms(1) pair_acquire_charge(3) [of v b p False]
    by (auto simp: try_push_batch_def checked_simps split: if_splits option.splits prod.splits)
  then show ?thesis
  proof cases
    case 2
    then show ?thesis
      using assms(2) pair_acquire_charge(1,2) [OF 2(3)] by (auto simp: accounts_inv_def held_def add2_def)
  qed (use assms(2) in simp)
qed

lemma resize_held:
  assumes "accounts_inv s"
  shows "\<exists>ok l p. ledger_resize b (acc_ledger s, acc_pair s) = Returns (ok, l, p) \<and>
    accounts_inv (s\<lparr>acc_ledger := l, acc_pair := p\<rparr>)"
proof -
  let ?l = "acc_ledger s" and ?p = "acc_pair s"
  consider (grow) "b > l_bytes ?l" | (shrink) "b < l_bytes ?l" | (same) "b = l_bytes ?l"
    by (metis linorder_less_linear)
  then show ?thesis
  proof cases
    case grow
    obtain ok p where acq: "pair_acquire 0 (b - l_bytes ?l) ?p = Returns (ok, p)"
      using pair_acquire_returns by blast
    have d: "unat (b - l_bytes ?l) = unat b - unat (l_bytes ?l)"
      using grow by (simp add: unat_sub)
    show ?thesis
    proof (cases ok)
      case True
      then show ?thesis
        using assms acq grow d pair_acquire_charge(1,2) [OF acq]
        by (auto simp: ledger_resize_def resize_charge_def accounts_inv_def held_def add2_def word_less_nat_alt)
    next
      case False
      then show ?thesis
        using assms acq grow pair_acquire_charge(3) [OF acq]
        by (auto simp: ledger_resize_def resize_charge_def)
    qed
  next
    case shrink
    have d: "unat (l_bytes ?l - b) = unat (l_bytes ?l) - unat b"
      using shrink by (simp add: unat_sub)
    have "unat (l_bytes ?l - b) \<le> snd (buffered (bp_source ?p))"
      "unat (l_bytes ?l - b) \<le> snd (buffered (bp_runtime ?p))"
      using assms d by (simp_all add: accounts_inv_def held_def add2_def)
    then obtain p where p: "pair_release 0 (l_bytes ?l - b) ?p = Returns p"
        "buffered (bp_source p) = (fst (buffered (bp_source ?p)), snd (buffered (bp_source ?p)) - unat (l_bytes ?l - b))"
        "buffered (bp_runtime p) = (fst (buffered (bp_runtime ?p)), snd (buffered (bp_runtime ?p)) - unat (l_bytes ?l - b))"
      using pair_release_charge [of 0 ?p "l_bytes ?l - b"] by auto
    then show ?thesis
      using assms d shrink
      by (auto simp: ledger_resize_def resize_charge_def accounts_inv_def held_def add2_def word_less_nat_alt)
  qed (use assms in \<open>auto simp: ledger_resize_def resize_charge_def\<close>)
qed

lemma split_held:
  assumes "ledger_split v b (acc_ledger s) = Returns (q, l)" "accounts_inv s"
  shows "accounts_inv (s\<lparr>acc_ledger := l,
    acc_permits := (case q of None \<Rightarrow> acc_permits s | Some x \<Rightarrow> x # acc_permits s)\<rparr>)"
  using assms
  by (auto simp: ledger_split_def accounts_inv_def held_def add2_def unat_sub word_le_nat_alt
      split: if_splits)

lemma drop_held:
  assumes "accounts_inv s" "q \<in> set (acc_permits s)"
  shows "\<exists>p. permit_drop q (acc_pair s) = Returns p \<and>
    accounts_inv (s\<lparr>acc_permits := remove1 q (acc_permits s), acc_pair := p\<rparr>)"
proof -
  obtain v b where q: "q = (v, b)" by (cases q)
  have "unat v \<le> sum_list (map (\<lambda>q. unat (fst q)) (acc_permits s))"
    "unat b \<le> sum_list (map (\<lambda>q. unat (snd q)) (acc_permits s))"
    using assms(2) q by (force intro: member_le_sum_list)+
  note le = this
  then obtain p where "pair_release v b (acc_pair s) = Returns p"
      "buffered (bp_source p) = (fst (buffered (bp_source (acc_pair s))) - unat v,
         snd (buffered (bp_source (acc_pair s))) - unat b)"
      "buffered (bp_runtime p) = (fst (buffered (bp_runtime (acc_pair s))) - unat v,
         snd (buffered (bp_runtime (acc_pair s))) - unat b)"
    using assms(1) pair_release_charge [of v "acc_pair s" b]
    by (auto simp: accounts_inv_def held_def add2_def)
  then show ?thesis
    using assms le q
    by (auto simp: permit_drop_def accounts_inv_def held_def add2_def sum_list_map_remove1)
qed

lemma other_acquire_charge:
  assumes "acquire_buffered v b r = (True, t)" "buffered r = add2 x h"
  shows "buffered t = add2 (add2 x (unat v, unat b)) h"
  using acquire_buffered_charge [of v b r] assms by (simp add: add2_def)

lemma other_release_charge:
  assumes "unat v \<le> fst x" "unat b \<le> snd x" "release_buffered v b r = Returns t" "buffered r = add2 x h"
  shows "buffered t = add2 (fst x - unat v, snd x - unat b) h"
  using release_buffered_charge [of v r b] assms by (auto simp: add2_def)

lemma accounts_inv_step:
  assumes inv: "accounts_inv s" and st: "accounts_step s (t :: 'w::len word accounts)"
  shows "accounts_inv t"
  using st
proof cases
  case (push v b ok l p)
  then show ?thesis using push_held [OF push(2), of s] inv by simp
next
  case (split v b q l)
  then show ?thesis using split_held inv by simp
next
  case (resize b ok l p)
  then show ?thesis using resize_held [OF inv, of b] by auto
next
  case (drop_permit q p)
  then show ?thesis using drop_held [OF inv drop_permit(2)] by auto
next
  case (other_source_acquire v b t)
  then show ?thesis
    using inv other_acquire_charge [OF other_source_acquire(2)] by (simp add: accounts_inv_def held_def)
next
  case (other_source_release v b t)
  then show ?thesis
    using inv other_release_charge [OF other_source_release(2-4)] by (simp add: accounts_inv_def held_def)
next
  case (other_runtime_acquire v b t)
  then show ?thesis
    using inv other_acquire_charge [OF other_runtime_acquire(2)] by (simp add: accounts_inv_def held_def)
next
  case (other_runtime_release v b t)
  then show ?thesis
    using inv other_release_charge [OF other_runtime_release(2-4)] by (simp add: accounts_inv_def held_def)
qed

interpretation channel_accounts: transition_system accounts_init accounts_step
  "accounts_inv :: 'w::len word accounts \<Rightarrow> bool"
proof unfold_locales
  show "accounts_init s \<Longrightarrow> accounts_inv s" for s :: "'w word accounts"
    by (auto simp: accounts_init_def accounts_inv_def held_def add2_def)
qed (rule accounts_inv_step)

section \<open>What the budgets promise\<close>

text \<open>
  C18: a budget is exact and within its limits. After any interleaving of acquisitions and
  releases on a new budget (subscriptions, workers and buffered batches together), the
  use of each resource is the sum over the permits outstanding and at most the limit, and
  returning any of them succeeds without underflow.
\<close>

theorem budget_exact:
  assumes "(pool_step budget_take budget_give)\<^sup>*\<^sup>* (budget_new l, []) (s, cs)"
  shows "usage_of (b_used s) k = sum_list (map (\<lambda>c. charge_cost c k) cs) \<and>
    usage_of (b_used s) k \<le> usage_of (l :: 'w::len word Usage) k \<and>
    (\<forall>c \<in> set cs. \<exists>t. budget_give c s = Returns t)"
proof -
  have z: "usage_of (b_used (budget_new l)) k = 0" for k
    by (cases k) (simp_all add: budget_new_def usage_default_def)
  show ?thesis
    using budget.accounting [OF assms z] budget.give_returns [OF assms z] budget_limit_kept [OF assms]
    by (auto simp: z) (simp add: budget_new_def)
qed

text \<open>
  Reserving against both budgets is all-or-nothing. \<open>BudgetPair::acquire\<close> succeeds exactly
  when each budget alone would admit the batch, and then both are charged; otherwise it
  returns false with both budgets exactly as they were, the source's reservation rolled
  back without underflow.
\<close>

lemma pair_acquire_all_or_nothing:
  "pair_acquire v b (p :: 'w::len word BudgetPair) =
    (case (acquire_buffered v b (bp_source p), acquire_buffered v b (bp_runtime p)) of
       ((True, src), (True, rt)) \<Rightarrow> Returns (True, \<lparr>bp_source = src, bp_runtime = rt\<rparr>)
     | _ \<Rightarrow> Returns (False, p))"
  by (auto simp: pair_acquire_cases split: prod.splits bool.splits)

text \<open>
  C20: a channel's charge is exact. In every state a channel reaches by pushing batches,
  splitting in-flight permits off its queue, resizing its latest value and dropping
  permits, while other channels charge the same budgets in between, both budgets hold
  exactly what the other channels hold plus the ledger plus the permits outstanding; the
  drop of a permit and a resize never underflow, and once the ledger is empty and the
  permits are gone the channel holds nothing.
\<close>

theorem channel_charge_exact:
  assumes "accounts_init s0" "accounts_step\<^sup>*\<^sup>* s0 (s :: 'w::len word accounts)"
  shows "buffered (bp_source (acc_pair s)) = add2 (other_source s) (held s) \<and>
    buffered (bp_runtime (acc_pair s)) = add2 (other_runtime s) (held s) \<and>
    (\<forall>q \<in> set (acc_permits s). permit_drop q (acc_pair s) \<noteq> Aborts) \<and>
    ledger_resize b (acc_ledger s, acc_pair s) \<noteq> Aborts \<and>
    (acc_ledger s = \<lparr>l_values = 0, l_bytes = 0\<rparr> \<and> acc_permits s = [] \<longrightarrow>
       buffered (bp_source (acc_pair s)) = other_source s)"
proof -
  have inv: "accounts_inv s" using channel_accounts.inv_reachable [OF assms] .
  moreover have "\<forall>q \<in> set (acc_permits s). permit_drop q (acc_pair s) \<noteq> Aborts"
    using drop_held [OF inv] by fastforce
  moreover have "ledger_resize b (acc_ledger s, acc_pair s) \<noteq> Aborts"
    using resize_held [OF inv, of b] by auto
  ultimately show ?thesis by (simp add: accounts_inv_def held_def add2_def)
qed

subsection \<open>Witnesses\<close>

theorem budget_exact_witness:
  "usage_of (b_used (\<lparr>b_limit = \<lparr>u_subscriptions = 1, u_values = 4, u_bytes = 10, u_workers = 0\<rparr>,
      b_used = \<lparr>u_subscriptions = 0, u_values = 2, u_bytes = 7, u_workers = 0\<rparr>\<rparr> :: u32 ChannelBudget)) RBytes = 7"
proof -
  let ?l = "\<lparr>u_subscriptions = 1, u_values = 4, u_bytes = 10, u_workers = 0\<rparr> :: u32 Usage"
  have "(pool_step budget_take budget_give)\<^sup>*\<^sup>* (budget_new ?l, [])
      (\<lparr>b_limit = ?l, b_used = \<lparr>u_subscriptions = 0, u_values = 2, u_bytes = 7, u_workers = 0\<rparr>\<rparr>, [Buffered 2 7])"
    by (rule r_into_rtranclp, rule pool_take)
      (simp add: budget_take_def budget_new_def usage_default_def acquire_buffered_def checked_add_def)
  from budget_exact [OF this, of RBytes] show ?thesis by simp
qed

theorem channel_charge_exact_witness:
  "\<exists>s :: u32 accounts. acc_ledger s = \<lparr>l_values = 1, l_bytes = 3\<rparr> \<and>
     buffered (bp_source (acc_pair s)) = add2 (other_source s) (held s) \<and> held s = (1, 3)"
proof -
  let ?l = "\<lparr>u_subscriptions = 1, u_values = 4, u_bytes = 10, u_workers = 0\<rparr> :: u32 Usage"
  let ?b = "budget_new ?l"
  let ?s = "\<lparr>acc_ledger = \<lparr>l_values = 0, l_bytes = 0\<rparr>, acc_permits = [], acc_pair = \<lparr>bp_source = ?b, bp_runtime = ?b\<rparr>,
     other_source = (0, 0), other_runtime = (0, 0)\<rparr> :: u32 accounts"
  let ?c = "\<lparr>b_limit = ?l, b_used = \<lparr>u_subscriptions = 0, u_values = 1, u_bytes = 3, u_workers = 0\<rparr>\<rparr>"
  let ?t = "?s\<lparr>acc_ledger := \<lparr>l_values = 1, l_bytes = 3\<rparr>, acc_pair := \<lparr>bp_source = ?c, bp_runtime = ?c\<rparr>\<rparr>"
  have i: "accounts_init ?s"
    by (simp add: accounts_init_def budget_new_def usage_default_def buffered_def)
  have "accounts_step ?s ?t"
    by (rule push [of 1 3 ?s True])
      (simp add: try_push_batch_def pair_acquire_def budget_new_def usage_default_def acquire_buffered_def
        checked_add_def)
  then have "accounts_step\<^sup>*\<^sup>* ?s ?t" by (rule r_into_rtranclp)
  from channel_charge_exact [OF i this, of 0] show ?thesis
    by (intro exI [of _ ?t]) (simp add: held_def)
qed

end
