(* ===== verification/Unicode.thy ===== *)
theory Unicode
  imports Prelude
begin

text \<open>
  What the sources use of the standard library's text: \<open>char\<close> as a scalar value, \<open>str\<close> as its
  list of characters, the UTF-8 and UTF-16 encodings, byte offsets into a string (an offset
  inside a character panics) and the strict UTF-16 decoder. Characters, bytes and code
  units are numbers; the predicates bound them.
\<close>

section \<open>Characters and encodings\<close>

type_synonym uchar = nat
type_synonym ustr = "nat list"

definition is_scalar :: "nat \<Rightarrow> bool" where
  "is_scalar c \<longleftrightarrow> c < 0xD800 \<or> (0xE000 \<le> c \<and> c < 0x110000)"

definition is_str :: "ustr \<Rightarrow> bool" where
  "is_str s = list_all is_scalar s"

definition is_ascii_char :: "nat \<Rightarrow> bool" where
  "is_ascii_char c \<longleftrightarrow> c < 0x80"

definition len_utf8 :: "nat \<Rightarrow> nat" where
  "len_utf8 c = (if c < 0x80 then 1 else if c < 0x800 then 2 else if c < 0x10000 then 3 else 4)"

definition encode_utf8_char :: "nat \<Rightarrow> nat list" where
  "encode_utf8_char c =
     (if c < 0x80 then [c]
      else if c < 0x800 then [0xC0 + c div 64, 0x80 + c mod 64]
      else if c < 0x10000 then [0xE0 + c div 4096, 0x80 + c div 64 mod 64, 0x80 + c mod 64]
      else [0xF0 + c div 262144, 0x80 + c div 4096 mod 64, 0x80 + c div 64 mod 64, 0x80 + c mod 64])"

definition as_bytes :: "ustr \<Rightarrow> nat list" where
  "as_bytes s = concat (map encode_utf8_char s)"

definition len_utf16 :: "nat \<Rightarrow> nat" where
  "len_utf16 c = (if c < 0x10000 then 1 else 2)"

definition encode_utf16_char :: "nat \<Rightarrow> nat list" where
  "encode_utf16_char c =
     (if c < 0x10000 then [c]
      else [0xD800 + (c - 0x10000) div 1024, 0xDC00 + (c - 0x10000) mod 1024])"

definition encode_utf16 :: "ustr \<Rightarrow> nat list" where
  "encode_utf16 s = concat (map encode_utf16_char s)"

text \<open>\<open>char::decode_utf16\<close>: an unpaired surrogate is reported and decoding goes on after it.\<close>

fun decode_utf16 :: "nat list \<Rightarrow> (nat + nat) list" where
  "decode_utf16 [] = []"
| "decode_utf16 (u # us) =
     (if u < 0xD800 \<or> 0xDFFF < u then Inr u # decode_utf16 us
      else if 0xDC00 \<le> u then Inl u # decode_utf16 us
      else (case us of
          [] \<Rightarrow> [Inl u]
        | v # vs \<Rightarrow>
            if 0xDC00 \<le> v \<and> v \<le> 0xDFFF
            then Inr (0x10000 + (u - 0xD800) * 1024 + (v - 0xDC00)) # decode_utf16 vs
            else Inl u # decode_utf16 us))"

text \<open>\<open>String::from_utf16\<close>: the string, unless a surrogate is unpaired.\<close>

fun sequence_results :: "('e + 'a) list \<Rightarrow> 'a list option" where
  "sequence_results [] = Some []"
| "sequence_results (Inl e # rs) = None"
| "sequence_results (Inr x # rs) = map_option ((#) x) (sequence_results rs)"

definition from_utf16 :: "nat list \<Rightarrow> ustr option" where
  "from_utf16 us = sequence_results (decode_utf16 us)"

text \<open>
  \<open>str::from_utf8\<close>: the lead byte gives the width and the bytes give a candidate, which has to
  be a scalar value with exactly this encoding.
\<close>

definition utf8_width :: "nat \<Rightarrow> nat" where
  "utf8_width b = (if b < 0x80 then 1 else if b < 0xC0 then 0 else if b < 0xE0 then 2
     else if b < 0xF0 then 3 else if b < 0xF8 then 4 else 0)"

fun utf8_scalar :: "nat list \<Rightarrow> nat" where
  "utf8_scalar [a] = a"
| "utf8_scalar [a, b] = (a mod 32) * 64 + b mod 64"
| "utf8_scalar [a, b, c] = (a mod 16) * 4096 + (b mod 64) * 64 + c mod 64"
| "utf8_scalar [a, b, c, d] = (a mod 8) * 262144 + (b mod 64) * 4096 + (c mod 64) * 64 + d mod 64"
| "utf8_scalar _ = 0"

definition utf8_head :: "nat list \<Rightarrow> (nat \<times> nat) option" where
  "utf8_head bs = (let n = utf8_width (hd bs); c = utf8_scalar (take n bs) in
     if n \<noteq> 0 \<and> is_scalar c \<and> encode_utf8_char c = take n bs then Some (c, n) else None)"

function from_utf8 :: "nat list \<Rightarrow> ustr option" where
  "from_utf8 [] = Some []"
| "from_utf8 (b # bs) = (case utf8_head (b # bs) of
       None \<Rightarrow> None
     | Some (c, n) \<Rightarrow> map_option ((#) c) (from_utf8 (drop (n - 1) bs)))"
  by pat_completeness auto

termination by (relation "measure length") auto

section \<open>Offsets into a string\<close>

text \<open>\<open>&s[n..]\<close> and \<open>&s[..n]\<close>; a panic unless the offset is a character boundary of \<open>s\<close>.\<close>

fun str_drop :: "nat \<Rightarrow> ustr \<Rightarrow> ustr run" where
  "str_drop n [] = (if n = 0 then Returns [] else Aborts)"
| "str_drop n (c # s) =
     (if n = 0 then Returns (c # s)
      else if len_utf8 c \<le> n then str_drop (n - len_utf8 c) s else Aborts)"

fun str_take :: "nat \<Rightarrow> ustr \<Rightarrow> ustr run" where
  "str_take n [] = (if n = 0 then Returns [] else Aborts)"
| "str_take n (c # s) =
     (if n = 0 then Returns []
      else if len_utf8 c \<le> n then bind_run (str_take (n - len_utf8 c) s) (\<lambda>t. Returns (c # t))
      else Aborts)"

definition str_len :: "ustr \<Rightarrow> nat" where
  "str_len s = sum_list (map len_utf8 s)"

definition is_ascii_str :: "ustr \<Rightarrow> bool" where
  "is_ascii_str s = list_all is_ascii_char s"

subsection \<open>Properties\<close>

lemma len_utf8_pos [simp]: "0 < len_utf8 c" "len_utf8 c \<noteq> 0"
  by (simp_all add: len_utf8_def)

lemma length_encode_utf8_char [simp]: "length (encode_utf8_char c) = len_utf8 c"
  by (simp add: encode_utf8_char_def len_utf8_def)

lemma length_as_bytes: "length (as_bytes s) = str_len s"
  by (induction s) (simp_all add: as_bytes_def str_len_def)

lemma as_bytes_append: "as_bytes (s @ t) = as_bytes s @ as_bytes t"
  by (simp add: as_bytes_def)

lemma as_bytes_Cons: "as_bytes (c # s) = encode_utf8_char c @ as_bytes s"
  by (simp add: as_bytes_def)

lemma str_len_append [simp]: "str_len (s @ t) = str_len s + str_len t"
  by (simp add: str_len_def)

lemma str_len_Cons [simp]: "str_len (c # s) = len_utf8 c + str_len s"
  by (simp add: str_len_def)

lemma str_len_Nil [simp]: "str_len [] = 0"
  by (simp add: str_len_def)

lemma str_drop_append: "str_drop (str_len s) (s @ t) = Returns t"
proof (induction s)
  case Nil
  show ?case by (cases t) simp_all
qed simp

lemma str_take_append: "str_take (str_len s) (s @ t) = Returns s"
proof (induction s)
  case Nil
  show ?case by (cases t) simp_all
qed simp

lemma length_encode_utf16_char [simp]: "length (encode_utf16_char c) = len_utf16 c"
  by (simp add: encode_utf16_char_def len_utf16_def)

lemma length_encode_utf16: "length (encode_utf16 s) = sum_list (map len_utf16 s)"
  by (induction s) (simp_all add: encode_utf16_def)

lemma encode_utf16_Cons: "encode_utf16 (c # s) = encode_utf16_char c @ encode_utf16 s"
  by (simp add: encode_utf16_def)

lemma encode_utf16_append: "encode_utf16 (s @ t) = encode_utf16 s @ encode_utf16 t"
  by (simp add: encode_utf16_def)

lemma utf16_le_utf8: "length (encode_utf16 s) \<le> str_len s"
  by (induction s) (auto simp: encode_utf16_Cons encode_utf16_def len_utf16_def len_utf8_def)

lemma ascii_lengths:
  "is_ascii_str s \<Longrightarrow> str_len s = length s \<and> as_bytes s = s \<and> encode_utf16 s = s"
  by (induction s) (auto simp: is_ascii_str_def is_ascii_char_def len_utf8_def encode_utf16_def
      encode_utf16_char_def as_bytes_def encode_utf8_char_def)

lemma encode_utf16_ascii_iff:
  "length (encode_utf16 s) = str_len s \<longleftrightarrow> is_ascii_str s"
proof (induction s)
  case (Cons c s)
  have "len_utf16 c \<le> len_utf8 c" "len_utf16 c = len_utf8 c \<longleftrightarrow> is_ascii_char c"
    by (simp_all add: len_utf16_def len_utf8_def is_ascii_char_def)
  then show ?case
    using Cons utf16_le_utf8 [of s] by (auto simp: encode_utf16_Cons is_ascii_str_def)
qed (simp add: encode_utf16_def is_ascii_str_def)

text \<open>Decoding what was encoded returns the string; what decodes was encoded.\<close>

lemma decode_utf16_char:
  assumes "is_scalar c"
  shows "decode_utf16 (encode_utf16_char c @ us) = Inr c # decode_utf16 us"
proof (cases "c < 0x10000")
  case True
  then show ?thesis using assms by (auto simp: encode_utf16_char_def is_scalar_def)
next
  case False
  let ?d = "c - 0x10000"
  have d: "?d < 0x100000" using assms False by (auto simp: is_scalar_def)
  then have "?d div 1024 < 1024" by simp
  then have "decode_utf16 (encode_utf16_char c @ us)
      = Inr (0x10000 + (0xD800 + ?d div 1024 - 0xD800) * 1024 + (0xDC00 + ?d mod 1024 - 0xDC00)) # decode_utf16 us"
    using False mod_less_divisor [of 1024 ?d] by (simp add: encode_utf16_char_def del: mod_less_divisor)
  moreover have "0x10000 + (0xD800 + ?d div 1024 - 0xD800) * 1024 + (0xDC00 + ?d mod 1024 - 0xDC00) = c"
    using False by simp
  ultimately show ?thesis by simp
qed

lemma decode_encode_utf16: "is_str s \<Longrightarrow> decode_utf16 (encode_utf16 s) = map Inr s"
  by (induction s) (simp_all add: encode_utf16_def is_str_def decode_utf16_char)

lemma sequence_map_Inr [simp]: "sequence_results (map Inr xs) = Some xs"
  by (induction xs) auto

lemma sequence_Some_iff: "sequence_results rs = Some xs \<longleftrightarrow> rs = map Inr xs"
  by (induction rs arbitrary: xs rule: sequence_results.induct) auto

lemma from_utf16_encode: "is_str s \<Longrightarrow> from_utf16 (encode_utf16 s) = Some s"
  by (simp add: from_utf16_def decode_encode_utf16)

lemma decode_utf16_encode:
  assumes "\<forall>u \<in> set us. u < 0x10000" "decode_utf16 us = map Inr s"
  shows "is_str s \<and> encode_utf16 s = us"
  using assms
proof (induction us arbitrary: s rule: decode_utf16.induct)
  case (2 u us)
  show ?case
  proof (cases "u < 0xD800 \<or> 0xDFFF < u")
    case True
    then obtain t where "s = u # t" "decode_utf16 us = map Inr t"
      using "2.prems"(2) by (auto simp: Cons_eq_map_conv)
    then show ?thesis
      using "2.IH"(1) [of t] "2.prems"(1) True by (auto simp: is_str_def is_scalar_def encode_utf16_Cons encode_utf16_char_def)
  next
    case False
    then obtain v vs t where v: "us = v # vs" "0xDC00 \<le> v" "v \<le> 0xDFFF" "u < 0xDC00"
        "s = (0x10000 + (u - 0xD800) * 1024 + (v - 0xDC00)) # t" "decode_utf16 vs = map Inr t"
      using "2.prems"(2) by (auto simp: Cons_eq_map_conv split: list.splits if_splits)
    have IH: "is_str t \<and> encode_utf16 t = vs"
      using "2.IH"(3) [of v vs t] False v "2.prems"(1) by auto
    let ?c = "0x10000 + (u - 0xD800) * 1024 + (v - 0xDC00)"
    obtain a b where ab: "u = 0xD800 + a" "v = 0xDC00 + b" "a < 1024" "b < 1024"
      using False v by (auto dest!: le_Suc_ex simp: not_less)
    then have "encode_utf16_char ?c = [u, v]" by (simp add: encode_utf16_char_def)
    moreover have "is_scalar ?c" using v False by (auto simp: is_scalar_def)
    ultimately show ?thesis using IH v by (simp add: is_str_def encode_utf16_Cons)
  qed
qed (simp_all add: is_str_def encode_utf16_def)

interpretation utf16: exact_codec encode_utf16
  "\<lambda>us. if list_all (\<lambda>u. u < 0x10000) us then from_utf16 us else None" is_str
proof unfold_locales
  fix s
  assume s: "is_str s"
  have "u < 0x10000" if "u \<in> set (encode_utf16_char c)" "is_scalar c" for u c
    using that by (auto simp: encode_utf16_char_def is_scalar_def split: if_splits)
  then have "list_all (\<lambda>u. u < 0x10000) (encode_utf16 s)"
    using s by (auto simp: encode_utf16_def is_str_def list_all_iff)
  then show "(if list_all (\<lambda>u. u < 0x10000) (encode_utf16 s) then from_utf16 (encode_utf16 s) else None) = Some s"
    using from_utf16_encode [OF s] by simp
next
  fix us s
  assume "(if list_all (\<lambda>u. u < 0x10000) us then from_utf16 us else None) = Some s"
  then show "is_str s \<and> encode_utf16 s = us"
    using decode_utf16_encode [of us s] by (auto simp: from_utf16_def sequence_Some_iff list_all_iff split: if_splits)
qed

subsection \<open>UTF-8\<close>

lemma utf8_width_encode: "is_scalar c \<Longrightarrow> utf8_width (hd (encode_utf8_char c)) = len_utf8 c"
  by (auto simp: is_scalar_def utf8_width_def encode_utf8_char_def len_utf8_def)

lemma utf8_digits:
  "(c :: nat) < 0x800 \<Longrightarrow> (0xC0 + c div 64) mod 32 = c div 64"
  "c < 0x10000 \<Longrightarrow> (0xE0 + c div 4096) mod 16 = c div 4096"
  "c < 0x110000 \<Longrightarrow> (0xF0 + c div 262144) mod 8 = c div 262144"
  "(0x80 + x mod 64) mod 64 = x mod (64::nat)"
proof -
  have lead: "(k * n + d) mod n = d" if "d < n" for k n d :: nat using that by simp
  show "c < 0x800 \<Longrightarrow> (0xC0 + c div 64) mod 32 = c div 64" using lead [of "c div 64" 32 6] by simp
  show "c < 0x10000 \<Longrightarrow> (0xE0 + c div 4096) mod 16 = c div 4096" using lead [of "c div 4096" 16 14] by simp
  show "c < 0x110000 \<Longrightarrow> (0xF0 + c div 262144) mod 8 = c div 262144"
    using lead [of "c div 262144" 8 30] by simp
  show "(0x80 + x mod 64) mod 64 = x mod (64::nat)" using lead [of "x mod 64" 64 2] by simp
qed

lemma base64_digits: "c div (64 * m) * (64 * m) + c div m mod 64 * m = c div m * (m::nat)"
  using div_mult_mod_eq [of "c div m" 64] by (metis div_mult2_eq add_mult_distrib mult.commute mult.left_commute)

lemma utf8_scalar_encode: "is_scalar c \<Longrightarrow> utf8_scalar (encode_utf8_char c) = c"
  using base64_digits [of c 1] base64_digits [of c 64] base64_digits [of c 4096]
  by (auto simp: is_scalar_def encode_utf8_char_def utf8_digits)

lemma from_utf8_encode_char:
  assumes "is_scalar c"
  shows "from_utf8 (encode_utf8_char c @ bs) = map_option ((#) c) (from_utf8 bs)"
proof -
  obtain b us where e: "encode_utf8_char c = b # us" by (cases "encode_utf8_char c") (auto simp: encode_utf8_char_def split: if_splits)
  have w: "utf8_width b = Suc (length us)"
    using utf8_width_encode [OF assms] length_encode_utf8_char [of c] by (simp add: e)
  show ?thesis using utf8_scalar_encode [OF assms] assms by (simp add: e w utf8_head_def)
qed

lemma from_utf8_as_bytes: "is_str s \<Longrightarrow> from_utf8 (as_bytes s) = Some s"
  by (induction s) (simp_all add: as_bytes_def is_str_def from_utf8_encode_char)

lemma from_utf8_Some: "from_utf8 bs = Some s \<Longrightarrow> is_str s \<and> as_bytes s = bs"
proof (induction bs arbitrary: s rule: from_utf8.induct)
  case (2 b bs)
  then show ?case
    by (auto simp: utf8_head_def Let_def is_str_def as_bytes_def take_Cons' split: if_splits option.splits)
qed (simp add: is_str_def as_bytes_def)

lemma from_utf8_iff: "from_utf8 bs = Some s \<longleftrightarrow> is_str s \<and> as_bytes s = bs"
  using from_utf8_Some from_utf8_as_bytes by blast

end
