(* ===== verification/Generation.thy ===== *)
theory Generation
  imports Prelude
begin

text \<open>
  The identities of \<open>crates/xlfn/src/generation.rs\<close>: nonzero 64-bit numbers handed out in
  sequence. A successor is computed with an overflow check, so that an exhausted sequence
  stops instead of reusing an identity.
\<close>

section \<open>Nonzero identities\<close>

definition nonzero_new :: "u64 \<Rightarrow> u64 option" where
  "nonzero_new raw = (if raw \<noteq> 0 then Some raw else None)"

datatype RuntimeGeneration = RuntimeGeneration u64
datatype OpenAttemptId = OpenAttemptId u64
datatype RemovalEpoch = RemovalEpoch u64
datatype RemovalAttemptId = RemovalAttemptId u64
datatype BindingGeneration = BindingGeneration u64
datatype TopicGeneration = TopicGeneration u64

definition runtime_generation_new :: "u64 \<Rightarrow> RuntimeGeneration option" where
  "runtime_generation_new raw = map_option RuntimeGeneration (nonzero_new raw)"

fun runtime_generation_get :: "RuntimeGeneration \<Rightarrow> u64" where
  "runtime_generation_get (RuntimeGeneration raw) = raw"

definition open_attempt_new :: "u64 \<Rightarrow> OpenAttemptId option" where
  "open_attempt_new raw = map_option OpenAttemptId (nonzero_new raw)"

fun open_attempt_get :: "OpenAttemptId \<Rightarrow> u64" where
  "open_attempt_get (OpenAttemptId raw) = raw"

fun into_runtime_generation :: "OpenAttemptId \<Rightarrow> RuntimeGeneration" where
  "into_runtime_generation (OpenAttemptId raw) = RuntimeGeneration raw"

definition removal_attempt_one :: RemovalAttemptId where
  "removal_attempt_one = RemovalAttemptId 1"

fun removal_attempt_checked_next :: "RemovalAttemptId \<Rightarrow> RemovalAttemptId option" where
  "removal_attempt_checked_next (RemovalAttemptId raw) =
     (case checked_add raw 1 of Some r \<Rightarrow> Some (RemovalAttemptId r) | None \<Rightarrow> None)"

definition binding_generation_one :: BindingGeneration where
  "binding_generation_one = BindingGeneration 1"

definition binding_generation_new :: "u64 \<Rightarrow> BindingGeneration option" where
  "binding_generation_new raw = map_option BindingGeneration (nonzero_new raw)"

fun binding_generation_get :: "BindingGeneration \<Rightarrow> u64" where
  "binding_generation_get (BindingGeneration raw) = raw"

fun binding_generation_next :: "BindingGeneration \<Rightarrow> BindingGeneration option" where
  "binding_generation_next (BindingGeneration raw) =
     (case checked_add raw 1 of Some r \<Rightarrow> binding_generation_new r | None \<Rightarrow> None)"

definition topic_generation_one :: TopicGeneration where
  "topic_generation_one = TopicGeneration 1"

definition topic_generation_new :: "u64 \<Rightarrow> TopicGeneration option" where
  "topic_generation_new raw = map_option TopicGeneration (nonzero_new raw)"

fun topic_generation_next :: "TopicGeneration \<Rightarrow> TopicGeneration option" where
  "topic_generation_next (TopicGeneration raw) =
     (case checked_add raw 1 of Some r \<Rightarrow> topic_generation_new r | None \<Rightarrow> None)"

section \<open>Interface: a sequence of fresh identities\<close>

text \<open>
  The owners of an identity sequence rely on one law: a successor, where there is one, has
  the next rank. Then no identity is ever handed out twice. \<open>issue\<close> is the n-th identity
  handed out after the first one.
\<close>

primrec issue :: "('i \<Rightarrow> 'i option) \<Rightarrow> nat \<Rightarrow> 'i \<Rightarrow> 'i option" where
  "issue succ 0 x = Some x"
| "issue succ (Suc n) x = Option.bind (issue succ n x) succ"

locale fresh_sequence =
  fixes succ :: "'i \<Rightarrow> 'i option"
    and rank :: "'i \<Rightarrow> nat"
  assumes succ_rank: "succ x = Some y \<Longrightarrow> rank y = Suc (rank x)"
begin

lemma issue_rank: "issue succ n x = Some y \<Longrightarrow> rank y = rank x + n"
  by (induction n arbitrary: y) (auto dest: succ_rank)

lemma issue_fresh: "issue succ m x = Some y \<Longrightarrow> issue succ n x = Some y \<Longrightarrow> m = n"
  using issue_rank by (metis add_left_cancel)

end

lemma checked_succ_Some:
  "checked_add (r :: u64) 1 = Some s \<longleftrightarrow> unat s = Suc (unat r)"
  by (simp add: checked_simps)

interpretation removal_attempts: fresh_sequence removal_attempt_checked_next
  "\<lambda>i. case i of RemovalAttemptId r \<Rightarrow> unat r"
proof unfold_locales
  show "(case y of RemovalAttemptId r \<Rightarrow> unat r) = Suc (case x of RemovalAttemptId r \<Rightarrow> unat r)"
    if "removal_attempt_checked_next x = Some y" for x y
    using that by (cases x) (auto simp: checked_succ_Some split: option.splits)
qed

interpretation binding_generations: fresh_sequence binding_generation_next
  "\<lambda>i. unat (binding_generation_get i)"
proof unfold_locales
  show "unat (binding_generation_get y) = Suc (unat (binding_generation_get x))"
    if "binding_generation_next x = Some y" for x y
    using that by (cases x) (auto simp: checked_succ_Some binding_generation_new_def nonzero_new_def
        split: option.splits if_splits)
qed

interpretation topic_generations: fresh_sequence topic_generation_next
  "\<lambda>i. case i of TopicGeneration r \<Rightarrow> unat r"
proof unfold_locales
  show "(case y of TopicGeneration r \<Rightarrow> unat r) = Suc (case x of TopicGeneration r \<Rightarrow> unat r)"
    if "topic_generation_next x = Some y" for x y
    using that by (cases x) (auto simp: checked_succ_Some topic_generation_new_def nonzero_new_def
        split: option.splits if_splits)
qed

text \<open>
  An identity is never reused. Of the binding generations, topic generations and
  removal attempts issued one after the other, no two are equal, however long the sequence
  runs; at the last 64-bit number there is no successor.
\<close>

lemma identities_never_reused:
  "(\<forall>m n. issue binding_generation_next m b = Some y \<and> issue binding_generation_next n b = Some y \<longrightarrow> m = n) \<and>
   (\<forall>m n. issue topic_generation_next m t = Some z \<and> issue topic_generation_next n t = Some z \<longrightarrow> m = n) \<and>
   (\<forall>m n. issue removal_attempt_checked_next m r = Some w \<and> issue removal_attempt_checked_next n r = Some w \<longrightarrow> m = n) \<and>
   binding_generation_next (BindingGeneration (- 1)) = None \<and>
   topic_generation_next (TopicGeneration (- 1)) = None \<and>
   removal_attempt_checked_next (RemovalAttemptId (- 1)) = None"
  using binding_generations.issue_fresh topic_generations.issue_fresh removal_attempts.issue_fresh
  by (auto simp: checked_add_def unsigned_minus_1_eq_mask mask_eq_exp_minus_1)

end
