(* ===== verification/Xlfn_Common.thy ===== *)
theory Xlfn_Common
  imports Unicode
begin

text \<open>
  The ABI definitions and validation rules of \<open>crates/xlfn-common/src/lib.rs\<close>: registration
  codes, execution kinds, and the validators of counted strings, function names, argument
  names and Windows basenames. Strings are lists of characters; where the code works on
  bytes and byte offsets the model does too, and an offset inside a character or an index
  out of range is the value \<open>Aborts\<close>.
\<close>

section \<open>ABI codes and execution kinds\<close>

datatype ReturnAbi = ReturnValue12 | ReturnNumericArray12

fun return_registration_code :: "ReturnAbi \<Rightarrow> string" where
  "return_registration_code ReturnValue12 = ''Q''"
| "return_registration_code ReturnNumericArray12 = ''K%''"

datatype ArgumentAbi =
  Value12 | Reference12 | Float64 | Boolean16 | Integer32 | CountedUtf16 | NumericArray12

fun registration_code :: "ArgumentAbi \<Rightarrow> string" where
  "registration_code Value12 = ''Q''"
| "registration_code Reference12 = ''U''"
| "registration_code Float64 = ''B''"
| "registration_code Boolean16 = ''A''"
| "registration_code Integer32 = ''J''"
| "registration_code CountedUtf16 = ''D%''"
| "registration_code NumericArray12 = ''K%''"

datatype ExecutionKind = MainThread | ThreadSafe | MacroSheet | Async

definition is_async :: "ExecutionKind \<Rightarrow> bool" where
  "is_async k \<longleftrightarrow> k = Async"

definition allows_reference_arguments :: "ExecutionKind \<Rightarrow> bool" where
  "allows_reference_arguments k \<longleftrightarrow> k = MacroSheet"

definition is_thread_safe :: "ExecutionKind \<Rightarrow> bool" where
  "is_thread_safe k \<longleftrightarrow> k = ThreadSafe \<or> k = Async"

datatype FunctionVisibility = Public | Hidden

definition MAX_EXCEL_FUNCTION_ARGUMENTS :: nat where "MAX_EXCEL_FUNCTION_ARGUMENTS = 255"
definition EXCEL_STRING_LIMIT :: nat where "EXCEL_STRING_LIMIT = 32767"
definition EXCEL_FUNCTION_NAME_LIMIT :: nat where "EXCEL_FUNCTION_NAME_LIMIT = 255"

definition max_excel_function_arguments :: "ExecutionKind \<Rightarrow> nat" where
  "max_excel_function_arguments k =
     (if is_async k then MAX_EXCEL_FUNCTION_ARGUMENTS - 1 else MAX_EXCEL_FUNCTION_ARGUMENTS)"

section \<open>Character classes of the standard library\<close>

definition is_ascii_alphabetic :: "nat \<Rightarrow> bool" where
  "is_ascii_alphabetic c \<longleftrightarrow> (0x41 \<le> c \<and> c \<le> 0x5A) \<or> (0x61 \<le> c \<and> c \<le> 0x7A)"

definition is_ascii_digit :: "nat \<Rightarrow> bool" where
  "is_ascii_digit c \<longleftrightarrow> 0x30 \<le> c \<and> c \<le> 0x39"

definition to_ascii_uppercase :: "nat \<Rightarrow> nat" where
  "to_ascii_uppercase c = (if 0x61 \<le> c \<and> c \<le> 0x7A then c - 0x20 else c)"

text \<open>The \<open>White_Space\<close> property and the category \<open>Cc\<close>.\<close>

definition is_whitespace :: "nat \<Rightarrow> bool" where
  "is_whitespace c \<longleftrightarrow> (0x09 \<le> c \<and> c \<le> 0x0D) \<or> (0x2000 \<le> c \<and> c \<le> 0x200A) \<or>
     c \<in> {0x20, 0x85, 0xA0, 0x1680, 0x2028, 0x2029, 0x202F, 0x205F, 0x3000}"

definition is_control :: "nat \<Rightarrow> bool" where
  "is_control c \<longleftrightarrow> c \<le> 0x1F \<or> (0x7F \<le> c \<and> c \<le> 0x9F)"

text \<open>An ASCII literal of the sources as its characters.\<close>

definition lit :: "string \<Rightarrow> ustr" where
  "lit s = map of_char s"

definition ascii_eq_ignore_case :: "ustr \<Rightarrow> ustr \<Rightarrow> bool" where
  "ascii_eq_ignore_case s t \<longleftrightarrow> map to_ascii_uppercase s = map to_ascii_uppercase t"

section \<open>Counted strings\<close>

datatype ExcelStringError = TooLong | Nul

definition validate_excel_string :: "ustr \<Rightarrow> ExcelStringError + unit" where
  "validate_excel_string s =
     (if length (encode_utf16 s) > EXCEL_STRING_LIMIT then Inl TooLong
      else if 0 \<in> set s then Inl Nul
      else Inr ())"

section \<open>Function names\<close>

datatype FunctionNameError =
  NameEmpty | NameTooLong | InvalidStart | InvalidCharacter | ReservedName | CellReference

definition is_function_name_start :: "nat \<Rightarrow> bool" where
  "is_function_name_start c \<longleftrightarrow>
     is_ascii_alphabetic c \<or> c = 0x5F \<or> c = 0x5C \<or>
     (\<not> is_ascii_char c \<and> \<not> is_whitespace c \<and> \<not> is_control c)"

definition EXCEL_GRID_ROWS :: nat where "EXCEL_GRID_ROWS = 1048576"
definition EXCEL_GRID_COLUMNS :: nat where "EXCEL_GRID_COLUMNS = 16384"

definition UNICODE_DECIMAL_ZEROES :: "nat list" where
  "UNICODE_DECIMAL_ZEROES =
    [0x0030, 0x0660, 0x06F0, 0x07C0, 0x0966, 0x09E6, 0x0A66, 0x0AE6, 0x0B66, 0x0BE6, 0x0C66, 0x0CE6,
     0x0D66, 0x0E50, 0x0ED0, 0x0F20, 0x1040, 0x1090, 0x17E0, 0x1810, 0x1946, 0x19D0, 0x1B50, 0x1BB0,
     0x1C40, 0x1C50, 0xA620, 0xA8D0, 0xA900, 0xAA50, 0xFF10, 0x104A0, 0x1D7CE, 0x1D7D8, 0x1D7E2,
     0x1D7EC, 0x1D7F6]"

fun find_digit :: "nat \<Rightarrow> nat list \<Rightarrow> nat option" where
  "find_digit c [] = None"
| "find_digit c (z # zs) = (if z \<le> c \<and> c - z < 10 then Some (c - z) else find_digit c zs)"

definition unicode_decimal_digit :: "nat \<Rightarrow> nat option" where
  "unicode_decimal_digit c = find_digit c UNICODE_DECIMAL_ZEROES"

definition is_digit :: "nat \<Rightarrow> bool" where
  "is_digit c \<longleftrightarrow> unicode_decimal_digit c \<noteq> None"

text \<open>The loop of \<open>is_grid_index\<close>: checked \<open>u32\<close> arithmetic, then the limit.\<close>

fun grid_index_loop :: "nat \<Rightarrow> nat \<Rightarrow> ustr \<Rightarrow> bool" where
  "grid_index_loop limit index [] = (index \<noteq> 0)"
| "grid_index_loop limit index (c # cs) =
     (case unicode_decimal_digit c of
        None \<Rightarrow> False
      | Some digit \<Rightarrow>
          if index * 10 < 2 ^ 32 \<and> index * 10 + digit < 2 ^ 32 \<and> index * 10 + digit \<le> limit
          then grid_index_loop limit (index * 10 + digit) cs else False)"

definition is_grid_index :: "ustr \<Rightarrow> nat \<Rightarrow> bool" where
  "is_grid_index text limit = grid_index_loop limit 0 text"

definition column_fold :: "nat list \<Rightarrow> nat" where
  "column_fold bytes = foldl (\<lambda>column c. column * 26 + (to_ascii_uppercase c - 0x41 + 1)) 0 bytes"

definition is_a1_reference :: "ustr \<Rightarrow> bool run" where
  "is_a1_reference name =
     (let column_end = length (takeWhile is_ascii_alphabetic (as_bytes name)) in
      if column_end = 0 \<or> column_end > 3 then Returns False
      else bind_run (str_take column_end name) (\<lambda>column_text.
           bind_run (str_drop column_end name) (\<lambda>row_text.
           Returns (column_fold (as_bytes column_text) \<le> EXCEL_GRID_COLUMNS \<and>
                    is_ascii_str row_text \<and> is_grid_index row_text EXCEL_GRID_ROWS))))"

definition r1c1_axes :: "ustr \<Rightarrow> nat \<Rightarrow> nat \<Rightarrow> nat \<Rightarrow> nat \<Rightarrow> bool run" where
  "r1c1_axes name first first_limit second_axis second_limit =
     bind_run (str_drop 1 name) (\<lambda>rest.
       let first_end = 1 + sum_list (map len_utf8 (takeWhile is_digit rest)) in
       bind_run (str_take first_end name) (\<lambda>prefix.
       bind_run (str_drop 1 prefix) (\<lambda>first_text.
       if first_end = str_len name then Returns (is_grid_index first_text first_limit)
       else if \<not> first_end < length (as_bytes name) then Aborts
       else if to_ascii_uppercase (as_bytes name ! first_end) \<noteq> second_axis then Returns False
       else bind_run (str_drop (first_end + 1) name) (\<lambda>second_text.
         let relative_allowed = (to_ascii_uppercase first = 0x52) in
         Returns ((is_grid_index first_text first_limit \<or> (relative_allowed \<and> first_text = [])) \<and>
                  (is_grid_index second_text second_limit \<or> (relative_allowed \<and> second_text = [])))))))"

definition is_r1c1_reference :: "ustr \<Rightarrow> bool run" where
  "is_r1c1_reference name =
     (case as_bytes name of
        [] \<Rightarrow> Returns False
      | first # _ \<Rightarrow>
          if to_ascii_uppercase first = 0x52
          then r1c1_axes name first EXCEL_GRID_ROWS 0x43 EXCEL_GRID_COLUMNS
          else if to_ascii_uppercase first = 0x43
          then r1c1_axes name first EXCEL_GRID_COLUMNS 0x52 EXCEL_GRID_ROWS
          else Returns False)"

definition validate_function_name :: "ustr \<Rightarrow> (FunctionNameError + unit) run" where
  "validate_function_name name =
     (case name of
        [] \<Rightarrow> Returns (Inl NameEmpty)
      | first # characters \<Rightarrow>
          if length (encode_utf16 name) > EXCEL_FUNCTION_NAME_LIMIT then Returns (Inl NameTooLong)
          else if \<not> is_function_name_start first then Returns (Inl InvalidStart)
          else if \<not> list_all (\<lambda>c. is_function_name_start c \<or> is_ascii_digit c \<or> c = 0x2E \<or> c = 0x3F)
                       characters
          then Returns (Inl InvalidCharacter)
          else if list_ex (ascii_eq_ignore_case name) (map lit [''C'', ''R'', ''TRUE'', ''FALSE''])
          then Returns (Inl ReservedName)
          else bind_run (is_a1_reference name) (\<lambda>a1.
            if a1 then Returns (Inl CellReference)
            else bind_run (is_r1c1_reference name) (\<lambda>r1c1.
              Returns (if r1c1 then Inl CellReference else Inr ()))))"

section \<open>Argument names\<close>

datatype ArgumentNameError = ArgEmpty | ReservedArgCharacter | ArgTooLong | CombinedTooLong

definition validate_argument_name :: "ustr \<Rightarrow> ArgumentNameError + unit" where
  "validate_argument_name name =
     (if name = [] then Inl ArgEmpty
      else if list_ex (\<lambda>c. c = 0x2C \<or> c = 0 \<or> c = 0x0D \<or> c = 0x0A) name then Inl ReservedArgCharacter
      else if length (encode_utf16 name) > EXCEL_STRING_LIMIT then Inl ArgTooLong
      else Inr ())"

fun first_error :: "('e + 'a) list \<Rightarrow> 'e option" where
  "first_error [] = None"
| "first_error (Inl e # rs) = Some e"
| "first_error (Inr x # rs) = first_error rs"

text \<open>\<open>usize\<close> arithmetic saturates at \<open>usize_max\<close>, the largest value of the target.\<close>

definition saturating_add :: "nat \<Rightarrow> nat \<Rightarrow> nat \<Rightarrow> nat" where
  "saturating_add usize_max a b = min (a + b) usize_max"

definition validate_argument_names :: "nat \<Rightarrow> ustr list \<Rightarrow> ArgumentNameError + unit" where
  "validate_argument_names usize_max names =
     (case first_error (map validate_argument_name names) of
        Some e \<Rightarrow> Inl e
      | None \<Rightarrow>
          let joined_utf16_len = saturating_add usize_max
            (foldl (saturating_add usize_max) 0 (map (\<lambda>n. length (encode_utf16 n)) names))
            (length names - 1)
          in if joined_utf16_len > EXCEL_STRING_LIMIT then Inl CombinedTooLong else Inr ())"

section \<open>Windows basenames\<close>

datatype WindowsBasenameError =
  BaseEmpty | DotPath | NonAscii | TrailingSpace | TrailingPeriod | ControlCharacter
| ReservedBaseCharacter | ReservedDeviceName

definition trim_end_matches :: "nat list \<Rightarrow> ustr \<Rightarrow> ustr" where
  "trim_end_matches cs s = rev (dropWhile (\<lambda>c. c \<in> set cs) (rev s))"

definition basename_stem :: "ustr \<Rightarrow> ustr" where
  "basename_stem name = map to_ascii_uppercase (trim_end_matches [0x20, 0x2E] (takeWhile (\<lambda>c. c \<noteq> 0x2E) name))"

definition is_reserved_stem :: "ustr \<Rightarrow> bool" where
  "is_reserved_stem stem \<longleftrightarrow>
     stem \<in> set (map lit [''CON'', ''PRN'', ''AUX'', ''NUL'', ''CONIN$'', ''CONOUT$'']) \<or>
     (take 3 stem = lit ''COM'' \<and> drop 3 stem \<in> set (map (\<lambda>d. [d]) [0x31..<0x3A])) \<or>
     (take 3 stem = lit ''LPT'' \<and> drop 3 stem \<in> set (map (\<lambda>d. [d]) [0x31..<0x3A]))"

definition validate_windows_basename :: "ustr \<Rightarrow> WindowsBasenameError + unit" where
  "validate_windows_basename name =
     (if name = [] then Inl BaseEmpty
      else if name = lit ''.'' \<or> name = lit ''..'' then Inl DotPath
      else if \<not> is_ascii_str name then Inl NonAscii
      else if last name = 0x20 then Inl TrailingSpace
      else if last name = 0x2E then Inl TrailingPeriod
      else if list_ex (\<lambda>c. c \<le> 0x1F) name then Inl ControlCharacter
      else if list_ex (\<lambda>c. c \<in> {0x3C, 0x3E, 0x3A, 0x22, 0x2F, 0x5C, 0x7C, 0x3F, 0x2A}) name
      then Inl ReservedBaseCharacter
      else if is_reserved_stem (basename_stem name) then Inl ReservedDeviceName
      else Inr ())"


section \<open>Decimal indices\<close>

declare str_drop.simps [simp del] str_take.simps [simp del]

definition decimal_value :: "ustr \<Rightarrow> nat" where
  "decimal_value cs = foldl (\<lambda>a c. a * 10 + the (unicode_decimal_digit c)) 0 cs"

lemma decimal_value_mono: "i \<le> foldl (\<lambda>a c. a * 10 + f c) (i :: nat) cs"
proof (induction cs arbitrary: i)
  case (Cons c cs)
  have "i \<le> i * 10 + f c" by simp
  also have "\<dots> \<le> foldl (\<lambda>a c. a * 10 + f c) (i * 10 + f c) cs" by (rule Cons.IH)
  finally show ?case by simp
qed simp

lemma grid_index_loop_iff:
  assumes "limit < 2 ^ 32" "i \<le> limit"
  shows "grid_index_loop limit i cs \<longleftrightarrow> list_all is_digit cs \<and>
    (let v = foldl (\<lambda>a c. a * 10 + the (unicode_decimal_digit c)) i cs in v \<noteq> 0 \<and> v \<le> limit)"
  using assms(2)
proof (induction cs arbitrary: i)
  case (Cons c cs)
  show ?case
  proof (cases "unicode_decimal_digit c")
    case (Some d)
    have "foldl (\<lambda>a c. a * 10 + the (unicode_decimal_digit c)) (i * 10 + d) cs \<le> limit \<Longrightarrow> i * 10 + d \<le> limit"
      using decimal_value_mono [of "i * 10 + d" "\<lambda>c. the (unicode_decimal_digit c)" cs] by simp
    then show ?thesis
      using Some Cons.IH [of "i * 10 + d"] assms(1) by (auto simp: Let_def is_digit_def)
  qed (simp add: is_digit_def)
qed (use assms in \<open>simp add: Let_def\<close>)

lemma is_grid_index_iff:
  assumes "limit < 2 ^ 32"
  shows "is_grid_index cs limit \<longleftrightarrow>
    list_all is_digit cs \<and> 1 \<le> decimal_value cs \<and> decimal_value cs \<le> limit"
  using grid_index_loop_iff [OF assms, of 0 cs] by (auto simp: is_grid_index_def decimal_value_def Let_def)

lemma grid_limits [simp]: "EXCEL_GRID_ROWS < 2 ^ 32" "EXCEL_GRID_COLUMNS < 2 ^ 32"
  "EXCEL_GRID_ROWS < 4294967296" "EXCEL_GRID_COLUMNS < 4294967296"
  by (simp_all add: EXCEL_GRID_ROWS_def EXCEL_GRID_COLUMNS_def)

lemma is_grid_index_Nil [simp]: "\<not> is_grid_index [] limit"
  by (simp add: is_grid_index_def)

section \<open>Bytes and characters\<close>

lemma first_byte:
  "encode_utf8_char c = (if c < 0x80 then c else hd (encode_utf8_char c)) # tl (encode_utf8_char c)"
  "0x80 \<le> c \<Longrightarrow> 0xC0 \<le> hd (encode_utf8_char c)"
  by (simp_all add: encode_utf8_char_def)

lemma alphabetic_ascii: "is_ascii_alphabetic c \<Longrightarrow> c < 0x80"
  by (auto simp: is_ascii_alphabetic_def)

lemma takeWhile_alphabetic_bytes:
  "takeWhile is_ascii_alphabetic (as_bytes name) = takeWhile is_ascii_alphabetic name"
proof (induction name)
  case (Cons c name)
  show ?case
  proof (cases "c < 0x80")
    case True
    then show ?thesis using Cons by (simp add: as_bytes_Cons encode_utf8_char_def)
  next
    case False
    then have "\<not> is_ascii_alphabetic (hd (encode_utf8_char c))" "\<not> is_ascii_alphabetic c"
      using first_byte(2) [of c] by (auto simp: is_ascii_alphabetic_def)
    then show ?thesis
      using False first_byte(1) [of c] by (simp add: as_bytes_Cons) (metis append_Cons takeWhile.simps(2))
  qed
qed (simp add: as_bytes_def)

lemma str_len_ascii: "list_all (\<lambda>c. c < 0x80) s \<Longrightarrow> str_len s = length s"
  by (induction s) (simp_all add: len_utf8_def)

lemma alphabetic_prefix:
  "str_len (takeWhile is_ascii_alphabetic name) = length (takeWhile is_ascii_alphabetic name)"
  "as_bytes (takeWhile is_ascii_alphabetic name) = takeWhile is_ascii_alphabetic name"
proof -
  have a: "list_all (\<lambda>c. c < 0x80) (takeWhile is_ascii_alphabetic name)"
    by (auto simp: list_all_iff dest!: set_takeWhileD alphabetic_ascii)
  then show "str_len (takeWhile is_ascii_alphabetic name) = length (takeWhile is_ascii_alphabetic name)"
    by (rule str_len_ascii)
  show "as_bytes (takeWhile is_ascii_alphabetic name) = takeWhile is_ascii_alphabetic name"
    using a ascii_lengths by (simp add: is_ascii_str_def is_ascii_char_def [abs_def])
qed

lemma is_a1_reference_eq:
  "is_a1_reference name = Returns
    (let cols = takeWhile is_ascii_alphabetic name; row = dropWhile is_ascii_alphabetic name in
     cols \<noteq> [] \<and> length cols \<le> 3 \<and> column_fold cols \<le> EXCEL_GRID_COLUMNS \<and>
     is_ascii_str row \<and> is_grid_index row EXCEL_GRID_ROWS)"
proof -
  let ?cols = "takeWhile is_ascii_alphabetic name" and ?row = "dropWhile is_ascii_alphabetic name"
  have "str_take (length ?cols) name = Returns ?cols" "str_drop (length ?cols) name = Returns ?row"
    using str_take_append [of ?cols ?row] str_drop_append [of ?cols ?row] alphabetic_prefix(1) [of name]
    by simp_all
  then show ?thesis
    by (auto simp: is_a1_reference_def takeWhile_alphabetic_bytes alphabetic_prefix(2) Let_def)
qed

definition r1c1_tail :: "nat \<Rightarrow> nat \<Rightarrow> nat \<Rightarrow> bool \<Rightarrow> ustr \<Rightarrow> bool" where
  "r1c1_tail first_limit axis second_limit relative rest =
     (let first = takeWhile is_digit rest in
      case dropWhile is_digit rest of
        [] \<Rightarrow> is_grid_index first first_limit
      | t # second \<Rightarrow> to_ascii_uppercase t = axis \<and>
          (is_grid_index first first_limit \<or> relative \<and> first = []) \<and>
          (is_grid_index second second_limit \<or> relative \<and> second = []))"

lemma r1c1_axes_eq:
  assumes a: "a < 0x80" and axis: "axis < 0x80"
  shows "r1c1_axes (a # rest) first first_limit axis second_limit =
    Returns (r1c1_tail first_limit axis second_limit (to_ascii_uppercase first = 0x52) rest)"
proof -
  define ds ts where ds: "ds = takeWhile is_digit rest" and ts: "ts = dropWhile is_digit rest"
  have rest: "rest = ds @ ts" by (simp add: ds ts)
  have len_a: "len_utf8 a = 1" using a by (simp add: len_utf8_def)
  have drop1: "str_drop 1 (a # s) = Returns s" for s
    using str_drop_append [of "[a]" s] len_a by simp
  have take1: "str_take (1 + str_len ds) (a # rest) = Returns (a # ds)"
    using str_take_append [of "a # ds" ts] len_a by (simp add: rest)
  have sum: "sum_list (map len_utf8 ds) = str_len ds" by (simp add: str_len_def)
  have whole: "str_len (a # rest) = 1 + str_len ds + str_len ts"
    using len_a by (simp add: rest)
  show ?thesis
  proof (cases ts)
    case Nil
    then show ?thesis
      using drop1 take1 sum whole by (simp add: r1c1_axes_def r1c1_tail_def Let_def flip: ds ts)
  next
    case (Cons t es)
    have pos: "0 < str_len ts" using Cons by simp
    have bytes: "as_bytes (a # rest) = as_bytes (a # ds) @ encode_utf8_char t @ as_bytes es"
      using as_bytes_append [of "a # ds" ts] Cons by (simp add: as_bytes_Cons rest)
    have "length (as_bytes (a # ds)) = 1 + str_len ds"
      by (simp add: length_as_bytes len_a)
    then have "as_bytes (a # rest) ! (1 + str_len ds) = (encode_utf8_char t @ as_bytes es) ! 0"
      unfolding bytes by (metis add.right_neutral nth_append_length_plus)
    moreover have "(encode_utf8_char t @ as_bytes es) ! 0 = hd (encode_utf8_char t)"
      by (subst (1) first_byte(1)) (simp add: encode_utf8_char_def)
    ultimately have idx: "as_bytes (a # rest) ! (1 + str_len ds) = hd (encode_utf8_char t)"
      by simp
    have in_range: "1 + str_len ds < length (as_bytes (a # rest))"
      using whole pos by (simp add: length_as_bytes)
    have axis_iff: "to_ascii_uppercase (hd (encode_utf8_char t)) = axis \<longleftrightarrow> to_ascii_uppercase t = axis"
    proof (cases "t < 0x80")
      case True
      then show ?thesis by (simp add: encode_utf8_char_def)
    next
      case False
      then show ?thesis using first_byte(2) [of t] axis by (simp add: to_ascii_uppercase_def)
    qed
    have second: "to_ascii_uppercase t = axis \<Longrightarrow> str_drop (1 + str_len ds + 1) (a # rest) = Returns es"
    proof -
      assume "to_ascii_uppercase t = axis"
      then have "len_utf8 t = 1" using axis by (auto simp: to_ascii_uppercase_def len_utf8_def split: if_splits)
      then show ?thesis
        using str_drop_append [of "a # ds @ [t]" es] len_a Cons by (simp add: rest)
    qed
    show ?thesis
      using drop1 take1 sum whole pos idx in_range axis_iff second Cons
      by (simp add: r1c1_axes_def r1c1_tail_def Let_def flip: ds ts)
  qed
qed


lemma is_r1c1_reference_eq:
  "is_r1c1_reference name = Returns (case name of
      [] \<Rightarrow> False
    | a # rest \<Rightarrow>
        if to_ascii_uppercase a = 0x52 then r1c1_tail EXCEL_GRID_ROWS 0x43 EXCEL_GRID_COLUMNS True rest
        else if to_ascii_uppercase a = 0x43 then r1c1_tail EXCEL_GRID_COLUMNS 0x52 EXCEL_GRID_ROWS False rest
        else False)"
proof (cases name)
  case Nil
  then show ?thesis by (simp add: is_r1c1_reference_def as_bytes_def)
next
  case (Cons a rest)
  show ?thesis
  proof (cases "a < 0x80")
    case True
    then have "as_bytes name = a # as_bytes rest"
      using Cons by (simp add: as_bytes_Cons encode_utf8_char_def)
    then show ?thesis
      using r1c1_axes_eq [OF True, of _ rest] Cons by (simp add: is_r1c1_reference_def)
  next
    case False
    have "as_bytes name = hd (encode_utf8_char a) # tl (encode_utf8_char a) @ as_bytes rest"
      using Cons first_byte(1) [of a] False by (simp add: as_bytes_Cons)
    moreover have "0xC0 \<le> hd (encode_utf8_char a)" using first_byte(2) False by simp
    ultimately show ?thesis
      using Cons False by (simp add: is_r1c1_reference_def to_ascii_uppercase_def)
  qed
qed

section \<open>The reference grammar\<close>

text \<open>
  What the formula language reads as a cell: in A1 style one to three letters, read in base
  26, and a decimal row; in R1C1 style a row and a column part with decimal indices, of
  which the row-first spelling may omit either and the other spelling neither.
\<close>

definition names_a1 :: "ustr \<Rightarrow> bool" where
  "names_a1 name \<longleftrightarrow> (\<exists>cols row. name = cols @ row \<and> cols \<noteq> [] \<and> length cols \<le> 3 \<and>
     list_all is_ascii_alphabetic cols \<and> column_fold cols \<le> EXCEL_GRID_COLUMNS \<and>
     list_all is_ascii_digit row \<and> 1 \<le> decimal_value row \<and> decimal_value row \<le> EXCEL_GRID_ROWS)"

definition index_part :: "nat \<Rightarrow> bool \<Rightarrow> ustr \<Rightarrow> bool" where
  "index_part limit optional ds \<longleftrightarrow> (optional \<and> ds = []) \<or>
     (list_all is_digit ds \<and> 1 \<le> decimal_value ds \<and> decimal_value ds \<le> limit)"

definition names_r1c1 :: "ustr \<Rightarrow> bool" where
  "names_r1c1 name \<longleftrightarrow>
     (\<exists>r ds. name = r # ds \<and> to_ascii_uppercase r = 0x52 \<and> index_part EXCEL_GRID_ROWS False ds) \<or>
     (\<exists>c ds. name = c # ds \<and> to_ascii_uppercase c = 0x43 \<and> index_part EXCEL_GRID_COLUMNS False ds) \<or>
     (\<exists>r ds c es. name = r # ds @ c # es \<and> to_ascii_uppercase r = 0x52 \<and> to_ascii_uppercase c = 0x43 \<and>
        index_part EXCEL_GRID_ROWS True ds \<and> index_part EXCEL_GRID_COLUMNS True es) \<or>
     (\<exists>c ds r es. name = c # ds @ r # es \<and> to_ascii_uppercase c = 0x43 \<and> to_ascii_uppercase r = 0x52 \<and>
        index_part EXCEL_GRID_COLUMNS False ds \<and> index_part EXCEL_GRID_ROWS False es)"

text \<open>Among ASCII characters only the ASCII digits are decimal digits, and letters are none.\<close>

lemma find_digit_large: "(\<forall>z \<in> set zs. c < z) \<Longrightarrow> find_digit c zs = None"
  by (induction zs) auto

lemma unicode_decimal_digit_ascii:
  "c < 0x80 \<Longrightarrow> unicode_decimal_digit c = (if is_ascii_digit c then Some (c - 0x30) else None)"
  by (auto simp: unicode_decimal_digit_def UNICODE_DECIMAL_ZEROES_def is_ascii_digit_def)

lemma is_digit_ascii: "c < 0x80 \<Longrightarrow> is_digit c = is_ascii_digit c"
  by (simp add: is_digit_def unicode_decimal_digit_ascii)

lemma axis_not_digit: "to_ascii_uppercase c = 0x43 \<or> to_ascii_uppercase c = 0x52 \<Longrightarrow> \<not> is_digit c"
  by (subst is_digit_ascii) (auto simp: to_ascii_uppercase_def is_ascii_digit_def split: if_splits)

lemma is_grid_index_part:
  "limit < 2 ^ 32 \<Longrightarrow> (is_grid_index ds limit \<or> opt \<and> ds = []) = index_part limit opt ds"
  by (auto simp: index_part_def is_grid_index_iff)

lemma index_part_digits: "index_part limit opt ds \<Longrightarrow> list_all is_digit ds"
  by (auto simp: index_part_def)

lemma r1c1_tail_iff:
  assumes "first_limit < 2 ^ 32" "second_limit < 2 ^ 32" "axis = 0x43 \<or> axis = 0x52"
  shows "r1c1_tail first_limit axis second_limit opt rest \<longleftrightarrow>
    index_part first_limit False rest \<or>
    (\<exists>ds t es. rest = ds @ t # es \<and> to_ascii_uppercase t = axis \<and>
       index_part first_limit opt ds \<and> index_part second_limit opt es)"
proof
  assume l: "r1c1_tail first_limit axis second_limit opt rest"
  show "index_part first_limit False rest \<or> (\<exists>ds t es. rest = ds @ t # es \<and> to_ascii_uppercase t = axis \<and>
       index_part first_limit opt ds \<and> index_part second_limit opt es)"
  proof (cases "dropWhile is_digit rest")
    case Nil
    then have eq: "takeWhile is_digit rest = rest" by (metis append_Nil2 takeWhile_dropWhile_id)
    have "is_grid_index rest first_limit" using l unfolding r1c1_tail_def Let_def Nil eq by simp
    then show ?thesis using is_grid_index_part [OF assms(1), of rest False] by simp
  next
    case (Cons t es)
    then have "rest = takeWhile is_digit rest @ t # es" by (metis takeWhile_dropWhile_id)
    then show ?thesis
      using l Cons is_grid_index_part [OF assms(1), of _ opt] is_grid_index_part [OF assms(2), of _ opt]
      by (auto simp: r1c1_tail_def)
  qed
next
  assume r: "index_part first_limit False rest \<or> (\<exists>ds t es. rest = ds @ t # es \<and> to_ascii_uppercase t = axis \<and>
       index_part first_limit opt ds \<and> index_part second_limit opt es)"
  then show "r1c1_tail first_limit axis second_limit opt rest"
  proof
    assume "index_part first_limit False rest"
    moreover from this have "takeWhile is_digit rest = rest" "dropWhile is_digit rest = []"
      by (auto simp: index_part_def list_all_iff)
    ultimately show ?thesis
      using is_grid_index_part [OF assms(1), of rest False]
      unfolding r1c1_tail_def Let_def by (metis list.case(1))
  next
    assume "\<exists>ds t es. rest = ds @ t # es \<and> to_ascii_uppercase t = axis \<and>
       index_part first_limit opt ds \<and> index_part second_limit opt es"
    then obtain ds t es where r: "rest = ds @ t # es" "to_ascii_uppercase t = axis"
        "index_part first_limit opt ds" "index_part second_limit opt es" by blast
    then have "\<not> is_digit t" "list_all is_digit ds"
      using axis_not_digit assms(3) index_part_digits by blast+
    then have "takeWhile is_digit rest = ds" "dropWhile is_digit rest = t # es"
      using r by (auto simp: list_all_iff takeWhile_append dropWhile_append)
    then show ?thesis
      using r is_grid_index_part [OF assms(1), of ds opt] is_grid_index_part [OF assms(2), of es opt]
      by (auto simp: r1c1_tail_def)
  qed
qed


lemma is_a1_reference_iff: "is_a1_reference name = Returns (names_a1 name)"
proof -
  have dig: "is_ascii_str row \<and> list_all is_digit row \<longleftrightarrow> list_all is_ascii_digit row" for row
    by (induction row) (auto simp: is_ascii_str_def is_ascii_char_def is_digit_ascii is_ascii_digit_def)
  have split: "takeWhile is_ascii_alphabetic (cols @ row) = cols \<and>
      dropWhile is_ascii_alphabetic (cols @ row) = row"
    if "list_all is_ascii_alphabetic cols" "list_all is_ascii_digit row" for cols row
    using that
    by (cases row) (auto simp: list_all_iff takeWhile_append dropWhile_append is_ascii_alphabetic_def is_ascii_digit_def)
  have "names_a1 name \<longleftrightarrow>
     (let cols = takeWhile is_ascii_alphabetic name; row = dropWhile is_ascii_alphabetic name in
     cols \<noteq> [] \<and> length cols \<le> 3 \<and> column_fold cols \<le> EXCEL_GRID_COLUMNS \<and>
     is_ascii_str row \<and> is_grid_index row EXCEL_GRID_ROWS)" (is "_ \<longleftrightarrow> ?r")
  proof
    assume "names_a1 name"
    then obtain cols row where c: "name = cols @ row" "cols \<noteq> []" "length cols \<le> 3"
        "list_all is_ascii_alphabetic cols" "column_fold cols \<le> EXCEL_GRID_COLUMNS"
        "list_all is_ascii_digit row" "1 \<le> decimal_value row" "decimal_value row \<le> EXCEL_GRID_ROWS"
      unfolding names_a1_def by blast
    moreover have "is_ascii_str row" "is_grid_index row EXCEL_GRID_ROWS"
      using dig [of row] c by (auto simp: is_grid_index_iff)
    ultimately show ?r using split [OF c(4,6)] by simp
  next
    assume ?r
    moreover have "list_all is_ascii_alphabetic (takeWhile is_ascii_alphabetic name)"
      by (auto simp: list_all_iff dest: set_takeWhileD)
    moreover have "name = takeWhile is_ascii_alphabetic name @ dropWhile is_ascii_alphabetic name" by simp
    ultimately show "names_a1 name"
      unfolding names_a1_def Let_def is_grid_index_iff [OF grid_limits(1)] using dig by metis
  qed
  then show ?thesis by (simp add: is_a1_reference_eq)
qed

lemma is_r1c1_reference_iff: "is_r1c1_reference name = Returns (names_r1c1 name)"
proof (cases name)
  case Nil
  then show ?thesis by (simp add: is_r1c1_reference_eq names_r1c1_def)
next
  case (Cons a rest)
  have rows: "r1c1_tail EXCEL_GRID_ROWS 0x43 EXCEL_GRID_COLUMNS True rest \<longleftrightarrow>
      index_part EXCEL_GRID_ROWS False rest \<or> (\<exists>ds t es. rest = ds @ t # es \<and> to_ascii_uppercase t = 0x43 \<and>
       index_part EXCEL_GRID_ROWS True ds \<and> index_part EXCEL_GRID_COLUMNS True es)"
    by (intro r1c1_tail_iff) simp_all
  have cols: "r1c1_tail EXCEL_GRID_COLUMNS 0x52 EXCEL_GRID_ROWS False rest \<longleftrightarrow>
      index_part EXCEL_GRID_COLUMNS False rest \<or> (\<exists>ds t es. rest = ds @ t # es \<and> to_ascii_uppercase t = 0x52 \<and>
       index_part EXCEL_GRID_COLUMNS False ds \<and> index_part EXCEL_GRID_ROWS False es)"
    by (intro r1c1_tail_iff) simp_all
  show ?thesis
    unfolding is_r1c1_reference_eq Cons names_r1c1_def
    using rows cols by auto
qed

section \<open>What the validators promise\<close>

definition reserved_names :: "ustr list" where
  "reserved_names = map lit [''C'', ''R'', ''TRUE'', ''FALSE'']"

text \<open>
  C28: the reference recognisers decide the reference grammar and never panic. On every
  string, whatever its characters, the byte offsets they compute are character boundaries
  and in range, their checked 32-bit arithmetic changes nothing, and they answer yes
  exactly for the A1 and R1C1 references within Excel's grid, with Unicode decimal digits
  in R1C1 indices and ASCII digits only in A1 rows.
\<close>

theorem reference_recognisers_decide_grammar:
  "is_a1_reference name = Returns (names_a1 name) \<and> is_r1c1_reference name = Returns (names_r1c1 name)"
  by (simp add: is_a1_reference_iff is_r1c1_reference_iff)

text \<open>
  What a validated function name is. The validator always returns, and it accepts a
  name exactly when the name is not empty, has at most 255 UTF-16 units, starts with a
  name character and continues with name characters, digits, periods and question marks,
  is none of the four reserved words in any case, and does not read as a cell reference.
\<close>

lemma function_name_accepted_iff:
  "validate_function_name name = Returns (Inr ()) \<longleftrightarrow>
     name \<noteq> [] \<and> length (encode_utf16 name) \<le> EXCEL_FUNCTION_NAME_LIMIT \<and>
     is_function_name_start (hd name) \<and>
     (\<forall>c \<in> set (tl name). is_function_name_start c \<or> is_ascii_digit c \<or> c = 0x2E \<or> c = 0x3F) \<and>
     (\<forall>r \<in> set reserved_names. \<not> ascii_eq_ignore_case name r) \<and>
     \<not> names_a1 name \<and> \<not> names_r1c1 name"
  by (cases name)
    (auto simp: validate_function_name_def is_a1_reference_iff is_r1c1_reference_iff reserved_names_def
      list_all_iff list_ex_iff)

subsection \<open>Argument names\<close>

text \<open>The list Excel receives: the names, joined by commas.\<close>

fun join_names :: "ustr list \<Rightarrow> ustr" where
  "join_names [] = []"
| "join_names [n] = n"
| "join_names (n # m # ns) = n @ 0x2C # join_names (m # ns)"

lemma join_names_utf16:
  "length (encode_utf16 (join_names ns)) = sum_list (map (\<lambda>n. length (encode_utf16 n)) ns) + (length ns - 1)"
  by (induction ns rule: join_names.induct)
    (simp_all add: encode_utf16_append encode_utf16_Cons encode_utf16_char_def encode_utf16_def len_utf16_def)

lemma saturating_fold:
  "foldl (saturating_add M) (min a M) xs = min (a + sum_list xs) M"
proof (induction xs arbitrary: a)
  case (Cons x xs)
  have "saturating_add M (min a M) x = min (a + x) M" by (simp add: saturating_add_def min_def)
  then show ?case using Cons [of "a + x"] by (simp add: add.assoc)
qed simp

lemma first_error_None: "first_error rs = None \<longleftrightarrow> list_all (\<lambda>r. r = Inr ()) rs"
  by (induction rs rule: first_error.induct) auto

lemma names_ok_iff:
  assumes "EXCEL_STRING_LIMIT < M"
  shows "validate_argument_names M ns = Inr () \<longleftrightarrow> list_all (\<lambda>n. validate_argument_name n = Inr ()) ns \<and>
    length (encode_utf16 (join_names ns)) \<le> EXCEL_STRING_LIMIT"
proof -
  have "foldl (saturating_add M) 0 xs = min (sum_list xs) M" for xs
    using saturating_fold [of M 0 xs] by simp
  then have "(saturating_add M (foldl (saturating_add M) 0 (map (\<lambda>n. length (encode_utf16 n)) ns)) (length ns - 1)
      > EXCEL_STRING_LIMIT) = (length (encode_utf16 (join_names ns)) > EXCEL_STRING_LIMIT)"
    using assms by (auto simp: join_names_utf16 saturating_add_def min_def)
  moreover have "first_error (map validate_argument_name ns) = None \<longleftrightarrow>
      list_all (\<lambda>n. validate_argument_name n = Inr ()) ns"
    by (simp add: first_error_None list_all_iff)
  ultimately show ?thesis
    by (cases "first_error (map validate_argument_name ns)")
      (simp_all add: validate_argument_names_def Let_def not_less)
qed

lemma join_names_inj:
  assumes "list_all (\<lambda>n. 0x2C \<notin> set n \<and> n \<noteq> []) ns" "list_all (\<lambda>n. 0x2C \<notin> set n \<and> n \<noteq> []) ms"
    and "join_names ns = join_names ms"
  shows "ns = ms"
proof -
  have comma: "n @ 0x2C # r = m @ 0x2C # q \<Longrightarrow> 0x2C \<notin> set n \<Longrightarrow> 0x2C \<notin> set m \<Longrightarrow> n = m \<and> r = q"
    for n m r q :: ustr
    by (auto simp: append_eq_append_conv2 Cons_eq_append_conv append_eq_Cons_conv)
  show ?thesis
    using assms
  proof (induction ns arbitrary: ms rule: join_names.induct)
    case 1
    then show ?case by (cases ms rule: join_names.cases) auto
  next
    case (2 n)
    then show ?case by (cases ms rule: join_names.cases) auto
  next
    case (3 n m ns)
    show ?case
    proof (cases ms rule: join_names.cases)
      case (3 x y zs)
      then have "n = x \<and> join_names (m # ns) = join_names (y # zs)"
        using "3.prems" comma [of n "join_names (m # ns)" x "join_names (y # zs)"] by simp
      then show ?thesis using "3.IH" [of "y # zs"] "3.prems" 3 by simp
    qed (use 3 in auto)
  qed
qed

text \<open>
  Validated argument names can be sent to Excel. With a \<open>usize\<close> that can exceed the
  string limit, a list of names is accepted exactly when each name is valid and the
  comma-joined list, as UTF-16, has at most 32767 units (the saturating sum is exact at the
  limit). Accepted names are recovered from the joined list: two accepted lists with the
  same joined text are the same list.
\<close>

lemma argument_names_accepted_iff:
  assumes "EXCEL_STRING_LIMIT < usize_max"
  shows "(validate_argument_names usize_max ns = Inr () \<longleftrightarrow>
      list_all (\<lambda>n. validate_argument_name n = Inr ()) ns \<and>
      length (encode_utf16 (join_names ns)) \<le> EXCEL_STRING_LIMIT) \<and>
    (validate_argument_names usize_max ns = Inr () \<and> validate_argument_names usize_max ms = Inr () \<and>
       join_names ns = join_names ms \<longrightarrow> ns = ms)"
proof -
  have "validate_argument_name n = Inr () \<Longrightarrow> 0x2C \<notin> set n \<and> n \<noteq> []" for n
    by (auto simp: validate_argument_name_def list_ex_iff split: if_splits)
  then have "validate_argument_names usize_max ks = Inr () \<Longrightarrow> list_all (\<lambda>n. 0x2C \<notin> set n \<and> n \<noteq> []) ks" for ks
    using names_ok_iff [OF assms, of ks] by (auto simp: list_all_iff)
  then show ?thesis
    using names_ok_iff [OF assms, of ns] join_names_inj [of ns ms] by blast
qed

subsection \<open>Basenames\<close>

lemma trim_spaces: "trim_end_matches [0x20, 0x2E] (s @ replicate k 0x20) = trim_end_matches [0x20, 0x2E] s"
proof -
  have "P x \<Longrightarrow> dropWhile P (replicate k x @ ys) = dropWhile P ys" for P :: "nat \<Rightarrow> bool" and x ys
    by (induction k) auto
  then show ?thesis by (simp add: trim_end_matches_def)
qed

lemma trim_no_space:
  "s = [] \<or> (last s \<noteq> 0x20 \<and> last s \<noteq> 0x2E) \<Longrightarrow> trim_end_matches [0x20, 0x2E] s = s"
  by (cases s rule: rev_cases) (auto simp: trim_end_matches_def)

lemma takeWhile_no_dot: "0x2E \<notin> set s \<Longrightarrow> takeWhile (\<lambda>c. c \<noteq> (0x2E::nat)) (s @ t) = s @ takeWhile (\<lambda>c. c \<noteq> 0x2E) t"
  by (induction s) auto

text \<open>
  A Windows device name cannot be disguised. Whatever the case of its letters, however
  many spaces follow it and whatever extension is added, a reserved device name is not an
  accepted basename; and every accepted basename is printable ASCII without a character
  Windows reserves and does not end in a space or a period.
\<close>

lemma basename_accepted_is_safe:
  "(is_reserved_stem (map to_ascii_uppercase d) \<and> 0x2E \<notin> set d \<and> last d \<noteq> 0x20 \<and>
      (ext = [] \<or> hd ext = 0x2E) \<longrightarrow>
    validate_windows_basename (d @ replicate k 0x20 @ ext) \<noteq> Inr ()) \<and>
   (validate_windows_basename name = Inr () \<longrightarrow>
    (\<forall>c \<in> set name. 0x20 \<le> c \<and> c < 0x80 \<and>
       c \<notin> {0x3C, 0x3E, 0x3A, 0x22, 0x2F, 0x5C, 0x7C, 0x3F, 0x2A}) \<and>
    last name \<noteq> 0x20 \<and> last name \<noteq> 0x2E)"
proof (intro conjI impI)
  assume d: "is_reserved_stem (map to_ascii_uppercase d) \<and> 0x2E \<notin> set d \<and> last d \<noteq> 0x20 \<and>
    (ext = [] \<or> hd ext = 0x2E)"
  have "d = [] \<or> last d \<noteq> 0x2E" using d by (metis last_in_set)
  then have trim: "trim_end_matches [0x20, 0x2E] d = d" using d trim_no_space by blast
  have "takeWhile (\<lambda>c. c \<noteq> 0x2E) (d @ replicate k 0x20 @ ext) = d @ replicate k 0x20"
    using d takeWhile_no_dot [of "d @ replicate k 0x20" ext] by (cases ext) auto
  then have "basename_stem (d @ replicate k 0x20 @ ext) = map to_ascii_uppercase d"
    using trim trim_spaces [of d k] by (simp add: basename_stem_def)
  then show "validate_windows_basename (d @ replicate k 0x20 @ ext) \<noteq> Inr ()"
    using d by (simp add: validate_windows_basename_def)
qed (auto simp: validate_windows_basename_def list_ex_iff is_ascii_str_def is_ascii_char_def list_all_iff
      not_le split: if_splits)

end
