(* ===== verification/Utf16.thy ===== *)
theory Utf16
  imports Xlfn_Common Errors
begin

text \<open>
  The UTF-16 boundary of \<open>crates/xlfn/src/utf16.rs\<close>: borrowing counted strings, the planned
  strict decoder with its two fixed-width fast paths, the length computations that never
  decode, ASCII-folded comparison and the counted encoder. Unsafe writes are modelled with
  their capacity: a write outside the planned slice is the value \<open>Aborts\<close>, and the theory
  shows that no input reaches it. Sums in \<open>u16\<close> and \<open>u8\<close> abort on overflow.
\<close>

section \<open>Definitions\<close>

definition INLINE_UTF16_CAPACITY :: nat where "INLINE_UTF16_CAPACITY = 64"

subsection \<open>Borrowing a counted string\<close>

text \<open>A pointer is null, misaligned, or gives the count and the units behind it.\<close>

datatype counted_pointer = NullPtr | MisalignedPtr | CountedPtr nat "nat list"

fun borrow_counted :: "counted_pointer \<Rightarrow> string \<Rightarrow> nat list XllResult" where
  "borrow_counted NullPtr argument = Inl (Input argument NullPointer)"
| "borrow_counted MisalignedPtr argument =
     Inl (Input argument (Malformed ''misaligned string pointer''))"
| "borrow_counted (CountedPtr count payload) argument =
     (if count > EXCEL_STRING_LIMIT
      then Inl (Input argument (TooLarge EXCEL_STRING_LIMIT count))
      else Inr (take count payload))"

subsection \<open>The planned decoder\<close>

function chunks :: "nat \<Rightarrow> 'a list \<Rightarrow> 'a list list" where
  "chunks n [] = []"
| "chunks n (x # xs) = (x # take (n - 1) xs) # chunks n (drop (n - 1) xs)"
  by pat_completeness auto
termination by (relation "measure (length \<circ> snd)") auto

text \<open>A sum in an integer type with \<open>bound\<close> values: an overflow does not return.\<close>

definition sum_below :: "nat \<Rightarrow> nat list \<Rightarrow> nat run" where
  "sum_below bound xs = (if sum_list xs < bound then Returns (sum_list xs) else Aborts)"

definition chunked_sum :: "nat \<Rightarrow> ('a \<Rightarrow> nat) \<Rightarrow> 'a list \<Rightarrow> nat run" where
  "chunked_sum bound f xs =
     fold (\<lambda>c acc. bind_run acc (\<lambda>a. bind_run (sum_below bound (map f c)) (\<lambda>b. Returns (a + b))))
       (chunks 64 xs) (Returns 0)"

definition unit_utf8_len :: "nat \<Rightarrow> nat" where
  "unit_utf8_len u = 1 + of_bool (u \<ge> 0x80) + of_bool (u \<ge> 0x800) - of_bool (0xD800 \<le> u \<and> u \<le> 0xDFFF)"

definition decoder_new :: "nat list \<Rightarrow> nat run" where
  "decoder_new units = chunked_sum (2 ^ 16) unit_utf8_len units"

definition scalar_bytes :: "nat \<Rightarrow> nat list" where
  "scalar_bytes c =
     (if c \<le> 0x7F then [c mod 256]
      else if c \<le> 0x7FF then [(0xC0 OR drop_bit 6 c) mod 256, (0x80 OR (c AND 0x3F)) mod 256]
      else if c \<le> 0xFFFF then
        [(0xE0 OR drop_bit 12 c) mod 256, (0x80 OR (drop_bit 6 c AND 0x3F)) mod 256,
         (0x80 OR (c AND 0x3F)) mod 256]
      else
        [(0xF0 OR drop_bit 18 c) mod 256, (0x80 OR (drop_bit 12 c AND 0x3F)) mod 256,
         (0x80 OR (drop_bit 6 c AND 0x3F)) mod 256, (0x80 OR (c AND 0x3F)) mod 256])"

definition decode_three_byte_bmp :: "nat list \<Rightarrow> nat list" where
  "decode_three_byte_bmp units =
     concat (map (\<lambda>u. [(0xE0 OR drop_bit 12 u) mod 256, (0x80 OR (drop_bit 6 u AND 0x3F)) mod 256,
                       (0x80 OR (u AND 0x3F)) mod 256]) units)"

fun decode_loop :: "nat \<Rightarrow> string \<Rightarrow> (nat + nat) list \<Rightarrow> nat list \<Rightarrow> nat list XllResult run" where
  "decode_loop planned argument [] written = Returns (Inr written)"
| "decode_loop planned argument (Inl e # rs) written = Returns (Inl (Input argument InvalidUtf16))"
| "decode_loop planned argument (Inr c # rs) written =
     (if length written + length (scalar_bytes c) \<le> planned
      then decode_loop planned argument rs (written @ scalar_bytes c) else Aborts)"

definition decode_into :: "nat list \<Rightarrow> nat \<Rightarrow> nat \<Rightarrow> string \<Rightarrow> nat list XllResult run" where
  "decode_into units utf8_len capacity argument =
     (if capacity < utf8_len then Aborts
      else if utf8_len = length units then Returns (Inr (map (\<lambda>u. u mod 256) units))
      else if length units * 3 = utf8_len then Returns (Inr (decode_three_byte_bmp units))
      else decode_loop utf8_len argument (decode_utf16 units) [])"

definition decode_owned :: "nat list \<Rightarrow> string \<Rightarrow> nat list XllResult run" where
  "decode_owned units argument =
     bind_run (decoder_new units) (\<lambda>utf8_len. decode_into units utf8_len utf8_len argument)"

subsection \<open>Lengths without decoding\<close>

definition byte_units :: "nat \<Rightarrow> nat" where
  "byte_units b = of_bool (b AND 0xC0 \<noteq> 0x80) + of_bool (b \<ge> 0xF0)"

definition non_ascii_utf16_len :: "ustr \<Rightarrow> nat run" where
  "non_ascii_utf16_len text = chunked_sum (2 ^ 8) byte_units (as_bytes text)"

definition checked_utf16_len :: "ustr \<Rightarrow> string \<Rightarrow> nat \<Rightarrow> nat XllResult run" where
  "checked_utf16_len text argument limit =
     bind_run (if is_ascii_str text then Returns (str_len text) else non_ascii_utf16_len text)
       (\<lambda>len. Returns (if len > limit then Inl (Input argument (TooLarge limit len)) else Inr len))"

definition validate_utf16_limit :: "ustr \<Rightarrow> string \<Rightarrow> nat \<Rightarrow> unit XllResult run" where
  "validate_utf16_limit text argument limit =
     (if str_len text \<le> limit then Returns (Inr ())
      else bind_run (checked_utf16_len text argument limit)
        (\<lambda>r. Returns (case r of Inl e \<Rightarrow> Inl e | Inr _ \<Rightarrow> Inr ())))"

subsection \<open>Comparison and encoding\<close>

definition fold_ascii :: "nat \<Rightarrow> nat" where
  "fold_ascii u = (if 0x41 \<le> u \<and> u \<le> 0x5A then u + (0x61 - 0x41) else u)"

definition utf16_eq_ignore_ascii_case :: "nat list \<Rightarrow> nat list \<Rightarrow> bool" where
  "utf16_eq_ignore_ascii_case l r \<longleftrightarrow>
     length l = length r \<and> list_all (\<lambda>(a, b). fold_ascii a = fold_ascii b) (zip l r)"

text \<open>
  The counted encoder returns the count and the units. \<open>capacity\<close> is what it reserved; the
  payload written through the raw pointer must fit.
\<close>

definition encode_counted :: "ustr \<Rightarrow> string \<Rightarrow> nat \<Rightarrow> nat list XllResult run" where
  "encode_counted text argument limit0 =
     (let limit = min limit0 65535;
          plan = (if str_len text < INLINE_UTF16_CAPACITY \<and> str_len text \<le> limit
                  then Returns (Inr (str_len text + 1, is_ascii_str text))
                  else bind_run (checked_utf16_len text argument limit)
                    (\<lambda>r. Returns (case r of Inl e \<Rightarrow> Inl e
                                          | Inr len \<Rightarrow> Inr (len + 1, str_len text = len))))
      in bind_run plan (\<lambda>p. case p of
           Inl e \<Rightarrow> Returns (Inl e)
         | Inr (capacity, ascii) \<Rightarrow>
             if ascii then Returns (Inr (str_len text mod 2 ^ 16 # as_bytes text))
             else let units = encode_utf16 text in
               if length units + 1 \<le> capacity
               then Returns (Inr (length units mod 2 ^ 16 # units)) else Aborts))"

section \<open>Lengths\<close>

lemma concat_chunks: "concat (chunks n xs) = xs"
  by (induction n xs rule: chunks.induct) auto

lemma chunk_length: "c \<in> set (chunks n xs) \<Longrightarrow> 0 < n \<Longrightarrow> length c \<le> n"
  by (induction n xs rule: chunks.induct) auto

lemma sum_list_bound: "(\<And>x. x \<in> set xs \<Longrightarrow> f x \<le> b) \<Longrightarrow> sum_list (map f xs) \<le> b * length xs"
  by (induction xs) (auto simp: add_mono)

lemma chunked_sum_eq:
  assumes "\<And>x. x \<in> set xs \<Longrightarrow> f x \<le> b" "b * 64 < bound"
  shows "chunked_sum bound f xs = Returns (sum_list (map f xs))"
proof -
  have chunk: "sum_below bound (map f c) = Returns (sum_list (map f c))" if "c \<in> set (chunks 64 xs)" for c
  proof -
    have "set c \<subseteq> set xs" using that concat_chunks [of 64 xs] by (metis UN_upper set_concat)
    then have "sum_list (map f c) \<le> b * length c" using assms(1) by (intro sum_list_bound) auto
    also have "\<dots> \<le> b * 64" using chunk_length [OF that] by simp
    finally show ?thesis using assms(2) by (simp add: sum_below_def)
  qed
  have "fold (\<lambda>c acc. bind_run acc (\<lambda>a. bind_run (sum_below bound (map f c)) (\<lambda>b. Returns (a + b)))) cs (Returns a)
      = Returns (a + sum_list (map f (concat cs)))" if "set cs \<subseteq> set (chunks 64 xs)" for cs a
    using that by (induction cs arbitrary: a) (auto simp: chunk)
  from this [of "chunks 64 xs" 0] show ?thesis
    by (simp add: chunked_sum_def concat_chunks)
qed

lemma unit_utf8_len_cases:
  "unit_utf8_len u = (if u < 0x80 then 1 else if u < 0x800 then 2
     else if 0xD800 \<le> u \<and> u \<le> 0xDFFF then 2 else 3)"
  by (simp add: unit_utf8_len_def)

lemma decoder_new_eq: "decoder_new units = Returns (sum_list (map unit_utf8_len units))"
  unfolding decoder_new_def by (rule chunked_sum_eq [where b = 3]) (auto simp: unit_utf8_len_cases)


section \<open>The bytes of a scalar\<close>

lemma low_six: "(c AND 0x3F :: nat) = c mod 64"
proof -
  have "c AND mask 6 = c mod 2 ^ 6" by (simp add: take_bit_eq_mask [symmetric] take_bit_eq_mod)
  then show ?thesis by (simp add: mask_eq_exp_minus_1)
qed

lemma lead_byte:
  "x < 0x20 \<Longrightarrow> 0xC0 OR x = 0xC0 + (x::nat)" "x < 0x10 \<Longrightarrow> 0xE0 OR x = 0xE0 + x"
  "x < 0x08 \<Longrightarrow> 0xF0 OR x = 0xF0 + x" "x < 0x40 \<Longrightarrow> 0x80 OR x = 0x80 + x"
  using or_below [of x 5 6] or_below [of x 4 14] or_below [of x 3 30] or_below [of x 6 2] by simp_all

lemmas utf8_bits = drop_bit_eq_div low_six lead_byte div_less_dividend

lemma three_bytes:
  assumes "0x800 \<le> c" "c < 0x10000"
  shows "[(0xE0 OR drop_bit 12 c) mod 256, (0x80 OR (drop_bit 6 c AND 0x3F)) mod 256,
          (0x80 OR (c AND 0x3F)) mod 256] = encode_utf8_char c"
proof -
  have "c div 4096 < 16" using assms(2) by simp
  then show ?thesis using assms by (simp add: encode_utf8_char_def utf8_bits)
qed

lemma scalar_bytes_eq:
  assumes "c < 0x110000"
  shows "scalar_bytes c = encode_utf8_char c"
proof -
  consider "c < 0x80" | "0x80 \<le> c" "c < 0x800" | "0x800 \<le> c" "c < 0x10000" | "0x10000 \<le> c"
    by linarith
  then show ?thesis
  proof cases
    case 1
    then show ?thesis by (simp add: scalar_bytes_def encode_utf8_char_def)
  next
    case 2
    then have "c div 64 < 32" by simp
    then show ?thesis using 2 by (simp add: scalar_bytes_def encode_utf8_char_def utf8_bits)
  next
    case 3
    then show ?thesis using three_bytes [OF 3] by (simp add: scalar_bytes_def)
  next
    case 4
    have "c div 262144 < 8" using assms by simp
    then show ?thesis using 4 by (simp add: scalar_bytes_def encode_utf8_char_def utf8_bits)
  qed
qed

section \<open>The decoder\<close>

abbreviation "units_ok us \<equiv> list_all (\<lambda>u. u < (0x10000 :: nat)) us"

definition decoded :: "nat list \<Rightarrow> string \<Rightarrow> nat list XllResult" where
  "decoded us argument =
     (case from_utf16 us of Some s \<Rightarrow> Inr (as_bytes s) | None \<Rightarrow> Inl (Input argument InvalidUtf16))"

text \<open>
  The general path writes what the reference decoder yields, and never past the plan: what
  is written plus the plan of what is left stays below the planned length.
\<close>

lemma decode_loop_eq:
  assumes "units_ok us" "length written + sum_list (map unit_utf8_len us) \<le> planned"
  shows "decode_loop planned argument (decode_utf16 us) written =
    Returns (case from_utf16 us of Some s \<Rightarrow> Inr (written @ as_bytes s)
                                 | None \<Rightarrow> Inl (Input argument InvalidUtf16))"
  using assms
proof (induction us arbitrary: written rule: decode_utf16.induct)
  case (2 u us)
  show ?case
  proof (cases "u < 0xD800 \<or> 0xDFFF < u")
    case True
    have "length (scalar_bytes u) = unit_utf8_len u"
      using True "2.prems"(1) by (auto simp: scalar_bytes_eq len_utf8_def unit_utf8_len_cases)
    then show ?thesis
      using True "2.prems" "2.IH"(1) [OF True, of "written @ scalar_bytes u"]
      by (auto simp: from_utf16_def as_bytes_Cons scalar_bytes_eq split: option.splits)
  next
    case False
    show ?thesis
    proof (cases us)
      case Nil
      then show ?thesis using False by (auto simp: from_utf16_def)
    next
      case (Cons v vs)
      show ?thesis
      proof (cases "u < 0xDC00 \<and> 0xDC00 \<le> v \<and> v \<le> 0xDFFF")
        case True
        let ?c = "0x10000 + (u - 0xD800) * 1024 + (v - 0xDC00)"
        have c: "?c < 0x110000" using True False by auto
        have "length (scalar_bytes ?c) = unit_utf8_len u + unit_utf8_len v"
          using True False c by (auto simp: scalar_bytes_eq len_utf8_def unit_utf8_len_cases)
        then show ?thesis
          using True False Cons c "2.prems" "2.IH"(3) [of v vs "written @ scalar_bytes ?c"]
          by (auto simp: from_utf16_def as_bytes_Cons scalar_bytes_eq split: option.splits)
      next
        case False2: False
        then show ?thesis using False Cons by (auto simp: from_utf16_def)
      qed
    qed
  qed
qed (simp add: from_utf16_def as_bytes_def)

lemma plan_minimum: "length us \<le> sum_list (map unit_utf8_len us)"
  by (induction us) (auto simp: unit_utf8_len_cases)

lemma plan_ascii: "sum_list (map unit_utf8_len us) = length us \<Longrightarrow> list_all (\<lambda>u. u < 0x80) us"
proof (induction us)
  case (Cons u us)
  then show ?case using plan_minimum [of us] by (auto simp: unit_utf8_len_cases [of u] split: if_splits)
qed simp

lemma plan_maximum: "sum_list (map unit_utf8_len us) \<le> length us * 3"
  by (induction us) (auto simp: unit_utf8_len_cases)

lemma plan_bmp:
  "sum_list (map unit_utf8_len us) = length us * 3 \<Longrightarrow>
     list_all (\<lambda>u. 0x800 \<le> u \<and> (u < 0xD800 \<or> 0xDFFF < u)) us"
proof (induction us)
  case (Cons u us)
  then show ?case using plan_maximum [of us] by (auto simp: unit_utf8_len_cases [of u] split: if_splits)
qed simp

lemma decode_utf16_scalars:
  "list_all (\<lambda>u. u < 0xD800 \<or> 0xDFFF < u) us \<Longrightarrow> decode_utf16 us = map Inr us"
  by (induction us) auto

lemma decode_ascii:
  assumes "list_all (\<lambda>u. u < 0x80) us"
  shows "decoded us argument = Inr (map (\<lambda>u. u mod 256) us)"
proof -
  have "decode_utf16 us = map Inr us"
    using assms by (intro decode_utf16_scalars) (auto simp: list_all_iff)
  moreover have "as_bytes us = us"
    using assms ascii_lengths [of us] by (simp add: is_ascii_str_def is_ascii_char_def [abs_def])
  moreover have "map (\<lambda>u. u mod 256) us = us"
    using assms by (induction us) auto
  ultimately show ?thesis by (simp add: decoded_def from_utf16_def)
qed

lemma decode_bmp:
  assumes "list_all (\<lambda>u. 0x800 \<le> u \<and> (u < 0xD800 \<or> 0xDFFF < u)) us" "units_ok us"
  shows "decoded us argument = Inr (decode_three_byte_bmp us)"
proof -
  have "decode_utf16 us = map Inr us"
    using assms(1) by (intro decode_utf16_scalars) (auto simp: list_all_iff)
  moreover have "decode_three_byte_bmp us = as_bytes us"
    using assms by (induction us) (auto simp: decode_three_byte_bmp_def as_bytes_def three_bytes)
  ultimately show ?thesis by (simp add: decoded_def from_utf16_def)
qed

lemma decode_owned_eq:
  assumes "units_ok us"
  shows "decode_owned us argument = Returns (decoded us argument)"
proof -
  let ?n = "sum_list (map unit_utf8_len us)"
  have "decode_into us ?n ?n argument = Returns (decoded us argument)"
    using decode_ascii [OF plan_ascii, of us argument] decode_bmp [OF plan_bmp assms, of argument]
      decode_loop_eq [OF assms, of "[]" ?n argument]
    by (auto simp: decode_into_def decoded_def split: option.splits)
  then show ?thesis by (simp add: decode_owned_def decoder_new_eq)
qed


section \<open>Counting without decoding\<close>

lemma high_two:
  assumes "b < 256"
  shows "(b AND 0xC0 \<noteq> 0x80) = (b < 0x80 \<or> 0xC0 \<le> (b::nat))"
proof -
  have "b AND push_bit 6 (mask 2) = push_bit 6 (take_bit 2 (drop_bit 6 b))"
    by (rule bit_eqI) (auto simp: bit_simps)
  moreover have "push_bit 6 (mask 2) = (0xC0 :: nat)"
    by (simp add: push_bit_eq_mult mask_eq_exp_minus_1)
  ultimately have "b AND 0xC0 = b div 64 mod 4 * 64"
    by (simp add: push_bit_eq_mult take_bit_eq_mod drop_bit_eq_div)
  also have "\<dots> = b div 64 * 64" using assms by (simp add: mod_less)
  finally have "(b AND 0xC0 = 0x80) = (b div 64 = 2)" by simp
  then show ?thesis by auto
qed

lemma byte_units_cases:
  "b < 256 \<Longrightarrow> byte_units b = (if b < 0x80 then 1 else if b < 0xC0 then 0 else if b < 0xF0 then 1 else 2)"
  by (simp add: byte_units_def high_two)

lemma byte_units_char:
  assumes "c < 0x110000"
  shows "sum_list (map byte_units (encode_utf8_char c)) = len_utf16 c"
proof -
  have cont: "byte_units (0x80 + x mod 64) = 0" for x :: nat
    using byte_units_cases [of "0x80 + x mod 64"] by simp
  have "c < 0x800 \<Longrightarrow> 0x80 \<le> c \<Longrightarrow> byte_units (0xC0 + c div 64) = 1"
    using byte_units_cases [of "0xC0 + c div 64"] by simp
  moreover have "c < 0x10000 \<Longrightarrow> byte_units (0xE0 + c div 4096) = 1"
    using byte_units_cases [of "0xE0 + c div 4096"] by simp
  moreover have "byte_units (0xF0 + c div 262144) = 2"
    using byte_units_cases [of "0xF0 + c div 262144"] assms by simp
  ultimately show ?thesis
    by (auto simp: encode_utf8_char_def len_utf16_def byte_units_cases cont)
qed

lemma byte_units_str:
  "is_str s \<Longrightarrow> sum_list (map byte_units (as_bytes s)) = length (encode_utf16 s)"
  by (induction s) (auto simp: as_bytes_def encode_utf16_def is_str_def byte_units_char is_scalar_def)

lemma byte_units_le: "byte_units b \<le> 2"
  by (simp add: byte_units_def)

lemma non_ascii_utf16_len_eq:
  "is_str s \<Longrightarrow> non_ascii_utf16_len s = Returns (length (encode_utf16 s))"
  unfolding non_ascii_utf16_len_def
  by (subst chunked_sum_eq [where b = 2]) (simp_all add: byte_units_le byte_units_str)

lemma checked_utf16_len_eq:
  assumes "is_str s"
  shows "checked_utf16_len s argument limit = Returns
    (if length (encode_utf16 s) > limit then Inl (Input argument (TooLarge limit (length (encode_utf16 s))))
     else Inr (length (encode_utf16 s)))"
  using assms ascii_lengths [of s] by (simp add: checked_utf16_len_def non_ascii_utf16_len_eq)

lemma encode_counted_eq:
  assumes "is_str s"
  shows "encode_counted s argument limit = Returns
    (let n = length (encode_utf16 s); l = min limit 65535 in
     if n > l then Inl (Input argument (TooLarge l n)) else Inr (n # encode_utf16 s))"
proof -
  have le: "length (encode_utf16 s) \<le> str_len s" by (rule utf16_le_utf8)
  show ?thesis
  proof (cases "is_ascii_str s")
    case True
    then have "str_len s = length s" "as_bytes s = s" "encode_utf16 s = s"
      using ascii_lengths by simp_all
    then show ?thesis
      using True by (auto simp: encode_counted_def Let_def checked_utf16_len_eq [OF assms] min_def)
  next
    case False
    then have "str_len s \<noteq> length (encode_utf16 s)"
      using encode_utf16_ascii_iff [of s] by simp
    then show ?thesis
      using False le by (auto simp: encode_counted_def Let_def checked_utf16_len_eq [OF assms] min_def)
  qed
qed

section \<open>Folding\<close>

definition eq_ignore_ascii_case :: "ustr \<Rightarrow> ustr \<Rightarrow> bool" where
  "eq_ignore_ascii_case s t \<longleftrightarrow> map fold_ascii s = map fold_ascii t"

lemma fold_ascii_encode:
  "map fold_ascii (encode_utf16 s) = encode_utf16 (map fold_ascii s)"
  by (induction s) (auto simp: encode_utf16_def encode_utf16_char_def fold_ascii_def)

lemma is_str_fold: "is_str s \<Longrightarrow> is_str (map fold_ascii s)"
  by (auto simp: is_str_def list_all_iff is_scalar_def fold_ascii_def)

lemma utf16_eq_map:
  "utf16_eq_ignore_ascii_case l r \<longleftrightarrow> map fold_ascii l = map fold_ascii r"
  by (auto simp: utf16_eq_ignore_ascii_case_def list_all_length list_eq_iff_nth_eq)

section \<open>What the boundary promises\<close>

text \<open>
  C24: the planned decoder is the strict UTF-16 decoder. On any list of code units,
  \<open>decode_owned\<close> returns the UTF-8 bytes of the text that the standard library's decoder
  yields, or the typed error if a surrogate is unpaired. In particular both fast paths
  agree with the general path, the chunked plan does not overflow its 16-bit subtotals,
  and no write leaves the planned slice, also on inputs that are rejected half-way.
\<close>

theorem decode_owned_is_strict_utf16:
  assumes "list_all (\<lambda>u. u < 0x10000) units"
  shows "decode_owned units argument =
    Returns (case from_utf16 units of Some s \<Rightarrow> Inr (as_bytes s)
                                    | None \<Rightarrow> Inl (Input argument InvalidUtf16))"
  using decode_owned_eq [OF assms] by (simp add: decoded_def)

theorem decode_owned_is_strict_utf16_witness:
  "decode_owned [0x41, 0xD83D, 0xDE00] ''x'' = Returns (Inr [0x41, 0xF0, 0x9F, 0x98, 0x80]) \<and>
   decode_owned [0x41, 0xD83D] ''x'' = Returns (Inl (Input ''x'' InvalidUtf16))"
  using decode_owned_is_strict_utf16 [of "[0x41, 0xD83D, 0xDE00]" "''x''"]
    decode_owned_is_strict_utf16 [of "[0x41, 0xD83D]" "''x''"]
  by (simp add: from_utf16_def as_bytes_def encode_utf8_char_def)

text \<open>
  Counting is exact. For every string, the length computed from its UTF-8 bytes alone
  (vectorised, in 8-bit subtotals that do not overflow) is the number of UTF-16 units of
  its encoding; the limit is enforced exactly, and the byte-length shortcut of
  \<open>validate_utf16_limit\<close> accepts nothing the exact count would reject.
\<close>

lemma utf16_length_exact:
  assumes "is_str s"
  shows "checked_utf16_len s argument limit = Returns
      (if length (encode_utf16 s) > limit then Inl (Input argument (TooLarge limit (length (encode_utf16 s))))
       else Inr (length (encode_utf16 s))) \<and>
    validate_utf16_limit s argument limit = Returns
      (if length (encode_utf16 s) > limit then Inl (Input argument (TooLarge limit (length (encode_utf16 s))))
       else Inr ())"
  using utf16_le_utf8 [of s]
  by (auto simp: validate_utf16_limit_def checked_utf16_len_eq [OF assms])

text \<open>
  C26: counted strings round-trip. \<open>encode_counted\<close> returns for every text. Within Excel's
  limit the result is a count followed by exactly that many units, and borrowing it and
  decoding the units returns the UTF-8 bytes of the text; a text of more units than the
  limit, and no other, is refused with both numbers.
\<close>

theorem counted_string_roundtrip:
  assumes "is_str s" "limit \<le> EXCEL_STRING_LIMIT"
  shows "if limit < length (encode_utf16 s)
    then encode_counted s argument limit
      = Returns (Inl (Input argument (TooLarge limit (length (encode_utf16 s)))))
    else \<exists>count payload. encode_counted s argument limit = Returns (Inr (count # payload)) \<and>
      count = length payload \<and>
      borrow_counted (CountedPtr count (payload @ rest)) name = Inr payload \<and>
      decode_owned payload name = Returns (Inr (as_bytes s))"
proof (cases "length (encode_utf16 s) \<le> limit")
  case True
  have "units_ok (encode_utf16 s) \<and> from_utf16 (encode_utf16 s) = Some s"
    using utf16.dec_enc [OF assms(1)] by (auto split: if_splits)
  then have "decode_owned (encode_utf16 s) name = Returns (Inr (as_bytes s))"
    using decode_owned_eq [of "encode_utf16 s" name] by (simp add: decoded_def)
  moreover have "encode_counted s argument limit = Returns (Inr (length (encode_utf16 s) # encode_utf16 s))"
    using True assms by (auto simp: encode_counted_eq Let_def EXCEL_STRING_LIMIT_def)
  ultimately show ?thesis using True assms(2) by simp
next
  case False
  then show ?thesis using assms by (auto simp: encode_counted_eq Let_def EXCEL_STRING_LIMIT_def min_def)
qed

theorem counted_string_roundtrip_witness:
  "\<exists>count payload. encode_counted [0x48, 0x1F600] ''x'' 3 = Returns (Inr (count # payload)) \<and>
   decode_owned payload ''x'' = Returns (Inr (as_bytes [0x48, 0x1F600]))"
  using counted_string_roundtrip [of "[0x48, 0x1F600]" 3 "''x''" "[]" "''x''"]
  by (auto simp: EXCEL_STRING_LIMIT_def is_str_def is_scalar_def encode_utf16_def encode_utf16_char_def)

text \<open>
  Comparing code units is comparing text. For two strings, the unit-wise comparison
  with ASCII folding accepts their encodings exactly when the strings are equal up to the
  case of ASCII letters.
\<close>

lemma utf16_comparison_is_text_comparison:
  assumes "is_str s" "is_str t"
  shows "utf16_eq_ignore_ascii_case (encode_utf16 s) (encode_utf16 t) \<longleftrightarrow> eq_ignore_ascii_case s t"
  using utf16.enc_inj [OF is_str_fold [OF assms(1)] is_str_fold [OF assms(2)]]
  by (auto simp: utf16_eq_map fold_ascii_encode eq_ignore_ascii_case_def)

end
