(* ===== verification/Serial_Date.thy ===== *)
theory Serial_Date
  imports Errors Complex_Main
begin

text \<open>
  Excel serial dates (\<open>crates/xlfn/src/value/date.rs\<close>): the two epochs, Excel's fictitious
  1900-02-29 and the conversion between serials and Gregorian dates of the years 1 to 9999.
  A finite \<open>f64\<close> is its rational value; the sums of the code are exact wherever they are
  compared with the calendar range, because the addends are integers below \<open>2^53\<close> in
  magnitude or the sum is far outside the range. Integer types are \<open>int\<close>: no value of the
  code comes near the bounds of \<open>i32\<close> and \<open>i16\<close>.
\<close>

section \<open>Definitions\<close>

datatype ExcelDateSystem = Workbook | Windows1900 | Mac1904

datatype f64 = Finite rat | NotFinite

record ExcelSerialDate =
  serial :: rat
  date_system :: ExcelDateSystem

definition serial_date_new :: "f64 \<Rightarrow> ExcelDateSystem \<Rightarrow> ExcelSerialDate XllResult" where
  "serial_date_new s sys =
     (case s of NotFinite \<Rightarrow> Inl (Input ''date'' NonFinite)
              | Finite q \<Rightarrow> Inr \<lparr>serial = q, date_system = sys\<rparr>)"

definition is_leap_year :: "int \<Rightarrow> bool" where
  "is_leap_year y \<longleftrightarrow> y mod 4 = 0 \<and> (y mod 100 \<noteq> 0 \<or> y mod 400 = 0)"

definition days_before_year :: "int \<Rightarrow> int" where
  "days_before_year y = (let previous = y - 1 in
     365 * previous + previous div 4 - previous div 100 + previous div 400)"

definition days_in_month :: "int \<Rightarrow> int \<Rightarrow> int" where
  "days_in_month y m =
     (if m = 2 then (if is_leap_year y then 29 else 28)
      else if m = 4 \<or> m = 6 \<or> m = 9 \<or> m = 11 then 30 else 31)"

definition DAYS_BEFORE_MONTH :: "int list" where
  "DAYS_BEFORE_MONTH = [0, 31, 59, 90, 120, 151, 181, 212, 243, 273, 304, 334]"

definition MARCH_1900 :: int where
  "MARCH_1900 = days_before_year 1900 + 59"

definition date_epoch :: "ExcelDateSystem \<Rightarrow> int XllResult" where
  "date_epoch sys = (case sys of
       Windows1900 \<Rightarrow> Inr (days_before_year 1900 - 1)
     | Mac1904 \<Rightarrow> Inr (days_before_year 1904)
     | Workbook \<Rightarrow> Inl (Input ''date''
         (Malformed ''resolve the workbook date system before calendar conversion'')))"

definition date_out_of_range :: XllError where
  "date_out_of_range = Input ''date'' OutOfRange"

definition from_ymd :: "int \<Rightarrow> int \<Rightarrow> int \<Rightarrow> ExcelDateSystem \<Rightarrow> ExcelSerialDate XllResult" where
  "from_ymd y m d sys =
     (case date_epoch sys of
        Inl e \<Rightarrow> Inl e
      | Inr epoch \<Rightarrow>
          if \<not> (1 \<le> y \<and> y \<le> 9999) \<or> \<not> (1 \<le> m \<and> m \<le> 12) \<or> d < 1 \<or> d > days_in_month y m
          then Inl date_out_of_range
          else
            let ordinal = days_before_year y + DAYS_BEFORE_MONTH ! nat (m - 1)
                  + of_bool (m > 2 \<and> is_leap_year y) + d - 1;
                fictitious_day = of_bool (sys = Windows1900 \<and> ordinal \<ge> MARCH_1900)
            in serial_date_new (Finite (of_int (ordinal - epoch + fictitious_day))) sys)"

definition is_fictitious_1900_leap_day :: "ExcelSerialDate \<Rightarrow> bool" where
  "is_fictitious_1900_leap_day s \<longleftrightarrow> date_system s = Windows1900 \<and> \<lfloor>serial s\<rfloor> = 60"

text \<open>The two loops of \<open>calendar_day\<close>: the bisection for the year and the walk over the months.\<close>

function find_year :: "int \<Rightarrow> int \<Rightarrow> int \<Rightarrow> int" where
  "find_year ordinal year end_year =
     (if year + 1 < end_year then
        let middle = year + (end_year - year) div 2 in
        if days_before_year middle \<le> ordinal then find_year ordinal middle end_year
        else find_year ordinal year middle
      else year)"
  by pat_completeness auto
termination by (relation "measure (\<lambda>(_, year, end_year). nat (end_year - year))") auto

lemma days_in_month_ge: "28 \<le> days_in_month y m"
  by (simp add: days_in_month_def)

function find_month :: "int \<Rightarrow> int \<Rightarrow> int \<Rightarrow> int \<times> int" where
  "find_month year month day =
     (if day \<ge> days_in_month year month
      then find_month year (month + 1) (day - days_in_month year month)
      else (month, day))"
  by pat_completeness auto
termination
proof (relation "measure (\<lambda>(_, _, day). nat day)")
  show "((year, month + 1, day - days_in_month year month), year, month, day) \<in> measure (\<lambda>(_, _, day). nat day)"
    if "days_in_month year month \<le> day" for year month day
    using that days_in_month_ge [of year month] by simp
qed simp

declare find_year.simps [simp del] find_month.simps [simp del]

definition calendar_day :: "ExcelSerialDate \<Rightarrow> (int \<times> int \<times> int) XllResult" where
  "calendar_day s =
     (case date_epoch (date_system s) of
        Inl e \<Rightarrow> Inl e
      | Inr epoch \<Rightarrow>
          let serial_day = \<lfloor>serial s\<rfloor> in
          if is_fictitious_1900_leap_day s
          then Inl (Input ''date'' (Malformed ''1900-02-29 is not a Gregorian date''))
          else
            let fictitious_day = of_bool (date_system s = Windows1900 \<and> serial_day \<ge> 61);
                ordinal = serial_day + (epoch - fictitious_day) in
            if \<not> (0 \<le> ordinal \<and> ordinal < days_before_year 10000) then Inl date_out_of_range
            else let year = find_year ordinal 1 10000;
                     (month, day) = find_month year 1 (ordinal - days_before_year year)
                 in Inr (year, month, day + 1))"

definition to_ymd_with_argument :: "ExcelSerialDate \<Rightarrow> string \<Rightarrow> (int \<times> int \<times> int) XllResult" where
  "to_ymd_with_argument s argument =
     (case calendar_day s of
        Inl (Input _ reason) \<Rightarrow> Inl (Input argument reason)
      | Inl e \<Rightarrow> Inl e
      | Inr d \<Rightarrow> Inr d)"

definition to_ymd :: "ExcelSerialDate \<Rightarrow> (int \<times> int \<times> int) XllResult" where
  "to_ymd s = to_ymd_with_argument s ''date''"

definition with_date_system :: "ExcelDateSystem \<Rightarrow> ExcelSerialDate \<Rightarrow> ExcelSerialDate" where
  "with_date_system sys s = s\<lparr>date_system := sys\<rparr>"

section \<open>The calendar\<close>

text \<open>The Gregorian dates the code covers, and the number of days before one.\<close>

definition valid_ymd :: "int \<Rightarrow> int \<Rightarrow> int \<Rightarrow> bool" where
  "valid_ymd y m d \<longleftrightarrow> 1 \<le> y \<and> y \<le> 9999 \<and> 1 \<le> m \<and> m \<le> 12 \<and> 1 \<le> d \<and> d \<le> days_in_month y m"

definition month_start :: "int \<Rightarrow> int \<Rightarrow> int" where
  "month_start y m = DAYS_BEFORE_MONTH ! nat (m - 1) + of_bool (m > 2 \<and> is_leap_year y)"

definition ordinal_of :: "int \<Rightarrow> int \<Rightarrow> int \<Rightarrow> int" where
  "ordinal_of y m d = days_before_year y + month_start y m + d - 1"

definition year_length :: "int \<Rightarrow> int" where
  "year_length y = 365 + of_bool (is_leap_year y)"

lemma div_step: "0 < k \<Longrightarrow> (p + 1) div k = p div k + of_bool ((p + 1) mod k = (0::int))" for p :: int
proof -
  assume k: "0 < k"
  have "p + 1 = (p mod k + 1) + k * (p div k)"
    by (metis add.assoc add.commute mod_mult_div_eq)
  then have d: "(p + 1) div k = p div k + (p mod k + 1) div k"
    using k by (metis add.commute div_mult_self2 less_irrefl)
  have m: "(p + 1) mod k = (p mod k + 1) mod k" by (simp add: mod_simps)
  have r: "0 \<le> p mod k" "p mod k < k" using k by simp_all
  show ?thesis
  proof (cases "p mod k + 1 = k")
    case True
    then show ?thesis using d m k by simp
  next
    case False
    then have "(p mod k + 1) div k = 0" "(p mod k + 1) mod k = p mod k + 1"
      using r by (simp_all add: div_pos_pos_trivial mod_pos_pos_trivial)
    then show ?thesis using d m r by simp
  qed
qed

lemma days_before_next_year: "days_before_year (y + 1) = days_before_year y + year_length y"
proof -
  have "y mod 400 = 0 \<Longrightarrow> y mod 100 = 0" "y mod 100 = 0 \<Longrightarrow> y mod 4 = 0" by presburger+
  then have leap: "of_bool (y mod 4 = 0) - of_bool (y mod 100 = 0) + of_bool (y mod 400 = 0)
      = (of_bool (is_leap_year y) :: int)"
    by (cases "y mod 4 = 0"; cases "y mod 100 = 0"; cases "y mod 400 = 0") (simp_all add: is_leap_year_def)
  have sum: "365 * y + a' - b' + c' = 365 * (y - 1) + a - b + c + (365 + l)"
    if "a' = a + i" "b' = b + j" "c' = c + k" "i - j + k = l" for a b c a' b' c' i j k l :: int
    using that by simp
  show ?thesis
    unfolding days_before_year_def year_length_def Let_def add_diff_cancel_right'
    by (rule sum [OF _ _ _ leap];
        rule div_step [of _ "y - 1", OF zero_less_numeral, unfolded diff_add_cancel])
qed

lemma year_length_pos: "365 \<le> year_length y"
  by (simp add: year_length_def)

lemma days_before_year_mono:
  assumes "y \<le> z"
  shows "days_before_year y \<le> days_before_year z"
  using assms
proof (induction z rule: int_ge_induct)
  case (step z)
  then show ?case using days_before_next_year [of z] year_length_pos [of z] by simp
qed simp

lemma month_start_next:
  assumes "1 \<le> m" "m < 12"
  shows "month_start y (m + 1) = month_start y m + days_in_month y m"
proof -
  have "m = 1 \<or> m = 2 \<or> m = 3 \<or> m = 4 \<or> m = 5 \<or> m = 6 \<or> m = 7 \<or> m = 8 \<or> m = 9 \<or> m = 10 \<or> m = 11"
    using assms by presburger
  then show ?thesis
    by (elim disjE) (simp_all add: month_start_def days_in_month_def DAYS_BEFORE_MONTH_def)
qed

lemma month_start_first: "month_start y 1 = 0"
  by (simp add: month_start_def DAYS_BEFORE_MONTH_def)

lemma month_end: "month_start y 12 + days_in_month y 12 = year_length y"
  by (simp add: month_start_def days_in_month_def DAYS_BEFORE_MONTH_def year_length_def)


section \<open>The loops find the date\<close>

lemma find_year_bounds:
  assumes "a < b" "days_before_year a \<le> n" "n < days_before_year b"
  shows "a \<le> find_year n a b \<and> find_year n a b < b \<and>
    days_before_year (find_year n a b) \<le> n \<and> n < days_before_year (find_year n a b + 1)"
  using assms
proof (induction n a b rule: find_year.induct)
  case (1 n a b)
  show ?case
  proof (cases "a + 1 < b")
    case True
    let ?m = "a + (b - a) div 2"
    have m: "a < ?m" "?m < b" using True by auto
    show ?thesis
    proof (cases "days_before_year ?m \<le> n")
      case le: True
      then have "find_year n a b = find_year n ?m b"
        using True by (subst find_year.simps) (simp add: Let_def)
      then show ?thesis using "1.IH"(1) [OF True refl le m(2) le "1.prems"(3)] m by simp
    next
      case gt: False
      then have "find_year n a b = find_year n a ?m"
        using True by (subst find_year.simps) (simp add: Let_def)
      then show ?thesis using "1.IH"(2) [OF True refl gt m(1) "1.prems"(2)] gt m by simp
    qed
  next
    case False
    then have "b = a + 1" "find_year n a b = a"
      using "1.prems" by (auto simp: find_year.simps)
    then show ?thesis using "1.prems" by simp
  qed
qed

lemma find_month_bounds:
  assumes "1 \<le> k" "k \<le> 12" "0 \<le> day" "month_start y k + day < year_length y"
    and "find_month y k day = (m, d)"
  shows "1 \<le> m \<and> m \<le> 12 \<and> 0 \<le> d \<and> d < days_in_month y m \<and> month_start y m + d = month_start y k + day"
  using assms
proof (induction y k day arbitrary: m d rule: find_month.induct)
  case (1 y k day)
  show ?case
  proof (cases "day \<ge> days_in_month y k")
    case True
    have k: "k < 12" using True "1.prems" month_end [of y] by (cases "k = 12") auto
    have s: "month_start y (k + 1) = month_start y k + days_in_month y k"
      using month_start_next "1.prems" k by simp
    have "find_month y (k + 1) (day - days_in_month y k) = (m, d)"
      using "1.prems"(5) True by (simp add: find_month.simps [of y k day])
    then have "1 \<le> m \<and> m \<le> 12 \<and> 0 \<le> d \<and> d < days_in_month y m \<and>
        month_start y m + d = month_start y (k + 1) + (day - days_in_month y k)"
      using "1.prems" k s True by (intro "1.IH") auto
    then show ?thesis using s by simp
  next
    case False
    then show ?thesis using "1.prems" by (simp add: find_month.simps [of y k day])
  qed
qed

lemma month_start_mono:
  assumes "1 \<le> m" "m < n" "n \<le> 12"
  shows "month_start y m + days_in_month y m \<le> month_start y n"
  using assms(2,3)
proof (induction n rule: int_gr_induct)
  case base
  then show ?case using month_start_next [of m y] assms(1) by simp
next
  case (step n)
  then show ?case
    using month_start_next [of n y] days_in_month_ge [of y n] assms(1) by simp
qed

lemma month_within_year:
  assumes "1 \<le> m" "m \<le> 12"
  shows "0 \<le> month_start y m" "month_start y m + days_in_month y m \<le> year_length y"
proof -
  show "0 \<le> month_start y m"
    using month_start_mono [of 1 m y] days_in_month_ge [of y 1] month_start_first [of y] assms
    by (cases "m = 1") auto
  show "month_start y m + days_in_month y m \<le> year_length y"
    using month_start_mono [of m 12 y] days_in_month_ge [of y 12] month_end [of y] assms
    by (cases "m = 12") auto
qed

lemma ordinal_within_year:
  assumes "valid_ymd y m d"
  shows "days_before_year y \<le> ordinal_of y m d" "ordinal_of y m d < days_before_year (y + 1)"
  using assms month_within_year [of m y] days_before_next_year [of y]
  by (auto simp: valid_ymd_def ordinal_of_def)

lemma ordinal_inj:
  assumes "valid_ymd y m d" "valid_ymd y' m' d'" "ordinal_of y m d = ordinal_of y' m' d'"
  shows "y = y' \<and> m = m' \<and> d = d'"
proof -
  have "\<not> a < b" if "valid_ymd a m1 d1" "valid_ymd b m2 d2" "ordinal_of a m1 d1 = ordinal_of b m2 d2"
    for a b m1 d1 m2 d2
    using ordinal_within_year [OF that(1)] ordinal_within_year [OF that(2)] that(3)
      days_before_year_mono [of "a + 1" b] by auto
  then have y: "y = y'" using assms by (metis linorder_neqE_linordered_idom)
  have "\<not> a < b" if "valid_ymd y a d1" "valid_ymd y b d2" "ordinal_of y a d1 = ordinal_of y b d2"
    for a b d1 d2
    using month_start_mono [of a b y] that by (auto simp: valid_ymd_def ordinal_of_def)
  then have "m = m'" using assms y by (metis linorder_neqE_linordered_idom)
  then show ?thesis using assms(3) y by (simp add: ordinal_of_def)
qed

text \<open>The decomposition of an ordinal in range is the one date with that ordinal.\<close>

lemma decomposition:
  assumes "0 \<le> n" "n < days_before_year 10000"
    and "find_month (find_year n 1 10000) 1 (n - days_before_year (find_year n 1 10000)) = (m, d)"
  shows "valid_ymd (find_year n 1 10000) m (d + 1) \<and> ordinal_of (find_year n 1 10000) m (d + 1) = n"
proof -
  let ?y = "find_year n 1 10000"
  have "days_before_year 1 \<le> n" using assms(1) by (simp add: days_before_year_def)
  from find_year_bounds [OF _ this assms(2)]
  have y: "1 \<le> ?y" "?y \<le> 9999" "days_before_year ?y \<le> n" "n < days_before_year (?y + 1)"
    by auto
  have "1 \<le> m \<and> m \<le> 12 \<and> 0 \<le> d \<and> d < days_in_month ?y m \<and>
      month_start ?y m + d = month_start ?y 1 + (n - days_before_year ?y)"
    using y days_before_next_year [of ?y] month_start_first [of ?y]
    by (intro find_month_bounds [OF _ _ _ _ assms(3)]) auto
  then show ?thesis
    using y month_start_first [of ?y] by (simp add: valid_ymd_def ordinal_of_def)
qed

definition serial_of :: "ExcelDateSystem \<Rightarrow> int \<Rightarrow> int" where
  "serial_of sys n = (case sys of
      Windows1900 \<Rightarrow> n - (days_before_year 1900 - 1) + of_bool (n \<ge> MARCH_1900)
    | _ \<Rightarrow> n - days_before_year 1904)"

lemma from_ymd_eq:
  "from_ymd y m d sys =
    (case sys of Workbook \<Rightarrow> Inl (Input ''date''
         (Malformed ''resolve the workbook date system before calendar conversion''))
     | _ \<Rightarrow> if valid_ymd y m d
           then Inr \<lparr>serial = of_int (serial_of sys (ordinal_of y m d)), date_system = sys\<rparr>
           else Inl date_out_of_range)"
  by (cases sys) (auto simp: from_ymd_def date_epoch_def valid_ymd_def serial_of_def ordinal_of_def
      month_start_def serial_date_new_def Let_def)


text \<open>The ordinal that \<open>calendar_day\<close> computes from the floor of the serial.\<close>

definition day_ordinal :: "ExcelDateSystem \<Rightarrow> int \<Rightarrow> int" where
  "day_ordinal sys k = (case sys of
      Windows1900 \<Rightarrow> k + (days_before_year 1900 - 1 - of_bool (k \<ge> 61))
    | _ \<Rightarrow> k + days_before_year 1904)"

lemma calendar_day_eq:
  assumes "date_system s \<noteq> Workbook"
  shows "calendar_day s =
    (if is_fictitious_1900_leap_day s
     then Inl (Input ''date'' (Malformed ''1900-02-29 is not a Gregorian date''))
     else let n = day_ordinal (date_system s) \<lfloor>serial s\<rfloor> in
       if \<not> (0 \<le> n \<and> n < days_before_year 10000) then Inl date_out_of_range
       else let y = find_year n 1 10000; (m, d) = find_month y 1 (n - days_before_year y)
            in Inr (y, m, d + 1))"
  using assms by (cases "date_system s") (auto simp: calendar_day_def date_epoch_def day_ordinal_def Let_def)

lemma to_ymd_Inr: "to_ymd s = Inr x \<longleftrightarrow> calendar_day s = Inr x"
  by (auto simp: to_ymd_def to_ymd_with_argument_def split: sum.splits XllError.splits)

lemma to_ymd_iff:
  assumes "date_system s \<noteq> Workbook"
  shows "to_ymd s = Inr (y, m, d) \<longleftrightarrow> \<not> is_fictitious_1900_leap_day s \<and> valid_ymd y m d \<and>
    ordinal_of y m d = day_ordinal (date_system s) \<lfloor>serial s\<rfloor>"
proof -
  let ?n = "day_ordinal (date_system s) \<lfloor>serial s\<rfloor>"
  let ?y = "find_year ?n 1 10000"
  obtain m' d' where md: "find_month ?y 1 (?n - days_before_year ?y) = (m', d')" by fastforce
  have range: "0 \<le> ordinal_of y m d \<and> ordinal_of y m d < days_before_year 10000" if "valid_ymd y m d"
    using ordinal_within_year [OF that] days_before_year_mono [of 1 y] days_before_year_mono [of "y + 1" 10000] that
    by (auto simp: valid_ymd_def) (simp add: days_before_year_def)
  have dec: "0 \<le> ?n \<Longrightarrow> ?n < days_before_year 10000 \<Longrightarrow> valid_ymd ?y m' (d' + 1) \<and> ordinal_of ?y m' (d' + 1) = ?n"
    using decomposition md by blast
  show ?thesis
  proof (cases "0 \<le> ?n \<and> ?n < days_before_year 10000")
    case True
    then have "calendar_day s = Inr (y, m, d) \<longleftrightarrow> \<not> is_fictitious_1900_leap_day s \<and> (y, m, d) = (?y, m', d' + 1)"
      using md by (auto simp: calendar_day_eq [OF assms] Let_def)
    also have "\<dots> \<longleftrightarrow> \<not> is_fictitious_1900_leap_day s \<and> valid_ymd y m d \<and> ordinal_of y m d = ?n"
      using dec True ordinal_inj [of y m d ?y m' "d' + 1"] by auto
    finally show ?thesis by (simp add: to_ymd_Inr)
  next
    case False
    then show ?thesis using range by (auto simp: to_ymd_Inr calendar_day_eq [OF assms] Let_def)
  qed
qed

lemma serial_of_day_ordinal:
  assumes "sys \<noteq> Workbook"
  shows "day_ordinal sys (serial_of sys n) = n" "\<not> (sys = Windows1900 \<and> serial_of sys n = 60)"
    "\<not> (sys = Windows1900 \<and> k = 60) \<Longrightarrow> serial_of sys (day_ordinal sys k) = k"
  using assms by (cases sys; auto simp: day_ordinal_def serial_of_def MARCH_1900_def)+

section \<open>What the conversion promises\<close>

text \<open>The dates of the Gregorian calendar in the years 1 to 9999, written out without the code's tables.\<close>

definition gregorian :: "int \<Rightarrow> int \<Rightarrow> int \<Rightarrow> bool" where
  "gregorian y m d \<longleftrightarrow> 1 \<le> y \<and> y \<le> 9999 \<and> 1 \<le> m \<and> m \<le> 12 \<and> 1 \<le> d \<and>
     d \<le> (if m \<in> {4, 6, 9, 11} then 30
          else if m = 2 then (if 4 dvd y \<and> (100 dvd y \<longrightarrow> 400 dvd y) then 29 else 28) else 31)"

lemma valid_ymd_gregorian: "valid_ymd y m d \<longleftrightarrow> gregorian y m d"
  unfolding valid_ymd_def gregorian_def days_in_month_def is_leap_year_def dvd_eq_mod_eq_0 by auto

text \<open>
  C32: a date survives the trip through a serial. In both resolved date systems \<open>from_ymd\<close>
  accepts exactly the dates of the Gregorian calendar in the years 1 to 9999, and for each of
  them the serial it creates, which is of that system and never the fictitious leap day of
  1900, is read back by \<open>to_ymd\<close> as the same date. (The bisection finds the year and the walk
  the month.)
\<close>

theorem date_roundtrip:
  assumes "sys \<noteq> Workbook"
  shows "(gregorian y m d \<longrightarrow> (\<exists>s. from_ymd y m d sys = Inr s \<and> date_system s = sys \<and>
      to_ymd s = Inr (y, m, d) \<and> \<not> is_fictitious_1900_leap_day s)) \<and>
    (\<not> gregorian y m d \<longrightarrow> from_ymd y m d sys = Inl date_out_of_range)"
proof (cases "gregorian y m d")
  case True
  let ?s = "\<lparr>serial = of_int (serial_of sys (ordinal_of y m d)), date_system = sys\<rparr>"
  have s: "from_ymd y m d sys = Inr ?s"
    using assms True by (cases sys) (simp_all add: from_ymd_eq valid_ymd_gregorian)
  have "\<not> is_fictitious_1900_leap_day ?s"
    using serial_of_day_ordinal(2) [OF assms, of "ordinal_of y m d"]
    by (auto simp: is_fictitious_1900_leap_day_def)
  then have "to_ymd ?s = Inr (y, m, d) \<and> \<not> is_fictitious_1900_leap_day ?s"
    using assms True serial_of_day_ordinal(1) [OF assms, of "ordinal_of y m d"]
    by (simp add: to_ymd_iff valid_ymd_gregorian)
  then show ?thesis using s True by auto
next
  case False
  then show ?thesis using assms by (cases sys) (simp_all add: from_ymd_eq valid_ymd_gregorian)
qed

theorem date_roundtrip_witness:
  "\<exists>s. from_ymd 2000 2 29 Mac1904 = Inr s \<and> to_ymd s = Inr (2000, 2, 29) \<and>
     from_ymd 1900 2 29 Windows1900 = Inl date_out_of_range"
proof -
  have "gregorian 2000 2 29" "\<not> gregorian 1900 2 29" by (simp_all add: gregorian_def)
  then show ?thesis
    using date_roundtrip [of Mac1904 2000 2 29] date_roundtrip [of Windows1900 1900 2 29] by auto
qed

text \<open>
  C33: a serial's date is a real date, and the serial is its floor. What \<open>to_ymd\<close> returns is
  a Gregorian date of the years 1 to 9999, and \<open>from_ymd\<close> of it is the serial without its
  fractional day. The conversion succeeds for a serial exactly when the date system is
  resolved, the day is not the fictitious leap day and some date of those years has it.
\<close>

theorem serial_denotes_its_day:
  "(to_ymd s = Inr (y, m, d) \<longrightarrow> valid_ymd y m d \<and>
     from_ymd y m d (date_system s) = Inr \<lparr>serial = of_int \<lfloor>serial s\<rfloor>, date_system = date_system s\<rparr>) \<and>
   ((\<exists>r. to_ymd s = Inr r) \<longleftrightarrow> date_system s \<noteq> Workbook \<and> \<not> is_fictitious_1900_leap_day s \<and>
     (\<exists>y m d. from_ymd y m d (date_system s) = Inr \<lparr>serial = of_int \<lfloor>serial s\<rfloor>, date_system = date_system s\<rparr>))"
proof (cases "date_system s = Workbook")
  case True
  then show ?thesis by (auto simp: to_ymd_Inr calendar_day_def date_epoch_def)
next
  case False
  have k: "\<not> is_fictitious_1900_leap_day s \<Longrightarrow>
      serial_of (date_system s) (day_ordinal (date_system s) \<lfloor>serial s\<rfloor>) = \<lfloor>serial s\<rfloor>"
    using serial_of_day_ordinal(3) [OF False] by (simp add: is_fictitious_1900_leap_day_def)
  have iff: "to_ymd s = Inr (y, m, d) \<longleftrightarrow> \<not> is_fictitious_1900_leap_day s \<and>
      from_ymd y m d (date_system s) = Inr \<lparr>serial = of_int \<lfloor>serial s\<rfloor>, date_system = date_system s\<rparr>" for y m d
    using False k serial_of_day_ordinal(1) [OF False, of "ordinal_of y m d"] to_ymd_iff [OF False, of y m d]
    by (auto simp: from_ymd_eq split: ExcelDateSystem.splits if_splits)
  then show ?thesis
    using False to_ymd_iff [OF False, of y m d] by (metis prod_cases3)
qed

theorem serial_denotes_its_day_witness:
  "valid_ymd 1904 1 1 \<and> from_ymd 1904 1 1 Mac1904 = Inr \<lparr>serial = 0, date_system = Mac1904\<rparr>"
proof -
  have "from_ymd 1904 1 1 Mac1904 = Inr \<lparr>serial = 0, date_system = Mac1904\<rparr>"
    by (simp add: from_ymd_def date_epoch_def days_before_year_def days_in_month_def is_leap_year_def
        DAYS_BEFORE_MONTH_def serial_date_new_def)
  then have "to_ymd \<lparr>serial = 1 / 2, date_system = Mac1904\<rparr> = Inr (1904, 1, 1)"
    by (subst to_ymd_iff) (simp_all add: is_fictitious_1900_leap_day_def valid_ymd_def ordinal_of_def
        month_start_def DAYS_BEFORE_MONTH_def day_ordinal_def days_in_month_def floor_eq_iff)
  then show ?thesis
    using serial_denotes_its_day [of "\<lparr>serial = 1 / 2, date_system = Mac1904\<rparr>" 1904 1 1]
    by (simp add: floor_eq_iff)
qed

end
