(* ===== verification/Handle_Token.thy ===== *)
theory Handle_Token
  imports Utf16 Generation
begin

unbundle bit_operations_syntax

text \<open>
  Handle tokens (\<open>crates/xlfn/src/handle/token.rs\<close>): the 82-byte wire text of a formula-owned
  handle, its keyed authentication tag, and the thread-local cache of verified tokens. A
  \<open>&str\<close> is the list of its UTF-8 bytes, as numbers; the bytes of tags, keys and messages
  are \<open>u8\<close> words. The keyed hash (BLAKE3) and the constant-time comparison are not code of the
  repository: they are the arguments \<open>keyed_hash\<close> and \<open>ct_eq\<close>, and \<open>crypto_ok\<close> says what is
  relied on, the output length of the one and that the other decides equality.
\<close>

section \<open>Definitions\<close>

subsection \<open>Hexadecimal fields\<close>

definition HEX :: "nat list" where
  "HEX = lit ''0123456789abcdef''"

text \<open>\<open>write_hex\<close> fills a slice of \<open>n\<close> bytes from its end.\<close>

primrec write_hex :: "u64 \<Rightarrow> nat \<Rightarrow> nat list" where
  "write_hex value 0 = []"
| "write_hex value (Suc n) = write_hex (drop_bit 4 value) n @ [HEX ! unat (value AND 0xf)]"

definition hex_nibble :: "nat \<Rightarrow> u8 option" where
  "hex_nibble v =
     (if 0x30 \<le> v \<and> v \<le> 0x39 then Some (of_nat (v - 0x30))
      else if 0x61 \<le> v \<and> v \<le> 0x66 then Some (of_nat (v - 0x61 + 10))
      else None)"

fun decode_pairs :: "nat list \<Rightarrow> u8 list option" where
  "decode_pairs (a # b # rest) =
     (case (hex_nibble a, hex_nibble b) of
        (Some hi, Some lo) \<Rightarrow> map_option (\<lambda>t. (push_bit 4 hi OR lo) # t) (decode_pairs rest)
      | _ \<Rightarrow> None)"
| "decode_pairs _ = Some []"

definition decode_tag :: "nat list \<Rightarrow> u8 list option" where
  "decode_tag encoded = (if length encoded \<noteq> 32 then None else decode_pairs encoded)"

definition decode_hex :: "nat list \<Rightarrow> u64 option" where
  "decode_hex encoded =
     foldl (\<lambda>acc byte. Option.bind acc (\<lambda>value.
        map_option (\<lambda>d. push_bit 4 value OR ucast d) (hex_nibble byte))) (Some 0) encoded"

subsection \<open>Identities and codecs\<close>

record HandleId =
  slot :: u32
  generation :: BindingGeneration

record ParsedHandleToken =
  p_session :: u64
  p_id :: HandleId
  p_tag :: "u8 list"

record VerifiedHandleToken =
  v_id :: HandleId

record TokenCodec =
  session :: u64
  secret :: "u8 list"

definition HANDLE_TOKEN_LENGTH :: nat where "HANDLE_TOKEN_LENGTH = 82"

definition to_le_bytes :: "nat \<Rightarrow> 'w::len word \<Rightarrow> u8 list" where
  "to_le_bytes n v = map (\<lambda>i. ucast (drop_bit (8 * i) v)) [0..<n]"

definition copy_from_slice :: "nat \<Rightarrow> 'a list \<Rightarrow> 'a list \<Rightarrow> 'a list" where
  "copy_from_slice at bytes buffer = take at buffer @ bytes @ drop (at + length bytes) buffer"

definition authentication_message :: "u64 \<Rightarrow> HandleId \<Rightarrow> u8 list" where
  "authentication_message sess hid =
     (let message = replicate 41 0;
          message = copy_from_slice 0 (map of_nat (lit ''xlfn-handle-token-v1'') @ [0]) message;
          message = copy_from_slice 21 (to_le_bytes 8 sess) message;
          message = copy_from_slice 29 (to_le_bytes 4 (slot hid)) message
      in copy_from_slice 33 (to_le_bytes 8 (binding_generation_get (generation hid))) message)"

type_synonym keyed_hash = "u8 list \<Rightarrow> u8 list \<Rightarrow> u8 list"
type_synonym ct_eq = "u8 list \<Rightarrow> u8 list \<Rightarrow> bool"

definition authentication_tag :: "keyed_hash \<Rightarrow> TokenCodec \<Rightarrow> HandleId \<Rightarrow> u8 list" where
  "authentication_tag keyed_hash c hid =
     take 16 (keyed_hash (secret c) (authentication_message (session c) hid))"

definition hex_of_tag :: "u8 list \<Rightarrow> nat list" where
  "hex_of_tag tag = concat (map (\<lambda>b. [HEX ! unat (drop_bit 4 b), HEX ! unat (b AND 0xf)]) tag)"

definition token_format :: "keyed_hash \<Rightarrow> TokenCodec \<Rightarrow> HandleId \<Rightarrow> nat list" where
  "token_format keyed_hash c hid =
     (let token = replicate HANDLE_TOKEN_LENGTH 0x3A;
          token = copy_from_slice 0 (lit ''xllh:3:'') token;
          token = copy_from_slice 7 (write_hex (session c) 16) token;
          token = copy_from_slice 24 (write_hex (ucast (slot hid)) 8) token;
          token = copy_from_slice 33 (write_hex (binding_generation_get (generation hid)) 16) token
      in copy_from_slice 50 (hex_of_tag (authentication_tag keyed_hash c hid)) token)"

definition parse_uncached :: "nat list \<Rightarrow> ParsedHandleToken XllResult" where
  "parse_uncached bytes =
     (if length bytes \<noteq> HANDLE_TOKEN_LENGTH \<or> take 7 bytes \<noteq> lit ''xllh:3:'' \<or>
         bytes ! 23 \<noteq> 0x3A \<or> bytes ! 32 \<noteq> 0x3A \<or> bytes ! 49 \<noteq> 0x3A
      then Inl InvalidHandle
      else case decode_hex (take 16 (drop 7 bytes)) of
        None \<Rightarrow> Inl InvalidHandle
      | Some sess \<Rightarrow> (case decode_hex (take 8 (drop 24 bytes)) of
        None \<Rightarrow> Inl InvalidHandle
      | Some raw_slot \<Rightarrow> (case Option.bind (decode_hex (take 16 (drop 33 bytes))) binding_generation_new of
        None \<Rightarrow> Inl InvalidHandle
      | Some g \<Rightarrow> (case decode_tag (drop 50 bytes) of
        None \<Rightarrow> Inl InvalidHandle
      | Some tag \<Rightarrow> Inr \<lparr>p_session = sess, p_id = \<lparr>slot = ucast raw_slot, generation = g\<rparr>, p_tag = tag\<rparr>))))"

definition token_verify ::
    "keyed_hash \<Rightarrow> ct_eq \<Rightarrow> TokenCodec \<Rightarrow> ParsedHandleToken \<Rightarrow> VerifiedHandleToken XllResult" where
  "token_verify keyed_hash ct_eq c parsed =
     (let expected = authentication_tag keyed_hash c (p_id parsed) in
      if p_session parsed \<noteq> session c \<or> \<not> ct_eq (p_tag parsed) expected
      then Inl InvalidHandle else Inr \<lparr>v_id = p_id parsed\<rparr>)"

subsection \<open>The cache of verified tokens\<close>

definition VERIFIED_TOKEN_CACHE_SETS :: nat where "VERIFIED_TOKEN_CACHE_SETS = 16"
definition VERIFIED_TOKEN_CACHE_WAYS :: nat where "VERIFIED_TOKEN_CACHE_WAYS = 4"

record VerifiedTokenCacheEntry =
  e_registry_address :: nat
  e_session :: u64
  e_secret :: "u8 list"
  e_token :: "nat list"
  e_slot :: u32
  e_generation :: BindingGeneration

record VerifiedTokenCache =
  sets :: "VerifiedTokenCacheEntry option list list"
  victims :: "nat list"

definition token_cache_new :: VerifiedTokenCache where
  "token_cache_new =
     \<lparr>sets = replicate VERIFIED_TOKEN_CACHE_SETS (replicate VERIFIED_TOKEN_CACHE_WAYS None),
      victims = replicate VERIFIED_TOKEN_CACHE_SETS 0\<rparr>"

definition verified_token_cache_index :: "nat list \<Rightarrow> nat option" where
  "verified_token_cache_index bytes =
     (if length bytes \<noteq> HANDLE_TOKEN_LENGTH then None
      else map_option unat (hex_nibble (bytes ! (HANDLE_TOKEN_LENGTH - 1))))"

fun find_entry ::
    "nat \<Rightarrow> u64 \<Rightarrow> u8 list \<Rightarrow> nat list \<Rightarrow> VerifiedTokenCacheEntry option list \<Rightarrow> HandleId option" where
  "find_entry addr sess sec bytes [] = None"
| "find_entry addr sess sec bytes (None # es) = find_entry addr sess sec bytes es"
| "find_entry addr sess sec bytes (Some e # es) =
     (if e_registry_address e = addr \<and> e_session e = sess \<and> e_token e = bytes \<and> e_secret e = sec
      then Some \<lparr>slot = e_slot e, generation = e_generation e\<rparr>
      else find_entry addr sess sec bytes es)"

text \<open>Indexing out of range panics: \<open>Aborts\<close>.\<close>

definition verified_token_cache_lookup ::
    "nat \<Rightarrow> u64 \<Rightarrow> u8 list \<Rightarrow> nat list \<Rightarrow> VerifiedTokenCache \<Rightarrow> HandleId option run" where
  "verified_token_cache_lookup addr sess sec bytes cache =
     (case verified_token_cache_index bytes of
        None \<Rightarrow> Returns None
      | Some i \<Rightarrow> if i < length (sets cache) then Returns (find_entry addr sess sec bytes (sets cache ! i))
                 else Aborts)"

definition verified_token_cache_store ::
    "nat \<Rightarrow> u64 \<Rightarrow> u8 list \<Rightarrow> nat list \<Rightarrow> HandleId \<Rightarrow> VerifiedTokenCache \<Rightarrow> VerifiedTokenCache run" where
  "verified_token_cache_store addr sess sec bytes hid cache =
     (case verified_token_cache_index bytes of
        None \<Rightarrow> Returns cache
      | Some i \<Rightarrow>
          if \<not> (i < length (victims cache) \<and> i < length (sets cache) \<and>
                victims cache ! i < length (sets cache ! i)) then Aborts
          else let victim = victims cache ! i in Returns
            \<lparr>sets = (sets cache)[i := (sets cache ! i)[victim := Some
               \<lparr>e_registry_address = addr, e_session = sess, e_secret = sec, e_token = bytes,
                e_slot = slot hid, e_generation = generation hid\<rparr>]],
             victims = (victims cache)[i := (victim + 1) mod VERIFIED_TOKEN_CACHE_WAYS]\<rparr>)"

definition token_parse ::
    "keyed_hash \<Rightarrow> ct_eq \<Rightarrow> TokenCodec \<Rightarrow> nat \<Rightarrow> nat list \<Rightarrow> VerifiedTokenCache \<Rightarrow>
     (VerifiedHandleToken XllResult \<times> VerifiedTokenCache) run" where
  "token_parse keyed_hash ct_eq c addr token cache =
     bind_run (verified_token_cache_lookup addr (session c) (secret c) token cache) (\<lambda>hit.
       case hit of
         Some hid \<Rightarrow> Returns (Inr \<lparr>v_id = hid\<rparr>, cache)
       | None \<Rightarrow>
          (case parse_uncached token of
             Inl e \<Rightarrow> Returns (Inl e, cache)
           | Inr parsed \<Rightarrow>
              (case token_verify keyed_hash ct_eq c parsed of
                 Inl e \<Rightarrow> Returns (Inl e, cache)
               | Inr verified \<Rightarrow>
                   bind_run (verified_token_cache_store addr (session c) (secret c) token (v_id verified) cache)
                     (\<lambda>cache'. Returns (Inr verified, cache')))))"

subsection \<open>Tokens in UTF-16 arguments\<close>

text \<open>
  The copy into the fixed buffer stops at the first unit that is not ASCII; the rest of the
  buffer is then not used. \<open>from_utf8\<close> accepts every ASCII text.
\<close>

fun ascii_units :: "nat list \<Rightarrow> nat list option" where
  "ascii_units [] = Some []"
| "ascii_units (u # us) = (if u > 0x7f then None else map_option ((#) (u mod 256)) (ascii_units us))"

definition with_utf16_handle_token ::
    "nat list \<Rightarrow> string \<Rightarrow> (nat list \<Rightarrow> 'r XllResult) \<Rightarrow> 'r XllResult run" where
  "with_utf16_handle_token units argument operation =
     (let general = bind_run (decode_owned units argument)
            (\<lambda>r. Returns (case r of Inl e \<Rightarrow> Inl e | Inr token \<Rightarrow> operation token))
      in if length units = HANDLE_TOKEN_LENGTH
         then (case ascii_units units of None \<Rightarrow> general | Some token \<Rightarrow> Returns (operation token))
         else general)"

definition crypto_ok :: "keyed_hash \<Rightarrow> ct_eq \<Rightarrow> bool" where
  "crypto_ok keyed_hash ct_eq \<longleftrightarrow>
     (\<forall>k m. length (keyed_hash k m) = 32) \<and> (\<forall>a b. ct_eq a b \<longleftrightarrow> a = b)"

section \<open>Hexadecimal fields are exact\<close>

lemma HEX_unfold:
  "HEX = [0x30, 0x31, 0x32, 0x33, 0x34, 0x35, 0x36, 0x37, 0x38, 0x39, 0x61, 0x62, 0x63, 0x64, 0x65, 0x66]"
  by (simp add: HEX_def lit_def)

lemma length_HEX [simp]: "length HEX = 16"
  by (simp add: HEX_unfold)

lemma hex_nibble_HEX:
  assumes "n < 16"
  shows "hex_nibble (HEX ! n) = Some (of_nat n)"
proof -
  have "\<forall>n \<in> {0..<16}. hex_nibble (HEX ! n) = Some (of_nat n)"
    by (simp add: HEX_unfold hex_nibble_def atLeastLessThan_nat_numeral)
  then show ?thesis using assms by simp
qed


lemma hex_nibble_Some:
  assumes "hex_nibble b = Some d"
  shows "unat d < 16 \<and> HEX ! unat d = b"
proof -
  have "\<forall>b \<in> {0x30..<0x3A} \<union> {0x61..<0x67}. case hex_nibble b of
      None \<Rightarrow> False | Some d \<Rightarrow> unat d < 16 \<and> HEX ! unat d = b"
    by (simp add: HEX_unfold hex_nibble_def atLeastLessThan_nat_numeral)
  moreover have "b \<in> {0x30..<0x3A} \<union> {0x61..<0x67}"
    using assms by (auto simp: hex_nibble_def split: if_splits)
  ultimately show ?thesis using assms by (auto dest!: bspec [where x = b])
qed

lemma length_write_hex [simp]: "length (write_hex v n) = n"
  by (induction n arbitrary: v) auto

lemma decode_hex_snoc:
  "decode_hex (bs @ [b]) = Option.bind (decode_hex bs) (\<lambda>v.
     map_option (\<lambda>d. push_bit 4 v OR ucast d) (hex_nibble b))"
  by (simp add: decode_hex_def)

lemma low_nibble: "unat (v AND 0xf :: 'w::len word) = unat v mod 16"
  using unat_and_mask [of v 4] by (simp add: mask_eq_exp_minus_1)

lemma high_nibbles: "unat (drop_bit 4 v :: 'w::len word) = unat v div 16"
  by (subst unsigned_drop_bit_eq) (simp add: drop_bit_eq_div take_bit_nat_eq_self)

lemma join_nibble:
  assumes "unat d < 16" "unat (v :: 'w::len word) * 16 + unat (d :: u8) < 2 ^ LENGTH('w)"
  shows "unat (push_bit 4 v OR ucast d :: 'w word) = unat v * 16 + unat d"
proof -
  have "unat (push_bit 4 v) = unat v * 16"
    using assms(2) by (subst unsigned_push_bit_eq) (simp add: push_bit_eq_mult take_bit_nat_eq_self)
  moreover have "unat (ucast d :: 'w word) = unat d"
    using assms(2) by (simp add: unsigned_ucast_eq take_bit_nat_eq_self)
  ultimately show ?thesis
    using or_below [of "unat d" 4 "unat v"] assms(1) by (simp add: unsigned_or_eq push_bit_eq_mult)
qed

lemma decode_write_hex:
  "n \<le> 16 \<Longrightarrow> unat v < 16 ^ n \<Longrightarrow> decode_hex (write_hex v n) = Some v"
proof (induction n arbitrary: v)
  case 0
  then show ?case by (simp add: decode_hex_def unat_eq_0)
next
  case (Suc n)
  have "decode_hex (write_hex (drop_bit 4 v) n) = Some (drop_bit 4 v)"
    using Suc by (simp add: high_nibbles less_mult_imp_div_less mult.commute)
  moreover have "push_bit 4 (drop_bit 4 v) OR ucast (of_nat (unat v mod 16) :: u8) = v"
  proof -
    have u: "unat (of_nat (unat v mod 16) :: u8) = unat v mod 16"
      by (simp add: unsigned_of_nat take_bit_nat_eq_self)
    have e: "unat v div 16 * 16 + unat v mod 16 = unat v" by simp
    show ?thesis
      using join_nibble [of "of_nat (unat v mod 16)" "drop_bit 4 v"] unsigned_less [of v]
      by (simp add: u high_nibbles e word_unat_eq_iff)
  qed
  ultimately show ?case
    by (simp add: decode_hex_snoc low_nibble hex_nibble_HEX)
qed

lemma write_decode_hex:
  "decode_hex bs = Some v \<Longrightarrow> length bs \<le> 16 \<Longrightarrow> unat v < 16 ^ length bs \<and> write_hex v (length bs) = bs"
proof (induction bs arbitrary: v rule: rev_induct)
  case Nil
  then show ?case by (simp add: decode_hex_def)
next
  case (snoc b bs)
  then obtain w d where wd: "decode_hex bs = Some w" "hex_nibble b = Some d" "v = push_bit 4 w OR ucast d"
    by (auto simp: decode_hex_snoc)
  have w: "unat w < 16 ^ length bs" "write_hex w (length bs) = bs" using snoc wd by simp_all
  have d: "unat d < 16" "HEX ! unat d = b" using hex_nibble_Some [OF wd(2)] by simp_all
  have "unat w * 16 + unat d < 16 ^ Suc (length bs)" using w(1) d(1) by simp
  moreover have "(16::nat) ^ Suc (length bs) \<le> 16 ^ 16"
    using snoc.prems(2) by (intro power_increasing) auto
  ultimately have v: "unat v = unat w * 16 + unat d" "unat v < 16 ^ Suc (length bs)"
    using join_nibble [OF d(1), of w] by (simp_all add: wd(3))
  have "drop_bit 4 v = w" using v(1) d(1) by (simp add: word_unat_eq_iff high_nibbles)
  then show ?case using v w(2) d by (simp add: low_nibble)
qed

interpretation hex16: exact_codec "\<lambda>v. write_hex v 16"
  "\<lambda>bs. if length bs = 16 then decode_hex bs else None" "\<lambda>_. True"
proof unfold_locales
  show "(if length (write_hex x 16) = 16 then decode_hex (write_hex x 16) else None) = Some x" for x
    using decode_write_hex [of 16 x] unsigned_less [of x] by simp
  show "True \<and> write_hex x 16 = w"
    if "(if length w = 16 then decode_hex w else None) = Some x" for w x
    using that write_decode_hex [of w x] by (auto split: if_splits)
qed

lemma narrow_widened: "ucast (ucast (x :: u32) :: u64) = x"
  using unat_u32 [of x]
  by (subst word_unat_eq_iff, subst unsigned_ucast_eq) (simp add: widen_u32 take_bit_nat_eq_self)

interpretation hex8: exact_codec "\<lambda>v :: u32. write_hex (ucast v) 8"
  "\<lambda>bs. if length bs = 8 then map_option ucast (decode_hex bs) else None" "\<lambda>_. True"
proof unfold_locales
  show "(if length (write_hex (ucast x) 8) = 8 then map_option ucast (decode_hex (write_hex (ucast x) 8)) else None)
    = Some x" for x :: u32
    using decode_write_hex [of 8 "ucast x"] unat_u32 [of x] by (simp add: widen_u32 narrow_widened)
  show "True \<and> write_hex (ucast x) 8 = w"
    if "(if length w = 8 then map_option ucast (decode_hex w) else None) = Some x" for w and x :: u32
  proof -
    from that obtain v where v: "length w = 8" "decode_hex w = Some v" "x = ucast v"
      by (auto split: if_splits)
    have "unat v < 2 ^ 32" "write_hex v 8 = w" using write_decode_hex [OF v(2)] v(1) by simp_all
    moreover have "ucast (ucast v :: u32) = v"
      using calculation(1)
      by (simp add: word_unat_eq_iff unsigned_ucast_eq unsigned_take_bit_eq take_bit_nat_eq_self)
    ultimately show ?thesis by (simp add: v(3))
  qed
qed

lemma length_hex_of_tag [simp]: "length (hex_of_tag tag) = 2 * length tag"
  by (induction tag) (auto simp: hex_of_tag_def)

lemma hex_of_tag_Cons:
  "hex_of_tag (b # tag) = HEX ! (unat b div 16) # HEX ! (unat b mod 16) # hex_of_tag tag"
  by (simp add: hex_of_tag_def high_nibbles low_nibble)

lemma byte_of_nibbles:
  assumes "unat (hi :: u8) < 16" "unat (lo :: u8) < 16"
  shows "unat (push_bit 4 hi OR lo) = unat hi * 16 + unat lo"
  using join_nibble [of lo hi] assms by simp

lemma decode_pairs_hex: "decode_pairs (hex_of_tag tag) = Some tag"
proof (induction tag)
  case Nil
  show ?case by (simp add: hex_of_tag_def)
next
  case (Cons b tag)
  have b: "unat b < 256" using unsigned_less [of b] by simp
  then have d: "unat b div 16 < 16" by simp
  then have u: "unat (of_nat (unat b div 16) :: u8) = unat b div 16"
    "unat (of_nat (unat b mod 16) :: u8) = unat b mod 16"
    using b by (simp_all add: unsigned_of_nat take_bit_nat_eq_self)
  then have "push_bit 4 (of_nat (unat b div 16)) OR of_nat (unat b mod 16) = b"
    using byte_of_nibbles [of "of_nat (unat b div 16)" "of_nat (unat b mod 16)"] d
    by (simp add: word_unat_eq_iff)
  then show ?case using Cons d by (simp add: hex_of_tag_Cons hex_nibble_HEX)
qed

lemma hex_decode_pairs:
  "decode_pairs bs = Some tag \<Longrightarrow> even (length bs) \<Longrightarrow> hex_of_tag tag = bs"
proof (induction bs arbitrary: tag rule: decode_pairs.induct)
  case (1 a b rest)
  from "1.prems" obtain hi lo t where h: "hex_nibble a = Some hi" "hex_nibble b = Some lo"
    "decode_pairs rest = Some t" "tag = (push_bit 4 hi OR lo) # t"
    by (auto split: option.splits)
  have "hex_of_tag t = rest" using "1.IH" h "1.prems"(2) by simp
  then show ?case
    using hex_nibble_Some [OF h(1)] hex_nibble_Some [OF h(2)] h(4) byte_of_nibbles [of hi lo]
    by (simp add: hex_of_tag_Cons)
qed (auto simp: hex_of_tag_def)

interpretation hex_tag: exact_codec hex_of_tag decode_tag "\<lambda>t. length t = 16"
proof unfold_locales
  show "decode_tag (hex_of_tag x) = Some x" if "length x = 16" for x
    using that by (simp add: decode_tag_def decode_pairs_hex)
  show "length x = 16 \<and> hex_of_tag x = w" if "decode_tag w = Some x" for w x
  proof -
    have "length w = 32" "decode_pairs w = Some x" using that by (simp_all add: decode_tag_def split: if_splits)
    then have "hex_of_tag x = w" using hex_decode_pairs by simp
    then show ?thesis using \<open>length w = 32\<close> length_hex_of_tag [of x] by simp
  qed
qed

section \<open>The wire text\<close>

definition token_text :: "ParsedHandleToken \<Rightarrow> nat list" where
  "token_text p = lit ''xllh:3:'' @ write_hex (p_session p) 16 @ 0x3A # write_hex (ucast (slot (p_id p))) 8
     @ 0x3A # write_hex (binding_generation_get (generation (p_id p))) 16 @ 0x3A # hex_of_tag (p_tag p)"

definition parsed_ok :: "ParsedHandleToken \<Rightarrow> bool" where
  "parsed_ok p \<longleftrightarrow> binding_generation_get (generation (p_id p)) \<noteq> 0 \<and> length (p_tag p) = 16"

lemma drop_field: "k \<le> j \<Longrightarrow> drop k bs = take (j - k) (drop k bs) @ drop j (bs :: 'a list)"
  by (metis append_take_drop_id drop_drop le_add_diff_inverse2)

lemma token_fields:
  assumes "length bs = 82"
  shows "bs = take 7 bs @ take 16 (drop 7 bs) @ bs ! 23 # take 8 (drop 24 bs) @ bs ! 32
    # take 16 (drop 33 bs) @ bs ! 49 # drop 50 bs"
proof -
  have "bs = take 7 bs @ drop 7 bs" by simp
  also have "drop 7 bs = take 16 (drop 7 bs) @ bs ! 23 # drop 24 bs"
    using drop_field [of 7 23 bs] Cons_nth_drop_Suc [of 23 bs] assms by simp
  also have "drop 24 bs = take 8 (drop 24 bs) @ bs ! 32 # drop 33 bs"
    using drop_field [of 24 32 bs] Cons_nth_drop_Suc [of 32 bs] assms by simp
  also have "drop 33 bs = take 16 (drop 33 bs) @ bs ! 49 # drop 50 bs"
    using drop_field [of 33 49 bs] Cons_nth_drop_Suc [of 49 bs] assms by simp
  finally show ?thesis by simp
qed

interpretation token_wire: exact_codec token_text
  "\<lambda>bs. case parse_uncached bs of Inl _ \<Rightarrow> None | Inr p \<Rightarrow> Some p" parsed_ok
proof unfold_locales
  show "(case parse_uncached (token_text p) of Inl _ \<Rightarrow> None | Inr p \<Rightarrow> Some p) = Some p"
    if ok: "parsed_ok p" for p
  proof -
    have l: "length (lit ''xllh:3:'') = 7" by (simp add: lit_def)
    have s: "decode_hex (write_hex v 16) = Some v" for v using hex16.dec_enc [of v] by simp
    have g: "binding_generation_new (binding_generation_get (generation (p_id p))) = Some (generation (p_id p))"
      using ok by (cases "generation (p_id p)") (simp add: parsed_ok_def binding_generation_new_def nonzero_new_def)
    show ?thesis
      using ok hex8.dec_enc [of "slot (p_id p)"] hex_tag.dec_enc [of "p_tag p"]
      by (auto simp: token_text_def parse_uncached_def HANDLE_TOKEN_LENGTH_def l s g parsed_ok_def nth_append
          split: option.splits)
  qed
next
  show "parsed_ok p \<and> token_text p = bs"
    if "(case parse_uncached bs of Inl _ \<Rightarrow> None | Inr p \<Rightarrow> Some p) = Some p" for bs p
  proof -
    from that obtain sess raw g tag where bs: "length bs = 82" "take 7 bs = lit ''xllh:3:''"
        "bs ! 23 = 0x3A" "bs ! 32 = 0x3A" "bs ! 49 = 0x3A"
      and dec: "decode_hex (take 16 (drop 7 bs)) = Some sess" "decode_hex (take 8 (drop 24 bs)) = Some raw"
        "decode_hex (take 16 (drop 33 bs)) = Some g" "decode_tag (drop 50 bs) = Some tag"
      and p: "g \<noteq> 0" "p = \<lparr>p_session = sess, p_id = \<lparr>slot = ucast raw, generation = BindingGeneration g\<rparr>, p_tag = tag\<rparr>"
      by (auto simp: parse_uncached_def HANDLE_TOKEN_LENGTH_def binding_generation_new_def nonzero_new_def
          split: if_splits option.splits)
    have "write_hex sess 16 = take 16 (drop 7 bs)" "write_hex g 16 = take 16 (drop 33 bs)"
      using hex16.dec_sound dec(1,3) bs(1) by simp_all
    moreover have "write_hex (ucast (ucast raw :: u32)) 8 = take 8 (drop 24 bs)"
      using hex8.dec_sound [of "take 8 (drop 24 bs)" "ucast raw"] dec(2) bs(1) by simp
    moreover have "length tag = 16" "hex_of_tag tag = drop 50 bs" using hex_tag.dec_sound [OF dec(4)] by simp_all
    ultimately show ?thesis
      using token_fields [OF bs(1)] p bs by (simp add: parsed_ok_def token_text_def)
  qed
qed

lemma parse_uncached_Inl: "parse_uncached bs = Inl e \<Longrightarrow> e = InvalidHandle"
  by (auto simp: parse_uncached_def split: if_splits option.splits)

lemma parse_uncached_iff: "parse_uncached bs = Inr p \<longleftrightarrow> parsed_ok p \<and> token_text p = bs"
  using token_wire.dec_Some_iff [of bs p] by (auto split: sum.splits)

lemma length_authentication_tag:
  "crypto_ok keyed_hash ct_eq \<Longrightarrow> length (authentication_tag keyed_hash c hid) = 16"
  by (simp add: authentication_tag_def crypto_ok_def)

lemma token_format_text:
  assumes "crypto_ok keyed_hash ct_eq"
  shows "token_format keyed_hash c hid = token_text
    \<lparr>p_session = session c, p_id = hid, p_tag = authentication_tag keyed_hash c hid\<rparr>"
proof -
  have l: "length (lit ''xllh:3:'') = 7" by (simp add: lit_def)
  show ?thesis
    using length_authentication_tag [OF assms]
    by (simp add: token_format_def token_text_def copy_from_slice_def HANDLE_TOKEN_LENGTH_def Let_def l)
qed

section \<open>Verification with and without the cache\<close>

definition check_token ::
    "keyed_hash \<Rightarrow> ct_eq \<Rightarrow> TokenCodec \<Rightarrow> nat list \<Rightarrow> VerifiedHandleToken XllResult" where
  "check_token keyed_hash ct_eq c bytes =
     (case parse_uncached bytes of Inl e \<Rightarrow> Inl e | Inr p \<Rightarrow> token_verify keyed_hash ct_eq c p)"

lemma check_token_Inl: "check_token keyed_hash ct_eq c bs = Inl e \<Longrightarrow> e = InvalidHandle"
  by (auto simp: check_token_def token_verify_def Let_def dest: parse_uncached_Inl split: sum.splits if_splits)

lemma check_token_iff:
  assumes "crypto_ok keyed_hash ct_eq"
  shows "check_token keyed_hash ct_eq c bs = Inr v \<longleftrightarrow>
    binding_generation_get (generation (v_id v)) \<noteq> 0 \<and> bs = token_format keyed_hash c (v_id v)"
    (is "?lhs \<longleftrightarrow> ?rhs")
proof
  have ct: "ct_eq a b \<longleftrightarrow> a = b" for a b using assms by (simp add: crypto_ok_def)
  {
    assume ?lhs
    then obtain p where p: "parsed_ok p" "token_text p = bs" "p_session p = session c"
      "p_tag p = authentication_tag keyed_hash c (p_id p)" "v_id v = p_id p"
      by (auto simp: check_token_def token_verify_def parse_uncached_iff ct Let_def split: sum.splits if_splits)
    then have "p = \<lparr>p_session = session c, p_id = v_id v, p_tag = authentication_tag keyed_hash c (v_id v)\<rparr>"
      by simp
    then show ?rhs using p(1,2,5) by (simp add: token_format_text [OF assms] parsed_ok_def)
  next
    assume ?rhs
    then have "parse_uncached bs =
        Inr \<lparr>p_session = session c, p_id = v_id v, p_tag = authentication_tag keyed_hash c (v_id v)\<rparr>"
      by (simp add: parse_uncached_iff parsed_ok_def token_format_text [OF assms] length_authentication_tag [OF assms])
    then show ?lhs by (simp add: check_token_def token_verify_def ct)
  }
qed

definition entry_ok :: "keyed_hash \<Rightarrow> ct_eq \<Rightarrow> VerifiedTokenCacheEntry option \<Rightarrow> bool" where
  "entry_ok keyed_hash ct_eq m = (case m of None \<Rightarrow> True | Some e \<Rightarrow>
     check_token keyed_hash ct_eq \<lparr>session = e_session e, secret = e_secret e\<rparr> (e_token e)
       = Inr \<lparr>v_id = \<lparr>slot = e_slot e, generation = e_generation e\<rparr>\<rparr>)"

definition cache_ok :: "keyed_hash \<Rightarrow> ct_eq \<Rightarrow> VerifiedTokenCache \<Rightarrow> bool" where
  "cache_ok keyed_hash ct_eq cache \<longleftrightarrow>
     length (sets cache) = 16 \<and> length (victims cache) = 16 \<and> (\<forall>v \<in> set (victims cache). v < 4) \<and>
     (\<forall>es \<in> set (sets cache). length es = 4 \<and> (\<forall>m \<in> set es. entry_ok keyed_hash ct_eq m))"

lemma cache_index_less: "verified_token_cache_index bs = Some i \<Longrightarrow> i < 16"
  using hex_nibble_Some by (auto simp: verified_token_cache_index_def split: if_splits)

lemma record_eta [simp]:
  "\<lparr>session = session c, secret = secret c\<rparr> = (c :: TokenCodec)"
  "\<lparr>slot = slot hid, generation = generation hid\<rparr> = (hid :: HandleId)"
  by simp_all

lemma find_entry_sound:
  "\<forall>m \<in> set es. entry_ok keyed_hash ct_eq m \<Longrightarrow> find_entry addr (session c) (secret c) bs es = Some hid \<Longrightarrow>
   check_token keyed_hash ct_eq c bs = Inr \<lparr>v_id = hid\<rparr>"
proof (induction es)
  case (Cons m es)
  show ?case
  proof (cases m)
    case (Some e)
    then show ?thesis
      using Cons record_eta(1) [of c] by (auto simp: entry_ok_def split: if_splits)
  qed (use Cons in simp)
qed simp

lemma lookup_sound:
  assumes "cache_ok keyed_hash ct_eq cache"
  shows "\<exists>hit. verified_token_cache_lookup addr (session c) (secret c) bs cache = Returns hit \<and>
    (\<forall>hid. hit = Some hid \<longrightarrow> check_token keyed_hash ct_eq c bs = Inr \<lparr>v_id = hid\<rparr>)"
proof (cases "verified_token_cache_index bs")
  case (Some i)
  then have "i < length (sets cache)" using cache_index_less assms by (simp add: cache_ok_def)
  then show ?thesis
    using Some assms
    by (auto simp: verified_token_cache_lookup_def cache_ok_def intro!: find_entry_sound [of "sets cache ! i"])
qed (simp add: verified_token_cache_lookup_def)

lemma store_keeps:
  assumes "cache_ok keyed_hash ct_eq cache" "check_token keyed_hash ct_eq c bs = Inr \<lparr>v_id = hid\<rparr>"
  shows "\<exists>cache'. verified_token_cache_store addr (session c) (secret c) bs hid cache = Returns cache' \<and>
    cache_ok keyed_hash ct_eq cache'"
proof (cases "verified_token_cache_index bs")
  case (Some i)
  have i: "i < 16" using Some cache_index_less by blast
  then have v: "victims cache ! i < 4" and l: "length (sets cache ! i) = 4"
    using assms(1) by (simp_all add: cache_ok_def)
  have e: "entry_ok keyed_hash ct_eq (Some \<lparr>e_registry_address = addr, e_session = session c,
      e_secret = secret c, e_token = bs, e_slot = slot hid, e_generation = generation hid\<rparr>)"
    using assms(2) by (simp add: entry_ok_def)
  have sets: "\<forall>es \<in> set ((sets cache)[i := (sets cache ! i)[victims cache ! i := Some
      \<lparr>e_registry_address = addr, e_session = session c, e_secret = secret c, e_token = bs,
       e_slot = slot hid, e_generation = generation hid\<rparr>]]).
      length es = 4 \<and> (\<forall>m \<in> set es. entry_ok keyed_hash ct_eq m)"
    using assms(1) i l e by (auto simp: cache_ok_def dest!: subsetD [OF set_update_subset_insert])
  have victims: "\<forall>w \<in> set ((victims cache)[i := (victims cache ! i + 1) mod 4]). w < 4"
    using assms(1) by (auto simp: cache_ok_def dest!: subsetD [OF set_update_subset_insert])
  show ?thesis
    using Some i v l assms(1) sets victims
    by (simp add: verified_token_cache_store_def cache_ok_def VERIFIED_TOKEN_CACHE_WAYS_def Let_def)
qed (simp add: verified_token_cache_store_def assms)

lemma token_parse_check:
  assumes "cache_ok keyed_hash ct_eq cache"
  shows "\<exists>cache'. token_parse keyed_hash ct_eq c addr bs cache = Returns (check_token keyed_hash ct_eq c bs, cache') \<and>
    cache_ok keyed_hash ct_eq cache'"
proof -
  obtain hit where hit: "verified_token_cache_lookup addr (session c) (secret c) bs cache = Returns hit"
    "\<And>hid. hit = Some hid \<Longrightarrow> check_token keyed_hash ct_eq c bs = Inr \<lparr>v_id = hid\<rparr>"
    using lookup_sound [OF assms, of addr c bs] by auto
  show ?thesis
  proof (cases hit)
    case (Some hid)
    then show ?thesis using hit assms by (simp add: token_parse_def)
  next
    case None
    show ?thesis
    proof (cases "check_token keyed_hash ct_eq c bs")
      case (Inl e)
      then show ?thesis
        using None hit(1) assms by (auto simp: token_parse_def check_token_def split: sum.splits)
    next
      case (Inr v)
      then show ?thesis
        using None hit(1) store_keeps [OF assms, of c bs "v_id v" addr]
        by (auto simp: token_parse_def check_token_def split: sum.splits)
    qed
  qed
qed

text \<open>Any thread's cache: a run of parses by any registries, each with its own codec.\<close>

inductive token_cache_step ::
    "keyed_hash \<Rightarrow> ct_eq \<Rightarrow> VerifiedTokenCache \<Rightarrow> VerifiedTokenCache \<Rightarrow> bool"
  for keyed_hash ct_eq where
  "token_parse keyed_hash ct_eq c addr bs cache = Returns (r, cache') \<Longrightarrow>
   token_cache_step keyed_hash ct_eq cache cache'"

interpretation token_cache: transition_system "\<lambda>cache. cache = token_cache_new"
  "token_cache_step keyed_hash ct_eq" "cache_ok keyed_hash ct_eq" for keyed_hash ct_eq
proof unfold_locales
  show "cache_ok keyed_hash ct_eq s" if "s = token_cache_new" for s
    using that by (simp add: cache_ok_def token_cache_new_def entry_ok_def VERIFIED_TOKEN_CACHE_SETS_def
        VERIFIED_TOKEN_CACHE_WAYS_def)
  show "cache_ok keyed_hash ct_eq t"
    if "cache_ok keyed_hash ct_eq s" "token_cache_step keyed_hash ct_eq s t" for s t
    using that(2)
  proof cases
    case (1 c addr bs r)
    then show ?thesis using token_parse_check [OF that(1), of c addr bs] by auto
  qed
qed

section \<open>Messages and texts\<close>

lemma length_to_le_bytes [simp]: "length (to_le_bytes n v) = n"
  by (simp add: to_le_bytes_def)

lemma to_le_bytes_inj:
  assumes "to_le_bytes n v = to_le_bytes n w" "LENGTH('w) = 8 * n"
  shows "v = (w :: 'w::len word)"
proof (rule bit_word_eqI)
  fix k assume k: "k < LENGTH('w)"
  then have "k div 8 < n" using assms(2) by simp
  then have "ucast (drop_bit (8 * (k div 8)) v) = (ucast (drop_bit (8 * (k div 8)) w) :: u8)"
    using assms(1) by (simp add: to_le_bytes_def)
  then have "bit (ucast (drop_bit (8 * (k div 8)) v) :: u8) (k mod 8)
      = bit (ucast (drop_bit (8 * (k div 8)) w) :: u8) (k mod 8)"
    by simp
  then show "bit v k = bit w k"
    by (simp add: bit_ucast_iff bit_drop_bit_eq)
qed

lemma authentication_message_fields:
  "authentication_message sess hid = map of_nat (lit ''xlfn-handle-token-v1'') @ [0] @ to_le_bytes 8 sess @
     to_le_bytes 4 (slot hid) @ to_le_bytes 8 (binding_generation_get (generation hid))"
proof -
  have l: "length (lit ''xlfn-handle-token-v1'') = 20" by (simp add: lit_def)
  show ?thesis
    by (simp add: authentication_message_def copy_from_slice_def Let_def l)
qed

lemma ascii_units_Some: "ascii_units us = Some t \<Longrightarrow> list_all (\<lambda>u. u < 0x80) us \<and> t = us"
  by (induction us arbitrary: t) (auto split: if_splits)

section \<open>What tokens promise\<close>

text \<open>
  C34: a token is accepted exactly if its codec issued it. Whatever tokens, codecs and
  registries have used this thread's cache before, parsing always returns, it returns an
  identity exactly for the text that \<open>format\<close> gives this identity under the same session and
  secret, and every other text is \<open>InvalidHandle\<close>. So the lowercase fixed-width text is the
  only spelling of a handle, and a cache hit never answers for another registry's token.
\<close>

theorem token_parse_exact:
  assumes "crypto_ok keyed_hash ct_eq" "(token_cache_step keyed_hash ct_eq)\<^sup>*\<^sup>* token_cache_new cache"
  shows "\<exists>r cache'. token_parse keyed_hash ct_eq c addr bytes cache = Returns (r, cache') \<and>
    (\<forall>v. r = Inr v \<longleftrightarrow>
       binding_generation_get (generation (v_id v)) \<noteq> 0 \<and> bytes = token_format keyed_hash c (v_id v)) \<and>
    (\<forall>e. r = Inl e \<longrightarrow> e = InvalidHandle)"
proof -
  have "cache_ok keyed_hash ct_eq cache" using token_cache.inv_reachable assms(2) by blast
  then obtain cache' where
    "token_parse keyed_hash ct_eq c addr bytes cache = Returns (check_token keyed_hash ct_eq c bytes, cache')"
    using token_parse_check by blast
  then show ?thesis using check_token_iff [OF assms(1), of c bytes] check_token_Inl by fastforce
qed

theorem token_parse_exact_witness:
  "let h = \<lambda>_ _. replicate 32 0; c = \<lparr>session = 7, secret = replicate 32 19\<rparr>;
       hid = \<lparr>slot = 17, generation = binding_generation_one\<rparr> in
   \<exists>cache'. token_parse h (=) c 0 (token_format h c hid) token_cache_new = Returns (Inr \<lparr>v_id = hid\<rparr>, cache')"
proof -
  let ?h = "\<lambda>_ _. replicate 32 0 :: u8 list" and ?c = "\<lparr>session = 7, secret = replicate 32 19\<rparr>"
  let ?hid = "\<lparr>slot = 17, generation = binding_generation_one\<rparr>"
  have ok: "crypto_ok ?h (=)" by (simp add: crypto_ok_def)
  obtain r cache' where r: "token_parse ?h (=) ?c 0 (token_format ?h ?c ?hid) token_cache_new = Returns (r, cache')"
    and iff: "\<And>v. r = Inr v \<longleftrightarrow> binding_generation_get (generation (v_id v)) \<noteq> 0 \<and>
      token_format ?h ?c ?hid = token_format ?h ?c (v_id v)"
    using token_parse_exact [OF ok rtranclp.rtrancl_refl, of ?c 0 "token_format ?h ?c ?hid"] by blast
  have "r = Inr \<lparr>v_id = ?hid\<rparr>" using iff [of "\<lparr>v_id = ?hid\<rparr>"] by (simp add: binding_generation_one_def)
  then show ?thesis using r by (simp add: Let_def)
qed

text \<open>
  A handle argument is looked up by its text. For any code units of an argument, of
  token length or not, ASCII or not, the operation runs on the UTF-8 bytes of the text the
  strict decoder yields, and on an unpaired surrogate it does not run and the typed error
  is returned: the allocation-free path changes nothing.
\<close>

lemma utf16_token_lookup_strict:
  assumes "list_all (\<lambda>u. u < 0x10000) units"
  shows "with_utf16_handle_token units argument operation =
    Returns (case from_utf16 units of Some s \<Rightarrow> operation (as_bytes s)
                                    | None \<Rightarrow> Inl (Input argument InvalidUtf16))"
proof -
  have general: "bind_run (decode_owned units argument)
      (\<lambda>r. Returns (case r of Inl e \<Rightarrow> Inl e | Inr token \<Rightarrow> operation token)) =
    Returns (case decoded units argument of Inl e \<Rightarrow> Inl e | Inr token \<Rightarrow> operation token)"
    using decode_owned_eq [OF assms] by simp
  have fast: "operation token = (case decoded units argument of Inl e \<Rightarrow> Inl e | Inr token \<Rightarrow> operation token)"
    if "ascii_units units = Some token" for token
  proof -
    have "list_all (\<lambda>u. u < 0x80) units" "token = units" using ascii_units_Some [OF that] by simp_all
    moreover have "map (\<lambda>u. u mod 256) units = units"
      using calculation(1) by (induction units) auto
    ultimately show ?thesis using decode_ascii by simp
  qed
  have "with_utf16_handle_token units argument operation =
    Returns (case decoded units argument of Inl e \<Rightarrow> Inl e | Inr token \<Rightarrow> operation token)"
    by (cases "ascii_units units") (simp_all add: with_utf16_handle_token_def Let_def general fast)
  then show ?thesis by (simp add: decoded_def split: option.splits)
qed

text \<open>
  The authenticated message is unambiguous. Two tags are computed over the same message
  only for the same session, slot and generation, so a tag of one identity is a tag of
  another only if the keyed hash collides.
\<close>

lemma authentication_message_injective:
  "authentication_message sess hid = authentication_message sess' hid' \<longleftrightarrow> sess = sess' \<and> hid = hid'"
proof
  assume "authentication_message sess hid = authentication_message sess' hid'"
  then have "to_le_bytes 8 sess = to_le_bytes 8 sess'" "to_le_bytes 4 (slot hid) = to_le_bytes 4 (slot hid')"
    "to_le_bytes 8 (binding_generation_get (generation hid)) = to_le_bytes 8 (binding_generation_get (generation hid'))"
    by (simp_all add: authentication_message_fields)
  then have "sess = sess'" "slot hid = slot hid'"
    "binding_generation_get (generation hid) = binding_generation_get (generation hid')"
    by (auto dest: to_le_bytes_inj)
  then show "sess = sess' \<and> hid = hid'"
    by (cases "generation hid"; cases "generation hid'") simp_all
qed simp

end
