(* ===== verification/Reference_Area.thy ===== *)
theory Reference_Area
  imports Xlfn_Common Errors
begin

text \<open>
  Excel reference arguments (\<open>crates/xlfn/src/reference.rs\<close>, with the header validation of
  \<open>XlValueRef::from_raw\<close> in \<open>crates/xlfn/src/value/raw.rs\<close>): validated rectangular areas, their
  sizes, their A1 text, and the iteration over the areas of a reference. Coordinates are
  words of 32 bits, signed as the host sends them. A pointer is null, misaligned or gives
  what is behind it.
\<close>

section \<open>Definitions\<close>

subsection \<open>What the host sends\<close>

record XLREF12 =
  rw_first :: "32 word"
  rw_last :: "32 word"
  col_first :: "32 word"
  col_last :: "32 word"

datatype 'a pointer = Null | Misaligned | At 'a

text \<open>
  \<open>XLMREF12\<close> is a count and that many areas behind it. The members of the union of
  \<open>XLOPER12\<close> are fields here, of which only the one that \<open>xltype\<close> selects is read.
\<close>

record XLMREF12 =
  m_count :: nat
  reftbl :: "XLREF12 list"

record XLOPER12 =
  xltype :: u32
  sref_count :: nat
  sref_reference :: XLREF12
  mref_references :: "XLMREF12 pointer"
  mref_sheet_id :: nat

definition XLTYPE_MASK :: u32 where "XLTYPE_MASK = 0x0FFF"
definition XLBIT_XL_FREE :: u32 where "XLBIT_XL_FREE = 0x1000"
definition XLBIT_DLL_FREE :: u32 where "XLBIT_DLL_FREE = 0x4000"

definition base_type :: "XLOPER12 \<Rightarrow> nat" where
  "base_type raw = unat (xltype raw AND XLTYPE_MASK)"

definition from_array_cell :: "XLOPER12 \<Rightarrow> XLOPER12 XllResult" where
  "from_array_cell raw =
     (if xltype raw AND NOT (XLTYPE_MASK OR XLBIT_XL_FREE OR XLBIT_DLL_FREE) \<noteq> 0
      then Inl (Input ''<raw>'' (Malformed ''unknown xltype flag''))
      else if value_type_from_raw (base_type raw) = None
      then Inl (Input ''<raw>'' (Malformed ''unknown base xltype''))
      else Inr raw)"

fun value_from_raw :: "XLOPER12 pointer \<Rightarrow> XLOPER12 XllResult" where
  "value_from_raw Misaligned = Inl (Input ''<raw>'' (Malformed ''misaligned value pointer''))"
| "value_from_raw Null = Inl (Input ''<raw>'' NullPointer)"
| "value_from_raw (At raw) = from_array_cell raw"

text \<open>The \<open>unreachable!()\<close> of \<open>value_type\<close> is \<open>Aborts\<close>.\<close>

definition value_type :: "XLOPER12 \<Rightarrow> XlValueType run" where
  "value_type raw = unwrap_or_abort (value_type_from_raw (base_type raw))"

subsection \<open>Areas\<close>

definition EXCEL_MAX_ROW :: int where "EXCEL_MAX_ROW = 1048575"
definition EXCEL_MAX_COLUMN :: int where "EXCEL_MAX_COLUMN = 16383"
definition MAX_REFERENCE_AREAS :: nat where "MAX_REFERENCE_AREAS = 1024"

record ReferenceArea =
  first_row :: u32
  last_row :: u32
  first_column :: u32
  last_column :: u32

definition area_of_raw :: "XLREF12 \<Rightarrow> ReferenceArea" where
  "area_of_raw raw = \<lparr>first_row = rw_first raw, last_row = rw_last raw,
                      first_column = col_first raw, last_column = col_last raw\<rparr>"

definition area_parse :: "XLREF12 \<Rightarrow> string \<Rightarrow> ReferenceArea XllResult" where
  "area_parse raw argument =
     (if sint (rw_first raw) < 0 \<or> sint (rw_last raw) < sint (rw_first raw) \<or>
         sint (rw_last raw) > EXCEL_MAX_ROW \<or> sint (col_first raw) < 0 \<or>
         sint (col_last raw) < sint (col_first raw) \<or> sint (col_last raw) > EXCEL_MAX_COLUMN
      then Inl (Input argument (Malformed ''invalid reference area''))
      else Inr (area_of_raw raw))"

definition row_count :: "ReferenceArea \<Rightarrow> u32" where
  "row_count a = last_row a - first_row a + 1"

definition column_count :: "ReferenceArea \<Rightarrow> u32" where
  "column_count a = last_column a - first_column a + 1"

definition cell_count :: "ReferenceArea \<Rightarrow> u64" where
  "cell_count a = ucast (row_count a) * ucast (column_count a)"

subsection \<open>The A1 text\<close>

text \<open>
  The label is written into a buffer of three bytes from its end; a fourth letter would be
  written outside of it. \<open>decimal_text\<close> is the standard library's text of an unsigned number.
\<close>

fun column_label :: "nat \<Rightarrow> u32 \<Rightarrow> ustr \<Rightarrow> ustr run" where
  "column_label start number label =
     (if number = 0 then Returns label
      else case start of
        0 \<Rightarrow> Aborts
      | Suc s \<Rightarrow> column_label s ((number - 1) div 26) ((0x41 + unat ((number - 1) mod 26)) # label))"

fun decimal_text :: "nat \<Rightarrow> ustr" where
  "decimal_text n = (if n < 10 then [0x30 + n] else decimal_text (n div 10) @ [0x30 + n mod 10])"

declare column_label.simps [simp del] decimal_text.simps [simp del]

definition cell_text :: "u32 \<Rightarrow> u32 \<Rightarrow> ustr run" where
  "cell_text row column =
     bind_run (column_label 3 (column + 1) []) (\<lambda>label. Returns (label @ decimal_text (unat (row + 1))))"

definition area_fmt :: "ReferenceArea \<Rightarrow> ustr run" where
  "area_fmt a =
     bind_run (cell_text (first_row a) (first_column a)) (\<lambda>out.
       if row_count a \<noteq> 1 \<or> column_count a \<noteq> 1
       then bind_run (cell_text (last_row a) (last_column a)) (\<lambda>last_cell. Returns (out @ 0x3A # last_cell))
       else Returns out)"

subsection \<open>References\<close>

datatype ReferenceKind = SameSheet ReferenceArea | Sheet nat "XLREF12 list"

record ExcelReference =
  ref_raw :: XLOPER12
  ref_kind :: ReferenceKind

definition sheet_id :: "ExcelReference \<Rightarrow> nat option" where
  "sheet_id r = (case ref_kind r of SameSheet _ \<Rightarrow> None | Sheet s _ \<Rightarrow> Some s)"

definition is_multi_area :: "ExcelReference \<Rightarrow> bool" where
  "is_multi_area r = (case ref_kind r of SameSheet _ \<Rightarrow> False | Sheet _ areas \<Rightarrow> length areas > 1)"

datatype ReferenceAreas = One "ReferenceArea option" | Many "XLREF12 list"

definition areas :: "ExcelReference \<Rightarrow> ReferenceAreas" where
  "areas r = (case ref_kind r of SameSheet area \<Rightarrow> One (Some area) | Sheet _ as \<Rightarrow> Many as)"

fun areas_next :: "ReferenceAreas \<Rightarrow> ReferenceArea option \<times> ReferenceAreas" where
  "areas_next (One area) = (area, One None)"
| "areas_next (Many []) = (None, Many [])"
| "areas_next (Many (a # as)) = (Some (area_of_raw a), Many as)"

fun size_hint :: "ReferenceAreas \<Rightarrow> nat" where
  "size_hint (One area) = (if area = None then 0 else 1)"
| "size_hint (Many as) = length as"

text \<open>The loop over the table stops at the first invalid area.\<close>

fun parse_all :: "XLREF12 list \<Rightarrow> string \<Rightarrow> unit XllResult" where
  "parse_all [] argument = Inr ()"
| "parse_all (a # as) argument =
     (case area_parse a argument of Inl e \<Rightarrow> Inl e | Inr _ \<Rightarrow> parse_all as argument)"

definition reference_kind_of :: "XLOPER12 \<Rightarrow> string \<Rightarrow> XlValueType \<Rightarrow> ReferenceKind XllResult" where
  "reference_kind_of raw argument actual = (case actual of
       XlSimpleReference \<Rightarrow>
         if sref_count raw \<noteq> 1 then Inl (Input argument (Malformed ''SRef count must be one''))
         else (case area_parse (sref_reference raw) argument of Inl e \<Rightarrow> Inl e | Inr a \<Rightarrow> Inr (SameSheet a))
     | XlReference \<Rightarrow>
         (case mref_references raw of
            Null \<Rightarrow> Inl (Input argument NullPointer)
          | Misaligned \<Rightarrow> Inl (Input argument (Malformed ''misaligned reference table pointer''))
          | At table \<Rightarrow>
              let count = m_count table in
              if count = 0 \<or> count > MAX_REFERENCE_AREAS
              then Inl (Input argument (Malformed ''invalid reference area count''))
              else let as = take count (reftbl table) in
                (case parse_all as argument of Inl e \<Rightarrow> Inl e | Inr _ \<Rightarrow> Inr (Sheet (mref_sheet_id raw) as)))
     | _ \<Rightarrow> Inl (Input argument (WrongType ''reference'' actual)))"

definition from_excel_reference :: "XLOPER12 \<Rightarrow> string \<Rightarrow> ExcelReference XllResult run" where
  "from_excel_reference raw argument =
     bind_run (value_type raw) (\<lambda>actual. Returns (case reference_kind_of raw argument actual of
       Inl e \<Rightarrow> Inl e | Inr kind \<Rightarrow> Inr \<lparr>ref_raw = raw, ref_kind = kind\<rparr>))"

definition reference_from_raw :: "string \<Rightarrow> XLOPER12 pointer \<Rightarrow> ExcelReference XllResult run" where
  "reference_from_raw argument raw =
     (case value_from_raw raw of
        Inl (Input _ reason) \<Rightarrow> Returns (Inl (Input argument reason))
      | Inl other \<Rightarrow> Returns (Inl other)
      | Inr borrowed \<Rightarrow> from_excel_reference borrowed argument)"

section \<open>Sizes\<close>

definition area_in_grid :: "ReferenceArea \<Rightarrow> bool" where
  "area_in_grid a \<longleftrightarrow> unat (first_row a) \<le> unat (last_row a) \<and> unat (last_row a) < EXCEL_GRID_ROWS \<and>
     unat (first_column a) \<le> unat (last_column a) \<and> unat (last_column a) < EXCEL_GRID_COLUMNS"

definition cells :: "ReferenceArea \<Rightarrow> (nat \<times> nat) set" where
  "cells a = {unat (first_row a)..unat (last_row a)} \<times> {unat (first_column a)..unat (last_column a)}"

lemma sint_nonneg: "0 \<le> sint (w :: 32 word) \<Longrightarrow> sint w = int (unat w)"
  using uint_sint [of w] sint_lt [of w] by (simp add: take_bit_eq_mod)

lemma sint_small:
  assumes "unat (w :: 32 word) < 2 ^ 31"
  shows "sint w = int (unat w)"
proof -
  have "int (unat w) < 2 ^ 31" using assms by (simp only: flip: of_nat_less_iff [where 'a = int]) simp
  moreover have "- (2 ^ 31) \<le> uint w" by (rule order_trans [OF _ uint_ge_0]) simp
  ultimately show ?thesis by (simp add: sint_uint signed_take_bit_int_eq_self)
qed

lemma area_parse_iff:
  "area_parse raw argument = Inr a \<longleftrightarrow> a = area_of_raw raw \<and> area_in_grid a"
proof -
  have "\<not> (sint (rw_first raw) < 0 \<or> sint (rw_last raw) < sint (rw_first raw) \<or>
         sint (rw_last raw) > EXCEL_MAX_ROW \<or> sint (col_first raw) < 0 \<or>
         sint (col_last raw) < sint (col_first raw) \<or> sint (col_last raw) > EXCEL_MAX_COLUMN)
    \<longleftrightarrow> area_in_grid (area_of_raw raw)" (is "\<not> ?bad \<longleftrightarrow> _")
  proof
    assume "\<not> ?bad"
    then have "0 \<le> sint (rw_first raw)" "0 \<le> sint (rw_last raw)" "0 \<le> sint (col_first raw)"
      "0 \<le> sint (col_last raw)" by linarith+
    then show "area_in_grid (area_of_raw raw)"
      using \<open>\<not> ?bad\<close> by (simp add: sint_nonneg area_in_grid_def area_of_raw_def EXCEL_MAX_ROW_def
          EXCEL_MAX_COLUMN_def EXCEL_GRID_ROWS_def EXCEL_GRID_COLUMNS_def del: of_nat_unat)
  next
    assume "area_in_grid (area_of_raw raw)"
    then show "\<not> ?bad"
      by (simp add: sint_small area_in_grid_def area_of_raw_def EXCEL_MAX_ROW_def
          EXCEL_MAX_COLUMN_def EXCEL_GRID_ROWS_def EXCEL_GRID_COLUMNS_def del: of_nat_unat)
  qed
  then show ?thesis by (auto simp: area_parse_def)
qed

lemma area_parse_Inl:
  "area_parse raw argument = Inl e \<longleftrightarrow>
   \<not> area_in_grid (area_of_raw raw) \<and> e = Input argument (Malformed ''invalid reference area'')"
  using area_parse_iff [of raw argument "area_of_raw raw"] by (auto simp: area_parse_def split: if_splits)

lemma inclusive_count:
  assumes "unat f \<le> unat l" "unat l < 2 ^ 31"
  shows "unat (l - f + 1 :: u32) = unat l - unat f + 1"
proof -
  have "unat (l - f) = unat l - unat f" using assms(1) by (simp add: unat_sub_if' word_le_nat_alt)
  then show ?thesis using assms by (simp add: unat_plus_if')
qed

lemma area_counts:
  assumes "area_in_grid a"
  shows "unat (row_count a) = unat (last_row a) - unat (first_row a) + 1"
    "unat (column_count a) = unat (last_column a) - unat (first_column a) + 1"
    "unat (cell_count a) = unat (row_count a) * unat (column_count a)"
proof -
  show r: "unat (row_count a) = unat (last_row a) - unat (first_row a) + 1"
    using assms by (simp add: row_count_def inclusive_count area_in_grid_def EXCEL_GRID_ROWS_def)
  show c: "unat (column_count a) = unat (last_column a) - unat (first_column a) + 1"
    using assms by (simp add: column_count_def inclusive_count area_in_grid_def EXCEL_GRID_COLUMNS_def)
  have "unat (row_count a) \<le> 2 ^ 20" "unat (column_count a) \<le> 2 ^ 14"
    using assms unfolding r c area_in_grid_def EXCEL_GRID_ROWS_def EXCEL_GRID_COLUMNS_def
    by (auto intro: le_trans [OF diff_le_self] simp: Suc_le_eq)
  then have "unat (row_count a) * unat (column_count a) \<le> 2 ^ 20 * 2 ^ 14" by (rule mult_le_mono)
  then show "unat (cell_count a) = unat (row_count a) * unat (column_count a)"
    by (simp add: cell_count_def unat_word_ariths widen_u32)
qed

section \<open>The text of an area\<close>

text \<open>The cell a text names in A1 style: letters in base 26, then the decimal row.\<close>

definition denotes_cell :: "ustr \<Rightarrow> nat \<Rightarrow> nat \<Rightarrow> bool" where
  "denotes_cell t row column \<longleftrightarrow> (\<exists>ls ds. t = ls @ ds \<and> ls \<noteq> [] \<and> length ls \<le> 3 \<and>
     list_all is_ascii_alphabetic ls \<and> list_all is_ascii_digit ds \<and>
     column_fold ls = column \<and> decimal_value ds = row)"

lemma digit_not_alphabetic: "is_ascii_digit c \<Longrightarrow> \<not> is_ascii_alphabetic c"
  by (auto simp: is_ascii_digit_def is_ascii_alphabetic_def)

lemma split_letters:
  assumes "list_all is_ascii_alphabetic ls" "list_all is_ascii_digit ds"
  shows "takeWhile is_ascii_alphabetic (ls @ ds) = ls"
proof -
  have "takeWhile is_ascii_alphabetic ds = []"
    using assms(2) digit_not_alphabetic by (cases ds) auto
  then show ?thesis using assms(1) by (simp add: list_all_iff takeWhile_append2)
qed

lemma denotes_cell_unique:
  assumes "denotes_cell t r c" "denotes_cell t r' c'"
  shows "r = r' \<and> c = c'"
proof -
  obtain ls ds ls' ds' where "t = ls @ ds" "t = ls' @ ds'" "list_all is_ascii_alphabetic ls"
    "list_all is_ascii_digit ds" "list_all is_ascii_alphabetic ls'" "list_all is_ascii_digit ds'"
    and v: "column_fold ls = c" "decimal_value ds = r" "column_fold ls' = c'" "decimal_value ds' = r'"
    using assms unfolding denotes_cell_def by blast
  then have "ls = ls' \<and> ds = ds'" using split_letters by (metis append_same_eq same_append_eq)
  then show ?thesis using v by simp
qed

lemma column_fold_snoc: "column_fold (ls @ [c]) = column_fold ls * 26 + (to_ascii_uppercase c - 0x41 + 1)"
  by (simp add: column_fold_def)

primrec label_bound :: "nat \<Rightarrow> nat" where
  "label_bound 0 = 1"
| "label_bound (Suc s) = 26 * label_bound s + 1"

lemma column_label_spec:
  "unat number < label_bound start \<Longrightarrow>
   \<exists>ls. column_label start number label = Returns (ls @ label) \<and> list_all is_ascii_alphabetic ls \<and>
     length ls \<le> start \<and> column_fold ls = unat number"
proof (induction start arbitrary: number label)
  case 0
  then show ?case by (simp add: column_label.simps unat_eq_0 column_fold_def)
next
  case (Suc s)
  show ?case
  proof (cases "number = 0")
    case True
    then show ?thesis by (auto simp: column_label.simps column_fold_def intro!: exI [of _ "[]"])
  next
    case False
    let ?m = "number - 1" and ?c = "0x41 + unat ((number - 1) mod 26)"
    have pos: "0 < unat number" using False by (simp add: unat_gt_0)
    have m: "unat ?m = unat number - 1" using False by (simp add: unat_sub_if' word_le_nat_alt Suc_le_eq pos)
    have q: "unat (?m div 26) = unat ?m div 26" "unat (?m mod 26) = unat ?m mod 26"
      by (simp_all add: unat_div unat_mod)
    have "unat (?m div 26) < label_bound s"
      using Suc.prems pos by (simp add: q m less_mult_imp_div_less mult.commute)
    from Suc.IH [OF this] obtain ls where ls: "column_label s (?m div 26) (?c # label) = Returns (ls @ ?c # label)"
      "list_all is_ascii_alphabetic ls" "length ls \<le> s" "column_fold ls = unat ?m div 26"
      using q(1) by metis
    have "unat ?m mod 26 \<le> 25" by (simp add: less_Suc_eq_le [symmetric])
    then have c: "is_ascii_alphabetic ?c" "to_ascii_uppercase ?c - 0x41 = unat ?m mod 26"
      by (simp_all add: is_ascii_alphabetic_def to_ascii_uppercase_def q)
    have "column_fold (ls @ [?c]) = unat number"
      using pos by (simp add: column_fold_snoc ls(4) c(2) m)
    then show ?thesis
      using False ls c(1) by (subst column_label.simps) (auto intro!: exI [of _ "ls @ [?c]"])
  qed
qed

lemma decimal_text_spec:
  "list_all is_ascii_digit (decimal_text n) \<and> decimal_text n \<noteq> [] \<and> decimal_value (decimal_text n) = n"
proof (induction n rule: decimal_text.induct)
  case (1 n)
  have d: "unicode_decimal_digit (0x30 + k) = Some k" "is_ascii_digit (0x30 + k)" if "k < 10" for k
    using that by (simp_all add: unicode_decimal_digit_ascii is_ascii_digit_def)
  show ?case
  proof (cases "n < 10")
    case True
    then show ?thesis using d [of n] by (simp add: decimal_text.simps decimal_value_def)
  next
    case False
    then show ?thesis
      using 1 d [of "n mod 10"] by (simp add: decimal_text.simps [of n] decimal_value_def)
  qed
qed

lemma length_decimal_text: "n < 10 ^ Suc k \<Longrightarrow> length (decimal_text n) \<le> Suc k"
proof (induction k arbitrary: n)
  case (Suc k)
  then have "n div 10 < 10 ^ Suc k" by (simp add: less_mult_imp_div_less)
  then show ?case using Suc.IH [of "n div 10"] by (simp add: decimal_text.simps [of n])
qed (simp add: decimal_text.simps)

lemma cell_text_spec:
  assumes "unat row < EXCEL_GRID_ROWS" "unat column < EXCEL_GRID_COLUMNS"
  shows "\<exists>t. cell_text row column = Returns t \<and> denotes_cell t (unat row + 1) (unat column + 1) \<and> length t \<le> 10"
proof -
  have r: "unat (row + 1) = unat row + 1" and c: "unat (column + 1) = unat column + 1"
    using assms by (simp_all add: unat_plus_if' EXCEL_GRID_ROWS_def EXCEL_GRID_COLUMNS_def)
  have "unat (column + 1) < label_bound 3"
    using assms(2) by (simp add: c EXCEL_GRID_COLUMNS_def numeral_3_eq_3)
  from column_label_spec [OF this, of "[]"] obtain ls where ls: "column_label 3 (column + 1) [] = Returns ls"
    "list_all is_ascii_alphabetic ls" "length ls \<le> 3" "column_fold ls = unat column + 1"
    using c by auto
  have "ls \<noteq> []" using ls(4) by (auto simp: column_fold_def)
  moreover have "length (decimal_text (unat row + 1)) \<le> 7"
    using length_decimal_text [of "unat row + 1" 6] assms(1) by (simp add: EXCEL_GRID_ROWS_def)
  ultimately show ?thesis
    using ls decimal_text_spec [of "unat row + 1"] by (auto simp: cell_text_def denotes_cell_def r)
qed

lemma denotes_cell_ascii: "denotes_cell t r c \<Longrightarrow> list_all (\<lambda>x. x < 0x80 \<and> x \<noteq> 0x3A) t"
proof -
  assume "denotes_cell t r c"
  then have "\<forall>x \<in> set t. is_ascii_alphabetic x \<or> is_ascii_digit x"
    by (auto simp: denotes_cell_def list_all_iff)
  moreover have "is_ascii_alphabetic x \<or> is_ascii_digit x \<Longrightarrow> x < 0x80 \<and> x \<noteq> 0x3A" for x
    by (auto simp: is_ascii_alphabetic_def is_ascii_digit_def)
  ultimately show ?thesis by (simp add: list_all_iff)
qed

lemma reserved_end_in_letters:
  assumes "r \<in> set (map lit [''C'', ''R'', ''TRUE'', ''FALSE''])" "ascii_eq_ignore_case t r" "t \<noteq> []"
  shows "\<not> is_ascii_digit (last t)"
proof -
  have "to_ascii_uppercase (last t) = to_ascii_uppercase (last r)"
    using assms(2,3) by (metis ascii_eq_ignore_case_def last_map map_is_Nil_conv)
  moreover have "to_ascii_uppercase (last r) \<in> {0x43, 0x52, 0x45}"
    using assms(1) by (auto simp: lit_def to_ascii_uppercase_def)
  ultimately show ?thesis by (auto simp: to_ascii_uppercase_def is_ascii_digit_def split: if_splits)
qed

text \<open>No function can be registered under the text of a cell.\<close>

lemma cell_name_rejected:
  assumes "denotes_cell t r c" "1 \<le> r" "r \<le> EXCEL_GRID_ROWS" "c \<le> EXCEL_GRID_COLUMNS" "length t \<le> 255"
  shows "validate_function_name t = Returns (Inl CellReference)"
proof -
  obtain ls ds where t: "t = ls @ ds" "ls \<noteq> []" "length ls \<le> 3" "list_all is_ascii_alphabetic ls"
    "list_all is_ascii_digit ds" "column_fold ls = c" "decimal_value ds = r"
    using assms(1) unfolding denotes_cell_def by blast
  have ds: "ds \<noteq> []" using t(7) assms(2) by (auto simp: decimal_value_def)
  have a1: "is_a1_reference t = Returns True"
    using t assms(2-4) unfolding is_a1_reference_iff names_a1_def by auto
  have "is_ascii_str t"
    using denotes_cell_ascii [OF assms(1)] by (auto simp: is_ascii_str_def is_ascii_char_def list_all_iff)
  then have len: "length (encode_utf16 t) \<le> EXCEL_FUNCTION_NAME_LIMIT"
    using ascii_lengths [of t] assms(5) by (simp add: EXCEL_FUNCTION_NAME_LIMIT_def)
  obtain x xs where xs: "ls = x # xs" using t(2) by (cases ls) auto
  have "is_ascii_digit (last t)" using t(1,5) ds by (simp add: list_all_iff)
  then have res: "\<not> list_ex (ascii_eq_ignore_case t) (map lit [''C'', ''R'', ''TRUE'', ''FALSE''])"
    using reserved_end_in_letters [of _ t] t(1,2) unfolding list_ex_iff by blast
  have "is_function_name_start x" "list_all (\<lambda>c. is_function_name_start c \<or> is_ascii_digit c \<or> c = 0x2E \<or> c = 0x3F) (xs @ ds)"
    using t(4,5) xs by (auto simp: list_all_iff is_function_name_start_def)
  then show ?thesis
    using len res a1 t(1) xs unfolding validate_function_name_def by simp
qed

lemma area_fmt_spec:
  assumes "area_in_grid a"
  shows "\<exists>p q. area_fmt a = Returns (if cell_count a = 1 then p else p @ 0x3A # q) \<and>
    denotes_cell p (unat (first_row a) + 1) (unat (first_column a) + 1) \<and> length p \<le> 10 \<and>
    denotes_cell q (unat (last_row a) + 1) (unat (last_column a) + 1) \<and> length q \<le> 10"
proof -
  have "cell_count a = 1 \<longleftrightarrow> row_count a = 1 \<and> column_count a = 1"
    using area_counts(3) [OF assms] by (simp add: word_unat_eq_iff)
  moreover have "unat (first_row a) < EXCEL_GRID_ROWS" "unat (first_column a) < EXCEL_GRID_COLUMNS"
    "unat (last_row a) < EXCEL_GRID_ROWS" "unat (last_column a) < EXCEL_GRID_COLUMNS"
    using assms by (auto simp: area_in_grid_def)
  ultimately show ?thesis
    using cell_text_spec [of "first_row a" "first_column a"] cell_text_spec [of "last_row a" "last_column a"]
    by (auto simp: area_fmt_def)
qed

lemma split_at_colon:
  assumes "denotes_cell p r c" "denotes_cell p' r' c'" "p @ 0x3A # q = p' @ 0x3A # q'"
  shows "p = p' \<and> q = q'"
proof -
  have "0x3A \<notin> set p" "0x3A \<notin> set p'" using assms(1,2) denotes_cell_ascii by (auto simp: list_all_iff)
  then show ?thesis using assms(3) by (auto simp: append_eq_append_conv2 Cons_eq_append_conv append_eq_Cons_conv)
qed

lemma single_cell:
  assumes "area_in_grid a" "cell_count a = 1"
  shows "unat (last_row a) = unat (first_row a)" "unat (last_column a) = unat (first_column a)"
proof -
  have "unat (row_count a) * unat (column_count a) = 1" using area_counts(3) [OF assms(1)] assms(2) by simp
  then have "unat (row_count a) = 1" "unat (column_count a) = 1" by auto
  then show "unat (last_row a) = unat (first_row a)" "unat (last_column a) = unat (first_column a)"
    using area_counts(1,2) [OF assms(1)] assms(1) by (auto simp: area_in_grid_def)
qed

lemma area_eqI:
  fixes a b :: ReferenceArea
  assumes "unat (first_row a) = unat (first_row b)" "unat (last_row a) = unat (last_row b)"
    "unat (first_column a) = unat (first_column b)" "unat (last_column a) = unat (last_column b)"
  shows "a = b"
  using assms by (simp add: word_unat_eq_iff)

lemma area_fmt_inj:
  assumes "area_in_grid a" "area_in_grid b" "area_fmt a = area_fmt b"
  shows "a = b"
proof -
  obtain p q where a: "area_fmt a = Returns (if cell_count a = 1 then p else p @ 0x3A # q)"
    "denotes_cell p (unat (first_row a) + 1) (unat (first_column a) + 1)"
    "denotes_cell q (unat (last_row a) + 1) (unat (last_column a) + 1)"
    using area_fmt_spec [OF assms(1)] by blast
  obtain p' q' where b: "area_fmt b = Returns (if cell_count b = 1 then p' else p' @ 0x3A # q')"
    "denotes_cell p' (unat (first_row b) + 1) (unat (first_column b) + 1)"
    "denotes_cell q' (unat (last_row b) + 1) (unat (last_column b) + 1)"
    using area_fmt_spec [OF assms(2)] by blast
  have nocolon: "0x3A \<notin> set p" "0x3A \<notin> set p'"
    using a(2) b(2) denotes_cell_ascii by (auto simp: list_all_iff)
  have texts: "(if cell_count a = 1 then p else p @ 0x3A # q) = (if cell_count b = 1 then p' else p' @ 0x3A # q')"
    using assms(3) a(1) b(1) by simp
  then have single: "cell_count a = 1 \<longleftrightarrow> cell_count b = 1"
    using nocolon by (auto split: if_splits)
  show ?thesis
  proof (cases "cell_count a = 1")
    case True
    then have "p = p'" using texts single by simp
    then have "unat (first_row a) = unat (first_row b)" "unat (first_column a) = unat (first_column b)"
      using denotes_cell_unique [OF a(2)] b(2) by auto
    then show ?thesis
      using single_cell [OF assms(1) True] single_cell [OF assms(2)] True single by (auto intro!: area_eqI)
  next
    case False
    then have "p = p' \<and> q = q'" using texts single split_at_colon [OF a(2) b(2)] by simp
    then show ?thesis
      using denotes_cell_unique [OF a(2)] denotes_cell_unique [OF a(3)] b(2,3) by (auto intro!: area_eqI)
  qed
qed

section \<open>Iteration\<close>

lemma size_hint_next: "areas_next it = (Some a, it') \<Longrightarrow> size_hint it = Suc (size_hint it')"
  by (cases it rule: areas_next.cases) auto

text \<open>What a \<open>for\<close> loop over the iterator sees.\<close>

function collect_areas :: "ReferenceAreas \<Rightarrow> ReferenceArea list" where
  "collect_areas it = (case areas_next it of (None, _) \<Rightarrow> [] | (Some a, it') \<Rightarrow> a # collect_areas it')"
  by pat_completeness auto
termination
proof (relation "measure size_hint")
  show "(it', it) \<in> measure size_hint"
    if "(x, it') = areas_next it" "x = Some a" for it x it' a
    using that size_hint_next [of it a it'] by simp
qed simp

declare collect_areas.simps [simp del]

lemma collect_One: "collect_areas (One m) = (case m of None \<Rightarrow> [] | Some a \<Rightarrow> [a])"
  by (cases m) (simp_all add: collect_areas.simps)

lemma collect_Many: "collect_areas (Many as) = map area_of_raw as"
  by (induction as) (simp_all add: collect_areas.simps)

lemma size_hint_exact: "length (collect_areas it) = size_hint it"
  by (cases it) (auto simp: collect_One collect_Many split: option.splits)

lemma parse_all_Inr: "parse_all as argument = Inr () \<longleftrightarrow> list_all (\<lambda>a. area_in_grid (area_of_raw a)) as"
  by (induction as) (auto simp: area_parse_iff area_parse_Inl split: sum.splits)

section \<open>What references promise\<close>

text \<open>
  A validated area is a rectangle of the grid and its sizes are exact. A raw area is
  accepted exactly when its coordinates are ordered and within Excel's grid; then the row,
  column and cell counts, computed in wrapping 32-bit and 64-bit arithmetic, are the
  numbers of rows, columns and cells of the rectangle, up to the whole sheet.
\<close>

lemma area_sizes_exact:
  "(area_parse raw argument = Inr a \<longleftrightarrow> a = area_of_raw raw \<and> area_in_grid a) \<and>
   (area_parse raw argument = Inr a \<longrightarrow>
      unat (row_count a) = card {unat (first_row a)..unat (last_row a)} \<and>
      unat (column_count a) = card {unat (first_column a)..unat (last_column a)} \<and>
      unat (cell_count a) = card (cells a) \<and> unat (cell_count a) \<le> EXCEL_GRID_ROWS * EXCEL_GRID_COLUMNS)"
proof (intro conjI impI)
  assume "area_parse raw argument = Inr a"
  then have a: "area_in_grid a" unfolding area_parse_iff by blast
  then show r: "unat (row_count a) = card {unat (first_row a)..unat (last_row a)}"
    and c: "unat (column_count a) = card {unat (first_column a)..unat (last_column a)}"
    by (auto simp: area_counts area_in_grid_def)
  then show n: "unat (cell_count a) = card (cells a)"
    by (simp add: area_counts(3) [OF a] cells_def card_cartesian_product)
  have "unat (row_count a) \<le> EXCEL_GRID_ROWS" "unat (column_count a) \<le> EXCEL_GRID_COLUMNS"
    using a unfolding area_counts(1,2) [OF a] area_in_grid_def by linarith+
  then show "unat (cell_count a) \<le> EXCEL_GRID_ROWS * EXCEL_GRID_COLUMNS"
    unfolding area_counts(3) [OF a] by (rule mult_le_mono)
qed (rule area_parse_iff)

text \<open>
  C38: the A1 text names the area. Formatting a validated area never writes outside its
  three-byte buffer; the text is the top-left cell, followed by a colon and the
  bottom-right cell unless the area is one cell; the cells are spelled so that reading
  letters in base 26 and digits in base 10 returns the coordinates. Different areas have
  different texts, and no function can be registered under the text of a cell.
\<close>

theorem area_text_names_area:
  assumes "area_parse raw argument = Inr a" "area_parse raw' argument' = Inr b"
  shows "(\<exists>p q. area_fmt a = Returns (if cell_count a = 1 then p else p @ 0x3A # q) \<and>
      denotes_cell p (unat (first_row a) + 1) (unat (first_column a) + 1) \<and>
      denotes_cell q (unat (last_row a) + 1) (unat (last_column a) + 1) \<and>
      validate_function_name p = Returns (Inl CellReference) \<and>
      validate_function_name q = Returns (Inl CellReference)) \<and>
    (area_fmt a = area_fmt b \<longleftrightarrow> a = b)"
proof -
  have a: "area_in_grid a" and b: "area_in_grid b" using assms unfolding area_parse_iff by blast+
  obtain p q where pq: "area_fmt a = Returns (if cell_count a = 1 then p else p @ 0x3A # q)"
    "denotes_cell p (unat (first_row a) + 1) (unat (first_column a) + 1)" "length p \<le> 10"
    "denotes_cell q (unat (last_row a) + 1) (unat (last_column a) + 1)" "length q \<le> 10"
    using area_fmt_spec [OF a] by blast
  have "validate_function_name p = Returns (Inl CellReference)"
    using a pq(3) by (intro cell_name_rejected [OF pq(2)]) (auto simp: area_in_grid_def)
  moreover have "validate_function_name q = Returns (Inl CellReference)"
    using a pq(5) by (intro cell_name_rejected [OF pq(4)]) (auto simp: area_in_grid_def)
  ultimately show ?thesis using pq area_fmt_inj [OF a b] by blast
qed

theorem area_text_names_area_witness:
  "let a = \<lparr>first_row = 8, last_row = 8, first_column = 701, last_column = 701\<rparr>;
       b = \<lparr>first_row = 8, last_row = 9, first_column = 701, last_column = 701\<rparr> in
   area_fmt a \<noteq> area_fmt b \<and> (\<exists>p. denotes_cell p 9 702 \<and> validate_function_name p = Returns (Inl CellReference))"
proof -
  let ?a = "\<lparr>rw_first = 8, rw_last = 8, col_first = 701, col_last = 701\<rparr>"
  let ?b = "\<lparr>rw_first = 8, rw_last = 9, col_first = 701, col_last = 701\<rparr>"
  have "area_parse ?a ''x'' = Inr (area_of_raw ?a)" "area_parse ?b ''x'' = Inr (area_of_raw ?b)"
    by (simp_all add: area_parse_iff area_in_grid_def area_of_raw_def EXCEL_GRID_ROWS_def EXCEL_GRID_COLUMNS_def)
  from area_text_names_area [OF this] show ?thesis
    by (auto simp: area_of_raw_def Let_def)
qed

text \<open>
  A reference argument is validated completely. For any pointer and any value behind it
  the conversion returns; the areas of a reference it accepts are at most 1024 rectangles of
  the grid, iterating yields them all in the host's order with an exact size hint, and the
  reference is multi-area exactly if there is more than one. Every refusal names the
  argument.
\<close>

lemma reference_validated:
  "\<exists>r. reference_from_raw argument raw = Returns r \<and>
     (case r of
        Inl e \<Rightarrow> (\<exists>reason. e = Input argument reason)
      | Inr ref \<Rightarrow>
          list_all area_in_grid (collect_areas (areas ref)) \<and>
          length (collect_areas (areas ref)) = size_hint (areas ref) \<and>
          (is_multi_area ref \<longleftrightarrow> length (collect_areas (areas ref)) > 1) \<and>
          length (collect_areas (areas ref)) \<le> 1024 \<and>
          raw = At (ref_raw ref) \<and>
          collect_areas (areas ref) = map area_of_raw
            (case sheet_id ref of None \<Rightarrow> [sref_reference (ref_raw ref)]
             | Some _ \<Rightarrow> (case mref_references (ref_raw ref) of At t \<Rightarrow> take (m_count t) (reftbl t) | _ \<Rightarrow> [])))"
proof (cases "value_from_raw raw")
  case (Inl e)
  then have "\<exists>reason. e = Input ''<raw>'' reason"
    by (cases raw) (auto simp: from_array_cell_def split: if_splits)
  then show ?thesis using Inl by (auto simp: reference_from_raw_def)
next
  case (Inr v)
  then obtain ty where v: "raw = At v" "value_type_from_raw (base_type v) = Some ty"
    by (cases raw) (auto simp: from_array_cell_def split: if_splits)
  then have run: "reference_from_raw argument raw = Returns (case reference_kind_of v argument ty of
      Inl e \<Rightarrow> Inl e | Inr kind \<Rightarrow> Inr \<lparr>ref_raw = v, ref_kind = kind\<rparr>)"
    using Inr by (simp add: reference_from_raw_def from_excel_reference_def value_type_def)
  show ?thesis
  proof (cases "reference_kind_of v argument ty")
    case (Inl e)
    have "\<exists>reason. f = Input argument reason" if "parse_all as argument = Inl f" for f as
      using that by (induction as) (auto simp: area_parse_def split: sum.splits if_splits)
    then have "\<exists>reason. e = Input argument reason"
      using Inl by (auto simp: reference_kind_of_def Let_def area_parse_Inl
          split: XlValueType.splits if_splits sum.splits pointer.splits)
    then show ?thesis using run Inl by auto
  next
    case (Inr kind)
    then consider (same) a where "kind = SameSheet a" "a = area_of_raw (sref_reference v)" "area_in_grid a"
      | (sheet) t where "mref_references v = At t" "m_count t \<le> 1024" "kind = Sheet (mref_sheet_id v) (take (m_count t) (reftbl t))"
          "list_all (\<lambda>a. area_in_grid (area_of_raw a)) (take (m_count t) (reftbl t))"
      by (auto simp: reference_kind_of_def Let_def area_parse_iff parse_all_Inr MAX_REFERENCE_AREAS_def
          split: XlValueType.splits if_splits sum.splits pointer.splits)
    then show ?thesis
      using run Inr v(1)
      by cases (auto simp: areas_def collect_One collect_Many is_multi_area_def sheet_id_def list_all_iff)
  qed
qed

end
