(* ===== verification/Rotating_Domain.thy ===== *)
theory Rotating_Domain
  imports Striped_Gate
begin

text \<open>
  The rotating read domain with its retirement queues
  (\<open>crates/xlfn-kernel/src/rotating_read_domain.rs\<close> and its submodules): readers enter the
  published one of two generations, writers withdraw items and register them in the queue of
  the generation they find current, and a transition seals the old generation, publishes the
  other, waits for the old readers and hands the old queue out for disposal. The machine has
  any number of readers, writers and managers and interleaves their atomic operations.

  A generation is a striped gate: \<open>stripes\<close> counter words, sealed, observed and reopened one
  after the other, and a notification mutex (\<open>idle.lock\<close> of \<open>drain_gate.rs\<close>), which a reader
  takes for the tail of its last release and a transition to seal, to observe and to reopen the
  stripes. What a gate does to wake a waiter is the subject of \<open>Drain_Gate\<close>: here a parked
  waiter may lock the mutex again at any time. The control mutexes of the two gates are left
  out, since only the holder of the transition mutex takes them. Items are ghost state: \<open>live\<close> are those a reader inside a
  generation can reach, \<open>known\<close> those ever published, \<open>disposed\<close> those handed out for disposal.
\<close>

section \<open>Definitions\<close>

subsection \<open>State\<close>

datatype GenerationIndex = Gen0 | Gen1

text \<open>\<open>index ^ 1\<close>\<close>

fun other :: "GenerationIndex \<Rightarrow> GenerationIndex" where
  "other Gen0 = Gen1"
| "other Gen1 = Gen0"

text \<open>
  A reader between the load of the current generation and its acquisition has selected; one
  that holds a permit has reached some items; a release may retain the count until it has
  locked the notification mutex. After the count is released under the mutex, the tail of the
  release notifies when the stripe became idle, and unlocks.
\<close>

datatype 'x reader_pc =
  ROut
| RSelected GenerationIndex nat
| RReading GenerationIndex nat "'x set"
| RRetained GenerationIndex nat
| RLocked GenerationIndex nat
| RNotify GenerationIndex
| RUnlocking GenerationIndex

datatype 'x writer_pc =
  WIdle
| WWithdrawn 'x
| WSelected 'x GenerationIndex
| WLocked 'x GenerationIndex
| WChecked 'x GenerationIndex
| WAppended GenerationIndex

text \<open>
  \<open>quiesce\<close> and \<open>try_quiesce\<close> are \<open>Blocking\<close>; the flag says that a pending rotation is being
  finished first and another one follows. \<open>IdleOnly\<close> is \<open>try_quiesce_if_idle\<close>, \<open>Polling\<close> is
  \<open>poll_quiesce\<close>.
\<close>

datatype mode = Blocking bool | IdleOnly | Polling

datatype rotation_pc =
  MIdle
| MLocked mode
| MNew mode GenerationIndex
| MReplacementSealed mode GenerationIndex nat
| MReplacementLock mode GenerationIndex
| MReplacing mode GenerationIndex nat bool
| MSealLock mode GenerationIndex
| MSealing mode GenerationIndex nat
| MTrySealing GenerationIndex nat
| MUndoing GenerationIndex nat nat
| MUndone GenerationIndex
| MSealed mode GenerationIndex
| MPublish mode GenerationIndex
| MReopenLock mode GenerationIndex
| MReopenCheck mode GenerationIndex nat
| MReopening mode GenerationIndex nat
| MReleaseBarrier mode GenerationIndex
| MPending mode GenerationIndex
| MPendingSealed mode GenerationIndex nat
| MPendingLock mode GenerationIndex
| MResealLock mode GenerationIndex
| MResealing mode GenerationIndex nat
| MWaitLock mode GenerationIndex
| MWaiting mode GenerationIndex nat bool
| MDrained mode GenerationIndex
| MTaking mode GenerationIndex
| MTaken mode GenerationIndex
| MFinish mode GenerationIndex
| MNext mode
| MUnlock
| MFailStop GenerationIndex
| CLocked
| CSealLock GenerationIndex
| CSeal GenerationIndex nat
| CWaitLock GenerationIndex
| CWait GenerationIndex nat bool
| CDone
| CCert
| CLock0
| CLock1
| CTaken

datatype queue_owner = ByWriter nat | ByManager nat

datatype idle_owner = ByReader nat | ByTransition nat

record ('c, 'x) domain =
  stripes :: nat
  gens :: "GenerationIndex \<Rightarrow> nat \<Rightarrow> 'c"
  idle_locks :: "GenerationIndex \<Rightarrow> idle_owner option"
  current :: GenerationIndex
  pending :: "GenerationIndex option"
  transition_lock :: "nat option"
  closed :: bool
  queues :: "GenerationIndex \<Rightarrow> 'x list"
  queue_lock :: "GenerationIndex \<Rightarrow> queue_owner option"
  live :: "'x set"
  known :: "'x set"
  disposed :: "'x set"
  reader :: "nat \<Rightarrow> 'x reader_pc"
  writer :: "nat \<Rightarrow> 'x writer_pc"
  rotation :: "nat \<Rightarrow> rotation_pc"

definition domain_new :: "nat \<Rightarrow> ('w::len word, 'x) domain" where
  "domain_new n = \<lparr>stripes = n,
     gens = (\<lambda>g. case g of Gen0 \<Rightarrow> (\<lambda>_. new_open) | Gen1 \<Rightarrow> (\<lambda>_. new_sealed)),
     idle_locks = (\<lambda>_. None), current = Gen0, pending = None, transition_lock = None, closed = False,
     queues = (\<lambda>_. []), queue_lock = (\<lambda>_. None), live = {}, known = {}, disposed = {},
     reader = (\<lambda>_. ROut), writer = (\<lambda>_. WIdle), rotation = (\<lambda>_. MIdle)\<rparr>"

definition set_stripe :: "GenerationIndex \<Rightarrow> nat \<Rightarrow> 'c \<Rightarrow> ('c, 'x) domain \<Rightarrow> ('c, 'x) domain" where
  "set_stripe g k c s = s\<lparr>gens := (gens s)(g := (gens s g)(k := c))\<rparr>"

definition set_idle_lock :: "GenerationIndex \<Rightarrow> idle_owner option \<Rightarrow> ('c, 'x) domain \<Rightarrow> ('c, 'x) domain" where
  "set_idle_lock g q s = s\<lparr>idle_locks := (idle_locks s)(g := q)\<rparr>"

definition set_queue_lock :: "GenerationIndex \<Rightarrow> queue_owner option \<Rightarrow> ('c, 'x) domain \<Rightarrow> ('c, 'x) domain" where
  "set_queue_lock g q s = s\<lparr>queue_lock := (queue_lock s)(g := q)\<rparr>"

definition set_reader :: "nat \<Rightarrow> 'x reader_pc \<Rightarrow> ('c, 'x) domain \<Rightarrow> ('c, 'x) domain" where
  "set_reader i pc s = s\<lparr>reader := (reader s)(i := pc)\<rparr>"

definition set_writer :: "nat \<Rightarrow> 'x writer_pc \<Rightarrow> ('c, 'x) domain \<Rightarrow> ('c, 'x) domain" where
  "set_writer i pc s = s\<lparr>writer := (writer s)(i := pc)\<rparr>"

definition set_rotation :: "nat \<Rightarrow> rotation_pc \<Rightarrow> ('c, 'x) domain \<Rightarrow> ('c, 'x) domain" where
  "set_rotation i pc s = s\<lparr>rotation := (rotation s)(i := pc)\<rparr>"

subsection \<open>Readers: \<open>enter\<close> and the drop of a permit\<close>

text \<open>
  \<open>enter\<close> loads \<open>closed\<close> and then the current generation; the acquisition is refused when the
  generation was sealed in between, and the loop starts again. A permit may reach what is
  live at that moment, and keeps it until it is dropped. An acquisition at the limit of the
  counter aborts the process and is no step.
\<close>

inductive reader_step :: "nat \<Rightarrow> ('w::len word, 'x) domain \<Rightarrow> ('w word, 'x) domain \<Rightarrow> bool" for i where
  enter_closed: "reader s i = ROut \<Longrightarrow> closed s \<Longrightarrow> reader_step i s s"
| enter_select:
    "reader s i = ROut \<Longrightarrow> \<not> closed s \<Longrightarrow> k < stripes s \<Longrightarrow>
     reader_step i s (set_reader i (RSelected (current s) k) s)"
| enter_admitted:
    "reader s i = RSelected g k \<Longrightarrow> k < stripes s \<Longrightarrow> try_acquire (gens s g k) = Returns (Inr (), c) \<Longrightarrow>
     reader_step i s (set_reader i (RReading g k {}) (set_stripe g k c s))"
| enter_refused:
    "reader s i = RSelected g k \<Longrightarrow> k < stripes s \<Longrightarrow> try_acquire (gens s g k) = Returns (Inl e, c) \<Longrightarrow>
     reader_step i s (set_reader i ROut (set_stripe g k c s))"
| read_item:
    "reader s i = RReading g k held \<Longrightarrow> x \<in> live s \<Longrightarrow>
     reader_step i s (set_reader i (RReading g k (insert x held)) s)"
| leave_fast:
    "reader s i = RReading g k held \<Longrightarrow>
     try_release_without_notification (gens s g k) = Returns (Some out, c) \<Longrightarrow>
     reader_step i s (set_reader i ROut (set_stripe g k c s))"
| leave_retained:
    "reader s i = RReading g k held \<Longrightarrow>
     try_release_without_notification (gens s g k) = Returns (None, c) \<Longrightarrow>
     reader_step i s (set_reader i (RRetained g k) (set_stripe g k c s))"
| leave_lock:
    "reader s i = RRetained g k \<Longrightarrow> idle_locks s g = None \<Longrightarrow>
     reader_step i s (set_reader i (RLocked g k) (set_idle_lock g (Some (ByReader i)) s))"
| leave_release:
    "reader s i = RLocked g k \<Longrightarrow> release (gens s g k) = Returns (out, c) \<Longrightarrow>
     reader_step i s (set_reader i (if out = BecameIdle then RNotify g else RUnlocking g) (set_stripe g k c s))"
| leave_notify:
    "reader s i = RNotify g \<Longrightarrow> reader_step i s (set_reader i (RUnlocking g) s)"
| leave_unlock:
    "reader s i = RUnlocking g \<Longrightarrow> reader_step i s (set_reader i ROut (set_idle_lock g None s))"

subsection \<open>Writers: publication, withdrawal and \<open>register_retired\<close>\<close>

inductive writer_step :: "nat \<Rightarrow> ('w::len word, 'x) domain \<Rightarrow> ('w word, 'x) domain \<Rightarrow> bool" for i where
  publish_item:
    "writer s i = WIdle \<Longrightarrow> x \<notin> known s \<Longrightarrow>
     writer_step i s (s\<lparr>live := insert x (live s), known := insert x (known s)\<rparr>)"
| withdraw:
    "writer s i = WIdle \<Longrightarrow> x \<in> live s \<Longrightarrow>
     writer_step i s (set_writer i (WWithdrawn x) (s\<lparr>live := live s - {x}\<rparr>))"
| register_select:
    "writer s i = WWithdrawn x \<Longrightarrow> writer_step i s (set_writer i (WSelected x (current s)) s)"
| register_lock:
    "writer s i = WSelected x g \<Longrightarrow> queue_lock s g = None \<Longrightarrow>
     writer_step i s (set_writer i (WLocked x g) (set_queue_lock g (Some (ByWriter i)) s))"
| register_stale:
    "writer s i = WLocked x g \<Longrightarrow> current s \<noteq> g \<Longrightarrow>
     writer_step i s (set_writer i (WWithdrawn x) (set_queue_lock g None s))"
| register_current:
    "writer s i = WLocked x g \<Longrightarrow> current s = g \<Longrightarrow> writer_step i s (set_writer i (WChecked x g) s)"
| register_append:
    "writer s i = WChecked x g \<Longrightarrow>
     writer_step i s (set_writer i (WAppended g) (s\<lparr>queues := (queues s)(g := queues s g @ [x])\<rparr>))"
| register_unlock:
    "writer s i = WAppended g \<Longrightarrow>
     writer_step i s (set_writer i WIdle (set_queue_lock g None s))"

subsection \<open>Managers: rotation and closure\<close>

text \<open>
  \<open>lock\<close> and \<open>classify\<close>; the publication barrier is the mutex of the old queue, taken without
  waiting except by a blocking call. \<open>try_drained\<close> of the replacement then looks at the seal of
  every stripe, tries to lock the notification mutex and observes the stripes under it: an open
  stripe, a mutex in use or a busy stripe stops the process. Sealing runs over the stripes under
  the old generation's notification mutex; the idle-only form takes no mutex, seals each stripe
  only if it is idle and rolls back otherwise. Then the old generation is recorded as pending,
  the replacement is published, its stripes are checked and reopened under its notification
  mutex, and the barrier is released. A blocking wait seals again, locks the mutex, observes all
  stripes and parks, to lock and observe again, while one was busy. The other forms use
  \<open>try_drained\<close> and give up, leaving the rotation pending, where \<open>begin\<close> would stop the process. The callback takes the old queue under its mutex, pending is cleared after
  it, and a callback that unwinds leaves the rotation pending. \<open>seal_and_wait\<close> closes the domain
  and drains both generations under the transition mutex; its certificate takes both queues.
\<close>

definition blocking :: "mode \<Rightarrow> bool" where
  "blocking m \<longleftrightarrow> (case m of Blocking _ \<Rightarrow> True | _ \<Rightarrow> False)"

definition with_flag :: "bool \<Rightarrow> mode \<Rightarrow> mode" where
  "with_flag b m = (case m of Blocking _ \<Rightarrow> Blocking b | _ \<Rightarrow> m)"

inductive rotation_step :: "nat \<Rightarrow> ('w::len word, 'x) domain \<Rightarrow> ('w word, 'x) domain \<Rightarrow> bool" for j where
  lock:
    "rotation s j = MIdle \<Longrightarrow> transition_lock s = None \<Longrightarrow>
     rotation_step j s (set_rotation j (MLocked m) (s\<lparr>transition_lock := Some j\<rparr>))"
| domain_closed:
    "rotation s j = MLocked m \<Longrightarrow> closed s \<Longrightarrow> rotation_step j s (set_rotation j MUnlock s)"
| classify_pending:
    "rotation s j = MLocked m \<Longrightarrow> \<not> closed s \<Longrightarrow> pending s = Some old \<Longrightarrow>
     rotation_step j s (set_rotation j (MPending (with_flag True m) old) s)"
| classify_new:
    "rotation s j = MLocked m \<Longrightarrow> \<not> closed s \<Longrightarrow> pending s = None \<Longrightarrow>
     rotation_step j s (set_rotation j (MNew (with_flag False m) (current s)) s)"
| barrier:
    "rotation s j = MNew m old \<Longrightarrow> queue_lock s old = None \<Longrightarrow>
     rotation_step j s (set_rotation j (MReplacementSealed m old 0) (set_queue_lock old (Some (ByManager j)) s))"
| barrier_busy:
    "rotation s j = MNew m old \<Longrightarrow> \<not> blocking m \<Longrightarrow> queue_lock s old \<noteq> None \<Longrightarrow>
     rotation_step j s (set_rotation j MUnlock s)"
| replacement_sealed:
    "rotation s j = MReplacementSealed m old k \<Longrightarrow> k < stripes s \<Longrightarrow> is_sealed (gens s (other old) k) \<Longrightarrow>
     rotation_step j s (set_rotation j (MReplacementSealed m old (Suc k)) s)"
| replacement_open:
    "rotation s j = MReplacementSealed m old k \<Longrightarrow> k < stripes s \<Longrightarrow> \<not> is_sealed (gens s (other old) k) \<Longrightarrow>
     rotation_step j s (set_rotation j (MFailStop old) s)"
| replacement_checked:
    "rotation s j = MReplacementSealed m old (stripes s) \<Longrightarrow>
     rotation_step j s (set_rotation j (MReplacementLock m old) s)"
| replacement_lock:
    "rotation s j = MReplacementLock m old \<Longrightarrow> idle_locks s (other old) = None \<Longrightarrow>
     rotation_step j s (set_rotation j (MReplacing m old 0 True) (set_idle_lock (other old) (Some (ByTransition j)) s))"
| replacement_lock_busy:
    "rotation s j = MReplacementLock m old \<Longrightarrow> idle_locks s (other old) \<noteq> None \<Longrightarrow>
     rotation_step j s (set_rotation j (MFailStop old) s)"
| replacement_observe:
    "rotation s j = MReplacing m old k idle \<Longrightarrow> k < stripes s \<Longrightarrow> mark_waiting (gens s (other old) k) = (n, c) \<Longrightarrow>
     rotation_step j s (set_rotation j (MReplacing m old (Suc k) (if n \<noteq> 0 then False else idle))
       (set_stripe (other old) k c s))"
| replacement_busy:
    "rotation s j = MReplacing m old (stripes s) False \<Longrightarrow>
     rotation_step j s (set_rotation j (MFailStop old) (set_idle_lock (other old) None s))"
| replacement_drained:
    "rotation s j = MReplacing m old (stripes s) True \<Longrightarrow>
     rotation_step j s (set_rotation j (if m = IdleOnly then MTrySealing old 0 else MSealLock m old)
       (set_idle_lock (other old) None s))"
| seal_lock:
    "rotation s j = MSealLock m old \<Longrightarrow> idle_locks s old = None \<Longrightarrow>
     rotation_step j s (set_rotation j (MSealing m old 0) (set_idle_lock old (Some (ByTransition j)) s))"
| seal_old:
    "rotation s j = MSealing m old k \<Longrightarrow> k < stripes s \<Longrightarrow>
     rotation_step j s (set_rotation j (MSealing m old (Suc k)) (set_stripe old k (seal (gens s old k)) s))"
| seal_old_done:
    "rotation s j = MSealing m old (stripes s) \<Longrightarrow>
     rotation_step j s (set_rotation j (MSealed m old) (set_idle_lock old None s))"
| try_seal_one:
    "rotation s j = MTrySealing old k \<Longrightarrow> k < stripes s \<Longrightarrow> try_idle_seal observed (gens s old k) = (True, c) \<Longrightarrow>
     rotation_step j s (set_rotation j (MTrySealing old (Suc k)) (set_stripe old k c s))"
| try_seal_refused:
    "rotation s j = MTrySealing old k \<Longrightarrow> k < stripes s \<Longrightarrow> try_idle_seal observed (gens s old k) = (False, c) \<Longrightarrow>
     rotation_step j s (set_rotation j (MUndoing old 0 k) (set_stripe old k c s))"
| try_seal_done:
    "rotation s j = MTrySealing old (stripes s) \<Longrightarrow> rotation_step j s (set_rotation j (MSealed IdleOnly old) s)"
| undo_one:
    "rotation s j = MUndoing old r k \<Longrightarrow> r < k \<Longrightarrow> undo_idle_seal (gens s old r) = (Inr u, c) \<Longrightarrow>
     rotation_step j s (set_rotation j (MUndoing old (Suc r) k) (set_stripe old r c s))"
| undo_fails:
    "rotation s j = MUndoing old r k \<Longrightarrow> r < k \<Longrightarrow> undo_idle_seal (gens s old r) = (Inl e, c) \<Longrightarrow>
     rotation_step j s (set_rotation j (MFailStop old) s)"
| undo_done:
    "rotation s j = MUndoing old k k \<Longrightarrow> rotation_step j s (set_rotation j (MUndone old) s)"
| drop_barrier:
    "rotation s j = MUndone old \<Longrightarrow> rotation_step j s (set_rotation j MUnlock (set_queue_lock old None s))"
| set_pending:
    "rotation s j = MSealed m old \<Longrightarrow>
     rotation_step j s (set_rotation j (MPublish m old) (s\<lparr>pending := Some old\<rparr>))"
| publish:
    "rotation s j = MPublish m old \<Longrightarrow>
     rotation_step j s (set_rotation j (MReopenLock m old) (s\<lparr>current := other old\<rparr>))"
| reopen_lock:
    "rotation s j = MReopenLock m old \<Longrightarrow> idle_locks s (other old) = None \<Longrightarrow>
     rotation_step j s (set_rotation j (MReopenCheck m old 0) (set_idle_lock (other old) (Some (ByTransition j)) s))"
| reopen_check:
    "rotation s j = MReopenCheck m old k \<Longrightarrow> k < stripes s \<Longrightarrow> stripe_drained (gens s (other old) k) \<Longrightarrow>
     rotation_step j s (set_rotation j (MReopenCheck m old (Suc k)) s)"
| reopen_refused:
    "rotation s j = MReopenCheck m old k \<Longrightarrow> k < stripes s \<Longrightarrow> \<not> stripe_drained (gens s (other old) k) \<Longrightarrow>
     rotation_step j s (set_rotation j (MFailStop old) (set_idle_lock (other old) None s))"
| reopen_checked:
    "rotation s j = MReopenCheck m old (stripes s) \<Longrightarrow> rotation_step j s (set_rotation j (MReopening m old 0) s)"
| reopen_one:
    "rotation s j = MReopening m old k \<Longrightarrow> k < stripes s \<Longrightarrow> reopen (gens s (other old) k) = Returns (Inr u, c) \<Longrightarrow>
     rotation_step j s (set_rotation j (MReopening m old (Suc k)) (set_stripe (other old) k c s))"
| reopen_fails:
    "rotation s j = MReopening m old k \<Longrightarrow> k < stripes s \<Longrightarrow> reopen (gens s (other old) k) = Returns (Inl e, c) \<Longrightarrow>
     rotation_step j s (set_rotation j (MFailStop old) (set_idle_lock (other old) None s))"
| reopen_done:
    "rotation s j = MReopening m old (stripes s) \<Longrightarrow>
     rotation_step j s (set_rotation j (MReleaseBarrier m old) (set_idle_lock (other old) None s))"
| release_barrier:
    "rotation s j = MReleaseBarrier m old \<Longrightarrow>
     rotation_step j s (set_rotation j (MPending m old) (set_queue_lock old None s))"
| leave_pending:
    "rotation s j = MPending m old \<Longrightarrow> rotation_step j s (set_rotation j MUnlock s)"
| try_wait:
    "rotation s j = MPending m old \<Longrightarrow> \<not> blocking m \<Longrightarrow>
     rotation_step j s (set_rotation j (MPendingSealed m old 0) s)"
| pending_sealed:
    "rotation s j = MPendingSealed m old k \<Longrightarrow> k < stripes s \<Longrightarrow> is_sealed (gens s old k) \<Longrightarrow>
     rotation_step j s (set_rotation j (MPendingSealed m old (Suc k)) s)"
| pending_open:
    "rotation s j = MPendingSealed m old k \<Longrightarrow> k < stripes s \<Longrightarrow> \<not> is_sealed (gens s old k) \<Longrightarrow>
     rotation_step j s (set_rotation j MUnlock s)"
| pending_checked:
    "rotation s j = MPendingSealed m old (stripes s) \<Longrightarrow> rotation_step j s (set_rotation j (MPendingLock m old) s)"
| pending_lock:
    "rotation s j = MPendingLock m old \<Longrightarrow> idle_locks s old = None \<Longrightarrow>
     rotation_step j s (set_rotation j (MWaiting m old 0 True) (set_idle_lock old (Some (ByTransition j)) s))"
| pending_lock_busy:
    "rotation s j = MPendingLock m old \<Longrightarrow> idle_locks s old \<noteq> None \<Longrightarrow> rotation_step j s (set_rotation j MUnlock s)"
| wait_reseal:
    "rotation s j = MPending m old \<Longrightarrow> blocking m \<Longrightarrow> rotation_step j s (set_rotation j (MResealLock m old) s)"
| reseal_lock:
    "rotation s j = MResealLock m old \<Longrightarrow> idle_locks s old = None \<Longrightarrow>
     rotation_step j s (set_rotation j (MResealing m old 0) (set_idle_lock old (Some (ByTransition j)) s))"
| reseal_one:
    "rotation s j = MResealing m old k \<Longrightarrow> k < stripes s \<Longrightarrow>
     rotation_step j s (set_rotation j (MResealing m old (Suc k)) (set_stripe old k (seal (gens s old k)) s))"
| reseal_done:
    "rotation s j = MResealing m old (stripes s) \<Longrightarrow>
     rotation_step j s (set_rotation j (MWaitLock m old) (set_idle_lock old None s))"
| wait_lock:
    "rotation s j = MWaitLock m old \<Longrightarrow> idle_locks s old = None \<Longrightarrow>
     rotation_step j s (set_rotation j (MWaiting m old 0 True) (set_idle_lock old (Some (ByTransition j)) s))"
| wait_observe:
    "rotation s j = MWaiting m old k idle \<Longrightarrow> k < stripes s \<Longrightarrow> mark_waiting (gens s old k) = (n, c) \<Longrightarrow>
     rotation_step j s (set_rotation j (MWaiting m old (Suc k) (if n \<noteq> 0 then False else idle)) (set_stripe old k c s))"
| wait_parks:
    "rotation s j = MWaiting m old (stripes s) False \<Longrightarrow> blocking m \<Longrightarrow>
     rotation_step j s (set_rotation j (MWaitLock m old) (set_idle_lock old None s))"
| wait_gives_up:
    "rotation s j = MWaiting m old (stripes s) False \<Longrightarrow> \<not> blocking m \<Longrightarrow>
     rotation_step j s (set_rotation j MUnlock (set_idle_lock old None s))"
| wait_done:
    "rotation s j = MWaiting m old (stripes s) True \<Longrightarrow>
     rotation_step j s (set_rotation j (MDrained m old) (set_idle_lock old None s))"
| callback_unwinds:
    "rotation s j = MDrained m old \<Longrightarrow> rotation_step j s (set_rotation j MUnlock s)"
| callback_lock:
    "rotation s j = MDrained m old \<Longrightarrow> queue_lock s old = None \<Longrightarrow>
     rotation_step j s (set_rotation j (MTaking m old) (set_queue_lock old (Some (ByManager j)) s))"
| callback_take:
    "rotation s j = MTaking m old \<Longrightarrow>
     rotation_step j s (set_rotation j (MTaken m old)
       (s\<lparr>queues := (queues s)(old := []), disposed := disposed s \<union> set (queues s old)\<rparr>))"
| callback_unlock:
    "rotation s j = MTaken m old \<Longrightarrow>
     rotation_step j s (set_rotation j (MFinish m old) (set_queue_lock old None s))"
| clear_pending:
    "rotation s j = MFinish m old \<Longrightarrow> rotation_step j s (set_rotation j (MNext m) (s\<lparr>pending := None\<rparr>))"
| next_rotation:
    "rotation s j = MNext (Blocking True) \<Longrightarrow>
     rotation_step j s (set_rotation j (MNew (Blocking False) (current s)) s)"
| last_rotation:
    "rotation s j = MNext m \<Longrightarrow> m \<noteq> Blocking True \<Longrightarrow> rotation_step j s (set_rotation j MUnlock s)"
| unlock:
    "rotation s j = MUnlock \<Longrightarrow> rotation_step j s (set_rotation j MIdle (s\<lparr>transition_lock := None\<rparr>))"
| close_lock:
    "rotation s j = MIdle \<Longrightarrow> transition_lock s = None \<Longrightarrow>
     rotation_step j s (set_rotation j CLocked (s\<lparr>transition_lock := Some j\<rparr>))"
| close_domain:
    "rotation s j = CLocked \<Longrightarrow> rotation_step j s (set_rotation j (CSealLock Gen0) (s\<lparr>closed := True\<rparr>))"
| close_seal_lock:
    "rotation s j = CSealLock g \<Longrightarrow> idle_locks s g = None \<Longrightarrow>
     rotation_step j s (set_rotation j (CSeal g 0) (set_idle_lock g (Some (ByTransition j)) s))"
| close_seal:
    "rotation s j = CSeal g k \<Longrightarrow> k < stripes s \<Longrightarrow>
     rotation_step j s (set_rotation j (CSeal g (Suc k)) (set_stripe g k (seal (gens s g k)) s))"
| close_sealed:
    "rotation s j = CSeal g (stripes s) \<Longrightarrow>
     rotation_step j s (set_rotation j (CWaitLock g) (set_idle_lock g None s))"
| close_wait_lock:
    "rotation s j = CWaitLock g \<Longrightarrow> idle_locks s g = None \<Longrightarrow>
     rotation_step j s (set_rotation j (CWait g 0 True) (set_idle_lock g (Some (ByTransition j)) s))"
| close_observe:
    "rotation s j = CWait g k idle \<Longrightarrow> k < stripes s \<Longrightarrow> mark_waiting (gens s g k) = (n, c) \<Longrightarrow>
     rotation_step j s (set_rotation j (CWait g (Suc k) (if n \<noteq> 0 then False else idle)) (set_stripe g k c s))"
| close_parks:
    "rotation s j = CWait g (stripes s) False \<Longrightarrow>
     rotation_step j s (set_rotation j (CWaitLock g) (set_idle_lock g None s))"
| close_first:
    "rotation s j = CWait Gen0 (stripes s) True \<Longrightarrow>
     rotation_step j s (set_rotation j (CSealLock Gen1) (set_idle_lock Gen0 None s))"
| close_second:
    "rotation s j = CWait Gen1 (stripes s) True \<Longrightarrow>
     rotation_step j s (set_rotation j CDone (set_idle_lock Gen1 None s))"
| close_unlock:
    "rotation s j = CDone \<Longrightarrow> rotation_step j s (set_rotation j CCert (s\<lparr>transition_lock := None\<rparr>))"
| closed_lock_first:
    "rotation s j = CCert \<Longrightarrow> queue_lock s Gen0 = None \<Longrightarrow>
     rotation_step j s (set_rotation j CLock0 (set_queue_lock Gen0 (Some (ByManager j)) s))"
| closed_lock_second:
    "rotation s j = CLock0 \<Longrightarrow> queue_lock s Gen1 = None \<Longrightarrow>
     rotation_step j s (set_rotation j CLock1 (set_queue_lock Gen1 (Some (ByManager j)) s))"
| closed_take:
    "rotation s j = CLock1 \<Longrightarrow>
     rotation_step j s (set_rotation j CTaken (s\<lparr>queues := (\<lambda>_. []),
       disposed := disposed s \<union> set (queues s Gen0) \<union> set (queues s Gen1)\<rparr>))"
| closed_unlock:
    "rotation s j = CTaken \<Longrightarrow>
     rotation_step j s (set_rotation j CCert (s\<lparr>queue_lock := (\<lambda>_. None)\<rparr>))"

text \<open>
  The observations: the count of the calling thread's stripe in either generation, and the
  length of a queue, read under its mutex.
\<close>

definition current_thread_may_be_reading :: "nat \<Rightarrow> ('w::len word, 'x) domain \<Rightarrow> bool" where
  "current_thread_may_be_reading k s \<longleftrightarrow> active (gens s Gen0 k) \<noteq> 0 \<or> active (gens s Gen1 k) \<noteq> 0"

definition queue_len :: "('w::len word, 'x) domain \<Rightarrow> GenerationIndex \<Rightarrow> nat" where
  "queue_len s g = length (queues s g)"

inductive domain_step :: "('w::len word, 'x) domain \<Rightarrow> ('w word, 'x) domain \<Rightarrow> bool" where
  by_reader: "reader_step i s t \<Longrightarrow> domain_step s t"
| by_writer: "writer_step i s t \<Longrightarrow> domain_step s t"
| by_rotation: "rotation_step j s t \<Longrightarrow> domain_step s t"

definition domain_init :: "('w::len word, 'x) domain \<Rightarrow> bool" where
  "domain_init s \<longleftrightarrow> (\<exists>n. s = domain_new n)"

definition domain_reachable :: "('w::len word, 'x) domain \<Rightarrow> bool" where
  "domain_reachable s \<longleftrightarrow> (\<exists>s0. domain_init s0 \<and> domain_step\<^sup>*\<^sup>* s0 s)"

section \<open>The invariant\<close>

subsection \<open>What a program point owns\<close>

fun inside :: "'x reader_pc \<Rightarrow> GenerationIndex \<Rightarrow> nat \<Rightarrow> bool" where
  "inside (RReading g k held) g' k' = (g = g' \<and> k = k')"
| "inside (RRetained g k) g' k' = (g = g' \<and> k = k')"
| "inside (RLocked g k) g' k' = (g = g' \<and> k = k')"
| "inside _ g' k' = False"

text \<open>The tail of a release: the count is gone, the notification mutex is still held.\<close>

fun in_tail :: "'x reader_pc \<Rightarrow> GenerationIndex \<Rightarrow> bool" where
  "in_tail (RNotify g) g' = (g = g')"
| "in_tail (RUnlocking g) g' = (g = g')"
| "in_tail _ g' = False"

fun reader_idle :: "'x reader_pc \<Rightarrow> GenerationIndex \<Rightarrow> bool" where
  "reader_idle (RLocked g k) g' = (g = g')"
| "reader_idle pc g' = in_tail pc g'"

fun held_items :: "'x reader_pc \<Rightarrow> 'x set" where
  "held_items (RReading g k held) = held"
| "held_items _ = {}"

fun writer_items :: "'x writer_pc \<Rightarrow> 'x set" where
  "writer_items (WWithdrawn x) = {x}"
| "writer_items (WSelected x g) = {x}"
| "writer_items (WLocked x g) = {x}"
| "writer_items (WChecked x g) = {x}"
| "writer_items _ = {}"

fun writer_locks :: "'x writer_pc \<Rightarrow> GenerationIndex \<Rightarrow> bool" where
  "writer_locks (WLocked x g) g' = (g = g')"
| "writer_locks (WChecked x g) g' = (g = g')"
| "writer_locks (WAppended g) g' = (g = g')"
| "writer_locks _ g' = False"

fun rotation_locks :: "rotation_pc \<Rightarrow> GenerationIndex \<Rightarrow> bool" where
  "rotation_locks (MReplacementSealed m old k) g = (old = g)"
| "rotation_locks (MReplacementLock m old) g = (old = g)"
| "rotation_locks (MReplacing m old k idle) g = (old = g)"
| "rotation_locks (MSealLock m old) g = (old = g)"
| "rotation_locks (MSealing m old k) g = (old = g)"
| "rotation_locks (MTrySealing old k) g = (old = g)"
| "rotation_locks (MUndoing old r k) g = (old = g)"
| "rotation_locks (MUndone old) g = (old = g)"
| "rotation_locks (MSealed m old) g = (old = g)"
| "rotation_locks (MPublish m old) g = (old = g)"
| "rotation_locks (MReopenLock m old) g = (old = g)"
| "rotation_locks (MReopenCheck m old k) g = (old = g)"
| "rotation_locks (MReopening m old k) g = (old = g)"
| "rotation_locks (MReleaseBarrier m old) g = (old = g)"
| "rotation_locks (MFailStop old) g = (old = g)"
| "rotation_locks (MTaking m old) g = (old = g)"
| "rotation_locks (MTaken m old) g = (old = g)"
| "rotation_locks CLock0 g = (g = Gen0)"
| "rotation_locks CLock1 g = True"
| "rotation_locks CTaken g = True"
| "rotation_locks _ g = False"

fun rotation_idle :: "rotation_pc \<Rightarrow> GenerationIndex \<Rightarrow> bool" where
  "rotation_idle (MReplacing m old k idle) g = (other old = g)"
| "rotation_idle (MSealing m old k) g = (old = g)"
| "rotation_idle (MReopenCheck m old k) g = (other old = g)"
| "rotation_idle (MReopening m old k) g = (other old = g)"
| "rotation_idle (MResealing m old k) g = (old = g)"
| "rotation_idle (MWaiting m old k idle) g = (old = g)"
| "rotation_idle (CSeal g' k) g = (g' = g)"
| "rotation_idle (CWait g' k idle) g = (g' = g)"
| "rotation_idle _ g = False"

fun certified :: "rotation_pc \<Rightarrow> bool" where
  "certified CCert = True"
| "certified CLock0 = True"
| "certified CLock1 = True"
| "certified CTaken = True"
| "certified _ = False"

definition in_transition :: "rotation_pc \<Rightarrow> bool" where
  "in_transition pc \<longleftrightarrow> pc \<noteq> MIdle \<and> \<not> certified pc"

subsection \<open>The phase of a transition\<close>

text \<open>A drained generation is sealed and idle, and every release tail has left its mutex.\<close>

definition drained_gen :: "('w::len word, 'x) domain \<Rightarrow> GenerationIndex \<Rightarrow> bool" where
  "drained_gen s g \<longleftrightarrow> (\<forall>k < stripes s. stripe_drained (gens s g k)) \<and> (\<forall>i. \<not> in_tail (reader s i) g)"

definition pending_ok :: "('w::len word, 'x) domain \<Rightarrow> bool" where
  "pending_ok s \<longleftrightarrow> (\<forall>g. pending s = Some g \<longrightarrow> g = other (current s))"

definition fresh_phase :: "('w::len word, 'x) domain \<Rightarrow> GenerationIndex \<Rightarrow> bool" where
  "fresh_phase s old \<longleftrightarrow> \<not> closed s \<and> pending s = None \<and> old = current s"

definition pending_phase :: "('w::len word, 'x) domain \<Rightarrow> GenerationIndex \<Rightarrow> bool" where
  "pending_phase s old \<longleftrightarrow> \<not> closed s \<and> pending s = Some old \<and> current s = other old"

definition closing_phase :: "('w::len word, 'x) domain \<Rightarrow> GenerationIndex \<Rightarrow> bool" where
  "closing_phase s g \<longleftrightarrow> closed s \<and> pending_ok s \<and> (g = Gen1 \<longrightarrow> drained_gen s Gen0)"

definition idle_below :: "('w::len word, 'x) domain \<Rightarrow> GenerationIndex \<Rightarrow> nat \<Rightarrow> bool" where
  "idle_below s g k \<longleftrightarrow> (\<forall>i < k. i < stripes s \<longrightarrow> permits (gens s g i) = 0)"

definition sealed_below :: "('w::len word, 'x) domain \<Rightarrow> GenerationIndex \<Rightarrow> nat \<Rightarrow> bool" where
  "sealed_below s g k \<longleftrightarrow> (\<forall>i < k. is_sealed (gens s g i))"

definition drained_between :: "('w::len word, 'x) domain \<Rightarrow> GenerationIndex \<Rightarrow> nat \<Rightarrow> nat \<Rightarrow> bool" where
  "drained_between s g r k \<longleftrightarrow> (\<forall>i. r \<le> i \<and> i < k \<longrightarrow> stripe_drained (gens s g i))"

fun phase_ok :: "('w::len word, 'x) domain \<Rightarrow> rotation_pc \<Rightarrow> bool" where
  "phase_ok s (MFailStop q) = False"
| "phase_ok s (MLocked m) = pending_ok s"
| "phase_ok s MUnlock = pending_ok s"
| "phase_ok s (MNext m) = (\<not> closed s \<and> pending s = None)"
| "phase_ok s (MNew m old) = fresh_phase s old"
| "phase_ok s (MReplacementSealed m old k) = fresh_phase s old"
| "phase_ok s (MReplacementLock m old) = fresh_phase s old"
| "phase_ok s (MReplacing m old k idle) = (fresh_phase s old \<and> idle)"
| "phase_ok s (MSealLock m old) = fresh_phase s old"
| "phase_ok s (MSealing m old k) = (fresh_phase s old \<and> sealed_below s old k)"
| "phase_ok s (MTrySealing old k) = (fresh_phase s old \<and> drained_between s old 0 k)"
| "phase_ok s (MUndoing old r k) = (fresh_phase s old \<and> drained_between s old r k)"
| "phase_ok s (MUndone old) = fresh_phase s old"
| "phase_ok s (MSealed m old) = (fresh_phase s old \<and> sealed_below s old (stripes s))"
| "phase_ok s (MPublish m old) = (\<not> closed s \<and> pending s = Some old \<and> current s = old \<and>
     sealed_below s old (stripes s) \<and> drained_gen s (other old))"
| "phase_ok s (MReopenLock m old) = (pending_phase s old \<and> drained_gen s (other old))"
| "phase_ok s (MReopenCheck m old k) = (pending_phase s old \<and> drained_gen s (other old))"
| "phase_ok s (MReopening m old k) = (pending_phase s old \<and> drained_between s (other old) k (stripes s))"
| "phase_ok s (MReleaseBarrier m old) = pending_phase s old"
| "phase_ok s (MPending m old) = pending_phase s old"
| "phase_ok s (MPendingSealed m old k) = pending_phase s old"
| "phase_ok s (MPendingLock m old) = pending_phase s old"
| "phase_ok s (MResealLock m old) = pending_phase s old"
| "phase_ok s (MResealing m old k) = pending_phase s old"
| "phase_ok s (MWaitLock m old) = pending_phase s old"
| "phase_ok s (MWaiting m old k idle) = (pending_phase s old \<and> (idle \<longrightarrow> idle_below s old k))"
| "phase_ok s (MDrained m old) = (pending_phase s old \<and> drained_gen s old)"
| "phase_ok s (MTaking m old) = (pending_phase s old \<and> drained_gen s old)"
| "phase_ok s (MTaken m old) = (pending_phase s old \<and> drained_gen s old)"
| "phase_ok s (MFinish m old) = (pending_phase s old \<and> drained_gen s old)"
| "phase_ok s CLocked = pending_ok s"
| "phase_ok s (CSealLock g) = closing_phase s g"
| "phase_ok s (CWaitLock g) = (closing_phase s g \<and> sealed_below s g (stripes s))"
| "phase_ok s (CSeal g k) = (closing_phase s g \<and> sealed_below s g k)"
| "phase_ok s (CWait g k idle) = (closing_phase s g \<and> sealed_below s g (stripes s) \<and> (idle \<longrightarrow> idle_below s g k))"
| "phase_ok s CDone = (closing_phase s Gen1 \<and> drained_gen s Gen1)"
| "phase_ok s _ = True"

subsection \<open>The clauses\<close>

text \<open>The count of a stripe is the number of readers inside.\<close>

definition inv_readers :: "('w::len word, 'x) domain \<Rightarrow> bool" where
  "inv_readers s \<longleftrightarrow> (\<forall>g k. finite {i. inside (reader s i) g k} \<and>
       (k < stripes s \<longrightarrow> permits (gens s g k) = card {i. inside (reader s i) g k})) \<and>
     (\<forall>i g k. inside (reader s i) g k \<longrightarrow> k < stripes s)"

definition inv_locks :: "('w::len word, 'x) domain \<Rightarrow> bool" where
  "inv_locks s \<longleftrightarrow> (\<forall>j. in_transition (rotation s j) \<longleftrightarrow> transition_lock s = Some j) \<and>
     (\<forall>j g. rotation_locks (rotation s j) g \<longleftrightarrow> queue_lock s g = Some (ByManager j)) \<and>
     (\<forall>i g. writer_locks (writer s i) g \<longleftrightarrow> queue_lock s g = Some (ByWriter i)) \<and>
     (\<forall>j g. rotation_idle (rotation s j) g \<longleftrightarrow> idle_locks s g = Some (ByTransition j)) \<and>
     (\<forall>i g. reader_idle (reader s i) g \<longleftrightarrow> idle_locks s g = Some (ByReader i))"

text \<open>
  Only the current generation is open; without a pending rotation the other one is drained;
  the holder of the transition mutex is in a consistent phase; a certificate stays valid.
\<close>

definition inv_generations :: "('w::len word, 'x) domain \<Rightarrow> bool" where
  "inv_generations s \<longleftrightarrow>
     (\<forall>k < stripes s. is_sealed (gens s (other (current s)) k)) \<and>
     (pending s = None \<longrightarrow> drained_gen s (other (current s))) \<and>
     (transition_lock s = None \<longrightarrow> pending_ok s) \<and>
     (\<forall>j. transition_lock s = Some j \<longrightarrow> phase_ok s (rotation s j)) \<and>
     (\<forall>j. certified (rotation s j) \<longrightarrow> closed s \<and> drained_gen s Gen0 \<and> drained_gen s Gen1)"

text \<open>
  What is queued, held by a writer or disposed of is known and not live. A reader of the
  current generation has not reached what the other generation's queue holds, and no reader
  what was disposed of. A writer that has rechecked its selection is right.
\<close>

definition inv_items :: "('w::len word, 'x) domain \<Rightarrow> bool" where
  "inv_items s \<longleftrightarrow>
     (\<forall>g. set (queues s g) \<subseteq> known s - live s) \<and> (\<forall>i. writer_items (writer s i) \<subseteq> known s - live s) \<and>
     disposed s \<subseteq> known s - live s \<and> live s \<subseteq> known s \<and> (\<forall>i. held_items (reader s i) \<subseteq> known s) \<and>
     (\<forall>i g k held. reader s i = RReading g k held \<longrightarrow>
        held \<inter> disposed s = {} \<and> (g = current s \<longrightarrow> held \<inter> set (queues s (other g)) = {})) \<and>
     (\<forall>i x g. writer s i = WChecked x g \<longrightarrow> current s = g)"

definition domain_inv :: "('w::len word, 'x) domain \<Rightarrow> bool" where
  "domain_inv s \<longleftrightarrow> inv_readers s \<and> inv_locks s \<and> inv_generations s \<and> inv_items s"

subsection \<open>Preservation\<close>

lemma other_simps [simp]: "other (other g) = g" "other g \<noteq> g" "g \<noteq> other g"
  by (cases g; simp)+

lemma other_cases: "g' = g \<or> g' = other g"
  by (cases g; cases g') auto

lemmas setters = set_stripe_def set_idle_lock_def set_queue_lock_def set_reader_def set_writer_def set_rotation_def

lemmas phases = fresh_phase_def pending_phase_def closing_phase_def pending_ok_def

lemmas ranges = idle_below_def sealed_below_def drained_between_def drained_gen_def


text \<open>
  What a reader does to the gates: it seals and unseals nothing, a sealed count only shrinks,
  and a release tail begins only where a permit was counted.
\<close>

definition gates_shrink :: "('w::len word, 'x) domain \<Rightarrow> ('w word, 'x) domain \<Rightarrow> bool" where
  "gates_shrink s t \<longleftrightarrow> stripes t = stripes s \<and> (\<forall>g k. is_sealed (gens t g k) = is_sealed (gens s g k) \<and>
     (is_sealed (gens s g k) \<longrightarrow> permits (gens t g k) \<le> permits (gens s g k))) \<and>
     (\<forall>g. (\<forall>k < stripes s. permits (gens s g k) = 0) \<and> (\<forall>i. \<not> in_tail (reader s i) g) \<longrightarrow>
        (\<forall>i. \<not> in_tail (reader t i) g))"

lemma reader_step_frame:
  assumes "reader_step i s t"
  shows "current t = current s" "pending t = pending s" "transition_lock t = transition_lock s"
    "closed t = closed s" "queues t = queues s" "queue_lock t = queue_lock s" "live t = live s"
    "known t = known s" "disposed t = disposed s" "writer t = writer s" "rotation t = rotation s"
  using assms by (cases; simp add: setters)+

lemma inside_counted:
  assumes "inv_readers s" "inside (reader s i) g k"
  shows "k < stripes s \<and> permits (gens s g k) \<noteq> 0"
proof -
  have "k < stripes s" "finite {i. inside (reader s i) g k}" "permits (gens s g k) = card {i. inside (reader s i) g k}"
    using assms unfolding inv_readers_def by blast+
  then show ?thesis using assms(2) by auto
qed

lemma drained_stripe: "stripe_drained c \<longleftrightarrow> is_sealed c \<and> permits c = 0"
  by (simp add: stripe_drained_def active_zero_iff)

text \<open>A drained generation has nobody inside.\<close>

lemma drained_empty:
  assumes "inv_readers s" "drained_gen s g"
  shows "\<not> inside (reader s i) g k"
  using inside_counted [OF assms(1), of i g k] assms(2) by (auto simp: drained_gen_def drained_stripe)

lemma reader_step_gates:
  assumes w: "2 < LENGTH('w::len)" and inv: "inv_readers s" and step: "reader_step i s (t :: ('w word, 'x) domain)"
  shows "gates_shrink s t"
proof -
  have "stripes t = stripes s \<and> is_sealed (gens t g k) = is_sealed (gens s g k) \<and>
      (is_sealed (gens s g k) \<longrightarrow> permits (gens t g k) \<le> permits (gens s g k))" for g k
    using step by cases (auto simp: setters dest!: counter_dests [OF w])
  moreover have "\<not> in_tail (reader t i') g"
    if "\<forall>k < stripes s. permits (gens s g k) = 0" "\<forall>i. \<not> in_tail (reader s i) g" for g i'
    using step inside_counted [OF inv, of i g] that spec [OF that(2), of i] by cases (auto simp: setters)
  ultimately show ?thesis unfolding gates_shrink_def by blast
qed

lemma gates_shrink_ranges:
  assumes "gates_shrink s t"
  shows "drained_gen s g \<Longrightarrow> drained_gen t g" "sealed_below s g k \<Longrightarrow> sealed_below t g k"
    "drained_between s g r k \<Longrightarrow> drained_between t g r k"
    "idle_below s g k \<Longrightarrow> sealed_below s g (stripes s) \<Longrightarrow> idle_below t g k" "stripes t = stripes s"
  using assms by (fastforce simp: gates_shrink_def ranges drained_stripe)+

lemma phase_ok_shrink:
  assumes "gates_shrink s t" "current t = current s" "pending t = pending s" "closed t = closed s"
    and "phase_ok s pc" "sealed_below s (other (current s)) (stripes s)"
  shows "phase_ok t pc"
proof -
  have "pending_ok t = pending_ok s" "fresh_phase t = fresh_phase s" "pending_phase t = pending_phase s"
    "closing_phase s g \<Longrightarrow> closing_phase t g" for g
    using assms(2-4) gates_shrink_ranges(1) [OF assms(1)] by (auto simp: phases fun_eq_iff)
  moreover have "pending_phase s old \<Longrightarrow> idle_below s old k \<Longrightarrow> idle_below t old k" for old k
    using gates_shrink_ranges(4) [OF assms(1)] assms(6) by (simp add: pending_phase_def)
  ultimately show ?thesis
    using assms(2-5) gates_shrink_ranges [OF assms(1)] by (cases pc) auto
qed

lemma inv_generations_shrink:
  assumes "inv_generations s" "gates_shrink s t" "current t = current s" "pending t = pending s"
    "closed t = closed s" "transition_lock t = transition_lock s" "rotation t = rotation s"
  shows "inv_generations t"
proof -
  have sealed: "sealed_below s (other (current s)) (stripes s)"
    using assms(1) by (simp add: inv_generations_def sealed_below_def)
  then have "sealed_below t (other (current t)) (stripes t)"
    using gates_shrink_ranges(2,5) [OF assms(2)] assms(3) by simp
  moreover have "phase_ok t (rotation t j)" if "transition_lock t = Some j" for j
    using assms that phase_ok_shrink [OF assms(2-5) _ sealed] by (simp add: inv_generations_def)
  ultimately show ?thesis
    using assms gates_shrink_ranges(1) [OF assms(2)]
    by (auto simp: inv_generations_def sealed_below_def pending_ok_def)
qed

lemma inside_update:
  "{i'. inside ((f(i := pc)) i') g k} =
     (if inside pc g k then insert i {i'. inside (f i') g k} else {i'. inside (f i') g k} - {i})"
  by auto

lemma inv_readers_cong:
  assumes "inv_readers s" "\<And>i. inside (reader t i) = inside (reader s i)"
    "\<And>g k. permits (gens t g k) = permits (gens s g k)" "stripes t = stripes s"
  shows "inv_readers t"
  using assms by (simp add: inv_readers_def)

lemma inv_readers_reader:
  assumes w: "2 < LENGTH('w::len)" and inv: "inv_readers s" and step: "reader_step i s (t :: ('w word, 'x) domain)"
  shows "inv_readers t"
proof -
  have fin: "finite {i. inside (reader s i) g k}" and range: "inside (reader s i) g k \<Longrightarrow> k < stripes s"
    and card: "k < stripes s \<Longrightarrow> permits (gens s g k) = card {i. inside (reader s i) g k}" for i g k
    using inv unfolding inv_readers_def by blast+
  from step show ?thesis
  proof cases
    case (enter_admitted g k c)
    have "permits c = Suc (permits (gens s g k))" using counter_dests(1) [OF w] enter_admitted(4) by simp
    moreover have "i \<notin> {i'. inside (reader s i') g k}" using enter_admitted(2) by simp
    ultimately show ?thesis
      using fin range card enter_admitted(2,3) unfolding enter_admitted(1) inv_readers_def
      by (auto simp: setters inside_update simp del: fun_upd_apply) (auto simp: fun_upd_apply split: if_splits)
  next
    case (leave_fast g k held out c)
    then have "permits c = permits (gens s g k) - 1" using counter_dests(3) [OF w] by blast
    then show ?thesis
      using fin range card leave_fast(2) unfolding leave_fast(1) inv_readers_def
      by (auto simp: setters inside_update simp del: fun_upd_apply) (auto simp: fun_upd_apply split: if_splits)
  next
    case (leave_release g k out c)
    then have "permits c = permits (gens s g k) - 1" using counter_dests(5) [OF w] by blast
    then show ?thesis
      using fin range card leave_release(2) unfolding leave_release(1) inv_readers_def
      by (auto simp: setters inside_update simp del: fun_upd_apply) (auto simp: fun_upd_apply split: if_splits)
  qed (rule inv_readers_cong [OF inv]; auto simp: setters fun_eq_iff dest!: counter_dests [OF w])+
qed

lemma inv_locksD:
  assumes "inv_locks s"
  shows "in_transition (rotation s j) \<longleftrightarrow> transition_lock s = Some j"
    "rotation_locks (rotation s j) g \<longleftrightarrow> queue_lock s g = Some (ByManager j)"
    "writer_locks (writer s i) g \<longleftrightarrow> queue_lock s g = Some (ByWriter i)"
    "rotation_idle (rotation s j) g \<longleftrightarrow> idle_locks s g = Some (ByTransition j)"
    "reader_idle (reader s i) g \<longleftrightarrow> idle_locks s g = Some (ByReader i)"
  using assms unfolding inv_locks_def by simp_all

lemma inv_locks_reader:
  assumes inv: "inv_locks s" and step: "reader_step i s t"
  shows "inv_locks t"
proof -
  note D = inv_locksD [OF inv]
  have "(rotation_idle (rotation t j) g \<longleftrightarrow> idle_locks t g = Some (ByTransition j)) \<and>
        (reader_idle (reader t i') g \<longleftrightarrow> idle_locks t g = Some (ByReader i'))" for j i' g
    using step D(4) [of j g] D(5) [of i g] D(5) [of i' g]
    by cases (auto simp: setters split: if_splits)
  then show ?thesis
    using D(1-3) unfolding inv_locks_def by (simp add: reader_step_frame [OF step])
qed

lemma reader_step_held:
  assumes "reader_step i s t" "reader t i' = RReading g k held'"
  obtains "held' = {}" | held where "reader s i' = RReading g k held" "held' \<subseteq> held \<union> live s"
  using assms by cases (auto simp: setters split: if_splits)

text \<open>The clauses on items, one by one.\<close>

lemma inv_itemsD:
  assumes "inv_items s"
  shows "x \<in> set (queues s g) \<Longrightarrow> x \<in> known s \<and> x \<notin> live s"
    "x \<in> writer_items (writer s i) \<Longrightarrow> x \<in> known s \<and> x \<notin> live s"
    "x \<in> disposed s \<Longrightarrow> x \<in> known s \<and> x \<notin> live s" "live s \<subseteq> known s" "held_items (reader s i) \<subseteq> known s"
proof -
  have "set (queues s g) \<subseteq> known s - live s" "writer_items (writer s i) \<subseteq> known s - live s"
    "disposed s \<subseteq> known s - live s"
    using assms unfolding inv_items_def by simp_all
  then show "x \<in> set (queues s g) \<Longrightarrow> x \<in> known s \<and> x \<notin> live s"
    "x \<in> writer_items (writer s i) \<Longrightarrow> x \<in> known s \<and> x \<notin> live s"
    "x \<in> disposed s \<Longrightarrow> x \<in> known s \<and> x \<notin> live s" by blast+
  show "live s \<subseteq> known s" "held_items (reader s i) \<subseteq> known s"
    using assms unfolding inv_items_def by simp_all
qed

lemma inv_items_heldD:
  assumes "inv_items s" "reader s i = RReading g k held"
  shows "held \<inter> disposed s = {}" "g = current s \<Longrightarrow> held \<inter> set (queues s (other g)) = {}"
proof -
  have "\<forall>i g k held. reader s i = RReading g k held \<longrightarrow>
      held \<inter> disposed s = {} \<and> (g = current s \<longrightarrow> held \<inter> set (queues s (other g)) = {})"
    using assms(1) unfolding inv_items_def by (elim conjE)
  from this [rule_format, OF assms(2)]
  show "held \<inter> disposed s = {}" "g = current s \<Longrightarrow> held \<inter> set (queues s (other g)) = {}"
    by blast+
qed

lemma inv_items_checkedD:
  assumes "inv_items s" "writer s i = WChecked x g"
  shows "current s = g"
proof -
  have "\<forall>i x g. writer s i = WChecked x g \<longrightarrow> current s = g"
    using assms(1) unfolding inv_items_def by (elim conjE)
  from this [rule_format, OF assms(2)] show ?thesis .
qed

lemma inv_itemsI:
  assumes "\<And>g x. x \<in> set (queues s g) \<Longrightarrow> x \<in> known s \<and> x \<notin> live s"
    "\<And>i x. x \<in> writer_items (writer s i) \<Longrightarrow> x \<in> known s \<and> x \<notin> live s"
    "\<And>x. x \<in> disposed s \<Longrightarrow> x \<in> known s \<and> x \<notin> live s" "live s \<subseteq> known s"
    "\<And>i g k held x. reader s i = RReading g k held \<Longrightarrow> x \<in> held \<Longrightarrow>
       x \<in> known s \<and> x \<notin> disposed s \<and> (g = current s \<longrightarrow> x \<notin> set (queues s (other g)))"
    "\<And>i x g. writer s i = WChecked x g \<Longrightarrow> current s = g"
  shows "inv_items s"
proof -
  have "held_items (reader s i) \<subseteq> known s" for i using assms(5) by (cases "reader s i") auto
  moreover have "set (queues s g) \<subseteq> known s - live s" for g using assms(1) by blast
  moreover have "writer_items (writer s i) \<subseteq> known s - live s" for i using assms(2) by blast
  moreover have "disposed s \<subseteq> known s - live s" using assms(3) by blast
  moreover have "held \<inter> disposed s = {} \<and> (g = current s \<longrightarrow> held \<inter> set (queues s (other g)) = {})"
    if "reader s i = RReading g k held" for i g k held
    using assms(5) [OF that] by blast
  ultimately show ?thesis unfolding inv_items_def using assms(4,6) by simp
qed

lemma inv_items_reader:
  assumes inv: "inv_items s" and step: "reader_step i s t"
  shows "inv_items t"
proof (rule inv_itemsI)
  fix i' g k held' x
  assume r: "reader t i' = RReading g k held'" and x: "x \<in> held'"
  show "x \<in> known t \<and> x \<notin> disposed t \<and> (g = current t \<longrightarrow> x \<notin> set (queues t (other g)))"
    using step r
  proof (rule reader_step_held)
    assume "held' = {}"
    then show ?thesis using x by simp
  next
    fix held
    assume h: "reader s i' = RReading g k held" "held' \<subseteq> held \<union> live s"
    have "held \<subseteq> known s" using inv_itemsD(5) [OF inv, of i'] h(1) by simp
    then show ?thesis
      using x h inv_items_heldD [OF inv h(1)] inv_itemsD(1,3,4) [OF inv]
      unfolding reader_step_frame [OF step] by blast
  qed
qed (use inv_itemsD [OF inv] inv_items_checkedD [OF inv] in \<open>simp_all add: reader_step_frame [OF step]\<close>)

subsubsection \<open>Writers\<close>

lemma writer_step_frame:
  assumes "writer_step i s t"
  shows "stripes t = stripes s" "gens t = gens s" "current t = current s" "pending t = pending s"
    "transition_lock t = transition_lock s" "closed t = closed s" "disposed t = disposed s"
    "reader t = reader s" "rotation t = rotation s" "idle_locks t = idle_locks s"
  using assms by (cases; simp add: setters)+

lemma gates_shrink_refl: "gens t = gens s \<Longrightarrow> stripes t = stripes s \<Longrightarrow> reader t = reader s \<Longrightarrow> gates_shrink s t"
  by (simp add: gates_shrink_def)

lemma inv_generations_writer: "inv_generations s \<Longrightarrow> writer_step i s t \<Longrightarrow> inv_generations t"
  by (rule inv_generations_shrink) (simp_all add: gates_shrink_refl writer_step_frame)

lemma inv_readers_writer: "inv_readers s \<Longrightarrow> writer_step i s t \<Longrightarrow> inv_readers t"
  by (rule inv_readers_cong) (simp_all add: writer_step_frame)

lemma inv_locks_writer:
  assumes inv: "inv_locks s" and step: "writer_step i s t"
  shows "inv_locks t"
proof -
  note D = inv_locksD [OF inv]
  have "(rotation_locks (rotation t j) g \<longleftrightarrow> queue_lock t g = Some (ByManager j)) \<and>
        (writer_locks (writer t i') g \<longleftrightarrow> queue_lock t g = Some (ByWriter i'))" for j i' g
    using step D(2) [of j g] D(3) [of i g] D(3) [of i' g]
    by cases (auto simp: setters split: if_splits)
  then show ?thesis
    using D(1,4,5) unfolding inv_locks_def by (simp add: writer_step_frame [OF step])
qed

lemma inv_items_writer:
  assumes inv: "inv_items s" and step: "writer_step i s t"
  shows "inv_items t"
proof -
  note D = inv_itemsD [OF inv]
  have W: "\<And>x. x \<in> writer_items (writer s i') \<Longrightarrow> x \<in> known s \<and> x \<notin> live s" for i' by (rule D(2))
  have known: "known s \<subseteq> known t" using step by cases (auto simp: setters)
  have Q: "x \<in> known t \<and> x \<notin> live t" if "x \<in> set (queues t g)" for x g
    using step that D(1,4) W [of _ i] by cases (auto simp: setters split: if_splits)
  have I: "x \<in> known t \<and> x \<notin> live t" if "x \<in> writer_items (writer t i')" for x i'
    using step that D(4) W [of _ i] W [of _ i'] by cases (auto simp: setters split: if_splits)
  have Dis: "x \<in> known t \<and> x \<notin> live t" if "x \<in> disposed t" for x
    using step that D(3) by cases (auto simp: setters)
  have L: "live t \<subseteq> known t" using step D(4) by cases (auto simp: setters)
  have other_queue: "queues t (other (current s)) = queues s (other (current s))"
    using step inv_items_checkedD [OF inv] by cases (auto simp: setters)
  have C: "current t = g" if "writer t i' = WChecked x g" for i' x g
    using step that inv_items_checkedD [OF inv, of i' x g] by cases (auto simp: setters split: if_splits)
  show ?thesis
  proof (rule inv_itemsI)
    fix i' g k held x
    assume r: "reader t i' = RReading g k held" and x: "x \<in> held"
    then have r: "reader s i' = RReading g k held" by (simp add: writer_step_frame [OF step])
    have "held \<subseteq> known s" using D(5) [of i'] r by simp
    then show "x \<in> known t \<and> x \<notin> disposed t \<and> (g = current t \<longrightarrow> x \<notin> set (queues t (other g)))"
      using x known inv_items_heldD [OF inv r] other_queue
      by (auto simp: writer_step_frame [OF step])
  qed (rule Q I Dis L C; assumption)+
qed

subsubsection \<open>Managers\<close>

lemma reseal: "is_sealed c \<Longrightarrow> seal (c AND NOT SEALED_BIT) = (c :: 'w::len word)"
  by (intro bit_word_eqI) (auto simp: is_sealed_iff seal_def SEALED_BIT_def bit_simps)

lemma undo_InrD:
  assumes "2 < LENGTH('w::len)" "undo_idle_seal (c :: 'w word) = (Inr u, d)"
  shows "is_sealed c \<and> permits c = 0 \<and> \<not> is_sealed d \<and> permits d = 0"
proof -
  have d: "stripe_drained c" "d = c AND NOT SEALED_BIT"
    using assms(2) by (auto simp: undo_idle_seal_eq split: if_splits)
  then have "permits d = permits c"
    using fields_seal(3) [OF assms(1), of d] reseal [of c] by (simp add: stripe_drained_def)
  then show ?thesis using d undo_drained(2) [OF assms(1)] by (simp add: drained_stripe)
qed

lemma try_idle_sealD:
  assumes "2 < LENGTH('w::len)" "try_idle_seal ob (c :: 'w word) = (b, d)"
  shows "permits d = permits c \<and> (if b then is_sealed d \<and> permits c = 0 else d = c)"
  using assms fields_seal [OF assms(1)] by (auto simp: try_idle_seal_cases split: if_splits)

lemma sealD:
  assumes "2 < LENGTH('w::len)"
  shows "is_sealed (seal (c :: 'w word))" "permits (seal c) = permits c"
  using fields_seal [OF assms] by simp_all

lemmas manager_dests = mark_waitingD try_idle_sealD undo_InrD

lemma rotation_step_frame:
  assumes "rotation_step j s t"
  shows "stripes t = stripes s" "reader t = reader s" "writer t = writer s" "live t = live s" "known t = known s"
  using assms by (cases; simp add: setters)+

lemma rotation_step_permits:
  assumes w: "2 < LENGTH('w::len)" and step: "rotation_step j s (t :: ('w word, 'x) domain)"
  shows "permits (gens t g k) = permits (gens s g k)"
  using step by cases (auto simp: setters sealD [OF w] dest!: manager_dests [OF w] reopen_InrD)

lemma inv_readers_rotation:
  assumes "2 < LENGTH('w::len)" "inv_readers s" "rotation_step j s (t :: ('w word, 'x) domain)"
  shows "inv_readers t"
  by (rule inv_readers_cong [OF assms(2)])
    (simp_all add: rotation_step_frame [OF assms(3)] rotation_step_permits [OF assms(1,3)])

lemma rotation_step_others: "rotation_step j s t \<Longrightarrow> j' \<noteq> j \<Longrightarrow> rotation t j' = rotation s j'"
  by (erule rotation_step.cases) (simp_all add: setters)

lemma rotation_step_queue_lock:
  "rotation_step j s t \<Longrightarrow> queue_lock t g =
     (if rotation_locks (rotation t j) g = rotation_locks (rotation s j) g then queue_lock s g
      else if rotation_locks (rotation t j) g then Some (ByManager j) else None)"
  by (cases g; erule rotation_step.cases) (simp_all add: setters)

lemma rotation_step_queue_free:
  "rotation_step j s t \<Longrightarrow> rotation_locks (rotation t j) g \<Longrightarrow> \<not> rotation_locks (rotation s j) g \<Longrightarrow>
   queue_lock s g = None"
  by (cases g; erule rotation_step.cases) (simp_all add: setters split: if_splits)

lemma rotation_step_idle_lock:
  "rotation_step j s t \<Longrightarrow> idle_locks t g =
     (if rotation_idle (rotation t j) g = rotation_idle (rotation s j) g then idle_locks s g
      else if rotation_idle (rotation t j) g then Some (ByTransition j) else None)"
  by (cases g; erule rotation_step.cases) (auto simp: setters)

lemma rotation_step_idle_free:
  "rotation_step j s t \<Longrightarrow> rotation_idle (rotation t j) g \<Longrightarrow> \<not> rotation_idle (rotation s j) g \<Longrightarrow>
   idle_locks s g = None"
  by (cases g; erule rotation_step.cases) (auto simp: setters split: if_splits)

lemma rotation_step_transition_lock:
  "rotation_step j s t \<Longrightarrow> transition_lock t =
     (if in_transition (rotation t j) = in_transition (rotation s j) then transition_lock s
      else if in_transition (rotation t j) then Some j else None)"
  by (erule rotation_step.cases) (simp_all add: setters in_transition_def)

lemma rotation_step_transition_free:
  "rotation_step j s t \<Longrightarrow> in_transition (rotation t j) \<Longrightarrow> \<not> in_transition (rotation s j) \<Longrightarrow>
   transition_lock s = None"
  by (erule rotation_step.cases) (simp_all add: setters in_transition_def)

lemma inv_locks_rotation:
  assumes inv: "inv_locks s" and step: "rotation_step j s t"
  shows "inv_locks t"
proof -
  note D = inv_locksD [OF inv] and others = rotation_step_others [OF step]
  have "in_transition (rotation t j') \<longleftrightarrow> transition_lock t = Some j'" for j'
    using D(1) [of j] D(1) [of j'] others [of j'] rotation_step_transition_lock [OF step]
      rotation_step_transition_free [OF step]
    by (cases "j' = j") auto
  moreover have "rotation_locks (rotation t j') g \<longleftrightarrow> queue_lock t g = Some (ByManager j')" for j' g
    using D(2) [of j g] D(2) [of j' g] others [of j'] rotation_step_queue_lock [OF step, of g]
      rotation_step_queue_free [OF step, of g]
    by (cases "j' = j") auto
  moreover have "writer_locks (writer s i) g \<longleftrightarrow> queue_lock t g = Some (ByWriter i)" for i g
    using D(3) [of i g] D(2) [of j g] rotation_step_queue_lock [OF step, of g]
      rotation_step_queue_free [OF step, of g] by auto
  moreover have "rotation_idle (rotation t j') g \<longleftrightarrow> idle_locks t g = Some (ByTransition j')" for j' g
    using D(4) [of j g] D(4) [of j' g] others [of j'] rotation_step_idle_lock [OF step, of g]
      rotation_step_idle_free [OF step, of g]
    by (cases "j' = j") auto
  moreover have "reader_idle (reader s i) g \<longleftrightarrow> idle_locks t g = Some (ByReader i)" for i g
    using D(5) [of i g] D(4) [of j g] rotation_step_idle_lock [OF step, of g]
      rotation_step_idle_free [OF step, of g] by auto
  ultimately show ?thesis unfolding inv_locks_def by (simp add: rotation_step_frame [OF step])
qed

text \<open>
  Whoever holds a notification mutex keeps the tails of the generation's releases out; and the
  mutex of a drained generation is free, unless a transition holds it.
\<close>

lemma idle_lock_no_tail:
  assumes "inv_locks s" "rotation_idle (rotation s j) g"
  shows "\<not> in_tail (reader s i) g"
  using inv_locksD(4) [OF assms(1), of j g] inv_locksD(5) [OF assms(1), of i g] assms(2)
  by (cases "reader s i") auto

lemma reader_idle_cases: "reader_idle pc g \<Longrightarrow> in_tail pc g \<or> (\<exists>k. inside pc g k)"
  by (cases pc) auto

lemma drained_idle_free:
  assumes rd: "inv_readers s" and locks: "inv_locks s" and drained: "drained_gen s g"
    and holder: "in_transition (rotation s j)" "\<not> rotation_idle (rotation s j) g"
  shows "idle_locks s g = None"
proof (cases "idle_locks s g")
  case (Some q)
  note D = inv_locksD [OF locks]
  show ?thesis
  proof (cases q)
    case (ByReader i)
    then have "reader_idle (reader s i) g" using D(5) Some by simp
    then show ?thesis
      using drained_empty [OF rd drained] reader_idle_cases [of "reader s i" g] drained
      by (auto simp: drained_gen_def)
  next
    case (ByTransition j')
    then have r: "rotation_idle (rotation s j') g" using D(4) Some by simp
    then have "in_transition (rotation s j')" by (cases "rotation s j'") (auto simp: in_transition_def)
    then have "j' = j" using D(1) [of j'] D(1) [of j] holder(1) by simp
    then show ?thesis using r holder(2) by simp
  qed
qed

text \<open>The acting manager, by the state it is in.\<close>

lemma inv_generationsD:
  assumes "inv_generations s"
  shows "sealed_below s (other (current s)) (stripes s)"
    "pending s = None \<Longrightarrow> drained_gen s (other (current s))"
    "transition_lock s = None \<Longrightarrow> pending_ok s"
    "transition_lock s = Some j \<Longrightarrow> phase_ok s (rotation s j)"
    "certified (rotation s j) \<Longrightarrow> closed s \<and> drained_gen s Gen0 \<and> drained_gen s Gen1"
  using assms unfolding inv_generations_def sealed_below_def by blast+

lemma refusalD:
  "undo_idle_seal c = (Inl e, d) \<Longrightarrow> is_sealed c \<Longrightarrow> permits c \<noteq> 0"
  "reopen c = Returns (Inl e', d) \<Longrightarrow> is_sealed c \<Longrightarrow> permits c \<noteq> 0"
  by (auto simp: undo_idle_seal_eq drained_stripe reopen_cases split: if_splits)

lemma rotation_sealed:
  assumes w: "2 < LENGTH('w::len)" and step: "rotation_step j s (t :: ('w word, 'x) domain)"
    and ph: "in_transition (rotation s j) \<Longrightarrow> phase_ok s (rotation s j)"
    and sealed: "sealed_below s (other (current s)) (stripes s)"
  shows "sealed_below t (other (current t)) (stripes t)"
  using step ph sealed
  by cases (auto simp: setters in_transition_def phases sealed_below_def sealD [OF w]
      dest!: manager_dests [OF w])

lemma rotation_drained:
  assumes w: "2 < LENGTH('w::len)" and step: "rotation_step j s (t :: ('w word, 'x) domain)"
    and ph: "in_transition (rotation s j) \<Longrightarrow> phase_ok s (rotation s j)"
    and drained: "pending s = None \<Longrightarrow> drained_gen s (other (current s))" and p: "pending t = None"
  shows "drained_gen t (other (current t))"
  using step ph drained p
  by cases (auto simp: setters in_transition_def phases drained_gen_def drained_stripe sealD [OF w]
      dest!: manager_dests [OF w])

lemma rotation_phase:
  assumes w: "2 < LENGTH('w::len)" and step: "rotation_step j s (t :: ('w word, 'x) domain)"
    and ph: "in_transition (rotation s j) \<Longrightarrow> phase_ok s (rotation s j)"
    and sealed: "sealed_below s (other (current s)) (stripes s)"
    and drained: "pending s = None \<Longrightarrow> drained_gen s (other (current s))"
    and free: "transition_lock s = None \<Longrightarrow> pending_ok s"
    and tail: "\<And>g i. rotation_idle (rotation s j) g \<Longrightarrow> \<not> in_tail (reader s i) g"
    and idle: "\<And>g. drained_gen s g \<Longrightarrow> in_transition (rotation s j) \<Longrightarrow> \<not> rotation_idle (rotation s j) g \<Longrightarrow>
      idle_locks s g = None"
    and holds: "in_transition (rotation t j)"
  shows "phase_ok t (rotation t j)"
  using step ph sealed drained free tail idle holds
  by cases (auto simp: setters in_transition_def phases ranges drained_stripe sealD [OF w] less_Suc_eq
      dest!: manager_dests [OF w] refusalD)
lemma rotation_certified:
  assumes w: "2 < LENGTH('w::len)" and step: "rotation_step j s (t :: ('w word, 'x) domain)"
    and ph: "in_transition (rotation s j) \<Longrightarrow> phase_ok s (rotation s j)"
    and cert: "closed s \<and> drained_gen s Gen0 \<and> drained_gen s Gen1"
  shows "closed t \<and> drained_gen t Gen0 \<and> drained_gen t Gen1"
  using step ph cert
  by cases (auto simp: setters in_transition_def phases drained_gen_def drained_stripe sealD [OF w]
      dest!: manager_dests [OF w])

lemma rotation_becomes_certified:
  "rotation_step j s t \<Longrightarrow> certified (rotation t j) \<Longrightarrow> \<not> certified (rotation s j) \<Longrightarrow>
   rotation s j = CDone \<and> gens t = gens s \<and> stripes t = stripes s \<and> closed t = closed s \<and> reader t = reader s"
  by (erule rotation_step.cases) (simp_all add: setters split: if_splits)

lemma rotation_outside_frame:
  "rotation_step j s t \<Longrightarrow> \<not> in_transition (rotation s j) \<Longrightarrow> \<not> in_transition (rotation t j) \<Longrightarrow>
   gens t = gens s \<and> stripes t = stripes s \<and> closed t = closed s \<and> pending t = pending s \<and> current t = current s \<and>
   reader t = reader s"
  by (erule rotation_step.cases) (simp_all add: setters in_transition_def)

lemma rotation_unlocks:
  assumes "rotation_step j s t" "in_transition (rotation s j)" "\<not> in_transition (rotation t j)" "phase_ok s (rotation s j)"
  shows "pending_ok t"
  using assms by cases (simp_all add: setters in_transition_def phases)

lemma inv_generations_rotation:
  assumes w: "2 < LENGTH('w::len)" and inv: "inv_generations s" and rd: "inv_readers s" and locks: "inv_locks s"
    and step: "rotation_step j s (t :: ('w word, 'x) domain)"
  shows "inv_generations t"
proof -
  note D = inv_generationsD [OF inv] and L = inv_locksD(1) [OF locks] and L' = inv_locksD(1) [OF inv_locks_rotation [OF locks step]]
  have ph: "in_transition (rotation s j) \<Longrightarrow> phase_ok s (rotation s j)" using L D(4) by blast
  have phase: "phase_ok t (rotation t j)" if "in_transition (rotation t j)"
    using step ph D(1-3) idle_lock_no_tail [OF locks] drained_idle_free [OF rd locks] that by (rule rotation_phase [OF w])
  have "pending_ok t" if "transition_lock t = None"
  proof (cases "in_transition (rotation s j)")
    case True
    then show ?thesis using rotation_unlocks [OF step] ph L' that by auto
  next
    case False
    moreover have "\<not> in_transition (rotation t j)" using L' that by simp
    ultimately have "transition_lock s = None" using rotation_step_transition_lock [OF step] that by simp
    then show ?thesis
      using D(3) rotation_outside_frame [OF step False \<open>\<not> in_transition (rotation t j)\<close>]
      by (simp add: pending_ok_def)
  qed
  moreover have "phase_ok t (rotation t j')" if h: "transition_lock t = Some j'" for j'
  proof (cases "j' = j")
    case True
    then show ?thesis using phase L' h by simp
  next
    case False
    then have "in_transition (rotation s j')" using L' [of j'] h rotation_step_others [OF step] by simp
    then have s: "transition_lock s = Some j'" "\<not> in_transition (rotation s j)" using L False by auto
    then have "\<not> in_transition (rotation t j)" using L' [of j] h False by simp
    then show ?thesis
      using rotation_outside_frame [OF step s(2)] D(4) [OF s(1)] rotation_step_others [OF step False]
      by (auto intro: phase_ok_shrink [OF gates_shrink_refl _ _ _ _ D(1)])
  qed
  moreover have "closed t \<and> drained_gen t Gen0 \<and> drained_gen t Gen1" if c: "certified (rotation t j')" for j'
  proof (cases "certified (rotation s j')")
    case True
    then show ?thesis using rotation_certified [OF w step ph] D(5) by blast
  next
    case False
    then have "j' = j" using c rotation_step_others [OF step] by metis
    then have "rotation s j = CDone" "gens t = gens s" "stripes t = stripes s" "closed t = closed s" "reader t = reader s"
      using rotation_becomes_certified [OF step] c False by auto
    then show ?thesis using ph by (simp add: in_transition_def closing_phase_def drained_gen_def)
  qed
  ultimately show ?thesis
    unfolding inv_generations_def
    using rotation_sealed [OF w step ph D(1)] rotation_drained [OF w step ph D(2)]
    by (simp add: sealed_below_def)
qed

lemma drained_not_reading: "inv_readers s \<Longrightarrow> drained_gen s g \<Longrightarrow> reader s i \<noteq> RReading g k held"
  using drained_empty [of s g i k] by force

text \<open>The three steps of a manager that matter for the items.\<close>

lemma rotation_step_items:
  assumes "rotation_step j s t"
  obtains "current t = current s" "queues t = queues s" "disposed t = disposed s"
  | m old where "rotation s j = MPublish m old" "current t = other old" "queues t = queues s" "disposed t = disposed s"
  | m old where "rotation s j = MTaking m old" "current t = current s" "queues t = (queues s)(old := [])"
      "disposed t = disposed s \<union> set (queues s old)"
  | "rotation s j = CLock1" "current t = current s" "queues t = (\<lambda>_. [])"
      "disposed t = disposed s \<union> set (queues s Gen0) \<union> set (queues s Gen1)"
  using assms by cases (simp_all add: setters)

lemma inv_items_rotation:
  assumes rd: "inv_readers s" and locks: "inv_locks s" and gen: "inv_generations s"
    and inv: "inv_items s" and step: "rotation_step j s t"
  shows "inv_items t"
proof -
  note D = inv_itemsD [OF inv] and H = inv_items_heldD [OF inv] and C = inv_items_checkedD [OF inv]
    and G = inv_generationsD [OF gen] and frame = rotation_step_frame [OF step]
  have ph: "in_transition (rotation s j) \<Longrightarrow> phase_ok s (rotation s j)"
    using inv_locksD(1) [OF locks] G(4) by blast
  have K: "x \<in> known s" if "reader s i = RReading g k held" "x \<in> held" for i g k held x
    using D(5) [of i] that by auto
  have N: "x \<notin> disposed s" "g = current s \<Longrightarrow> x \<notin> set (queues s (other g))"
    if "reader s i = RReading g k held" "x \<in> held" for i g k held x
    using H [OF that(1)] that(2) by blast+
  from step show ?thesis
  proof (cases rule: rotation_step_items)
    case 1
    then show ?thesis using inv unfolding inv_items_def by (simp add: frame)
  next
    case (2 m old)
    then have p: "drained_gen s (other old)" "current s = old" using ph by (simp_all add: in_transition_def)
    have "queue_lock s old = Some (ByManager j)" using inv_locksD(2) [OF locks, of j old] 2(1) by simp
    then have nocheck: "writer s i \<noteq> WChecked x g" for i x g
      using C [of i x g] p inv_locksD(3) [OF locks, of i g] by auto
    show ?thesis
      by (rule inv_itemsI) (use 2 D(1-4) nocheck K N drained_not_reading [OF rd p(1)] in \<open>auto simp: frame\<close>)
  next
    case (3 m old)
    then have p: "drained_gen s old" "current s = other old"
      using ph by (simp_all add: in_transition_def pending_phase_def)
    have "x \<notin> set (queues s old)" if r: "reader s i = RReading g k held" and "x \<in> held" for i g k held x
    proof -
      have "g = current s" using r drained_not_reading [OF rd p(1), of i k held] other_cases [of g old] p(2) by auto
      then show ?thesis using H(2) [OF r] p(2) that(2) by auto
    qed
    then show ?thesis
      by (intro inv_itemsI) (use 3 D(1-4) C K N in \<open>auto simp: frame split: if_splits\<close>)
  next
    case 4
    then have "drained_gen s Gen0" "drained_gen s Gen1" using G(5) [of j] by simp_all
    then have "reader s i \<noteq> RReading g k held" for i g k held
      using drained_not_reading [OF rd] by (cases g) simp_all
    then show ?thesis
      by (intro inv_itemsI) (use 4 D(1-4) C in \<open>auto simp: frame\<close>)
  qed
qed

lemma domain_inv_step:
  assumes w: "2 < LENGTH('w::len)" and inv: "domain_inv s" and step: "domain_step s (t :: ('w word, 'x) domain)"
  shows "domain_inv t"
  using step
proof cases
  case (by_reader i)
  then show ?thesis
    using inv inv_readers_reader [OF w] inv_locks_reader inv_items_reader
      inv_generations_shrink [OF _ reader_step_gates [OF w _ by_reader]] reader_step_frame [OF by_reader]
    unfolding domain_inv_def by auto
next
  case (by_writer i)
  then show ?thesis
    using inv inv_readers_writer inv_locks_writer inv_items_writer inv_generations_writer
    unfolding domain_inv_def by auto
next
  case (by_rotation j)
  then show ?thesis
    using inv inv_readers_rotation [OF w] inv_locks_rotation inv_generations_rotation [OF w] inv_items_rotation
    unfolding domain_inv_def by auto
qed

lemma domain_inv_new:
  assumes w: "2 < LENGTH('w::len)"
  shows "domain_inv (domain_new n :: ('w word, 'x) domain)"
proof -
  let ?s = "domain_new n :: ('w word, 'x) domain"
  have "inv_readers ?s"
    using assms by (auto simp: inv_readers_def domain_new_def fields_zero new_open_def fields_new_sealed [OF w] split: GenerationIndex.splits)
  moreover have "inv_locks ?s"
    by (simp add: inv_locks_def domain_new_def in_transition_def)
  moreover have "inv_generations ?s"
    by (simp add: inv_generations_def domain_new_def drained_gen_def drained_stripe fields_new_sealed [OF w] pending_ok_def)
  moreover have "inv_items ?s" by (simp add: inv_items_def domain_new_def)
  ultimately show ?thesis by (simp add: domain_inv_def)
qed

lemma domain_system:
  assumes "2 < LENGTH('w::len)"
  shows "transition_system domain_init domain_step (domain_inv :: ('w word, 'x) domain \<Rightarrow> bool)"
  by unfold_locales (auto simp: domain_init_def intro: domain_inv_new [OF assms] domain_inv_step [OF assms])

interpretation rotating32: transition_system domain_init domain_step "domain_inv :: (32 word, 'x) domain \<Rightarrow> bool"
  by (rule domain_system) simp

interpretation rotating64: transition_system domain_init domain_step "domain_inv :: (64 word, 'x) domain \<Rightarrow> bool"
  by (rule domain_system) simp

lemma domain_reachable_inv64: "domain_reachable s \<Longrightarrow> domain_inv (s :: (64 word, 'x) domain)"
  unfolding domain_reachable_def using rotating64.inv_reachable by blast

text \<open>Zero counts in a stripe of both generations exclude every reader of that stripe.\<close>

lemma not_reading_excludes:
  assumes "inv_readers s" "\<not> current_thread_may_be_reading k s"
  shows "\<not> inside (reader s i) g k"
  using inside_counted [OF assms(1), of i g k] assms(2)
  by (cases g) (auto simp: current_thread_may_be_reading_def active_zero_iff)

section \<open>Properties\<close>

text \<open>
  C6. The grace period: in every state that any interleaving of readers, writers, rotations and
  closure reaches, an item that a reader inside a generation has reached, and may still be
  using, has not been handed out for disposal. Every item handed out was withdrawn before and is
  no longer reachable, so no later reader finds it either.
\<close>

theorem grace_period:
  assumes "domain_reachable (s :: (64 word, 'x) domain)" "reader s i = RReading g k held"
  shows "held \<inter> disposed s = {} \<and> disposed s \<inter> live s = {}"
proof -
  have inv: "inv_items s" using domain_reachable_inv64 [OF assms(1)] by (simp add: domain_inv_def)
  show ?thesis using inv_items_heldD(1) [OF inv assms(2)] inv_itemsD(3) [OF inv] by blast
qed

text \<open>
  C40. The discipline of the two generations: a stripe that admits readers belongs to the published
  generation; no rotation finds a replacement that is open, whose notification mutex is in use or
  that is busy, and no roll-back or reopening fails, so no fail-stop is reached; when a rotation
  takes the old queue, nobody is inside the old generation and no release tail is left in it; a
  certificate of closure means that the domain is closed and that nobody, not even the tail of a
  release, is left in either generation.
\<close>

theorem generation_discipline:
  assumes "domain_reachable (s :: (64 word, 'x) domain)"
  shows "(k < stripes s \<longrightarrow> \<not> is_sealed (gens s g k) \<longrightarrow> g = current s) \<and> rotation s j \<noteq> MFailStop old \<and>
    (rotation s j = MTaking m old \<longrightarrow>
       current s = other old \<and> \<not> inside (reader s i) old k \<and> \<not> in_tail (reader s i) old) \<and>
    (certified (rotation s j) \<longrightarrow> closed s \<and> \<not> inside (reader s i) g k \<and> \<not> in_tail (reader s i) g)"
proof -
  have inv: "inv_readers s" "inv_locks s" "inv_generations s"
    using domain_reachable_inv64 [OF assms] by (simp_all add: domain_inv_def)
  note G = inv_generationsD [OF inv(3)]
  have ph: "in_transition (rotation s j) \<Longrightarrow> phase_ok s (rotation s j)"
    using inv_locksD(1) [OF inv(2)] G(4) by blast
  have empty: "\<not> inside (reader s i) g k \<and> \<not> in_tail (reader s i) g" if "drained_gen s g" for g
    using drained_empty [OF inv(1) that] that by (simp add: drained_gen_def)
  have "g = current s" if "k < stripes s" "\<not> is_sealed (gens s g k)"
    using G(1) other_cases [of g "current s"] that by (auto simp: sealed_below_def)
  moreover have "rotation s j \<noteq> MFailStop old" using ph by (auto simp: in_transition_def)
  moreover have "current s = other old \<and> \<not> inside (reader s i) old k \<and> \<not> in_tail (reader s i) old"
    if "rotation s j = MTaking m old"
    using ph that empty by (auto simp: in_transition_def pending_phase_def)
  moreover have "closed s \<and> \<not> inside (reader s i) g k \<and> \<not> in_tail (reader s i) g" if "certified (rotation s j)"
    using G(5) [OF that] empty by (cases g) auto
  ultimately show ?thesis by blast
qed

subsection \<open>Runs\<close>

lemma domain_reachable_step: "domain_reachable s \<Longrightarrow> domain_step s t \<Longrightarrow> domain_reachable t"
  unfolding domain_reachable_def by (meson rtranclp.rtrancl_into_rtrancl)

lemma domain_reachable_new: "domain_reachable (domain_new n)"
  unfolding domain_reachable_def domain_init_def by blast

text \<open>An item is published, a reader enters and reaches it, and a writer withdraws it.\<close>

lemma withdrawn_while_read:
  "\<exists>s :: (64 word, nat) domain. domain_reachable s \<and> reader s 0 = RReading Gen0 0 {5} \<and>
     writer s 0 = WWithdrawn 5 \<and> stripes s = 1 \<and> current s = Gen0"
proof -
  let ?s0 = "domain_new 1 :: (64 word, nat) domain"
  let ?s1 = "?s0\<lparr>live := {5}, known := {5}\<rparr>"
  let ?s2 = "set_reader 0 (RSelected Gen0 0) ?s1"
  let ?s3 = "set_reader 0 (RReading Gen0 0 {}) (set_stripe Gen0 0 1 ?s2)"
  let ?s4 = "set_reader 0 (RReading Gen0 0 {5}) ?s3"
  let ?s5 = "set_writer 0 (WWithdrawn 5) (?s4\<lparr>live := {}\<rparr>)"
  have 1: "domain_step ?s0 ?s1"
    using publish_item [of ?s0 0 5] by (intro by_writer [of 0]) (simp add: domain_new_def)
  have 2: "domain_step ?s1 ?s2"
    using enter_select [of ?s1 0 0] by (intro by_reader [of 0]) (simp add: domain_new_def)
  have "try_acquire (0 :: 64 word) = Returns (Inr (), 1)"
    by (simp add: try_acquire_cases active_limit_def permits_def active_def is_sealed_def SEALED_BIT_64_def ACTIVE_COUNT_MASK_64_def)
  then have 3: "domain_step ?s2 ?s3"
    by (intro by_reader [of 0] enter_admitted) (simp_all add: domain_new_def set_reader_def new_open_def)
  have 4: "domain_step ?s3 ?s4"
    using read_item [of ?s3 0 Gen0 0 "{}" 5]
    by (intro by_reader [of 0]) (simp add: domain_new_def setters)
  have 5: "domain_step ?s4 ?s5"
    using withdraw [of ?s4 0 5] by (intro by_writer [of 0]) (simp add: domain_new_def setters)
  have "domain_reachable ?s5"
    by (intro domain_reachable_step [OF _ 5] domain_reachable_step [OF _ 4] domain_reachable_step [OF _ 3]
        domain_reachable_step [OF _ 2] domain_reachable_step [OF _ 1] domain_reachable_new)
  then show ?thesis by (intro exI [of _ ?s5]) (simp add: domain_new_def setters)
qed

theorem grace_period_witness:
  "\<exists>s :: (64 word, nat) domain. domain_reachable s \<and> reader s 0 = RReading Gen0 0 {5} \<and>
     writer s 0 = WWithdrawn 5 \<and> 5 \<notin> disposed s"
proof -
  obtain s :: "(64 word, nat) domain" where "domain_reachable s" "reader s 0 = RReading Gen0 0 {5}"
    "writer s 0 = WWithdrawn 5" using withdrawn_while_read by blast
  then show ?thesis using grace_period [of s 0 Gen0 0 "{5}"] by auto
qed

text \<open>A run continues by a step of a reader, a writer or a manager.\<close>

lemmas reads = domain_reachable_step [OF _ by_reader]
  and writes = domain_reachable_step [OF _ by_writer]
  and rotates = domain_reachable_step [OF _ by_rotation]

text \<open>The words that a stripe with at most one reader passes through.\<close>

lemma one_reader_words:
  "try_acquire (0 :: 64 word) = Returns (Inr (), 1)"
  "seal (0 :: 64 word) = SEALED_BIT_64" "seal (1 :: 64 word) = SEALED_BIT_64 OR 1" "seal SEALED_BIT_64 = SEALED_BIT_64"
  "seal (SEALED_BIT_64 OR 1) = SEALED_BIT_64 OR 1" "is_sealed SEALED_BIT_64"
  "mark_waiting SEALED_BIT_64 = (0, SEALED_BIT_64 OR WAITING_BIT_64)"
  "mark_waiting (SEALED_BIT_64 OR 1) = (1, SEALED_BIT_64 OR 1 OR WAITING_BIT_64)"
  "mark_waiting (SEALED_BIT_64 OR WAITING_BIT_64) = (0, SEALED_BIT_64 OR WAITING_BIT_64)"
  "stripe_drained (SEALED_BIT_64 OR WAITING_BIT_64)"
  "reopen (SEALED_BIT_64 OR WAITING_BIT_64) = Returns (Inr (), 0)"
  "try_release_without_notification (SEALED_BIT_64 OR 1 OR WAITING_BIT_64) =
     Returns (None, SEALED_BIT_64 OR 1 OR WAITING_BIT_64)"
  "release (SEALED_BIT_64 OR 1 OR WAITING_BIT_64) = Returns (BecameIdle, SEALED_BIT_64 OR WAITING_BIT_64)"
  by (simp_all add: try_acquire_def release_def try_release_without_notification_def reopen_def Sealable_Counter.update_defs adapters_agree_64
      acquire_step_64_def release_step_64_def release_without_notification_step_64_def release_outcome_step_64_def
      reopen_step_64_def seal_def mark_waiting_def is_sealed_def stripe_drained_def active_def
      SEALED_BIT_64_def WAITING_BIT_64_def ACTIVE_COUNT_MASK_64_def del: bind_run_Returns_iff)

lemmas run_simps = setters one_reader_words domain_new_def new_open_def new_sealed_def with_flag_def blocking_def

text \<open>
  A blocking rotation of one stripe, parked: a reader inside the old generation still holds the
  item that a writer has withdrawn and registered.
\<close>

definition parked_domain :: "(64 word, nat) domain" where
  "parked_domain = \<lparr>stripes = 1,
     gens = (case_GenerationIndex (\<lambda>_. 0) (\<lambda>_. SEALED_BIT_64))
       (Gen1 := (\<lambda>_. SEALED_BIT_64)(0 := 0), Gen0 := (\<lambda>_. 0)(0 := SEALED_BIT_64 OR 1 OR WAITING_BIT_64)),
     idle_locks = (\<lambda>_. None), current = Gen1, pending = Some Gen0, transition_lock = Some 0, closed = False,
     queues = (\<lambda>_. [])(Gen0 := [5]), queue_lock = (\<lambda>_. None), live = {}, known = {5}, disposed = {},
     reader = (\<lambda>_. ROut)(0 := RReading Gen0 0 {5}), writer = (\<lambda>_. WIdle)(0 := WIdle),
     rotation = (\<lambda>_. MIdle)(0 := MWaitLock (Blocking False) Gen0)\<rparr>"

lemma parked_reachable: "domain_reachable parked_domain"
proof -
  note [simp] = run_simps
  have r: "domain_reachable (domain_new 1 :: (64 word, nat) domain)" by (rule domain_reachable_new)
  note r = writes [OF r publish_item [where i = 0 and x = 5], simplified]
  note r = reads [OF r enter_select [where i = 0 and k = 0], simplified]
  note r = reads [OF r enter_admitted [where i = 0 and g = Gen0 and k = 0 and c = 1], simplified]
  note r = reads [OF r read_item [where i = 0 and g = Gen0 and k = 0 and held = "{}" and x = 5], simplified]
  note r = writes [OF r withdraw [where i = 0 and x = 5], simplified]
  note r = writes [OF r register_select [where i = 0 and x = 5], simplified]
  note r = writes [OF r register_lock [where i = 0 and x = 5 and g = Gen0], simplified]
  note r = writes [OF r register_current [where i = 0 and x = 5 and g = Gen0], simplified]
  note r = writes [OF r register_append [where i = 0 and x = 5 and g = Gen0], simplified]
  note r = writes [OF r register_unlock [where i = 0 and g = Gen0], simplified]
  note r = rotates [OF r lock [where j = 0 and m = "Blocking False"], simplified]
  note r = rotates [OF r classify_new [where j = 0 and m = "Blocking False"], simplified]
  note r = rotates [OF r barrier [where j = 0 and m = "Blocking False" and old = Gen0], simplified]
  note r = rotates [OF r replacement_sealed [where j = 0 and m = "Blocking False" and old = Gen0 and k = 0], simplified]
  note r = rotates [OF r replacement_checked [where j = 0 and m = "Blocking False" and old = Gen0], simplified]
  note r = rotates [OF r replacement_lock [where j = 0 and m = "Blocking False" and old = Gen0], simplified]
  note r = rotates [OF r replacement_observe [where j = 0 and m = "Blocking False" and old = Gen0 and k = 0 and idle = True and n = 0 and c = "SEALED_BIT_64 OR WAITING_BIT_64"], simplified]
  note r = rotates [OF r replacement_drained [where j = 0 and m = "Blocking False" and old = Gen0], simplified]
  note r = rotates [OF r seal_lock [where j = 0 and m = "Blocking False" and old = Gen0], simplified]
  note r = rotates [OF r seal_old [where j = 0 and m = "Blocking False" and old = Gen0 and k = 0], simplified]
  note r = rotates [OF r seal_old_done [where j = 0 and m = "Blocking False" and old = Gen0], simplified]
  note r = rotates [OF r set_pending [where j = 0 and m = "Blocking False" and old = Gen0], simplified]
  note r = rotates [OF r publish [where j = 0 and m = "Blocking False" and old = Gen0], simplified]
  note r = rotates [OF r reopen_lock [where j = 0 and m = "Blocking False" and old = Gen0], simplified]
  note r = rotates [OF r reopen_check [where j = 0 and m = "Blocking False" and old = Gen0 and k = 0], simplified]
  note r = rotates [OF r reopen_checked [where j = 0 and m = "Blocking False" and old = Gen0], simplified]
  note r = rotates [OF r reopen_one [where j = 0 and m = "Blocking False" and old = Gen0 and k = 0 and u = "()" and c = 0], simplified]
  note r = rotates [OF r reopen_done [where j = 0 and m = "Blocking False" and old = Gen0], simplified]
  note r = rotates [OF r release_barrier [where j = 0 and m = "Blocking False" and old = Gen0], simplified]
  note r = rotates [OF r wait_reseal [where j = 0 and m = "Blocking False" and old = Gen0], simplified]
  note r = rotates [OF r reseal_lock [where j = 0 and m = "Blocking False" and old = Gen0], simplified]
  note r = rotates [OF r reseal_one [where j = 0 and m = "Blocking False" and old = Gen0 and k = 0], simplified]
  note r = rotates [OF r reseal_done [where j = 0 and m = "Blocking False" and old = Gen0], simplified]
  note r = rotates [OF r wait_lock [where j = 0 and m = "Blocking False" and old = Gen0], simplified]
  note r = rotates [OF r wait_observe [where j = 0 and m = "Blocking False" and old = Gen0 and k = 0 and idle = True and n = 1 and c = "SEALED_BIT_64 OR 1 OR WAITING_BIT_64"], simplified]
  note r = rotates [OF r wait_parks [where j = 0 and m = "Blocking False" and old = Gen0], simplified]
  show ?thesis using r by (simp add: parked_domain_def)
qed

text \<open>The reader leaves through the notification mutex, and the rotation goes on to take the queue.\<close>

lemma taking_reachable:
  "\<exists>s :: (64 word, nat) domain. domain_reachable s \<and> rotation s 0 = MTaking (Blocking False) Gen0 \<and>
     queues s Gen0 = [5] \<and> known s = {5}"
proof -
  note [simp] = run_simps
  note r = parked_reachable [unfolded parked_domain_def, simplified]
  note r = reads [OF r leave_retained [where i = 0 and g = Gen0 and k = 0 and held = "{5}" and c = "SEALED_BIT_64 OR 1 OR WAITING_BIT_64"], simplified]
  note r = reads [OF r leave_lock [where i = 0 and g = Gen0 and k = 0], simplified]
  note r = reads [OF r leave_release [where i = 0 and g = Gen0 and k = 0 and out = BecameIdle and c = "SEALED_BIT_64 OR WAITING_BIT_64"], simplified]
  note r = reads [OF r leave_notify [where i = 0 and g = Gen0], simplified]
  note r = reads [OF r leave_unlock [where i = 0 and g = Gen0], simplified]
  note r = rotates [OF r wait_lock [where j = 0 and m = "Blocking False" and old = Gen0], simplified]
  note r = rotates [OF r wait_observe [where j = 0 and m = "Blocking False" and old = Gen0 and k = 0 and idle = True and n = 0 and c = "SEALED_BIT_64 OR WAITING_BIT_64"], simplified]
  note r = rotates [OF r wait_done [where j = 0 and m = "Blocking False" and old = Gen0], simplified]
  note r = rotates [OF r callback_lock [where j = 0 and m = "Blocking False" and old = Gen0], simplified]
  show ?thesis by (rule exI, rule conjI, rule r) simp
qed

lemma closed_reachable: "\<exists>s :: (64 word, nat) domain. domain_reachable s \<and> rotation s 0 = CCert \<and> stripes s = 1"
proof -
  note [simp] = run_simps
  have r: "domain_reachable (domain_new 1 :: (64 word, nat) domain)" by (rule domain_reachable_new)
  note r = rotates [OF r close_lock [where j = 0], simplified]
  note r = rotates [OF r close_domain [where j = 0], simplified]
  note r = rotates [OF r close_seal_lock [where j = 0 and g = Gen0], simplified]
  note r = rotates [OF r close_seal [where j = 0 and g = Gen0 and k = 0], simplified]
  note r = rotates [OF r close_sealed [where j = 0 and g = Gen0], simplified]
  note r = rotates [OF r close_wait_lock [where j = 0 and g = Gen0], simplified]
  note r = rotates [OF r close_observe [where j = 0 and g = Gen0 and k = 0 and idle = True and n = 0 and c = "SEALED_BIT_64 OR WAITING_BIT_64"], simplified]
  note r = rotates [OF r close_first [where j = 0], simplified]
  note r = rotates [OF r close_seal_lock [where j = 0 and g = Gen1], simplified]
  note r = rotates [OF r close_seal [where j = 0 and g = Gen1 and k = 0], simplified]
  note r = rotates [OF r close_sealed [where j = 0 and g = Gen1], simplified]
  note r = rotates [OF r close_wait_lock [where j = 0 and g = Gen1], simplified]
  note r = rotates [OF r close_observe [where j = 0 and g = Gen1 and k = 0 and idle = True and n = 0 and c = "SEALED_BIT_64 OR WAITING_BIT_64"], simplified]
  note r = rotates [OF r close_second [where j = 0], simplified]
  note r = rotates [OF r close_unlock [where j = 0], simplified]
  show ?thesis by (rule exI, rule conjI, rule r) simp
qed

theorem generation_discipline_witness:
  "\<exists>(s :: (64 word, nat) domain) (t :: (64 word, nat) domain).
    domain_reachable s \<and> rotation s 0 = MTaking (Blocking False) Gen0 \<and> queues s Gen0 = [5] \<and> current s = Gen1 \<and>
    \<not> inside (reader s 0) Gen0 0 \<and> \<not> in_tail (reader s 0) Gen0 \<and>
    domain_reachable t \<and> rotation t 0 = CCert \<and> closed t \<and> \<not> inside (reader t 0) Gen0 0 \<and> \<not> in_tail (reader t 0) Gen0 \<and>
    domain_reachable parked_domain \<and> \<not> is_sealed (gens parked_domain Gen1 0) \<and> rotation parked_domain 0 \<noteq> MFailStop Gen0"
proof -
  obtain s :: "(64 word, nat) domain" where s: "domain_reachable s" "rotation s 0 = MTaking (Blocking False) Gen0"
    "queues s Gen0 = [5]" using taking_reachable by blast
  obtain t :: "(64 word, nat) domain" where t: "domain_reachable t" "rotation t 0 = CCert" using closed_reachable by blast
  have "\<not> is_sealed (gens parked_domain Gen1 0)" by (simp add: parked_domain_def is_sealed_def)
  then show ?thesis
    using s t generation_discipline [OF s(1), of 0 Gen0 0 Gen0 "Blocking False" 0]
      generation_discipline [OF t(1), of 0 Gen0 0 Gen0 "Blocking False" 0] parked_reachable
      generation_discipline [OF parked_reachable, of 0 Gen1 0 Gen0 "Blocking False" 0]
    by (intro exI [of _ s] exI [of _ t]) simp
qed

end
