(* ===== verification/Package_Base.thy ===== *)
theory Package_Base
  imports Xlfn_Common "HOL-Library.List_Lexorder"
begin

text \<open>
  The vocabulary of the packaging tool (\<open>crates/xlfn-package/src/{error,names,architecture}.rs\<close>):
  its errors, the marker that tells which C runtime an add-in was built for, file names as
  case-insensitive keys, and the ordered sets and maps of the standard library as ascending
  lists. Names are text; the bytes of a file are numbers.
\<close>

section \<open>Ordered sets and maps\<close>

text \<open>\<open>BTreeSet::insert\<close> is \<open>insort_insert\<close>; \<open>BTreeMap::insert\<close> replaces the value of an equal key.\<close>

fun btree_insert :: "'k::linorder \<Rightarrow> 'v \<Rightarrow> ('k \<times> 'v) list \<Rightarrow> ('k \<times> 'v) list" where
  "btree_insert k v [] = [(k, v)]"
| "btree_insert k v ((k', v') # m) =
     (if k < k' then (k, v) # (k', v') # m
      else if k = k' then (k, v) # m
      else (k', v') # btree_insert k v m)"

definition btree_extend :: "'k::linorder list \<Rightarrow> 'k list \<Rightarrow> 'k list" where
  "btree_extend s xs = fold insort_insert xs s"

lemma map_of_btree_insert [simp]: "map_of (btree_insert k v m) = (map_of m)(k \<mapsto> v)"
  by (induction k v m rule: btree_insert.induct) auto

definition map_keys :: "('k \<times> 'v) list \<Rightarrow> 'k set" where
  "map_keys m = fst ` set m"

lemma keys_btree_insert: "fst ` set (btree_insert k v m) = insert k (fst ` set m)"
  by (induction k v m rule: btree_insert.induct) auto

lemma map_keys_simps [simp]:
  "map_keys [] = {}" "map_keys (btree_insert k v m) = insert k (map_keys m)" "finite (map_keys m)"
  by (simp_all add: map_keys_def keys_btree_insert)

lemma map_keys_iff: "k \<in> map_keys m \<longleftrightarrow> (\<exists>v. map_of m k = Some v)"
  unfolding map_keys_def by (metis map_of_eq_None_iff not_None_eq)

lemma sorted_btree_insert:
  "sorted_wrt (<) (map fst m) \<Longrightarrow> sorted_wrt (<) (map fst (btree_insert k v m))"
proof (induction k v m rule: btree_insert.induct)
  case (2 k v k' v' m)
  have "\<forall>x \<in> set (map fst (btree_insert k v m)). k' < x" if "k' < k"
    using that 2(2) by (simp del: set_map add: set_map keys_btree_insert)
  then show ?case using 2 by auto
qed simp

lemma set_btree_extend [simp]: "set (btree_extend s xs) = set s \<union> set xs"
  unfolding btree_extend_def by (induction xs arbitrary: s) (auto simp: set_insort_insert)

section \<open>Text\<close>

definition to_ascii_lowercase :: "nat \<Rightarrow> nat" where
  "to_ascii_lowercase c = (if 0x41 \<le> c \<and> c \<le> 0x5A then c + 0x20 else c)"

definition lowercase :: "ustr \<Rightarrow> ustr" where
  "lowercase s = map to_ascii_lowercase s"

definition ends_with :: "ustr \<Rightarrow> ustr \<Rightarrow> bool" where
  "ends_with s t \<longleftrightarrow> length t \<le> length s \<and> drop (length s - length t) s = t"

text \<open>\<open>split\<close> at one element: one piece more than there are separators.\<close>

fun split_on :: "'a \<Rightarrow> 'a list \<Rightarrow> 'a list list" where
  "split_on d [] = [[]]"
| "split_on d (c # s) =
     (if c = d then [] # split_on d s
      else (case split_on d s of [] \<Rightarrow> [[c]] | p # ps \<Rightarrow> (c # p) # ps))"

definition trim_with :: "(nat \<Rightarrow> bool) \<Rightarrow> ustr \<Rightarrow> ustr" where
  "trim_with p s = rev (dropWhile p (rev (dropWhile p s)))"

lemma lowercase_idem [simp]: "lowercase (lowercase s) = lowercase s"
  by (simp add: lowercase_def to_ascii_lowercase_def)

lemma ends_with_append [simp]: "ends_with (s @ t) t"
  by (simp add: ends_with_def)

lemma split_on_not_Nil [simp]: "split_on d s \<noteq> []"
  by (induction s) (auto split: list.splits)

lemma split_on_no_separator: "p \<in> set (split_on d s) \<Longrightarrow> d \<notin> set p"
proof (induction s arbitrary: p)
  case (Cons c s)
  then show ?case by (cases "split_on d s") (auto split: if_splits)
qed simp

section \<open>The tool's data and errors\<close>

datatype Architecture = X86 | X64

datatype EffectiveCrtPolicy = Dynamic | Static

datatype ExportSymbol = ExportName ustr | ExportOrdinal u16

datatype ImportTarget = ImportName ustr | ImportOrdinal u16

record ForwardedExport =
  fw_library :: ustr
  fw_symbol :: ExportSymbol

text \<open>
  The derived order of the enums: by constructor, then by content.
\<close>

instantiation ExportSymbol :: linorder
begin

fun less_eq_ExportSymbol :: "ExportSymbol \<Rightarrow> ExportSymbol \<Rightarrow> bool" where
  "ExportName a \<le> ExportName b \<longleftrightarrow> a \<le> b"
| "ExportName a \<le> ExportOrdinal b \<longleftrightarrow> True"
| "ExportOrdinal a \<le> ExportName b \<longleftrightarrow> False"
| "ExportOrdinal a \<le> ExportOrdinal b \<longleftrightarrow> a \<le> b"

definition less_ExportSymbol :: "ExportSymbol \<Rightarrow> ExportSymbol \<Rightarrow> bool" where
  "(a :: ExportSymbol) < b \<longleftrightarrow> a \<le> b \<and> \<not> b \<le> a"

instance
proof
  fix a b c :: ExportSymbol
  show "a < b \<longleftrightarrow> a \<le> b \<and> \<not> b \<le> a" by (rule less_ExportSymbol_def)
  show "a \<le> a" by (cases a) auto
  show "a \<le> b \<Longrightarrow> b \<le> c \<Longrightarrow> a \<le> c" by (cases a; cases b; cases c) auto
  show "a \<le> b \<Longrightarrow> b \<le> a \<Longrightarrow> a = b" by (cases a; cases b) auto
  show "a \<le> b \<or> b \<le> a" by (cases a; cases b) auto
qed

end

instantiation ImportTarget :: linorder
begin

fun less_eq_ImportTarget :: "ImportTarget \<Rightarrow> ImportTarget \<Rightarrow> bool" where
  "ImportName a \<le> ImportName b \<longleftrightarrow> a \<le> b"
| "ImportName a \<le> ImportOrdinal b \<longleftrightarrow> True"
| "ImportOrdinal a \<le> ImportName b \<longleftrightarrow> False"
| "ImportOrdinal a \<le> ImportOrdinal b \<longleftrightarrow> a \<le> b"

definition less_ImportTarget :: "ImportTarget \<Rightarrow> ImportTarget \<Rightarrow> bool" where
  "(a :: ImportTarget) < b \<longleftrightarrow> a \<le> b \<and> \<not> b \<le> a"

instance
proof
  fix a b c :: ImportTarget
  show "a < b \<longleftrightarrow> a \<le> b \<and> \<not> b \<le> a" by (rule less_ImportTarget_def)
  show "a \<le> a" by (cases a) auto
  show "a \<le> b \<Longrightarrow> b \<le> c \<Longrightarrow> a \<le> c" by (cases a; cases b; cases c) auto
  show "a \<le> b \<Longrightarrow> b \<le> a \<Longrightarrow> a = b" by (cases a; cases b) auto
  show "a \<le> b \<or> b \<le> a" by (cases a; cases b) auto
qed

end

text \<open>
  One constructor for each refusal of the tool, with the names and numbers its message
  reports; paths that messages repeat are left out. \<open>PeFormat\<close> stands for an error of the
  parser crate.
\<close>

datatype crt_fault =
  NotAtStart | MultipleMagic | NonZeroPadding | UnsupportedSchema nat | ReservedNotZero | InvalidPolicy nat

datatype PackageError =
  PeFormat nat
| Utf8Error
| NotPe
| UnsupportedTarget ustr
| BadBasename string ustr WindowsBasenameError
| NotDllBasename string ustr
| UnsafePath string ustr
| NotABasename string ustr
| BadForwarderName ustr
| CrtMarker crt_fault
| InconsistentAlignment
| SectionOverflow
| SectionOverlap
| ExportOutsideSections u16
| InvalidOrdinalIndex
| MultipleExportManifests
| MultipleCrtMarkers
| VaDelayImport
| NoDelayNameTable ustr
| MissingExportManifest
| MissingCrtPolicy
| MissingExport ustr
| ForwardedXllExport ustr ForwardedExport
| NotExecutableExport ustr
| IncompleteManifest ustr
| MissingExpected "ustr list"
| NotExecutableExpected "ustr list"
| UnexpectedExports "ustr list"
| OrdinalOnlyExports
| WrongMachine
| NotExecutableImage
| NotADll
| SystemImage
| NoUtf8Basename
| CollidesWithRoot ustr
| DuplicateBasename ustr
| ShadowsSystem ustr
| BundledAndExternal ustr
| InternalGraph ustr
| UnresolvedImport "ustr list"
| UnresolvedTarget "ustr list" ImportTarget
| CyclicForward "(ustr \<times> ExportSymbol) list"
| MissingForwarded ustr ExportSymbol
| UnresolvedForward ustr ExportSymbol ForwardedExport
| MissingForwardTarget ustr ExportSymbol ForwardedExport

type_synonym 'a package_result = "PackageError + 'a"

section \<open>Targets and file names\<close>

definition architecture_parse :: "ustr \<Rightarrow> Architecture package_result" where
  "architecture_parse target =
     (if target = lit ''i686-pc-windows-msvc'' then Inr X86
      else if target = lit ''x86_64-pc-windows-msvc'' then Inr X64
      else Inl (UnsupportedTarget target))"

fun pe_machine :: "Architecture \<Rightarrow> u16" where
  "pe_machine X86 = 0x014C"
| "pe_machine X64 = 0x8664"

definition validate_windows_basename_for :: "string \<Rightarrow> ustr \<Rightarrow> unit package_result" where
  "validate_windows_basename_for field name =
     (case validate_windows_basename name of Inl e \<Rightarrow> Inl (BadBasename field name e) | Inr u \<Rightarrow> Inr ())"

definition windows_name_key :: "string \<Rightarrow> ustr \<Rightarrow> ustr package_result" where
  "windows_name_key field name =
     bind_result (validate_windows_basename_for field name) (\<lambda>_. Inr (lowercase name))"

definition windows_dll_name_key :: "string \<Rightarrow> ustr \<Rightarrow> ustr package_result" where
  "windows_dll_name_key field name = bind_result (windows_name_key field name) (\<lambda>key.
     if \<not> ends_with (lowercase name) (lit ''.dll'') then Inl (NotDllBasename field name) else Inr key)"

text \<open>
  \<open>Path::components\<close> of a path without a drive or a backslash: a leading separator is the root, a
  leading dot is kept, empty pieces and later dots are dropped.
\<close>

datatype Component = RootDir | CurDir | ParentDir | Normal ustr

definition path_piece :: "ustr \<Rightarrow> Component list" where
  "path_piece p = (if p = [] \<or> p = [0x2E] then [] else if p = [0x2E, 0x2E] then [ParentDir] else [Normal p])"

definition path_components :: "ustr \<Rightarrow> Component list" where
  "path_components value =
     (if value \<noteq> [] \<and> hd value = 0x2F then [RootDir]
      else if hd (split_on 0x2F value) = [0x2E] then [CurDir] else []) @
     concat (map path_piece (split_on 0x2F value))"

definition path_is_absolute :: "ustr \<Rightarrow> bool" where
  "path_is_absolute value \<longleftrightarrow> path_components value \<noteq> [] \<and> hd (path_components value) = RootDir"

definition path_file_name :: "ustr \<Rightarrow> ustr option" where
  "path_file_name value =
     (if path_components value = [] then None
      else case last (path_components value) of Normal p \<Rightarrow> Some p | _ \<Rightarrow> None)"

fun is_normal :: "Component \<Rightarrow> bool" where
  "is_normal (Normal p) = True"
| "is_normal _ = False"

definition validate_relative :: "string \<Rightarrow> ustr \<Rightarrow> unit package_result" where
  "validate_relative field value =
     (if value = [] \<or> 0x5C \<in> set value \<or> 0x3A \<in> set value \<or> path_is_absolute value \<or>
         list_ex (\<lambda>c. c = [0x2E]) (split_on 0x2F value) \<or> list_ex (\<lambda>c. \<not> is_normal c) (path_components value)
      then Inl (UnsafePath field value) else Inr ())"

fun collect_result :: "('a \<Rightarrow> 'e + 'b) \<Rightarrow> 'a list \<Rightarrow> 'e + 'b list" where
  "collect_result f [] = Inr []"
| "collect_result f (x # xs) = bind_result (f x) (\<lambda>y. bind_result (collect_result f xs) (\<lambda>ys. Inr (y # ys)))"

definition external_import_key :: "ustr \<Rightarrow> ustr package_result" where
  "external_import_key name =
     bind_result (validate_relative ''external import'' name) (\<lambda>_.
     if path_file_name name \<noteq> Some name then Inl (NotABasename ''external import'' name)
     else windows_dll_name_key ''external import'' name)"

definition normalize_external_imports :: "ustr list \<Rightarrow> ustr list package_result" where
  "normalize_external_imports imports =
     bind_result (collect_result external_import_key imports) (\<lambda>keys. Inr (btree_extend [] keys))"

text \<open>
  A resolved bundle file: its basename, the bytes read at resolution and the permissions of the
  file (\<open>std::fs::Permissions\<close>: mode bits on Unix, the read-only attribute elsewhere).
\<close>

datatype Permissions = Mode u32 | ReadOnly bool

fun set_readonly :: "bool \<Rightarrow> Permissions \<Rightarrow> Permissions" where
  "set_readonly b (Mode m) = Mode (if b then m AND NOT 0x92 else m OR 0x92)"
| "set_readonly b (ReadOnly r) = ReadOnly b"

record BundleFile =
  bf_name :: ustr
  bf_snapshot :: "nat list"
  bf_permissions :: Permissions

section \<open>The runtime marker\<close>

text \<open>
  An add-in carries a static of sixteen bytes: a magic, a schema number, the policy it was
  compiled with and six reserved bytes. The linker pads the section with zeros.
\<close>

definition CRT_MARKER_MAGIC :: "nat list" where
  "CRT_MARKER_MAGIC = [0x58, 0x4C, 0x46, 0x4E, 0x43, 0x52, 0x54, 0]"

definition CRT_MARKER_SCHEMA :: nat where "CRT_MARKER_SCHEMA = 1"

definition crt_policy_marker :: "EffectiveCrtPolicy \<Rightarrow> nat list" where
  "crt_policy_marker policy =
     CRT_MARKER_MAGIC @ [1, case policy of Dynamic \<Rightarrow> 0 | Static \<Rightarrow> 1] @ replicate 6 0"

definition windows_of :: "nat \<Rightarrow> 'a list \<Rightarrow> 'a list list" where
  "windows_of n xs = map (\<lambda>i. take n (drop i xs)) [0..<Suc (length xs) - n]"

definition parse_crt_marker :: "nat list \<Rightarrow> EffectiveCrtPolicy package_result" where
  "parse_crt_marker data =
     (if length data < 16 \<or> take (length CRT_MARKER_MAGIC) data \<noteq> CRT_MARKER_MAGIC then Inl (CrtMarker NotAtStart)
      else if length (filter (\<lambda>w. w = CRT_MARKER_MAGIC) (windows_of (length CRT_MARKER_MAGIC) data)) \<noteq> 1
      then Inl (CrtMarker MultipleMagic)
      else if list_ex (\<lambda>b. b \<noteq> 0) (drop 16 data) then Inl (CrtMarker NonZeroPadding)
      else let marker = take 16 data in
        if marker ! 8 \<noteq> CRT_MARKER_SCHEMA then Inl (CrtMarker (UnsupportedSchema (marker ! 8)))
        else if list_ex (\<lambda>b. b \<noteq> 0) (drop 10 marker) then Inl (CrtMarker ReservedNotZero)
        else if marker ! 9 = 0 then Inr Dynamic
        else if marker ! 9 = 1 then Inr Static
        else Inl (CrtMarker (InvalidPolicy (marker ! 9))))"

subsection \<open>The marker is read back exactly\<close>

lemma not_all_zero_iff: "list_ex ((<) (0::nat)) xs \<longleftrightarrow> xs \<noteq> replicate (length xs) 0"
  by (induction xs) auto

lemma length_marker [simp]: "length CRT_MARKER_MAGIC = 8" "length (crt_policy_marker p) = 16"
  by (simp_all add: CRT_MARKER_MAGIC_def crt_policy_marker_def)

lemma first_mismatch_filter:
  assumes "\<And>i. 0 < i \<Longrightarrow> i < length xs \<Longrightarrow> xs ! i \<noteq> m" "n \<noteq> 0"
  shows "filter (\<lambda>w. w = m # ms) (map (\<lambda>i. take n (drop i xs)) [Suc 0..<k]) = []"
proof -
  have "take n (drop i xs) \<noteq> m # ms" if "0 < i" for i
  proof
    assume "take n (drop i xs) = m # ms"
    then have "drop i xs \<noteq> []" "hd (drop i xs) = m" using assms(2) by (auto simp: take_eq_Nil hd_take [symmetric])
    then show False using assms(1) [OF that] by (metis drop_eq_Nil hd_drop_conv_nth not_le)
  qed
  then show ?thesis by (auto simp: filter_empty_conv)
qed

lemma marker_once:
  fixes p :: EffectiveCrtPolicy and n :: nat
  defines "d \<equiv> crt_policy_marker p @ replicate n 0"
  shows "length (filter (\<lambda>w. w = CRT_MARKER_MAGIC) (windows_of (length CRT_MARKER_MAGIC) d)) = 1"
proof -
  have "d ! i \<noteq> 0x58" if "0 < i" "i < length d" for i
  proof (cases "i < 16")
    case True
    then have "i \<in> set [1..<16]" using that(1) by simp
    then show ?thesis
      by (auto simp: d_def crt_policy_marker_def CRT_MARKER_MAGIC_def upt_rec numeral_eq_Suc split: EffectiveCrtPolicy.splits)
  next
    case False
    then show ?thesis using that(2)
      by (auto simp: d_def crt_policy_marker_def CRT_MARKER_MAGIC_def nth_append)
  qed
  then have "filter (\<lambda>w. w = CRT_MARKER_MAGIC) (map (\<lambda>i. take 8 (drop i d)) [Suc 0..<Suc (length d) - 8]) = []"
    unfolding CRT_MARKER_MAGIC_def by (intro first_mismatch_filter) auto
  moreover have "[0..<Suc (length d) - 8] = 0 # [Suc 0..<Suc (length d) - 8]"
    by (rule upt_conv_Cons) (simp add: d_def crt_policy_marker_def CRT_MARKER_MAGIC_def)
  moreover have "take 8 d = CRT_MARKER_MAGIC"
    by (simp_all add: d_def crt_policy_marker_def CRT_MARKER_MAGIC_def)
  ultimately show ?thesis by (simp add: windows_of_def)
qed

lemma crt_marker_accepts: "parse_crt_marker (crt_policy_marker p @ replicate n 0) = Inr p"
proof -
  have "take 8 (crt_policy_marker p @ replicate n 0) = CRT_MARKER_MAGIC"
    "crt_policy_marker p ! 8 = 1"
    "crt_policy_marker p ! 9 = (case p of Dynamic \<Rightarrow> 0 | Static \<Rightarrow> 1)" "drop 10 (crt_policy_marker p) = replicate 6 0"
    by (simp_all add: crt_policy_marker_def CRT_MARKER_MAGIC_def)
  then show ?thesis
    using marker_once [of p n]
    by (cases p) (simp_all add: parse_crt_marker_def not_all_zero_iff CRT_MARKER_SCHEMA_def Let_def)
qed

lemma crt_marker_shape:
  assumes "parse_crt_marker data = Inr p"
  shows "\<exists>n. data = crt_policy_marker p @ replicate n 0"
proof -
  let ?m = "take 16 data"
  have a: "16 \<le> length data" "take 8 data = CRT_MARKER_MAGIC" "drop 16 data = replicate (length data - 16) 0"
    "data ! 8 = 1" "drop 10 ?m = replicate 6 0" "data ! 9 = (case p of Dynamic \<Rightarrow> 0 | Static \<Rightarrow> 1)"
    using assms
    by (auto simp: parse_crt_marker_def not_all_zero_iff CRT_MARKER_SCHEMA_def Let_def split: if_splits)
  have "?m = take 8 ?m @ take 2 (drop 8 ?m) @ drop 2 (drop 8 ?m)" by (metis append_take_drop_id)
  moreover have "take 2 (drop 8 ?m) = [data ! 8, data ! 9]"
    using a(1) by (simp add: numeral_2_eq_2 take_Suc_conv_app_nth)
  moreover have "take 8 ?m = CRT_MARKER_MAGIC" "drop 2 (drop 8 ?m) = replicate 6 0"
    using a(2,5) by (simp_all add: drop_drop)
  ultimately have "?m = crt_policy_marker p" using a(4,6) by (simp add: crt_policy_marker_def)
  then show ?thesis using a(3) append_take_drop_id [of 16 data] by metis
qed

text \<open>
  The marker the runtime embeds and the marker the packaging tool reads agree: a section is
  accepted with a policy exactly if it is the sixteen bytes of that policy's marker followed
  by zeros. In particular every marker is read back, whatever padding the linker adds, and
  no other section content is.
\<close>

lemma crt_marker_exact:
  "parse_crt_marker data = Inr policy \<longleftrightarrow> (\<exists>n. data = crt_policy_marker policy @ replicate n 0)"
  using crt_marker_accepts crt_marker_shape by blast

end
