(* ===== verification/Package_Pe.thy ===== *)
theory Package_Pe
  imports Package_Base
begin

text \<open>
  Inspection of a portable executable (\<open>crates/xlfn-package/src/pe.rs\<close>): what the tool reads from
  the tables of an image, the checks of the mapped sections, and the closed-world check of the
  exports of an add-in. The byte-level parser is a crate of its own: a \<open>pe_file\<close> holds what its
  iterators and lookups return for one image, errors included, and the definitions are
  functions of it.
\<close>

section \<open>The image as the parser crate presents it\<close>

record section_header =
  sh_name :: "nat list"
  sh_virtual_address :: u32
  sh_virtual_size :: u32
  sh_size_of_raw_data :: u32
  sh_characteristics :: u32
  sh_data :: "nat list package_result"

datatype export_target =
  TargetAddress u32 | ForwardByOrdinal "nat list" u16 | ForwardByName "nat list" "nat list"

record export_table =
  et_addresses :: "(u32 \<times> u16 \<times> u32) list"
  et_target :: "u32 \<Rightarrow> export_target package_result"
  et_names :: "(u32 \<times> u32) list"
  et_name :: "u32 \<Rightarrow> nat list package_result"

datatype pe_import = PeOrdinal u16 | PeName "nat list"

record import_descriptor =
  id_name :: "nat list package_result"
  id_original_first_thunk :: u32
  id_first_thunk :: u32

record delay_descriptor =
  dd_attributes :: u32
  dd_name :: "nat list package_result"
  dd_import_name_table :: u32

record 'd import_table =
  it_descriptors :: "'d package_result list package_result"
  it_thunks :: "u32 \<Rightarrow> pe_import package_result list package_result"

record pe_file =
  pf_machine :: u16
  pf_characteristics :: u16
  pf_section_alignment :: u32
  pf_file_alignment :: u32
  pf_size_of_image :: u32
  pf_size_of_headers :: u32
  pf_sections :: "section_header list"
  pf_exports :: "export_table option package_result"
  pf_imports :: "import_descriptor import_table option package_result"
  pf_delay_imports :: "delay_descriptor import_table option package_result"

section \<open>What the tool keeps of an image\<close>

record PeInfo =
  machine :: u16
  characteristics :: u16
  exports :: "ustr list"
  forwarded_exports :: "(ExportSymbol \<times> ForwardedExport) list"
  executable_exports :: "ustr list"
  has_export_manifest :: bool
  expected_exports :: "ustr list"
  crt_policy :: "EffectiveCrtPolicy option"
  pe_imports :: "ustr list"
  import_targets :: "(ustr \<times> ImportTarget list) list"
  delay_imports :: "ustr list"
  delay_import_targets :: "(ustr \<times> ImportTarget list) list"
  exported_ordinals :: "u16 list"
  nonzero_export_slots :: "u32 list"
  named_export_slots :: "u32 list"

definition has_export_symbol :: "PeInfo \<Rightarrow> ExportSymbol \<Rightarrow> bool" where
  "has_export_symbol info symbol = (case symbol of
     ExportName name \<Rightarrow> name \<in> set (exports info)
   | ExportOrdinal ordinal \<Rightarrow> ordinal \<in> set (exported_ordinals info))"

section \<open>Mapped sections\<close>

record MappedSection =
  ms_start :: u32
  ms_content_end :: u32
  ms_executable :: bool

definition is_power_of_two :: "u32 \<Rightarrow> bool" where
  "is_power_of_two a \<longleftrightarrow> list_ex (\<lambda>k. a = 2 ^ k) [0..<32]"

definition align_end :: "u32 \<Rightarrow> u32 \<Rightarrow> u32 package_result" where
  "align_end alignment e = (case checked_add e (alignment - 1) of
     None \<Rightarrow> Inl SectionOverflow
   | Some e' \<Rightarrow> Inr (e' AND NOT (alignment - 1)))"

definition IMAGE_SCN_MEM_EXECUTE :: u32 where "IMAGE_SCN_MEM_EXECUTE = 0x20000000"

definition map_section ::
    "u32 \<Rightarrow> u32 \<Rightarrow> u32 \<times> MappedSection list \<Rightarrow> section_header \<Rightarrow> (u32 \<times> MappedSection list) package_result" where
  "map_section alignment image_size st sh =
     (let start = sh_virtual_address sh; size = max (sh_virtual_size sh) (sh_size_of_raw_data sh) in
      if size = 0 then Inr st
      else case checked_add start size of
        None \<Rightarrow> Inl SectionOverflow
      | Some content_end \<Rightarrow> bind_result (align_end alignment content_end) (\<lambda>mapped_end.
          if start mod alignment \<noteq> 0 \<or> start < fst st \<or> mapped_end > image_size then Inl SectionOverlap
          else Inr (mapped_end, snd st @ [\<lparr>ms_start = start, ms_content_end = content_end,
            ms_executable = sh_characteristics sh AND IMAGE_SCN_MEM_EXECUTE \<noteq> 0\<rparr>])))"

definition validate_mapped_sections :: "pe_file \<Rightarrow> MappedSection list package_result" where
  "validate_mapped_sections pe =
     (let alignment = pf_section_alignment pe; file_alignment = pf_file_alignment pe;
          image_size = pf_size_of_image pe; headers_size = pf_size_of_headers pe in
      if \<not> is_power_of_two alignment \<or> \<not> is_power_of_two file_alignment \<or> alignment < file_alignment \<or>
         (alignment < 4096 \<and> alignment \<noteq> file_alignment) \<or> image_size mod alignment \<noteq> 0 \<or>
         headers_size > image_size
      then Inl InconsistentAlignment
      else bind_result (align_end alignment headers_size) (\<lambda>previous_end.
        bind_result (fold_result (map_section alignment image_size) (previous_end, []) (pf_sections pe))
          (\<lambda>st. Inr (snd st))))"

section \<open>Exports\<close>

definition from_utf8_result :: "nat list \<Rightarrow> ustr package_result" where
  "from_utf8_result bs = (case from_utf8 bs of None \<Rightarrow> Inl Utf8Error | Some s \<Rightarrow> Inr s)"

definition normalize_forwarder_library :: "ustr \<Rightarrow> ustr package_result" where
  "normalize_forwarder_library library =
     bind_result (validate_relative ''forwarded export library'' library) (\<lambda>_.
     if path_file_name library \<noteq> Some library then Inl (NotABasename ''forwarded export library'' library)
     else let normalized = lowercase library in
       if 0x2E \<notin> set normalized then Inr (normalized @ lit ''.dll'')
       else if \<not> ends_with normalized (lit ''.dll'') \<and> \<not> ends_with normalized (lit ''.xll'')
       then Inl (BadForwarderName library) else Inr normalized)"

definition forwarded_to :: "nat list \<Rightarrow> ExportSymbol package_result \<Rightarrow> ForwardedExport package_result" where
  "forwarded_to library symbol = bind_result (from_utf8_result library) (\<lambda>text.
     bind_result (normalize_forwarder_library text) (\<lambda>library.
     bind_result symbol (\<lambda>symbol. Inr \<lparr>fw_library = library, fw_symbol = symbol\<rparr>)))"

record export_scan =
  x_exports :: "ustr list"
  x_executable :: "ustr list"
  x_forwarded :: "(ExportSymbol \<times> ForwardedExport) list"
  x_ordinals :: "u16 list"
  x_nonzero :: "u32 list"
  x_named :: "u32 list"
  x_targets :: "(u32 \<times> (bool \<times> u16) option) list"

definition export_scan_new :: export_scan where
  "export_scan_new = \<lparr>x_exports = [], x_executable = [], x_forwarded = [], x_ordinals = [],
     x_nonzero = [], x_named = [], x_targets = []\<rparr>"

definition section_of :: "MappedSection list \<Rightarrow> u32 \<Rightarrow> MappedSection option" where
  "section_of sections address = find (\<lambda>s. address \<ge> ms_start s \<and> address < ms_content_end s) sections"

definition scan_target ::
    "MappedSection list \<Rightarrow> u16 \<Rightarrow> (ExportSymbol \<times> ForwardedExport) list \<Rightarrow> export_target \<Rightarrow>
     (bool \<times> (ExportSymbol \<times> ForwardedExport) list) package_result" where
  "scan_target sections ordinal forwarded target = (case target of
     TargetAddress a \<Rightarrow> (case section_of sections a of
         None \<Rightarrow> Inl (ExportOutsideSections ordinal)
       | Some s \<Rightarrow> Inr (ms_executable s, forwarded))
   | ForwardByOrdinal library o' \<Rightarrow>
       bind_result (forwarded_to library (Inr (ExportOrdinal o'))) (\<lambda>f.
         Inr (False, btree_insert (ExportOrdinal ordinal) f forwarded))
   | ForwardByName library name \<Rightarrow>
       bind_result (forwarded_to library (bind_result (from_utf8_result name) (\<lambda>n. Inr (ExportName n)))) (\<lambda>f.
         Inr (False, btree_insert (ExportOrdinal ordinal) f forwarded)))"

definition scan_address ::
    "MappedSection list \<Rightarrow> export_table \<Rightarrow> export_scan \<Rightarrow> u32 \<times> u16 \<times> u32 \<Rightarrow> export_scan package_result" where
  "scan_address sections table st entry = (case entry of (index, ordinal, address) \<Rightarrow>
     if address = 0 then Inr (st\<lparr>x_targets := btree_insert index None (x_targets st)\<rparr>)
     else
       bind_result (et_target table address) (\<lambda>target.
       bind_result (scan_target sections ordinal (x_forwarded st) target) (\<lambda>(executable, forwarded).
         Inr (st\<lparr>x_nonzero := insort_insert index (x_nonzero st),
                 x_ordinals := insort_insert ordinal (x_ordinals st),
                 x_forwarded := forwarded,
                 x_targets := btree_insert index (Some (executable, ordinal)) (x_targets st)\<rparr>))))"

definition scan_name :: "export_table \<Rightarrow> export_scan \<Rightarrow> u32 \<times> u32 \<Rightarrow> export_scan package_result" where
  "scan_name table st entry = (case entry of (pointer, index) \<Rightarrow>
     let st = st\<lparr>x_named := insort_insert index (x_named st)\<rparr> in
     case map_of (x_targets st) index of
       None \<Rightarrow> Inl InvalidOrdinalIndex
     | Some None \<Rightarrow> Inr st
     | Some (Some (executable, ordinal)) \<Rightarrow>
         bind_result (et_name table pointer) (\<lambda>bytes.
         bind_result (from_utf8_result bytes) (\<lambda>name.
           Inr (st\<lparr>x_forwarded := (case map_of (x_forwarded st) (ExportOrdinal ordinal) of
                      None \<Rightarrow> x_forwarded st
                    | Some f \<Rightarrow> btree_insert (ExportName name) f (x_forwarded st)),
                   x_executable := (if executable then insort_insert name (x_executable st) else x_executable st),
                   x_exports := insort_insert name (x_exports st)\<rparr>))))"

definition scan_exports :: "MappedSection list \<Rightarrow> export_table option \<Rightarrow> export_scan package_result" where
  "scan_exports sections table = (case table of
     None \<Rightarrow> Inr export_scan_new
   | Some table \<Rightarrow>
       bind_result (fold_result (scan_address sections table) export_scan_new (et_addresses table)) (\<lambda>st.
         fold_result (scan_name table) st (et_names table)))"

section \<open>The sections of the add-in\<close>

text \<open>The export manifest lists the names the macros generated, each ended by a zero byte.\<close>

definition section_text :: "section_header \<Rightarrow> ustr" where
  "section_text sh = trim_with (\<lambda>c. c = 0) (case from_utf8 (sh_name sh) of None \<Rightarrow> [] | Some s \<Rightarrow> s)"

definition is_section :: "string \<Rightarrow> section_header \<Rightarrow> bool" where
  "is_section name sh \<longleftrightarrow> section_text sh = lit name \<or> ends_with (section_text sh) (lit name)"

definition add_expected :: "ustr list \<Rightarrow> nat list \<Rightarrow> ustr list package_result" where
  "add_expected expected part =
     (if part = [] then Inr expected
      else bind_result (from_utf8_result part) (\<lambda>name.
        let trimmed = trim_with is_whitespace name in
        Inr (if trimmed \<noteq> [] then insort_insert trimmed expected else expected)))"

definition scan_section ::
    "bool \<times> ustr list \<times> EffectiveCrtPolicy option \<Rightarrow> section_header \<Rightarrow>
     (bool \<times> ustr list \<times> EffectiveCrtPolicy option) package_result" where
  "scan_section st sh = (case st of (manifest, expected, crt) \<Rightarrow>
     bind_result
       (if is_section ''.xllexp'' sh
        then if manifest then Inl MultipleExportManifests
          else bind_result (sh_data sh) (\<lambda>data.
            bind_result (fold_result add_expected expected (split_on 0 data)) (\<lambda>expected. Inr (True, expected)))
        else Inr (manifest, expected))
       (\<lambda>(manifest, expected).
         if is_section ''.xlfncrt'' sh
         then bind_result (sh_data sh) (\<lambda>data. bind_result (parse_crt_marker data) (\<lambda>observed.
           if crt \<noteq> None then Inl MultipleCrtMarkers else Inr (manifest, expected, Some observed)))
         else Inr (manifest, expected, crt)))"

section \<open>Imports\<close>

definition add_thunk :: "ImportTarget list \<Rightarrow> pe_import package_result \<Rightarrow> ImportTarget list package_result" where
  "add_thunk targets thunk = bind_result thunk (\<lambda>i. case i of
     PeOrdinal ordinal \<Rightarrow> Inr (insort_insert (ImportOrdinal ordinal) targets)
   | PeName symbol \<Rightarrow> bind_result (from_utf8_result symbol) (\<lambda>name. Inr (insort_insert (ImportName name) targets)))"

definition thunk_targets :: "'d import_table \<Rightarrow> u32 \<Rightarrow> ImportTarget list package_result" where
  "thunk_targets table lookup_rva = bind_result (it_thunks table lookup_rva) (\<lambda>thunks. fold_result add_thunk [] thunks)"

type_synonym import_scan = "ustr list \<times> (ustr \<times> ImportTarget list) list"

definition add_import :: "ustr \<Rightarrow> ImportTarget list \<Rightarrow> import_scan \<Rightarrow> import_scan" where
  "add_import name targets st =
     (insort_insert name (fst st),
      btree_insert name (btree_extend (case map_of (snd st) name of None \<Rightarrow> [] | Some ts \<Rightarrow> ts) targets) (snd st))"

definition scan_import ::
    "import_descriptor import_table \<Rightarrow> import_scan \<Rightarrow> import_descriptor package_result \<Rightarrow> import_scan package_result" where
  "scan_import table st d = bind_result d (\<lambda>d.
     bind_result (id_name d) (\<lambda>bytes. bind_result (from_utf8_result bytes) (\<lambda>name.
     let lookup_rva = (if id_original_first_thunk d = 0 then id_first_thunk d else id_original_first_thunk d) in
     bind_result (if lookup_rva \<noteq> 0 then thunk_targets table lookup_rva else Inr []) (\<lambda>targets.
       Inr (add_import name targets st)))))"

definition scan_delay_import ::
    "delay_descriptor import_table \<Rightarrow> import_scan \<Rightarrow> delay_descriptor package_result \<Rightarrow> import_scan package_result" where
  "scan_delay_import table st d = bind_result d (\<lambda>d.
     if dd_attributes d AND 1 = 0 then Inl VaDelayImport
     else bind_result (dd_name d) (\<lambda>bytes. bind_result (from_utf8_result bytes) (\<lambda>name.
       if dd_import_name_table d = 0 then Inl (NoDelayNameTable name)
       else bind_result (thunk_targets table (dd_import_name_table d)) (\<lambda>targets.
         Inr (add_import name targets st)))))"

definition scan_imports ::
    "('d import_table \<Rightarrow> import_scan \<Rightarrow> 'd package_result \<Rightarrow> import_scan package_result) \<Rightarrow>
     'd import_table option \<Rightarrow> import_scan package_result" where
  "scan_imports scan table = (case table of
     None \<Rightarrow> Inr ([], [])
   | Some t \<Rightarrow> bind_result (it_descriptors t) (\<lambda>ds. fold_result (scan t) ([], []) ds))"

section \<open>The whole image\<close>

definition parse_pe_file :: "pe_file \<Rightarrow> PeInfo package_result" where
  "parse_pe_file pe =
     bind_result (validate_mapped_sections pe) (\<lambda>sections.
     bind_result (pf_exports pe) (\<lambda>table.
     bind_result (scan_exports sections table) (\<lambda>x.
     bind_result (fold_result scan_section (False, [], None) (pf_sections pe)) (\<lambda>(manifest, expected, crt).
     bind_result (pf_imports pe) (\<lambda>itable.
     bind_result (scan_imports scan_import itable) (\<lambda>(imports, targets).
     bind_result (pf_delay_imports pe) (\<lambda>dtable.
     bind_result (scan_imports scan_delay_import dtable) (\<lambda>(delay, delay_targets).
       Inr \<lparr>machine = pf_machine pe, characteristics = pf_characteristics pe,
            exports = x_exports x, forwarded_exports = x_forwarded x, executable_exports = x_executable x,
            has_export_manifest = manifest, expected_exports = expected, crt_policy = crt,
            pe_imports = imports, import_targets = targets, delay_imports = delay,
            delay_import_targets = delay_targets, exported_ordinals = x_ordinals x,
            nonzero_export_slots = x_nonzero x, named_export_slots = x_named x\<rparr>))))))))"

datatype FileKind = Pe32 | Pe64 | OtherKind

record pe_parser =
  file_kind :: "nat list \<Rightarrow> FileKind package_result"
  pe32_parse :: "nat list \<Rightarrow> pe_file package_result"
  pe64_parse :: "nat list \<Rightarrow> pe_file package_result"

definition parse_pe_bytes :: "pe_parser \<Rightarrow> nat list \<Rightarrow> PeInfo package_result" where
  "parse_pe_bytes p b = bind_result (file_kind p b) (\<lambda>kind. case kind of
     Pe32 \<Rightarrow> bind_result (pe32_parse p b) parse_pe_file
   | Pe64 \<Rightarrow> bind_result (pe64_parse p b) parse_pe_file
   | OtherKind \<Rightarrow> Inl NotPe)"

section \<open>Checks on an inspected image\<close>

definition verify_machine :: "PeInfo \<Rightarrow> Architecture \<Rightarrow> unit package_result" where
  "verify_machine info architecture = (if machine info = pe_machine architecture then Inr () else Inl WrongMachine)"

definition IMAGE_FILE_EXECUTABLE_IMAGE :: u16 where "IMAGE_FILE_EXECUTABLE_IMAGE = 0x0002"
definition IMAGE_FILE_SYSTEM :: u16 where "IMAGE_FILE_SYSTEM = 0x1000"
definition IMAGE_FILE_DLL :: u16 where "IMAGE_FILE_DLL = 0x2000"

definition verify_image_characteristics :: "PeInfo \<Rightarrow> unit package_result" where
  "verify_image_characteristics info =
     (if characteristics info AND IMAGE_FILE_EXECUTABLE_IMAGE = 0 then Inl NotExecutableImage
      else if characteristics info AND IMAGE_FILE_DLL = 0 then Inl NotADll
      else if characteristics info AND IMAGE_FILE_SYSTEM \<noteq> 0 then Inl SystemImage
      else Inr ())"

definition inspect_checked_info :: "PeInfo \<Rightarrow> Architecture \<Rightarrow> PeInfo package_result" where
  "inspect_checked_info info architecture =
     bind_result (verify_machine info architecture) (\<lambda>_.
     bind_result (verify_image_characteristics info) (\<lambda>_. Inr info))"

definition REQUIRED_XLL_EXPORTS :: "ustr list" where
  "REQUIRED_XLL_EXPORTS = map lit [''xlAutoOpen'', ''xlAutoClose'', ''xlAutoRemove'', ''xlAutoFree12'',
     ''xlAddInManagerInfo12'', ''__xlfn_calculation_ended'']"

definition reject_forwarded_xll_export :: "PeInfo \<Rightarrow> ustr \<Rightarrow> unit package_result" where
  "reject_forwarded_xll_export info export = (case map_of (forwarded_exports info) (ExportName export) of
     None \<Rightarrow> Inr ()
   | Some f \<Rightarrow> Inl (ForwardedXllExport export f))"

definition require_direct :: "PeInfo \<Rightarrow> ustr \<Rightarrow> unit package_result" where
  "require_direct info export =
     (if export \<notin> set (exports info) then Inl (MissingExport export)
      else bind_result (reject_forwarded_xll_export info export) (\<lambda>_.
        if export \<notin> set (executable_exports info) then Inl (NotExecutableExport export) else Inr ()))"

definition DLL_MAIN :: ustr where "DLL_MAIN = lit ''_DllMainCRTStartup''"

definition verify_xll_exports :: "PeInfo \<Rightarrow> ustr list \<Rightarrow> unit package_result" where
  "verify_xll_exports info required =
     (if \<not> has_export_manifest info then Inl MissingExportManifest
      else if crt_policy info = None then Inl MissingCrtPolicy
      else bind_result (each_result (\<lambda>export. bind_result (require_direct info export) (\<lambda>_.
          if export \<notin> set (expected_exports info) then Inl (IncompleteManifest export) else Inr ()))
          REQUIRED_XLL_EXPORTS) (\<lambda>_.
        bind_result (each_result (require_direct info) required) (\<lambda>_.
        let missing = filter (\<lambda>e. e \<notin> set (exports info)) (expected_exports info) in
        if missing \<noteq> [] then Inl (MissingExpected missing)
        else bind_result (each_result (reject_forwarded_xll_export info) (expected_exports info)) (\<lambda>_.
        let non_executable = filter (\<lambda>e. e \<notin> set (executable_exports info)) (expected_exports info) in
        if non_executable \<noteq> [] then Inl (NotExecutableExpected non_executable)
        else let unexpected = filter (\<lambda>n. n \<notin> set (expected_exports info) \<and> n \<noteq> DLL_MAIN) (exports info) in
        if unexpected \<noteq> [] then Inl (UnexpectedExports unexpected)
        else if filter (\<lambda>i. i \<notin> set (named_export_slots info)) (nonzero_export_slots info) \<noteq> []
        then Inl OrdinalOnlyExports
        else Inr ()))))"

definition verify_xll_bytes :: "pe_parser \<Rightarrow> nat list \<Rightarrow> ustr \<Rightarrow> ustr list \<Rightarrow> unit package_result" where
  "verify_xll_bytes p bytes target required =
     bind_result (parse_pe_bytes p bytes) (\<lambda>info.
     bind_result (architecture_parse target) (\<lambda>architecture.
     bind_result (verify_machine info architecture) (\<lambda>_.
     bind_result (verify_image_characteristics info) (\<lambda>_.
       verify_xll_exports info required))))"

section \<open>Sections do not overlap\<close>

lemma unat_clear_low: "unat ((x :: 'w::len word) AND NOT (mask k)) = unat x - unat x mod 2 ^ k"
proof -
  have "x AND NOT (mask k) = push_bit k (drop_bit k x)"
    by (rule bit_word_eqI) (auto simp: bit_simps)
  then have "x AND NOT (mask k) = x - (x AND mask k)"
    using bits_ident [of k x] by (simp add: take_bit_eq_mask eq_diff_eq)
  moreover have "x AND mask k \<le> x" by (simp add: word_le_nat_alt unat_and_mask)
  ultimately show ?thesis by (simp add: unat_sub unat_and_mask)
qed

lemma unat_power_u32: "k < 32 \<Longrightarrow> unat (2 ^ k :: u32) = 2 ^ k"
proof -
  assume "k < 32"
  then have "(2 :: nat) ^ k < 2 ^ 32" by (intro power_strict_increasing) auto
  then have "unat (of_nat (2 ^ k) :: u32) = 2 ^ k" by (subst unat_of_nat) (simp del: of_nat_power)
  then show ?thesis by simp
qed

lemma less_le_pred: "(m :: nat) < n \<Longrightarrow> m \<le> n - 1"
  by linarith

lemma is_power_of_twoE:
  assumes "is_power_of_two a"
  obtains k where "a = 2 ^ k" "k < 32"
  using assms by (auto simp: is_power_of_two_def list_ex_iff)

lemma align_endD:
  assumes "is_power_of_two a" "align_end a e = Inr e'"
  shows "e \<le> e'"
proof -
  obtain k where a: "a = 2 ^ k" "k < 32" using assms(1) by (rule is_power_of_twoE)
  obtain c where c: "unat c = unat e + unat (a - 1)" "e' = c AND NOT (a - 1)"
    using assms(2) by (auto simp: align_end_def checked_simps split: option.splits)
  have m: "a - 1 = mask k" by (simp add: a mask_eq_decr_exp)
  have "unat (a - 1) = 2 ^ k - 1"
    using unat_minus_one [of a] unat_power_u32 [OF a(2)] a(1) by (metis unat_0 power_not_zero zero_neq_numeral)
  then have "unat e' = (unat e + (2 ^ k - 1)) - (unat e + (2 ^ k - 1)) mod 2 ^ k"
    using c unat_clear_low [of c k] by (simp add: m)
  moreover have "(unat e + (2 ^ k - 1)) mod 2 ^ k < 2 ^ k" by (rule mod_less_divisor) simp
  then have "(unat e + (2 ^ k - 1)) mod 2 ^ k \<le> 2 ^ k - 1" by (rule less_le_pred)
  ultimately have "unat e \<le> unat e'" by linarith
  then show ?thesis by (simp add: word_le_nat_alt)
qed

definition sections_ok :: "u32 \<Rightarrow> u32 \<Rightarrow> u32 \<Rightarrow> u32 \<times> MappedSection list \<Rightarrow> bool" where
  "sections_ok alignment image_size headers st \<longleftrightarrow>
     sorted_wrt (\<lambda>a b. ms_content_end a \<le> ms_start b) (snd st) \<and> headers \<le> fst st \<and>
     (\<forall>s \<in> set (snd st). headers \<le> ms_start s \<and> ms_start s < ms_content_end s \<and> ms_content_end s \<le> fst st \<and>
        ms_content_end s \<le> image_size \<and> ms_start s mod alignment = 0)"

lemma map_section_ok:
  assumes a: "is_power_of_two alignment" and ok: "sections_ok alignment image_size headers st"
    and step: "map_section alignment image_size st sh = Inr st'"
  shows "sections_ok alignment image_size headers st'"
proof (cases "max (sh_virtual_size sh) (sh_size_of_raw_data sh) = 0")
  case True
  then show ?thesis using step ok by (simp add: map_section_def)
next
  case False
  let ?start = "sh_virtual_address sh" and ?size = "max (sh_virtual_size sh) (sh_size_of_raw_data sh)"
  obtain content_end mapped_end where e: "checked_add ?start ?size = Some content_end"
      "align_end alignment content_end = Inr mapped_end" "?start mod alignment = 0" "fst st \<le> ?start"
      "mapped_end \<le> image_size"
      "st' = (mapped_end, snd st @ [\<lparr>ms_start = ?start, ms_content_end = content_end,
         ms_executable = sh_characteristics sh AND IMAGE_SCN_MEM_EXECUTE \<noteq> 0\<rparr>])"
    using step False by (auto simp: map_section_def Let_def not_less split: option.splits if_splits)
  have "?start < content_end"
    using e(1) False by (simp add: checked_simps word_less_nat_alt unat_gt_0 del: max_def)
  moreover have "content_end \<le> mapped_end" using align_endD [OF a e(2)] .
  ultimately show ?thesis
    using ok e(3-5) unfolding sections_ok_def e(6)
    by (auto simp: sorted_wrt_append)
qed

lemma validated_sections:
  assumes "validate_mapped_sections pe = Inr secs"
  shows "\<exists>e. sections_ok (pf_section_alignment pe) (pf_size_of_image pe) (pf_size_of_headers pe) (e, secs)"
proof -
  obtain p st where a: "is_power_of_two (pf_section_alignment pe)"
      "align_end (pf_section_alignment pe) (pf_size_of_headers pe) = Inr p"
      "fold_result (map_section (pf_section_alignment pe) (pf_size_of_image pe)) (p, []) (pf_sections pe) = Inr st"
      "secs = snd st"
    using assms by (auto simp: validate_mapped_sections_def Let_def split: if_splits)
  have "sections_ok (pf_section_alignment pe) (pf_size_of_image pe) (pf_size_of_headers pe) st"
    by (rule fold_result_invariant [OF a(3), where P = "sections_ok _ _ _"])
      (use align_endD [OF a(1,2)] in \<open>simp add: sections_ok_def\<close>, rule map_section_ok [OF a(1)])
  then show ?thesis using a(4) by (metis prod.collapse)
qed

lemma find_unique:
  assumes "x \<in> set xs" "P x" "\<And>y. y \<in> set xs \<Longrightarrow> P y \<Longrightarrow> y = x"
  shows "find P xs = Some x"
proof (cases "find P xs")
  case None
  then show ?thesis using assms(1,2) by (simp add: find_None_iff)
next
  case (Some y)
  then have "y \<in> set xs" "P y" by (auto simp: find_Some_iff)
  then show ?thesis using Some assms(3) by simp
qed

lemma section_of_unique:
  assumes ok: "sections_ok alignment image_size headers (e, secs)"
    and s: "s \<in> set secs" "ms_start s \<le> address" "address < ms_content_end s"
  shows "section_of secs address = Some s"
  unfolding section_of_def
proof (rule find_unique)
  fix t
  assume t: "t \<in> set secs" "ms_start t \<le> address \<and> address < ms_content_end t"
  obtain i j where ij: "i < length secs" "secs ! i = s" "j < length secs" "secs ! j = t"
    using s(1) t(1) by (meson in_set_conv_nth)
  have sorted: "sorted_wrt (\<lambda>a b. ms_content_end a \<le> ms_start b) secs" using ok by (simp add: sections_ok_def)
  have "\<not> i < j" using sorted_wrt_nth_less [OF sorted, of i j] ij s t by (auto dest: order.strict_trans2)
  moreover have "\<not> j < i" using sorted_wrt_nth_less [OF sorted, of j i] ij s t by (auto dest: order.strict_trans2)
  ultimately show "t = s" using ij by (metis linorder_neqE_nat)
qed (use s in simp_all)

section \<open>Where exports come from\<close>

text \<open>
  A slot leads to code: its address entry is not zero, is no forwarder and lies in an executable
  section. A name leads there if an entry of the name table does.
\<close>

definition slot_is_code :: "MappedSection list \<Rightarrow> export_table \<Rightarrow> u32 \<Rightarrow> u16 \<Rightarrow> bool" where
  "slot_is_code sections table index ordinal \<longleftrightarrow> (\<exists>address a s.
     (index, ordinal, address) \<in> set (et_addresses table) \<and> address \<noteq> 0 \<and>
     et_target table address = Inr (TargetAddress a) \<and>
     s \<in> set sections \<and> ms_start s \<le> a \<and> a < ms_content_end s \<and> ms_executable s)"

definition name_is_code :: "MappedSection list \<Rightarrow> export_table \<Rightarrow> ustr \<Rightarrow> bool" where
  "name_is_code sections table name \<longleftrightarrow> is_str name \<and> (\<exists>pointer index ordinal.
     (pointer, index) \<in> set (et_names table) \<and> et_name table pointer = Inr (as_bytes name) \<and>
     slot_is_code sections table index ordinal)"

lemma section_of_SomeD:
  "section_of sections a = Some s \<Longrightarrow> s \<in> set sections \<and> ms_start s \<le> a \<and> a < ms_content_end s"
  by (auto simp: section_of_def find_Some_iff)

lemma from_utf8_result_Inr: "from_utf8_result bs = Inr s \<longleftrightarrow> is_str s \<and> as_bytes s = bs"
  by (auto simp: from_utf8_result_def from_utf8_iff [symmetric] split: option.splits)

definition targets_ok :: "MappedSection list \<Rightarrow> export_table \<Rightarrow> export_scan \<Rightarrow> bool" where
  "targets_ok sections table st \<longleftrightarrow>
     (\<forall>i o'. map_of (x_targets st) i = Some (Some (True, o')) \<longrightarrow> slot_is_code sections table i o')"

lemma scan_target_code:
  "scan_target sections ordinal forwarded target = Inr (True, forwarded') \<Longrightarrow>
   \<exists>a s. target = TargetAddress a \<and> section_of sections a = Some s \<and> ms_executable s"
  by (auto simp: scan_target_def split: export_target.splits option.splits)

lemma scan_address_cases:
  assumes "scan_address sections table st (index, ordinal, address) = Inr st'"
  obtains "address = 0" "st' = st\<lparr>x_targets := btree_insert index None (x_targets st)\<rparr>"
  | target executable forwarded where "address \<noteq> 0" "et_target table address = Inr target"
      "scan_target sections ordinal (x_forwarded st) target = Inr (executable, forwarded)"
      "st' = st\<lparr>x_nonzero := insort_insert index (x_nonzero st), x_ordinals := insort_insert ordinal (x_ordinals st),
         x_forwarded := forwarded, x_targets := btree_insert index (Some (executable, ordinal)) (x_targets st)\<rparr>"
  using assms by (auto simp: scan_address_def split: if_splits)

lemma scan_address_ok:
  assumes "targets_ok sections table st" "entry \<in> set (et_addresses table)"
    "scan_address sections table st entry = Inr st'"
  shows "targets_ok sections table st'"
proof -
  obtain index ordinal address where e: "entry = (index, ordinal, address)" by (cases entry) auto
  from assms(3) show ?thesis
    unfolding e
  proof (cases rule: scan_address_cases)
    case 1
    then show ?thesis using assms(1) by (simp add: targets_ok_def)
  next
    case (2 target executable forwarded)
    have "slot_is_code sections table index ordinal" if ex: executable
    proof -
      obtain a s where "target = TargetAddress a" "section_of sections a = Some s" "ms_executable s"
        using scan_target_code [of sections ordinal "x_forwarded st" target forwarded] 2(3) ex by auto
      then show ?thesis
        using section_of_SomeD 2(1,2) assms(2) e unfolding slot_is_code_def by blast
    qed
    then show ?thesis using assms(1) 2(4) by (simp add: targets_ok_def)
  qed
qed

lemma scan_addresses_ok:
  assumes "fold_result (scan_address sections table) export_scan_new (et_addresses table) = Inr st"
  shows "targets_ok sections table st \<and> x_executable st = []"
proof (rule fold_result_invariant [OF assms, where P = "\<lambda>st. targets_ok sections table st \<and> x_executable st = []"])
  show "targets_ok sections table export_scan_new \<and> x_executable export_scan_new = []"
    by (simp add: targets_ok_def export_scan_new_def)
next
  fix s entry t
  assume s: "targets_ok sections table s \<and> x_executable s = []" and entry: "entry \<in> set (et_addresses table)"
    and t: "scan_address sections table s entry = Inr t"
  have "x_executable t = x_executable s" using t by (cases entry) (auto elim!: scan_address_cases)
  then show "targets_ok sections table t \<and> x_executable t = []"
    using scan_address_ok [OF _ entry t] s by simp
qed

definition names_ok :: "MappedSection list \<Rightarrow> export_table \<Rightarrow> export_scan \<Rightarrow> bool" where
  "names_ok sections table st \<longleftrightarrow>
     targets_ok sections table st \<and> (\<forall>e \<in> set (x_executable st). name_is_code sections table e)"

lemma scan_name_ok:
  assumes "names_ok sections table st" "entry \<in> set (et_names table)" "scan_name table st entry = Inr st'"
  shows "names_ok sections table st'"
proof -
  obtain pointer index where e: "entry = (pointer, index)" by (cases entry) auto
  have code: "name_is_code sections table name"
    if "map_of (x_targets st) index = Some (Some (True, ordinal))" "et_name table pointer = Inr bytes"
      "from_utf8_result bytes = Inr name" for ordinal bytes name
    using that assms(1,2) e unfolding name_is_code_def names_ok_def targets_ok_def from_utf8_result_Inr by blast
  show ?thesis
    using assms(1,3) code unfolding names_ok_def targets_ok_def e scan_name_def
    by (auto simp: Let_def set_insort_insert split: if_splits option.splits)
qed

lemma scan_exports_code:
  assumes "scan_exports sections (Some table) = Inr x" "e \<in> set (x_executable x)"
  shows "name_is_code sections table e"
proof -
  obtain st where st: "fold_result (scan_address sections table) export_scan_new (et_addresses table) = Inr st"
    "fold_result (scan_name table) st (et_names table) = Inr x"
    using assms(1) by (auto simp: scan_exports_def)
  have "names_ok sections table st"
    using scan_addresses_ok [OF st(1)] by (simp add: names_ok_def)
  then have "names_ok sections table x"
    by (rule fold_result_invariant [OF st(2)]) (rule scan_name_ok)
  then show ?thesis using assms(2) by (simp add: names_ok_def)
qed

text \<open>A name whose slot is a forwarder is recorded as forwarded.\<close>

fun is_forward :: "export_target \<Rightarrow> bool" where
  "is_forward (TargetAddress a) = False"
| "is_forward _ = True"

lemma scan_target_forwards:
  "scan_target sections ordinal forwarded target = Inr (executable, forwarded') \<Longrightarrow>
   map_keys forwarded' = (if is_forward target then insert (ExportOrdinal ordinal) (map_keys forwarded)
     else map_keys forwarded)"
  by (auto simp: scan_target_def split: export_target.splits option.splits)

lemma scan_addresses_keep:
  assumes "fold_result (scan_address sections table) st xs = Inr st'"
  shows "i \<notin> fst ` set xs \<Longrightarrow> map_of (x_targets st') i = map_of (x_targets st) i"
    "map_keys (x_forwarded st) \<subseteq> map_keys (x_forwarded st')"
proof -
  have "(i \<notin> fst ` set xs \<longrightarrow> map_of (x_targets st') i = map_of (x_targets st) i) \<and>
    map_keys (x_forwarded st) \<subseteq> map_keys (x_forwarded st')"
    using assms
  proof (induction xs arbitrary: st)
    case (Cons entry xs)
    then obtain st1 where st1: "scan_address sections table st entry = Inr st1"
      "fold_result (scan_address sections table) st1 xs = Inr st'" by auto
    have "(i \<noteq> fst entry \<longrightarrow> map_of (x_targets st1) i = map_of (x_targets st) i) \<and>
      map_keys (x_forwarded st) \<subseteq> map_keys (x_forwarded st1)"
      using st1(1) by (cases entry) (auto elim!: scan_address_cases dest!: scan_target_forwards split: if_splits)
    then show ?case using Cons.IH [OF st1(2)] by auto
  qed simp
  then show "i \<notin> fst ` set xs \<Longrightarrow> map_of (x_targets st') i = map_of (x_targets st) i"
    "map_keys (x_forwarded st) \<subseteq> map_keys (x_forwarded st')" by blast+
qed

lemma scan_addresses_record:
  assumes "fold_result (scan_address sections table) st xs = Inr st'" "distinct (map fst xs)"
    "(index, ordinal, address) \<in> set xs" "address \<noteq> 0"
  shows "(\<exists>b. map_of (x_targets st') index = Some (Some (b, ordinal))) \<and>
    (\<forall>target. et_target table address = Inr target \<and> is_forward target \<longrightarrow>
       ExportOrdinal ordinal \<in> map_keys (x_forwarded st'))"
  using assms
proof (induction xs arbitrary: st)
  case (Cons entry xs)
  obtain st1 where st1: "scan_address sections table st entry = Inr st1"
    "fold_result (scan_address sections table) st1 xs = Inr st'" using Cons.prems(1) by auto
  show ?case
  proof (cases "entry = (index, ordinal, address)")
    case True
    then have "index \<notin> fst ` set xs" using Cons.prems(2) by auto
    moreover have "scan_address sections table st (index, ordinal, address) = Inr st1" using st1(1) True by simp
    ultimately show ?thesis
      using scan_addresses_keep [OF st1(2)] Cons.prems(4)
      by (auto elim!: scan_address_cases dest!: scan_target_forwards)
  next
    case False
    then show ?thesis using Cons.IH [OF st1(2)] Cons.prems(2-4) by auto
  qed
qed simp

lemma scan_name_frame:
  assumes "scan_name table st entry = Inr st'"
  shows "x_targets st' = x_targets st"
    "ExportOrdinal o' \<in> map_keys (x_forwarded st') \<longleftrightarrow> ExportOrdinal o' \<in> map_keys (x_forwarded st)"
    "map_keys (x_forwarded st) \<subseteq> map_keys (x_forwarded st')"
  using assms by (auto simp: scan_name_def Let_def split: prod.splits option.splits)

lemma scan_name_alias:
  assumes "scan_name table st (pointer, index) = Inr st'" "map_of (x_targets st) index = Some (Some (b, ordinal))"
    "et_name table pointer = Inr (as_bytes name)" "is_str name" "ExportOrdinal ordinal \<in> map_keys (x_forwarded st)"
  shows "ExportName name \<in> map_keys (x_forwarded st')"
proof -
  have "from_utf8_result (as_bytes name) = Inr name" using assms(4) by (simp add: from_utf8_result_Inr)
  moreover obtain f where "map_of (x_forwarded st) (ExportOrdinal ordinal) = Some f"
    using assms(5) by (auto simp: map_keys_iff)
  ultimately show ?thesis using assms(1-3) by (auto simp: scan_name_def Let_def)
qed

lemma scan_names_alias:
  assumes "fold_result (scan_name table) st xs = Inr st'" "(pointer, index) \<in> set xs"
    "map_of (x_targets st) index = Some (Some (b, ordinal))" "et_name table pointer = Inr (as_bytes name)" "is_str name"
    "ExportOrdinal ordinal \<in> map_keys (x_forwarded st)"
  shows "ExportName name \<in> map_keys (x_forwarded st')"
  using assms
proof (induction xs arbitrary: st)
  case (Cons entry xs)
  obtain st1 where st1: "scan_name table st entry = Inr st1" "fold_result (scan_name table) st1 xs = Inr st'"
    using Cons.prems(1) by auto
  note frame = scan_name_frame [OF st1(1)]
  have grow: "map_keys (x_forwarded st1) \<subseteq> map_keys (x_forwarded st')"
    by (rule fold_result_invariant [OF st1(2), where P = "\<lambda>s. map_keys (x_forwarded st1) \<subseteq> map_keys (x_forwarded s)"])
      (use scan_name_frame(3) in blast)+
  show ?case
  proof (cases "entry = (pointer, index)")
    case True
    then show ?thesis using scan_name_alias [OF _ Cons.prems(3-6)] st1(1) grow by auto
  next
    case False
    then show ?thesis using Cons.IH [OF st1(2)] Cons.prems(2-6) frame by auto
  qed
qed simp

text \<open>The slots the scan records.\<close>

lemma scan_slots:
  assumes "scan_exports sections (Some table) = Inr x"
  shows "set (x_nonzero x) = {i. \<exists>o' a. (i, o', a) \<in> set (et_addresses table) \<and> a \<noteq> 0}"
    "set (x_named x) = snd ` set (et_names table)"
proof -
  obtain st where st: "fold_result (scan_address sections table) export_scan_new (et_addresses table) = Inr st"
    "fold_result (scan_name table) st (et_names table) = Inr x"
    using assms by (auto simp: scan_exports_def)
  have addresses: "fold_result (scan_address sections table) s xs = Inr t \<Longrightarrow>
      set (x_nonzero t) = set (x_nonzero s) \<union> {i. \<exists>o' a. (i, o', a) \<in> set xs \<and> a \<noteq> 0} \<and> x_named t = x_named s" for s t xs
  proof (induction xs arbitrary: s)
    case (Cons entry xs)
    then obtain s1 where s1: "scan_address sections table s entry = Inr s1"
      "fold_result (scan_address sections table) s1 xs = Inr t" by auto
    obtain i o' a where e: "entry = (i, o', a)" by (cases entry) auto
    have "set (x_nonzero s1) = set (x_nonzero s) \<union> (if a \<noteq> 0 then {i} else {}) \<and> x_named s1 = x_named s"
      using s1(1) unfolding e by (auto elim!: scan_address_cases simp: set_insort_insert)
    then show ?case using Cons.IH [OF s1(2)] by (auto simp: e)
  qed simp
  have names: "fold_result (scan_name table) s xs = Inr t \<Longrightarrow>
      set (x_named t) = set (x_named s) \<union> snd ` set xs \<and> x_nonzero t = x_nonzero s" for s t xs
  proof (induction xs arbitrary: s)
    case (Cons entry xs)
    then obtain s1 where s1: "scan_name table s entry = Inr s1" "fold_result (scan_name table) s1 xs = Inr t" by auto
    have "set (x_named s1) = insert (snd entry) (set (x_named s)) \<and> x_nonzero s1 = x_nonzero s"
      using s1(1) by (auto simp: scan_name_def Let_def set_insort_insert split: prod.splits option.splits)
    then show ?case using Cons.IH [OF s1(2)] by auto
  qed simp
  show "set (x_nonzero x) = {i. \<exists>o' a. (i, o', a) \<in> set (et_addresses table) \<and> a \<noteq> 0}"
    "set (x_named x) = snd ` set (et_names table)"
    using addresses [OF st(1)] names [OF st(2)] by (simp_all add: export_scan_new_def)
qed

section \<open>The closed world of an add-in\<close>

text \<open>Each name leads to code, and no entry of the name leads to a forwarder.\<close>

definition direct_export :: "MappedSection list \<Rightarrow> export_table \<Rightarrow> ustr \<Rightarrow> bool" where
  "direct_export sections table name \<longleftrightarrow> name_is_code sections table name \<and>
     (\<forall>pointer index ordinal address target. (pointer, index) \<in> set (et_names table) \<and>
        et_name table pointer = Inr (as_bytes name) \<and> (index, ordinal, address) \<in> set (et_addresses table) \<and>
        address \<noteq> 0 \<and> et_target table address = Inr target \<longrightarrow> \<not> is_forward target)"

lemma scan_exports_direct:
  assumes x: "scan_exports sections (Some table) = Inr x" and e: "e \<in> set (x_executable x)"
    and direct: "ExportName e \<notin> map_keys (x_forwarded x)" and distinct: "distinct (map fst (et_addresses table))"
  shows "direct_export sections table e"
proof -
  obtain st where st: "fold_result (scan_address sections table) export_scan_new (et_addresses table) = Inr st"
    "fold_result (scan_name table) st (et_names table) = Inr x"
    using x by (auto simp: scan_exports_def)
  have code: "name_is_code sections table e" using scan_exports_code [OF x e] .
  then have str: "is_str e" by (simp add: name_is_code_def)
  have "\<not> is_forward target"
    if "(pointer, index) \<in> set (et_names table)" "et_name table pointer = Inr (as_bytes e)"
      "(index, ordinal, address) \<in> set (et_addresses table)" "address \<noteq> 0" "et_target table address = Inr target"
    for pointer index ordinal address target
    using scan_addresses_record [OF st(1) distinct that(3,4)] scan_names_alias [OF st(2) that(1) _ that(2) str]
      direct that(5) by blast
  then show ?thesis using code unfolding direct_export_def by blast
qed

lemma reject_forwarded_iff [simp]:
  "reject_forwarded_xll_export info e = Inr u \<longleftrightarrow> ExportName e \<notin> map_keys (forwarded_exports info)"
  by (auto simp: reject_forwarded_xll_export_def map_keys_iff split: option.splits)

lemma require_direct_iff [simp]:
  "require_direct info e = Inr u \<longleftrightarrow> e \<in> set (exports info) \<and> e \<in> set (executable_exports info) \<and>
     ExportName e \<notin> map_keys (forwarded_exports info)"
  by (auto simp: require_direct_def)

lemma verify_xll_exports_iff:
  "verify_xll_exports info required = Inr u \<longleftrightarrow>
     has_export_manifest info \<and> crt_policy info \<noteq> None \<and> set REQUIRED_XLL_EXPORTS \<subseteq> set (expected_exports info) \<and>
     (\<forall>e \<in> set required \<union> set (expected_exports info). e \<in> set (exports info) \<and>
        e \<in> set (executable_exports info) \<and> ExportName e \<notin> map_keys (forwarded_exports info)) \<and>
     set (exports info) \<subseteq> insert DLL_MAIN (set (expected_exports info)) \<and>
     set (nonzero_export_slots info) \<subseteq> set (named_export_slots info)"
  unfolding verify_xll_exports_def Let_def
  by (auto simp: filter_empty_conv)

lemma parse_pe_file_parts:
  assumes "parse_pe_file pe = Inr info"
  obtains secs table x where "validate_mapped_sections pe = Inr secs" "pf_exports pe = Inr table"
    "scan_exports secs table = Inr x" "exports info = x_exports x" "executable_exports info = x_executable x"
    "forwarded_exports info = x_forwarded x" "nonzero_export_slots info = x_nonzero x"
    "named_export_slots info = x_named x" "machine info = pf_machine pe" "characteristics info = pf_characteristics pe"
    "fold_result scan_section (False, [], None) (pf_sections pe) =
       Inr (has_export_manifest info, expected_exports info, crt_policy info)"
  using assms by (auto simp: parse_pe_file_def)

subsection \<open>The manifest and the runtime marker\<close>

text \<open>The names a manifest section lists: its parts between zero bytes, trimmed, the empty ones left out.\<close>

definition manifest_names :: "nat list \<Rightarrow> ustr set" where
  "manifest_names data = {trim_with is_whitespace name |part name. part \<in> set (split_on 0 data) \<and> part \<noteq> [] \<and>
     from_utf8 part = Some name \<and> trim_with is_whitespace name \<noteq> []}"

lemma add_expected_names:
  "fold_result add_expected expected parts = Inr expected' \<Longrightarrow>
   set expected' = set expected \<union> {trim_with is_whitespace name |part name. part \<in> set parts \<and> part \<noteq> [] \<and>
     from_utf8 part = Some name \<and> trim_with is_whitespace name \<noteq> []}"
proof (induction parts arbitrary: expected)
  case (Cons part parts)
  then obtain e where e: "add_expected expected part = Inr e" "fold_result add_expected e parts = Inr expected'" by auto
  have "set e = set expected \<union> {trim_with is_whitespace name |name. part \<noteq> [] \<and>
      from_utf8 part = Some name \<and> trim_with is_whitespace name \<noteq> []}"
    using e(1)
    by (cases "from_utf8 part"; cases "trim_with is_whitespace (the (from_utf8 part)) = []")
      (auto simp: add_expected_def from_utf8_result_def Let_def set_insort_insert split: if_splits)
  then show ?case unfolding Cons.IH [OF e(2)] by auto
qed simp

lemma scan_section_manifest:
  assumes "scan_section (manifest, expected, crt) sh = Inr (manifest', expected', crt')"
  shows "if is_section ''.xllexp'' sh
    then \<not> manifest \<and> manifest' \<and> (\<exists>data. sh_data sh = Inr data \<and> set expected' = set expected \<union> manifest_names data)
    else manifest' = manifest \<and> expected' = expected"
  using assms by (auto simp: scan_section_def manifest_names_def dest!: add_expected_names split: if_splits)

lemma scan_section_marker:
  assumes "scan_section (manifest, expected, crt) sh = Inr (manifest', expected', crt')"
  shows "if is_section ''.xlfncrt'' sh
    then crt = None \<and> (\<exists>data policy. sh_data sh = Inr data \<and> parse_crt_marker data = Inr policy \<and> crt' = Some policy)
    else crt' = crt"
  using assms by (auto simp: scan_section_def split: if_splits)

lemma scan_sections_manifest:
  assumes "fold_result scan_section (manifest, expected, crt) shs = Inr (True, expected', crt')"
  shows "if manifest then filter (is_section ''.xllexp'') shs = [] \<and> expected' = expected
    else \<exists>m data. filter (is_section ''.xllexp'') shs = [m] \<and> sh_data m = Inr data \<and>
      set expected' = set expected \<union> manifest_names data"
  using assms
proof (induction shs arbitrary: manifest expected crt)
  case (Cons sh shs)
  then obtain manifest1 expected1 crt1 where st:
    "scan_section (manifest, expected, crt) sh = Inr (manifest1, expected1, crt1)"
    "fold_result scan_section (manifest1, expected1, crt1) shs = Inr (True, expected', crt')" by auto
  show ?case using scan_section_manifest [OF st(1)] Cons.IH [OF st(2)] by (auto split: if_splits)
qed simp

lemma scan_sections_marker:
  assumes "fold_result scan_section (manifest, expected, crt) shs = Inr (manifest', expected', Some policy)"
  shows "if crt \<noteq> None then filter (is_section ''.xlfncrt'') shs = [] \<and> crt = Some policy
    else \<exists>c data. filter (is_section ''.xlfncrt'') shs = [c] \<and> sh_data c = Inr data \<and> parse_crt_marker data = Inr policy"
  using assms
proof (induction shs arbitrary: manifest expected crt)
  case (Cons sh shs)
  then obtain manifest1 expected1 crt1 where st:
    "scan_section (manifest, expected, crt) sh = Inr (manifest1, expected1, crt1)"
    "fold_result scan_section (manifest1, expected1, crt1) shs = Inr (manifest', expected', Some policy)" by auto
  show ?case using scan_section_marker [OF st(1)] Cons.IH [OF st(2)] by (auto split: if_splits)
qed auto

subsection \<open>Every name entry\<close>

lemma scan_names_listed:
  assumes "fold_result (scan_name table) st xs = Inr st'" "(pointer, index) \<in> set xs"
    "map_of (x_targets st) index = Some (Some (b, ordinal))"
  shows "\<exists>name \<in> set (x_exports st'). et_name table pointer = Inr (as_bytes name)"
  using assms
proof (induction xs arbitrary: st)
  case (Cons entry xs)
  obtain st1 where st1: "scan_name table st entry = Inr st1" "fold_result (scan_name table) st1 xs = Inr st'"
    using Cons.prems(1) by auto
  have "set (x_exports s) \<subseteq> set (x_exports t)" if "scan_name table s e = Inr t" for s e t
    using that by (auto simp: scan_name_def Let_def set_insort_insert split: prod.splits option.splits)
  then have grow: "set (x_exports st1) \<subseteq> set (x_exports st')"
    by (intro fold_result_invariant [OF st1(2), where P = "\<lambda>s. set (x_exports st1) \<subseteq> set (x_exports s)"]) blast+
  show ?case
  proof (cases "entry = (pointer, index)")
    case True
    then obtain name where "et_name table pointer = Inr (as_bytes name)" "name \<in> set (x_exports st1)"
      using st1(1) Cons.prems(3)
      by (auto simp: scan_name_def Let_def set_insort_insert from_utf8_result_Inr)
    then show ?thesis using grow by blast
  next
    case False
    then show ?thesis using Cons.IH [OF st1(2)] Cons.prems(2,3) scan_name_frame(1) [OF st1(1)] by auto
  qed
qed simp

lemma scan_exports_listed:
  assumes x: "scan_exports sections (Some table) = Inr x" and distinct: "distinct (map fst (et_addresses table))"
    and slot: "(pointer, index) \<in> set (et_names table)" "(index, ordinal, address) \<in> set (et_addresses table)" "address \<noteq> 0"
  shows "\<exists>name \<in> set (x_exports x). et_name table pointer = Inr (as_bytes name)"
proof -
  obtain st where st: "fold_result (scan_address sections table) export_scan_new (et_addresses table) = Inr st"
    "fold_result (scan_name table) st (et_names table) = Inr x"
    using x by (auto simp: scan_exports_def)
  show ?thesis using scan_addresses_record [OF st(1) distinct slot(2,3)] scan_names_listed [OF st(2) slot(1)] by blast
qed

lemma sections_disjoint:
  assumes "validate_mapped_sections pe = Inr secs" "s \<in> set secs" "t \<in> set secs"
    "ms_start s \<le> a" "a < ms_content_end s" "ms_start t \<le> a" "a < ms_content_end t"
  shows "s = t"
proof -
  obtain e where ok: "sections_ok (pf_section_alignment pe) (pf_size_of_image pe) (pf_size_of_headers pe) (e, secs)"
    using validated_sections [OF assms(1)] by blast
  show ?thesis using section_of_unique [OF ok assms(2,4,5)] section_of_unique [OF ok assms(3,6,7)] by simp
qed

text \<open>
  What the check relies on in the parser crate: its iterator over an export address table counts
  the slots, so that no index comes twice.
\<close>

definition enumerates_slots :: "pe_parser \<Rightarrow> bool" where
  "enumerates_slots p \<longleftrightarrow> (\<forall>bytes pe table. (pe32_parse p bytes = Inr pe \<or> pe64_parse p bytes = Inr pe) \<and>
     pf_exports pe = Inr (Some table) \<longrightarrow> distinct (map fst (et_addresses table)))"

text \<open>
  C13. An accepted add-in is a closed world. For a parser that enumerates the slots of an
  export table and whatever bytes are given, if the check accepts them, then the image was
  parsed; it is an executable DLL, not a system image, of the requested machine; its mapped
  sections do not overlap; it has exactly one export manifest section, exactly one runtime
  marker section, and the marker is one of a known policy. The six entry points are among the
  manifest's names. Every name that the manifest or the caller asks for has an entry whose
  address lies in an executable section, and none of its entries is a forwarder. Every name
  entry of a slot in use carries a manifest name or the loader's own entry point, and every slot
  in use has a name entry.
\<close>

theorem accepted_xll_closed_world:
  assumes "enumerates_slots p" "verify_xll_bytes p bytes target required = Inr ()"
  shows "\<exists>pe secs table m data c marker policy.
    (pe32_parse p bytes = Inr pe \<or> pe64_parse p bytes = Inr pe) \<and>
    Inr (pf_machine pe) = map_sum id pe_machine (architecture_parse target) \<and>
    pf_characteristics pe AND IMAGE_FILE_EXECUTABLE_IMAGE \<noteq> 0 \<and> pf_characteristics pe AND IMAGE_FILE_DLL \<noteq> 0 \<and>
    pf_characteristics pe AND IMAGE_FILE_SYSTEM = 0 \<and>
    validate_mapped_sections pe = Inr secs \<and>
    (\<forall>s t a. s \<in> set secs \<and> t \<in> set secs \<and> ms_start s \<le> a \<and> a < ms_content_end s \<and> ms_start t \<le> a \<and> a < ms_content_end t \<longrightarrow>
       s = t) \<and>
    filter (is_section ''.xllexp'') (pf_sections pe) = [m] \<and> sh_data m = Inr data \<and>
    filter (is_section ''.xlfncrt'') (pf_sections pe) = [c] \<and> sh_data c = Inr marker \<and> parse_crt_marker marker = Inr policy \<and>
    pf_exports pe = Inr (Some table) \<and> set REQUIRED_XLL_EXPORTS \<subseteq> manifest_names data \<and>
    (\<forall>e \<in> set required \<union> manifest_names data. direct_export secs table e) \<and>
    (\<forall>pointer index ordinal address. (pointer, index) \<in> set (et_names table) \<and>
       (index, ordinal, address) \<in> set (et_addresses table) \<and> address \<noteq> 0 \<longrightarrow>
       (\<exists>name \<in> insert DLL_MAIN (manifest_names data). et_name table pointer = Inr (as_bytes name))) \<and>
    (\<forall>index ordinal address. (index, ordinal, address) \<in> set (et_addresses table) \<and> address \<noteq> 0 \<longrightarrow>
       index \<in> snd ` set (et_names table))"
proof -
  obtain info arch where info: "parse_pe_bytes p bytes = Inr info" "architecture_parse target = Inr arch"
      "machine info = pe_machine arch" and v: "verify_xll_exports info required = Inr ()"
      and ch: "verify_image_characteristics info = Inr ()"
    using assms(2) by (auto simp: verify_xll_bytes_def verify_machine_def split: if_splits)
  then obtain pe where pe: "pe32_parse p bytes = Inr pe \<or> pe64_parse p bytes = Inr pe" "parse_pe_file pe = Inr info"
    by (cases "file_kind p bytes"; cases "projr (file_kind p bytes)") (auto simp: parse_pe_bytes_def)
  obtain secs table' x where x: "validate_mapped_sections pe = Inr secs" "pf_exports pe = Inr table'"
      "scan_exports secs table' = Inr x" "exports info = x_exports x" "executable_exports info = x_executable x"
      "forwarded_exports info = x_forwarded x" "nonzero_export_slots info = x_nonzero x"
      "named_export_slots info = x_named x" "machine info = pf_machine pe" "characteristics info = pf_characteristics pe"
    and sections: "fold_result scan_section (False, [], None) (pf_sections pe) =
       Inr (has_export_manifest info, expected_exports info, crt_policy info)"
    using pe(2) by (rule parse_pe_file_parts)
  have "exports info \<noteq> []" using v unfolding verify_xll_exports_iff REQUIRED_XLL_EXPORTS_def by auto
  then obtain table where t: "table' = Some table"
    using x(3,4) by (cases table') (auto simp: scan_exports_def export_scan_new_def)
  have distinct: "distinct (map fst (et_addresses table))"
    using assms(1) pe(1) x(2) unfolding enumerates_slots_def t by blast
  note v = v [unfolded verify_xll_exports_iff x(4-8)] and scan = x(3) [unfolded t]
  obtain policy where policy: "crt_policy info = Some policy" using v by auto
  obtain m data where m: "filter (is_section ''.xllexp'') (pf_sections pe) = [m]" "sh_data m = Inr data"
      "set (expected_exports info) = manifest_names data"
    using scan_sections_manifest [of False "[]" None "pf_sections pe"] sections v by auto
  obtain c marker where c: "filter (is_section ''.xlfncrt'') (pf_sections pe) = [c]" "sh_data c = Inr marker"
      "parse_crt_marker marker = Inr policy"
    using scan_sections_marker [of False "[]" None "pf_sections pe"] sections policy by auto
  note v = v [unfolded m(3)]
  have direct: "\<forall>e \<in> set required \<union> manifest_names data. direct_export secs table e"
    using v scan_exports_direct [OF scan _ _ distinct] by blast
  have named: "\<exists>name \<in> insert DLL_MAIN (manifest_names data). et_name table pointer = Inr (as_bytes name)"
    if "(pointer, index) \<in> set (et_names table)" "(index, ordinal, address) \<in> set (et_addresses table)" "address \<noteq> 0"
    for pointer index ordinal address
    using scan_exports_listed [OF scan distinct that] v by blast
  have used: "index \<in> snd ` set (et_names table)"
    if "(index, ordinal, address) \<in> set (et_addresses table)" "address \<noteq> 0" for index ordinal address
    using that v unfolding scan_slots [OF scan] by blast
  have image: "pf_characteristics pe AND IMAGE_FILE_EXECUTABLE_IMAGE \<noteq> 0" "pf_characteristics pe AND IMAGE_FILE_DLL \<noteq> 0"
    "pf_characteristics pe AND IMAGE_FILE_SYSTEM = 0"
    using ch by (auto simp: verify_image_characteristics_def x(10) split: if_splits)
  have machine: "Inr (pf_machine pe) = map_sum id pe_machine (architecture_parse target)" using info(2,3) x(9) by simp
  have disjoint: "s = t" if "s \<in> set secs \<and> t \<in> set secs \<and> ms_start s \<le> a \<and> a < ms_content_end s \<and>
      ms_start t \<le> a \<and> a < ms_content_end t" for s t a
    using that sections_disjoint [OF x(1)] by blast
  have required: "set REQUIRED_XLL_EXPORTS \<subseteq> manifest_names data" using v by blast
  show ?thesis
    by (rule exI [of _ pe], rule exI [of _ secs], rule exI [of _ table], rule exI [of _ m], rule exI [of _ data],
        rule exI [of _ c], rule exI [of _ marker], rule exI [of _ policy], intro conjI allI impI;
        (fact pe(1) machine image x(1) x(2) [unfolded t] m(1,2) c required direct disjoint | erule conjE | erule (2) named | erule (1) used)+)
qed

text \<open>A small image with the six entry points.\<close>

definition sample_table :: export_table where
  "sample_table = \<lparr>et_addresses = map (\<lambda>i. (of_nat i, of_nat i + 1, 0x1000 + of_nat i)) [0..<6],
       et_target = (\<lambda>a. Inr (TargetAddress a)),
       et_names = map (\<lambda>i. (of_nat i, of_nat i)) [0..<6],
       et_name = (\<lambda>p. Inr (as_bytes (REQUIRED_XLL_EXPORTS ! unat p)))\<rparr>"

definition sample_section :: "string \<Rightarrow> u32 \<Rightarrow> u32 \<Rightarrow> nat list \<Rightarrow> section_header" where
  "sample_section name start flags data =
     \<lparr>sh_name = as_bytes (lit name @ [0]), sh_virtual_address = start, sh_virtual_size = 0x100,
      sh_size_of_raw_data = 0x200, sh_characteristics = flags, sh_data = Inr data\<rparr>"

definition sample_pe :: pe_file where
  "sample_pe = \<lparr>pf_machine = 0x8664, pf_characteristics = 0x2022, pf_section_alignment = 4096,
     pf_file_alignment = 512, pf_size_of_image = 0x4000, pf_size_of_headers = 0x400,
     pf_sections = [
       sample_section ''.text'' 0x1000 0x60000020 [],
       sample_section ''.xllexp'' 0x2000 0x40000040 (concat (map (\<lambda>e. as_bytes e @ [0]) REQUIRED_XLL_EXPORTS)),
       sample_section ''.xlfncrt'' 0x3000 0x40000040 (crt_policy_marker Dynamic)],
     pf_exports = Inr (Some sample_table),
     pf_imports = Inr None, pf_delay_imports = Inr None\<rparr>"

definition sample_parser :: pe_parser where
  "sample_parser = \<lparr>file_kind = (\<lambda>_. Inr Pe64), pe32_parse = (\<lambda>_. Inl NotPe), pe64_parse = (\<lambda>_. Inr sample_pe)\<rparr>"


lemma lit_str: "is_ascii_str s \<Longrightarrow> is_str s"
  by (auto simp: is_ascii_str_def is_ascii_char_def is_str_def is_scalar_def list_all_iff)

lemma required_str: "e \<in> set REQUIRED_XLL_EXPORTS \<Longrightarrow> is_str e"
  by (rule lit_str) (auto simp: REQUIRED_XLL_EXPORTS_def lit_def is_ascii_str_def is_ascii_char_def)

lemma sample_sections:
  "validate_mapped_sections sample_pe = Inr [
     \<lparr>ms_start = 0x1000, ms_content_end = 0x1200, ms_executable = True\<rparr>,
     \<lparr>ms_start = 0x2000, ms_content_end = 0x2200, ms_executable = False\<rparr>,
     \<lparr>ms_start = 0x3000, ms_content_end = 0x3200, ms_executable = False\<rparr>]"
  by (simp add: validate_mapped_sections_def sample_pe_def sample_section_def map_section_def align_end_def checked_add_def
    is_power_of_two_def IMAGE_SCN_MEM_EXECUTE_def upt_rec Let_def max_def)

lemma from_utf8_result_as_bytes: "is_str s \<Longrightarrow> from_utf8_result (as_bytes s) = Inr s"
  by (simp add: from_utf8_result_Inr)

lemma required_nth: "length REQUIRED_XLL_EXPORTS = 6" "k < 6 \<Longrightarrow> is_str (REQUIRED_XLL_EXPORTS ! k)"
    "set REQUIRED_XLL_EXPORTS = {REQUIRED_XLL_EXPORTS ! 0, REQUIRED_XLL_EXPORTS ! 1, REQUIRED_XLL_EXPORTS ! 2,
       REQUIRED_XLL_EXPORTS ! 3, REQUIRED_XLL_EXPORTS ! 4, REQUIRED_XLL_EXPORTS ! 5}"
proof -
  show len: "length REQUIRED_XLL_EXPORTS = 6" by (simp add: REQUIRED_XLL_EXPORTS_def)
  show "k < 6 \<Longrightarrow> is_str (REQUIRED_XLL_EXPORTS ! k)" using required_str nth_mem [of k] len by simp
  show "set REQUIRED_XLL_EXPORTS = {REQUIRED_XLL_EXPORTS ! 0, REQUIRED_XLL_EXPORTS ! 1, REQUIRED_XLL_EXPORTS ! 2,
       REQUIRED_XLL_EXPORTS ! 3, REQUIRED_XLL_EXPORTS ! 4, REQUIRED_XLL_EXPORTS ! 5}"
    by (simp add: REQUIRED_XLL_EXPORTS_def)
qed

lemma sample_exports:
  "\<exists>x. scan_exports (projr (validate_mapped_sections sample_pe)) (Some sample_table) = Inr x \<and>
     set (x_exports x) = set REQUIRED_XLL_EXPORTS \<and> set (x_executable x) = set REQUIRED_XLL_EXPORTS \<and>
     x_forwarded x = [] \<and> set (x_nonzero x) \<subseteq> set (x_named x)"
  by (simp add: sample_sections scan_exports_def)
    (simp add: sample_table_def export_scan_new_def scan_address_def scan_target_def section_of_def scan_name_def
      Let_def upt_rec from_utf8_result_as_bytes required_nth set_insort_insert insert_commute)

text \<open>The manifest section, split at its zero bytes.\<close>

lemma split_on_part: "d \<notin> set p \<Longrightarrow> split_on d (p @ d # s) = p # split_on d s"
  by (induction p) auto

lemma as_bytes_ascii: "is_ascii_str s \<Longrightarrow> as_bytes s = s"
  by (induction s) (simp_all add: as_bytes_def is_ascii_str_def is_ascii_char_def encode_utf8_char_def)

lemma required_text:
  assumes "e \<in> set REQUIRED_XLL_EXPORTS"
  shows "as_bytes e = e" "0 \<notin> set e" "add_expected ex e = Inr (insort_insert e ex)"
proof -
  have e: "e \<noteq> []" "is_ascii_str e" "trim_with is_whitespace e = e" "0 \<notin> set e"
    using assms
    by (auto simp: REQUIRED_XLL_EXPORTS_def lit_def is_ascii_str_def is_ascii_char_def trim_with_def is_whitespace_def)
  then show "as_bytes e = e" by (simp add: as_bytes_ascii)
  then have "from_utf8_result e = Inr e" using from_utf8_result_as_bytes [OF lit_str [OF e(2)]] by simp
  then show "add_expected ex e = Inr (insort_insert e ex)" using e(1,3) by (simp add: add_expected_def)
  show "0 \<notin> set e" by (rule e(4))
qed

lemma sample_manifest:
  "set es \<subseteq> set REQUIRED_XLL_EXPORTS \<Longrightarrow>
   \<exists>expected. fold_result add_expected ex (split_on 0 (concat (map (\<lambda>e. as_bytes e @ [0]) es))) = Inr expected \<and>
     set expected = set ex \<union> set es"
proof (induction es arbitrary: ex)
  case (Cons e es)
  then show ?case
    using required_text [of e] Cons.IH [of "insort_insert e ex"] by (simp add: split_on_part set_insort_insert)
qed (simp add: add_expected_def)


lemma parse_sample_marker: "parse_crt_marker (crt_policy_marker Dynamic) = Inr Dynamic"
  by (simp add: parse_crt_marker_def crt_policy_marker_def CRT_MARKER_MAGIC_def CRT_MARKER_SCHEMA_def windows_of_def
    Let_def upt_rec numeral_eq_Suc)

lemma sample_section_text:
  assumes "is_ascii_str (lit name)" "trim_with (\<lambda>c. c = 0) (lit name @ [0]) = lit name"
  shows "section_text (sample_section name start flags data) = lit name"
proof -
  have "is_ascii_str (lit name @ [0])" using assms(1) by (simp add: is_ascii_str_def is_ascii_char_def)
  then show ?thesis using assms(2) by (simp add: section_text_def sample_section_def from_utf8_as_bytes lit_str)
qed

lemmas literal_simps = lit_def is_ascii_str_def is_ascii_char_def trim_with_def

lemma sample_texts:
  "section_text (sample_section ''.text'' start flags data) = lit ''.text''"
  "section_text (sample_section ''.xllexp'' start flags data) = lit ''.xllexp''"
  "section_text (sample_section ''.xlfncrt'' start flags data) = lit ''.xlfncrt''"
  by (rule sample_section_text; simp add: literal_simps)+

lemma sample_kinds:
  "\<not> is_section ''.xllexp'' (sample_section ''.text'' start flags data)"
  "\<not> is_section ''.xlfncrt'' (sample_section ''.text'' start flags data)"
  "is_section ''.xllexp'' (sample_section ''.xllexp'' start flags data)"
  "\<not> is_section ''.xlfncrt'' (sample_section ''.xllexp'' start flags data)"
  "\<not> is_section ''.xllexp'' (sample_section ''.xlfncrt'' start flags data)"
  "is_section ''.xlfncrt'' (sample_section ''.xlfncrt'' start flags data)"
  by (simp_all add: is_section_def sample_texts lit_def ends_with_def)

lemma sample_scan:
  "\<exists>expected. fold_result scan_section (False, [], None) (pf_sections sample_pe) = Inr (True, expected, Some Dynamic) \<and>
     set expected = set REQUIRED_XLL_EXPORTS"
proof -
  obtain expected where "fold_result add_expected [] (split_on 0 (concat (map (\<lambda>e. as_bytes e @ [0]) REQUIRED_XLL_EXPORTS)))
      = Inr expected" "set expected = set REQUIRED_XLL_EXPORTS"
    using sample_manifest [of REQUIRED_XLL_EXPORTS "[]"] by auto
  moreover have "sh_data (sample_section name start flags data) = Inr data" for name start flags data
    by (simp add: sample_section_def)
  ultimately show ?thesis
    by (simp add: sample_pe_def scan_section_def sample_kinds parse_sample_marker)
qed

lemma sample_accepted:
  "verify_xll_bytes sample_parser [] (lit ''x86_64-pc-windows-msvc'') [lit ''xlAutoOpen''] = Inr ()"
proof -
  obtain x where x: "scan_exports (projr (validate_mapped_sections sample_pe)) (Some sample_table) = Inr x"
     "set (x_exports x) = set REQUIRED_XLL_EXPORTS" "set (x_executable x) = set REQUIRED_XLL_EXPORTS"
     "x_forwarded x = []" "set (x_nonzero x) \<subseteq> set (x_named x)"
    using sample_exports by blast
  obtain expected where expected: "set expected = set REQUIRED_XLL_EXPORTS"
    "fold_result scan_section (False, [], None) (pf_sections sample_pe) = Inr (True, expected, Some Dynamic)"
    using sample_scan by blast
  have tables: "pf_exports sample_pe = Inr (Some sample_table)" "pf_imports sample_pe = Inr None"
    "pf_delay_imports sample_pe = Inr None" "pf_machine sample_pe = 0x8664" "pf_characteristics sample_pe = 0x2022"
    by (simp_all add: sample_pe_def)
  obtain info where info: "parse_pe_file sample_pe = Inr info" "exports info = x_exports x"
      "executable_exports info = x_executable x" "forwarded_exports info = []" "has_export_manifest info"
      "expected_exports info = expected" "crt_policy info = Some Dynamic" "nonzero_export_slots info = x_nonzero x"
      "named_export_slots info = x_named x" "machine info = 0x8664" "characteristics info = 0x2022"
    using x(1,4) expected(2) tables by (simp add: parse_pe_file_def sample_sections scan_imports_def)
  have "lit ''xlAutoOpen'' \<in> set REQUIRED_XLL_EXPORTS" by (simp add: REQUIRED_XLL_EXPORTS_def)
  then have "verify_xll_exports info [lit ''xlAutoOpen''] = Inr ()"
    unfolding verify_xll_exports_iff info(2-4,6-9) expected(1) x(2,3) using x(5) info(5) by auto
  then show ?thesis
    using info(1,10,11)
    by (simp add: verify_xll_bytes_def parse_pe_bytes_def sample_parser_def architecture_parse_def verify_machine_def
        verify_image_characteristics_def IMAGE_FILE_EXECUTABLE_IMAGE_def IMAGE_FILE_SYSTEM_def IMAGE_FILE_DLL_def lit_def)
qed

lemma sample_enumerates: "enumerates_slots sample_parser"
  by (auto simp: enumerates_slots_def sample_parser_def sample_pe_def sample_table_def upt_rec)

theorem accepted_xll_closed_world_witness:
  "\<exists>secs table m data. pf_exports sample_pe = Inr (Some table) \<and> direct_export secs table (lit ''xlAutoOpen'') \<and>
     filter (is_section ''.xllexp'') (pf_sections sample_pe) = [m] \<and> sh_data m = Inr data \<and>
     lit ''xlAutoOpen'' \<in> manifest_names data"
proof -
  have req: "lit ''xlAutoOpen'' \<in> set REQUIRED_XLL_EXPORTS" by (simp add: REQUIRED_XLL_EXPORTS_def)
  obtain pe secs table m data where pe: "pe32_parse sample_parser [] = Inr pe \<or> pe64_parse sample_parser [] = Inr pe"
    "pf_exports pe = Inr (Some table)" "filter (is_section ''.xllexp'') (pf_sections pe) = [m]" "sh_data m = Inr data"
    "set REQUIRED_XLL_EXPORTS \<subseteq> manifest_names data"
    "\<forall>e \<in> set [lit ''xlAutoOpen''] \<union> manifest_names data. direct_export secs table e"
    using accepted_xll_closed_world [OF sample_enumerates sample_accepted] by (elim exE conjE)
  have "pe = sample_pe" using pe(1) by (simp add: sample_parser_def)
  moreover have "direct_export secs table (lit ''xlAutoOpen'')" using pe(6) by simp
  moreover have "lit ''xlAutoOpen'' \<in> manifest_names data" using pe(5) req by blast
  ultimately show ?thesis using pe(2-4)
    by (intro exI [of _ secs] exI [of _ table] exI [of _ m] exI [of _ data]) simp
qed

end
