(* ===== verification/Package_Graph.thy ===== *)
theory Package_Graph
  imports Package_Pe
begin

text \<open>
  The dependency closure of a package (\<open>crates/xlfn-package/src/pe.rs\<close>): every import of every
  image has to name a system library, a declared external library or an image of the bundle
  that exports what is imported, and every forwarded export has to end at a real one. The code
  walks the imports depth first with an explicit stack and follows forwarders with a
  table of the nodes on the way; both loops are modelled as they are, and compared with
  declarative specifications.
\<close>

section \<open>Definitions\<close>

type_synonym images = "(ustr \<times> ustr \<times> PeInfo) list"
type_synonym frame = "ustr \<times> (ustr \<times> ImportTarget list option) list"
type_synonym node = "ustr \<times> ExportSymbol"

definition SYSTEM_DLLS :: "ustr list" where
  "SYSTEM_DLLS = map lit [''advapi32.dll'', ''api-ms-win-core-synch-l1-1-0.dll'', ''api-ms-win-core-synch-l1-2-0.dll'',
     ''bcrypt.dll'', ''bcryptprimitives.dll'', ''cabinet.dll'', ''cfgmgr32.dll'', ''comctl32.dll'', ''comdlg32.dll'',
     ''combase.dll'', ''crypt32.dll'', ''d2d1.dll'', ''d3d11.dll'', ''dwrite.dll'', ''dwmapi.dll'', ''dxgi.dll'',
     ''gdi32.dll'', ''imm32.dll'', ''iphlpapi.dll'', ''kernel32.dll'', ''mpr.dll'', ''msvcrt.dll'', ''netapi32.dll'',
     ''ntdll.dll'', ''ole32.dll'', ''oleaut32.dll'', ''powrprof.dll'', ''psapi.dll'', ''rpcrt4.dll'', ''secur32.dll'',
     ''setupapi.dll'', ''shell32.dll'', ''shlwapi.dll'', ''ucrtbase.dll'', ''user32.dll'', ''userenv.dll'',
     ''uxtheme.dll'', ''version.dll'', ''winhttp.dll'', ''wininet.dll'', ''winmm.dll'', ''wintrust.dll'', ''ws2_32.dll'']"

definition is_system :: "ustr \<Rightarrow> bool" where
  "is_system name \<longleftrightarrow> name \<in> set SYSTEM_DLLS"

definition dependency_imports :: "PeInfo \<Rightarrow> (ustr \<times> ImportTarget list option) list" where
  "dependency_imports img =
     map (\<lambda>name. (name, map_of (import_targets img) name)) (pe_imports img) @
     map (\<lambda>name. (name, map_of (delay_import_targets img) name)) (delay_imports img)"

definition target_exists :: "PeInfo \<Rightarrow> ImportTarget \<Rightarrow> bool" where
  "target_exists img target = (case target of
     ImportName name \<Rightarrow> name \<in> set (exports img)
   | ImportOrdinal ordinal \<Rightarrow> ordinal \<in> set (exported_ordinals img))"

text \<open>The chain of display names in a message: the frames from the root, then what is missing.\<close>

definition import_chain :: "images \<Rightarrow> frame list \<Rightarrow> ustr list" where
  "import_chain images stack =
     List.map_filter (\<lambda>(name, _). map_option fst (map_of images name)) (rev stack)"

definition resolve_import ::
    "images \<Rightarrow> ustr list \<Rightarrow> frame list \<Rightarrow> ustr \<Rightarrow> ImportTarget list option \<Rightarrow> (ustr \<times> PeInfo) option package_result" where
  "resolve_import images external stack imported_name targets =
     bind_result (windows_dll_name_key ''PE import'' imported_name) (\<lambda>imported.
     if is_system imported \<or> imported \<in> set external then Inr None
     else case map_of images imported of
         None \<Rightarrow> Inl (UnresolvedImport (import_chain images stack @ [imported]))
       | Some (display, img) \<Rightarrow>
           (case find (\<lambda>t. \<not> target_exists img t) (case targets of None \<Rightarrow> [] | Some ts \<Rightarrow> ts) of
              Some t \<Rightarrow> Inl (UnresolvedTarget (import_chain images stack @ [display]) t)
            | None \<Rightarrow> Inr (Some (imported, img))))"

lemma resolve_import_key:
  "resolve_import images external stack name targets = Inr (Some (key, img)) \<Longrightarrow> key \<in> map_keys images"
  by (auto simp: resolve_import_def map_keys_iff split: if_splits option.splits)

function walk_imports :: "images \<Rightarrow> ustr list \<Rightarrow> frame list \<Rightarrow> ustr list \<Rightarrow> ustr list package_result" where
  "walk_imports images external [] visited = Inr visited"
| "walk_imports images external ((current, []) # stack) visited = walk_imports images external stack visited"
| "walk_imports images external ((current, (name, targets) # rest) # stack) visited =
     (case resolve_import images external ((current, rest) # stack) name targets of
        Inl e \<Rightarrow> Inl e
      | Inr None \<Rightarrow> walk_imports images external ((current, rest) # stack) visited
      | Inr (Some (imported, img)) \<Rightarrow>
          if imported \<in> set visited then walk_imports images external ((current, rest) # stack) visited
          else walk_imports images external ((imported, dependency_imports img) # (current, rest) # stack)
                 (insort_insert imported visited))"
  by pat_completeness auto

termination
proof (relation "(\<lambda>(images, _, _, visited). card (map_keys images - set visited)) <*mlex*>
    measure (\<lambda>(_, _, stack, _). sum_list (map (\<lambda>f. Suc (length (snd f))) stack))")
  fix images external stack current name targets rest visited r s key img
  assume "resolve_import images external ((current, rest) # stack) name targets = Inr r" "r = Some s"
    "(key, img) = s" and new: "key \<notin> set visited"
  then have "key \<in> map_keys images" by (auto dest!: resolve_import_key)
  then have "map_keys images - set (insort_insert key visited) \<subset> map_keys images - set visited"
    using new by (auto simp: set_insort_insert)
  then have "card (map_keys images - set (insort_insert key visited)) < card (map_keys images - set visited)"
    by (intro psubset_card_mono) simp_all
  then show "((images, external, (key, dependency_imports img) # (current, rest) # stack, insort_insert key visited),
      images, external, (current, (name, targets) # rest) # stack, visited)
    \<in> (\<lambda>(images, _, _, visited). card (map_keys images - set visited)) <*mlex*>
      measure (\<lambda>(_, _, stack, _). sum_list (map (\<lambda>f. Suc (length (snd f))) stack))"
    by (simp add: mlex_less)
qed (auto intro: mlex_leq simp: wf_mlex)

definition validate_dependency_node :: "images \<Rightarrow> ustr list \<Rightarrow> ustr list \<Rightarrow> ustr \<Rightarrow> ustr list package_result" where
  "validate_dependency_node images external visited current =
     (if current \<in> set visited then Inr visited
      else case map_of images current of
          None \<Rightarrow> Inl (InternalGraph current)
        | Some (_, img) \<Rightarrow>
            walk_imports images external [(current, dependency_imports img)] (insort_insert current visited))"

text \<open>
  \<open>validate_forwarded_symbol\<close>: the nodes on the way are the stack; a node met again is a cycle,
  and at the end all of them are resolved.
\<close>

definition forwarding_nodes :: "images \<Rightarrow> node set" where
  "forwarding_nodes images = {(k, symbol). \<exists>d img. (k, d, img) \<in> set images \<and> symbol \<in> map_keys (forwarded_exports img)}"

lemma forwarding_nodes_Union:
  "forwarding_nodes images = (\<Union>(k, d, img) \<in> set images. (\<lambda>s. (k, s)) ` map_keys (forwarded_exports img))"
  by (auto simp: forwarding_nodes_def)

lemma finite_forwarding_nodes: "finite (forwarding_nodes images)"
  unfolding forwarding_nodes_Union by auto

lemma forwarding_nodesI:
  "map_of images k = Some (d, img) \<Longrightarrow> map_of (forwarded_exports img) symbol = Some f \<Longrightarrow>
   (k, symbol) \<in> forwarding_nodes images"
  unfolding forwarding_nodes_def map_keys_iff by (blast dest: map_of_SomeD)

function follow_forward :: "images \<Rightarrow> ustr list \<Rightarrow> node \<Rightarrow> node list \<Rightarrow> node set \<Rightarrow> node set package_result" where
  "follow_forward images external node stack resolved =
     (if node \<in> resolved then Inr (resolved \<union> set stack)
      else if node \<in> set stack then Inl (CyclicForward (rev (node # takeWhile (\<lambda>n. n \<noteq> node) stack @ [node])))
      else case map_of images (fst node) of
          None \<Rightarrow> Inl (InternalGraph (fst node))
        | Some (display, img) \<Rightarrow>
            (case map_of (forwarded_exports img) (snd node) of
               None \<Rightarrow>
                 if has_export_symbol img (snd node) then Inr (insert node (resolved \<union> set stack))
                 else Inl (MissingForwarded display (snd node))
             | Some forwarded \<Rightarrow>
                 let target_library = lowercase (fw_library forwarded) in
                 if is_system target_library \<or> target_library \<in> set external
                 then Inr (resolved \<union> set (node # stack))
                 else (case map_of images target_library of
                     None \<Rightarrow> Inl (UnresolvedForward display (snd node) forwarded)
                   | Some (_, target_img) \<Rightarrow>
                       if \<not> has_export_symbol target_img (fw_symbol forwarded)
                       then Inl (MissingForwardTarget display (snd node) forwarded)
                       else follow_forward images external (target_library, fw_symbol forwarded)
                              (node # stack) resolved)))"
  by pat_completeness auto

termination
proof (relation "measure (\<lambda>(images, _, _, stack, _). card (forwarding_nodes images - set stack))")
  fix images :: images and external node stack resolved entry display img forwarded target_library entry' d' img'
  assume "node \<notin> set stack" "map_of images (fst node) = Some entry" "(display, img) = entry"
    "map_of (forwarded_exports img) (snd node) = Some forwarded"
  then have "node \<in> forwarding_nodes images - set stack"
    using forwarding_nodesI [of images "fst node" display img "snd node"] by auto
  then have "card (forwarding_nodes images - set (node # stack)) < card (forwarding_nodes images - set stack)"
    by (intro psubset_card_mono) (auto simp: finite_forwarding_nodes)
  then show "((images, external, (target_library, fw_symbol forwarded), node # stack, resolved),
      images, external, node, stack, resolved)
    \<in> measure (\<lambda>(images, _, _, stack, _). card (forwarding_nodes images - set stack))"
    by simp
qed simp

definition validate_forwarded_exports :: "images \<Rightarrow> ustr list \<Rightarrow> unit package_result" where
  "validate_forwarded_exports images external =
     bind_result (fold_result (\<lambda>resolved node. follow_forward images external node [] resolved) {}
       (concat (map (\<lambda>(k, _, img). map (\<lambda>(symbol, _). (k, symbol)) (forwarded_exports img)) images)))
       (\<lambda>_. Inr ())"

definition validate_dependency_graph :: "images \<Rightarrow> ustr list \<Rightarrow> unit package_result" where
  "validate_dependency_graph images external =
     (case find (\<lambda>n. n \<in> map_keys images) external of
        Some name \<Rightarrow> Inl (BundledAndExternal name)
      | None \<Rightarrow> bind_result (fold_result (validate_dependency_node images external) [] (map fst images)) (\<lambda>_.
          validate_forwarded_exports images external))"

subsection \<open>The images of a package\<close>

definition inspect_checked_bundle_file :: "pe_parser \<Rightarrow> BundleFile \<Rightarrow> Architecture \<Rightarrow> PeInfo package_result" where
  "inspect_checked_bundle_file p file architecture =
     bind_result (parse_pe_bytes p (bf_snapshot file)) (\<lambda>info. inspect_checked_info info architecture)"

definition is_dll_file :: "BundleFile \<Rightarrow> bool" where
  "is_dll_file file \<longleftrightarrow> ends_with (lowercase (bf_name file)) (lit ''.dll'')"

definition add_bundled ::
    "pe_parser \<Rightarrow> Architecture \<Rightarrow> ustr \<Rightarrow> images \<Rightarrow> BundleFile \<Rightarrow> images package_result" where
  "add_bundled p architecture root_key images file =
     bind_result (windows_dll_name_key ''bundled DLL'' (bf_name file)) (\<lambda>key.
     if key = root_key then Inl (CollidesWithRoot (bf_name file))
     else bind_result (inspect_checked_bundle_file p file architecture) (\<lambda>info.
       if key \<in> map_keys images then Inl (DuplicateBasename (bf_name file))
       else Inr (btree_insert key (bf_name file, info) images)))"

definition verify_dependency_closure ::
    "pe_parser \<Rightarrow> ustr option \<Rightarrow> ustr \<Rightarrow> BundleFile list \<Rightarrow> ustr list \<Rightarrow> PeInfo \<Rightarrow> unit package_result" where
  "verify_dependency_closure p xll_name target files external xll_info =
     bind_result (architecture_parse target) (\<lambda>architecture.
     case xll_name of None \<Rightarrow> Inl NoUtf8Basename
     | Some root_name \<Rightarrow> bind_result (windows_name_key ''XLL basename'' root_name) (\<lambda>root_key.
         bind_result (fold_result (add_bundled p architecture root_key) [(root_key, root_name, xll_info)]
           (filter is_dll_file files)) (\<lambda>images.
         validate_dependency_graph images external)))"

definition add_bundled_path ::
    "pe_parser \<Rightarrow> Architecture \<Rightarrow> ustr \<Rightarrow> images \<Rightarrow> ustr option \<times> nat list \<Rightarrow> images package_result" where
  "add_bundled_path p architecture root_key images file = (case fst file of
     None \<Rightarrow> Inl NoUtf8Basename
   | Some name \<Rightarrow> bind_result (windows_dll_name_key ''bundled DLL'' name) (\<lambda>key.
       if is_system key then Inl (ShadowsSystem name)
       else if key = root_key then Inl (CollidesWithRoot name)
       else bind_result (parse_pe_bytes p (snd file)) (\<lambda>info.
         bind_result (inspect_checked_info info architecture) (\<lambda>info.
         if key \<in> map_keys images then Inl (DuplicateBasename name)
         else Inr (btree_insert key (name, info) images)))))"

definition verify_pe_dependency_closure ::
    "pe_parser \<Rightarrow> ustr option \<times> nat list \<Rightarrow> ustr \<Rightarrow> (ustr option \<times> nat list) list \<Rightarrow> unit package_result" where
  "verify_pe_dependency_closure p root target bundled =
     bind_result (architecture_parse target) (\<lambda>architecture.
     case fst root of None \<Rightarrow> Inl NoUtf8Basename
     | Some root_name \<Rightarrow> bind_result (windows_name_key ''PE root basename'' root_name) (\<lambda>root_key.
         bind_result (parse_pe_bytes p (snd root)) (\<lambda>info.
         bind_result (inspect_checked_info info architecture) (\<lambda>info.
         bind_result (fold_result (add_bundled_path p architecture root_key) [(root_key, root_name, info)] bundled)
           (\<lambda>images. validate_dependency_graph images [])))))"

definition validate_imports :: "pe_parser \<Rightarrow> BundleFile list \<Rightarrow> Architecture \<Rightarrow> ustr list \<Rightarrow> unit package_result" where
  "validate_imports p files architecture external =
     bind_result (fold_result (\<lambda>images file.
         bind_result (windows_dll_name_key ''bundled DLL'' (bf_name file)) (\<lambda>key.
         bind_result (inspect_checked_bundle_file p file architecture) (\<lambda>info.
           Inr (btree_insert key (bf_name file, info) images)))) [] (filter is_dll_file files))
       (\<lambda>images. validate_dependency_graph images external)"

section \<open>Specification\<close>

definition edge_ok :: "images \<Rightarrow> ustr list \<Rightarrow> ustr \<times> ImportTarget list option \<Rightarrow> bool" where
  "edge_ok images external edge \<longleftrightarrow> (\<exists>key. windows_dll_name_key ''PE import'' (fst edge) = Inr key \<and>
     (is_system key \<or> key \<in> set external \<or>
      (\<exists>d img. map_of images key = Some (d, img) \<and>
         (\<forall>ts. snd edge = Some ts \<longrightarrow> (\<forall>t \<in> set ts. target_exists img t)))))"

definition imports_ok :: "images \<Rightarrow> ustr list \<Rightarrow> PeInfo \<Rightarrow> bool" where
  "imports_ok images external img \<longleftrightarrow> (\<forall>edge \<in> set (dependency_imports img). edge_ok images external edge)"

definition image_ok :: "images \<Rightarrow> ustr list \<Rightarrow> ustr \<Rightarrow> bool" where
  "image_ok images external k \<longleftrightarrow> (\<forall>d img. map_of images k = Some (d, img) \<longrightarrow> imports_ok images external img)"

lemma resolve_import_iff:
  "(\<exists>r. resolve_import images external stack name targets = Inr r) \<longleftrightarrow> edge_ok images external (name, targets)"
proof (cases "windows_dll_name_key ''PE import'' name")
  case (Inr key)
  show ?thesis
  proof (cases "map_of images key")
    case None
    then show ?thesis using Inr by (auto simp: resolve_import_def edge_ok_def)
  next
    case (Some entry)
    obtain d img where entry: "entry = (d, img)" by (cases entry)
    let ?ts = "case targets of None \<Rightarrow> [] | Some ts \<Rightarrow> ts"
    have "(\<forall>ts. targets = Some ts \<longrightarrow> (\<forall>t \<in> set ts. target_exists img t)) \<longleftrightarrow> find (\<lambda>t. \<not> target_exists img t) ?ts = None"
      by (cases targets) (auto simp: find_None_iff)
    then show ?thesis using Inr Some entry by (auto simp: resolve_import_def edge_ok_def split: option.splits)
  qed
qed (simp add: resolve_import_def edge_ok_def)

lemma resolve_import_Some:
  "resolve_import images external stack name targets = Inr (Some (key, img)) \<Longrightarrow> \<exists>d. map_of images key = Some (d, img)"
  by (auto simp: resolve_import_def split: if_splits option.splits)

lemma walk_imports_sound:
  assumes "walk_imports images external stack visited = Inr visited'"
  shows "set visited \<subseteq> set visited' \<and>
    (\<forall>f \<in> set stack. \<forall>edge \<in> set (snd f). edge_ok images external edge) \<and>
    (\<forall>k \<in> set visited' - set visited. image_ok images external k)"
  using assms
proof (induction images external stack visited rule: walk_imports.induct)
  case (3 images external current name targets rest stack visited)
  let ?st = "(current, rest) # stack"
  from "3.prems" obtain r where r: "resolve_import images external ?st name targets = Inr r"
    by (auto split: sum.splits)
  have edge: "edge_ok images external (name, targets)" using r resolve_import_iff by blast
  show ?case
  proof (cases r)
    case None
    then show ?thesis using "3.IH"(1) [OF r None] "3.prems" r edge by auto
  next
    case (Some s)
    obtain key img where s: "s = (key, img)" by (cases s)
    show ?thesis
    proof (cases "key \<in> set visited")
      case True
      then show ?thesis using "3.IH"(2) [OF r Some _ True] "3.prems" r edge s Some by auto
    next
      case False
      then have "walk_imports images external ((key, dependency_imports img) # ?st) (insort_insert key visited) = Inr visited'"
        using "3.prems" r Some s by auto
      note ih = "3.IH"(3) [OF r Some s [symmetric] False this]
      obtain d where "map_of images key = Some (d, img)" using resolve_import_Some r Some s by blast
      then have "image_ok images external key" using ih by (simp add: image_ok_def imports_ok_def)
      then show ?thesis using ih edge by (auto simp: set_insort_insert)
    qed
  qed
qed auto

lemma walk_imports_complete:
  assumes "\<And>k. image_ok images external k" "\<forall>f \<in> set stack. \<forall>edge \<in> set (snd f). edge_ok images external edge"
  shows "\<exists>visited'. walk_imports images external stack visited = Inr visited'"
  using assms
proof (induction images external stack visited rule: walk_imports.induct)
  case (3 images external current name targets rest stack visited)
  let ?st = "(current, rest) # stack"
  have "edge_ok images external (name, targets)" using "3.prems"(2) by auto
  then obtain r where r: "resolve_import images external ?st name targets = Inr r" using resolve_import_iff by blast
  have st: "\<forall>f \<in> set ?st. \<forall>edge \<in> set (snd f). edge_ok images external edge" using "3.prems"(2) by auto
  show ?case
  proof (cases r)
    case None
    then show ?thesis using "3.IH"(1) [OF r None "3.prems"(1) st] r by auto
  next
    case (Some s)
    obtain key img where s: "s = (key, img)" by (cases s)
    obtain d where "map_of images key = Some (d, img)" using resolve_import_Some r Some s by blast
    then have "imports_ok images external img" using "3.prems"(1) [of key] by (simp add: image_ok_def)
    then have st': "\<forall>f \<in> set ((key, dependency_imports img) # ?st). \<forall>edge \<in> set (snd f). edge_ok images external edge"
      using st by (simp add: imports_ok_def)
    show ?thesis
      using "3.IH"(2) [OF r Some s [symmetric] _ "3.prems"(1) st] "3.IH"(3) [OF r Some s [symmetric] _ "3.prems"(1) st']
        r Some s by auto
  qed
qed auto

lemma validate_dependency_node_sound:
  assumes "validate_dependency_node images external visited k = Inr visited'" "\<forall>k \<in> set visited. image_ok images external k"
  shows "set visited \<subseteq> set visited' \<and> k \<in> set visited' \<and> (\<forall>k \<in> set visited'. image_ok images external k)"
proof (cases "k \<in> set visited")
  case True
  then show ?thesis using assms by (simp add: validate_dependency_node_def)
next
  case False
  then obtain d img where img: "map_of images k = Some (d, img)"
    and w: "walk_imports images external [(k, dependency_imports img)] (insort_insert k visited) = Inr visited'"
    using assms(1) by (auto simp: validate_dependency_node_def split: option.splits)
  note s = walk_imports_sound [OF w]
  then have "image_ok images external k" using img by (simp add: image_ok_def imports_ok_def)
  then show ?thesis using s assms(2) by (auto simp: set_insort_insert)
qed

lemma dependency_nodes_complete:
  assumes ok: "\<And>k. image_ok images external k" and "set ks \<subseteq> map_keys images"
  shows "\<exists>v. fold_result (validate_dependency_node images external) visited ks = Inr v"
  using assms(2)
proof (induction ks arbitrary: visited)
  case (Cons k ks)
  obtain d img where img: "map_of images k = Some (d, img)" using Cons.prems by (auto simp: map_keys_iff)
  have "\<forall>f \<in> set [(k, dependency_imports img)]. \<forall>edge \<in> set (snd f). edge_ok images external edge"
    using ok [of k] img by (simp add: image_ok_def imports_ok_def)
  then obtain v where "validate_dependency_node images external visited k = Inr v"
    using walk_imports_complete [OF ok] img by (fastforce simp: validate_dependency_node_def)
  then show ?case using Cons.IH [of v] Cons.prems by simp
qed simp

lemma dependency_nodes_sound:
  assumes "fold_result (validate_dependency_node images external) visited ks = Inr v"
    "\<forall>k \<in> set visited. image_ok images external k"
  shows "set visited \<subseteq> set v \<and> set ks \<subseteq> set v \<and> (\<forall>k \<in> set v. image_ok images external k)"
  using assms
proof (induction ks arbitrary: visited)
  case (Cons k ks)
  then obtain v1 where v1: "validate_dependency_node images external visited k = Inr v1"
    "fold_result (validate_dependency_node images external) v1 ks = Inr v" by auto
  note n = validate_dependency_node_sound [OF v1(1) Cons.prems(2)]
  show ?case using Cons.IH [OF v1(2)] n by auto
qed simp

subsection \<open>Forwarded exports\<close>

declare follow_forward.simps [simp del]

text \<open>
  A node is good if it is a real export, or is forwarded to the host, or is forwarded to
  an export of an image of the bundle that is good: a least fixed point, so a chain of good
  nodes ends.
\<close>

inductive forward_ok :: "images \<Rightarrow> ustr list \<Rightarrow> node \<Rightarrow> bool" for images external where
  real:
    "map_of images k = Some (d, img) \<Longrightarrow> map_of (forwarded_exports img) symbol = None \<Longrightarrow>
     has_export_symbol img symbol \<Longrightarrow> forward_ok images external (k, symbol)"
| host:
    "map_of images k = Some (d, img) \<Longrightarrow> map_of (forwarded_exports img) symbol = Some f \<Longrightarrow>
     is_system (lowercase (fw_library f)) \<or> lowercase (fw_library f) \<in> set external \<Longrightarrow>
     forward_ok images external (k, symbol)"
| hop:
    "map_of images k = Some (d, img) \<Longrightarrow> map_of (forwarded_exports img) symbol = Some f \<Longrightarrow>
     map_of images (lowercase (fw_library f)) = Some (d', img') \<Longrightarrow> has_export_symbol img' (fw_symbol f) \<Longrightarrow>
     forward_ok images external (lowercase (fw_library f), fw_symbol f) \<Longrightarrow>
     forward_ok images external (k, symbol)"

text \<open>The next node, when there is one.\<close>

definition forward_next :: "images \<Rightarrow> ustr list \<Rightarrow> node \<Rightarrow> node \<Rightarrow> bool" where
  "forward_next images external n n' \<longleftrightarrow> (\<exists>d img f. map_of images (fst n) = Some (d, img) \<and>
     map_of (forwarded_exports img) (snd n) = Some f \<and> n' = (lowercase (fw_library f), fw_symbol f) \<and>
     \<not> (is_system (lowercase (fw_library f)) \<or> lowercase (fw_library f) \<in> set external))"

lemma forward_ok_next: "forward_ok images external n \<Longrightarrow> forward_next images external n m \<Longrightarrow> forward_ok images external m"
  by (erule forward_ok.cases) (auto simp: forward_next_def)

lemma forward_ok_acyclic:
  assumes "forward_ok images external n"
  shows "\<not> (forward_next images external)\<^sup>+\<^sup>+ n n"
  using assms
proof (induction rule: forward_ok.induct)
  case (real k d img symbol)
  then have "\<not> forward_next images external (k, symbol) m" for m by (simp add: forward_next_def)
  then show ?case by (meson tranclpD)
next
  case (host k d img symbol f)
  then have "\<not> forward_next images external (k, symbol) m" for m by (auto simp: forward_next_def)
  then show ?case by (meson tranclpD)
next
  case (hop k d img symbol f d' img')
  let ?n = "(k, symbol)" and ?m = "(lowercase (fw_library f), fw_symbol f)"
  have next_unique: "forward_next images external ?n m \<Longrightarrow> m = ?m" for m using hop.hyps(1,2) by (simp add: forward_next_def)
  show ?case
  proof
    assume cycle: "(forward_next images external)\<^sup>+\<^sup>+ ?n ?n"
    then obtain m where m: "forward_next images external ?n m" "(forward_next images external)\<^sup>*\<^sup>* m ?n"
      by (meson tranclpD)
    then have "(forward_next images external)\<^sup>+\<^sup>+ ?m ?m"
      using next_unique by (metis rtranclp_into_tranclp1)
    then show False using hop.IH by simp
  qed
qed

lemma follow_forward_sound:
  assumes "follow_forward images external node stack resolved = Inr resolved'"
    "\<forall>n \<in> resolved. forward_ok images external n"
    "forward_ok images external node \<Longrightarrow> \<forall>n \<in> set stack. forward_ok images external n"
  shows "forward_ok images external node \<and> (\<forall>n \<in> resolved'. forward_ok images external n)"
  using assms
proof (induction images external node stack resolved rule: follow_forward.induct)
  case (1 images external node stack resolved)
  note u = "1.prems"(1) [unfolded follow_forward.simps [of images external node stack resolved]]
  show ?case
  proof (cases "node \<in> resolved")
    case True
    then show ?thesis using u "1.prems"(2,3) by auto
  next
    case new: False
    then have unseen: "node \<notin> set stack" using u by (auto split: if_splits)
    obtain display img where img: "map_of images (fst node) = Some (display, img)"
      using u new unseen by (auto split: option.splits)
    show ?thesis
    proof (cases "map_of (forwarded_exports img) (snd node)")
      case None
      then have "has_export_symbol img (snd node)" "resolved' = insert node (resolved \<union> set stack)"
        using u new unseen img by (auto split: if_splits)
      moreover from this have "forward_ok images external node"
        using forward_ok.real [OF img None] by simp
      ultimately show ?thesis using "1.prems"(2,3) by auto
    next
      case (Some f)
      let ?lib = "lowercase (fw_library f)"
      show ?thesis
      proof (cases "is_system ?lib \<or> ?lib \<in> set external")
        case True
        then have "forward_ok images external node" using forward_ok.host [OF img Some] by simp
        moreover have "resolved' = resolved \<union> set (node # stack)"
          using u new unseen img Some True by (auto simp: Let_def)
        ultimately show ?thesis using "1.prems"(2,3) by auto
      next
        case False
        obtain d' img' where img': "map_of images ?lib = Some (d', img')" "has_export_symbol img' (fw_symbol f)"
          and rest: "follow_forward images external (?lib, fw_symbol f) (node # stack) resolved = Inr resolved'"
          using u new unseen img Some False by (auto simp: Let_def split: option.splits if_splits)
        have step: "forward_ok images external node" if "forward_ok images external (?lib, fw_symbol f)"
          using forward_ok.hop [OF img Some img' that] by simp
        have ih: "forward_ok images external (?lib, fw_symbol f) \<and> (\<forall>n \<in> resolved'. forward_ok images external n)"
        proof (rule "1.IH" [OF new unseen img refl Some refl False img'(1) refl _ rest "1.prems"(2)])
          show "\<not> \<not> has_export_symbol img' (fw_symbol f)" using img'(2) by simp
          assume "forward_ok images external (?lib, fw_symbol f)"
          then have "forward_ok images external node" by (rule step)
          with "1.prems"(3) [OF this] show "\<forall>n \<in> set (node # stack). forward_ok images external n" by simp
        qed
        then show ?thesis using step by blast
      qed
    qed
  qed
qed

lemma follow_forward_complete:
  assumes "forward_ok images external node" "\<forall>n \<in> set stack. (forward_next images external)\<^sup>+\<^sup>+ n node"
  shows "\<exists>resolved'. follow_forward images external node stack resolved = Inr resolved'"
  using assms
proof (induction arbitrary: stack rule: forward_ok.induct)
  case (real k d img symbol)
  have "(k, symbol) \<notin> set stack" using real.prems forward_ok_acyclic [OF forward_ok.real [OF real.hyps]] by blast
  then show ?case using real.hyps by (subst follow_forward.simps) simp
next
  case (host k d img symbol f)
  have "(k, symbol) \<notin> set stack" using host.prems forward_ok_acyclic [OF forward_ok.host [OF host.hyps]] by blast
  then show ?case using host.hyps by (subst follow_forward.simps) (simp add: Let_def)
next
  case (hop k d img symbol f d' img')
  let ?lib = "lowercase (fw_library f)"
  show ?case
  proof (cases "is_system ?lib \<or> ?lib \<in> set external")
    case True
    have "(k, symbol) \<notin> set stack" using hop.prems forward_ok_acyclic [OF forward_ok.hop [OF hop.hyps]] by blast
    then show ?thesis using hop.hyps True by (subst follow_forward.simps) (simp add: Let_def)
  next
    case False
    have new: "(k, symbol) \<notin> set stack" using hop.prems forward_ok_acyclic [OF forward_ok.hop [OF hop.hyps]] by blast
    have "forward_next images external (k, symbol) (?lib, fw_symbol f)"
      using hop.hyps(1,2) False by (simp add: forward_next_def)
    then have "\<forall>n \<in> set ((k, symbol) # stack). (forward_next images external)\<^sup>+\<^sup>+ n (?lib, fw_symbol f)"
      using hop.prems by (auto intro: tranclp.intros)
    from hop.IH [OF this] show ?thesis
      using hop.hyps(1-4) False new by (subst follow_forward.simps) (simp add: Let_def)
  qed
qed

lemma forwarded_nodes_sound:
  assumes "fold_result (\<lambda>resolved node. follow_forward images external node [] resolved) resolved ns = Inr r"
    "\<forall>n \<in> resolved. forward_ok images external n"
  shows "\<forall>n \<in> set ns. forward_ok images external n"
  using assms
proof (induction ns arbitrary: resolved)
  case (Cons n ns)
  then obtain r1 where r1: "follow_forward images external n [] resolved = Inr r1"
    "fold_result (\<lambda>resolved node. follow_forward images external node [] resolved) r1 ns = Inr r" by auto
  note s = follow_forward_sound [OF r1(1) Cons.prems(2)]
  show ?case using s Cons.IH [OF r1(2)] by simp
qed simp

lemma forwarded_nodes_complete:
  assumes "\<forall>n \<in> set ns. forward_ok images external n"
  shows "\<exists>r. fold_result (\<lambda>resolved node. follow_forward images external node [] resolved) resolved ns = Inr r"
  using assms
proof (induction ns arbitrary: resolved)
  case (Cons n ns)
  then obtain r1 where "follow_forward images external n [] resolved = Inr r1"
    using follow_forward_complete [of images external n "[]" resolved] by auto
  then show ?case using Cons.IH [of r1] Cons.prems by simp
qed simp

lemma validate_forwarded_exports_iff:
  "validate_forwarded_exports images external = Inr u \<longleftrightarrow>
   (\<forall>node \<in> forwarding_nodes images. forward_ok images external node)"
proof -
  have "set (concat (map (\<lambda>(k, _, img). map (\<lambda>(symbol, _). (k, symbol)) (forwarded_exports img)) images))
      = forwarding_nodes images"
    by (force simp: forwarding_nodes_def map_keys_def)
  then show ?thesis
    using forwarded_nodes_sound [of images external "{}"] forwarded_nodes_complete [of _ images external "{}"]
    unfolding validate_forwarded_exports_def by auto
qed

lemma validate_dependency_graph_iff:
  "validate_dependency_graph images external = Inr u \<longleftrightarrow>
   (\<forall>n \<in> set external. n \<notin> map_keys images) \<and> (\<forall>k \<in> map_keys images. image_ok images external k) \<and>
   (\<forall>node \<in> forwarding_nodes images. forward_ok images external node)"
proof -
  let ?nodes = "fold_result (validate_dependency_node images external) [] (map fst images)"
  have keys: "set (map fst images) = map_keys images" by (simp add: map_keys_def)
  have outside: "image_ok images external k" if "k \<notin> map_keys images" for k
    using that by (auto simp: image_ok_def map_keys_iff)
  have "(\<exists>v. ?nodes = Inr v) \<longleftrightarrow> (\<forall>k \<in> map_keys images. image_ok images external k)"
  proof
    assume "\<exists>v. ?nodes = Inr v"
    then show "\<forall>k \<in> map_keys images. image_ok images external k"
      using dependency_nodes_sound [of images external "[]" "map fst images"] keys by auto
  next
    assume "\<forall>k \<in> map_keys images. image_ok images external k"
    then show "\<exists>v. ?nodes = Inr v" using outside keys dependency_nodes_complete [of images external "map fst images"] by blast
  qed
  moreover have "find (\<lambda>n. n \<in> map_keys images) external = None \<longleftrightarrow> (\<forall>n \<in> set external. n \<notin> map_keys images)"
    by (auto simp: find_None_iff)
  ultimately show ?thesis
    unfolding validate_dependency_graph_def by (auto simp: validate_forwarded_exports_iff split: option.splits)
qed

section \<open>Properties\<close>

text \<open>
  C11. The dependency check decides the closure. The depth-first walk over the images with its
  visited set and the forwarder resolution accept exactly if no library is both bundled and
  external, every import of every image names a system library, an external one or an image
  of the package that exports each imported name and ordinal, and every forwarded export
  leads to a real export, to a system library or to an external one.
\<close>

theorem dependency_graph_decides_closure:
  "validate_dependency_graph images external = Inr () \<longleftrightarrow>
   (\<forall>n \<in> set external. n \<notin> map_keys images) \<and>
   (\<forall>k d img name targets. map_of images k = Some (d, img) \<and> (name, targets) \<in> set (dependency_imports img) \<longrightarrow>
      edge_ok images external (name, targets)) \<and>
   (\<forall>node \<in> forwarding_nodes images. forward_ok images external node)"
  unfolding validate_dependency_graph_iff by (fastforce simp: image_ok_def imports_ok_def map_keys_iff)

lemma forward_ok_end:
  assumes "forward_ok images external node"
  shows "\<exists>e. (forward_next images external)\<^sup>*\<^sup>* node e \<and> (\<forall>m. \<not> forward_next images external e m) \<and>
    (\<exists>d img. map_of images (fst e) = Some (d, img) \<and> (case map_of (forwarded_exports img) (snd e) of
        None \<Rightarrow> has_export_symbol img (snd e)
      | Some f \<Rightarrow> is_system (lowercase (fw_library f)) \<or> lowercase (fw_library f) \<in> set external))"
  using assms
proof (induction rule: forward_ok.induct)
  case (real k d img symbol)
  then show ?case by (intro exI [of _ "(k, symbol)"]) (auto simp: forward_next_def)
next
  case (host k d img symbol f)
  then show ?case by (intro exI [of _ "(k, symbol)"]) (auto simp: forward_next_def)
next
  case (hop k d img symbol f d' img')
  show ?case
  proof (cases "is_system (lowercase (fw_library f)) \<or> lowercase (fw_library f) \<in> set external")
    case True
    then show ?thesis using hop.hyps by (intro exI [of _ "(k, symbol)"]) (auto simp: forward_next_def)
  next
    case False
    then have "forward_next images external (k, symbol) (lowercase (fw_library f), fw_symbol f)"
      using hop.hyps by (simp add: forward_next_def)
    then show ?thesis using hop.IH by (meson converse_rtranclp_into_rtranclp)
  qed
qed

text \<open>
  C12. Forwarding ends. If the resolution accepts, then from every forwarded export the
  deterministic chain of forwarders stops after finitely many hops, at a real export of an image
  of the package or at a forwarder to a system or external library, and never returns to a
  symbol it has left; a cyclic chain is refused. The resolution itself returns for all inputs.
\<close>

theorem accepted_forwarding_ends:
  assumes "validate_forwarded_exports images external = Inr ()" "node \<in> forwarding_nodes images"
  shows "(\<exists>e. (forward_next images external)\<^sup>*\<^sup>* node e \<and> (\<forall>m. \<not> forward_next images external e m) \<and>
      (\<exists>d img. map_of images (fst e) = Some (d, img) \<and> (case map_of (forwarded_exports img) (snd e) of
          None \<Rightarrow> has_export_symbol img (snd e)
        | Some f \<Rightarrow> is_system (lowercase (fw_library f)) \<or> lowercase (fw_library f) \<in> set external))) \<and>
    (\<forall>n. (forward_next images external)\<^sup>*\<^sup>* node n \<longrightarrow> \<not> (forward_next images external)\<^sup>+\<^sup>+ n n)"
proof -
  have ok: "forward_ok images external node" using assms by (simp add: validate_forwarded_exports_iff)
  have "forward_ok images external n" if "(forward_next images external)\<^sup>*\<^sup>* node n" for n
    using that ok
  proof (induction rule: rtranclp_induct)
    case (step n m)
    then show ?case using forward_ok_next by blast
  qed simp
  then show ?thesis using forward_ok_end [OF ok] forward_ok_acyclic by blast
qed

text \<open>An add-in that imports from a library, which forwards one export to the system.\<close>

definition pe_info_default :: PeInfo where
  "pe_info_default = \<lparr>machine = 0x8664, characteristics = 0, exports = [], forwarded_exports = [],
     executable_exports = [], has_export_manifest = True, expected_exports = [], crt_policy = None,
     pe_imports = [], import_targets = [], delay_imports = [], delay_import_targets = [],
     exported_ordinals = [], nonzero_export_slots = [], named_export_slots = []\<rparr>"

definition sample_images :: images where
  "sample_images =
     [(lit ''a.xll'', lit ''A.xll'', pe_info_default\<lparr>pe_imports := [lit ''B.dll''],
        import_targets := [(lit ''B.dll'', [ImportName (lit ''f''), ImportOrdinal 2])]\<rparr>),
      (lit ''b.dll'', lit ''B.dll'', pe_info_default\<lparr>exports := [lit ''f''], exported_ordinals := [1, 2],
        forwarded_exports := [(ExportOrdinal 2, \<lparr>fw_library = lit ''kernel32.dll'', fw_symbol = ExportName (lit ''g'')\<rparr>)]\<rparr>)]"

lemma sample_keys:
  "windows_dll_name_key field (lit ''B.dll'') = Inr (lit ''b.dll'')" "lit ''a.xll'' \<noteq> lit ''b.dll''"
  "is_system (lowercase (lit ''kernel32.dll''))"
  by (simp_all add: windows_dll_name_key_def windows_name_key_def validate_windows_basename_for_def
    validate_windows_basename_def lit_def is_ascii_str_def is_ascii_char_def is_reserved_stem_def basename_stem_def
    trim_end_matches_def to_ascii_uppercase_def lowercase_def to_ascii_lowercase_def ends_with_def is_system_def SYSTEM_DLLS_def)

lemma sample_forwarding: "forwarding_nodes sample_images = {(lit ''b.dll'', ExportOrdinal 2)}"
  by (simp add: forwarding_nodes_Union sample_images_def pe_info_default_def map_keys_def)

lemma sample_forward_ok: "forward_ok sample_images [] (lit ''b.dll'', ExportOrdinal 2)"
  by (rule forward_ok.host [where f = "\<lparr>fw_library = lit ''kernel32.dll'', fw_symbol = ExportName (lit ''g'')\<rparr>"])
    (use sample_keys in \<open>auto simp: sample_images_def pe_info_default_def\<close>)

theorem dependency_graph_decides_closure_witness: "validate_dependency_graph sample_images [] = Inr ()"
  unfolding dependency_graph_decides_closure
proof (intro conjI allI impI ballI)
  fix k d img name targets
  assume "map_of sample_images k = Some (d, img) \<and> (name, targets) \<in> set (dependency_imports img)"
  then have "name = lit ''B.dll''" "targets = Some [ImportName (lit ''f''), ImportOrdinal 2]"
    by (auto simp: sample_images_def pe_info_default_def dependency_imports_def split: if_splits)
  then show "edge_ok sample_images [] (name, targets)"
    using sample_keys(1,2) by (auto simp: edge_ok_def sample_images_def target_exists_def pe_info_default_def)
qed (use sample_forwarding sample_forward_ok in auto)

theorem accepted_forwarding_ends_witness:
  "\<not> (forward_next sample_images [])\<^sup>+\<^sup>+ (lit ''b.dll'', ExportOrdinal 2) (lit ''b.dll'', ExportOrdinal 2)"
  using accepted_forwarding_ends [of sample_images "[]" "(lit ''b.dll'', ExportOrdinal 2)"]
    sample_forwarding sample_forward_ok by (auto simp: validate_forwarded_exports_iff)

end
