(* ===== verification/Package_Manifest.thy ===== *)
theory Package_Manifest
  imports Package_Base "HOL-Library.Multiset"
begin

text \<open>
  The build manifest of a package (\<open>crates/xlfn-package/src/{manifest,artifact}.rs\<close>): its inventory is
  computed from the verified artifacts, written as one more artifact and checked against them
  again. The JSON library is a parameter: \<open>to_json\<close> and \<open>from_json\<close>. An artifact's path is a
  single component, missing when it is not Unicode. The permissions of the manifest are fixed on
  Unix and those of a temporary file elsewhere, whose creation may fail: its result is the
  argument \<open>temporary\<close>. The artifacts of a package are those that \<open>verify_staged_package\<close>
  assembles after its checks: the add-in and the bundle files, under names that differ up to
  case.
\<close>

section \<open>Data\<close>

record VerifiedArtifact =
  relative_path :: "ustr option"
  bytes :: "nat list"
  permissions :: Permissions

definition artifact_size :: "VerifiedArtifact \<Rightarrow> u64" where
  "artifact_size a = of_nat (length (bytes a))"

record FeatureSelection =
  explicit :: "ustr list"
  default_features :: bool
  all_features :: bool
  resolved :: "ustr list"

record CargoConstraints =
  locked :: bool
  frozen :: bool
  offline :: bool

record CrtManifest =
  requested :: ustr
  crt_source :: ustr
  effective_rust :: ustr
  enforcement :: ustr
  observed_dynamic_crt_imports :: "ustr list"
  consistency :: ustr

record BundleSource =
  configured_path :: ustr
  staged_relative_path :: ustr

record BundlePolicy =
  strict_paths :: bool
  system_import_policy :: ustr
  external_imports :: "ustr list"

record IntegrityMetadata =
  purpose :: ustr
  runtime_verified :: bool
  trust_boundary :: ustr

record BuildManifestInput =
  in_package :: ustr
  in_package_version :: ustr
  in_artifact :: ustr
  in_target :: ustr
  in_profile :: ustr
  in_feature_selection :: FeatureSelection
  in_cargo_constraints :: CargoConstraints
  in_crt :: CrtManifest
  in_bundle_sources :: "BundleSource list"
  in_bundle_policy :: BundlePolicy
  in_integrity :: IntegrityMetadata

record ManifestFile =
  mf_relative_path :: ustr
  mf_size :: u64

record BuildManifest =
  bm_schema :: u32
  bm_package :: ustr
  bm_package_version :: ustr
  bm_artifact :: ustr
  bm_target :: ustr
  bm_profile :: ustr
  bm_feature_selection :: FeatureSelection
  bm_cargo_constraints :: CargoConstraints
  bm_crt :: CrtManifest
  bm_bundle_sources :: "BundleSource list"
  bm_bundle_policy :: BundlePolicy
  bm_integrity :: IntegrityMetadata
  bm_files :: "ManifestFile list"

record VerifiedPackage =
  artifacts :: "VerifiedArtifact list"
  expected_names :: "ustr list"

datatype ManifestError =
  PathNotUtf8 | DescribesItself | ManifestMissing | SchemaInvalid | UnsupportedManifestSchema u32
| NameError PackageError | DuplicateEntry | CountMismatch nat nat | NotDescribed ustr | Mismatch ustr
| AlreadyContainsManifest | JsonError | NoBasename string | DuplicateArtifact ustr | IoError

type_synonym 'a manifest_result = "ManifestError + 'a"

section \<open>Operations\<close>

definition BUILD_MANIFEST_SCHEMA :: u32 where "BUILD_MANIFEST_SCHEMA = 7"

definition MANIFEST_NAME :: ustr where "MANIFEST_NAME = lit ''build-manifest.json''"

definition name_key :: "string \<Rightarrow> ustr \<Rightarrow> ustr manifest_result" where
  "name_key field name = (case windows_name_key field name of Inl e \<Rightarrow> Inl (NameError e) | Inr k \<Rightarrow> Inr k)"

definition manifest_file :: "VerifiedArtifact \<Rightarrow> ManifestFile manifest_result" where
  "manifest_file a = (case relative_path a of
     None \<Rightarrow> Inl PathNotUtf8
   | Some path \<Rightarrow>
       if ascii_eq_ignore_case path MANIFEST_NAME then Inl DescribesItself
       else Inr \<lparr>mf_relative_path = path, mf_size = artifact_size a\<rparr>)"

definition from_input :: "BuildManifestInput \<Rightarrow> VerifiedArtifact list \<Rightarrow> BuildManifest manifest_result" where
  "from_input i as = bind_result (collect_result manifest_file as) (\<lambda>files.
     Inr \<lparr>bm_schema = BUILD_MANIFEST_SCHEMA, bm_package = in_package i, bm_package_version = in_package_version i,
          bm_artifact = in_artifact i, bm_target = in_target i, bm_profile = in_profile i,
          bm_feature_selection = in_feature_selection i, bm_cargo_constraints = in_cargo_constraints i,
          bm_crt = in_crt i, bm_bundle_sources = in_bundle_sources i, bm_bundle_policy = in_bundle_policy i,
          bm_integrity = in_integrity i, bm_files = files\<rparr>)"

definition is_manifest :: "VerifiedArtifact \<Rightarrow> bool" where
  "is_manifest a \<longleftrightarrow> relative_path a = Some MANIFEST_NAME"

definition describe ::
    "(ustr \<times> ustr \<times> u64) list \<Rightarrow> ManifestFile \<Rightarrow> (ustr \<times> ustr \<times> u64) list manifest_result" where
  "describe described file = bind_result (name_key ''manifest relative_path'' (mf_relative_path file)) (\<lambda>key.
     if key = MANIFEST_NAME \<or> key \<in> map_keys described then Inl DuplicateEntry
     else Inr (btree_insert key (mf_relative_path file, mf_size file) described))"

definition check_described :: "(ustr \<times> ustr \<times> u64) list \<Rightarrow> VerifiedArtifact \<Rightarrow> unit manifest_result" where
  "check_described described a = (case relative_path a of
     None \<Rightarrow> Inl PathNotUtf8
   | Some name \<Rightarrow> bind_result (name_key ''artifact relative_path'' name) (\<lambda>key.
       case map_of described key of
         None \<Rightarrow> Inl (NotDescribed name)
       | Some (described_name, described_size) \<Rightarrow>
           if described_name \<noteq> name \<or> described_size \<noteq> artifact_size a then Inl (Mismatch name) else Inr ()))"

definition validate_manifest_bytes ::
    "(nat list \<Rightarrow> BuildManifest option) \<Rightarrow> VerifiedArtifact list \<Rightarrow> unit manifest_result" where
  "validate_manifest_bytes from_json as = (case find is_manifest as of
     None \<Rightarrow> Inl ManifestMissing
   | Some a \<Rightarrow> (case from_json (bytes a) of
       None \<Rightarrow> Inl SchemaInvalid
     | Some manifest \<Rightarrow>
         if bm_schema manifest \<noteq> BUILD_MANIFEST_SCHEMA then Inl (UnsupportedManifestSchema (bm_schema manifest))
         else bind_result (fold_result describe [] (bm_files manifest)) (\<lambda>described.
           let actual = filter (\<lambda>a. \<not> is_manifest a) as in
           if length described \<noteq> length actual then Inl (CountMismatch (length described) (length actual))
           else each_result (check_described described) actual)))"

definition manifest_permissions :: "bool \<Rightarrow> Permissions manifest_result \<Rightarrow> Permissions manifest_result" where
  "manifest_permissions unix temporary =
     (if unix then Inr (Mode 0x180) else bind_result temporary (\<lambda>p. Inr (set_readonly False p)))"

definition with_build_manifest ::
    "(BuildManifest \<Rightarrow> nat list option) \<Rightarrow> (nat list \<Rightarrow> BuildManifest option) \<Rightarrow> bool \<Rightarrow> Permissions manifest_result \<Rightarrow>
     BuildManifestInput \<Rightarrow> VerifiedPackage \<Rightarrow> VerifiedPackage manifest_result" where
  "with_build_manifest to_json from_json unix temporary i package =
     bind_result (from_input i (artifacts package)) (\<lambda>manifest.
     case to_json manifest of None \<Rightarrow> Inl JsonError
     | Some b \<Rightarrow> bind_result (name_key ''build manifest'' MANIFEST_NAME) (\<lambda>key.
         if key \<in> set (expected_names package) then Inl AlreadyContainsManifest
         else bind_result (manifest_permissions unix temporary) (\<lambda>mode.
           let package = package\<lparr>expected_names := insort_insert key (expected_names package),
                artifacts := artifacts package @ [\<lparr>relative_path = Some MANIFEST_NAME, bytes = b, permissions = mode\<rparr>]\<rparr> in
           bind_result (validate_manifest_bytes from_json (artifacts package)) (\<lambda>_. Inr package))))"

text \<open>The basename of a path is missing when there is none or it is not Unicode.\<close>

definition artifact_relative_path :: "ustr option \<Rightarrow> string \<Rightarrow> ustr manifest_result" where
  "artifact_relative_path file_name label = (case file_name of
     None \<Rightarrow> Inl (NoBasename label)
   | Some name \<Rightarrow> bind_result (name_key label name) (\<lambda>_. Inr name))"

definition assemble_file ::
    "ustr list \<times> VerifiedPackage \<Rightarrow> BundleFile \<Rightarrow> (ustr list \<times> VerifiedPackage) manifest_result" where
  "assemble_file st file = (case st of (relative_paths, package) \<Rightarrow>
     bind_result (name_key ''bundle file'' (bf_name file)) (\<lambda>key.
     if key \<in> set relative_paths then Inl (DuplicateArtifact (bf_name file))
     else Inr (insort_insert key relative_paths,
       package\<lparr>expected_names := insort_insert key (expected_names package),
         artifacts := artifacts package @ [\<lparr>relative_path = Some (bf_name file), bytes = bf_snapshot file,
           permissions = bf_permissions file\<rparr>]\<rparr>)))"

definition assemble_package ::
    "ustr option \<Rightarrow> nat list \<Rightarrow> Permissions manifest_result \<Rightarrow> BundleFile list \<Rightarrow> VerifiedPackage manifest_result" where
  "assemble_package xll xll_snapshot xll_permissions files =
     bind_result (artifact_relative_path xll ''XLL'') (\<lambda>name.
     bind_result (name_key ''XLL'' name) (\<lambda>key.
     bind_result xll_permissions (\<lambda>mode.
     bind_result (fold_result assemble_file ([key], \<lparr>artifacts = [\<lparr>relative_path = Some name, bytes = xll_snapshot,
       permissions = mode\<rparr>], expected_names = [key]\<rparr>) files) (\<lambda>st. Inr (snd st)))))"

section \<open>The inventory\<close>

lemma length_btree_insert: "k \<notin> map_keys m \<Longrightarrow> length (btree_insert k v m) = Suc (length m)"
  by (induction k v m rule: btree_insert.induct) (auto simp: map_keys_def)

lemma distinct_btree_insert:
  "distinct (map fst m) \<Longrightarrow> k \<notin> map_keys m \<Longrightarrow> distinct (map fst (btree_insert k v m))"
proof (induction k v m rule: btree_insert.induct)
  case (2 k v k' v' m)
  then show ?case by (simp add: map_keys_def keys_btree_insert) blast
qed simp

text \<open>An entry of the table comes from one file of the manifest.\<close>

definition described_by :: "ManifestFile list \<Rightarrow> (ustr \<times> ustr \<times> u64) list \<Rightarrow> bool" where
  "described_by files d \<longleftrightarrow> length d = length files \<and> distinct (map fst d) \<and>
     distinct (map (\<lambda>f. lowercase (mf_relative_path f)) files) \<and>
     (\<forall>f \<in> set files. \<exists>k. name_key ''manifest relative_path'' (mf_relative_path f) = Inr k \<and> k \<noteq> MANIFEST_NAME \<and>
        map_of d k = Some (mf_relative_path f, mf_size f)) \<and>
     (\<forall>k v. map_of d k = Some v \<longrightarrow> v \<in> (\<lambda>f. (mf_relative_path f, mf_size f)) ` set files)"

lemma name_key_lowercase: "name_key field name = Inr k \<Longrightarrow> k = lowercase name"
  by (auto simp: name_key_def windows_name_key_def split: sum.splits)

lemma described_byD:
  assumes "described_by files d" "f \<in> set files"
  obtains k where "name_key ''manifest relative_path'' (mf_relative_path f) = Inr k" "k \<noteq> MANIFEST_NAME"
    "map_of d k = Some (mf_relative_path f, mf_size f)"
proof -
  have "\<forall>f \<in> set files. \<exists>k. name_key ''manifest relative_path'' (mf_relative_path f) = Inr k \<and> k \<noteq> MANIFEST_NAME \<and>
      map_of d k = Some (mf_relative_path f, mf_size f)"
    using assms(1) unfolding described_by_def by (elim conjE)
  from bspec [OF this assms(2)] show ?thesis using that by (elim exE conjE)
qed

lemma described_by_distinct:
  "described_by files d \<Longrightarrow> length d = length files \<and> distinct (map (\<lambda>f. lowercase (mf_relative_path f)) files)"
  unfolding described_by_def by (elim conjE) (intro conjI)

lemma describe_step:
  assumes "described_by files d" "describe d f = Inr d'"
  shows "described_by (files @ [f]) d'"
proof -
  obtain key where key: "name_key ''manifest relative_path'' (mf_relative_path f) = Inr key"
      "key \<noteq> MANIFEST_NAME" "key \<notin> map_keys d" "d' = btree_insert key (mf_relative_path f, mf_size f) d"
    using assms(2) by (auto simp: describe_def split: if_splits)
  have old: "map_of d k = Some v \<Longrightarrow> k \<noteq> key" for k v using key(3) map_keys_iff by metis
  have "lowercase (mf_relative_path g) \<noteq> lowercase (mf_relative_path f)" if g: "g \<in> set files" for g
  proof -
    obtain k where k: "name_key ''manifest relative_path'' (mf_relative_path g) = Inr k"
      "map_of d k = Some (mf_relative_path g, mf_size g)"
      using described_byD [OF assms(1) g] by blast
    show ?thesis using old [OF k(2)] name_key_lowercase [OF k(1)] name_key_lowercase [OF key(1)] by simp
  qed
  moreover have "distinct (map (\<lambda>f. lowercase (mf_relative_path f)) files)"
    using described_by_distinct [OF assms(1)] by blast
  ultimately have fresh: "distinct (map (\<lambda>f. lowercase (mf_relative_path f)) (files @ [f]))"
    by (simp add: image_iff) metis
  have "\<exists>k. name_key ''manifest relative_path'' (mf_relative_path g) = Inr k \<and> k \<noteq> MANIFEST_NAME \<and>
        map_of d' k = Some (mf_relative_path g, mf_size g)" if "g \<in> set (files @ [f])" for g
  proof (cases "g = f")
    case True
    then show ?thesis using key by simp
  next
    case False
    then have "g \<in> set files" using that by simp
    obtain k where k: "name_key ''manifest relative_path'' (mf_relative_path g) = Inr k" "k \<noteq> MANIFEST_NAME"
      "map_of d k = Some (mf_relative_path g, mf_size g)"
      using described_byD [OF assms(1) \<open>g \<in> set files\<close>] by blast
    then show ?thesis using old [OF k(3)] key(4) by simp
  qed
  moreover have "v \<in> (\<lambda>f. (mf_relative_path f, mf_size f)) ` set (files @ [f])" if "map_of d' k = Some v" for k v
  proof (cases "k = key")
    case False
    then have "map_of d k = Some v" using that key(4) by simp
    then have "v \<in> (\<lambda>f. (mf_relative_path f, mf_size f)) ` set files" using assms(1) unfolding described_by_def by blast
    then show ?thesis by auto
  qed (use that key(4) in simp)
  ultimately show ?thesis
    using assms(1) key(3,4) fresh
    by (simp add: described_by_def length_btree_insert distinct_btree_insert del: map_append)
qed

lemma describe_files: "fold_result describe d0 files = Inr d \<Longrightarrow> described_by prior d0 \<Longrightarrow> described_by (prior @ files) d"
proof (induction files arbitrary: d0 prior)
  case (Cons f files)
  then obtain d1 where d1: "describe d0 f = Inr d1" "fold_result describe d1 files = Inr d" by auto
  show ?case using Cons.IH [OF d1(2) describe_step [OF Cons.prems(2) d1(1)]] by simp
qed simp

lemma check_describedD:
  assumes "check_described d a = Inr ()"
  obtains name where "relative_path a = Some name" "map_of d (lowercase name) = Some (name, artifact_size a)"
proof -
  obtain name where name: "relative_path a = Some name"
    using assms by (cases "relative_path a") (auto simp: check_described_def)
  obtain key where "name_key ''artifact relative_path'' name = Inr key" "map_of d key = Some (name, artifact_size a)"
    using assms name by (auto simp: check_described_def split: option.splits if_splits)
  then show ?thesis using that [OF name] name_key_lowercase by blast
qed

lemma inventory_exact:
  assumes files: "described_by files d" and len: "length d = length as"
    and distinct: "distinct (map (\<lambda>a. lowercase (the (relative_path a))) as)"
    and checked: "\<forall>a \<in> set as. check_described d a = Inr ()"
  shows "(\<lambda>f. (mf_relative_path f, mf_size f)) ` set files = (\<lambda>a. (the (relative_path a), artifact_size a)) ` set as"
proof -
  let ?key = "\<lambda>a. lowercase (the (relative_path a))"
  have D: "map_of d (?key a) = Some (the (relative_path a), artifact_size a)" if "a \<in> set as" for a
    using checked that by (auto elim!: check_describedD)
  have sub: "?key ` set as \<subseteq> map_keys d" using D by (auto simp: map_keys_iff)
  have "card (?key ` set as) = card (map_keys d)"
    using distinct distinct_card [of "map ?key as"] distinct_card [of "map fst d"] files len
    by (simp add: described_by_def map_keys_def)
  then have keys: "?key ` set as = map_keys d" using sub by (intro card_subset_eq) simp_all
  have F: "\<exists>k. map_of d k = Some (mf_relative_path f, mf_size f)" if "f \<in> set files" for f
    using described_byD [OF files that] by blast
  have "(mf_relative_path f, mf_size f) \<in> (\<lambda>a. (the (relative_path a), artifact_size a)) ` set as"
    if f: "f \<in> set files" for f
  proof -
    obtain k where k: "map_of d k = Some (mf_relative_path f, mf_size f)" using F [OF f] by blast
    then have "k \<in> ?key ` set as" using keys by (auto simp: map_keys_iff)
    then obtain a where "a \<in> set as" "k = ?key a" by blast
    then show ?thesis using D [of a] k by force
  qed
  moreover have "(the (relative_path a), artifact_size a) \<in> (\<lambda>f. (mf_relative_path f, mf_size f)) ` set files"
    if "a \<in> set as" for a
    using D [OF that] files unfolding described_by_def by blast
  ultimately show ?thesis by blast
qed

definition inventory :: "VerifiedArtifact list \<Rightarrow> (ustr \<times> u64) list" where
  "inventory as = map (\<lambda>a. (the (relative_path a), artifact_size a)) as"

definition listed :: "BuildManifest \<Rightarrow> (ustr \<times> u64) list" where
  "listed m = map (\<lambda>f. (mf_relative_path f, mf_size f)) (bm_files m)"

section \<open>A manifest that is written is accepted\<close>

lemma same_case_iff: "to_ascii_lowercase a = to_ascii_lowercase b \<longleftrightarrow> to_ascii_uppercase a = to_ascii_uppercase b"
  by (auto simp: to_ascii_lowercase_def to_ascii_uppercase_def split: if_splits)

lemma lowercase_eq_iff: "lowercase s = lowercase t \<longleftrightarrow> ascii_eq_ignore_case s t"
  unfolding lowercase_def ascii_eq_ignore_case_def list_eq_iff_nth_eq by (auto simp: same_case_iff)

lemma lowercase_manifest: "lowercase MANIFEST_NAME = MANIFEST_NAME"
  by (simp add: MANIFEST_NAME_def lit_def lowercase_def to_ascii_lowercase_def)

lemma manifest_iff: "ascii_eq_ignore_case n MANIFEST_NAME \<longleftrightarrow> lowercase n = MANIFEST_NAME"
  using lowercase_eq_iff [of n MANIFEST_NAME] by (simp add: lowercase_manifest)

text \<open>Entries a package can have before its manifest: valid names, different up to case, none of them the manifest's.\<close>

definition entries_ok :: "(ustr \<times> u64) list \<Rightarrow> bool" where
  "entries_ok es \<longleftrightarrow> distinct (map (lowercase \<circ> fst) es) \<and>
     (\<forall>(n, _) \<in> set es. validate_windows_basename n = Inr () \<and> lowercase n \<noteq> MANIFEST_NAME)"

definition artifacts_ok :: "VerifiedArtifact list \<Rightarrow> bool" where
  "artifacts_ok as \<longleftrightarrow> entries_ok (inventory as) \<and> (\<forall>a \<in> set as. relative_path a \<noteq> None)"

lemma name_key_Inr: "name_key field n = Inr k \<longleftrightarrow> validate_windows_basename n = Inr () \<and> k = lowercase n"
  by (auto simp: name_key_def windows_name_key_def validate_windows_basename_for_def split: sum.splits)

lemma entries_ok_perm: "mset es = mset fs \<Longrightarrow> entries_ok es \<longleftrightarrow> entries_ok fs"
  using mset_eq_imp_distinct_iff [of "map (lowercase \<circ> fst) es" "map (lowercase \<circ> fst) fs"] mset_eq_setD [of es fs]
  by (simp add: entries_ok_def)

text \<open>What the manifest may list: any entries like these are accepted into the table.\<close>

lemma describe_accepts:
  assumes "entries_ok (map (\<lambda>f. (mf_relative_path f, mf_size f)) files)"
    "\<forall>f \<in> set files. lowercase (mf_relative_path f) \<notin> map_keys d"
  shows "\<exists>d'. fold_result describe d files = Inr d'"
  using assms
proof (induction files arbitrary: d)
  case (Cons f files)
  let ?d = "btree_insert (lowercase (mf_relative_path f)) (mf_relative_path f, mf_size f) d"
  have "describe d f = Inr ?d"
    using Cons.prems by (simp add: describe_def entries_ok_def name_key_Inr [THEN iffD2])
  moreover have "lowercase (mf_relative_path f) \<notin> (\<lambda>g. lowercase (mf_relative_path g)) ` set files"
    using Cons.prems(1) by (simp add: entries_ok_def image_image)
  then have "\<forall>g \<in> set files. lowercase (mf_relative_path g) \<noteq> lowercase (mf_relative_path f)"
    by (metis (no_types, lifting) image_eqI)
  then have "\<exists>d'. fold_result describe ?d files = Inr d'"
    by (intro Cons.IH) (use Cons.prems in \<open>auto simp: entries_ok_def comp_def\<close>)
  ultimately show ?case by simp
qed simp

text \<open>The check decides that the manifest lists the artifacts, in any order.\<close>

lemma inventory_decided:
  assumes ok: "artifacts_ok as" and d: "described_by files d"
  shows "length d = length as \<and> (\<forall>a \<in> set as. check_described d a = Inr ()) \<longleftrightarrow>
    mset (map (\<lambda>f. (mf_relative_path f, mf_size f)) files) = mset (inventory as)"
    (is "?checked \<longleftrightarrow> mset ?files = mset (inventory as)")
proof
  have keys: "distinct (map (\<lambda>a. lowercase (the (relative_path a))) as)"
    using ok by (simp add: artifacts_ok_def entries_ok_def inventory_def comp_def)
  have files: "length d = length files" "distinct (map (lowercase \<circ> fst) ?files)"
    using described_by_distinct [OF d] by (simp_all add: comp_def)
  show "mset ?files = mset (inventory as)" if checked: ?checked
  proof -
    have "set ?files = set (inventory as)"
      using inventory_exact [OF d _ keys] checked by (simp add: inventory_def)
    moreover have "distinct ?files" using files(2) by (simp only: distinct_map)
    moreover have "distinct (inventory as)"
      using ok by (simp add: artifacts_ok_def entries_ok_def distinct_map)
    ultimately show ?thesis using set_eq_iff_mset_eq_distinct by blast
  qed
  show ?checked if eq: "mset ?files = mset (inventory as)"
  proof (intro conjI ballI)
    show "length d = length as" using files(1) mset_eq_length [OF eq] by (simp add: inventory_def)
    fix a assume a: "a \<in> set as"
    then obtain n where n: "relative_path a = Some n" using ok by (auto simp: artifacts_ok_def)
    have "(n, artifact_size a) \<in> set ?files"
      using a n mset_eq_setD [OF eq] by (force simp: inventory_def)
    then obtain f where f: "f \<in> set files" "n = mf_relative_path f" "artifact_size a = mf_size f" by auto
    obtain k where "name_key ''manifest relative_path'' n = Inr k" "map_of d k = Some (n, artifact_size a)"
      using described_byD [OF d f(1)] unfolding f(2,3) by blast
    then show "check_described d a = Inr ()"
      using n by (simp add: check_described_def name_key_Inr [THEN iffD2] name_key_Inr)
  qed
qed

definition manifest_artifact :: "nat list \<Rightarrow> Permissions \<Rightarrow> VerifiedArtifact" where
  "manifest_artifact b mode = \<lparr>relative_path = Some MANIFEST_NAME, bytes = b, permissions = mode\<rparr>"

lemma manifest_decided:
  assumes ok: "artifacts_ok as"
  shows "validate_manifest_bytes from_json (as @ [manifest_artifact b mode]) = Inr () \<longleftrightarrow>
    (\<exists>m. from_json b = Some m \<and> bm_schema m = BUILD_MANIFEST_SCHEMA \<and> mset (listed m) = mset (inventory as))"
proof -
  let ?all = "as @ [manifest_artifact b mode]"
  have none: "\<not> is_manifest a" if "a \<in> set as" for a
    using ok that lowercase_manifest
    by (fastforce simp: artifacts_ok_def entries_ok_def inventory_def is_manifest_def)
  have find_m: "find is_manifest ?all = Some (manifest_artifact b mode)"
    using none by (induction as) (auto simp: is_manifest_def manifest_artifact_def)
  have rest: "filter (\<lambda>a. \<not> is_manifest a) ?all = as"
    using none by (simp add: is_manifest_def manifest_artifact_def)
  have table: "described_by files d" if "fold_result describe [] files = Inr d" for files d
  proof -
    have "described_by [] []" by (simp add: described_by_def)
    then show ?thesis using describe_files [OF that] by fastforce
  qed
  have accepts: "\<exists>d. fold_result describe [] (bm_files m) = Inr d" if "mset (listed m) = mset (inventory as)" for m
    using ok entries_ok_perm [OF that] by (intro describe_accepts) (simp_all add: artifacts_ok_def listed_def map_keys_def)
  have each: "bind_result (fold_result describe [] (bm_files m)) (\<lambda>described.
        if length described \<noteq> length as then Inl (CountMismatch (length described) (length as))
        else each_result (check_described described) as) = Inr () \<longleftrightarrow> mset (listed m) = mset (inventory as)" for m
  proof (cases "fold_result describe [] (bm_files m)")
    case (Inl e)
    then show ?thesis using accepts [of m] by auto
  next
    case (Inr d)
    then show ?thesis using inventory_decided [OF ok table [OF Inr]] by (auto simp: listed_def)
  qed
  show ?thesis
    unfolding validate_manifest_bytes_def find_m rest option.case Let_def
    by (cases "from_json b") (auto simp: manifest_artifact_def each simp del: bind_result_Inr_iff)
qed

section \<open>The artifacts of a verified package\<close>

definition artifact_key :: "VerifiedArtifact \<Rightarrow> ustr" where
  "artifact_key a = lowercase (the (relative_path a))"

definition assembled :: "ustr list \<times> VerifiedPackage \<Rightarrow> bool" where
  "assembled st \<longleftrightarrow> set (fst st) = set (expected_names (snd st)) \<and>
     set (expected_names (snd st)) = artifact_key ` set (artifacts (snd st)) \<and>
     distinct (map artifact_key (artifacts (snd st))) \<and>
     (\<forall>a \<in> set (artifacts (snd st)). \<exists>n. relative_path a = Some n \<and> validate_windows_basename n = Inr ())"

lemma assemble_file_assembled:
  assumes "assembled st" "assemble_file st file = Inr st'"
  shows "assembled st'"
proof -
  obtain keys package where st: "st = (keys, package)" by (cases st)
  let ?key = "lowercase (bf_name file)"
  have new: "validate_windows_basename (bf_name file) = Inr ()" "?key \<notin> set keys"
    "st' = (insort_insert ?key keys, package\<lparr>expected_names := insort_insert ?key (expected_names package),
         artifacts := artifacts package @ [\<lparr>relative_path = Some (bf_name file), bytes = bf_snapshot file,
           permissions = bf_permissions file\<rparr>]\<rparr>)"
    using assms(2) by (auto simp: assemble_file_def st name_key_Inr split: if_splits)
  have "?key \<notin> artifact_key ` set (artifacts package)" using assms(1) new(2) by (simp add: assembled_def st)
  then show ?thesis
    using assms(1) new(1) by (auto simp: assembled_def st new(3) artifact_key_def set_insort_insert)
qed

lemma assemble_package_assembled:
  assumes "assemble_package xll snapshot mode files = Inr package"
  shows "\<exists>keys. assembled (keys, package)"
proof -
  obtain name key m st where st: "name_key ''XLL'' name = Inr key"
    "fold_result assemble_file ([key], \<lparr>artifacts = [\<lparr>relative_path = Some name, bytes = snapshot, permissions = m\<rparr>],
       expected_names = [key]\<rparr>) files = Inr st" "package = snd st"
    using assms by (auto simp: assemble_package_def)
  have "assembled ([key], \<lparr>artifacts = [\<lparr>relative_path = Some name, bytes = snapshot, permissions = m\<rparr>],
       expected_names = [key]\<rparr>)"
    using st(1) by (simp add: assembled_def artifact_key_def name_key_Inr)
  then have "assembled st" by (rule fold_result_invariant [OF st(2)]) (rule assemble_file_assembled)
  then show ?thesis using st(3) by (metis prod.collapse)
qed

lemma assembled_artifacts_ok:
  assumes "assembled (keys, package)" "MANIFEST_NAME \<notin> set (expected_names package)"
  shows "artifacts_ok (artifacts package)"
proof -
  have "map (lowercase \<circ> fst) (inventory (artifacts package)) = map artifact_key (artifacts package)"
    by (simp add: inventory_def artifact_key_def)
  then have "distinct (map (lowercase \<circ> fst) (inventory (artifacts package)))"
    using assms(1) by (simp only: assembled_def snd_conv)
  moreover have "validate_windows_basename (the (relative_path a)) = Inr () \<and> artifact_key a \<noteq> MANIFEST_NAME \<and> relative_path a \<noteq> None"
    if "a \<in> set (artifacts package)" for a
  proof -
    have "artifact_key a \<in> set (expected_names package)" using assms(1) that by (simp add: assembled_def)
    then have "artifact_key a \<noteq> MANIFEST_NAME" using assms(2) by metis
    then show ?thesis using assms(1) that by (auto simp: assembled_def)
  qed
  ultimately show ?thesis
    unfolding artifacts_ok_def entries_ok_def by (auto simp: inventory_def artifact_key_def)
qed

lemma manifest_file_ok:
  assumes "relative_path a = Some n"
  shows "manifest_file a = (if lowercase n = MANIFEST_NAME then Inl DescribesItself
    else Inr \<lparr>mf_relative_path = n, mf_size = artifact_size a\<rparr>)"
  using assms by (simp add: manifest_file_def manifest_iff)

lemma collect_files:
  assumes "\<forall>a \<in> set as. relative_path a \<noteq> None"
  shows "collect_result manifest_file as =
    (if \<exists>a \<in> set as. lowercase (the (relative_path a)) = MANIFEST_NAME then Inl DescribesItself
     else Inr (map (\<lambda>(n, k). \<lparr>mf_relative_path = n, mf_size = k\<rparr>) (inventory as)))"
  using assms
proof (induction as)
  case (Cons a as)
  then obtain n where "relative_path a = Some n" by auto
  then show ?case using Cons by (simp add: manifest_file_ok inventory_def)
qed (simp add: inventory_def)

lemma manifest_key: "name_key field MANIFEST_NAME = Inr MANIFEST_NAME"
  by (simp add: name_key_Inr lowercase_manifest)
    (simp add: MANIFEST_NAME_def validate_windows_basename_def lit_def is_ascii_str_def is_ascii_char_def
      is_reserved_stem_def basename_stem_def trim_end_matches_def to_ascii_uppercase_def)

section \<open>Properties\<close>

text \<open>
  C14. The manifest check is exact. For a package that \<open>verify_staged_package\<close> assembled, in which no
  artifact has the manifest's own name up to case, and whatever the parser makes of the bytes: with
  a manifest artifact added, the check accepts the package if and only if the bytes parse to a
  manifest of the supported schema whose entries are, in some order, the names and sizes of the
  other artifacts, each once.
\<close>

theorem accepted_manifest_describes_package:
  assumes "assemble_package xll snapshot xll_mode files = Inr package"
    "MANIFEST_NAME \<notin> set (expected_names package)"
  shows "validate_manifest_bytes from_json (artifacts package @ [manifest_artifact b mode]) = Inr () \<longleftrightarrow>
    (\<exists>m. from_json b = Some m \<and> bm_schema m = BUILD_MANIFEST_SCHEMA \<and>
       mset (map (\<lambda>f. (mf_relative_path f, mf_size f)) (bm_files m)) = mset (inventory (artifacts package)))"
proof -
  obtain keys where "assembled (keys, package)" using assemble_package_assembled [OF assms(1)] by blast
  then have "artifacts_ok (artifacts package)" using assms(2) by (rule assembled_artifacts_ok)
  then show ?thesis using manifest_decided unfolding listed_def by blast
qed

text \<open>
  C10. Adding the manifest works. For a JSON library that reads back what it wrote and a package
  that \<open>verify_staged_package\<close> assembled: if an artifact has the manifest's own name up to case, the
  operation is refused for it; otherwise it fails only as obtaining the manifest's permissions
  does, and else returns the package with one more artifact of those permissions, which parses to
  the schema version, every field of the caller's metadata and the inventory of the
  artifacts in their order.
\<close>

theorem build_manifest_added:
  assumes json: "\<And>m. from_input i (artifacts package) = Inr m \<Longrightarrow> \<exists>b. to_json m = Some b \<and> from_json b = Some m"
    and package: "assemble_package xll snapshot xll_mode files = Inr package"
  shows "if MANIFEST_NAME \<in> set (expected_names package)
    then with_build_manifest to_json from_json unix temporary i package = Inl DescribesItself
    else case manifest_permissions unix temporary of
      Inl e \<Rightarrow> with_build_manifest to_json from_json unix temporary i package = Inl e
    | Inr mode \<Rightarrow> \<exists>b. with_build_manifest to_json from_json unix temporary i package = Inr \<lparr>
        artifacts = artifacts package @ [manifest_artifact b mode],
        expected_names = insort_insert MANIFEST_NAME (expected_names package)\<rparr> \<and>
      from_json b = Some \<lparr>bm_schema = BUILD_MANIFEST_SCHEMA, bm_package = in_package i,
        bm_package_version = in_package_version i, bm_artifact = in_artifact i, bm_target = in_target i,
        bm_profile = in_profile i, bm_feature_selection = in_feature_selection i,
        bm_cargo_constraints = in_cargo_constraints i, bm_crt = in_crt i, bm_bundle_sources = in_bundle_sources i,
        bm_bundle_policy = in_bundle_policy i, bm_integrity = in_integrity i,
        bm_files = map (\<lambda>(n, k). \<lparr>mf_relative_path = n, mf_size = k\<rparr>) (inventory (artifacts package))\<rparr>"
proof -
  obtain keys where as: "assembled (keys, package)" using assemble_package_assembled [OF package] by blast
  then have collected: "collect_result manifest_file (artifacts package) =
    (if MANIFEST_NAME \<in> set (expected_names package) then Inl DescribesItself
     else Inr (map (\<lambda>(n, k). \<lparr>mf_relative_path = n, mf_size = k\<rparr>) (inventory (artifacts package))))"
    by (subst collect_files) (auto simp: assembled_def artifact_key_def image_iff intro: sym)
  show ?thesis
  proof (cases "MANIFEST_NAME \<in> set (expected_names package)")
    case True
    then show ?thesis using collected by (simp add: with_build_manifest_def from_input_def)
  next
    case False
    let ?m = "\<lparr>bm_schema = BUILD_MANIFEST_SCHEMA, bm_package = in_package i,
        bm_package_version = in_package_version i, bm_artifact = in_artifact i, bm_target = in_target i,
        bm_profile = in_profile i, bm_feature_selection = in_feature_selection i,
        bm_cargo_constraints = in_cargo_constraints i, bm_crt = in_crt i, bm_bundle_sources = in_bundle_sources i,
        bm_bundle_policy = in_bundle_policy i, bm_integrity = in_integrity i,
        bm_files = map (\<lambda>(n, k). \<lparr>mf_relative_path = n, mf_size = k\<rparr>) (inventory (artifacts package))\<rparr>"
    have m: "from_input i (artifacts package) = Inr ?m" using collected False by (simp add: from_input_def)
    obtain b where b: "to_json ?m = Some b" "from_json b = Some ?m" using json [OF m] by blast
    have "validate_manifest_bytes from_json (artifacts package @ [manifest_artifact b mode]) = Inr ()" for mode
      unfolding manifest_decided [OF assembled_artifacts_ok [OF as False]]
      by (intro exI [of _ ?m] conjI b(2)) (simp_all add: listed_def comp_def case_prod_unfold)
    then have "with_build_manifest to_json from_json unix temporary i package =
        bind_result (manifest_permissions unix temporary) (\<lambda>mode. Inr \<lparr>
          artifacts = artifacts package @ [manifest_artifact b mode],
          expected_names = insort_insert MANIFEST_NAME (expected_names package)\<rparr>)"
      using m b(1) False by (cases package) (simp add: with_build_manifest_def manifest_key manifest_artifact_def [symmetric])
    then show ?thesis using b(2) False by (cases "manifest_permissions unix temporary") auto
  qed
qed

text \<open>A package of one file, with a library that knows one document.\<close>

definition sample_input :: BuildManifestInput where
  "sample_input = \<lparr>in_package = lit ''p'', in_package_version = [], in_artifact = [], in_target = lit ''t'', in_profile = [],
     in_feature_selection = \<lparr>explicit = [], default_features = True, all_features = False, resolved = []\<rparr>,
     in_cargo_constraints = \<lparr>locked = True, frozen = False, offline = False\<rparr>,
     in_crt = \<lparr>requested = [], crt_source = [], effective_rust = [], enforcement = [],
       observed_dynamic_crt_imports = [], consistency = []\<rparr>,
     in_bundle_sources = [],
     in_bundle_policy = \<lparr>strict_paths = True, system_import_policy = [], external_imports = []\<rparr>,
     in_integrity = \<lparr>purpose = [], runtime_verified = False, trust_boundary = []\<rparr>\<rparr>"

definition sample_package :: VerifiedPackage where
  "sample_package = \<lparr>artifacts = [\<lparr>relative_path = Some (lit ''A.xll''), bytes = [1, 2, 3], permissions = Mode 0x180\<rparr>],
     expected_names = [lit ''a.xll'']\<rparr>"

lemma sample_assembled: "assemble_package (Some (lit ''A.xll'')) [1, 2, 3] (Inr (Mode 0x180)) [] = Inr sample_package"
proof -
  have "name_key field (lit ''A.xll'') = Inr (lit ''a.xll'')" for field
    by (simp add: name_key_Inr)
      (simp add: validate_windows_basename_def lit_def is_ascii_str_def is_ascii_char_def is_reserved_stem_def
        basename_stem_def trim_end_matches_def to_ascii_uppercase_def lowercase_def to_ascii_lowercase_def)
  then show ?thesis by (simp add: assemble_package_def artifact_relative_path_def sample_package_def)
qed

lemma sample_free: "MANIFEST_NAME \<notin> set (expected_names sample_package)"
  by (simp add: sample_package_def MANIFEST_NAME_def lit_def)

definition sample_manifest :: "ManifestFile list \<Rightarrow> BuildManifest" where
  "sample_manifest files = (case from_input sample_input [] of Inr m \<Rightarrow> m\<lparr>bm_files := files\<rparr>)"

lemma sample_manifest_fields: "bm_schema (sample_manifest files) = BUILD_MANIFEST_SCHEMA" "bm_files (sample_manifest files) = files"
  by (simp_all add: sample_manifest_def from_input_def)

theorem accepted_manifest_describes_package_witness:
  "validate_manifest_bytes (\<lambda>_. Some (sample_manifest [\<lparr>mf_relative_path = lit ''A.xll'', mf_size = 3\<rparr>]))
     (artifacts sample_package @ [manifest_artifact [] (Mode 0x180)]) = Inr () \<and>
   validate_manifest_bytes (\<lambda>_. Some (sample_manifest [\<lparr>mf_relative_path = lit ''B.xll'', mf_size = 3\<rparr>]))
     (artifacts sample_package @ [manifest_artifact [] (Mode 0x180)]) \<noteq> Inr ()"
  unfolding accepted_manifest_describes_package [OF sample_assembled sample_free]
  by (simp add: sample_manifest_fields sample_package_def inventory_def artifact_size_def lit_def)

theorem build_manifest_added_witness:
  "let document = (case from_input sample_input (artifacts sample_package) of Inr m \<Rightarrow> m) in
   (\<exists>b. with_build_manifest (\<lambda>_. Some []) (\<lambda>_. Some document) True (Inl IoError) sample_input sample_package = Inr \<lparr>
      artifacts = artifacts sample_package @ [manifest_artifact b (Mode 0x180)],
      expected_names = insort_insert MANIFEST_NAME [lit ''a.xll'']\<rparr>) \<and>
   with_build_manifest (\<lambda>_. Some []) (\<lambda>_. Some document) False (Inl IoError) sample_input sample_package = Inl IoError"
proof -
  define document where "document = (case from_input sample_input (artifacts sample_package) of Inr m \<Rightarrow> m)"
  have json: "\<exists>b. Some [] = Some b \<and> Some document = Some m"
    if "from_input sample_input (artifacts sample_package) = Inr m" for m
    using that by (simp add: document_def)
  note added = build_manifest_added [of sample_input sample_package "\<lambda>_. Some []" "\<lambda>_. Some document", OF json sample_assembled]
  have names: "expected_names sample_package = [lit ''a.xll'']" by (simp add: sample_package_def)
  show ?thesis
    using added [of True "Inl IoError"] added [of False "Inl IoError"] sample_free
    unfolding Let_def document_def [symmetric] by (auto simp: manifest_permissions_def names)
qed

end
