(* ===== verification/Ingress.thy ===== *)
theory Ingress
  imports Striped_Gate
begin

text \<open>
  The export ingress of \<open>crates/xlfn/src/ingress.rs\<close>: the phase of the module, the count of
  calls that Excel has inside the library, and the transitions of the phase.
\<close>

section \<open>Phases\<close>

definition PHASE_OPENING :: u8 where "PHASE_OPENING = 0"
definition PHASE_OPEN :: u8 where "PHASE_OPEN = 1"
definition PHASE_CLOSING :: u8 where "PHASE_CLOSING = 2"
definition PHASE_CLOSED :: u8 where "PHASE_CLOSED = 3"

lemmas ingress_phases = PHASE_OPENING_def PHASE_OPEN_def PHASE_CLOSING_def PHASE_CLOSED_def

text \<open>
  The compare-and-exchange loop of \<open>begin_close_with_inner\<close>: an open or opening ingress starts to
  close, any other phase stays.
\<close>

definition close_phase :: "u8 \<Rightarrow> u8" where
  "close_phase p = (if p = PHASE_OPEN \<or> p = PHASE_OPENING then PHASE_CLOSING else p)"

end
