(* ===== verification/Module_Runtime.thy ===== *)
theory Module_Runtime
  imports Ingress Errors
begin

text \<open>
  The module-wide authorities of \<open>crates/xlfn/src/module_runtime.rs\<close>. There is one module
  runtime in a process; a module epoch is identified by the ingress epoch it was opened in. An
  authority is an affine value of the source: the right to close, drain or retain one epoch.
  Here it is a value that the theories count.
\<close>

section \<open>Authorities\<close>

datatype ModuleEpochId = ModuleEpochId (me_epoch: u64)

datatype ModuleAuthority =
  AuthorityClosing ModuleEpochId
| AuthorityDrained ModuleEpochId
| AuthorityRetained ModuleEpochId

datatype ClaimableModuleAuthority =
  ClaimableOpen ModuleEpochId
| ClaimableClosing ModuleEpochId

datatype UnavailableModuleAuthority =
  UnavailableDrained ModuleEpochId
| UnavailableRetained ModuleEpochId

datatype ModuleCleanupReady =
  CleanupClosing ModuleEpochId
| CleanupDrained ModuleEpochId

datatype ModuleCleanupClaim =
  ClaimReady ModuleCleanupReady
| ClaimDeferredOwner
| ClaimRetainedUndrained ModuleEpochId
| ClaimNoModuleAuthority
| ClaimUnavailable

fun authority_id :: "ModuleAuthority \<Rightarrow> ModuleEpochId" where
  "authority_id (AuthorityClosing e) = e"
| "authority_id (AuthorityDrained e) = e"
| "authority_id (AuthorityRetained e) = e"

fun claimable_id :: "ClaimableModuleAuthority \<Rightarrow> ModuleEpochId" where
  "claimable_id (ClaimableOpen e) = e"
| "claimable_id (ClaimableClosing e) = e"

fun unavailable_id :: "UnavailableModuleAuthority \<Rightarrow> ModuleEpochId" where
  "unavailable_id (UnavailableDrained e) = e"
| "unavailable_id (UnavailableRetained e) = e"

fun cleanup_id :: "ModuleCleanupReady \<Rightarrow> ModuleEpochId" where
  "cleanup_id (CleanupClosing e) = e"
| "cleanup_id (CleanupDrained e) = e"

fun classify :: "ModuleAuthority \<Rightarrow> UnavailableModuleAuthority + ClaimableModuleAuthority" where
  "classify (AuthorityClosing e) = Inr (ClaimableClosing e)"
| "classify (AuthorityDrained e) = Inl (UnavailableDrained e)"
| "classify (AuthorityRetained e) = Inl (UnavailableRetained e)"

text \<open>The error of \<open>into_cleanup\<close> is the retained authority.\<close>

fun into_cleanup :: "ModuleAuthority \<Rightarrow> ModuleEpochId + ModuleCleanupReady" where
  "into_cleanup (AuthorityClosing e) = Inr (CleanupClosing e)"
| "into_cleanup (AuthorityDrained e) = Inr (CleanupDrained e)"
| "into_cleanup (AuthorityRetained e) = Inl e"

section \<open>The module\<close>

text \<open>
  What the lifecycle sees of the module: the phase and epoch of the ingress, and whether
  logical quiescence has been certified.
\<close>

record ModuleRuntime =
  ingress_phase :: u8
  ingress_epoch :: u64
  logical_quiescence_certified :: bool

definition is_current :: "ModuleRuntime \<Rightarrow> ModuleEpochId \<Rightarrow> bool" where
  "is_current m e \<longleftrightarrow> ingress_epoch m = me_epoch e"

definition begin_close_effects :: "ModuleEpochId \<Rightarrow> ModuleRuntime \<Rightarrow> ModuleRuntime run" where
  "begin_close_effects e m =
     (if ingress_epoch m \<noteq> me_epoch e then Aborts
      else Returns (m\<lparr>ingress_phase := close_phase (ingress_phase m), logical_quiescence_certified := False\<rparr>))"

text \<open>\<open>ClaimableModuleAuthority::into_closing\<close>: the result is the closing authority of the epoch.\<close>

fun into_closing :: "ClaimableModuleAuthority \<Rightarrow> ModuleRuntime \<Rightarrow> (ModuleEpochId \<times> ModuleRuntime) run" where
  "into_closing (ClaimableOpen e) m = bind_run (begin_close_effects e m) (\<lambda>m. Returns (e, m))"
| "into_closing (ClaimableClosing e) m = Returns (e, m)"

lemma into_closing_id: "into_closing a m = Returns (e, m') \<Longrightarrow> e = claimable_id a"
  by (cases a) auto

lemma into_closing_returns: "is_current m (claimable_id a) \<Longrightarrow> \<exists>m'. into_closing a m = Returns (claimable_id a, m')"
  by (cases a) (auto simp: begin_close_effects_def is_current_def)

lemma classify_id:
  "classify a = Inr c \<Longrightarrow> claimable_id c = authority_id a"
  "classify a = Inl u \<Longrightarrow> unavailable_id u = authority_id a"
  by (cases a; auto)+

end
