(* ===== verification/Lifecycle_State.thy ===== *)
theory Lifecycle_State
  imports Module_Runtime Generation "HOL-Library.Multiset"
begin

text \<open>
  The canonical state of the lifecycle, \<open>crates/xlfn/src/lifecycle/state.rs\<close> with
  \<open>state/authority_slot.rs\<close> and \<open>phase.rs\<close>: the ownership of a generation from its staging to its
  retirement, and the mutations of the state that the lifecycle lock serialises. The add-in's own
  values (shared state, layers, configuration, services) are of the type \<open>'a\<close>.
\<close>

section \<open>Phases and intents\<close>

datatype LifecyclePhase =
  PhaseClosed | PhaseOpening | PhaseOpen | PhaseClosing | PhaseOpenRollbackPending | PhaseQuarantined

definition phase_raw :: "LifecyclePhase \<Rightarrow> u8" where
  "phase_raw p = (case p of PhaseClosed \<Rightarrow> 0 | PhaseOpening \<Rightarrow> 1 | PhaseOpen \<Rightarrow> 2 | PhaseClosing \<Rightarrow> 3
     | PhaseOpenRollbackPending \<Rightarrow> 4 | PhaseQuarantined \<Rightarrow> 5)"

definition phase_from_raw :: "u8 \<Rightarrow> LifecyclePhase run" where
  "phase_from_raw v =
     (if v = 0 then Returns PhaseClosed else if v = 1 then Returns PhaseOpening
      else if v = 2 then Returns PhaseOpen else if v = 3 then Returns PhaseClosing
      else if v = 4 then Returns PhaseOpenRollbackPending else if v = 5 then Returns PhaseQuarantined
      else Aborts)"

datatype HostLifecycleIntent = IntentNone | ExplicitRemovalRequested | ExplicitRemovalComplete

section \<open>Generations and their owners\<close>

text \<open>
  A \<open>PublishedOwner\<close> is the unique owner of an allocation: its address and the value there.
  A publication holds the addresses of the root and of the services.
\<close>

record 'a PublishedOwner =
  pointer :: nat
  pointee :: 'a

record 'a OpeningGeneration =
  og_shared_state :: 'a
  og_layers :: 'a
  init_config :: 'a

record 'a ExecutionGeneration =
  eg_id :: RuntimeGeneration
  eg_shared_state :: 'a
  eg_layers :: 'a

record PublishedGeneration =
  pg_root :: nat
  pg_services :: nat

record 'a OpenGeneration =
  on_generation :: "'a ExecutionGeneration PublishedOwner"
  on_services :: "'a PublishedOwner"
  on_publication :: "PublishedGeneration PublishedOwner"
  on_module_epoch :: ModuleEpochId

record 'a ClosingGeneration =
  cg_generation :: "'a ExecutionGeneration PublishedOwner"
  cg_services :: "'a PublishedOwner"
  cg_publication :: "PublishedGeneration PublishedOwner"

record 'a OpenRetirement =
  rt_generation :: RuntimeGeneration
  rt_services :: "'a PublishedOwner"
  rt_publication :: "PublishedGeneration PublishedOwner"

definition bundle_into_closing :: "'a OpenGeneration \<Rightarrow> 'a ClosingGeneration \<times> ClaimableModuleAuthority" where
  "bundle_into_closing b =
     (\<lparr>cg_generation = on_generation b, cg_services = on_services b, cg_publication = on_publication b\<rparr>,
      ClaimableOpen (on_module_epoch b))"

definition into_retirement ::
    "'a ClosingGeneration \<Rightarrow> 'a ExecutionGeneration PublishedOwner \<times> 'a OpenRetirement" where
  "into_retirement c =
     (cg_generation c,
      \<lparr>rt_generation = eg_id (pointee (cg_generation c)), rt_services = cg_services c,
       rt_publication = cg_publication c\<rparr>)"

subsection \<open>Payloads\<close>

datatype 'a OpeningPayload =
  OpeningEmpty
| OpeningStaged "'a OpeningGeneration"
| OpeningPublished "'a OpenGeneration"

datatype 'a ClosePayload =
  CloseEmpty
| CloseStaged "'a OpeningGeneration"
| ClosePublished "'a ClosingGeneration"
| CloseRetiring "'a OpenRetirement"

datatype ClosedState = Idle | Finalizing RemovalAttemptId bool

datatype 'a OpenAbortPayload = AbortEmpty | AbortStaged "'a OpeningGeneration"

datatype 'a PublishedClosePayload = ActiveClosing "'a ClosingGeneration" | ActiveRetiring "'a OpenRetirement"

datatype OutstandingModuleClaim = OutstandingModuleClaim (oc_attempt: RemovalAttemptId) (oc_module_epoch: ModuleEpochId)

datatype ReturnedModuleClaim = ReturnedModuleClaim (rc_attempt: RemovalAttemptId) (rc_authority: ModuleAuthority)

datatype RemovalClaimState = Outstanding OutstandingModuleClaim | Returned ReturnedModuleClaim

datatype 'a CloseResources =
  AwaitingOpenAbort OpenAttemptId "'a OpenAbortPayload"
| Unowned "'a ClosePayload"
| Available "'a ClosePayload" ClaimableModuleAuthority
| Claimed "'a ClosePayload" RemovalClaimState
| Unavailable "'a ClosePayload" UnavailableModuleAuthority

datatype CleanupSelection =
  SelectReady ModuleCleanupReady
| SelectRetainedUndrained ModuleEpochId
| SelectNone
| SelectDeferredOwner
| SelectAwaitingOpenAbort

datatype 'a ActiveOpeningClose =
  AwaitingAbort "'a OpenAbortPayload"
| ActivePublished "'a PublishedClosePayload" ClaimableModuleAuthority

text \<open>An active opening carries its attempt and whether a quarantine has been requested.\<close>

datatype 'a ClosingState =
  OpeningActive OpenAttemptId bool "'a ActiveOpeningClose"
| ClosingReady "'a CloseResources"

datatype 'a LifecycleState =
  Closed ClosedState
| Opening OpenAttemptId "'a OpeningPayload"
| Open "'a OpenGeneration"
| Closing "'a ClosingState"
| OpenRollbackPending "'a CloseResources"
| Quarantined "'a CloseResources"

subsection \<open>Operations on payloads\<close>

fun into_close_payload :: "'a OpenAbortPayload \<Rightarrow> 'a ClosePayload" where
  "into_close_payload AbortEmpty = CloseEmpty"
| "into_close_payload (AbortStaged g) = CloseStaged g"

fun published_into_close_payload :: "'a PublishedClosePayload \<Rightarrow> 'a ClosePayload" where
  "published_into_close_payload (ActiveClosing c) = ClosePublished c"
| "published_into_close_payload (ActiveRetiring r) = CloseRetiring r"

fun into_close_resources :: "OpenAttemptId \<Rightarrow> 'a OpeningPayload \<Rightarrow> 'a CloseResources" where
  "into_close_resources attempt OpeningEmpty = AwaitingOpenAbort attempt AbortEmpty"
| "into_close_resources attempt (OpeningStaged g) = AwaitingOpenAbort attempt (AbortStaged g)"
| "into_close_resources attempt (OpeningPublished b) =
     (case bundle_into_closing b of (closing, authority) \<Rightarrow> Available (ClosePublished closing) authority)"

fun into_closing_state :: "OpenAttemptId \<Rightarrow> 'a OpeningPayload \<Rightarrow> 'a ClosingState" where
  "into_closing_state attempt OpeningEmpty = OpeningActive attempt False (AwaitingAbort AbortEmpty)"
| "into_closing_state attempt (OpeningStaged g) = OpeningActive attempt False (AwaitingAbort (AbortStaged g))"
| "into_closing_state attempt (OpeningPublished b) =
     (case bundle_into_closing b of (closing, authority) \<Rightarrow>
        OpeningActive attempt False (ActivePublished (ActiveClosing closing) authority))"

fun opening_take_staged :: "'a OpeningPayload \<Rightarrow> 'a OpeningGeneration option \<times> 'a OpeningPayload" where
  "opening_take_staged (OpeningStaged g) = (Some g, OpeningEmpty)"
| "opening_take_staged p = (None, p)"

fun close_take_staged :: "'a ClosePayload \<Rightarrow> 'a OpeningGeneration option \<times> 'a ClosePayload" where
  "close_take_staged (CloseStaged g) = (Some g, CloseEmpty)"
| "close_take_staged p = (None, p)"

fun abort_take_staged :: "'a OpenAbortPayload \<Rightarrow> 'a OpeningGeneration option \<times> 'a OpenAbortPayload" where
  "abort_take_staged (AbortStaged g) = (Some g, AbortEmpty)"
| "abort_take_staged AbortEmpty = (None, AbortEmpty)"

fun close_take_retirement :: "'a ClosePayload \<Rightarrow> 'a OpenRetirement option \<times> 'a ClosePayload" where
  "close_take_retirement (CloseRetiring r) = (Some r, CloseEmpty)"
| "close_take_retirement p = (None, p)"

fun close_is_published :: "'a ClosePayload \<Rightarrow> bool" where
  "close_is_published (ClosePublished _) = True"
| "close_is_published _ = False"

text \<open>The closure \<open>retire\<close> of \<open>into_retiring\<close>.\<close>

fun retire :: "'a ClosePayload \<Rightarrow> 'a ExecutionGeneration PublishedOwner option \<times> 'a ClosePayload" where
  "retire (ClosePublished c) = (case into_retirement c of (root, r) \<Rightarrow> (Some root, CloseRetiring r))"
| "retire p = (None, p)"

section \<open>Removal claims\<close>

fun claim_attempt :: "RemovalClaimState \<Rightarrow> RemovalAttemptId" where
  "claim_attempt (Outstanding c) = oc_attempt c"
| "claim_attempt (Returned c) = rc_attempt c"

fun claim_module_epoch :: "RemovalClaimState \<Rightarrow> ModuleEpochId" where
  "claim_module_epoch (Outstanding c) = oc_module_epoch c"
| "claim_module_epoch (Returned c) = authority_id (rc_authority c)"

text \<open>\<open>require_lifecycle_invariant\<close> stops the process.\<close>

definition require_lifecycle_invariant :: "bool \<Rightarrow> unit run" where
  "require_lifecycle_invariant b = (if b then Returns () else Aborts)"

definition validate_removal_owner :: "RemovalAttemptId \<Rightarrow> RemovalAttemptId \<Rightarrow> RemovalAttemptId run" where
  "validate_removal_owner expected actual =
     bind_run (require_lifecycle_invariant (expected = actual)) (\<lambda>_. Returns expected)"

definition return_authority :: "OutstandingModuleClaim \<Rightarrow> ModuleAuthority \<Rightarrow> ReturnedModuleClaim run" where
  "return_authority claim authority =
     bind_run (require_lifecycle_invariant (authority_id authority = oc_module_epoch claim)) (\<lambda>_.
       Returns (ReturnedModuleClaim (oc_attempt claim) authority))"

definition with_authority :: "'a ClosePayload \<Rightarrow> ModuleAuthority \<Rightarrow> 'a CloseResources" where
  "with_authority payload authority = (case classify authority of
     Inr c \<Rightarrow> Available payload c
   | Inl u \<Rightarrow> Unavailable payload u)"

text \<open>\<open>ClaimedClose::release\<close>: an authority that was returned goes back to the resources.\<close>

definition claimed_release ::
    "'a ClosePayload \<Rightarrow> RemovalClaimState \<Rightarrow> RemovalAttemptId \<Rightarrow> 'a CloseResources run" where
  "claimed_release payload claim expected =
     bind_run (validate_removal_owner (claim_attempt claim) expected) (\<lambda>_.
       Returns (case claim of
         Returned c \<Rightarrow> with_authority payload (rc_authority c)
       | Outstanding _ \<Rightarrow> Unowned payload))"

text \<open>\<open>AvailableClose::claim\<close> starts to close the epoch.\<close>

definition available_claim ::
    "'a ClosePayload \<Rightarrow> ClaimableModuleAuthority \<Rightarrow> RemovalAttemptId \<Rightarrow> ModuleRuntime \<Rightarrow>
     ('a CloseResources \<times> ModuleEpochId \<times> ModuleRuntime) run" where
  "available_claim payload authority attempt m =
     (let module_epoch = claimable_id authority in
      bind_run (into_closing authority m) (\<lambda>(closing, m).
        Returns (Claimed payload (Outstanding (OutstandingModuleClaim attempt module_epoch)), closing, m)))"

section \<open>Closing resources\<close>

fun resources_payload :: "'a CloseResources \<Rightarrow> 'a ClosePayload option" where
  "resources_payload (AwaitingOpenAbort _ _) = None"
| "resources_payload (Unowned p) = Some p"
| "resources_payload (Available p _) = Some p"
| "resources_payload (Claimed p _) = Some p"
| "resources_payload (Unavailable p _) = Some p"

definition resources_is_published :: "'a CloseResources \<Rightarrow> bool" where
  "resources_is_published r = (case resources_payload r of None \<Rightarrow> False | Some p \<Rightarrow> close_is_published p)"

fun resources_module_epoch_id :: "'a CloseResources \<Rightarrow> ModuleEpochId option" where
  "resources_module_epoch_id (Available _ a) = Some (claimable_id a)"
| "resources_module_epoch_id (Claimed _ c) = Some (claim_module_epoch c)"
| "resources_module_epoch_id (Unavailable _ u) = Some (unavailable_id u)"
| "resources_module_epoch_id (AwaitingOpenAbort _ _) = None"
| "resources_module_epoch_id (Unowned _) = None"

fun resources_removal_attempt :: "'a CloseResources \<Rightarrow> RemovalAttemptId option" where
  "resources_removal_attempt (Claimed _ c) = Some (claim_attempt c)"
| "resources_removal_attempt _ = None"

text \<open>
  \<open>CloseResources::take_cleanup\<close>. Turning an open lease into a closing authority closes the
  ingress; so the operation has the module as a parameter.
\<close>

fun take_cleanup :: "'a CloseResources \<Rightarrow> ModuleRuntime \<Rightarrow> (CleanupSelection \<times> 'a CloseResources \<times> ModuleRuntime) run" where
  "take_cleanup (AwaitingOpenAbort a p) m = Returns (SelectAwaitingOpenAbort, AwaitingOpenAbort a p, m)"
| "take_cleanup (Claimed p (Outstanding c)) m = Returns (SelectDeferredOwner, Claimed p (Outstanding c), m)"
| "take_cleanup (Available p authority) m =
     bind_run (into_closing authority m) (\<lambda>(e, m). Returns (SelectReady (CleanupClosing e), Unowned p, m))"
| "take_cleanup (Unavailable p (UnavailableDrained e)) m = Returns (SelectReady (CleanupDrained e), Unowned p, m)"
| "take_cleanup (Unavailable p (UnavailableRetained e)) m =
     Returns (SelectRetainedUndrained e, Unavailable p (UnavailableRetained e), m)"
| "take_cleanup (Claimed p (Returned c)) m =
     (let module_epoch = authority_id (rc_authority c) in
      case into_cleanup (rc_authority c) of
        Inr ready \<Rightarrow>
          Returns (SelectReady ready, Claimed p (Outstanding (OutstandingModuleClaim (rc_attempt c) module_epoch)), m)
      | Inl retained \<Rightarrow>
          Returns (SelectRetainedUndrained retained,
            Claimed p (Returned (ReturnedModuleClaim (rc_attempt c) (AuthorityRetained retained))), m))"
| "take_cleanup (Unowned p) m = Returns (SelectNone, Unowned p, m)"

fun resources_release :: "'a CloseResources \<Rightarrow> RemovalAttemptId \<Rightarrow> 'a CloseResources run" where
  "resources_release (Claimed p c) expected = claimed_release p c expected"
| "resources_release _ expected = Aborts"

datatype FinalRemovalReady = Committed RuntimeGeneration ModuleEpochId | Uncommitted

text \<open>
  \<open>services_is_none\<close> stands for \<open>GenerationServices::is_none\<close>: nothing is left of the services of
  the retiring generation.
\<close>

fun resources_final_removal_ready ::
    "('a \<Rightarrow> bool) \<Rightarrow> ModuleRuntime \<Rightarrow> 'a CloseResources \<Rightarrow> RemovalAttemptId \<Rightarrow> FinalRemovalReady option" where
  "resources_final_removal_ready services_is_none m (Claimed (CloseRetiring r) (Outstanding c)) expected =
     (if oc_attempt c = expected \<and> services_is_none (pointee (rt_services r)) \<and> is_current m (oc_module_epoch c)
      then Some (Committed (rt_generation r) (oc_module_epoch c)) else None)"
| "resources_final_removal_ready services_is_none m (Claimed CloseEmpty (Outstanding c)) expected =
     (if oc_attempt c = expected then Some Uncommitted else None)"
| "resources_final_removal_ready services_is_none m _ expected = None"

fun resources_open_rollback_ready :: "'a CloseResources \<Rightarrow> RemovalAttemptId \<Rightarrow> bool" where
  "resources_open_rollback_ready (Claimed CloseEmpty (Outstanding c)) expected \<longleftrightarrow> oc_attempt c = expected"
| "resources_open_rollback_ready _ expected \<longleftrightarrow> False"

fun on_payload :: "('a ClosePayload \<Rightarrow> 'b option \<times> 'a ClosePayload) \<Rightarrow> 'a CloseResources \<Rightarrow> 'b option \<times> 'a CloseResources" where
  "on_payload f (AwaitingOpenAbort a p) = (None, AwaitingOpenAbort a p)"
| "on_payload f (Unowned p) = (let (x, p) = f p in (x, Unowned p))"
| "on_payload f (Available p a) = (let (x, p) = f p in (x, Available p a))"
| "on_payload f (Claimed p c) = (let (x, p) = f p in (x, Claimed p c))"
| "on_payload f (Unavailable p u) = (let (x, p) = f p in (x, Unavailable p u))"

fun resources_take_staged :: "'a CloseResources \<Rightarrow> 'a OpeningGeneration option \<times> 'a CloseResources" where
  "resources_take_staged (AwaitingOpenAbort a p) = (let (x, p) = abort_take_staged p in (x, AwaitingOpenAbort a p))"
| "resources_take_staged r = on_payload close_take_staged r"

definition resources_take_retirement :: "'a CloseResources \<Rightarrow> 'a OpenRetirement option \<times> 'a CloseResources" where
  "resources_take_retirement = on_payload close_take_retirement"

definition resources_into_retiring ::
    "'a CloseResources \<Rightarrow> 'a ExecutionGeneration PublishedOwner option \<times> 'a CloseResources" where
  "resources_into_retiring = on_payload retire"

section \<open>The closing state\<close>

fun active_resolve :: "OpenAttemptId \<Rightarrow> 'a ActiveOpeningClose \<Rightarrow> 'a CloseResources" where
  "active_resolve attempt (AwaitingAbort p) = AwaitingOpenAbort attempt p"
| "active_resolve attempt (ActivePublished p authority) = Available (published_into_close_payload p) authority"

fun closing_open_attempt :: "'a ClosingState \<Rightarrow> OpenAttemptId option" where
  "closing_open_attempt (OpeningActive a _ _) = Some a"
| "closing_open_attempt (ClosingReady _) = None"

fun closing_module_epoch_id :: "'a ClosingState \<Rightarrow> ModuleEpochId option" where
  "closing_module_epoch_id (OpeningActive _ _ (ActivePublished _ authority)) = Some (claimable_id authority)"
| "closing_module_epoch_id (OpeningActive _ _ (AwaitingAbort _)) = None"
| "closing_module_epoch_id (ClosingReady r) = resources_module_epoch_id r"

fun closing_removal_attempt :: "'a ClosingState \<Rightarrow> RemovalAttemptId option" where
  "closing_removal_attempt (OpeningActive _ _ _) = None"
| "closing_removal_attempt (ClosingReady r) = resources_removal_attempt r"

fun closing_has_current_generation :: "'a ClosingState \<Rightarrow> bool" where
  "closing_has_current_generation (OpeningActive _ _ (ActivePublished (ActiveClosing _) _)) = True"
| "closing_has_current_generation (OpeningActive _ _ _) = False"
| "closing_has_current_generation (ClosingReady r) = resources_is_published r"

fun resolve_open_failure :: "'a ClosingState \<Rightarrow> 'a LifecycleState" where
  "resolve_open_failure (OpeningActive attempt quarantine_requested resources) =
     (let resources = active_resolve attempt resources in
      if quarantine_requested then Quarantined resources else Closing (ClosingReady resources))"
| "resolve_open_failure (ClosingReady resources) = Closing (ClosingReady resources)"

fun closing_take_cleanup ::
    "'a ClosingState \<Rightarrow> ModuleRuntime \<Rightarrow> (CleanupSelection \<times> 'a ClosingState \<times> ModuleRuntime) run" where
  "closing_take_cleanup (OpeningActive a q r) m = Returns (SelectNone, OpeningActive a q r, m)"
| "closing_take_cleanup (ClosingReady r) m =
     bind_run (take_cleanup r m) (\<lambda>(selection, r, m). Returns (selection, ClosingReady r, m))"

fun request_quarantine :: "'a ClosingState \<Rightarrow> 'a LifecycleState" where
  "request_quarantine (OpeningActive attempt _ resources) = Closing (OpeningActive attempt True resources)"
| "request_quarantine (ClosingReady resources) = Quarantined resources"

fun closing_into_retiring :: "'a ClosingState \<Rightarrow> 'a ExecutionGeneration PublishedOwner option \<times> 'a ClosingState" where
  "closing_into_retiring (OpeningActive a q (ActivePublished (ActiveClosing c) authority)) =
     (case into_retirement c of (root, r) \<Rightarrow>
        (Some root, OpeningActive a q (ActivePublished (ActiveRetiring r) authority)))"
| "closing_into_retiring (OpeningActive a q r) = (None, OpeningActive a q r)"
| "closing_into_retiring (ClosingReady r) = (let (g, r) = resources_into_retiring r in (g, ClosingReady r))"

fun closing_take_staged :: "'a ClosingState \<Rightarrow> 'a OpeningGeneration option \<times> 'a ClosingState" where
  "closing_take_staged (OpeningActive a q (AwaitingAbort p)) =
     (let (x, p) = abort_take_staged p in (x, OpeningActive a q (AwaitingAbort p)))"
| "closing_take_staged (OpeningActive a q r) = (None, OpeningActive a q r)"
| "closing_take_staged (ClosingReady r) = (let (x, r) = resources_take_staged r in (x, ClosingReady r))"

fun closing_take_retirement :: "'a ClosingState \<Rightarrow> 'a OpenRetirement option \<times> 'a ClosingState" where
  "closing_take_retirement (OpeningActive a q r) = (None, OpeningActive a q r)"
| "closing_take_retirement (ClosingReady r) = (let (x, r) = resources_take_retirement r in (x, ClosingReady r))"

section \<open>The lifecycle state\<close>

fun lifecycle_phase :: "'a LifecycleState \<Rightarrow> LifecyclePhase" where
  "lifecycle_phase (Closed _) = PhaseClosed"
| "lifecycle_phase (Opening _ _) = PhaseOpening"
| "lifecycle_phase (Open _) = PhaseOpen"
| "lifecycle_phase (Closing _) = PhaseClosing"
| "lifecycle_phase (OpenRollbackPending _) = PhaseOpenRollbackPending"
| "lifecycle_phase (Quarantined _) = PhaseQuarantined"

fun state_open_attempt :: "'a LifecycleState \<Rightarrow> OpenAttemptId option" where
  "state_open_attempt (Opening a _) = Some a"
| "state_open_attempt (Closing c) = closing_open_attempt c"
| "state_open_attempt _ = None"

fun state_protocol_generation :: "RuntimeGeneration option \<Rightarrow> 'a LifecycleState \<Rightarrow> RuntimeGeneration option" where
  "state_protocol_generation last_committed (Opening a _) = Some (into_runtime_generation a)"
| "state_protocol_generation last_committed (Open b) = Some (eg_id (pointee (on_generation b)))"
| "state_protocol_generation last_committed (Closing c) =
     (case closing_open_attempt c of Some a \<Rightarrow> Some (into_runtime_generation a) | None \<Rightarrow> last_committed)"
| "state_protocol_generation last_committed (OpenRollbackPending _) = last_committed"
| "state_protocol_generation last_committed (Closed _) = None"
| "state_protocol_generation last_committed (Quarantined _) = None"

fun state_has_current_generation :: "'a LifecycleState \<Rightarrow> bool" where
  "state_has_current_generation (Open _) = True"
| "state_has_current_generation (Opening _ (OpeningPublished _)) = True"
| "state_has_current_generation (Opening _ _) = False"
| "state_has_current_generation (Closing c) = closing_has_current_generation c"
| "state_has_current_generation (OpenRollbackPending r) = resources_is_published r"
| "state_has_current_generation (Quarantined r) = resources_is_published r"
| "state_has_current_generation (Closed _) = False"

fun state_module_epoch_id :: "'a LifecycleState \<Rightarrow> ModuleEpochId option" where
  "state_module_epoch_id (Opening _ (OpeningPublished b)) = Some (on_module_epoch b)"
| "state_module_epoch_id (Opening _ _) = None"
| "state_module_epoch_id (Open b) = Some (on_module_epoch b)"
| "state_module_epoch_id (Closing c) = closing_module_epoch_id c"
| "state_module_epoch_id (OpenRollbackPending r) = resources_module_epoch_id r"
| "state_module_epoch_id (Quarantined r) = resources_module_epoch_id r"
| "state_module_epoch_id (Closed _) = None"

fun state_removal_attempt :: "'a LifecycleState \<Rightarrow> RemovalAttemptId option" where
  "state_removal_attempt (Closed (Finalizing a _)) = Some a"
| "state_removal_attempt (Closing c) = closing_removal_attempt c"
| "state_removal_attempt (OpenRollbackPending r) = resources_removal_attempt r"
| "state_removal_attempt (Quarantined r) = resources_removal_attempt r"
| "state_removal_attempt (Closed Idle) = None"
| "state_removal_attempt (Opening _ _) = None"
| "state_removal_attempt (Open _) = None"

fun take_opening :: "'a LifecycleState \<Rightarrow> 'a OpeningGeneration option \<times> 'a LifecycleState" where
  "take_opening (Opening a p) = (let (x, p) = opening_take_staged p in (x, Opening a p))"
| "take_opening (Closing c) = (let (x, c) = closing_take_staged c in (x, Closing c))"
| "take_opening (OpenRollbackPending r) = (let (x, r) = resources_take_staged r in (x, OpenRollbackPending r))"
| "take_opening (Quarantined r) = (let (x, r) = resources_take_staged r in (x, Quarantined r))"
| "take_opening (Closed c) = (None, Closed c)"
| "take_opening (Open b) = (None, Open b)"

fun take_retirement :: "'a LifecycleState \<Rightarrow> 'a OpenRetirement option \<times> 'a LifecycleState" where
  "take_retirement (Closing c) = (let (x, c) = closing_take_retirement c in (x, Closing c))"
| "take_retirement (OpenRollbackPending r) = (let (x, r) = resources_take_retirement r in (x, OpenRollbackPending r))"
| "take_retirement (Quarantined r) = (let (x, r) = resources_take_retirement r in (x, Quarantined r))"
| "take_retirement (Closed c) = (None, Closed c)"
| "take_retirement (Open b) = (None, Open b)"
| "take_retirement (Opening a p) = (None, Opening a p)"

section \<open>The core\<close>

record 'a LifecycleCore =
  state :: "'a LifecycleState"
  host_intent :: HostLifecycleIntent
  next_lifecycle_attempt :: u64
  next_removal_attempt :: RemovalAttemptId
  last_committed_generation :: "RuntimeGeneration option"
  removal_epoch :: u64

definition core_new :: "'a LifecycleCore" where
  "core_new = \<lparr>state = Closed Idle, host_intent = IntentNone, next_lifecycle_attempt = 1,
     next_removal_attempt = removal_attempt_one, last_committed_generation = None, removal_epoch = 0\<rparr>"

definition core_final_removal_ready ::
    "('a \<Rightarrow> bool) \<Rightarrow> ModuleRuntime \<Rightarrow> 'a LifecycleCore \<Rightarrow> RemovalAttemptId \<Rightarrow> FinalRemovalReady option" where
  "core_final_removal_ready services_is_none m core expected = (case state core of
     Closing (ClosingReady r) \<Rightarrow> resources_final_removal_ready services_is_none m r expected
   | _ \<Rightarrow> None)"

definition core_open_rollback_ready :: "'a LifecycleCore \<Rightarrow> RemovalAttemptId \<Rightarrow> bool" where
  "core_open_rollback_ready core expected = (case state core of
     OpenRollbackPending r \<Rightarrow> resources_open_rollback_ready r expected
   | Closing (ClosingReady r) \<Rightarrow> resources_open_rollback_ready r expected
   | _ \<Rightarrow> False)"

definition protocol_generation :: "'a LifecycleCore \<Rightarrow> RuntimeGeneration option" where
  "protocol_generation core = state_protocol_generation (last_committed_generation core) (state core)"

definition matches_latest_open_attempt :: "'a LifecycleCore \<Rightarrow> RuntimeGeneration \<Rightarrow> bool" where
  "matches_latest_open_attempt core generation \<longleftrightarrow>
     checked_add (runtime_generation_get generation) 1 = Some (next_lifecycle_attempt core)"

definition into_completed_removal_intent :: "'a LifecycleCore \<Rightarrow> bool" where
  "into_completed_removal_intent core \<longleftrightarrow> state core = Closed Idle \<and> host_intent core = ExplicitRemovalComplete"

text \<open>
  A mutation of the core has an effect on the projection that readers see: it is kept, cleared
  or set to the address of a publication.
\<close>

datatype TransitionEffect = Keep | ClearPublication | Publish nat

definition publish_effect :: "'a OpenGeneration \<Rightarrow> TransitionEffect" where
  "publish_effect b = Publish (pointer (on_publication b))"

definition OPEN_PHASE :: nat where "OPEN_PHASE = from_ascii8 ''OPENPHAS''"
definition ATTEMPT_OVERFLOW :: nat where "ATTEMPT_OVERFLOW = from_ascii8 ''ATTMOVFL''"
definition ATTEMPT_ZERO :: nat where "ATTEMPT_ZERO = from_ascii8 ''ATTMZERO''"
definition OPEN_STATE :: nat where "OPEN_STATE = from_ascii8 ''OPENSTAT''"
definition CLOSE_RUNTIME :: nat where "CLOSE_RUNTIME = from_ascii8 ''CLOSERUN''"
definition OPEN_ROLLBACK_PHASE :: nat where "OPEN_ROLLBACK_PHASE = from_ascii8 ''OPRBPHAS''"

subsection \<open>Opening\<close>

definition set_host_intent :: "HostLifecycleIntent \<Rightarrow> 'a LifecycleCore \<Rightarrow> 'a LifecycleCore \<times> TransitionEffect" where
  "set_host_intent intent core = (core\<lparr>host_intent := intent\<rparr>, Keep)"

definition advance_removal_epoch :: "'a LifecycleCore \<Rightarrow> ('a LifecycleCore \<times> TransitionEffect) run" where
  "advance_removal_epoch core =
     bind_run (unwrap_or_abort (checked_add (removal_epoch core) 1)) (\<lambda>e. Returns (core\<lparr>removal_epoch := e\<rparr>, Keep))"

definition begin_opening_if_closed ::
    "RemovalEpoch \<Rightarrow> 'a LifecycleCore \<Rightarrow> OpenAttemptId XllResult \<times> 'a LifecycleCore \<times> TransitionEffect" where
  "begin_opening_if_closed expected core =
     (if \<not> (state core = Closed Idle \<and> RemovalEpoch (removal_epoch core) = expected)
      then (Inl (Internal OPEN_PHASE), core, Keep)
      else case checked_add (next_lifecycle_attempt core) 1 of
          None \<Rightarrow> (Inl (Internal ATTEMPT_OVERFLOW), core, Keep)
        | Some next \<Rightarrow> (case open_attempt_new (next_lifecycle_attempt core) of
            None \<Rightarrow> (Inl (Internal ATTEMPT_ZERO), core, Keep)
          | Some attempt \<Rightarrow>
              (Inr attempt, core\<lparr>next_lifecycle_attempt := next, host_intent := IntentNone,
                 state := Opening attempt OpeningEmpty\<rparr>, Keep)))"

definition stage_opening_generation_locked ::
    "'a OpeningGeneration \<Rightarrow> 'a LifecycleCore \<Rightarrow>
     ((XllError \<times> 'a OpeningGeneration) + unit) \<times> 'a LifecycleCore \<times> TransitionEffect" where
  "stage_opening_generation_locked opening core = (case state core of
     Opening attempt OpeningEmpty \<Rightarrow> (Inr (), core\<lparr>state := Opening attempt (OpeningStaged opening)\<rparr>, Keep)
   | _ \<Rightarrow> (Inl (Internal OPEN_STATE, opening), core, Keep))"

definition stage_opening_generation ::
    "OpenAttemptId \<Rightarrow> 'a OpeningGeneration \<Rightarrow> 'a LifecycleCore \<Rightarrow>
     ((XllError \<times> 'a OpeningGeneration) + unit) \<times> 'a LifecycleCore \<times> TransitionEffect" where
  "stage_opening_generation attempt opening core =
     (if state_open_attempt (state core) \<noteq> Some attempt \<or> lifecycle_phase (state core) \<noteq> PhaseOpening
      then (Inl (XllError.Closing, opening), core, Keep)
      else stage_opening_generation_locked opening core)"

text \<open>
  \<open>publish_opening_generation_locked\<close> allocates the root, the services and the publication; the
  addresses are those the allocator returns. A refusal gives everything back.
\<close>

record 'a PublishOpeningError =
  pe_error :: XllError
  pe_opening :: "'a OpeningGeneration option"
  pe_services :: 'a
  pe_module_epoch :: ModuleEpochId

definition new_bundle ::
    "nat \<times> nat \<times> nat \<Rightarrow> RuntimeGeneration \<Rightarrow> 'a OpeningGeneration \<Rightarrow> 'a \<Rightarrow> ModuleEpochId \<Rightarrow> 'a OpenGeneration" where
  "new_bundle addresses generation opening services epoch = (case addresses of (root, srv, pub) \<Rightarrow>
     \<lparr>on_generation = \<lparr>pointer = root, pointee = \<lparr>eg_id = generation,
        eg_shared_state = og_shared_state opening, eg_layers = og_layers opening\<rparr>\<rparr>,
      on_services = \<lparr>pointer = srv, pointee = services\<rparr>,
      on_publication = \<lparr>pointer = pub, pointee = \<lparr>pg_root = root, pg_services = srv\<rparr>\<rparr>,
      on_module_epoch = epoch\<rparr>)"

definition publish_opening_generation_locked ::
    "nat \<times> nat \<times> nat \<Rightarrow> RuntimeGeneration \<Rightarrow> 'a \<Rightarrow> ModuleEpochId \<Rightarrow> 'a LifecycleCore \<Rightarrow>
     ('a PublishOpeningError + unit) \<times> 'a LifecycleCore \<times> TransitionEffect" where
  "publish_opening_generation_locked addresses generation services epoch core =
     (let refused = (let (opening, st) = take_opening (state core) in
        (Inl \<lparr>pe_error = Internal OPEN_STATE, pe_opening = opening, pe_services = services, pe_module_epoch = epoch\<rparr>,
         core\<lparr>state := st\<rparr>, Keep)) in
      if state_has_current_generation (state core) then refused
      else case state core of
          Opening attempt _ \<Rightarrow> (case take_opening (state core) of
              (None, st) \<Rightarrow> (Inl \<lparr>pe_error = Internal OPEN_STATE, pe_opening = None, pe_services = services,
                 pe_module_epoch = epoch\<rparr>, core\<lparr>state := st\<rparr>, Keep)
            | (Some opening, st) \<Rightarrow>
                (Inr (), core\<lparr>state := Opening attempt (OpeningPublished
                   (new_bundle addresses generation opening services epoch))\<rparr>, Keep))
        | _ \<Rightarrow> refused)"

definition commit_open ::
    "RuntimeGeneration \<Rightarrow> 'a LifecycleCore \<Rightarrow> OpenAttemptId XllResult \<times> 'a LifecycleCore \<times> TransitionEffect" where
  "commit_open generation core = (case state core of
     Opening attempt (OpeningPublished b) \<Rightarrow>
       if into_runtime_generation attempt \<noteq> generation \<or> eg_id (pointee (on_generation b)) \<noteq> generation
       then (Inl (Internal OPEN_STATE), core, Keep)
       else (Inr attempt, core\<lparr>last_committed_generation := Some generation, state := Open b\<rparr>, publish_effect b)
   | _ \<Rightarrow> (Inl (Internal OPEN_STATE), core, Keep))"

datatype OpenFailureDisposition = RollbackRequired | ClosingOwnsCleanup

definition record_open_failure ::
    "'a LifecycleCore \<Rightarrow> OpenFailureDisposition \<times> 'a LifecycleCore \<times> TransitionEffect" where
  "record_open_failure core = (case state core of
     Opening attempt payload \<Rightarrow>
       (RollbackRequired, core\<lparr>state := OpenRollbackPending (into_close_resources attempt payload)\<rparr>, Keep)
   | OpenRollbackPending r \<Rightarrow> (RollbackRequired, core, Keep)
   | Closing c \<Rightarrow> (ClosingOwnsCleanup, core\<lparr>state := resolve_open_failure c\<rparr>, Keep)
   | _ \<Rightarrow> (ClosingOwnsCleanup, core, Keep))"

subsection \<open>Closing\<close>

datatype CloseRequestDisposition = ClosedIdle | DispFinalizing | DispClosing | DispQuarantined

definition request_closing :: "'a LifecycleCore \<Rightarrow> CloseRequestDisposition \<times> 'a LifecycleCore \<times> TransitionEffect" where
  "request_closing core = (case state core of
     Closed Idle \<Rightarrow> (ClosedIdle, core, Keep)
   | Opening attempt payload \<Rightarrow>
       (DispClosing, core\<lparr>state := Closing (into_closing_state attempt payload)\<rparr>, ClearPublication)
   | Open b \<Rightarrow> (case bundle_into_closing b of (closing, authority) \<Rightarrow>
       (DispClosing, core\<lparr>state := Closing (ClosingReady (Available (ClosePublished closing) authority))\<rparr>,
        ClearPublication))
   | Closing c \<Rightarrow> (DispClosing, core, Keep)
   | OpenRollbackPending r \<Rightarrow> (DispClosing, core\<lparr>state := Closing (ClosingReady r)\<rparr>, ClearPublication)
   | Quarantined r \<Rightarrow> (DispQuarantined, core, Keep)
   | Closed (Finalizing _ _) \<Rightarrow> (DispFinalizing, core, Keep))"

text \<open>The claim carries the attempt and the closing authority of the epoch.\<close>

definition issue_claim ::
    "('a CloseResources \<Rightarrow> 'a LifecycleState) \<Rightarrow> 'a ClosePayload \<Rightarrow> ClaimableModuleAuthority \<Rightarrow> ModuleRuntime \<Rightarrow>
     'a LifecycleCore \<Rightarrow>
     ((RemovalAttemptId \<times> ModuleEpochId) option \<times> 'a LifecycleCore \<times> TransitionEffect \<times> ModuleRuntime) run" where
  "issue_claim into payload authority m core =
     (let attempt = next_removal_attempt core in
      bind_run (unwrap_or_abort (removal_attempt_checked_next attempt)) (\<lambda>next.
      bind_run (available_claim payload authority attempt m) (\<lambda>(resources, closing, m).
        Returns (Some (attempt, closing), core\<lparr>next_removal_attempt := next, state := into resources\<rparr>, Keep, m))))"

definition claim_removal ::
    "ModuleRuntime \<Rightarrow> 'a LifecycleCore \<Rightarrow>
     ((RemovalAttemptId \<times> ModuleEpochId) option \<times> 'a LifecycleCore \<times> TransitionEffect \<times> ModuleRuntime) run" where
  "claim_removal m core = (case state core of
     Closing (ClosingReady (Available payload authority)) \<Rightarrow>
       issue_claim (\<lambda>r. Closing (ClosingReady r)) payload authority m core
   | OpenRollbackPending (Available payload authority) \<Rightarrow> issue_claim OpenRollbackPending payload authority m core
   | _ \<Rightarrow> Returns (None, core, Keep, m))"

datatype RollbackDecision =
  DecideClosedIdle | DecideClosingOwnsCleanup | DecideUnavailable | DecideWait
| DecideClaim "RemovalAttemptId \<times> ModuleEpochId"

definition rollback_decision ::
    "ModuleRuntime \<Rightarrow> 'a LifecycleCore \<Rightarrow> (RollbackDecision \<times> 'a LifecycleCore \<times> TransitionEffect \<times> ModuleRuntime) run" where
  "rollback_decision m core = (case state core of
     Closed Idle \<Rightarrow> Returns (DecideClosedIdle, core, Keep, m)
   | Closed (Finalizing _ _) \<Rightarrow> Returns (DecideClosingOwnsCleanup, core, Keep, m)
   | Closing _ \<Rightarrow> Returns (DecideClosingOwnsCleanup, core, Keep, m)
   | Opening _ _ \<Rightarrow> Returns (DecideUnavailable, core, Keep, m)
   | Open _ \<Rightarrow> Returns (DecideUnavailable, core, Keep, m)
   | Quarantined _ \<Rightarrow> Returns (DecideUnavailable, core, Keep, m)
   | OpenRollbackPending _ \<Rightarrow> bind_run (claim_removal m core) (\<lambda>(claim, core, effect, m).
       Returns (case claim of Some c \<Rightarrow> DecideClaim c | None \<Rightarrow> DecideWait, core, effect, m)))"

definition put_authority :: "RemovalAttemptId \<Rightarrow> ModuleAuthority \<Rightarrow> 'a CloseResources \<Rightarrow> 'a CloseResources run" where
  "put_authority expected authority r = (case r of
     Claimed payload (Outstanding claim) \<Rightarrow>
       bind_run (validate_removal_owner (oc_attempt claim) expected) (\<lambda>_.
       bind_run (return_authority claim authority) (\<lambda>c. Returns (Claimed payload (Returned c))))
   | _ \<Rightarrow> Aborts)"

definition return_removal_authority ::
    "RemovalAttemptId \<Rightarrow> ModuleAuthority \<Rightarrow> 'a LifecycleCore \<Rightarrow> ('a LifecycleCore \<times> TransitionEffect) run" where
  "return_removal_authority expected authority core = (case state core of
     Closing (ClosingReady r) \<Rightarrow> bind_run (put_authority expected authority r) (\<lambda>r.
       Returns (core\<lparr>state := Closing (ClosingReady r)\<rparr>, Keep))
   | OpenRollbackPending r \<Rightarrow> bind_run (put_authority expected authority r) (\<lambda>r.
       Returns (core\<lparr>state := OpenRollbackPending r\<rparr>, Keep))
   | Quarantined r \<Rightarrow> bind_run (put_authority expected authority r) (\<lambda>r.
       Returns (core\<lparr>state := Quarantined r\<rparr>, Keep))
   | _ \<Rightarrow> Aborts)"

definition release_removal_claim ::
    "RemovalAttemptId \<Rightarrow> bool \<Rightarrow> 'a LifecycleCore \<Rightarrow> ('a LifecycleCore \<times> TransitionEffect) run" where
  "release_removal_claim attempt finalization_failed core =
     bind_run (case state core of
       Closed (Finalizing expected quarantine_requested) \<Rightarrow>
         bind_run (require_lifecycle_invariant (expected = attempt)) (\<lambda>_.
           Returns (if finalization_failed \<or> quarantine_requested then Quarantined (Unowned CloseEmpty)
                    else Closed Idle))
     | Closing (ClosingReady r) \<Rightarrow> bind_run (resources_release r attempt) (\<lambda>r.
         Returns (if finalization_failed then Quarantined r else Closing (ClosingReady r)))
     | OpenRollbackPending r \<Rightarrow> bind_run (resources_release r attempt) (\<lambda>r.
         Returns (if finalization_failed then Quarantined r else OpenRollbackPending r))
     | Quarantined r \<Rightarrow> bind_run (resources_release r attempt) (\<lambda>r. Returns (Quarantined r))
     | _ \<Rightarrow> Aborts)
     (\<lambda>st. Returns (core\<lparr>state := st\<rparr>, Keep))"

text \<open>
  \<open>finish_closed\<close>: the authorization is the certificate of the removal pipeline; it is matched with
  the attempt, the epoch and the generation of the core.
\<close>

definition finish_closed ::
    "(RemovalAttemptId \<Rightarrow> ModuleEpochId \<Rightarrow> RuntimeGeneration option \<Rightarrow> bool) \<Rightarrow> bool \<Rightarrow> nat \<Rightarrow> 'a LifecycleCore \<Rightarrow>
     unit XllResult \<times> 'a LifecycleCore \<times> TransitionEffect" where
  "finish_closed authorized allow_open_rollback diagnostic core =
     (let claim = (case state core of
        Closing (ClosingReady (Claimed CloseEmpty (Outstanding c))) \<Rightarrow> Some c
      | OpenRollbackPending (Claimed CloseEmpty (Outstanding c)) \<Rightarrow> if allow_open_rollback then Some c else None
      | _ \<Rightarrow> None) in
      case claim of
        Some c \<Rightarrow>
          if authorized (oc_attempt c) (oc_module_epoch c) (last_committed_generation core)
          then (Inr (), core\<lparr>state := Closed (Finalizing (oc_attempt c) False)\<rparr>, ClearPublication)
          else (Inl (Internal diagnostic), core, Keep)
      | None \<Rightarrow> (Inl (Internal diagnostic), core, Keep))"

definition complete_boundary_finalization :: "RemovalAttemptId \<Rightarrow> 'a LifecycleCore \<Rightarrow> unit XllResult" where
  "complete_boundary_finalization attempt core =
     (if state core = Closed (Finalizing attempt False) then Inr () else Inl XllError.Closing)"

definition quarantine_core :: "'a LifecycleCore \<Rightarrow> 'a LifecycleCore \<times> TransitionEffect" where
  "quarantine_core core = (case state core of
     Closed Idle \<Rightarrow> (core\<lparr>state := Quarantined (Unowned CloseEmpty)\<rparr>, ClearPublication)
   | Closed (Finalizing attempt _) \<Rightarrow> (core\<lparr>state := Closed (Finalizing attempt True)\<rparr>, Keep)
   | Opening attempt payload \<Rightarrow>
       (core\<lparr>state := request_quarantine (into_closing_state attempt payload)\<rparr>, ClearPublication)
   | Open b \<Rightarrow> (case bundle_into_closing b of (closing, authority) \<Rightarrow>
       (core\<lparr>state := Quarantined (Available (ClosePublished closing) authority)\<rparr>, ClearPublication))
   | Closing c \<Rightarrow> (core\<lparr>state := request_quarantine c\<rparr>, ClearPublication)
   | OpenRollbackPending r \<Rightarrow> (core\<lparr>state := Quarantined r\<rparr>, ClearPublication)
   | Quarantined r \<Rightarrow> (core, ClearPublication))"

subsection \<open>Recovery of the payload and of the authority\<close>

definition take_opening_for_rollback ::
    "'a LifecycleCore \<Rightarrow> 'a OpeningGeneration option \<times> 'a LifecycleCore \<times> TransitionEffect" where
  "take_opening_for_rollback core = (let (x, st) = take_opening (state core) in (x, core\<lparr>state := st\<rparr>, Keep))"

text \<open>The transition of \<open>take_current_bundle\<close>; the caller then waits for the readers.\<close>

definition take_current_bundle ::
    "'a LifecycleCore \<Rightarrow> 'a ExecutionGeneration PublishedOwner option \<times> 'a LifecycleCore \<times> TransitionEffect" where
  "take_current_bundle core =
     (let outcome = (\<lambda>(g, st). (g, core\<lparr>state := st\<rparr>, if g = None then Keep else ClearPublication)) in
      case state core of
        Open b \<Rightarrow> (case bundle_into_closing b of (closing, authority) \<Rightarrow>
          (case into_retirement closing of (root, r) \<Rightarrow>
            (Some root, core\<lparr>state := Closing (ClosingReady (Available (CloseRetiring r) authority))\<rparr>, ClearPublication)))
      | Closing c \<Rightarrow> outcome (let (g, c) = closing_into_retiring c in (g, Closing c))
      | OpenRollbackPending r \<Rightarrow> outcome (let (g, r) = resources_into_retiring r in (g, OpenRollbackPending r))
      | Quarantined r \<Rightarrow> outcome (let (g, r) = resources_into_retiring r in (g, Quarantined r))
      | _ \<Rightarrow> (None, core, Keep))"

definition clear_certified_retirement ::
    "('a \<Rightarrow> bool) \<Rightarrow> ModuleRuntime \<Rightarrow> RemovalAttemptId \<Rightarrow> (RuntimeGeneration \<Rightarrow> ModuleEpochId \<Rightarrow> bool) \<Rightarrow>
     'a LifecycleCore \<Rightarrow> 'a OpenRetirement option \<times> 'a LifecycleCore \<times> TransitionEffect" where
  "clear_certified_retirement services_is_none m attempt authorized core =
     (case core_final_removal_ready services_is_none m core attempt of
        Some (Committed generation epoch) \<Rightarrow>
          if \<not> authorized generation epoch then (None, core, Keep)
          else (case take_retirement (state core) of
              (None, st) \<Rightarrow> (None, core\<lparr>state := st\<rparr>, Keep)
            | (Some r, st) \<Rightarrow> (Some r, core\<lparr>state := st\<rparr>, ClearPublication))
      | _ \<Rightarrow> (None, core, Keep))"

definition cleanup_claim :: "ModuleRuntime \<Rightarrow> 'a LifecycleState \<Rightarrow> CleanupSelection \<Rightarrow> ModuleCleanupClaim" where
  "cleanup_claim m st selection = (case selection of
     SelectReady ready \<Rightarrow> ClaimReady ready
   | SelectRetainedUndrained e \<Rightarrow> ClaimRetainedUndrained e
   | SelectDeferredOwner \<Rightarrow> ClaimDeferredOwner
   | SelectAwaitingOpenAbort \<Rightarrow>
       if ingress_phase m \<noteq> PHASE_CLOSED then ClaimDeferredOwner else ClaimNoModuleAuthority
   | SelectNone \<Rightarrow>
       if state_module_epoch_id st = None \<and> ingress_phase m = PHASE_CLOSED then ClaimNoModuleAuthority
       else ClaimUnavailable)"

fun select_cleanup :: "ModuleRuntime \<Rightarrow> 'a LifecycleState \<Rightarrow> (CleanupSelection \<times> 'a LifecycleState \<times> ModuleRuntime) run" where
  "select_cleanup m (Closing (OpeningActive a True r)) = Returns (SelectDeferredOwner, Closing (OpeningActive a True r), m)"
| "select_cleanup m (Closed (Finalizing a True)) = Returns (SelectDeferredOwner, Closed (Finalizing a True), m)"
| "select_cleanup m (Closing c) =
     bind_run (closing_take_cleanup c m) (\<lambda>(selection, c, m). Returns (selection, Closing c, m))"
| "select_cleanup m (OpenRollbackPending r) =
     bind_run (take_cleanup r m) (\<lambda>(selection, r, m). Returns (selection, OpenRollbackPending r, m))"
| "select_cleanup m (Quarantined r) =
     bind_run (take_cleanup r m) (\<lambda>(selection, r, m). Returns (selection, Quarantined r, m))"
| "select_cleanup m st = Returns (SelectNone, st, m)"

definition take_module_cleanup_for_quarantine ::
    "ModuleRuntime \<Rightarrow> 'a LifecycleCore \<Rightarrow> (ModuleCleanupClaim \<times> 'a LifecycleCore \<times> TransitionEffect \<times> ModuleRuntime) run" where
  "take_module_cleanup_for_quarantine m core =
     bind_run (select_cleanup m (state core)) (\<lambda>(selection, st, m).
       Returns (cleanup_claim m st selection, core\<lparr>state := st\<rparr>, Keep, m))"

subsection \<open>Installation of a returned authority\<close>

datatype 'a VacantClose = Unclaimed "'a ClosePayload" | VacantClaimed "'a ClosePayload" OutstandingModuleClaim

datatype Destination = ToClosing | ToRollback | ToQuarantine

fun vacant_acquire :: "'a CloseResources \<Rightarrow> ModuleEpochId \<Rightarrow> 'a CloseResources + 'a VacantClose" where
  "vacant_acquire (AwaitingOpenAbort _ p) epoch = Inr (Unclaimed (into_close_payload p))"
| "vacant_acquire (Unowned p) epoch = Inr (Unclaimed p)"
| "vacant_acquire (Claimed p (Outstanding claim)) epoch =
     (if oc_module_epoch claim = epoch then Inr (VacantClaimed p claim) else Inl (Claimed p (Outstanding claim)))"
| "vacant_acquire r epoch = Inl r"

fun vacant_install :: "'a VacantClose \<Rightarrow> ModuleAuthority \<Rightarrow> 'a CloseResources" where
  "vacant_install (Unclaimed p) authority = with_authority p authority"
| "vacant_install (VacantClaimed p claim) authority =
     Claimed p (Returned (ReturnedModuleClaim (oc_attempt claim) authority))"

fun destination_restore :: "Destination \<Rightarrow> 'a CloseResources \<Rightarrow> 'a LifecycleState" where
  "destination_restore ToClosing r = Closing (ClosingReady r)"
| "destination_restore ToRollback r = OpenRollbackPending r"
| "destination_restore ToQuarantine r = Quarantined r"

fun install_target :: "'a LifecycleState \<Rightarrow> ('a CloseResources \<times> Destination) option" where
  "install_target (Closed Idle) = Some (Unowned CloseEmpty, ToClosing)"
| "install_target (Opening _ OpeningEmpty) = Some (Unowned CloseEmpty, ToRollback)"
| "install_target (Opening _ (OpeningStaged g)) = Some (Unowned (CloseStaged g), ToRollback)"
| "install_target (Closing (OpeningActive _ quarantine_requested (AwaitingAbort p))) =
     Some (Unowned (into_close_payload p), if quarantine_requested then ToQuarantine else ToClosing)"
| "install_target (Closing (ClosingReady r)) = Some (r, ToClosing)"
| "install_target (OpenRollbackPending r) = Some (r, ToRollback)"
| "install_target (Quarantined r) = Some (r, ToQuarantine)"
| "install_target _ = None"

definition install_returned_authority ::
    "ModuleAuthority \<Rightarrow> 'a LifecycleCore \<Rightarrow> (ModuleAuthority + unit) \<times> 'a LifecycleCore \<times> TransitionEffect" where
  "install_returned_authority authority core = (case install_target (state core) of
     None \<Rightarrow> (Inl authority, core, Keep)
   | Some (resources, destination) \<Rightarrow> (case vacant_acquire resources (authority_id authority) of
       Inr receiver \<Rightarrow>
         (Inr (), core\<lparr>state := destination_restore destination (vacant_install receiver authority)\<rparr>, Keep)
     | Inl resources \<Rightarrow> (Inl authority, core\<lparr>state := destination_restore destination resources\<rparr>, Keep)))"

end
