(* ===== verification/Lifecycle_Ownership.thy ===== *)
theory Lifecycle_Ownership
  imports Lifecycle_State
begin

text \<open>
  Ownership in the lifecycle: the operations under the lifecycle lock as one relation, and that
  none of them loses or duplicates an authority, a generation or its services.
\<close>

section \<open>Ownership\<close>

text \<open>
  What the lifecycle owns: the authority over a module epoch, the state and layers of an add-in
  generation, staged or published, and its services.
\<close>

datatype 'a token = AuthorityToken ModuleEpochId | StateToken 'a 'a | ServicesToken 'a

definition staged_tokens :: "'a OpeningGeneration \<Rightarrow> 'a token multiset" where
  "staged_tokens g = {#StateToken (og_shared_state g) (og_layers g)#}"

definition root_tokens :: "'a ExecutionGeneration PublishedOwner \<Rightarrow> 'a token multiset" where
  "root_tokens r = {#StateToken (eg_shared_state (pointee r)) (eg_layers (pointee r))#}"

definition services_tokens :: "'a PublishedOwner \<Rightarrow> 'a token multiset" where
  "services_tokens s = {#ServicesToken (pointee s)#}"

definition closing_tokens :: "'a ClosingGeneration \<Rightarrow> 'a token multiset" where
  "closing_tokens c = root_tokens (cg_generation c) + services_tokens (cg_services c)"

definition retirement_tokens :: "'a OpenRetirement \<Rightarrow> 'a token multiset" where
  "retirement_tokens r = services_tokens (rt_services r)"

definition bundle_tokens :: "'a OpenGeneration \<Rightarrow> 'a token multiset" where
  "bundle_tokens b = root_tokens (on_generation b) + services_tokens (on_services b) + {#AuthorityToken (on_module_epoch b)#}"

fun payload_tokens :: "'a ClosePayload \<Rightarrow> 'a token multiset" where
  "payload_tokens CloseEmpty = {#}"
| "payload_tokens (CloseStaged g) = staged_tokens g"
| "payload_tokens (ClosePublished c) = closing_tokens c"
| "payload_tokens (CloseRetiring r) = retirement_tokens r"

fun abort_tokens :: "'a OpenAbortPayload \<Rightarrow> 'a token multiset" where
  "abort_tokens AbortEmpty = {#}"
| "abort_tokens (AbortStaged g) = staged_tokens g"

fun claim_tokens :: "RemovalClaimState \<Rightarrow> 'a token multiset" where
  "claim_tokens (Outstanding _) = {#}"
| "claim_tokens (Returned c) = {#AuthorityToken (authority_id (rc_authority c))#}"

fun resources_tokens :: "'a CloseResources \<Rightarrow> 'a token multiset" where
  "resources_tokens (AwaitingOpenAbort _ p) = abort_tokens p"
| "resources_tokens (Unowned p) = payload_tokens p"
| "resources_tokens (Available p a) = add_mset (AuthorityToken (claimable_id a)) (payload_tokens p)"
| "resources_tokens (Claimed p c) = payload_tokens p + claim_tokens c"
| "resources_tokens (Unavailable p u) = add_mset (AuthorityToken (unavailable_id u)) (payload_tokens p)"

fun opening_tokens :: "'a OpeningPayload \<Rightarrow> 'a token multiset" where
  "opening_tokens OpeningEmpty = {#}"
| "opening_tokens (OpeningStaged g) = staged_tokens g"
| "opening_tokens (OpeningPublished b) = bundle_tokens b"

fun active_tokens :: "'a ActiveOpeningClose \<Rightarrow> 'a token multiset" where
  "active_tokens (AwaitingAbort p) = abort_tokens p"
| "active_tokens (ActivePublished p a) =
     add_mset (AuthorityToken (claimable_id a)) (payload_tokens (published_into_close_payload p))"

fun state_tokens :: "'a LifecycleState \<Rightarrow> 'a token multiset" where
  "state_tokens (Closed _) = {#}"
| "state_tokens (Opening _ p) = opening_tokens p"
| "state_tokens (Open b) = bundle_tokens b"
| "state_tokens (Closing (OpeningActive _ _ r)) = active_tokens r"
| "state_tokens (Closing (ClosingReady r)) = resources_tokens r"
| "state_tokens (OpenRollbackPending r) = resources_tokens r"
| "state_tokens (Quarantined r) = resources_tokens r"

fun option_tokens :: "('b \<Rightarrow> 'a token multiset) \<Rightarrow> 'b option \<Rightarrow> 'a token multiset" where
  "option_tokens f None = {#}"
| "option_tokens f (Some x) = f x"

fun cleanup_tokens :: "ModuleCleanupClaim \<Rightarrow> 'a token multiset" where
  "cleanup_tokens (ClaimReady r) = {#AuthorityToken (cleanup_id r)#}"
| "cleanup_tokens _ = {#}"

section \<open>Locked operations\<close>

text \<open>
  One operation under the lifecycle lock: what the caller hands in, the core and the module
  before and after, the effect on the projection, what the caller gets, and the root that is
  taken for reclamation. The certificates of the removal pipeline and the predicate on services
  are arbitrary here.
\<close>

inductive locked_op ::
    "'a token multiset \<Rightarrow> 'a LifecycleCore \<times> ModuleRuntime \<Rightarrow> 'a LifecycleCore \<times> ModuleRuntime \<Rightarrow> TransitionEffect \<Rightarrow>
     'a token multiset \<Rightarrow> 'a ExecutionGeneration PublishedOwner option \<Rightarrow> bool" where
  op_set_host_intent:
    "set_host_intent i core = (core', e) \<Longrightarrow> locked_op {#} (core, m) (core', m) e {#} None"
| op_advance_removal_epoch:
    "advance_removal_epoch core = Returns (core', e) \<Longrightarrow> locked_op {#} (core, m) (core', m) e {#} None"
| op_begin_opening:
    "begin_opening_if_closed x core = (r, core', e) \<Longrightarrow> locked_op {#} (core, m) (core', m) e {#} None"
| op_stage:
    "stage_opening_generation a g core = (r, core', e) \<Longrightarrow>
     locked_op (staged_tokens g) (core, m) (core', m) e
       (case r of Inl (_, g) \<Rightarrow> staged_tokens g | Inr _ \<Rightarrow> {#}) None"
| op_publish:
    "publish_opening_generation_locked addresses gen services epoch core = (r, core', e) \<Longrightarrow>
     locked_op {#ServicesToken services, AuthorityToken epoch#} (core, m) (core', m) e
       (case r of Inl x \<Rightarrow> option_tokens staged_tokens (pe_opening x) +
            {#ServicesToken (pe_services x), AuthorityToken (pe_module_epoch x)#} | Inr _ \<Rightarrow> {#}) None"
| op_commit_open:
    "commit_open gen core = (r, core', e) \<Longrightarrow> locked_op {#} (core, m) (core', m) e {#} None"
| op_record_open_failure:
    "record_open_failure core = (r, core', e) \<Longrightarrow> locked_op {#} (core, m) (core', m) e {#} None"
| op_request_closing:
    "request_closing core = (r, core', e) \<Longrightarrow> locked_op {#} (core, m) (core', m) e {#} None"
| op_claim_removal:
    "claim_removal m core = Returns (r, core', e, m') \<Longrightarrow>
     locked_op {#} (core, m) (core', m') e (option_tokens (\<lambda>(_, epoch). {#AuthorityToken epoch#}) r) None"
| op_return_authority:
    "return_removal_authority a authority core = Returns (core', e) \<Longrightarrow>
     locked_op {#AuthorityToken (authority_id authority)#} (core, m) (core', m) e {#} None"
| op_release_claim:
    "release_removal_claim a failed core = Returns (core', e) \<Longrightarrow> locked_op {#} (core, m) (core', m) e {#} None"
| op_finish_closed:
    "finish_closed authorized allow d core = (r, core', e) \<Longrightarrow> locked_op {#} (core, m) (core', m) e {#} None"
| op_quarantine:
    "quarantine_core core = (core', e) \<Longrightarrow> locked_op {#} (core, m) (core', m) e {#} None"
| op_take_opening:
    "take_opening_for_rollback core = (g, core', e) \<Longrightarrow>
     locked_op {#} (core, m) (core', m) e (option_tokens staged_tokens g) None"
| op_take_current_bundle:
    "take_current_bundle core = (root, core', e) \<Longrightarrow>
     locked_op {#} (core, m) (core', m) e (option_tokens root_tokens root) root"
| op_clear_retirement:
    "clear_certified_retirement none m a authorized core = (r, core', e) \<Longrightarrow>
     locked_op {#} (core, m) (core', m) e (option_tokens retirement_tokens r) None"
| op_take_cleanup:
    "take_module_cleanup_for_quarantine m core = Returns (claim, core', e, m') \<Longrightarrow>
     locked_op {#} (core, m) (core', m') e (cleanup_tokens claim) None"
| op_install_authority:
    "install_returned_authority authority core = (r, core', e) \<Longrightarrow>
     locked_op {#AuthorityToken (authority_id authority)#} (core, m) (core', m) e
       (case r of Inl a \<Rightarrow> {#AuthorityToken (authority_id a)#} | Inr _ \<Rightarrow> {#}) None"

section \<open>Lemmas on the pieces\<close>

lemmas token_defs = staged_tokens_def root_tokens_def services_tokens_def closing_tokens_def retirement_tokens_def
  bundle_tokens_def

lemma bundle_into_closing_tokens:
  "bundle_into_closing b = (c, a) \<Longrightarrow> add_mset (AuthorityToken (claimable_id a)) (closing_tokens c) = bundle_tokens b"
  by (auto simp: bundle_into_closing_def token_defs)

lemma into_retirement_tokens: "into_retirement c = (root, r) \<Longrightarrow> closing_tokens c = retirement_tokens r + root_tokens root"
  by (auto simp: into_retirement_def token_defs)

lemma with_authority_tokens:
  "resources_tokens (with_authority p a) = add_mset (AuthorityToken (authority_id a)) (payload_tokens p)"
  by (cases a) (auto simp: with_authority_def)

lemma into_close_payload_tokens: "payload_tokens (into_close_payload p) = abort_tokens p"
  by (cases p) auto

lemma into_close_resources_tokens: "resources_tokens (into_close_resources a p) = opening_tokens p"
  by (cases p) (auto split: prod.splits dest: bundle_into_closing_tokens)

lemma into_closing_state_tokens: "state_tokens (Closing (into_closing_state a p)) = opening_tokens p"
  by (cases p) (auto split: prod.splits dest: bundle_into_closing_tokens)

lemma active_resolve_tokens: "resources_tokens (active_resolve a r) = active_tokens r"
  by (cases r) auto

lemma resolve_open_failure_tokens: "state_tokens (resolve_open_failure c) = state_tokens (Closing c)"
  by (cases c) (auto simp: active_resolve_tokens Let_def)

lemma request_quarantine_tokens: "state_tokens (request_quarantine c) = state_tokens (Closing c)"
  by (cases c) auto

lemma opening_take_staged_tokens:
  "opening_take_staged p = (x, p') \<Longrightarrow> opening_tokens p = opening_tokens p' + option_tokens staged_tokens x"
  by (cases p) auto

lemma abort_take_staged_tokens:
  "abort_take_staged p = (x, p') \<Longrightarrow> abort_tokens p = abort_tokens p' + option_tokens staged_tokens x"
  by (cases p) auto

lemma close_take_staged_tokens:
  "close_take_staged p = (x, p') \<Longrightarrow> payload_tokens p = payload_tokens p' + option_tokens staged_tokens x"
  by (cases p) auto

lemma close_take_retirement_tokens:
  "close_take_retirement p = (x, p') \<Longrightarrow> payload_tokens p = payload_tokens p' + option_tokens retirement_tokens x"
  by (cases p) auto

lemma retire_tokens: "retire p = (x, p') \<Longrightarrow> payload_tokens p = payload_tokens p' + option_tokens root_tokens x"
  by (cases p) (auto split: prod.splits dest: into_retirement_tokens)

lemma on_payload_tokens:
  assumes "\<And>p x p'. f p = (x, p') \<Longrightarrow> payload_tokens p = payload_tokens p' + option_tokens h x"
    and "on_payload f r = (x, r')"
  shows "resources_tokens r = resources_tokens r' + option_tokens h x"
  using assms by (cases r) (auto split: prod.splits)

lemma resources_take_staged_tokens:
  "resources_take_staged r = (x, r') \<Longrightarrow> resources_tokens r = resources_tokens r' + option_tokens staged_tokens x"
  using on_payload_tokens [of close_take_staged staged_tokens r x r', OF close_take_staged_tokens]
  by (cases r) (auto split: prod.splits simp: abort_take_staged_tokens)

lemma closing_take_staged_tokens:
  "closing_take_staged c = (x, c') \<Longrightarrow>
   state_tokens (Closing c) = state_tokens (Closing c') + option_tokens staged_tokens x"
  by (cases c rule: closing_take_staged.cases)
    (auto split: prod.splits simp: abort_take_staged_tokens resources_take_staged_tokens)

lemma take_opening_tokens:
  "take_opening st = (x, st') \<Longrightarrow> state_tokens st = state_tokens st' + option_tokens staged_tokens x"
  by (cases st)
    (auto split: prod.splits simp: opening_take_staged_tokens resources_take_staged_tokens closing_take_staged_tokens)


lemma resources_take_retirement_tokens:
  "resources_take_retirement r = (x, r') \<Longrightarrow> resources_tokens r = resources_tokens r' + option_tokens retirement_tokens x"
  unfolding resources_take_retirement_def by (rule on_payload_tokens [OF close_take_retirement_tokens])

lemma take_retirement_tokens:
  "take_retirement st = (x, st') \<Longrightarrow> state_tokens st = state_tokens st' + option_tokens retirement_tokens x"
proof (cases st)
  case (Closing c)
  then show "take_retirement st = (x, st') \<Longrightarrow> ?thesis"
    by (cases c) (auto split: prod.splits simp: resources_take_retirement_tokens)
qed (auto split: prod.splits simp: resources_take_retirement_tokens)

lemma resources_into_retiring_tokens:
  "resources_into_retiring r = (x, r') \<Longrightarrow> resources_tokens r = resources_tokens r' + option_tokens root_tokens x"
  unfolding resources_into_retiring_def by (rule on_payload_tokens [OF retire_tokens])

lemma closing_into_retiring_tokens:
  "closing_into_retiring c = (x, c') \<Longrightarrow>
   state_tokens (Closing c) = state_tokens (Closing c') + option_tokens root_tokens x"
  by (cases c rule: closing_into_retiring.cases)
    (auto split: prod.splits simp: resources_into_retiring_tokens dest!: into_retirement_tokens)

lemma take_cleanup_tokens:
  "take_cleanup r m = Returns (sel, r', m') \<Longrightarrow>
   resources_tokens r = resources_tokens r' + cleanup_tokens (cleanup_claim m'' st sel)"
proof (cases r)
  case (Claimed p c)
  then show "take_cleanup r m = Returns (sel, r', m') \<Longrightarrow> ?thesis"
  proof (cases c)
    case (Returned rc)
    then show "take_cleanup r m = Returns (sel, r', m') \<Longrightarrow> ?thesis" using Claimed
      by (cases "rc_authority rc") (auto simp: cleanup_claim_def)
  qed (auto simp: cleanup_claim_def)
next
  case (Available p a)
  then show "take_cleanup r m = Returns (sel, r', m') \<Longrightarrow> ?thesis"
    by (auto simp: cleanup_claim_def dest: into_closing_id)
next
  case (Unavailable p u)
  then show "take_cleanup r m = Returns (sel, r', m') \<Longrightarrow> ?thesis"
    by (cases u) (auto simp: cleanup_claim_def)
qed (auto simp: cleanup_claim_def)

lemma closing_take_cleanup_tokens:
  "closing_take_cleanup c m = Returns (sel, c', m') \<Longrightarrow>
   state_tokens (Closing c) = state_tokens (Closing c') + cleanup_tokens (cleanup_claim m'' st sel)"
  by (cases c) (auto simp: take_cleanup_tokens [of _ _ _ _ _ m'' st] cleanup_claim_def)

lemma claimed_release_tokens:
  "claimed_release p c a = Returns r \<Longrightarrow> resources_tokens r = resources_tokens (Claimed p c)"
  by (cases c) (auto simp: claimed_release_def with_authority_tokens)

lemma resources_release_tokens: "resources_release r a = Returns r' \<Longrightarrow> resources_tokens r' = resources_tokens r"
  by (cases r) (auto dest: claimed_release_tokens)

lemma available_claim_tokens:
  "available_claim p authority a m = Returns (r, epoch, m') \<Longrightarrow>
   add_mset (AuthorityToken (claimable_id authority)) (payload_tokens p) = add_mset (AuthorityToken epoch) (resources_tokens r)"
  by (auto simp: available_claim_def Let_def dest: into_closing_id)

lemma put_authority_tokens:
  "put_authority a authority r = Returns r' \<Longrightarrow>
   resources_tokens r' = add_mset (AuthorityToken (authority_id authority)) (resources_tokens r)"
  by (auto simp: put_authority_def return_authority_def split: CloseResources.splits RemovalClaimState.splits)

lemma vacant_tokens:
  "vacant_acquire r epoch = Inr v \<Longrightarrow>
   resources_tokens (vacant_install v authority) = add_mset (AuthorityToken (authority_id authority)) (resources_tokens r)"
  "vacant_acquire r epoch = Inl r' \<Longrightarrow> r' = r"
  by (cases "(r, epoch)" rule: vacant_acquire.cases;
      auto simp: with_authority_tokens into_close_payload_tokens split: if_splits)+

lemma install_target_tokens:
  "install_target st = Some (r, d) \<Longrightarrow> resources_tokens r = state_tokens st"
  by (cases st rule: install_target.cases) (auto simp: into_close_payload_tokens)

lemma destination_restore_tokens: "state_tokens (destination_restore d r) = resources_tokens r"
  by (cases d) auto


section \<open>Conservation\<close>

lemma request_closing_tokens: "request_closing core = (r, core', e) \<Longrightarrow> state_tokens (state core') = state_tokens (state core)"
  by (auto simp: request_closing_def into_closing_state_tokens bundle_into_closing_tokens
      split: LifecycleState.splits ClosedState.splits prod.splits)

lemma record_open_failure_tokens:
  "record_open_failure core = (r, core', e) \<Longrightarrow> state_tokens (state core') = state_tokens (state core)"
  by (auto simp: record_open_failure_def into_close_resources_tokens resolve_open_failure_tokens split: LifecycleState.splits)

lemma quarantine_core_tokens: "quarantine_core core = (core', e) \<Longrightarrow> state_tokens (state core') = state_tokens (state core)"
  by (auto simp: quarantine_core_def request_quarantine_tokens into_closing_state_tokens bundle_into_closing_tokens
      split: LifecycleState.splits ClosedState.splits prod.splits)

lemma release_removal_claim_tokens:
  "release_removal_claim a failed core = Returns (core', e) \<Longrightarrow> state_tokens (state core') = state_tokens (state core)"
  by (auto simp: release_removal_claim_def resources_release_tokens require_lifecycle_invariant_def
      split: LifecycleState.splits ClosedState.splits ClosingState.splits if_splits)

lemma claim_removal_tokens:
  "claim_removal m core = Returns (r, core', e, m') \<Longrightarrow>
   state_tokens (state core) = state_tokens (state core') + option_tokens (\<lambda>(_, epoch). {#AuthorityToken epoch#}) r"
  by (auto simp: claim_removal_def issue_claim_def Let_def dest!: available_claim_tokens
      split: LifecycleState.splits ClosingState.splits CloseResources.splits)

lemma return_removal_authority_tokens:
  "return_removal_authority a authority core = Returns (core', e) \<Longrightarrow>
   state_tokens (state core') = add_mset (AuthorityToken (authority_id authority)) (state_tokens (state core))"
  by (auto simp: return_removal_authority_def put_authority_tokens split: LifecycleState.splits ClosingState.splits)

lemma take_current_bundle_tokens:
  "take_current_bundle core = (root, core', e) \<Longrightarrow>
   state_tokens (state core) = state_tokens (state core') + option_tokens root_tokens root"
  by (auto simp: take_current_bundle_def Let_def closing_into_retiring_tokens resources_into_retiring_tokens
      dest!: into_retirement_tokens simp flip: bundle_into_closing_tokens split: LifecycleState.splits prod.splits)

lemma clear_certified_retirement_tokens:
  "clear_certified_retirement none m a authorized core = (r, core', e) \<Longrightarrow>
   state_tokens (state core) = state_tokens (state core') + option_tokens retirement_tokens r"
  by (auto simp: clear_certified_retirement_def split: option.splits FinalRemovalReady.splits if_splits prod.splits
      dest!: take_retirement_tokens)

lemma cleanup_claim_nothing [simp]:
  "cleanup_tokens (cleanup_claim m st SelectNone) = {#}"
  "cleanup_tokens (cleanup_claim m st SelectDeferredOwner) = {#}"
  by (auto simp: cleanup_claim_def)

lemma select_cleanup_tokens:
  "select_cleanup m st = Returns (sel, st', m') \<Longrightarrow>
   state_tokens st = state_tokens st' + cleanup_tokens (cleanup_claim m'' st'' sel)"
  by (cases "(m, st)" rule: select_cleanup.cases)
    (auto simp: closing_take_cleanup_tokens [where m'' = m'' and st = st''] take_cleanup_tokens [where m'' = m'' and st = st''])

lemma take_module_cleanup_tokens:
  "take_module_cleanup_for_quarantine m core = Returns (claim, core', e, m') \<Longrightarrow>
   state_tokens (state core) = state_tokens (state core') + cleanup_tokens claim"
  by (auto simp: take_module_cleanup_for_quarantine_def intro: select_cleanup_tokens)

lemma install_returned_authority_tokens:
  "install_returned_authority authority core = (r, core', e) \<Longrightarrow>
   add_mset (AuthorityToken (authority_id authority)) (state_tokens (state core)) = state_tokens (state core') +
     (case r of Inl a \<Rightarrow> {#AuthorityToken (authority_id a)#} | Inr _ \<Rightarrow> {#})"
  by (auto simp: install_returned_authority_def destination_restore_tokens vacant_tokens(1) install_target_tokens
      dest!: vacant_tokens(2) split: option.splits sum.splits)

lemma new_bundle_tokens:
  "bundle_tokens (new_bundle addresses gen g services epoch) =
   staged_tokens g + {#ServicesToken services, AuthorityToken epoch#}"
  by (auto simp: new_bundle_def token_defs split: prod.splits)

lemma publish_opening_generation_refused:
  assumes "\<nexists>attempt opening. state core = Opening attempt (OpeningStaged opening)"
  shows "publish_opening_generation_locked addresses gen services epoch core =
    (let (g, st) = take_opening (state core) in
     (Inl \<lparr>pe_error = Internal OPEN_STATE, pe_opening = g, pe_services = services, pe_module_epoch = epoch\<rparr>,
      core\<lparr>state := st\<rparr>, Keep))"
proof (cases "state core")
  case (Opening a p)
  then show ?thesis using assms by (cases p) (simp_all add: publish_opening_generation_locked_def)
qed (simp_all add: publish_opening_generation_locked_def Let_def)

lemma publish_opening_generation_accepted:
  "state core = Opening attempt (OpeningStaged opening) \<Longrightarrow>
   publish_opening_generation_locked addresses gen services epoch core =
    (Inr (), core\<lparr>state := Opening attempt (OpeningPublished (new_bundle addresses gen opening services epoch))\<rparr>, Keep)"
  by (simp add: publish_opening_generation_locked_def Let_def)

lemma publish_opening_generation_tokens:
  assumes op: "publish_opening_generation_locked addresses gen services epoch core = (r, core', e)"
  shows "state_tokens (state core) + {#ServicesToken services, AuthorityToken epoch#} = state_tokens (state core') +
     (case r of Inl x \<Rightarrow> option_tokens staged_tokens (pe_opening x) +
            {#ServicesToken (pe_services x), AuthorityToken (pe_module_epoch x)#} | Inr _ \<Rightarrow> {#})"
proof (cases "\<exists>attempt opening. state core = Opening attempt (OpeningStaged opening)")
  case True
  then show ?thesis using op by (auto simp: publish_opening_generation_accepted new_bundle_tokens)
next
  case False
  obtain g st where t: "take_opening (state core) = (g, st)" by fastforce
  show ?thesis using op publish_opening_generation_refused [OF False] take_opening_tokens [OF t] t by auto
qed

lemma locked_op_conserves:
  "locked_op given (core, m) (core', m') e returned root \<Longrightarrow>
   state_tokens (state core) + given = state_tokens (state core') + returned"
proof (induction rule: locked_op.induct [split_format (complete)])
  case (op_stage a g core r core' e m)
  then show ?case
    by (auto simp: stage_opening_generation_def stage_opening_generation_locked_def
        split: if_splits LifecycleState.splits OpeningPayload.splits)
next
  case (op_publish root srv pub gen services epoch core r core' e m)
  then show ?case by (rule publish_opening_generation_tokens)
next
  case (op_finish_closed authorized allow d core r core' e m)
  then show ?case
    by (auto simp: finish_closed_def Let_def split: if_splits option.splits LifecycleState.splits ClosingState.splits
        CloseResources.splits ClosePayload.splits RemovalClaimState.splits)
next
  case (op_begin_opening x core r core' e m)
  then show ?case by (auto simp: begin_opening_if_closed_def split: if_splits option.splits)
next
  case (op_commit_open gen core r core' e m)
  then show ?case by (auto simp: commit_open_def split: if_splits LifecycleState.splits OpeningPayload.splits)
next
  case (op_take_opening core g core' e m)
  then show ?case by (auto simp: take_opening_for_rollback_def Let_def take_opening_tokens split: prod.splits)
qed (auto simp: set_host_intent_def advance_removal_epoch_def record_open_failure_tokens request_closing_tokens
    claim_removal_tokens return_removal_authority_tokens release_removal_claim_tokens quarantine_core_tokens
    take_current_bundle_tokens clear_certified_retirement_tokens take_module_cleanup_tokens
    install_returned_authority_tokens)

section \<open>Runs\<close>

text \<open>
  Operations one after another, with what their callers handed in and got returned2; between them
  other owners may move the module, for instance drain its ingress or open the next epoch.
\<close>

inductive lifecycle_trace ::
    "'a LifecycleCore \<times> ModuleRuntime \<Rightarrow> 'a token multiset \<Rightarrow> 'a LifecycleCore \<times> ModuleRuntime \<Rightarrow> 'a token multiset \<Rightarrow> bool"
  for start where
  trace_start: "lifecycle_trace start {#} start {#}"
| trace_locked:
    "lifecycle_trace start given (core, m) returned \<Longrightarrow> locked_op given2 (core, m) (core', m') e returned2 root \<Longrightarrow>
     lifecycle_trace start (given + given2) (core', m') (returned + returned2)"
| trace_module: "lifecycle_trace start given (core, m) returned \<Longrightarrow> lifecycle_trace start given (core, m') returned"

lemma trace_conserves:
  "lifecycle_trace (core0, m0) given (core, m) returned \<Longrightarrow>
   state_tokens (state core0) + given = state_tokens (state core) + returned"
proof (induction given "(core, m)" returned arbitrary: core m rule: lifecycle_trace.induct)
  case (trace_locked given core m returned given2 core' m' e returned2 root)
  then show ?case using locked_op_conserves [OF trace_locked(3)] by (metis add.assoc add.commute)
qed auto

text \<open>
  C21. Ownership is conserved. Whatever operations run from the initial state, the authorities,
  generations and services that were handed to the lifecycle are exactly those it still owns
  and those it has handed out: when it is closed they have all been handed out, and what was
  handed in once is never owned by the lifecycle and handed out at the same time.
\<close>

theorem lifecycle_conserves_ownership:
  assumes "lifecycle_trace (core_new, m0) given (core, m) returned"
  shows "given = state_tokens (state core) + returned
    \<and> (lifecycle_phase (state core) = PhaseClosed \<longrightarrow> given = returned)
    \<and> (\<forall>t. count given t \<le> 1 \<longrightarrow> t \<in># state_tokens (state core) \<longrightarrow> t \<notin># returned)"
proof -
  have total: "given = state_tokens (state core) + returned"
    using trace_conserves [OF assms] by (simp add: core_new_def)
  moreover have "lifecycle_phase (state core) = PhaseClosed \<Longrightarrow> state_tokens (state core) = {#}"
    by (cases "state core") auto
  moreover have "t \<notin># returned" if "count given t \<le> 1" "t \<in># state_tokens (state core)" for t
  proof -
    have sum: "count (state_tokens (state core)) t + count returned t \<le> 1" using that(1) total by simp
    have owned: "0 < count (state_tokens (state core)) t" using that(2) by simp
    have "count returned t = 0" using sum owned by linarith
    then show ?thesis by (simp add: not_in_iff)
  qed
  ultimately show ?thesis by simp
qed

definition example_generation :: "nat OpeningGeneration" where
  "example_generation = \<lparr>og_shared_state = 7, og_layers = 8, init_config = 9\<rparr>"

definition example_module :: ModuleRuntime where
  "example_module = \<lparr>ingress_phase = PHASE_OPEN, ingress_epoch = 1, logical_quiescence_certified = False\<rparr>"

lemma example_trace:
  "\<exists>core. lifecycle_trace (core_new, example_module) (staged_tokens example_generation) (core, example_module) {#} \<and>
     state core = Opening (OpenAttemptId 1) (OpeningStaged example_generation)"
proof -
  let ?core = "(core_new :: nat LifecycleCore)\<lparr>next_lifecycle_attempt := 2, host_intent := IntentNone,
    state := Opening (OpenAttemptId 1) OpeningEmpty\<rparr>"
  have "begin_opening_if_closed (RemovalEpoch 0) core_new = (Inr (OpenAttemptId 1), ?core, Keep)"
    by (simp add: begin_opening_if_closed_def core_new_def open_attempt_new_def nonzero_new_def checked_add_def)
  note begun = trace_locked [OF trace_start op_begin_opening [OF this]]
  have "stage_opening_generation (OpenAttemptId 1) example_generation ?core =
     (Inr (), ?core\<lparr>state := Opening (OpenAttemptId 1) (OpeningStaged example_generation)\<rparr>, Keep)"
    by (simp add: stage_opening_generation_def stage_opening_generation_locked_def)
  from trace_locked [OF begun op_stage [OF this]]
  have "lifecycle_trace (core_new, example_module) (staged_tokens example_generation)
     (?core\<lparr>state := Opening (OpenAttemptId 1) (OpeningStaged example_generation)\<rparr>, example_module) {#}"
    by simp
  then show ?thesis by (intro exI conjI) (assumption, simp add: core_new_def)
qed

theorem lifecycle_conserves_ownership_witness:
  "\<exists>core. lifecycle_trace (core_new, example_module) (staged_tokens example_generation) (core, example_module) {#} \<and>
     staged_tokens example_generation = state_tokens (state core)"
proof -
  obtain core where *: "lifecycle_trace (core_new, example_module) (staged_tokens example_generation) (core, example_module) {#}"
    using example_trace by blast
  show ?thesis using * lifecycle_conserves_ownership [OF *] by (intro exI [of _ core]) simp
qed

end
