(* ===== verification/Lifecycle_Ops.thy ===== *)
theory Lifecycle_Ops
  imports Lifecycle_Ownership
begin

text \<open>
  What the operations of \<open>Lifecycle_Ownership\<close> do to the published generation, that a quarantine
  is final, and the order of attempts and generations.
\<close>

section \<open>What readers can reach\<close>

text \<open>
  The published generation that the state still owns whole: its root, services and publication.
\<close>

fun payload_served :: "'a ClosePayload \<Rightarrow> 'a ClosingGeneration option" where
  "payload_served (ClosePublished c) = Some c"
| "payload_served _ = None"

fun resources_served :: "'a CloseResources \<Rightarrow> 'a ClosingGeneration option" where
  "resources_served (AwaitingOpenAbort _ _) = None"
| "resources_served (Unowned p) = payload_served p"
| "resources_served (Available p _) = payload_served p"
| "resources_served (Claimed p _) = payload_served p"
| "resources_served (Unavailable p _) = payload_served p"

fun served :: "'a LifecycleState \<Rightarrow> 'a ClosingGeneration option" where
  "served (Open b) = Some (fst (bundle_into_closing b))"
| "served (Closing (OpeningActive _ _ (ActivePublished p _))) = payload_served (published_into_close_payload p)"
| "served (Closing (OpeningActive _ _ (AwaitingAbort _))) = None"
| "served (Closing (ClosingReady r)) = resources_served r"
| "served (OpenRollbackPending r) = resources_served r"
| "served (Quarantined r) = resources_served r"
| "served (Closed _) = None"
| "served (Opening _ _) = None"

fun is_open :: "'a LifecycleState \<Rightarrow> bool" where
  "is_open (Open _) = True"
| "is_open _ = False"

text \<open>
  The generation that is published or about to be, and the services and publication that are
  left of it when its root has been taken.
\<close>

definition whole :: "'a LifecycleState \<Rightarrow> 'a ClosingGeneration option" where
  "whole st = (case st of
     Opening _ p \<Rightarrow> (case p of OpeningPublished b \<Rightarrow> Some (fst (bundle_into_closing b)) | _ \<Rightarrow> None)
   | _ \<Rightarrow> served st)"

lemma whole_simps [simp]:
  "whole (Opening a (OpeningPublished b)) = Some (fst (bundle_into_closing b))"
  "whole (Opening a OpeningEmpty) = None"
  "whole (Opening a (OpeningStaged g)) = None"
  "whole (Open b) = Some (fst (bundle_into_closing b))"
  "whole (Closed x) = None"
  "whole (Closing c) = served (Closing c)"
  "whole (OpenRollbackPending r) = resources_served r"
  "whole (Quarantined r) = resources_served r"
  by (simp_all add: whole_def)

fun payload_retiring :: "'a ClosePayload \<Rightarrow> 'a OpenRetirement option" where
  "payload_retiring (CloseRetiring r) = Some r"
| "payload_retiring _ = None"

fun retiring :: "'a LifecycleState \<Rightarrow> 'a OpenRetirement option" where
  "retiring (Closing (OpeningActive _ _ (ActivePublished p _))) = payload_retiring (published_into_close_payload p)"
| "retiring (Closing (ClosingReady r)) = Option.bind (resources_payload r) payload_retiring"
| "retiring (OpenRollbackPending r) = Option.bind (resources_payload r) payload_retiring"
| "retiring (Quarantined r) = Option.bind (resources_payload r) payload_retiring"
| "retiring _ = None"

text \<open>A publication refers to the root and the services it was made for.\<close>

definition coherent :: "'a ClosingGeneration \<Rightarrow> bool" where
  "coherent c \<longleftrightarrow> pointee (cg_publication c) = \<lparr>pg_root = pointer (cg_generation c), pg_services = pointer (cg_services c)\<rparr>"

text \<open>
  What one operation does to it: it is kept, or its root is taken and the projection cleared;
  only a commit publishes, and leaving the open state clears.
\<close>

definition projects ::
    "'a LifecycleState \<Rightarrow> TransitionEffect \<Rightarrow> 'a ExecutionGeneration PublishedOwner option \<Rightarrow> 'a LifecycleState \<Rightarrow> bool" where
  "projects st e root st' \<longleftrightarrow>
     (case served st of
        Some c \<Rightarrow> served st' = Some c \<and> root = None \<or>
          served st' = None \<and> retiring st' = Some (snd (into_retirement c)) \<and> root = Some (cg_generation c) \<and>
          e = ClearPublication
      | None \<Rightarrow> root = None) \<and>
     (is_open st' \<longrightarrow> st' = st \<and> e = Keep \<or>
        (\<exists>a b. st = Opening a (OpeningPublished b) \<and> st' = Open b \<and> e = publish_effect b)) \<and>
     (\<not> is_open st' \<longrightarrow> e = Keep \<or> e = ClearPublication) \<and>
     (is_open st \<and> \<not> is_open st' \<longrightarrow> e = ClearPublication) \<and>
     (\<forall>c. whole st' = Some c \<longrightarrow> whole st = Some c \<or> coherent c)"

lemma projects_refl: "projects st Keep None st"
  by (auto simp: projects_def split: option.splits)

lemma projectsI:
  "served st' = served st \<Longrightarrow> whole st' = whole st \<Longrightarrow> \<not> is_open st \<Longrightarrow> \<not> is_open st' \<Longrightarrow>
   e = Keep \<or> e = ClearPublication \<Longrightarrow> projects st e None st'"
  by (auto simp: projects_def split: option.splits)

lemma served_with_authority [simp]: "resources_served (with_authority p a) = payload_served p"
  by (cases a) (auto simp: with_authority_def)

lemma served_into_close_payload [simp]: "payload_served (into_close_payload p) = None"
  by (cases p) auto

lemma served_on_payload:
  assumes "\<And>p x p'. f p = (x, p') \<Longrightarrow> payload_served p' = payload_served p" "on_payload f r = (x, r')"
  shows "resources_served r' = resources_served r"
  using assms by (cases r) (auto split: prod.splits)

lemma served_close_take [simp]:
  "close_take_staged p = (x, p') \<Longrightarrow> payload_served p' = payload_served p"
  "close_take_retirement p = (y, p') \<Longrightarrow> payload_served p' = payload_served p"
  by (cases p; auto)+

lemma served_take_staged: "resources_take_staged r = (x, r') \<Longrightarrow> resources_served r' = resources_served r"
  using served_on_payload [of close_take_staged r x r'] by (cases r) (auto split: prod.splits)

lemma served_closing_take_staged: "closing_take_staged c = (x, c') \<Longrightarrow> served (Closing c') = served (Closing c)"
  by (cases c rule: closing_take_staged.cases) (auto split: prod.splits dest: served_take_staged)

lemma whole_opening_take_staged: "opening_take_staged p = (x, p') \<Longrightarrow> whole (Opening a p') = whole (Opening a p)"
  by (cases p) auto

lemma take_opening_projects: "take_opening st = (x, st') \<Longrightarrow> projects st Keep None st'"
  by (cases st) (auto simp: whole_opening_take_staged split: prod.splits intro!: projectsI projects_refl dest: served_take_staged served_closing_take_staged)

lemma served_take_retirement: "resources_take_retirement r = (x, r') \<Longrightarrow> resources_served r' = resources_served r"
  unfolding resources_take_retirement_def by (rule served_on_payload [OF served_close_take(2)])

lemma take_retirement_projects: "take_retirement st = (x, st') \<Longrightarrow> \<not> is_open st \<Longrightarrow> projects st ClearPublication None st'"
proof (cases st)
  case (Closing c)
  then show "take_retirement st = (x, st') \<Longrightarrow> \<not> is_open st \<Longrightarrow> ?thesis"
    by (cases c) (auto split: prod.splits intro!: projectsI dest: served_take_retirement)
qed (auto split: prod.splits intro!: projectsI dest: served_take_retirement)

lemma served_take_cleanup: "take_cleanup r m = Returns (sel, r', m') \<Longrightarrow> resources_served r' = resources_served r"
  by (cases "(r, m)" rule: take_cleanup.cases) (auto simp: Let_def split: sum.splits)

lemma served_closing_take_cleanup:
  "closing_take_cleanup c m = Returns (sel, c', m') \<Longrightarrow> served (Closing c') = served (Closing c)"
  by (cases c) (auto dest: served_take_cleanup)

lemma select_cleanup_projects: "select_cleanup m st = Returns (sel, st', m') \<Longrightarrow> projects st Keep None st'"
  by (cases "(m, st)" rule: select_cleanup.cases)
    (auto intro!: projectsI projects_refl dest: served_take_cleanup served_closing_take_cleanup)

lemma served_release: "resources_release r a = Returns r' \<Longrightarrow> resources_served r' = resources_served r"
  by (cases r) (auto simp: claimed_release_def split: RemovalClaimState.splits)

lemma served_put_authority: "put_authority a authority r = Returns r' \<Longrightarrow> resources_served r' = resources_served r"
  by (auto simp: put_authority_def split: CloseResources.splits RemovalClaimState.splits)

lemma served_resources_payload: "resources_served r = (case resources_payload r of Some p \<Rightarrow> payload_served p | None \<Rightarrow> None)"
  by (cases r) auto


lemma served_retire:
  "retire p = (x, p') \<Longrightarrow>
   (case payload_served p of Some c \<Rightarrow> x = Some (cg_generation c) \<and> payload_served p' = None \<and>
       payload_retiring p' = Some (snd (into_retirement c))
     | None \<Rightarrow> x = None \<and> p' = p)"
  by (cases p) (auto simp: into_retirement_def)

lemma served_resources_retiring:
  "resources_into_retiring r = (x, r') \<Longrightarrow>
   (case resources_served r of Some c \<Rightarrow> x = Some (cg_generation c) \<and> resources_served r' = None \<and>
       Option.bind (resources_payload r') payload_retiring = Some (snd (into_retirement c))
     | None \<Rightarrow> x = None \<and> r' = r)"
  by (cases r) (auto simp: resources_into_retiring_def split: prod.splits option.splits dest!: served_retire)

lemma served_closing_retiring:
  "closing_into_retiring c = (x, c') \<Longrightarrow>
   (case served (Closing c) of Some g \<Rightarrow> x = Some (cg_generation g) \<and> served (Closing c') = None \<and>
       retiring (Closing c') = Some (snd (into_retirement g))
     | None \<Rightarrow> x = None \<and> c' = c)"
  by (cases c rule: closing_into_retiring.cases)
    (auto simp: into_retirement_def split: prod.splits option.splits dest!: served_resources_retiring)


lemma take_current_bundle_projects: "take_current_bundle core = (root, core', e) \<Longrightarrow> projects (state core) e root (state core')"
proof (cases "state core")
  case (Open b)
  then show "take_current_bundle core = (root, core', e) \<Longrightarrow> ?thesis"
    by (auto simp: take_current_bundle_def bundle_into_closing_def into_retirement_def projects_def)
next
  case (Closing c)
  assume "take_current_bundle core = (root, core', e)"
  then show ?thesis using Closing served_closing_retiring [of c]
    by (auto simp: take_current_bundle_def Let_def projects_def split: prod.splits option.splits)
next
  case (OpenRollbackPending r)
  assume "take_current_bundle core = (root, core', e)"
  then show ?thesis using OpenRollbackPending served_resources_retiring [of r]
    by (auto simp: take_current_bundle_def Let_def projects_def split: prod.splits option.splits)
next
  case (Quarantined r)
  assume "take_current_bundle core = (root, core', e)"
  then show ?thesis using Quarantined served_resources_retiring [of r]
    by (auto simp: take_current_bundle_def Let_def projects_def split: prod.splits option.splits)
qed (auto simp: take_current_bundle_def projects_refl)

lemma served_into_close_resources:
  "resources_served (into_close_resources a p) = (case p of OpeningPublished b \<Rightarrow> Some (fst (bundle_into_closing b)) | _ \<Rightarrow> None)"
  by (cases p) (auto split: prod.splits)

lemma not_open [simp]: "\<not> is_open (resolve_open_failure c)" "\<not> is_open (request_quarantine c)"
  by (cases c; simp add: Let_def)+

lemma not_open_restore [simp]: "\<not> is_open (destination_restore d r)"
  by (cases d) simp_all

lemma served_resolve_open_failure [simp]: "served (resolve_open_failure c) = served (Closing c)"
proof (cases c)
  case (OpeningActive a q r)
  then show ?thesis by (cases r) (auto simp: Let_def)
qed auto

lemma served_request_quarantine [simp]: "served (request_quarantine c) = served (Closing c)"
  by (cases c rule: closing_module_epoch_id.cases) auto

lemma projects_from_opening:
  "\<not> is_open st \<Longrightarrow> e = Keep \<or> e = ClearPublication \<Longrightarrow> (\<And>c. whole st = Some c \<Longrightarrow> whole (Opening a p) = Some c \<or> coherent c) \<Longrightarrow>
   projects (Opening a p) e None st"
  by (auto simp: projects_def)

lemma projects_from_open:
  "served st = Some (fst (bundle_into_closing b)) \<Longrightarrow> whole st = served st \<Longrightarrow> \<not> is_open st \<Longrightarrow>
   projects (Open b) ClearPublication None st"
  by (auto simp: projects_def)

lemma projects_from_closed:
  "\<not> is_open st \<Longrightarrow> e = Keep \<or> e = ClearPublication \<Longrightarrow> whole st = None \<Longrightarrow> projects (Closed x) e None st"
  by (auto simp: projects_def)

lemma whole_into_closing_state: "served (Closing (into_closing_state a p)) = whole (Opening a p)"
  by (cases p) (auto split: prod.splits)

lemma whole_into_close_resources: "resources_served (into_close_resources a p) = whole (Opening a p)"
  by (cases p) (auto split: prod.splits)

lemma whole_resolve_open_failure [simp]: "whole (resolve_open_failure c) = served (Closing c)"
proof (cases c)
  case (OpeningActive a q r)
  then show ?thesis by (cases r) (auto simp: Let_def)
qed auto

lemma whole_request_quarantine [simp]: "whole (request_quarantine c) = served (Closing c)"
  by (cases c rule: closing_module_epoch_id.cases) auto

lemma whole_destination_restore [simp]: "whole (destination_restore d r) = resources_served r"
  by (cases d) auto

lemma coherent_new_bundle: "coherent (fst (bundle_into_closing (new_bundle addresses gen g services epoch)))"
  by (auto simp: coherent_def new_bundle_def bundle_into_closing_def split: prod.splits)

lemmas projects_intros = projects_refl projects_from_opening projects_from_open projects_from_closed projectsI

lemma request_closing_projects: "request_closing core = (r, core', e) \<Longrightarrow> projects (state core) e None (state core')"
  by (auto simp: request_closing_def whole_into_closing_state
      split: LifecycleState.splits ClosedState.splits prod.splits intro!: projects_intros)

lemma record_open_failure_projects: "record_open_failure core = (r, core', e) \<Longrightarrow> projects (state core) e None (state core')"
  by (auto simp: record_open_failure_def whole_into_close_resources split: LifecycleState.splits intro!: projects_intros)

lemma quarantine_core_projects: "quarantine_core core = (core', e) \<Longrightarrow> projects (state core) e None (state core')"
  by (auto simp: quarantine_core_def whole_into_closing_state
      split: LifecycleState.splits ClosedState.splits prod.splits intro!: projects_intros)

lemma release_removal_claim_projects:
  "release_removal_claim a failed core = Returns (core', e) \<Longrightarrow> projects (state core) e None (state core')"
  by (auto simp: release_removal_claim_def served_release require_lifecycle_invariant_def
      split: LifecycleState.splits ClosedState.splits ClosingState.splits if_splits intro!: projects_intros)

lemma claim_removal_projects: "claim_removal m core = Returns (r, core', e, m') \<Longrightarrow> projects (state core) e None (state core')"
  by (auto simp: claim_removal_def issue_claim_def available_claim_def Let_def
      split: LifecycleState.splits ClosingState.splits CloseResources.splits intro!: projects_intros)

lemma return_removal_authority_projects:
  "return_removal_authority a authority core = Returns (core', e) \<Longrightarrow> projects (state core) e None (state core')"
  by (auto simp: return_removal_authority_def served_put_authority split: LifecycleState.splits ClosingState.splits
      intro!: projects_intros)

lemma finish_closed_projects:
  "finish_closed authorized allow d core = (r, core', e) \<Longrightarrow> projects (state core) e None (state core')"
  by (auto simp: finish_closed_def Let_def intro!: projects_intros split: if_splits option.splits LifecycleState.splits
      ClosingState.splits CloseResources.splits ClosePayload.splits RemovalClaimState.splits)

lemma vacant_served:
  "vacant_acquire r epoch = Inr v \<Longrightarrow> resources_served (vacant_install v authority) = resources_served r"
  by (cases "(r, epoch)" rule: vacant_acquire.cases) (auto split: if_splits)

lemma install_target_served: "install_target st = Some (r, d) \<Longrightarrow> resources_served r = served st \<and> whole st = served st \<and> \<not> is_open st"
  by (cases st rule: install_target.cases) auto

lemma served_destination_restore [simp]: "served (destination_restore d r) = resources_served r"
  by (cases d) auto

lemma install_returned_authority_projects:
  "install_returned_authority authority core = (r, core', e) \<Longrightarrow> projects (state core) e None (state core')"
  by (auto simp: install_returned_authority_def vacant_served split: option.splits sum.splits
      intro!: projectsI projects_refl dest!: install_target_served vacant_tokens(2))

lemma core_final_removal_ready_not_open:
  "core_final_removal_ready none m core a = Some x \<Longrightarrow> \<not> is_open (state core)"
  by (auto simp: core_final_removal_ready_def split: LifecycleState.splits)

lemma projects_weaken: "projects st ClearPublication root st' \<Longrightarrow> \<not> is_open st \<Longrightarrow> root = None \<Longrightarrow> projects st Keep root st'"
  by (auto simp: projects_def publish_effect_def split: option.splits)

lemma clear_certified_retirement_projects:
  assumes "clear_certified_retirement none m a authorized core = (r, core', e)"
  shows "projects (state core) e None (state core')"
proof (cases "core_final_removal_ready none m core a")
  case None
  then show ?thesis using assms by (auto simp: clear_certified_retirement_def projects_refl)
next
  case (Some x)
  then have "\<not> is_open (state core)" by (rule core_final_removal_ready_not_open)
  then show ?thesis
    using assms Some take_retirement_projects [of "state core"] projects_weaken [of "state core" None]
    by (auto simp: clear_certified_retirement_def projects_refl split: FinalRemovalReady.splits if_splits prod.splits option.splits)
qed

lemma publish_opening_generation_projects:
  assumes "publish_opening_generation_locked addresses gen services epoch core = (r, core', e)"
  shows "projects (state core) e None (state core')"
proof (cases "\<exists>attempt opening. state core = Opening attempt (OpeningStaged opening)")
  case True
  then show ?thesis using assms by (auto simp: publish_opening_generation_accepted coherent_new_bundle intro!: projects_from_opening)
next
  case False
  then show ?thesis using assms publish_opening_generation_refused [OF False] take_opening_projects [of "state core"]
    by (auto split: prod.splits)
qed

lemma locked_op_projects:
  "locked_op given (core, m) (core', m') e returned root \<Longrightarrow> projects (state core) e root (state core')"
proof (induction rule: locked_op.induct [split_format (complete)])
  case (op_stage a g core r core' e m)
  then show ?case
    by (auto simp: stage_opening_generation_def stage_opening_generation_locked_def
        split: if_splits LifecycleState.splits OpeningPayload.splits intro!: projects_intros)
next
  case (op_begin_opening x core r core' e m)
  then show ?case by (auto simp: begin_opening_if_closed_def split: if_splits option.splits intro!: projects_intros)
next
  case (op_commit_open gen core r core' e m)
  then show ?case
    by (auto simp: commit_open_def projects_def split: if_splits LifecycleState.splits OpeningPayload.splits option.splits)
next
  case (op_take_opening core g core' e m)
  then show ?case by (auto simp: take_opening_for_rollback_def Let_def take_opening_projects split: prod.splits)
next
  case (op_take_cleanup m core claim core' e m')
  then show ?case by (auto simp: take_module_cleanup_for_quarantine_def select_cleanup_projects)
qed (auto simp: set_host_intent_def advance_removal_epoch_def projects_refl record_open_failure_projects
    request_closing_projects claim_removal_projects return_removal_authority_projects release_removal_claim_projects
    quarantine_core_projects take_current_bundle_projects clear_certified_retirement_projects
    install_returned_authority_projects finish_closed_projects publish_opening_generation_projects)


section \<open>Quarantine\<close>

text \<open>A quarantine has been carried out, or requested while an owner is still active.\<close>

fun doomed :: "'a LifecycleState \<Rightarrow> bool" where
  "doomed (Quarantined _) = True"
| "doomed (Closing (OpeningActive _ q _)) = q"
| "doomed (Closed (Finalizing _ q)) = q"
| "doomed _ = False"

lemma request_quarantine_doomed [simp]: "doomed (request_quarantine c)"
  by (cases c) auto

lemma quarantine_core_doomed: "quarantine_core core = (core', e) \<Longrightarrow> doomed (state core')"
  by (auto simp: quarantine_core_def split: LifecycleState.splits ClosedState.splits prod.splits)

lemma take_opening_doomed: "take_opening st = (x, st') \<Longrightarrow> doomed st' = doomed st"
proof (cases st)
  case (Closing c)
  then show "take_opening st = (x, st') \<Longrightarrow> ?thesis"
    by (cases c rule: closing_take_staged.cases) (auto split: prod.splits)
qed (auto split: prod.splits)

lemma closing_into_retiring_doomed: "closing_into_retiring c = (x, c') \<Longrightarrow> doomed (Closing c') = doomed (Closing c)"
  by (cases c rule: closing_into_retiring.cases) (auto split: prod.splits)

lemma select_cleanup_doomed: "select_cleanup m st = Returns (sel, st', m') \<Longrightarrow> doomed st' = doomed st"
  by (cases "(m, st)" rule: select_cleanup.cases) (auto elim!: closing_take_cleanup.elims)

lemma install_target_doomed:
  "install_target st = Some (r, d) \<Longrightarrow> doomed st \<Longrightarrow> d = ToQuarantine"
  by (cases st rule: install_target.cases) (auto split: if_splits)

lemma core_final_removal_ready_not_doomed: "core_final_removal_ready none m core a = Some x \<Longrightarrow> \<not> doomed (state core)"
  by (auto simp: core_final_removal_ready_def split: LifecycleState.splits ClosingState.splits)

lemma publish_opening_generation_doomed:
  assumes "publish_opening_generation_locked addresses gen services epoch core = (r, core', e)" "doomed (state core)"
  shows "doomed (state core')"
proof -
  have no: "\<nexists>attempt opening. state core = Opening attempt (OpeningStaged opening)" using assms(2) by auto
  obtain g st where t: "take_opening (state core) = (g, st)" by fastforce
  show ?thesis using assms publish_opening_generation_refused [OF no] take_opening_doomed [OF t] t by auto
qed

lemma locked_op_doomed:
  "locked_op given (core, m) (core', m') e returned root \<Longrightarrow> doomed (state core) \<Longrightarrow> doomed (state core')"
proof (induction rule: locked_op.induct [split_format (complete)])
  case (op_stage a g core r core' e m)
  then show ?case
    by (auto simp: stage_opening_generation_def stage_opening_generation_locked_def
        split: if_splits LifecycleState.splits OpeningPayload.splits)
next
  case (op_begin_opening x core r core' e m)
  then show ?case by (auto simp: begin_opening_if_closed_def split: if_splits option.splits)
next
  case (op_publish root srv pub gen services epoch core r core' e m)
  then show ?case by (rule publish_opening_generation_doomed)
next
  case (op_commit_open gen core r core' e m)
  then show ?case by (auto simp: commit_open_def split: if_splits LifecycleState.splits OpeningPayload.splits)
next
  case (op_record_open_failure core r core' e m)
  then show ?case
    by (auto simp: record_open_failure_def split: LifecycleState.splits elim!: doomed.elims)
next
  case (op_request_closing core r core' e m)
  then show ?case by (auto simp: request_closing_def split: LifecycleState.splits ClosedState.splits prod.splits)
next
  case (op_claim_removal m core r core' e m')
  then show ?case
    by (auto simp: claim_removal_def issue_claim_def Let_def split: LifecycleState.splits ClosingState.splits CloseResources.splits)
next
  case (op_return_authority a authority core core' e m)
  then show ?case by (auto simp: return_removal_authority_def split: LifecycleState.splits ClosingState.splits)
next
  case (op_release_claim a failed core core' e m)
  then show ?case
    by (auto simp: release_removal_claim_def require_lifecycle_invariant_def
        split: LifecycleState.splits ClosedState.splits ClosingState.splits if_splits)
next
  case (op_finish_closed authorized allow d core r core' e m)
  then show ?case
    by (auto simp: finish_closed_def Let_def split: if_splits option.splits LifecycleState.splits ClosingState.splits
        CloseResources.splits ClosePayload.splits RemovalClaimState.splits)
next
  case (op_quarantine core core' e m)
  then show ?case by (auto simp: quarantine_core_def split: LifecycleState.splits elim!: doomed.elims)
next
  case (op_take_opening core g core' e m)
  then show ?case by (auto simp: take_opening_for_rollback_def Let_def take_opening_doomed split: prod.splits)
next
  case (op_take_current_bundle core root core' e m)
  then show ?case
    by (auto simp: take_current_bundle_def Let_def closing_into_retiring_doomed split: LifecycleState.splits prod.splits)
next
  case (op_clear_retirement none m a authorized core r core' e)
  then show ?case
    by (auto simp: clear_certified_retirement_def dest: core_final_removal_ready_not_doomed
        split: option.splits FinalRemovalReady.splits if_splits prod.splits)
next
  case (op_take_cleanup m core claim core' e m')
  then show ?case by (auto simp: take_module_cleanup_for_quarantine_def select_cleanup_doomed)
next
  case (op_install_authority authority core r core' e m)
  then show ?case
    by (auto simp: install_returned_authority_def dest!: install_target_doomed split: option.splits sum.splits)
qed (auto simp: set_host_intent_def advance_removal_epoch_def)


section \<open>Identities\<close>

fun removal_rank :: "RemovalAttemptId \<Rightarrow> nat" where
  "removal_rank (RemovalAttemptId r) = unat r"

text \<open>
  The attempts and generations in the core were issued before its counters; an open generation
  is the last committed one, and an opening attempt is younger than it.
\<close>

definition core_ok :: "'a LifecycleCore \<Rightarrow> bool" where
  "core_ok core \<longleftrightarrow>
     next_lifecycle_attempt core \<noteq> 0 \<and>
     (\<forall>a. state_open_attempt (state core) = Some a \<longrightarrow>
        open_attempt_get a < next_lifecycle_attempt core \<and>
        (\<forall>g. last_committed_generation core = Some g \<longrightarrow> runtime_generation_get g < open_attempt_get a)) \<and>
     (\<forall>g. last_committed_generation core = Some g \<longrightarrow> runtime_generation_get g < next_lifecycle_attempt core) \<and>
     (\<forall>b. state core = Open b \<longrightarrow> last_committed_generation core = Some (eg_id (pointee (on_generation b)))) \<and>
     (\<forall>a. state_removal_attempt (state core) = Some a \<longrightarrow> removal_rank a < removal_rank (next_removal_attempt core))"

definition keeps_ids :: "'a LifecycleState \<Rightarrow> 'a LifecycleState \<Rightarrow> bool" where
  "keeps_ids st st' \<longleftrightarrow>
     (\<forall>a. state_open_attempt st' = Some a \<longrightarrow> state_open_attempt st = Some a) \<and>
     (\<forall>a. state_removal_attempt st' = Some a \<longrightarrow> state_removal_attempt st = Some a) \<and>
     (is_open st' \<longrightarrow> st' = st)"

text \<open>The other fields of the core that an operation may change do not matter.\<close>

definition same_counters :: "'a LifecycleCore \<Rightarrow> 'a LifecycleCore \<Rightarrow> bool" where
  "same_counters core core' \<longleftrightarrow> next_lifecycle_attempt core' = next_lifecycle_attempt core \<and>
     next_removal_attempt core' = next_removal_attempt core \<and>
     last_committed_generation core' = last_committed_generation core"

lemma keeps_ids_ok: "core_ok core \<Longrightarrow> same_counters core core' \<Longrightarrow> keeps_ids (state core) (state core') \<Longrightarrow> core_ok core'"
  unfolding core_ok_def same_counters_def keeps_ids_def by (metis is_open.simps(1))

lemma removal_attempt_pieces:
  "on_payload f r = (x, r') \<Longrightarrow> resources_removal_attempt r' = resources_removal_attempt r"
  "resources_take_staged r = (y, r') \<Longrightarrow> resources_removal_attempt r' = resources_removal_attempt r"
  "take_cleanup r m = Returns (sel, r', m') \<Longrightarrow> resources_removal_attempt r' = resources_removal_attempt r"
  "put_authority a authority r = Returns r' \<Longrightarrow> resources_removal_attempt r' = resources_removal_attempt r"
  "resources_removal_attempt (with_authority p authority) = None"
  "resources_removal_attempt (into_close_resources b q) = None"
  "resources_removal_attempt (active_resolve b w) = None"
       apply (cases r; auto split: prod.splits; fail)
      apply (cases r; auto split: prod.splits; fail)
     apply (cases "(r, m)" rule: take_cleanup.cases; auto simp: Let_def split: sum.splits; fail)
    apply (auto simp: put_authority_def return_authority_def split: CloseResources.splits RemovalClaimState.splits; fail)
   apply (cases authority; simp add: with_authority_def; fail)
  apply (cases q; simp split: prod.splits; fail)
  apply (cases w; simp; fail)
  done

lemma release_removal_attempt: "resources_release r a = Returns r' \<Longrightarrow> resources_removal_attempt r' = None"
  by (cases r) (auto simp: claimed_release_def removal_attempt_pieces(5) split: RemovalClaimState.splits)


lemma keeps_ids_refl: "keeps_ids st st"
  by (auto simp: keeps_ids_def)

lemma closing_take_staged_ids:
  "closing_take_staged c = (x, c') \<Longrightarrow>
   closing_open_attempt c' = closing_open_attempt c \<and> closing_removal_attempt c' = closing_removal_attempt c"
  by (cases c rule: closing_take_staged.cases) (auto split: prod.splits simp: removal_attempt_pieces)

lemma take_opening_ids: "take_opening st = (x, st') \<Longrightarrow> keeps_ids st st'"
  by (cases st) (auto simp: keeps_ids_def removal_attempt_pieces split: prod.splits dest: closing_take_staged_ids)

lemma closing_into_retiring_ids:
  "closing_into_retiring c = (x, c') \<Longrightarrow>
   closing_open_attempt c' = closing_open_attempt c \<and> closing_removal_attempt c' = closing_removal_attempt c"
  by (cases c rule: closing_into_retiring.cases)
    (auto split: prod.splits simp: resources_into_retiring_def removal_attempt_pieces)

lemma take_retirement_ids: "take_retirement st = (x, st') \<Longrightarrow> keeps_ids st st'"
proof (cases st)
  case (Closing c)
  then show "take_retirement st = (x, st') \<Longrightarrow> ?thesis"
    by (cases c) (auto simp: keeps_ids_def resources_take_retirement_def removal_attempt_pieces split: prod.splits)
qed (auto simp: keeps_ids_def resources_take_retirement_def removal_attempt_pieces split: prod.splits)

lemma select_cleanup_ids: "select_cleanup m st = Returns (sel, st', m') \<Longrightarrow> keeps_ids st st'"
  by (cases "(m, st)" rule: select_cleanup.cases)
    (auto simp: keeps_ids_def removal_attempt_pieces elim!: closing_take_cleanup.elims)

lemma into_closing_state_ids [simp]:
  "closing_open_attempt (into_closing_state a p) = Some a" "closing_removal_attempt (into_closing_state a p) = None"
  by (cases p; simp split: prod.splits)+

lemma resolve_open_failure_ids: "keeps_ids (Closing c) (resolve_open_failure c)"
  by (cases c) (auto simp: keeps_ids_def Let_def removal_attempt_pieces)

lemma request_quarantine_ids: "keeps_ids (Closing c) (request_quarantine c)"
  by (cases c) (auto simp: keeps_ids_def)

lemma install_target_ids:
  "install_target st = Some (r, d) \<Longrightarrow> resources_removal_attempt r = None \<or> resources_removal_attempt r = state_removal_attempt st"
  by (cases st rule: install_target.cases) auto

lemma destination_restore_ids:
  "state_open_attempt (destination_restore d r) = None"
  "state_removal_attempt (destination_restore d r) = resources_removal_attempt r"
  by (cases d; simp)+

lemma vacant_ids:
  "vacant_acquire r epoch = Inr v \<Longrightarrow>
   resources_removal_attempt (vacant_install v authority) = None \<or>
   resources_removal_attempt (vacant_install v authority) = resources_removal_attempt r"
  by (cases "(r, epoch)" rule: vacant_acquire.cases) (auto simp: removal_attempt_pieces split: if_splits)

lemma install_ids:
  assumes "install_returned_authority authority core = (r, core', e)"
  shows "keeps_ids (state core) (state core')"
proof (cases "install_target (state core)")
  case None
  then show ?thesis using assms by (auto simp: install_returned_authority_def keeps_ids_refl)
next
  case (Some t)
  obtain res d where t: "t = (res, d)" by (cases t)
  then show ?thesis
    using assms Some install_target_ids [of "state core" res d] vacant_ids [of res "authority_id authority"]
      vacant_tokens(2) [of res "authority_id authority"]
    by (auto simp: install_returned_authority_def keeps_ids_def destination_restore_ids split: sum.splits)
      (metis option.distinct(1) option.inject)+
qed

lemma core_ok_state: "core_ok core \<Longrightarrow> keeps_ids (state core) st \<Longrightarrow> core_ok (core\<lparr>state := st\<rparr>)"
  by (erule keeps_ids_ok) (simp_all add: same_counters_def)

lemma begin_opening_core_ok:
  "begin_opening_if_closed x core = (r, core', e) \<Longrightarrow> core_ok core \<Longrightarrow> core_ok core'"
  by (auto simp: begin_opening_if_closed_def core_ok_def open_attempt_new_def nonzero_new_def checked_succ_Some
      word_less_nat_alt split: if_splits option.splits)

lemma publish_core_ok:
  assumes "publish_opening_generation_locked addresses gen services epoch core = (r, core', e)" "core_ok core"
  shows "core_ok core'"
proof (cases "\<exists>attempt opening. state core = Opening attempt (OpeningStaged opening)")
  case True
  then show ?thesis using assms by (auto simp: publish_opening_generation_accepted keeps_ids_def intro!: core_ok_state)
next
  case False
  then show ?thesis using assms publish_opening_generation_refused [OF False]
    by (auto split: prod.splits intro!: core_ok_state take_opening_ids)
qed

lemma commit_open_core_ok: "commit_open gen core = (r, core', e) \<Longrightarrow> core_ok core \<Longrightarrow> core_ok core'"
  by (auto simp: commit_open_def core_ok_def split: if_splits LifecycleState.splits OpeningPayload.splits)
    (metis into_runtime_generation.elims open_attempt_get.simps runtime_generation_get.simps)

lemma removal_next_rank: "removal_attempt_checked_next a = Some b \<Longrightarrow> removal_rank b = Suc (removal_rank a)"
  by (cases a) (auto simp: checked_succ_Some split: option.splits)

lemma claim_removal_core_ok: "claim_removal m core = Returns (r, core', e, m') \<Longrightarrow> core_ok core \<Longrightarrow> core_ok core'"
  by (auto simp: claim_removal_def issue_claim_def available_claim_def Let_def core_ok_def dest!: removal_next_rank
      split: LifecycleState.splits ClosingState.splits CloseResources.splits option.splits)

lemma opening_quarantine_ids: "keeps_ids (Opening a p) (request_quarantine (into_closing_state a p))"
  by (cases p) (auto simp: keeps_ids_def split: prod.splits)

lemma locked_op_core_ok:
  "locked_op given (core, m) (core', m') e returned root \<Longrightarrow> core_ok core \<Longrightarrow> core_ok core'"
proof (induction rule: locked_op.induct [split_format (complete)])
  case (op_stage a g core r core' e m)
  then show ?case
    by (auto simp: stage_opening_generation_def stage_opening_generation_locked_def core_ok_def
        split: if_splits LifecycleState.splits OpeningPayload.splits)
next
  case (op_record_open_failure core r core' e m)
  then show ?case
    by (auto simp: record_open_failure_def split: LifecycleState.splits intro!: core_ok_state resolve_open_failure_ids)
      (simp add: keeps_ids_def removal_attempt_pieces)
next
  case (op_request_closing core r core' e m)
  then show ?case
    by (auto simp: request_closing_def split: LifecycleState.splits ClosedState.splits prod.splits intro!: core_ok_state)
      (simp_all add: keeps_ids_def)
next
  case (op_return_authority a authority core core' e m)
  then show ?case
    by (auto simp: return_removal_authority_def split: LifecycleState.splits ClosingState.splits intro!: core_ok_state)
      (simp_all add: keeps_ids_def removal_attempt_pieces)
next
  case (op_release_claim a failed core core' e m)
  then show ?case
    by (auto simp: release_removal_claim_def require_lifecycle_invariant_def
        split: LifecycleState.splits ClosedState.splits ClosingState.splits if_splits intro!: core_ok_state)
      (simp_all add: keeps_ids_def release_removal_attempt)
next
  case (op_finish_closed authorized allow d core r core' e m)
  then show ?case
    by (auto simp: finish_closed_def Let_def split: if_splits option.splits LifecycleState.splits ClosingState.splits
        CloseResources.splits ClosePayload.splits RemovalClaimState.splits intro!: core_ok_state)
      (simp_all add: keeps_ids_def)
next
  case (op_quarantine core core' e m)
  then show ?case
    by (auto simp: quarantine_core_def split: LifecycleState.splits ClosedState.splits prod.splits
        intro!: core_ok_state request_quarantine_ids opening_quarantine_ids)
      (simp_all add: keeps_ids_def)
next
  case (op_take_opening core g core' e m)
  then show ?case
    by (auto simp: take_opening_for_rollback_def Let_def take_opening_ids split: prod.splits intro!: core_ok_state)
next
  case (op_take_current_bundle core root core' e m)
  then show ?case
    by (auto simp: take_current_bundle_def Let_def split: LifecycleState.splits prod.splits intro!: core_ok_state)
      (auto simp: keeps_ids_def resources_into_retiring_def removal_attempt_pieces dest: closing_into_retiring_ids)
next
  case (op_clear_retirement none m a authorized core r core' e)
  then show ?case
    by (auto simp: clear_certified_retirement_def split: option.splits FinalRemovalReady.splits if_splits prod.splits
        intro!: core_ok_state dest: take_retirement_ids)
next
  case (op_take_cleanup m core claim core' e m')
  then show ?case by (auto simp: take_module_cleanup_for_quarantine_def intro!: core_ok_state select_cleanup_ids)
next
  case (op_install_authority authority core r core' e m)
  have "same_counters core core'"
    using op_install_authority(1)
    by (auto simp: install_returned_authority_def same_counters_def split: option.splits sum.splits)
  then show ?case using op_install_authority install_ids keeps_ids_ok by blast
next
  case (op_set_host_intent i core core' e m)
  then show ?case by (auto simp: set_host_intent_def core_ok_def)
next
  case (op_advance_removal_epoch core core' e m)
  then show ?case by (auto simp: advance_removal_epoch_def core_ok_def)
qed (auto intro: begin_opening_core_ok publish_core_ok commit_open_core_ok claim_removal_core_ok)

section \<open>Runs of the lifecycle\<close>

text \<open>
  Operations one after another, each under the lock; between them other owners may move the
  module, for instance drain its ingress or open the next epoch.
\<close>

inductive lifecycle_move :: "'a LifecycleCore \<times> ModuleRuntime \<Rightarrow> 'a LifecycleCore \<times> ModuleRuntime \<Rightarrow> bool" where
  locked: "locked_op given (core, m) (core', m') e returned root \<Longrightarrow> lifecycle_move (core, m) (core', m')"
| module_moves: "lifecycle_move (core, m) (core, m')"

inductive_cases lifecycle_moveE: "lifecycle_move (core, m) (core', m')"

lemma core_ok_new: "core_ok core_new"
  by (simp add: core_ok_def core_new_def)

interpretation cores: transition_system "\<lambda>(core, _). core = core_new" lifecycle_move "\<lambda>(core, _). core_ok core"
  by unfold_locales (auto simp: core_ok_new elim!: lifecycle_move.cases intro: locked_op_core_ok)

interpretation quarantine: transition_system "\<lambda>(core, _). doomed (state core)" lifecycle_move "\<lambda>(core, _). doomed (state core)"
  by unfold_locales (auto elim!: lifecycle_move.cases intro: locked_op_doomed)

lemma trace_moves: "lifecycle_trace start given s returned \<Longrightarrow> lifecycle_move\<^sup>*\<^sup>* start s"
  by (induction rule: lifecycle_trace.induct) (auto intro: rtranclp.rtrancl_into_rtrancl locked module_moves)

section \<open>Properties of the core\<close>

text \<open>
  C23. The core is well formed. In every state that the lifecycle reaches from the initial one,
  whatever operations run and whatever happens to the module, the next attempt is a valid
  identity, the attempt and the committed generation in the core were issued before, an opening
  attempt is younger than the last committed generation, an open generation is the last
  committed one, and a removal attempt in use was issued before. An opening that is accepted
  then gets an identity that is younger than the last committed generation and was never used.
\<close>

theorem lifecycle_core_wellformed:
  assumes "lifecycle_move\<^sup>*\<^sup>* (core_new, m0) (core, m)"
  shows "next_lifecycle_attempt core \<noteq> 0 \<and>
     (\<forall>a. state_open_attempt (state core) = Some a \<longrightarrow>
        open_attempt_get a < next_lifecycle_attempt core \<and>
        (\<forall>g. last_committed_generation core = Some g \<longrightarrow> runtime_generation_get g < open_attempt_get a)) \<and>
     (\<forall>g. last_committed_generation core = Some g \<longrightarrow> runtime_generation_get g < next_lifecycle_attempt core) \<and>
     (\<forall>b. state core = Open b \<longrightarrow> last_committed_generation core = Some (eg_id (pointee (on_generation b)))) \<and>
     (\<forall>a. state_removal_attempt (state core) = Some a \<longrightarrow> removal_rank a < removal_rank (next_removal_attempt core)) \<and>
     (\<forall>x a core' e. begin_opening_if_closed x core = (Inr a, core', e) \<longrightarrow>
        open_attempt_get a = next_lifecycle_attempt core \<and> next_lifecycle_attempt core < next_lifecycle_attempt core' \<and>
        (\<forall>g. last_committed_generation core = Some g \<longrightarrow> runtime_generation_get g < open_attempt_get a))"
proof -
  have ok: "core_ok core" using cores.inv_reachable [OF _ assms] by simp
  have "open_attempt_get a = next_lifecycle_attempt core \<and> next_lifecycle_attempt core < next_lifecycle_attempt core'"
    if "begin_opening_if_closed x core = (Inr a, core', e)" for x a core' e
    using that by (auto simp: begin_opening_if_closed_def open_attempt_new_def nonzero_new_def checked_succ_Some
        word_less_nat_alt split: if_splits option.splits)
  then show ?thesis using ok unfolding core_ok_def by auto
qed

theorem lifecycle_core_wellformed_witness:
  "\<exists>core :: nat LifecycleCore. lifecycle_move\<^sup>*\<^sup>* (core_new, example_module) (core, example_module) \<and>
     state_open_attempt (state core) = Some (OpenAttemptId 1) \<and> 1 < next_lifecycle_attempt core"
proof -
  obtain core :: "nat LifecycleCore" where
    run: "lifecycle_trace (core_new, example_module) (staged_tokens example_generation) (core, example_module) {#}" and
    st: "state core = Opening (OpenAttemptId 1) (OpeningStaged example_generation)"
    using example_trace by blast
  show ?thesis using st lifecycle_core_wellformed [OF trace_moves [OF run]] trace_moves [OF run]
    by (intro exI [of _ core]) auto
qed

text \<open>
  C27. A quarantine is final. After \<open>quarantine\<close> from any state, whatever operations and module
  moves follow, the lifecycle is quarantined or an active owner still holds the request; it is
  never open and never idle, no opening is accepted, and no operation publishes a generation.
\<close>

theorem quarantine_is_final:
  assumes "quarantine_core core0 = (core1, e0)" "lifecycle_move\<^sup>*\<^sup>* (core1, m1) (core, m)"
  shows "doomed (state core) \<and> lifecycle_phase (state core) \<noteq> PhaseOpen \<and> state core \<noteq> Closed Idle \<and>
     (\<forall>x. begin_opening_if_closed x core = (Inl (Internal OPEN_PHASE), core, Keep)) \<and>
     (\<forall>given core' m' e returned root. locked_op given (core, m) (core', m') e returned root \<longrightarrow> e = Keep \<or> e = ClearPublication)"
proof -
  have "doomed (state core1)"
    using assms(1) by (auto simp: quarantine_core_doomed)
  then have d: "doomed (state core)" using quarantine.inv_reachable [OF _ assms(2)] by simp
  have "e = Keep \<or> e = ClearPublication" if op: "locked_op given (core, m) (core', m') e returned root"
    for given core' m' e returned root
    using locked_op_projects [OF op] locked_op_doomed [OF op d] by (cases "state core'") (auto simp: projects_def)
  moreover have "lifecycle_phase (state core) \<noteq> PhaseOpen" "state core \<noteq> Closed Idle" using d by (cases "state core"; auto)+
  ultimately show ?thesis using d by (simp add: begin_opening_if_closed_def)
qed

theorem quarantine_is_final_witness:
  "\<exists>core :: nat LifecycleCore. lifecycle_move\<^sup>*\<^sup>* (fst (quarantine_core core_new), example_module) (core, example_module) \<and>
     host_intent core = ExplicitRemovalRequested \<and>
     begin_opening_if_closed (RemovalEpoch 0) core = (Inl (Internal OPEN_PHASE), core, Keep)"
proof -
  obtain core1 :: "nat LifecycleCore" and e where q: "quarantine_core core_new = (core1, e)" by fastforce
  let ?core = "core1\<lparr>host_intent := ExplicitRemovalRequested\<rparr>"
  have "set_host_intent ExplicitRemovalRequested core1 = (?core, Keep)" by (simp add: set_host_intent_def)
  then have run: "lifecycle_move\<^sup>*\<^sup>* (core1, example_module) (?core, example_module)"
    by (intro r_into_rtranclp locked) (rule op_set_host_intent)
  show ?thesis using quarantine_is_final [OF q run] run q by (intro exI [of _ ?core]) auto
qed

end
