(* ===== verification/Striped_Readers.thy ===== *)
theory Striped_Readers
  imports Striped_Gate
begin

text \<open>
  Clients of a striped gate that hold at most one permit each: the count of a stripe is the
  number of clients that hold a permit on it. The facts are shared by the readers of the
  published generation and by the calls inside the library.
\<close>

section \<open>Counting\<close>

text \<open>\<open>slot\<close> gives the stripe on which a program point holds a permit.\<close>

definition counted :: "nat \<Rightarrow> (nat \<Rightarrow> 'w::len word) \<Rightarrow> ('p \<Rightarrow> nat option) \<Rightarrow> (nat \<Rightarrow> 'p) \<Rightarrow> bool" where
  "counted n gate slot pc \<longleftrightarrow>
     (\<forall>k. finite {i. slot (pc i) = Some k} \<and> (k < n \<longrightarrow> permits (gate k) = card {i. slot (pc i) = Some k})) \<and>
     (\<forall>i k. slot (pc i) = Some k \<longrightarrow> k < n)"

lemma holders_update:
  "{j. slot ((pc(i := p)) j) = Some k} =
     (if slot p = Some k then insert i {j. slot (pc j) = Some k} else {j. slot (pc j) = Some k} - {i})"
  by auto

lemma countedD:
  assumes "counted n gate slot pc"
  shows "finite {i. slot (pc i) = Some k}" "k < n \<Longrightarrow> permits (gate k) = card {i. slot (pc i) = Some k}"
    "slot (pc i) = Some k \<Longrightarrow> k < n"
  using assms unfolding counted_def by blast+

lemma countedI:
  assumes "\<And>k. finite {i. slot (pc i) = Some k}" "\<And>k. k < n \<Longrightarrow> permits (gate k) = card {i. slot (pc i) = Some k}"
    "\<And>i k. slot (pc i) = Some k \<Longrightarrow> k < n"
  shows "counted n gate slot pc"
  using assms unfolding counted_def by blast

lemma counted_enter:
  assumes c: "counted n gate slot pc" and out: "slot (pc i) = None" and k: "k < n" "slot p = Some k"
    and incr: "permits c = Suc (permits (gate k))"
  shows "counted n (gate(k := c)) slot (pc(i := p))"
proof (rule countedI)
  show "finite {j. slot ((pc(i := p)) j) = Some l}" for l
    unfolding holders_update using countedD(1) [OF c] by simp
  show "permits ((gate(k := c)) l) = card {j. slot ((pc(i := p)) j) = Some l}" if "l < n" for l
    unfolding holders_update using countedD(1,2) [OF c] out k incr that by auto
  show "l < n" if "slot ((pc(i := p)) j) = Some l" for j l
    using that countedD(3) [OF c] k by (auto split: if_splits)
qed

lemma counted_leave:
  assumes c: "counted n gate slot pc" and inside: "slot (pc i) = Some k" and out: "slot p = None"
    and less: "permits c = permits (gate k) - 1"
  shows "counted n (gate(k := c)) slot (pc(i := p))"
proof (rule countedI)
  show "finite {j. slot ((pc(i := p)) j) = Some l}" for l
    unfolding holders_update using countedD(1) [OF c] by simp
  show "permits ((gate(k := c)) l) = card {j. slot ((pc(i := p)) j) = Some l}" if "l < n" for l
    unfolding holders_update using countedD(1,2) [OF c] inside out less that by auto
  show "l < n" if "slot ((pc(i := p)) j) = Some l" for j l
    using that countedD(3) [OF c] out by (auto split: if_splits)
qed

lemma counted_pc:
  assumes c: "counted n gate slot pc" and same: "slot p = slot (pc i)"
  shows "counted n gate slot (pc(i := p))"
proof -
  have "slot ((pc(i := p)) j) = slot (pc j)" for j using same by simp
  then show ?thesis using c unfolding counted_def by simp
qed

lemma counted_word: "counted n gate slot pc \<Longrightarrow> permits c = permits (gate k) \<Longrightarrow> counted n (gate(k := c)) slot pc"
  by (auto simp: counted_def)

lemma counted_idle:
  assumes "counted n gate slot pc" "\<And>k. k < n \<Longrightarrow> permits (gate k) = 0"
  shows "slot (pc i) = None"
proof (cases "slot (pc i)")
  case (Some k)
  then have "card {i. slot (pc i) = Some k} = 0" using countedD(2,3) [OF assms(1)] assms(2) by metis
  then show ?thesis using countedD(1) [OF assms(1), of k] Some by auto
qed

lemma counted_positive:
  assumes "counted n gate slot pc" "slot (pc i) = Some k"
  shows "0 < permits (gate k)"
  using countedD [OF assms(1)] assms(2) by (metis (mono_tags, lifting) card_gt_0_iff empty_iff mem_Collect_eq)

section \<open>Ranges of stripes\<close>

definition all_sealed :: "nat \<Rightarrow> (nat \<Rightarrow> 'w::len word) \<Rightarrow> bool" where
  "all_sealed n gate \<longleftrightarrow> (\<forall>k < n. is_sealed (gate k))"

definition all_open :: "nat \<Rightarrow> (nat \<Rightarrow> 'w::len word) \<Rightarrow> bool" where
  "all_open n gate \<longleftrightarrow> (\<forall>k < n. \<not> is_sealed (gate k))"

definition all_idle :: "nat \<Rightarrow> (nat \<Rightarrow> 'w::len word) \<Rightarrow> bool" where
  "all_idle n gate \<longleftrightarrow> (\<forall>k < n. permits (gate k) = 0)"

text \<open>The stripes from \<open>k\<close> on are drained, those before it open.\<close>

definition reopened_to :: "nat \<Rightarrow> nat \<Rightarrow> (nat \<Rightarrow> 'w::len word) \<Rightarrow> bool" where
  "reopened_to n k gate \<longleftrightarrow> all_open k gate \<and> (\<forall>i. k \<le> i \<and> i < n \<longrightarrow> is_sealed (gate i) \<and> permits (gate i) = 0)"

lemmas stripe_ranges = all_sealed_def all_open_def all_idle_def reopened_to_def

text \<open>A client changes a stripe without sealing or unsealing it, and enters only an open one.\<close>

definition client_change :: "'w::len word \<Rightarrow> 'w word \<Rightarrow> bool" where
  "client_change c d \<longleftrightarrow> is_sealed d = is_sealed c \<and> (is_sealed c \<and> permits c = 0 \<longrightarrow> permits d = 0)"

lemma client_ranges:
  assumes "client_change (gate k) c"
  shows "all_sealed n gate \<Longrightarrow> all_sealed n (gate(k := c))" "all_open n gate \<Longrightarrow> all_open n (gate(k := c))"
    "all_idle m gate \<Longrightarrow> all_sealed n gate \<Longrightarrow> m \<le> n \<Longrightarrow> all_idle m (gate(k := c))"
    "reopened_to n m gate \<Longrightarrow> reopened_to n m (gate(k := c))"
  using assms by (auto simp: client_change_def stripe_ranges)

lemma client_changes:
  assumes "2 < LENGTH('w::len)"
  shows "try_acquire (w :: 'w word) = Returns (Inr (), c) \<Longrightarrow> client_change w c"
    "try_acquire w = Returns (Inl z, c) \<Longrightarrow> client_change w c"
    "try_release_without_notification w = Returns (x, c) \<Longrightarrow> client_change w c"
    "release w = Returns (y, c) \<Longrightarrow> client_change w c"
     apply (auto simp: client_change_def dest!: try_acquire_InrD [OF assms]; fail)
    apply (auto simp: client_change_def dest!: try_acquire_InlD [OF assms]; fail)
   apply (cases x; auto simp: client_change_def dest!: try_release_SomeD [OF assms] try_release_NoneD [OF assms]; fail)
  apply (auto simp: client_change_def dest!: releaseD [OF assms]; fail)
  done

text \<open>A manager observes a stripe by setting the waiting bit, seals it or reopens it when drained.\<close>

lemma observe_ranges:
  assumes "2 < LENGTH('w::len)" "mark_waiting (gate k :: 'w word) = (n, c)"
  shows "client_change (gate k) c" "permits c = permits (gate k)" "n = 0 \<longleftrightarrow> permits (gate k) = 0"
  using mark_waitingD [OF assms] by (auto simp: client_change_def)

lemma all_idle_Suc: "all_idle k gate \<Longrightarrow> permits (gate k) = 0 \<Longrightarrow> all_idle (Suc k) gate"
  by (auto simp: all_idle_def less_Suc_eq)

lemma seal_ranges:
  assumes "2 < LENGTH('w::len)"
  shows "all_sealed k gate \<Longrightarrow> all_sealed (Suc k) (gate(k := seal (gate k :: 'w word)))"
    "all_sealed n gate \<Longrightarrow> all_sealed n (gate(k := seal (gate k)))"
    "all_idle n gate \<Longrightarrow> all_idle n (gate(k := seal (gate k)))"
    "permits (seal (gate k)) = permits (gate k)"
  using fields_seal [OF assms, of "gate k"] by (auto simp: stripe_ranges less_Suc_eq)

lemma reopened_Suc:
  assumes "reopened_to n k gate" "k < n" "reopen (gate k) = Returns (r, c)"
  shows "r = Inr ()" "reopened_to n (Suc k) (gate(k := c))" "permits c = permits (gate k)"
  using assms by (auto simp: stripe_ranges reopen_cases less_Suc_eq counter_fields split: if_splits)

section \<open>Loops over the stripes\<close>

text \<open>A loop that keeps an assertion from one stripe to the next reaches its end.\<close>

lemma loop_ends:
  assumes next_stripe: "\<And>k s. P k s \<Longrightarrow> k < n \<Longrightarrow> \<exists>t. r s t \<and> P (Suc k) t"
  shows "P k s \<Longrightarrow> k \<le> n \<Longrightarrow> \<exists>t. r\<^sup>*\<^sup>* s t \<and> P n t"
proof (induction "n - k" arbitrary: k s)
  case (Suc d)
  then have "k < n" by simp
  then obtain t where t: "r s t" "P (Suc k) t" using next_stripe [OF Suc.prems(1)] by blast
  have "\<exists>u. r\<^sup>*\<^sup>* t u \<and> P n u" using Suc.hyps t(2) by (intro Suc.hyps(1)) auto
  then show ?case using t(1) by (meson converse_rtranclp_into_rtranclp)
qed auto

end
