(* ===== verification/Lifecycle.thy ===== *)
theory Lifecycle
  imports Lifecycle_Ops Striped_Readers
begin

text \<open>
  The lifecycle coordinator with its read side (\<open>LifecycleCoordinator\<close>, \<open>GenerationAdmission\<close> and
  \<open>ExecutionLease\<close> of \<open>crates/xlfn/src/lifecycle/state.rs\<close>): the core under its lock, the projected
  phase and publication, and a striped gate of readers. A transition first changes the core and
  then commits its effect to the projection, one atomic operation at a time; readers enter the
  gate, load the publication and use what it points to, at any time. The mutexes inside the
  gate are left out, as in \<open>Rotating_Domain\<close>: a waiter may observe the stripes at any time.
\<close>

section \<open>Definitions\<close>

subsection \<open>State\<close>

text \<open>
  A reader has entered the gate, holds an admission with the publication it loaded, or an
  execution lease with the root; then it drops its permit, which may have to wait for the
  notification mutex. \<open>Faulted\<close> is a reader that used freed memory.
\<close>

datatype reader_point =
  Away
| Entered nat
| Admitted nat nat
| Leased nat nat
| Dropping nat
| Retained nat
| Faulted

text \<open>
  The owner of the lifecycle lock: between transitions, or inside \<open>commit_transition\<close>. The root
  that \<open>take_current_bundle\<close> has taken is carried along until the readers have drained.
\<close>

datatype 'a commit_point =
  Unlocked
| Held
| SealingReaders nat "'a ExecutionGeneration PublishedOwner option"
| ClearingPublication "'a ExecutionGeneration PublishedOwner option"
| CheckingActive nat bool nat
| CheckingNull nat
| CheckingSealed nat nat
| ObservingReaders nat bool nat
| StoringPublication nat
| CheckingReopen nat nat
| ReopeningReaders nat nat
| StoringPhase "'a ExecutionGeneration PublishedOwner option"
| DrainingReaders nat bool "'a ExecutionGeneration PublishedOwner"
| Reclaiming "'a ExecutionGeneration PublishedOwner"
| FailStopped

record 'a LifecycleCoordinator =
  lc_core :: "'a LifecycleCore"
  lc_module :: ModuleRuntime
  lc_phase :: u8
  lc_publication :: "nat option"
  publication_readers :: "nat \<Rightarrow> u64"
  lc_commit :: "'a commit_point"
  lc_reader :: "nat \<Rightarrow> reader_point"

abbreviation lc_state :: "'a LifecycleCoordinator \<Rightarrow> 'a LifecycleState" where
  "lc_state s \<equiv> state (lc_core s)"

definition reader_stripes :: nat where "reader_stripes = 32"

definition coordinator_new :: "ModuleRuntime \<Rightarrow> 'a LifecycleCoordinator" where
  "coordinator_new m = \<lparr>lc_core = core_new, lc_module = m, lc_phase = phase_raw PhaseClosed,
     lc_publication = None, publication_readers = (\<lambda>_. new_sealed), lc_commit = Unlocked, lc_reader = (\<lambda>_. Away)\<rparr>"

definition set_reader_stripe :: "nat \<Rightarrow> u64 \<Rightarrow> 'a LifecycleCoordinator \<Rightarrow> 'a LifecycleCoordinator" where
  "set_reader_stripe k c s = s\<lparr>publication_readers := (publication_readers s)(k := c)\<rparr>"

definition set_reader_point :: "nat \<Rightarrow> reader_point \<Rightarrow> 'a LifecycleCoordinator \<Rightarrow> 'a LifecycleCoordinator" where
  "set_reader_point i p s = s\<lparr>lc_reader := (lc_reader s)(i := p)\<rparr>"

subsection \<open>Memory\<close>

text \<open>
  The published generation whose parts are all allocated: the one the core owns whole, or the
  taken root with the services and publication that await retirement.
\<close>

fun taken_root :: "'a commit_point \<Rightarrow> 'a ExecutionGeneration PublishedOwner option" where
  "taken_root (SealingReaders _ root) = root"
| "taken_root (ClearingPublication root) = root"
| "taken_root (StoringPhase root) = root"
| "taken_root (DrainingReaders _ _ root) = Some root"
| "taken_root (Reclaiming root) = Some root"
| "taken_root _ = None"

definition rejoin :: "'a ExecutionGeneration PublishedOwner \<Rightarrow> 'a OpenRetirement \<Rightarrow> 'a ClosingGeneration" where
  "rejoin root r = \<lparr>cg_generation = root, cg_services = rt_services r, cg_publication = rt_publication r\<rparr>"

definition allocated :: "'a LifecycleCoordinator \<Rightarrow> 'a ClosingGeneration option" where
  "allocated s = (case served (lc_state s) of
     Some c \<Rightarrow> Some c
   | None \<Rightarrow> (case (taken_root (lc_commit s), retiring (lc_state s)) of
         (Some root, Some r) \<Rightarrow> Some (rejoin root r)
       | _ \<Rightarrow> None))"

definition publication_at :: "'a LifecycleCoordinator \<Rightarrow> nat \<Rightarrow> PublishedGeneration option" where
  "publication_at s p = (case allocated s of
     Some c \<Rightarrow> if pointer (cg_publication c) = p then Some (pointee (cg_publication c)) else None
   | None \<Rightarrow> None)"

definition root_at :: "'a LifecycleCoordinator \<Rightarrow> nat \<Rightarrow> 'a ExecutionGeneration option" where
  "root_at s p = (case allocated s of
     Some c \<Rightarrow> if pointer (cg_generation c) = p then Some (pointee (cg_generation c)) else None
   | None \<Rightarrow> None)"

definition services_at :: "'a LifecycleCoordinator \<Rightarrow> nat \<Rightarrow> 'a option" where
  "services_at s p = (case allocated s of
     Some c \<Rightarrow> if pointer (cg_services c) = p then Some (pointee (cg_services c)) else None
   | None \<Rightarrow> None)"

text \<open>\<open>GenerationAdmission::generation\<close> and \<open>services\<close>: through the publication to the root and the services.\<close>

definition admission_generation :: "'a LifecycleCoordinator \<Rightarrow> nat \<Rightarrow> 'a ExecutionGeneration option" where
  "admission_generation s p = Option.bind (publication_at s p) (\<lambda>g. root_at s (pg_root g))"

definition admission_services :: "'a LifecycleCoordinator \<Rightarrow> nat \<Rightarrow> 'a option" where
  "admission_services s p = Option.bind (publication_at s p) (\<lambda>g. services_at s (pg_services g))"

subsection \<open>Readers\<close>

text \<open>
  \<open>try_admit\<close> acquires a permit on the stripe of its thread and loads the publication; a null
  publication drops the permit again. \<open>try_execution_lease\<close> reads the root from the publication
  of an admission and acquires a permit of its own.
\<close>

inductive reader_move :: "nat \<Rightarrow> 'a LifecycleCoordinator \<Rightarrow> 'a LifecycleCoordinator \<Rightarrow> bool" for i where
  admit_enter:
    "lc_reader s i = Away \<Longrightarrow> k < reader_stripes \<Longrightarrow> try_acquire (publication_readers s k) = Returns (Inr (), c) \<Longrightarrow>
     reader_move i s (set_reader_point i (Entered k) (set_reader_stripe k c s))"
| admit_sealed:
    "lc_reader s i = Away \<Longrightarrow> k < reader_stripes \<Longrightarrow> try_acquire (publication_readers s k) = Returns (Inl e, c) \<Longrightarrow>
     reader_move i s (set_reader_stripe k c s)"
| admit_load:
    "lc_reader s i = Entered k \<Longrightarrow> lc_publication s = Some p \<Longrightarrow> reader_move i s (set_reader_point i (Admitted p k) s)"
| admit_null:
    "lc_reader s i = Entered k \<Longrightarrow> lc_publication s = None \<Longrightarrow> reader_move i s (set_reader_point i (Dropping k) s)"
| use_generation:
    "lc_reader s i = Admitted p k \<Longrightarrow>
     reader_move i s (if admission_generation s p = None then set_reader_point i Faulted s else s)"
| use_services:
    "lc_reader s i = Admitted p k \<Longrightarrow>
     reader_move i s (if admission_services s p = None then set_reader_point i Faulted s else s)"
| lease_issued:
    "lc_reader s j = Admitted p k \<Longrightarrow> lc_reader s i = Away \<Longrightarrow> k' < reader_stripes \<Longrightarrow>
     try_acquire (publication_readers s k') = Returns (Inr (), c) \<Longrightarrow>
     reader_move i s (case publication_at s p of
         Some g \<Rightarrow> set_reader_point i (Leased (pg_root g) k') (set_reader_stripe k' c s)
       | None \<Rightarrow> set_reader_point j Faulted s)"
| use_lease:
    "lc_reader s i = Leased r k \<Longrightarrow>
     reader_move i s (if root_at s r = None then set_reader_point i Faulted s else s)"
| drop_admission:
    "lc_reader s i = Admitted p k \<Longrightarrow> reader_move i s (set_reader_point i (Dropping k) s)"
| drop_lease:
    "lc_reader s i = Leased r k \<Longrightarrow> reader_move i s (set_reader_point i (Dropping k) s)"
| drop_fast:
    "lc_reader s i = Dropping k \<Longrightarrow>
     try_release_without_notification (publication_readers s k) = Returns (Some out, c) \<Longrightarrow>
     reader_move i s (set_reader_point i Away (set_reader_stripe k c s))"
| drop_retained:
    "lc_reader s i = Dropping k \<Longrightarrow>
     try_release_without_notification (publication_readers s k) = Returns (None, c) \<Longrightarrow>
     reader_move i s (set_reader_point i (Retained k) (set_reader_stripe k c s))"
| drop_notify:
    "lc_reader s i = Retained k \<Longrightarrow> release (publication_readers s k) = Returns (out, c) \<Longrightarrow>
     reader_move i s (set_reader_point i Away (set_reader_stripe k c s))"

subsection \<open>Transitions\<close>

text \<open>
  \<open>transition\<close>: the mutation of the core, then \<open>commit_transition\<close> of its effect. A publication
  requires that no reader is counted, that nothing is published and that the gate is sealed;
  it waits for the drained gate, stores the pointer and reopens the stripes. Clearing seals
  the stripes and stores null. The phase is stored last. \<open>take_current_bundle\<close> then waits until the
  readers are idle before it turns the root into a box again.
\<close>

fun start_commit :: "TransitionEffect \<Rightarrow> 'a ExecutionGeneration PublishedOwner option \<Rightarrow> 'a commit_point" where
  "start_commit Keep root = StoringPhase root"
| "start_commit ClearPublication root = SealingReaders 0 root"
| "start_commit (Publish p) root = CheckingActive 0 True p"

inductive commit_move :: "'a LifecycleCoordinator \<Rightarrow> 'a LifecycleCoordinator \<Rightarrow> bool" where
  lock: "lc_commit s = Unlocked \<Longrightarrow> commit_move s (s\<lparr>lc_commit := Held\<rparr>)"
| unlock: "lc_commit s = Held \<Longrightarrow> commit_move s (s\<lparr>lc_commit := Unlocked\<rparr>)"
| mutate:
    "lc_commit s = Held \<Longrightarrow> locked_op given (lc_core s, lc_module s) (core, m) e returned root \<Longrightarrow>
     commit_move s (s\<lparr>lc_core := core, lc_module := m, lc_commit := start_commit e root\<rparr>)"
| seal_stripe:
    "lc_commit s = SealingReaders k root \<Longrightarrow> k < reader_stripes \<Longrightarrow>
     commit_move s (set_reader_stripe k (seal (publication_readers s k)) (s\<lparr>lc_commit := SealingReaders (Suc k) root\<rparr>))"
| sealed:
    "lc_commit s = SealingReaders reader_stripes root \<Longrightarrow> commit_move s (s\<lparr>lc_commit := ClearingPublication root\<rparr>)"
| clear:
    "lc_commit s = ClearingPublication root \<Longrightarrow>
     commit_move s (s\<lparr>lc_publication := None, lc_commit := StoringPhase root\<rparr>)"
| check_stripe:
    "lc_commit s = CheckingActive k idle p \<Longrightarrow> k < reader_stripes \<Longrightarrow>
     commit_move s (s\<lparr>lc_commit := CheckingActive (Suc k) (idle \<and> active (publication_readers s k) = 0) p\<rparr>)"
| checked_active:
    "lc_commit s = CheckingActive reader_stripes idle p \<Longrightarrow>
     commit_move s (s\<lparr>lc_commit := if idle then CheckingNull p else FailStopped\<rparr>)"
| checked_null:
    "lc_commit s = CheckingNull p \<Longrightarrow>
     commit_move s (s\<lparr>lc_commit := if lc_publication s = None then CheckingSealed 0 p else FailStopped\<rparr>)"
| check_sealed:
    "lc_commit s = CheckingSealed k p \<Longrightarrow> k < reader_stripes \<Longrightarrow>
     commit_move s (s\<lparr>lc_commit := if is_sealed (publication_readers s k) then CheckingSealed (Suc k) p else FailStopped\<rparr>)"
| checked_sealed:
    "lc_commit s = CheckingSealed reader_stripes p \<Longrightarrow> commit_move s (s\<lparr>lc_commit := ObservingReaders 0 True p\<rparr>)"
| observe_stripe:
    "lc_commit s = ObservingReaders k idle p \<Longrightarrow> k < reader_stripes \<Longrightarrow>
     mark_waiting (publication_readers s k) = (n, c) \<Longrightarrow>
     commit_move s (set_reader_stripe k c (s\<lparr>lc_commit := ObservingReaders (Suc k) (if n \<noteq> 0 then False else idle) p\<rparr>))"
| observe_again:
    "lc_commit s = ObservingReaders reader_stripes False p \<Longrightarrow>
     commit_move s (s\<lparr>lc_commit := ObservingReaders 0 True p\<rparr>)"
| observed_drained:
    "lc_commit s = ObservingReaders reader_stripes True p \<Longrightarrow> commit_move s (s\<lparr>lc_commit := StoringPublication p\<rparr>)"
| publish:
    "lc_commit s = StoringPublication p \<Longrightarrow>
     commit_move s (s\<lparr>lc_publication := Some p, lc_commit := CheckingReopen 0 p\<rparr>)"
| check_reopen:
    "lc_commit s = CheckingReopen k p \<Longrightarrow> k < reader_stripes \<Longrightarrow>
     commit_move s (s\<lparr>lc_commit := if is_sealed (publication_readers s k) \<and> active (publication_readers s k) = 0
       then CheckingReopen (Suc k) p else FailStopped\<rparr>)"
| checked_reopen:
    "lc_commit s = CheckingReopen reader_stripes p \<Longrightarrow> commit_move s (s\<lparr>lc_commit := ReopeningReaders 0 p\<rparr>)"
| reopen_stripe:
    "lc_commit s = ReopeningReaders k p \<Longrightarrow> k < reader_stripes \<Longrightarrow> reopen (publication_readers s k) = Returns (r, c) \<Longrightarrow>
     commit_move s (set_reader_stripe k c
       (s\<lparr>lc_commit := case r of Inr _ \<Rightarrow> ReopeningReaders (Suc k) p | Inl _ \<Rightarrow> FailStopped\<rparr>))"
| reopened:
    "lc_commit s = ReopeningReaders reader_stripes p \<Longrightarrow> commit_move s (s\<lparr>lc_commit := StoringPhase None\<rparr>)"
| store_phase:
    "lc_commit s = StoringPhase root \<Longrightarrow>
     commit_move s (s\<lparr>lc_phase := phase_raw (lifecycle_phase (lc_state s)),
       lc_commit := case root of None \<Rightarrow> Held | Some r \<Rightarrow> DrainingReaders 0 True r\<rparr>)"
| drain_stripe:
    "lc_commit s = DrainingReaders k idle r \<Longrightarrow> k < reader_stripes \<Longrightarrow>
     mark_waiting (publication_readers s k) = (n, c) \<Longrightarrow>
     commit_move s (set_reader_stripe k c (s\<lparr>lc_commit := DrainingReaders (Suc k) (if n \<noteq> 0 then False else idle) r\<rparr>))"
| drain_again:
    "lc_commit s = DrainingReaders reader_stripes False r \<Longrightarrow>
     commit_move s (s\<lparr>lc_commit := DrainingReaders 0 True r\<rparr>)"
| drained:
    "lc_commit s = DrainingReaders reader_stripes True r \<Longrightarrow> commit_move s (s\<lparr>lc_commit := Reclaiming r\<rparr>)"
| into_box: "lc_commit s = Reclaiming r \<Longrightarrow> commit_move s (s\<lparr>lc_commit := Held\<rparr>)"

text \<open>Between the transitions other owners may move the module.\<close>

inductive coordinator_move :: "'a LifecycleCoordinator \<Rightarrow> 'a LifecycleCoordinator \<Rightarrow> bool" where
  by_reader: "reader_move i s t \<Longrightarrow> coordinator_move s t"
| by_commit: "commit_move s t \<Longrightarrow> coordinator_move s t"
| by_module: "coordinator_move s (s\<lparr>lc_module := m\<rparr>)"

definition coordinator_reachable :: "'a LifecycleCoordinator \<Rightarrow> bool" where
  "coordinator_reachable s \<longleftrightarrow> (\<exists>m. coordinator_move\<^sup>*\<^sup>* (coordinator_new m) s)"

section \<open>The invariant\<close>

text \<open>The words of the gate are 64 bits wide.\<close>

lemma usize_width: "2 < LENGTH(64)"
  by simp

lemmas reader_dests = try_acquire_InrD [OF usize_width] try_acquire_InlD [OF usize_width]
  try_release_SomeD [OF usize_width] try_release_NoneD [OF usize_width] releaseD [OF usize_width]

fun permit_slot :: "reader_point \<Rightarrow> nat option" where
  "permit_slot Away = None"
| "permit_slot (Entered k) = Some k"
| "permit_slot (Admitted p k) = Some k"
| "permit_slot (Leased r k) = Some k"
| "permit_slot (Dropping k) = Some k"
| "permit_slot (Retained k) = Some k"
| "permit_slot Faulted = None"

definition inv_counted :: "'a LifecycleCoordinator \<Rightarrow> bool" where
  "inv_counted s \<longleftrightarrow> counted reader_stripes (publication_readers s) permit_slot (lc_reader s)"

definition inv_points :: "'a LifecycleCoordinator \<Rightarrow> bool" where
  "inv_points s \<longleftrightarrow> (\<forall>i. lc_reader s i \<noteq> Faulted \<and>
     (\<forall>p k. lc_reader s i = Admitted p k \<longrightarrow> (\<exists>c. allocated s = Some c \<and> pointer (cg_publication c) = p)) \<and>
     (\<forall>r k. lc_reader s i = Leased r k \<longrightarrow> (\<exists>c. allocated s = Some c \<and> pointer (cg_generation c) = r)))"

definition inv_coherent :: "'a LifecycleCoordinator \<Rightarrow> bool" where
  "inv_coherent s \<longleftrightarrow> (\<forall>c. whole (lc_state s) = Some c \<longrightarrow> coherent c) \<and> (\<forall>c. allocated s = Some c \<longrightarrow> coherent c)"

text \<open>
  The projection of a settled state: an open generation is published and its stripes admit
  readers; otherwise nothing is published, the stripes are sealed, and if nothing that readers
  could reach is allocated, they are idle.
\<close>

definition settled :: "'a LifecycleCoordinator \<Rightarrow> bool" where
  "settled s \<longleftrightarrow> (case lc_state s of
     Open b \<Rightarrow> lc_publication s = Some (pointer (on_publication b)) \<and> all_open reader_stripes (publication_readers s)
   | _ \<Rightarrow> lc_publication s = None \<and> all_sealed reader_stripes (publication_readers s) \<and>
       (allocated s = None \<longrightarrow> all_idle reader_stripes (publication_readers s)))"

definition clearing :: "'a LifecycleCoordinator \<Rightarrow> bool" where
  "clearing s \<longleftrightarrow> \<not> is_open (lc_state s) \<and> (case allocated s of
     Some c \<Rightarrow> lc_publication s = None \<or> lc_publication s = Some (pointer (cg_publication c))
   | None \<Rightarrow> lc_publication s = None \<and> all_sealed reader_stripes (publication_readers s) \<and>
       all_idle reader_stripes (publication_readers s))"

definition publishing :: "nat \<Rightarrow> nat option \<Rightarrow> 'a LifecycleCoordinator \<Rightarrow> bool" where
  "publishing p q s \<longleftrightarrow> (\<exists>b. lc_state s = Open b \<and> pointer (on_publication b) = p) \<and> lc_publication s = q"

definition drained_readers :: "'a LifecycleCoordinator \<Rightarrow> bool" where
  "drained_readers s \<longleftrightarrow> all_sealed reader_stripes (publication_readers s) \<and> all_idle reader_stripes (publication_readers s)"

definition phase_stored :: "'a LifecycleCoordinator \<Rightarrow> bool" where
  "phase_stored s \<longleftrightarrow> lc_phase s = phase_raw (lifecycle_phase (lc_state s))"

definition root_taken :: "'a LifecycleCoordinator \<Rightarrow> bool" where
  "root_taken s \<longleftrightarrow> \<not> is_open (lc_state s) \<and> served (lc_state s) = None \<and> retiring (lc_state s) \<noteq> None"

fun commit_ok :: "'a LifecycleCoordinator \<Rightarrow> 'a commit_point \<Rightarrow> bool" where
  "commit_ok s Unlocked = (settled s \<and> phase_stored s)"
| "commit_ok s Held = (settled s \<and> phase_stored s)"
| "commit_ok s (SealingReaders k root) =
     (clearing s \<and> all_sealed k (publication_readers s) \<and> (root \<noteq> None \<longrightarrow> root_taken s))"
| "commit_ok s (ClearingPublication root) =
     (clearing s \<and> all_sealed reader_stripes (publication_readers s) \<and> (root \<noteq> None \<longrightarrow> root_taken s))"
| "commit_ok s (StoringPhase root) = (settled s \<and> (root \<noteq> None \<longrightarrow> root_taken s))"
| "commit_ok s (DrainingReaders k idle root) =
     (settled s \<and> phase_stored s \<and> root_taken s \<and> k \<le> reader_stripes \<and> (idle \<longrightarrow> all_idle k (publication_readers s)))"
| "commit_ok s (Reclaiming root) = (settled s \<and> phase_stored s \<and> root_taken s \<and> drained_readers s)"
| "commit_ok s (CheckingActive k idle p) = (publishing p None s \<and> drained_readers s \<and> idle)"
| "commit_ok s (CheckingNull p) = (publishing p None s \<and> drained_readers s)"
| "commit_ok s (CheckingSealed k p) = (publishing p None s \<and> drained_readers s)"
| "commit_ok s (ObservingReaders k idle p) = (publishing p None s \<and> drained_readers s \<and> idle)"
| "commit_ok s (StoringPublication p) = (publishing p None s \<and> drained_readers s)"
| "commit_ok s (CheckingReopen k p) = (publishing p (Some p) s \<and> drained_readers s)"
| "commit_ok s (ReopeningReaders k p) =
     (publishing p (Some p) s \<and> reopened_to reader_stripes k (publication_readers s))"
| "commit_ok s FailStopped = False"

definition coordinator_inv :: "'a LifecycleCoordinator \<Rightarrow> bool" where
  "coordinator_inv s \<longleftrightarrow> inv_counted s \<and> inv_points s \<and> inv_coherent s \<and> commit_ok s (lc_commit s)"

lemmas commit_defs = settled_def clearing_def publishing_def drained_readers_def phase_stored_def root_taken_def

subsection \<open>Readers\<close>

lemma sel_set_reader_stripe [simp]:
  "lc_core (set_reader_stripe k c s) = lc_core s" "lc_module (set_reader_stripe k c s) = lc_module s"
  "lc_phase (set_reader_stripe k c s) = lc_phase s" "lc_publication (set_reader_stripe k c s) = lc_publication s"
  "publication_readers (set_reader_stripe k c s) = (publication_readers s)(k := c)"
  "lc_commit (set_reader_stripe k c s) = lc_commit s" "lc_reader (set_reader_stripe k c s) = lc_reader s"
  by (simp_all add: set_reader_stripe_def)

lemma sel_set_reader_point [simp]:
  "lc_core (set_reader_point i p s) = lc_core s" "lc_module (set_reader_point i p s) = lc_module s"
  "lc_phase (set_reader_point i p s) = lc_phase s" "lc_publication (set_reader_point i p s) = lc_publication s"
  "publication_readers (set_reader_point i p s) = publication_readers s"
  "lc_commit (set_reader_point i p s) = lc_commit s" "lc_reader (set_reader_point i p s) = (lc_reader s)(i := p)"
  by (simp_all add: set_reader_point_def)

lemma allocated_frame [simp]:
  "allocated (set_reader_stripe k c s) = allocated s" "allocated (set_reader_point i p s) = allocated s"
  "allocated (s\<lparr>lc_module := m\<rparr>) = allocated s" "allocated (s\<lparr>lc_phase := x\<rparr>) = allocated s"
  "allocated (s\<lparr>lc_publication := q\<rparr>) = allocated s"
  by (simp_all add: allocated_def cong: option.case_cong)

lemma allocated_open: "lc_state s = Open b \<Longrightarrow> allocated s = Some (fst (bundle_into_closing b))"
  by (simp add: allocated_def)

lemma publication_allocated:
  assumes "commit_ok s (lc_commit s)" "lc_publication s = Some p"
  shows "\<exists>c. allocated s = Some c \<and> pointer (cg_publication c) = p"
  using assms by (cases "lc_commit s")
    (auto simp: commit_defs allocated_open bundle_into_closing_def split: LifecycleState.splits option.splits)

lemma admission_ok:
  assumes "inv_coherent s" "allocated s = Some c" "pointer (cg_publication c) = p"
  shows "admission_generation s p = Some (pointee (cg_generation c))"
    "admission_services s p = Some (pointee (cg_services c))"
    "publication_at s p = Some \<lparr>pg_root = pointer (cg_generation c), pg_services = pointer (cg_services c)\<rparr>"
  using assms by (auto simp: inv_coherent_def coherent_def admission_generation_def admission_services_def
      publication_at_def root_at_def services_at_def)

lemma commit_ok_client:
  assumes ok: "commit_ok s pc" and change: "client_change (publication_readers s k) c"
  shows "commit_ok (set_reader_stripe k c s) pc"
proof -
  note r = client_ranges [where gate = "publication_readers s", OF change]
  have settled: "settled s \<Longrightarrow> settled (set_reader_stripe k c s)"
    using r(1) [of reader_stripes] r(2) [of reader_stripes] r(3) [of reader_stripes reader_stripes]
    by (cases "lc_state s") (auto simp: settled_def)
  have clearing: "clearing s \<Longrightarrow> clearing (set_reader_stripe k c s)"
    using r(1) [of reader_stripes] r(3) [of reader_stripes reader_stripes]
    by (auto simp: clearing_def split: option.splits)
  have drained: "drained_readers s \<Longrightarrow> drained_readers (set_reader_stripe k c s)"
    using r(1) [of reader_stripes] r(3) [of reader_stripes reader_stripes]
    by (auto simp: drained_readers_def)
  have rest: "publishing p q s \<Longrightarrow> publishing p q (set_reader_stripe k c s)"
    "phase_stored s \<Longrightarrow> phase_stored (set_reader_stripe k c s)" "root_taken s \<Longrightarrow> root_taken (set_reader_stripe k c s)" for p q
    by (auto simp: publishing_def phase_stored_def root_taken_def)
  have idle: "settled s \<Longrightarrow> root_taken s \<Longrightarrow> all_idle n (publication_readers s) \<Longrightarrow> n \<le> reader_stripes \<Longrightarrow>
      all_idle n ((publication_readers s)(k := c))" for n
    using r(3) [of n reader_stripes] by (cases "lc_state s") (auto simp: settled_def root_taken_def)
  show ?thesis using ok by (cases pc) (auto intro: settled clearing drained rest idle r(1,4))
qed

lemma commit_ok_point: "commit_ok (set_reader_point i p s) pc \<longleftrightarrow> commit_ok s pc"
  by (cases pc) (auto simp: commit_defs split: LifecycleState.splits option.splits)

text \<open>A reader that moves from one point to another and changes at most its stripe.\<close>

lemma inv_reader_point:
  assumes inv: "coordinator_inv s" and change: "client_change (publication_readers s k) c"
    and count: "counted reader_stripes ((publication_readers s)(k := c)) permit_slot ((lc_reader s)(i := p))"
    and "p \<noteq> Faulted"
    and "\<And>q k. p = Admitted q k \<Longrightarrow> \<exists>c. allocated s = Some c \<and> pointer (cg_publication c) = q"
    and "\<And>r k. p = Leased r k \<Longrightarrow> \<exists>c. allocated s = Some c \<and> pointer (cg_generation c) = r"
  shows "coordinator_inv (set_reader_point i p (set_reader_stripe k c s))"
proof -
  have "commit_ok (set_reader_point i p (set_reader_stripe k c s)) (lc_commit s)"
    using inv change by (simp add: coordinator_inv_def commit_ok_point commit_ok_client)
  moreover have "inv_points (set_reader_point i p (set_reader_stripe k c s))"
    using inv assms(4-6) by (auto simp: coordinator_inv_def inv_points_def)
  ultimately show ?thesis using inv count by (simp add: coordinator_inv_def inv_counted_def inv_coherent_def)
qed

lemma inv_same_stripe:
  assumes "coordinator_inv s" "permit_slot p = permit_slot (lc_reader s i)" "p \<noteq> Faulted"
    and "\<And>q k. p = Admitted q k \<Longrightarrow> \<exists>c. allocated s = Some c \<and> pointer (cg_publication c) = q"
    and "\<And>r k. p = Leased r k \<Longrightarrow> \<exists>c. allocated s = Some c \<and> pointer (cg_generation c) = r"
  shows "coordinator_inv (set_reader_point i p s)"
  using assms commit_ok_point [of i p s] counted_pc [of reader_stripes "publication_readers s" permit_slot "lc_reader s" p i]
  by (auto simp: coordinator_inv_def inv_counted_def inv_coherent_def inv_points_def)

lemma reader_change:
  "try_acquire (publication_readers s k) = Returns (Inr (), c) \<Longrightarrow> client_change (publication_readers s k) c"
  "try_release_without_notification (publication_readers s k) = Returns (x, c) \<Longrightarrow> client_change (publication_readers s k) c"
  "release (publication_readers s k) = Returns (y, c) \<Longrightarrow> client_change (publication_readers s k) c"
  by (rule client_changes [OF usize_width]; assumption)+

lemma reader_enters:
  assumes inv: "coordinator_inv s" and i: "lc_reader s i = Away" and k: "k < reader_stripes" "permit_slot p = Some k"
    and acq: "try_acquire (publication_readers s k) = Returns (Inr (), c)"
  shows "counted reader_stripes ((publication_readers s)(k := c)) permit_slot ((lc_reader s)(i := p))"
  by (rule counted_enter) (use inv i k reader_dests(1) [OF acq] in \<open>auto simp: coordinator_inv_def inv_counted_def\<close>)

lemma reader_leaves:
  assumes inv: "coordinator_inv s" and i: "permit_slot (lc_reader s i) = Some k" and less: "permits c = permits (publication_readers s k) - 1"
  shows "counted reader_stripes ((publication_readers s)(k := c)) permit_slot ((lc_reader s)(i := Away))"
  by (rule counted_leave) (use inv i less in \<open>auto simp: coordinator_inv_def inv_counted_def\<close>)

lemma inv_lease:
  assumes inv: "coordinator_inv s" and j: "lc_reader s j = Admitted p k" and i: "lc_reader s i = Away"
    and k: "k' < reader_stripes" and acq: "try_acquire (publication_readers s k') = Returns (Inr (), c)"
  shows "coordinator_inv (case publication_at s p of
         Some g \<Rightarrow> set_reader_point i (Leased (pg_root g) k') (set_reader_stripe k' c s)
       | None \<Rightarrow> set_reader_point j Faulted s)"
proof -
  obtain g where g: "allocated s = Some g" "pointer (cg_publication g) = p"
    using inv j by (auto simp: coordinator_inv_def inv_points_def)
  then have "publication_at s p = Some \<lparr>pg_root = pointer (cg_generation g), pg_services = pointer (cg_services g)\<rparr>"
    using inv admission_ok(3) by (auto simp: coordinator_inv_def)
  then show ?thesis
    using inv_reader_point [OF inv reader_change(1) [OF acq] reader_enters [OF inv i k _ acq],
        of "Leased (pointer (cg_generation g)) k'"] g(1) by simp
qed

lemma reader_uses:
  assumes inv: "coordinator_inv s"
  shows "lc_reader s i = Admitted p k \<Longrightarrow> admission_generation s p \<noteq> None"
    "lc_reader s i = Admitted p k \<Longrightarrow> admission_services s p \<noteq> None"
    "lc_reader s i = Leased r k \<Longrightarrow> root_at s r \<noteq> None"
proof -
  have points: "inv_points s" and coherent: "inv_coherent s" using inv by (simp_all add: coordinator_inv_def)
  show "admission_generation s p \<noteq> None" "admission_services s p \<noteq> None" if i: "lc_reader s i = Admitted p k"
  proof -
    obtain c where "allocated s = Some c" "pointer (cg_publication c) = p" using points i by (auto simp: inv_points_def)
    from admission_ok [OF coherent this] show "admission_generation s p \<noteq> None" "admission_services s p \<noteq> None" by simp_all
  qed
  show "root_at s r \<noteq> None" if "lc_reader s i = Leased r k"
    using points that by (fastforce simp: inv_points_def root_at_def)
qed

lemma reader_move_inv:
  assumes inv: "coordinator_inv s" and move: "reader_move i s t"
  shows "coordinator_inv t"
  using move
proof cases
  case (admit_enter k c)
  then show ?thesis by (auto intro!: inv_reader_point [OF inv] reader_change(1) reader_enters [OF inv])
next
  case (admit_sealed k e c)
  then have "c = publication_readers s k" using reader_dests(2) by blast
  then have "t = s" using admit_sealed(1) by (simp add: set_reader_stripe_def)
  then show ?thesis using inv by simp
next
  case (admit_load k p)
  moreover have "commit_ok s (lc_commit s)" using inv by (simp add: coordinator_inv_def)
  ultimately show ?thesis using publication_allocated [of s p] by (auto intro!: inv_same_stripe [OF inv])
next
  case (lease_issued j p k k' c)
  then show ?thesis by (auto intro!: inv_lease [OF inv])
next
  case (drop_fast k out c)
  then show ?thesis
    using reader_dests(3) by (auto intro!: inv_reader_point [OF inv] reader_change(2) reader_leaves [OF inv])
next
  case (drop_retained k c)
  then have "c = publication_readers s k" using reader_dests(4) by blast
  then have "set_reader_stripe k c s = s" by (simp add: set_reader_stripe_def)
  then show ?thesis using drop_retained by (auto intro!: inv_same_stripe [OF inv])
next
  case (drop_notify k out c)
  then show ?thesis
    using reader_dests(5) by (auto intro!: inv_reader_point [OF inv] reader_change(3) reader_leaves [OF inv])
qed (use inv reader_uses [OF inv] in \<open>auto intro!: inv_same_stripe [OF inv]\<close>)

subsection \<open>The invariant along transitions\<close>

lemma inv_points_frame:
  assumes "inv_points s" "lc_reader t = lc_reader s" "\<And>c. allocated s = Some c \<Longrightarrow> allocated t = Some c"
  shows "inv_points t"
  using assms unfolding inv_points_def by metis

lemma served_whole: "served st = Some c \<Longrightarrow> whole st = Some c"
  by (cases st) auto

lemma rejoin_retirement [simp]: "rejoin (cg_generation c) (snd (into_retirement c)) = c"
  by (simp add: rejoin_def into_retirement_def)

lemma allocated_held: "lc_commit s = Held \<Longrightarrow> allocated s = served (lc_state s)"
  by (simp add: allocated_def split: option.splits)

lemma projects_coherent: "projects st e root st' \<Longrightarrow> whole st' = Some c \<Longrightarrow> whole st = Some c \<or> coherent c"
  by (simp add: projects_def)

text \<open>What the mutation of the core leaves allocated.\<close>

lemma mutate_allocated:
  assumes held: "lc_commit s = Held" and st: "projects (lc_state s) e root (state core)"
    and t: "t = s\<lparr>lc_core := core, lc_module := m, lc_commit := start_commit e root\<rparr>"
  shows "allocated s = Some c \<Longrightarrow> allocated t = Some c"
    "allocated t = Some c \<Longrightarrow> allocated s = Some c \<or> served (state core) = Some c"
    "root \<noteq> None \<Longrightarrow> root_taken t \<and> e = ClearPublication"
proof -
  have cases: "served (lc_state s) = Some c \<Longrightarrow> served (state core) = Some c \<and> root = None \<or>
      served (state core) = None \<and> retiring (state core) = Some (snd (into_retirement c)) \<and> root = Some (cg_generation c) \<and>
      e = ClearPublication" for c
    using st by (simp add: projects_def)
  have none: "served (lc_state s) = None \<Longrightarrow> root = None" using st by (simp add: projects_def)
  show "allocated t = Some c" if "allocated s = Some c"
  proof -
    have "served (lc_state s) = Some c" using that allocated_held [OF held] by simp
    from cases [OF this] show ?thesis by (auto simp: allocated_def t)
  qed
  show "allocated s = Some c \<or> served (state core) = Some c" if "allocated t = Some c"
  proof (cases "served (lc_state s)")
    case None
    then have "taken_root (start_commit e root) = None" using none by (cases e) auto
    then show ?thesis using that by (auto simp: allocated_def t split: option.splits)
  next
    case (Some d)
    then show ?thesis using that cases [OF Some] allocated_held [OF held]
      by (auto simp: allocated_def t split: option.splits)
  qed
  show "root_taken t \<and> e = ClearPublication" if "root \<noteq> None"
  proof -
    have "served (lc_state s) \<noteq> None" using none that by auto
    then obtain d where d: "served (lc_state s) = Some d" by blast
    have "\<not> is_open (state core)" using cases [OF d] that by (cases "state core") auto
    then show ?thesis using cases [OF d] that by (auto simp: root_taken_def t)
  qed
qed

lemma settled_not_open:
  "\<not> is_open (lc_state s) \<Longrightarrow> settled s \<longleftrightarrow>
     lc_publication s = None \<and> all_sealed reader_stripes (publication_readers s) \<and>
     (allocated s = None \<longrightarrow> all_idle reader_stripes (publication_readers s))"
  by (cases "lc_state s") (simp_all add: settled_def)

lemma settled_open:
  "lc_state s = Open b \<Longrightarrow> settled s \<longleftrightarrow>
     lc_publication s = Some (pointer (on_publication b)) \<and> all_open reader_stripes (publication_readers s)"
  by (simp add: settled_def)

lemma settled_clears: "settled s \<Longrightarrow> lc_publication s = Some p \<Longrightarrow> \<exists>c. allocated s = Some c \<and> pointer (cg_publication c) = p"
  by (auto simp: settled_def allocated_def bundle_into_closing_def split: LifecycleState.splits)

lemma mutate_commit_ok:
  assumes held: "lc_commit s = Held" and ok: "settled s" and st: "projects (lc_state s) e root (state core)"
    and t: "t = s\<lparr>lc_core := core, lc_module := m, lc_commit := start_commit e root\<rparr>"
  shows "commit_ok t (lc_commit t)"
proof (cases e)
  case Keep
  have root: "root = None" using mutate_allocated(3) [OF held st t] Keep by (cases root) auto
  have "settled t"
  proof (cases "is_open (state core)")
    case True
    then obtain b where b: "state core = Open b" by (cases "state core") auto
    then have "lc_state s = Open b" using st Keep by (auto simp: projects_def publish_effect_def)
    then show ?thesis using ok b settled_open [of s b] settled_open [of t b] by (simp add: t)
  next
    case False
    then have "\<not> is_open (lc_state s)" using st Keep by (auto simp: projects_def)
    then show ?thesis using ok False mutate_allocated(1) [OF held st t]
      by (cases "allocated s") (auto simp: settled_not_open t)
  qed
  then show ?thesis by (simp add: t Keep root)
next
  case ClearPublication
  then have closed: "\<not> is_open (state core)" using st by (auto simp: projects_def publish_effect_def)
  have "clearing t"
  proof (cases "allocated s")
    case None
    then have "\<not> is_open (lc_state s)" using allocated_open [of s] by (cases "lc_state s") auto
    then show ?thesis using ok closed None by (auto simp: settled_not_open clearing_def t split: option.splits)
  next
    case (Some c)
    then show ?thesis using mutate_allocated(1) [OF held st t Some] closed settled_clears [OF ok]
      by (cases "lc_publication s") (auto simp: clearing_def t)
  qed
  moreover have "root \<noteq> None \<Longrightarrow> root_taken t" using mutate_allocated(3) [OF held st t] by blast
  ultimately show ?thesis by (auto simp: t ClearPublication all_sealed_def)
next
  case (Publish p)
  then obtain a b where b: "lc_state s = Opening a (OpeningPublished b)" "state core = Open b" "e = publish_effect b"
    using st by (cases "is_open (state core)") (auto simp: projects_def)
  then have "allocated s = None" using allocated_held [OF held] by simp
  then have "lc_publication s = None \<and> drained_readers s"
    using ok b(1) by (simp add: settled_not_open drained_readers_def)
  then show ?thesis using b Publish by (simp add: publishing_def drained_readers_def publish_effect_def t)
qed

lemma mutate_inv:
  assumes inv: "coordinator_inv s" and held: "lc_commit s = Held"
    and op: "locked_op given (lc_core s, lc_module s) (core, m) e returned root"
  shows "coordinator_inv (s\<lparr>lc_core := core, lc_module := m, lc_commit := start_commit e root\<rparr>)" (is "coordinator_inv ?t")
proof -
  note st = locked_op_projects [OF op]
  note alloc = mutate_allocated [OF held st refl]
  have ok: "settled s" and points: "inv_points s" and coherent: "inv_coherent s" and count: "inv_counted s"
    using inv held by (simp_all add: coordinator_inv_def)
  have whole: "coherent c" if "whole (state core) = Some c" for c
    using projects_coherent [OF st that] coherent by (auto simp: inv_coherent_def)
  have "coherent c" if "allocated ?t = Some c" for c
    using alloc(2) [OF that] coherent whole [OF served_whole, of c] unfolding inv_coherent_def by blast
  then have "inv_coherent ?t" using whole by (simp add: inv_coherent_def)
  moreover have "inv_points ?t" using inv_points_frame [OF points _ alloc(1)] by simp
  moreover have "inv_counted ?t" using count by (simp add: inv_counted_def)
  ultimately show ?thesis using mutate_commit_ok [OF held ok st refl] by (simp add: coordinator_inv_def)
qed

text \<open>The clauses depend on the core, the taken root and the projection only.\<close>

lemma allocated_cong:
  "lc_core t = lc_core s \<Longrightarrow> taken_root (lc_commit t) = taken_root (lc_commit s) \<Longrightarrow> allocated t = allocated s"
  by (simp add: allocated_def cong: option.case_cong)

lemma commit_clauses_cong:
  assumes "lc_core t = lc_core s" "publication_readers t = publication_readers s"
  shows "drained_readers t = drained_readers s" "root_taken t = root_taken s"
    "lc_publication t = lc_publication s \<Longrightarrow> publishing p q t = publishing p q s"
    "lc_phase t = lc_phase s \<Longrightarrow> phase_stored t = phase_stored s"
    "lc_publication t = lc_publication s \<Longrightarrow> taken_root (lc_commit t) = taken_root (lc_commit s) \<Longrightarrow> settled t = settled s"
    "lc_publication t = lc_publication s \<Longrightarrow> taken_root (lc_commit t) = taken_root (lc_commit s) \<Longrightarrow> clearing t = clearing s"
  using assms allocated_cong [of t s] by (simp_all add: commit_defs cong: option.case_cong LifecycleState.case_cong)

lemma commit_inv:
  assumes inv: "coordinator_inv s" and core: "lc_core t = lc_core s" and readers: "lc_reader t = lc_reader s"
    and root: "taken_root (lc_commit t) = taken_root (lc_commit s)"
    and count: "counted reader_stripes (publication_readers t) permit_slot (lc_reader s)"
    and ok: "commit_ok t (lc_commit t)"
  shows "coordinator_inv t"
proof -
  note alloc = allocated_cong [OF core root]
  have "inv_points t" using inv inv_points_frame [of s t] readers alloc by (simp add: coordinator_inv_def)
  then show ?thesis using inv count ok core readers alloc
    by (simp add: coordinator_inv_def inv_counted_def inv_coherent_def)
qed

text \<open>Moves that change the program point only.\<close>

lemma commit_point_inv:
  assumes inv: "coordinator_inv s" and root: "taken_root pc = taken_root (lc_commit s)"
    and ok: "commit_ok (s\<lparr>lc_commit := pc\<rparr>) pc"
  shows "coordinator_inv (s\<lparr>lc_commit := pc\<rparr>)"
  by (rule commit_inv [OF inv]) (use inv root ok in \<open>simp_all add: coordinator_inv_def inv_counted_def\<close>)

lemma commit_point_ok:
  assumes "taken_root pc = taken_root (lc_commit s)"
  shows "settled (s\<lparr>lc_commit := pc\<rparr>) = settled s" "clearing (s\<lparr>lc_commit := pc\<rparr>) = clearing s"
  by (rule commit_clauses_cong(5,6); use assms in simp)+

lemma commit_point_ok' [simp]:
  "drained_readers (s\<lparr>lc_commit := pc\<rparr>) = drained_readers s" "root_taken (s\<lparr>lc_commit := pc\<rparr>) = root_taken s"
  "publishing p q (s\<lparr>lc_commit := pc\<rparr>) = publishing p q s" "phase_stored (s\<lparr>lc_commit := pc\<rparr>) = phase_stored s"
  by (rule commit_clauses_cong; simp)+

text \<open>A manager that changes one stripe.\<close>

lemma inv_counted_word:
  "coordinator_inv s \<Longrightarrow> permits c = permits (publication_readers s k) \<Longrightarrow>
   counted reader_stripes ((publication_readers s)(k := c)) permit_slot (lc_reader s)"
  unfolding coordinator_inv_def inv_counted_def by (blast intro: counted_word)

lemma observed_stripe:
  assumes inv: "coordinator_inv s" and obs: "mark_waiting (publication_readers s k) = (n, c)"
  shows "commit_ok (set_reader_stripe k c s) (lc_commit s)"
    "counted reader_stripes ((publication_readers s)(k := c)) permit_slot (lc_reader s)"
    "n = 0 \<longleftrightarrow> permits (publication_readers s k) = 0" "permits c = permits (publication_readers s k)"
  using observe_ranges [where gate = "publication_readers s", OF usize_width obs] inv commit_ok_client [of s "lc_commit s" k c]
    inv_counted_word [OF inv, of c k]
  by (simp_all add: coordinator_inv_def)

lemma seal_stripe_inv:
  assumes inv: "coordinator_inv s" and at: "lc_commit s = SealingReaders k root" and k: "k < reader_stripes"
  shows "coordinator_inv (set_reader_stripe k (seal (publication_readers s k)) (s\<lparr>lc_commit := SealingReaders (Suc k) root\<rparr>))"
proof (rule commit_inv [OF inv])
  note seal = seal_ranges [where gate = "publication_readers s" and k = k, OF usize_width]
  show "counted reader_stripes (publication_readers (set_reader_stripe k (seal (publication_readers s k))
      (s\<lparr>lc_commit := SealingReaders (Suc k) root\<rparr>))) permit_slot (lc_reader s)"
    using inv_counted_word [OF inv seal(4)] by simp
  have "clearing s" "all_sealed k (publication_readers s)" "root \<noteq> None \<Longrightarrow> root_taken s"
    using inv at by (simp_all add: coordinator_inv_def)
  moreover have "allocated (s\<lparr>lc_commit := SealingReaders (Suc k) root\<rparr>) = allocated s"
    by (rule allocated_cong) (simp_all add: at)
  ultimately show "commit_ok (set_reader_stripe k (seal (publication_readers s k)) (s\<lparr>lc_commit := SealingReaders (Suc k) root\<rparr>))
      (lc_commit (set_reader_stripe k (seal (publication_readers s k)) (s\<lparr>lc_commit := SealingReaders (Suc k) root\<rparr>)))"
    using seal by (auto simp: clearing_def root_taken_def split: option.splits)
qed (simp_all add: at)

lemma reopen_stripe_inv:
  assumes inv: "coordinator_inv s" and at: "lc_commit s = ReopeningReaders k p" and k: "k < reader_stripes"
    and op: "reopen (publication_readers s k) = Returns (r, c)"
  shows "coordinator_inv (set_reader_stripe k c
       (s\<lparr>lc_commit := case r of Inr _ \<Rightarrow> ReopeningReaders (Suc k) p | Inl _ \<Rightarrow> FailStopped\<rparr>))"
proof -
  have ok: "publishing p (Some p) s" "reopened_to reader_stripes k (publication_readers s)"
    using inv at by (simp_all add: coordinator_inv_def)
  note re = reopened_Suc [where gate = "publication_readers s", OF ok(2) k op]
  show ?thesis
  proof (rule commit_inv [OF inv])
    show "counted reader_stripes (publication_readers (set_reader_stripe k c
       (s\<lparr>lc_commit := case r of Inr _ \<Rightarrow> ReopeningReaders (Suc k) p | Inl _ \<Rightarrow> FailStopped\<rparr>))) permit_slot (lc_reader s)"
      using inv_counted_word [OF inv re(3)] by simp
  qed (use ok re in \<open>simp_all add: at publishing_def\<close>)
qed

lemma drain_stripe_inv:
  assumes inv: "coordinator_inv s" and at: "lc_commit s = DrainingReaders k idle r" and k: "k < reader_stripes"
    and obs: "mark_waiting (publication_readers s k) = (n, c)"
  shows "coordinator_inv (set_reader_stripe k c (s\<lparr>lc_commit := DrainingReaders (Suc k) (if n \<noteq> 0 then False else idle) r\<rparr>))"
proof (rule commit_inv [OF inv])
  let ?t = "set_reader_stripe k c (s\<lparr>lc_commit := DrainingReaders (Suc k) (if n \<noteq> 0 then False else idle) r\<rparr>)"
  note o = observed_stripe [OF inv obs]
  have "settled ?t = settled (set_reader_stripe k c s)" by (rule commit_clauses_cong(5)) (simp_all add: at)
  moreover have "phase_stored ?t = phase_stored s" "root_taken ?t = root_taken s"
    by (simp_all add: phase_stored_def root_taken_def)
  moreover have "all_idle (Suc k) ((publication_readers s)(k := c))" if "n = 0" idle
    using that o(1,3,4) by (intro all_idle_Suc) (auto simp: at)
  moreover have "phase_stored (set_reader_stripe k c s) = phase_stored s" "root_taken (set_reader_stripe k c s) = root_taken s"
    by (simp_all add: phase_stored_def root_taken_def)
  ultimately show "commit_ok ?t (lc_commit ?t)" using o(1) k by (auto simp: at)
qed (use observed_stripe(2) [OF inv obs] in \<open>simp_all add: at\<close>)

lemma observe_stripe_inv:
  assumes inv: "coordinator_inv s" and at: "lc_commit s = ObservingReaders k idle p" and k: "k < reader_stripes"
    and obs: "mark_waiting (publication_readers s k) = (n, c)"
  shows "coordinator_inv (set_reader_stripe k c (s\<lparr>lc_commit := ObservingReaders (Suc k) (if n \<noteq> 0 then False else idle) p\<rparr>))"
proof (rule commit_inv [OF inv])
  let ?t = "set_reader_stripe k c (s\<lparr>lc_commit := ObservingReaders (Suc k) (if n \<noteq> 0 then False else idle) p\<rparr>)"
  note o = observed_stripe [OF inv obs]
  have "permits (publication_readers s k) = 0"
    using inv k by (simp add: coordinator_inv_def at drained_readers_def all_idle_def)
  then show "commit_ok ?t (lc_commit ?t)" using o(1,3) by (simp add: at publishing_def drained_readers_def)
qed (use observed_stripe(2) [OF inv obs] in \<open>simp_all add: at\<close>)

lemma reclaim_inv:
  assumes inv: "coordinator_inv s" and at: "lc_commit s = Reclaiming r"
  shows "coordinator_inv (s\<lparr>lc_commit := Held\<rparr>)"
proof -
  have ok: "settled s" "phase_stored s" "root_taken s" "drained_readers s"
    and count: "counted reader_stripes (publication_readers s) permit_slot (lc_reader s)"
    and points: "inv_points s" and coherent: "inv_coherent s"
    using inv at by (simp_all add: coordinator_inv_def inv_counted_def)
  have nobody: "permit_slot (lc_reader s i) = None" for i
    by (rule counted_idle [OF count]) (use ok(4) in \<open>simp add: drained_readers_def all_idle_def\<close>)
  have none: "allocated (s\<lparr>lc_commit := Held\<rparr>) = None" using ok(3) by (simp add: allocated_def root_taken_def)
  have "inv_points (s\<lparr>lc_commit := Held\<rparr>)" unfolding inv_points_def
  proof (intro allI conjI impI)
    fix i
    show "lc_reader (s\<lparr>lc_commit := Held\<rparr>) i \<noteq> Faulted" using points by (simp add: inv_points_def)
  next
    fix i p k
    assume "lc_reader (s\<lparr>lc_commit := Held\<rparr>) i = Admitted p k"
    then show "\<exists>c. allocated (s\<lparr>lc_commit := Held\<rparr>) = Some c \<and> pointer (cg_publication c) = p"
      using nobody [of i] by simp
  next
    fix i p k
    assume "lc_reader (s\<lparr>lc_commit := Held\<rparr>) i = Leased p k"
    then show "\<exists>c. allocated (s\<lparr>lc_commit := Held\<rparr>) = Some c \<and> pointer (cg_generation c) = p"
      using nobody [of i] by simp
  qed
  moreover have "settled (s\<lparr>lc_commit := Held\<rparr>)"
    using ok by (simp add: settled_not_open root_taken_def drained_readers_def)
  ultimately show ?thesis
    using ok(2) count coherent none by (simp add: coordinator_inv_def inv_counted_def inv_coherent_def)
qed

lemma clear_inv:
  assumes inv: "coordinator_inv s" and at: "lc_commit s = ClearingPublication root"
  shows "coordinator_inv (s\<lparr>lc_publication := None, lc_commit := StoringPhase root\<rparr>)"
proof (rule commit_inv [OF inv])
  let ?t = "s\<lparr>lc_publication := None, lc_commit := StoringPhase root\<rparr>"
  have ok: "clearing s" "all_sealed reader_stripes (publication_readers s)" "root \<noteq> None \<Longrightarrow> root_taken s"
    using inv at by (simp_all add: coordinator_inv_def)
  moreover have "allocated ?t = allocated s" by (rule allocated_cong) (simp_all add: at)
  ultimately have "settled ?t" by (auto simp: clearing_def settled_not_open split: option.splits)
  then show "commit_ok ?t (lc_commit ?t)" using ok(3) by (auto simp: root_taken_def)
qed (use inv in \<open>simp_all add: at coordinator_inv_def inv_counted_def\<close>)

lemma publish_inv:
  assumes inv: "coordinator_inv s" and at: "lc_commit s = StoringPublication p"
  shows "coordinator_inv (s\<lparr>lc_publication := Some p, lc_commit := CheckingReopen 0 p\<rparr>)"
  by (rule commit_inv [OF inv])
    (use inv in \<open>simp_all add: at coordinator_inv_def inv_counted_def publishing_def drained_readers_def\<close>)

lemma store_phase_inv:
  assumes inv: "coordinator_inv s" and at: "lc_commit s = StoringPhase root"
  shows "coordinator_inv (s\<lparr>lc_phase := phase_raw (lifecycle_phase (lc_state s)),
     lc_commit := case root of None \<Rightarrow> Held | Some r \<Rightarrow> DrainingReaders 0 True r\<rparr>)" (is "coordinator_inv ?t")
proof (rule commit_inv [OF inv])
  have ok: "settled s" "root \<noteq> None \<Longrightarrow> root_taken s" using inv at by (simp_all add: coordinator_inv_def)
  have "settled ?t = settled s" by (rule commit_clauses_cong(5)) (auto simp: at split: option.splits)
  moreover have "phase_stored ?t" "root_taken ?t = root_taken s" by (simp_all add: phase_stored_def root_taken_def)
  ultimately show "commit_ok ?t (lc_commit ?t)" using ok by (cases root) (simp_all add: all_idle_def)
  show "taken_root (lc_commit ?t) = taken_root (lc_commit s)" by (cases root) (simp_all add: at)
qed (use inv in \<open>simp_all add: coordinator_inv_def inv_counted_def\<close>)

lemma reopened_all: "reopened_to n n gate \<Longrightarrow> all_open n gate"
  by (simp add: reopened_to_def)

lemma drained_stripes:
  "drained_readers s \<Longrightarrow> k < reader_stripes \<Longrightarrow> is_sealed (publication_readers s k) \<and> active (publication_readers s k) = 0"
  by (simp add: drained_readers_def all_sealed_def all_idle_def active_zero_iff)

lemma drained_reopens: "drained_readers s \<Longrightarrow> reopened_to reader_stripes 0 (publication_readers s)"
  by (simp add: drained_readers_def stripe_ranges)

lemma drained_readersI:
  "settled s \<Longrightarrow> root_taken s \<Longrightarrow> all_idle reader_stripes (publication_readers s) \<Longrightarrow> drained_readers s"
  by (simp add: settled_not_open root_taken_def drained_readers_def)

lemma published_settled:
  "publishing p (Some p) s \<Longrightarrow> all_open reader_stripes (publication_readers s) \<Longrightarrow> settled s"
  by (auto simp: publishing_def settled_open)

lemma commit_move_inv:
  assumes inv: "coordinator_inv s" and move: "commit_move s t"
  shows "coordinator_inv t"
proof -
  have ok: "commit_ok s (lc_commit s)" using inv by (simp add: coordinator_inv_def)
  note point = commit_point_inv [OF inv] and same = commit_point_ok [of _ s]
  from move show ?thesis
  proof cases
    case (mutate given core m e returned root)
    then show ?thesis using mutate_inv [OF inv] by simp
  next
    case (check_stripe k idle p)
    then show ?thesis using ok drained_stripes [of s k] by (auto intro!: point)
  next
    case (check_sealed k p)
    then show ?thesis using ok drained_stripes [of s k] by (auto intro!: point)
  next
    case (check_reopen k p)
    then show ?thesis using ok drained_stripes [of s k] by (auto intro!: point)
  next
    case (checked_reopen p)
    then show ?thesis using ok drained_reopens [of s] by (auto intro!: point)
  next
    case (reopened p)
    then show ?thesis using ok reopened_all [of reader_stripes "publication_readers s"] published_settled [of p s]
      by (auto simp: same intro!: point)
  next
    case (drained r)
    then show ?thesis using ok drained_readersI by (auto simp: same intro!: point)
  next
    case (checked_null p)
    then show ?thesis using ok by (auto simp: publishing_def intro!: point)
  next
    case (seal_stripe k root)
    then show ?thesis using seal_stripe_inv [OF inv] by simp
  next
    case (clear root)
    then show ?thesis using clear_inv [OF inv] by simp
  next
    case (observe_stripe k idle p n c)
    then show ?thesis using observe_stripe_inv [OF inv] by simp
  next
    case (publish p)
    then show ?thesis using publish_inv [OF inv] by simp
  next
    case (reopen_stripe k p r c)
    then show ?thesis using reopen_stripe_inv [OF inv] by simp
  next
    case (store_phase root)
    then show ?thesis using store_phase_inv [OF inv] by simp
  next
    case (drain_stripe k idle r n c)
    then show ?thesis using drain_stripe_inv [OF inv] by simp
  next
    case (into_box r)
    then show ?thesis using reclaim_inv [OF inv] by simp
  qed (use ok in \<open>auto simp: same all_idle_def intro!: point\<close>)
qed

lemma coordinator_inv_new: "coordinator_inv (coordinator_new m)"
proof -
  have gate: "is_sealed (new_sealed :: u64)" "permits (new_sealed :: u64) = 0"
    using fields_new_sealed [OF usize_width] by simp_all
  show ?thesis
    by (simp add: coordinator_inv_def coordinator_new_def inv_counted_def counted_def inv_points_def inv_coherent_def
        allocated_def core_new_def settled_def phase_stored_def stripe_ranges gate)
qed

lemma coordinator_move_inv:
  assumes "coordinator_inv s" "coordinator_move s t"
  shows "coordinator_inv t"
  using assms(2)
proof cases
  case (by_module m)
  have "commit_ok t (lc_commit s) = commit_ok s (lc_commit s)"
    by (cases "lc_commit s") (simp_all add: by_module commit_defs cong: option.case_cong LifecycleState.case_cong)
  then show ?thesis using assms(1)
    by (simp add: by_module coordinator_inv_def inv_counted_def inv_points_def inv_coherent_def)
qed (use assms(1) reader_move_inv commit_move_inv in blast)+

interpretation coordinator: transition_system "\<lambda>s. \<exists>m. s = coordinator_new m" coordinator_move coordinator_inv
  by unfold_locales (auto intro: coordinator_inv_new coordinator_move_inv)

lemma coordinator_reachable_inv: "coordinator_reachable s \<Longrightarrow> coordinator_inv s"
  unfolding coordinator_reachable_def using coordinator.inv_reachable by blast

section \<open>Publication completes\<close>

text \<open>A reachable state at a point of the commit, with the given core and readers.\<close>

definition commit_at ::
    "'a LifecycleCore \<Rightarrow> ModuleRuntime \<Rightarrow> (nat \<Rightarrow> reader_point) \<Rightarrow> 'a commit_point \<Rightarrow> 'a LifecycleCoordinator \<Rightarrow> bool" where
  "commit_at core m rd pc s \<longleftrightarrow>
     coordinator_reachable s \<and> lc_core s = core \<and> lc_module s = m \<and> lc_reader s = rd \<and> lc_commit s = pc"

lemma coordinator_step: "coordinator_reachable s \<Longrightarrow> coordinator_move s t \<Longrightarrow> coordinator_reachable t"
  unfolding coordinator_reachable_def by (meson rtranclp.rtrancl_into_rtrancl)

lemma coordinator_steps: "coordinator_move\<^sup>*\<^sup>* s t \<Longrightarrow> coordinator_reachable s \<Longrightarrow> coordinator_reachable t"
  by (induction rule: rtranclp_induct) (auto intro: coordinator_step)

lemma commit_at_step:
  assumes "commit_at core m rd pc s" "commit_move s t" "lc_core t = core" "lc_module t = m" "lc_reader t = rd" "lc_commit t = pc'"
  shows "coordinator_move s t \<and> commit_at core m rd pc' t"
  using assms coordinator_step by_commit by (metis commit_at_def)

lemma commit_at_ok: "commit_at core m rd pc s \<Longrightarrow> commit_ok s pc"
  using coordinator_reachable_inv by (auto simp: commit_at_def coordinator_inv_def)

lemma check_stripe_at:
  assumes "commit_at core m rd (CheckingActive k True p) s" "k < reader_stripes"
  shows "\<exists>t. coordinator_move s t \<and> commit_at core m rd (CheckingActive (Suc k) True p) t"
proof -
  have "active (publication_readers s k) = 0" using commit_at_ok [OF assms(1)] drained_stripes assms(2) by auto
  then show ?thesis
    using commit_at_step [OF assms(1) check_stripe, of k True p] assms by (auto simp: commit_at_def)
qed

lemma check_sealed_at:
  assumes "commit_at core m rd (CheckingSealed k p) s" "k < reader_stripes"
  shows "\<exists>t. coordinator_move s t \<and> commit_at core m rd (CheckingSealed (Suc k) p) t"
proof -
  have "is_sealed (publication_readers s k)" using commit_at_ok [OF assms(1)] drained_stripes assms(2) by auto
  then show ?thesis
    using commit_at_step [OF assms(1) check_sealed, of k p] assms by (auto simp: commit_at_def)
qed

lemma observe_stripe_at:
  assumes at: "commit_at core m rd (ObservingReaders k True p) s" and k: "k < reader_stripes"
  shows "\<exists>t. coordinator_move s t \<and> commit_at core m rd (ObservingReaders (Suc k) True p) t"
proof -
  obtain n c where obs: "mark_waiting (publication_readers s k) = (n, c)" by fastforce
  have "permits (publication_readers s k) = 0"
    using commit_at_ok [OF at] k by (simp add: drained_readers_def all_idle_def)
  then have "n = 0" using observe_ranges(3) [where gate = "publication_readers s", OF usize_width obs] by simp
  then show ?thesis
    using commit_at_step [OF at observe_stripe [where idle = True and p = p, OF _ k obs]] at by (auto simp: commit_at_def)
qed

lemma check_reopen_at:
  assumes "commit_at core m rd (CheckingReopen k p) s" "k < reader_stripes"
  shows "\<exists>t. coordinator_move s t \<and> commit_at core m rd (CheckingReopen (Suc k) p) t"
proof -
  have "is_sealed (publication_readers s k)" "active (publication_readers s k) = 0"
    using commit_at_ok [OF assms(1)] drained_stripes assms(2) by auto
  then show ?thesis
    using commit_at_step [OF assms(1) check_reopen, of k p] assms by (auto simp: commit_at_def)
qed

lemma reopen_stripe_at:
  assumes at: "commit_at core m rd (ReopeningReaders k p) s" and k: "k < reader_stripes"
  shows "\<exists>t. coordinator_move s t \<and> commit_at core m rd (ReopeningReaders (Suc k) p) t"
proof -
  obtain r c where re: "reopen (publication_readers s k) = Returns (r, c)"
    by (cases "is_sealed (publication_readers s k) \<and> permits (publication_readers s k) = 0") (auto simp: reopen_cases)
  have "r = Inr ()"
    using reopened_Suc(1) [where gate = "publication_readers s", OF _ k re] commit_at_ok [OF at] by simp
  then show ?thesis
    using commit_at_step [OF at reopen_stripe [where p = p, OF _ k re]] at by (auto simp: commit_at_def)
qed

text \<open>
  A publication that has begun can run to its end, whatever its readers do: none of its checks
  stops it.
\<close>

lemma publication_completes:
  assumes "commit_at core m rd (CheckingActive 0 True p) s"
  shows "\<exists>t. coordinator_move\<^sup>*\<^sup>* s t \<and> commit_at core m rd Held t"
proof -
  have chain: "\<exists>u. coordinator_move\<^sup>*\<^sup>* s u \<and> commit_at core m rd pc' u"
    if "\<exists>t. coordinator_move\<^sup>*\<^sup>* s t \<and> commit_at core m rd pc t"
      and "\<And>t. commit_at core m rd pc t \<Longrightarrow> \<exists>u. coordinator_move\<^sup>*\<^sup>* t u \<and> commit_at core m rd pc' u" for pc pc'
    using that by (meson rtranclp_trans)
  have one: "\<exists>u. coordinator_move\<^sup>*\<^sup>* t u \<and> commit_at core m rd pc' u"
    if "commit_at core m rd pc t" "commit_move t u" "lc_core u = core" "lc_module u = m" "lc_reader u = rd" "lc_commit u = pc'"
    for t u pc pc'
    using commit_at_step [OF that] by blast
  note loop = loop_ends [where n = reader_stripes and r = coordinator_move]
  have "\<exists>t. coordinator_move\<^sup>*\<^sup>* s t \<and> commit_at core m rd (CheckingActive reader_stripes True p) t"
    by (rule loop [where P = "\<lambda>k. commit_at core m rd (CheckingActive k True p)" and k = 0]) (use assms in \<open>auto intro: check_stripe_at\<close>)
  then have "\<exists>t. coordinator_move\<^sup>*\<^sup>* s t \<and> commit_at core m rd (CheckingNull p) t"
    by (rule chain) (rule one [OF _ checked_active], auto simp: commit_at_def)
  then have "\<exists>t. coordinator_move\<^sup>*\<^sup>* s t \<and> commit_at core m rd (CheckingSealed 0 p) t"
    by (rule chain) (rule one [OF _ checked_null], auto simp: commit_at_def dest!: coordinator_reachable_inv
        simp: coordinator_inv_def publishing_def)
  then have "\<exists>t. coordinator_move\<^sup>*\<^sup>* s t \<and> commit_at core m rd (CheckingSealed reader_stripes p) t"
    by (rule chain) (rule loop [where P = "\<lambda>k. commit_at core m rd (CheckingSealed k p)" and k = 0], auto intro: check_sealed_at)
  then have "\<exists>t. coordinator_move\<^sup>*\<^sup>* s t \<and> commit_at core m rd (ObservingReaders 0 True p) t"
    by (rule chain) (rule one [OF _ checked_sealed], auto simp: commit_at_def)
  then have "\<exists>t. coordinator_move\<^sup>*\<^sup>* s t \<and> commit_at core m rd (ObservingReaders reader_stripes True p) t"
    by (rule chain) (rule loop [where P = "\<lambda>k. commit_at core m rd (ObservingReaders k True p)" and k = 0], auto intro: observe_stripe_at)
  then have "\<exists>t. coordinator_move\<^sup>*\<^sup>* s t \<and> commit_at core m rd (StoringPublication p) t"
    by (rule chain) (rule one [OF _ observed_drained], auto simp: commit_at_def)
  then have "\<exists>t. coordinator_move\<^sup>*\<^sup>* s t \<and> commit_at core m rd (CheckingReopen 0 p) t"
    by (rule chain) (rule one [OF _ publish], auto simp: commit_at_def)
  then have "\<exists>t. coordinator_move\<^sup>*\<^sup>* s t \<and> commit_at core m rd (CheckingReopen reader_stripes p) t"
    by (rule chain) (rule loop [where P = "\<lambda>k. commit_at core m rd (CheckingReopen k p)" and k = 0], auto intro: check_reopen_at)
  then have "\<exists>t. coordinator_move\<^sup>*\<^sup>* s t \<and> commit_at core m rd (ReopeningReaders 0 p) t"
    by (rule chain) (rule one [OF _ checked_reopen], auto simp: commit_at_def)
  then have "\<exists>t. coordinator_move\<^sup>*\<^sup>* s t \<and> commit_at core m rd (ReopeningReaders reader_stripes p) t"
    by (rule chain) (rule loop [where P = "\<lambda>k. commit_at core m rd (ReopeningReaders k p)" and k = 0], auto intro: reopen_stripe_at)
  then have "\<exists>t. coordinator_move\<^sup>*\<^sup>* s t \<and> commit_at core m rd (StoringPhase None) t"
    by (rule chain) (rule one [OF _ reopened], auto simp: commit_at_def)
  then show ?thesis
    by (rule chain) (rule one [OF _ store_phase], auto simp: commit_at_def)
qed

section \<open>Properties\<close>

text \<open>
  C8. What a reader uses is allocated. In every interleaving of readers with the transitions of
  the lifecycle, no reader uses freed memory: the publication of an admission leads to a root
  and services that are still owned, the root of an execution lease is still owned, and when
  \<open>take_current_bundle\<close> turns the root into a box again nobody holds a permit and none can be
  acquired.
\<close>

theorem readers_protected:
  assumes "coordinator_reachable s"
  shows "lc_reader s i \<noteq> Faulted \<and>
    (\<forall>p k. lc_reader s i = Admitted p k \<longrightarrow> (\<exists>c. allocated s = Some c \<and> pointer (cg_publication c) = p \<and>
       admission_generation s p = Some (pointee (cg_generation c)) \<and>
       admission_services s p = Some (pointee (cg_services c)))) \<and>
    (\<forall>r k. lc_reader s i = Leased r k \<longrightarrow> (\<exists>c. allocated s = Some c \<and> pointer (cg_generation c) = r \<and>
       root_at s r = Some (pointee (cg_generation c)))) \<and>
    (\<forall>r. lc_commit s = Reclaiming r \<longrightarrow> permit_slot (lc_reader s i) = None \<and>
       (\<forall>k < reader_stripes. is_sealed (publication_readers s k)))"
proof (intro conjI allI impI)
  have points: "inv_points s" and coherent: "inv_coherent s" and ok: "commit_ok s (lc_commit s)"
    and count: "counted reader_stripes (publication_readers s) permit_slot (lc_reader s)"
    using coordinator_reachable_inv [OF assms] by (simp_all add: coordinator_inv_def inv_counted_def)
  show "lc_reader s i \<noteq> Faulted" using points by (simp add: inv_points_def)
  show "\<exists>c. allocated s = Some c \<and> pointer (cg_publication c) = p \<and>
       admission_generation s p = Some (pointee (cg_generation c)) \<and>
       admission_services s p = Some (pointee (cg_services c))" if i: "lc_reader s i = Admitted p k" for p k
  proof -
    obtain c where c: "allocated s = Some c" "pointer (cg_publication c) = p" using points i by (auto simp: inv_points_def)
    from admission_ok [OF coherent this] c show ?thesis by blast
  qed
  show "\<exists>c. allocated s = Some c \<and> pointer (cg_generation c) = r \<and> root_at s r = Some (pointee (cg_generation c))"
    if i: "lc_reader s i = Leased r k" for r k
    using points i by (fastforce simp: inv_points_def root_at_def)
  fix r assume r: "lc_commit s = Reclaiming r"
  then have drained: "drained_readers s" using ok by simp
  show "permit_slot (lc_reader s i) = None"
    by (rule counted_idle [OF count]) (use drained in \<open>simp add: drained_readers_def all_idle_def\<close>)
  show "is_sealed (publication_readers s k)" if "k < reader_stripes" for k using drained that drained_stripes by blast
qed

text \<open>
  C16. The projection agrees with the core. No transition ever fails one of its checks. Whenever
  no transition is being committed, the projected phase decodes to the phase of the core, the
  publication is that of the open generation and null in every other state, and the stripes
  admit readers exactly while the core is open. At any time, what is published is allocated.
\<close>

theorem projection_agrees:
  assumes "coordinator_reachable s"
  shows "lc_commit s \<noteq> FailStopped \<and>
    (lc_commit s = Unlocked \<or> lc_commit s = Held \<longrightarrow>
       phase_from_raw (lc_phase s) = Returns (lifecycle_phase (lc_state s)) \<and>
       (\<forall>p. lc_publication s = Some p \<longleftrightarrow> (\<exists>b. lc_state s = Open b \<and> pointer (on_publication b) = p)) \<and>
       (\<forall>k < reader_stripes. is_sealed (publication_readers s k) \<longleftrightarrow> lifecycle_phase (lc_state s) \<noteq> PhaseOpen)) \<and>
    (\<forall>p. lc_publication s = Some p \<longrightarrow> admission_generation s p \<noteq> None \<and> admission_services s p \<noteq> None)"
proof -
  have ok: "commit_ok s (lc_commit s)" and coherent: "inv_coherent s"
    using coordinator_reachable_inv [OF assms] by (simp_all add: coordinator_inv_def)
  have raw: "phase_from_raw (phase_raw ph) = Returns ph" for ph
    by (cases ph) (simp_all add: phase_from_raw_def phase_raw_def)
  have "admission_generation s p \<noteq> None \<and> admission_services s p \<noteq> None" if "lc_publication s = Some p" for p
    using publication_allocated [OF ok that] admission_ok [OF coherent] by fastforce
  moreover have "lc_commit s \<noteq> FailStopped" using ok by auto
  moreover have "phase_from_raw (lc_phase s) = Returns (lifecycle_phase (lc_state s)) \<and>
       (\<forall>p. lc_publication s = Some p \<longleftrightarrow> (\<exists>b. lc_state s = Open b \<and> pointer (on_publication b) = p)) \<and>
       (\<forall>k < reader_stripes. is_sealed (publication_readers s k) \<longleftrightarrow> lifecycle_phase (lc_state s) \<noteq> PhaseOpen)"
    if "lc_commit s = Unlocked \<or> lc_commit s = Held"
  proof -
    have "settled s" "phase_stored s" using ok that by auto
    then show ?thesis
      by (cases "lc_state s") (auto simp: settled_def phase_stored_def raw all_open_def all_sealed_def)
  qed
  ultimately show ?thesis by blast
qed

section \<open>An open generation with a reader\<close>

text \<open>The run that opens the first generation, and a reader that it admits.\<close>

definition example_bundle :: "nat OpenGeneration" where
  "example_bundle = new_bundle (1, 2, 3) (RuntimeGeneration 1) example_generation 11 (ModuleEpochId 1)"

lemma mutate_at:
  assumes "commit_at core m rd Held s" "locked_op given (core, m) (core', m) e returned None"
  shows "e = Keep \<Longrightarrow> \<exists>t. commit_at core' m rd Held t"
    "e = Publish p \<Longrightarrow> \<exists>t. commit_at core' m rd Held t"
proof -
  let ?t = "s\<lparr>lc_core := core', lc_module := m, lc_commit := start_commit e None\<rparr>"
  have at: "lc_core s = core" "lc_module s = m" "lc_commit s = Held" "lc_reader s = rd" "coordinator_reachable s"
    using assms(1) by (simp_all add: commit_at_def)
  have "commit_move s ?t" by (rule mutate) (use at assms(2) in simp_all)
  then have begun: "commit_at core' m rd (start_commit e None) ?t"
    using coordinator_step [OF at(5) by_commit] at by (simp add: commit_at_def)
  show "\<exists>t. commit_at core' m rd Held t" if "e = Keep"
  proof -
    have "commit_at core' m rd (StoringPhase None) ?t" using begun that by simp
    from commit_at_step [OF this store_phase [of _ None]] show ?thesis using that at by (auto simp: commit_at_def)
  qed
  show "\<exists>t. commit_at core' m rd Held t" if "e = Publish p"
    using publication_completes [of core' m rd p ?t] begun that by auto
qed

definition example_core :: "nat LifecycleState \<Rightarrow> nat LifecycleCore" where
  "example_core st = core_new\<lparr>next_lifecycle_attempt := 2, host_intent := IntentNone, state := st\<rparr>"

lemma example_core_simps [simp]:
  "state (example_core st) = st" "(example_core st)\<lparr>state := st'\<rparr> = example_core st'"
  by (simp_all add: example_core_def core_new_def)

lemma example_opened:
  "\<exists>s. commit_at ((example_core (Open example_bundle))\<lparr>last_committed_generation := Some (RuntimeGeneration 1)\<rparr>)
     example_module (\<lambda>_. Away) Held s"
proof -
  have "coordinator_reachable (coordinator_new example_module :: nat LifecycleCoordinator)"
    by (auto simp: coordinator_reachable_def)
  from coordinator_step [OF this by_commit [OF lock]]
  have "\<exists>s. commit_at (core_new :: nat LifecycleCore) example_module (\<lambda>_. Away) Held s"
    by (auto simp: commit_at_def coordinator_new_def)
  moreover have "begin_opening_if_closed (RemovalEpoch 0) core_new =
      (Inr (OpenAttemptId 1), example_core (Opening (OpenAttemptId 1) OpeningEmpty), Keep)"
    by (simp add: begin_opening_if_closed_def core_new_def open_attempt_new_def nonzero_new_def checked_add_def example_core_def)
  ultimately have "\<exists>s. commit_at (example_core (Opening (OpenAttemptId 1) OpeningEmpty)) example_module (\<lambda>_. Away) Held s"
    by (blast intro: mutate_at(1) op_begin_opening)
  moreover have "stage_opening_generation (OpenAttemptId 1) example_generation (example_core (Opening (OpenAttemptId 1) OpeningEmpty)) =
      (Inr (), example_core (Opening (OpenAttemptId 1) (OpeningStaged example_generation)), Keep)"
    by (simp add: stage_opening_generation_def stage_opening_generation_locked_def)
  ultimately have "\<exists>s. commit_at (example_core (Opening (OpenAttemptId 1) (OpeningStaged example_generation)))
      example_module (\<lambda>_. Away) Held s"
    by (blast intro: mutate_at(1) op_stage)
  moreover have "publish_opening_generation_locked (1, 2, 3) (RuntimeGeneration 1) 11 (ModuleEpochId 1)
      (example_core (Opening (OpenAttemptId 1) (OpeningStaged example_generation))) =
      (Inr (), example_core (Opening (OpenAttemptId 1) (OpeningPublished example_bundle)), Keep)"
    by (simp add: publish_opening_generation_locked_def example_bundle_def)
  ultimately have "\<exists>s. commit_at (example_core (Opening (OpenAttemptId 1) (OpeningPublished example_bundle)))
      example_module (\<lambda>_. Away) Held s"
    by (blast intro: mutate_at(1) op_publish)
  moreover have "commit_open (RuntimeGeneration 1) (example_core (Opening (OpenAttemptId 1) (OpeningPublished example_bundle))) =
      (Inr (OpenAttemptId 1), (example_core (Open example_bundle))\<lparr>last_committed_generation := Some (RuntimeGeneration 1)\<rparr>,
       publish_effect example_bundle)"
    by (simp add: commit_open_def example_bundle_def new_bundle_def example_core_def core_new_def)
  moreover have "publish_effect example_bundle = Publish 3"
    by (simp add: publish_effect_def example_bundle_def new_bundle_def)
  ultimately show ?thesis by (metis mutate_at(2) op_commit_open)
qed

lemma example_admitted:
  "\<exists>s :: nat LifecycleCoordinator. coordinator_reachable s \<and> lc_commit s = Held \<and> lc_state s = Open example_bundle \<and>
     lc_reader s 0 = Admitted 3 0"
proof -
  obtain s :: "nat LifecycleCoordinator" where s: "coordinator_reachable s" "lc_commit s = Held"
      "lc_state s = Open example_bundle" "lc_reader s = (\<lambda>_. Away)"
    using example_opened by (auto simp: commit_at_def)
  have inv: "settled s" "counted reader_stripes (publication_readers s) permit_slot (lc_reader s)"
    using coordinator_reachable_inv [OF s(1)] s(2) by (simp_all add: coordinator_inv_def inv_counted_def)
  then have pub: "lc_publication s = Some 3" and open0: "\<not> is_sealed (publication_readers s 0)"
    using s(3) by (simp_all add: settled_def example_bundle_def new_bundle_def all_open_def reader_stripes_def)
  have idle: "permits (publication_readers s 0) = 0"
    using countedD(2) [OF inv(2), of 0] s(4) by (simp add: reader_stripes_def)
  obtain c where "try_acquire (publication_readers s 0) = Returns (Inr (), c)"
    using open0 idle by (auto simp: try_acquire_cases active_limit_def)
  with s have "reader_move 0 s (set_reader_point 0 (Entered 0) (set_reader_stripe 0 c s))"
    by (intro admit_enter) (simp_all add: reader_stripes_def)
  from coordinator_step [OF s(1) by_reader [OF this]]
  have "coordinator_reachable (set_reader_point 0 (Entered 0) (set_reader_stripe 0 c s))" (is "coordinator_reachable ?t") .
  moreover have "reader_move 0 ?t (set_reader_point 0 (Admitted 3 0) ?t)" using pub by (intro admit_load) simp_all
  ultimately have "coordinator_reachable (set_reader_point 0 (Admitted 3 0) ?t)" using coordinator_step by_reader by blast
  then show ?thesis using s by (intro exI [of _ "set_reader_point 0 (Admitted 3 0) ?t"]) simp
qed

theorem readers_protected_witness:
  "\<exists>s :: nat LifecycleCoordinator. coordinator_reachable s \<and> lc_reader s 0 = Admitted 3 0 \<and>
     admission_services s 3 = Some 11"
proof -
  obtain s :: "nat LifecycleCoordinator" where s: "coordinator_reachable s" "lc_state s = Open example_bundle"
      "lc_reader s 0 = Admitted 3 0"
    using example_admitted by blast
  have "allocated s = Some (fst (bundle_into_closing example_bundle))" using allocated_open [OF s(2)] .
  then show ?thesis using readers_protected [OF s(1), of 0] s
    by (auto simp: bundle_into_closing_def example_bundle_def new_bundle_def)
qed

theorem projection_agrees_witness:
  "\<exists>s :: nat LifecycleCoordinator. coordinator_reachable s \<and> lc_commit s = Held \<and> lc_publication s = Some 3 \<and>
     phase_from_raw (lc_phase s) = Returns PhaseOpen"
proof -
  obtain s :: "nat LifecycleCoordinator" where s: "coordinator_reachable s" "lc_commit s = Held" "lc_state s = Open example_bundle"
    using example_admitted by blast
  then show ?thesis using projection_agrees [OF s(1)]
    by (intro exI [of _ s]) (auto simp: example_bundle_def new_bundle_def)
qed

end
