(* ===== verification/Matrices.thy ===== *)
theory Matrices
  imports Errors
begin

text \<open>
  Rectangular values (\<open>crates/xlfn/src/value/matrix.rs\<close>): the dimension limits shared by all
  arrays that cross the worksheet boundary, the owned row-major \<open>Matrix\<close>, the call-scoped
  \<open>MatrixRef\<close>, and the sequences \<open>Row\<close>, \<open>Column\<close> and \<open>BoundedVarArgs\<close>. Sizes are numbers; the two
  target widths differ in the limits and in where \<open>usize\<close> overflows, so both are arguments of
  the definitions that depend on them.
\<close>

section \<open>Definitions\<close>

subsection \<open>Targets and limits\<close>

datatype target = Width32 | Width64

fun usize_bits :: "target \<Rightarrow> nat" where
  "usize_bits Width32 = 32"
| "usize_bits Width64 = 64"

definition usize_max :: "target \<Rightarrow> nat" where
  "usize_max t = 2 ^ usize_bits t - 1"

definition usize_checked :: "target \<Rightarrow> nat \<Rightarrow> nat option" where
  "usize_checked t n = (if n \<le> usize_max t then Some n else None)"

definition EXCEL_MAX_ROWS :: nat where "EXCEL_MAX_ROWS = 1048576"
definition EXCEL_MAX_COLUMNS :: nat where "EXCEL_MAX_COLUMNS = 16384"

fun MAX_ARRAY_ELEMENTS :: "target \<Rightarrow> nat" where
  "MAX_ARRAY_ELEMENTS Width32 = 1000000"
| "MAX_ARRAY_ELEMENTS Width64 = 4000000"

fun MAX_ARRAY_BYTES :: "target \<Rightarrow> nat" where
  "MAX_ARRAY_BYTES Width32 = 64 * 1024 * 1024"
| "MAX_ARRAY_BYTES Width64 = 256 * 1024 * 1024"

definition array_element_count :: "target \<Rightarrow> nat \<Rightarrow> nat \<Rightarrow> string \<Rightarrow> nat XllResult" where
  "array_element_count t r c argument =
     (if r > EXCEL_MAX_ROWS then Inl (Input argument (TooLarge EXCEL_MAX_ROWS r))
      else if c > EXCEL_MAX_COLUMNS then Inl (Input argument (TooLarge EXCEL_MAX_COLUMNS c))
      else let elements = r * c in
        if elements > MAX_ARRAY_ELEMENTS t
        then Inl (Input argument (TooLarge (MAX_ARRAY_ELEMENTS t)
               (case usize_checked t elements of Some n \<Rightarrow> n | None \<Rightarrow> usize_max t)))
        else Inr elements)"

definition matrix_element_count :: "target \<Rightarrow> nat \<Rightarrow> nat \<Rightarrow> string \<Rightarrow> nat XllResult" where
  "matrix_element_count t r c argument =
     (if r = 0 \<or> c = 0 then Inl (Input argument (Malformed ''matrix dimensions must be non-zero''))
      else array_element_count t r c argument)"

definition validate_matrix_dimensions_for_argument ::
    "target \<Rightarrow> nat \<Rightarrow> nat \<Rightarrow> nat \<Rightarrow> string \<Rightarrow> unit XllResult" where
  "validate_matrix_dimensions_for_argument t r c actual argument =
     bind_result (matrix_element_count t r c argument) (\<lambda>expected.
       if expected \<noteq> actual then Inl (ElementCountMismatch r c expected actual) else Inr ())"

definition validate_matrix_dimensions :: "target \<Rightarrow> nat \<Rightarrow> nat \<Rightarrow> nat \<Rightarrow> unit XllResult" where
  "validate_matrix_dimensions t r c actual =
     validate_matrix_dimensions_for_argument t r c actual ''<matrix>''"

definition validated_element_count :: "target \<Rightarrow> nat \<Rightarrow> nat \<Rightarrow> nat XllResult" where
  "validated_element_count t r c = matrix_element_count t r c ''<matrix>''"

definition checked_index :: "target \<Rightarrow> nat \<Rightarrow> nat \<Rightarrow> nat \<Rightarrow> nat \<Rightarrow> nat option" where
  "checked_index t r c i j =
     (if i \<ge> r \<or> j \<ge> c then None
      else Option.bind (usize_checked t (i * c)) (\<lambda>start. usize_checked t (start + j)))"

subsection \<open>Matrices\<close>

record 'a Matrix =
  m_rows :: nat
  m_columns :: nat
  m_data :: "'a list"

definition matrix_new :: "target \<Rightarrow> nat \<Rightarrow> nat \<Rightarrow> 'a list \<Rightarrow> 'a Matrix XllResult" where
  "matrix_new t r c data =
     bind_result (validate_matrix_dimensions t r c (length data))
       (\<lambda>_. Inr \<lparr> m_rows = r, m_columns = c, m_data = data \<rparr>)"

definition matrix_from_fn :: "target \<Rightarrow> nat \<Rightarrow> nat \<Rightarrow> (nat \<Rightarrow> nat \<Rightarrow> 'a) \<Rightarrow> 'a Matrix XllResult" where
  "matrix_from_fn t r c f =
     bind_result (validated_element_count t r c) (\<lambda>count.
       Inr \<lparr> m_rows = r, m_columns = c,
             m_data = concat (map (\<lambda>row. map (f row) [0..<c]) [0..<r]) \<rparr>)"

definition matrix_fill :: "target \<Rightarrow> nat \<Rightarrow> nat \<Rightarrow> 'a \<Rightarrow> 'a Matrix XllResult" where
  "matrix_fill t r c v =
     bind_result (validated_element_count t r c) (\<lambda>count.
       Inr \<lparr> m_rows = r, m_columns = c, m_data = replicate count v \<rparr>)"

definition matrix_shape :: "'a Matrix \<Rightarrow> Shape" where
  "matrix_shape m = \<lparr> rows = m_rows m, columns = m_columns m \<rparr>"

text \<open>\<open>slice::get\<close> of an index and of a range, and a write through \<open>get_mut\<close>.\<close>

definition slice_get :: "'a list \<Rightarrow> nat \<Rightarrow> 'a option" where
  "slice_get xs i = (if i < length xs then Some (xs ! i) else None)"

definition slice_range :: "'a list \<Rightarrow> nat \<Rightarrow> nat \<Rightarrow> 'a list option" where
  "slice_range xs start stop =
     (if start \<le> stop \<and> stop \<le> length xs then Some (take (stop - start) (drop start xs)) else None)"

definition matrix_get :: "target \<Rightarrow> 'a Matrix \<Rightarrow> nat \<Rightarrow> nat \<Rightarrow> 'a option" where
  "matrix_get t m i j = Option.bind (checked_index t (m_rows m) (m_columns m) i j) (slice_get (m_data m))"

definition matrix_get_mut :: "target \<Rightarrow> 'a Matrix \<Rightarrow> nat \<Rightarrow> nat \<Rightarrow> 'a \<Rightarrow> 'a Matrix option" where
  "matrix_get_mut t m i j v =
     Option.bind (checked_index t (m_rows m) (m_columns m) i j) (\<lambda>index.
       map_option (\<lambda>_. m\<lparr> m_data := (m_data m)[index := v] \<rparr>) (slice_get (m_data m) index))"

definition matrix_row :: "target \<Rightarrow> 'a Matrix \<Rightarrow> nat \<Rightarrow> 'a list option" where
  "matrix_row t m i =
     (if i \<ge> m_rows m then None
      else Option.bind (usize_checked t (i * m_columns m)) (\<lambda>start.
           Option.bind (usize_checked t (start + m_columns m)) (\<lambda>stop. slice_range (m_data m) start stop)))"

text \<open>\<open>chunks_exact\<close>: the whole chunks only. A chunk size of zero panics.\<close>

function exact_chunks :: "nat \<Rightarrow> 'a list \<Rightarrow> 'a list list" where
  "exact_chunks n xs = (if n = 0 \<or> length xs < n then [] else take n xs # exact_chunks n (drop n xs))"
  by pat_completeness auto
termination by (relation "measure (length \<circ> snd)") auto

declare exact_chunks.simps [simp del]

definition matrix_rows_mut :: "'a Matrix \<Rightarrow> 'a list list run" where
  "matrix_rows_mut m = (if m_columns m = 0 then Aborts else Returns (exact_chunks (m_columns m) (m_data m)))"

text \<open>\<open>step_by\<close>: the first element and every \<open>n\<close>-th after it; a step of zero panics.\<close>

function every_nth :: "nat \<Rightarrow> 'a list \<Rightarrow> 'a list" where
  "every_nth n [] = []"
| "every_nth n (x # xs) = x # every_nth n (drop (n - 1) xs)"
  by pat_completeness auto
termination by (relation "measure (length \<circ> snd)") auto

definition matrix_column :: "'a Matrix \<Rightarrow> nat \<Rightarrow> 'a list option" where
  "matrix_column m j = (if j < m_columns m then Some (every_nth (m_columns m) (drop j (m_data m))) else None)"

primrec map_results :: "('a \<Rightarrow> 'e + 'b) \<Rightarrow> 'a list \<Rightarrow> 'e + 'b list" where
  "map_results f [] = Inr []"
| "map_results f (x # xs) = bind_result (f x) (\<lambda>y. bind_result (map_results f xs) (\<lambda>ys. Inr (y # ys)))"

definition matrix_try_map :: "'a Matrix \<Rightarrow> ('a \<Rightarrow> 'e + 'b) \<Rightarrow> 'e + 'b Matrix" where
  "matrix_try_map m f =
     bind_result (map_results f (m_data m))
       (\<lambda>data. Inr \<lparr> m_rows = m_rows m, m_columns = m_columns m, m_data = data \<rparr>)"

definition matrix_try_from :: "target \<Rightarrow> 'a list list \<Rightarrow> 'a Matrix XllResult" where
  "matrix_try_from t rs =
     (let r = length rs; c = (case rs of [] \<Rightarrow> 0 | row # _ \<Rightarrow> length row)
      in bind_result (validated_element_count t r c) (\<lambda>count.
         bind_result (each_result (\<lambda>row. if length row \<noteq> c
             then Inl (Input ''<matrix>'' (Malformed ''matrix rows must have equal lengths'')) else Inr ()) rs) (\<lambda>_.
           Inr \<lparr> m_rows = r, m_columns = c, m_data = concat rs \<rparr>)))"

text \<open>Indexing: the assertions, the overflow and the slice index panic.\<close>

definition matrix_index :: "target \<Rightarrow> 'a Matrix \<Rightarrow> nat \<Rightarrow> nat \<Rightarrow> 'a run" where
  "matrix_index t m i j =
     (if \<not> i < m_rows m \<or> \<not> j < m_columns m then Aborts
      else bind_run (unwrap_or_abort (Option.bind (usize_checked t (i * m_columns m)) (\<lambda>s. usize_checked t (s + j))))
        (\<lambda>index. unwrap_or_abort (slice_get (m_data m) index)))"

definition matrix_index_mut :: "target \<Rightarrow> 'a Matrix \<Rightarrow> nat \<Rightarrow> nat \<Rightarrow> 'a \<Rightarrow> 'a Matrix run" where
  "matrix_index_mut t m i j v =
     (if \<not> i < m_rows m \<or> \<not> j < m_columns m then Aborts
      else let index = i * m_columns m + j in
        if index > usize_max t \<or> \<not> index < length (m_data m) then Aborts
        else Returns (m\<lparr> m_data := (m_data m)[index := v] \<rparr>))"

text \<open>
  A \<open>MatrixRef\<close> has the same fields over a borrowed slice; its \<open>get\<close>, \<open>row\<close> and \<open>column\<close> are those
  above. Its index has no overflow check of its own.
\<close>

definition matrix_ref_from_slice :: "target \<Rightarrow> nat \<Rightarrow> nat \<Rightarrow> 'a list \<Rightarrow> 'a Matrix XllResult" where
  "matrix_ref_from_slice t r c data =
     bind_result (validate_matrix_dimensions t r c (length data))
       (\<lambda>_. Inr \<lparr> m_rows = r, m_columns = c, m_data = data \<rparr>)"

definition matrix_ref_to_owned :: "target \<Rightarrow> 'a Matrix \<Rightarrow> 'a Matrix XllResult" where
  "matrix_ref_to_owned t m = matrix_new t (m_rows m) (m_columns m) (m_data m)"

subsection \<open>Sequences\<close>

datatype 'a Row = Row (row_data: "'a list")
datatype 'a Column = Column (column_data: "'a list")
datatype 'a BoundedVarArgs = BoundedVarArgs (varargs_data: "'a list")

definition row_new :: "target \<Rightarrow> 'a list \<Rightarrow> 'a Row XllResult" where
  "row_new t data = bind_result (matrix_new t 1 (length data) data) (\<lambda>m. Inr (Row (m_data m)))"

definition column_new :: "target \<Rightarrow> 'a list \<Rightarrow> 'a Column XllResult" where
  "column_new t data = bind_result (matrix_new t (length data) 1 data) (\<lambda>m. Inr (Column (m_data m)))"

definition varargs_new :: "nat \<Rightarrow> 'a list \<Rightarrow> 'a BoundedVarArgs XllResult" where
  "varargs_new maximum values =
     (if maximum = 0 then Inl (Input ''<varargs>'' (Malformed ''bounded varargs maximum must be non-zero''))
      else if length values > maximum then Inl (Input ''<varargs>'' (TooLarge maximum (length values)))
      else Inr (BoundedVarArgs values))"

section \<open>Properties\<close>

definition matrix_ok :: "target \<Rightarrow> 'a Matrix \<Rightarrow> bool" where
  "matrix_ok t m \<longleftrightarrow> 0 < m_rows m \<and> m_rows m \<le> EXCEL_MAX_ROWS \<and>
     0 < m_columns m \<and> m_columns m \<le> EXCEL_MAX_COLUMNS \<and>
     m_rows m * m_columns m \<le> MAX_ARRAY_ELEMENTS t \<and> length (m_data m) = m_rows m * m_columns m"

definition dimensions_ok :: "target \<Rightarrow> nat \<Rightarrow> nat \<Rightarrow> bool" where
  "dimensions_ok t r c \<longleftrightarrow> 0 < r \<and> r \<le> EXCEL_MAX_ROWS \<and> 0 < c \<and> c \<le> EXCEL_MAX_COLUMNS \<and>
     r * c \<le> MAX_ARRAY_ELEMENTS t"

lemma matrix_ok_dimensions:
  "matrix_ok t m \<longleftrightarrow> dimensions_ok t (m_rows m) (m_columns m) \<and> length (m_data m) = m_rows m * m_columns m"
  by (auto simp: matrix_ok_def dimensions_ok_def)

lemma matrix_element_count_Inr: "matrix_element_count t r c argument = Inr n \<longleftrightarrow> dimensions_ok t r c \<and> n = r * c"
  by (auto simp: matrix_element_count_def array_element_count_def dimensions_ok_def Let_def)

lemma validate_matrix_dimensions_Inr:
  "validate_matrix_dimensions_for_argument t r c n argument = Inr u \<longleftrightarrow> dimensions_ok t r c \<and> n = r * c"
  by (auto simp: validate_matrix_dimensions_for_argument_def matrix_element_count_Inr split: if_splits)

lemma elements_below_usize: "MAX_ARRAY_ELEMENTS t \<le> usize_max t"
  by (cases t) (simp_all add: usize_max_def)

lemma cell_index_less:
  assumes "i < r" "j < (c::nat)"
  shows "i * c + j < r * c"
proof -
  have "i * c + j < Suc i * c" using assms(2) by simp
  also have "\<dots> \<le> r * c" using assms(1) by (intro mult_le_mono1) simp
  finally show ?thesis .
qed

lemma checked_index_eq:
  assumes "dimensions_ok t r c"
  shows "checked_index t r c i j = (if i < r \<and> j < c then Some (i * c + j) else None)"
proof (cases "i < r \<and> j < c")
  case True
  then have "i * c + j < r * c" using cell_index_less by blast
  then have "i * c + j \<le> usize_max t" "i * c \<le> usize_max t"
    using assms elements_below_usize [of t] by (auto simp: dimensions_ok_def)
  then show ?thesis using True by (simp add: checked_index_def usize_checked_def)
next
  case False
  then show ?thesis by (auto simp: checked_index_def)
qed

lemma matrix_get_eq:
  assumes "matrix_ok t m"
  shows "matrix_get t m i j =
    (if i < m_rows m \<and> j < m_columns m then Some (m_data m ! (i * m_columns m + j)) else None)"
  using assms cell_index_less [of i "m_rows m" j "m_columns m"]
  by (simp add: matrix_get_def matrix_ok_dimensions checked_index_eq slice_get_def)

lemma matrix_index_eq:
  assumes "matrix_ok t m"
  shows "matrix_index t m i j =
    (if i < m_rows m \<and> j < m_columns m then Returns (m_data m ! (i * m_columns m + j)) else Aborts)"
proof -
  have d: "dimensions_ok t (m_rows m) (m_columns m)" "length (m_data m) = m_rows m * m_columns m"
    using assms by (simp_all add: matrix_ok_dimensions)
  have "Option.bind (usize_checked t (i * m_columns m)) (\<lambda>s. usize_checked t (s + j)) = Some (i * m_columns m + j)"
    if "i < m_rows m" "j < m_columns m"
    using checked_index_eq [OF d(1), of i j] that by (simp add: checked_index_def)
  then show ?thesis
    using d(2) cell_index_less [of i "m_rows m" j "m_columns m"] by (auto simp: matrix_index_def slice_get_def)
qed

lemma row_slice:
  assumes "length xs = r * c" "i < r"
  shows "take c (drop (i * c) xs) = map (\<lambda>j. xs ! (i * c + j)) [0..<c]"
proof -
  have le: "i * c + c \<le> length xs" using assms mult_le_mono1 [of "Suc i" r c] by simp
  show ?thesis by (rule nth_equalityI) (use le in auto)
qed

lemma matrix_row_eq:
  assumes "matrix_ok t m"
  shows "matrix_row t m i =
    (if i < m_rows m then Some (map (\<lambda>j. m_data m ! (i * m_columns m + j)) [0..<m_columns m]) else None)"
proof (cases "i < m_rows m")
  case True
  have d: "length (m_data m) = m_rows m * m_columns m" "m_rows m * m_columns m \<le> usize_max t"
    using assms elements_below_usize [of t] by (auto simp: matrix_ok_def)
  have le: "i * m_columns m + m_columns m \<le> m_rows m * m_columns m"
    using True mult_le_mono1 [of "Suc i" "m_rows m" "m_columns m"] by simp
  then show ?thesis using True d row_slice [OF d(1) True] by (simp add: matrix_row_def usize_checked_def slice_range_def)
qed (simp add: matrix_row_def)

lemma exact_chunks_eq:
  "length xs = r * c \<Longrightarrow> 0 < c \<Longrightarrow> exact_chunks c xs = map (\<lambda>i. map (\<lambda>j. xs ! (i * c + j)) [0..<c]) [0..<r]"
proof (induction r arbitrary: xs)
  case 0
  then show ?case by (simp add: exact_chunks.simps)
next
  case (Suc r)
  have "exact_chunks c (drop c xs) = map (\<lambda>i. map (\<lambda>j. drop c xs ! (i * c + j)) [0..<c]) [0..<r]"
    by (rule Suc.IH) (use Suc.prems in auto)
  also have "\<dots> = map (\<lambda>i. map (\<lambda>j. xs ! (Suc i * c + j)) [0..<c]) [0..<r]"
    using Suc.prems by (simp add: add.commute add.left_commute)
  finally have tl: "exact_chunks c (drop c xs) = map (\<lambda>i. map (\<lambda>j. xs ! (i * c + j)) [0..<c]) (map Suc [0..<r])"
    by simp
  have hd: "take c xs = map (\<lambda>j. xs ! (0 * c + j)) [0..<c]"
    using row_slice [of xs "Suc r" c 0] Suc.prems by simp
  have "[0..<Suc r] = 0 # map Suc [0..<r]" by (simp add: map_Suc_upt upt_conv_Cons)
  then show ?case using Suc.prems tl hd by (subst exact_chunks.simps) simp
qed

lemma every_nth_eq:
  "length xs = r * c \<Longrightarrow> j < c \<Longrightarrow> every_nth c (drop j xs) = map (\<lambda>i. xs ! (i * c + j)) [0..<r]"
proof (induction r arbitrary: xs)
  case (Suc r)
  then have "j < length xs" by simp
  then have "drop j xs = xs ! j # drop (Suc j) xs" by (rule Cons_nth_drop_Suc [symmetric])
  moreover have "drop (c - 1) (drop (Suc j) xs) = drop j (drop c xs)"
    using Suc.prems(2) by (simp add: add.commute)
  moreover have "every_nth c (drop j (drop c xs)) = map (\<lambda>i. drop c xs ! (i * c + j)) [0..<r]"
    by (rule Suc.IH) (use Suc.prems in auto)
  moreover have "\<dots> = map (\<lambda>i. xs ! (i * c + j)) (map Suc [0..<r])"
    using Suc.prems by (simp add: add.commute add.left_commute)
  moreover have "[0..<Suc r] = 0 # map Suc [0..<r]" by (simp add: map_Suc_upt upt_conv_Cons)
  ultimately show ?case by simp
qed simp

lemma matrix_column_eq:
  assumes "matrix_ok t m"
  shows "matrix_column m j =
    (if j < m_columns m then Some (map (\<lambda>i. m_data m ! (i * m_columns m + j)) [0..<m_rows m]) else None)"
  using assms every_nth_eq [of "m_data m" "m_rows m" "m_columns m" j] by (simp add: matrix_column_def matrix_ok_def)

lemma matrix_rows_mut_eq:
  assumes "matrix_ok t m"
  shows "matrix_rows_mut m =
    Returns (map (\<lambda>i. map (\<lambda>j. m_data m ! (i * m_columns m + j)) [0..<m_columns m]) [0..<m_rows m])"
  using assms exact_chunks_eq [of "m_data m" "m_rows m" "m_columns m"]
  by (simp add: matrix_rows_mut_def matrix_ok_def)

lemma concat_cell:
  assumes "i < r" "j < (c::nat)"
  shows "concat (map (\<lambda>row. map (f row) [0..<c]) [0..<r]) ! (i * c + j) = f i j"
  using assms
proof (induction r)
  case (Suc r)
  let ?xs = "concat (map (\<lambda>row. map (f row) [0..<c]) [0..<r])"
  have len: "length ?xs = r * c" by (induction r) auto
  show ?case
  proof (cases "i < r")
    case True
    then have "i * c + j < r * c" using Suc.prems cell_index_less by blast
    then show ?thesis using Suc.IH True Suc.prems len by (simp add: nth_append)
  next
    case False
    then have "i = r" using Suc.prems by simp
    then show ?thesis using Suc.prems len by (simp add: nth_append)
  qed
qed simp

lemma length_cells: "length (concat (map (\<lambda>row. map (f row) [0..<c]) [0..<r])) = r * c"
  by (induction r) auto

lemma concat_equal_rows:
  "\<forall>row \<in> set rs. length row = c \<Longrightarrow> concat rs = concat (map (\<lambda>i. map (\<lambda>j. rs ! i ! j) [0..<c]) [0..<length rs])"
  by (rule arg_cong [of _ _ concat], rule nth_equalityI) (auto intro!: nth_equalityI)

lemma length_map_results: "map_results f xs = Inr ys \<Longrightarrow> length ys = length xs"
  by (induction xs arbitrary: ys) auto

lemma matrix_new_Inr:
  "matrix_new t r c data = Inr m \<longleftrightarrow>
     dimensions_ok t r c \<and> length data = r * c \<and> m = \<lparr>m_rows = r, m_columns = c, m_data = data\<rparr>"
  by (auto simp: matrix_new_def validate_matrix_dimensions_def validate_matrix_dimensions_Inr)

lemma matrix_try_from_Inr:
  "matrix_try_from t rs = Inr m \<longleftrightarrow> (\<exists>c. dimensions_ok t (length rs) c \<and> (\<forall>row \<in> set rs. length row = c) \<and>
     m = \<lparr>m_rows = length rs, m_columns = c, m_data = concat rs\<rparr>)"
  by (cases rs)
    (auto simp: matrix_try_from_def validated_element_count_def matrix_element_count_Inr Let_def dimensions_ok_def)

lemma matrix_index_mut_eq:
  assumes "matrix_ok t m"
  shows "matrix_index_mut t m i j v =
      (if i < m_rows m \<and> j < m_columns m then Returns (m\<lparr>m_data := (m_data m)[i * m_columns m + j := v]\<rparr>) else Aborts)"
    "matrix_get_mut t m i j v =
      (if i < m_rows m \<and> j < m_columns m then Some (m\<lparr>m_data := (m_data m)[i * m_columns m + j := v]\<rparr>) else None)"
  using assms elements_below_usize [of t] cell_index_less [of i "m_rows m" j "m_columns m"]
  by (auto simp: matrix_index_mut_def matrix_get_mut_def matrix_ok_dimensions checked_index_eq slice_get_def Let_def
      dimensions_ok_def)

lemma cell_index_inj:
  assumes "i * c + j = i' * c + j'" "j < (c::nat)" "j' < c"
  shows "i = i' \<and> j = j'"
proof -
  have "(i * c + j) div c = (i' * c + j') div c" "(i * c + j) mod c = (i' * c + j') mod c" using assms(1) by simp_all
  then show ?thesis using assms(2,3) by simp
qed

lemma matrix_write:
  assumes m: "matrix_ok t m" and ij: "i < m_rows m" "j < m_columns m"
  shows "\<exists>m'. matrix_get_mut t m i j v = Some m' \<and> matrix_index_mut t m i j v = Returns m' \<and> matrix_ok t m' \<and>
    (\<forall>k l. matrix_get t m' k l = (if k = i \<and> l = j then Some v else matrix_get t m k l))"
proof -
  define m' where "m' = m\<lparr>m_data := (m_data m)[i * m_columns m + j := v]\<rparr>"
  have ok: "matrix_ok t m'" using m by (simp add: m'_def matrix_ok_dimensions)
  have fields: "m_rows m' = m_rows m" "m_columns m' = m_columns m"
    "m_data m' = (m_data m)[i * m_columns m + j := v]" by (simp_all add: m'_def)
  have "i * m_columns m + j < length (m_data m)" using m cell_index_less [OF ij] by (simp add: matrix_ok_def)
  then have "matrix_get t m' k l = (if k = i \<and> l = j then Some v else matrix_get t m k l)" for k l
    using ij cell_index_inj [of i "m_columns m" j k l]
    by (auto simp: matrix_get_eq [OF ok] matrix_get_eq [OF m] fields nth_list_update)
  then show ?thesis using ij ok by (auto simp: matrix_index_mut_eq [OF m] m'_def [symmetric])
qed

section \<open>What matrices promise\<close>

text \<open>
  C7. Every way to read a matrix sees the same cells. Whenever a matrix has been
  constructed, \<open>get\<close> and indexing return the row-major cell of the coordinates and nothing else
  (\<open>None\<close> or a panic exactly out of range, never an overflow), a row, a column and the disjoint
  rows handed out for mutation list those cells in order.
\<close>

theorem matrix_reads_agree:
  assumes "matrix_new t r c cells = Inr m"
  shows "(\<forall>i j. matrix_get t m i j = (if i < r \<and> j < c then Some (cells ! (i * c + j)) else None)) \<and>
    (\<forall>i j. matrix_index t m i j = (case matrix_get t m i j of Some v \<Rightarrow> Returns v | None \<Rightarrow> Aborts)) \<and>
    (\<forall>i. matrix_row t m i = (if i < r then Some (map (\<lambda>j. cells ! (i * c + j)) [0..<c]) else None)) \<and>
    (\<forall>j. matrix_column m j = (if j < c then Some (map (\<lambda>i. cells ! (i * c + j)) [0..<r]) else None)) \<and>
    matrix_rows_mut m = Returns (map (\<lambda>i. map (\<lambda>j. cells ! (i * c + j)) [0..<c]) [0..<r])"
proof -
  have m: "matrix_ok t m" "m_rows m = r" "m_columns m = c" "m_data m = cells"
    using assms by (auto simp: matrix_new_Inr matrix_ok_dimensions)
  show ?thesis
    using matrix_get_eq [OF m(1)] matrix_index_eq [OF m(1)] matrix_row_eq [OF m(1)] matrix_column_eq [OF m(1)]
      matrix_rows_mut_eq [OF m(1)] m(2-4) by simp
qed

theorem matrix_reads_agree_witness:
  "\<exists>m. matrix_new Width64 2 2 [10, 11, 20, 21 :: nat] = Inr m \<and> matrix_get Width64 m 1 0 = Some 20 \<and>
     matrix_column m 1 = Some [11, 21]"
proof -
  have new: "matrix_new Width64 2 2 [10, 11, 20, 21 :: nat] =
      Inr \<lparr>m_rows = 2, m_columns = 2, m_data = [10, 11, 20, 21]\<rparr>"
    by (simp add: matrix_new_Inr dimensions_ok_def EXCEL_MAX_ROWS_def EXCEL_MAX_COLUMNS_def)
  show ?thesis using matrix_reads_agree [OF new] new by (auto simp: upt_rec)
qed

text \<open>
  C22. Matrices are built and changed as their operations say, within the limits. A
  constructor succeeds exactly for non-empty dimensions within Excel's axes and the framework's
  cell limit; what it builds reads back as the function, the value or the rows it was given;
  a write through a coordinate changes that cell alone and keeps the matrix well formed, and
  mapping keeps the shape.
\<close>

theorem matrix_construction:
  assumes "0 < r" "r \<le> EXCEL_MAX_ROWS" "0 < c" "c \<le> EXCEL_MAX_COLUMNS" "r * c \<le> MAX_ARRAY_ELEMENTS t"
  shows "(\<exists>m. matrix_from_fn t r c f = Inr m \<and> matrix_ok t m \<and>
      (\<forall>i < r. \<forall>j < c. matrix_get t m i j = Some (f i j)) \<and>
      (\<forall>i < r. \<forall>j < c. \<forall>v. \<exists>m'. matrix_get_mut t m i j v = Some m' \<and> matrix_index_mut t m i j v = Returns m' \<and>
         matrix_ok t m' \<and> (\<forall>k l. matrix_get t m' k l = (if k = i \<and> l = j then Some v else matrix_get t m k l))) \<and>
      (\<forall>g :: 'a \<Rightarrow> 'e + 'b. \<forall>m'. matrix_try_map m g = Inr m' \<longrightarrow> matrix_ok t m' \<and> matrix_shape m' = matrix_shape m)) \<and>
    (\<forall>rs. length rs = r \<and> (\<forall>row \<in> set rs. length row = c) \<longrightarrow>
      (\<exists>m. matrix_try_from t rs = Inr m \<and> matrix_rows_mut m = Returns (rs :: 'a list list)))"
proof (intro conjI allI impI)
  have dims: "dimensions_ok t r c" using assms by (simp add: dimensions_ok_def)
  let ?m = "\<lparr>m_rows = r, m_columns = c, m_data = concat (map (\<lambda>row. map (f row) [0..<c]) [0..<r])\<rparr>"
  have m: "matrix_from_fn t r c f = Inr ?m" "matrix_ok t ?m"
    using dims by (auto simp: matrix_from_fn_def validated_element_count_def matrix_element_count_Inr
        matrix_ok_dimensions length_cells)
  have gets: "matrix_get t ?m i j = Some (f i j)" if "i < r" "j < c" for i j
    using that by (simp add: matrix_get_eq [OF m(2)] concat_cell)
  have upd: "\<exists>m'. matrix_get_mut t ?m i j v = Some m' \<and> matrix_index_mut t ?m i j v = Returns m' \<and> matrix_ok t m' \<and>
      (\<forall>k l. matrix_get t m' k l = (if k = i \<and> l = j then Some v else matrix_get t ?m k l))"
    if "i < r" "j < c" for i j v
    using matrix_write [OF m(2)] that by simp
  have "matrix_ok t m' \<and> matrix_shape m' = matrix_shape ?m" if "matrix_try_map ?m g = Inr m'"
    for g :: "'a \<Rightarrow> 'e + 'b" and m'
    using that m(2) by (auto simp: matrix_try_map_def matrix_ok_dimensions matrix_shape_def dest: length_map_results)
  with m gets upd show "\<exists>m. matrix_from_fn t r c f = Inr m \<and> matrix_ok t m \<and>
      (\<forall>i < r. \<forall>j < c. matrix_get t m i j = Some (f i j)) \<and>
      (\<forall>i < r. \<forall>j < c. \<forall>v. \<exists>m'. matrix_get_mut t m i j v = Some m' \<and> matrix_index_mut t m i j v = Returns m' \<and>
         matrix_ok t m' \<and> (\<forall>k l. matrix_get t m' k l = (if k = i \<and> l = j then Some v else matrix_get t m k l))) \<and>
      (\<forall>g :: 'a \<Rightarrow> 'e + 'b. \<forall>m'. matrix_try_map m g = Inr m' \<longrightarrow> matrix_ok t m' \<and> matrix_shape m' = matrix_shape m)"
    by blast
  fix rs :: "'a list list"
  assume rs: "length rs = r \<and> (\<forall>row \<in> set rs. length row = c)"
  let ?n = "\<lparr>m_rows = r, m_columns = c, m_data = concat rs\<rparr>"
  have cells: "concat rs = concat (map (\<lambda>i. map (\<lambda>j. rs ! i ! j) [0..<c]) [0..<r])"
    using rs concat_equal_rows [of rs c] by simp
  have "matrix_ok t ?n" using dims by (simp add: matrix_ok_dimensions cells length_cells)
  then have "matrix_rows_mut ?n = Returns (map (\<lambda>i. map (\<lambda>j. rs ! i ! j) [0..<c]) [0..<r])"
    by (simp add: matrix_rows_mut_eq cells concat_cell)
  moreover have "map (\<lambda>i. map (\<lambda>j. rs ! i ! j) [0..<c]) [0..<r] = rs"
    using rs by (auto intro!: nth_equalityI)
  ultimately show "\<exists>m. matrix_try_from t rs = Inr m \<and> matrix_rows_mut m = Returns rs"
    using dims rs by (auto simp: matrix_try_from_Inr)
qed

theorem matrix_construction_witness:
  "\<exists>m. matrix_from_fn Width32 2 3 (\<lambda>i j. 10 * i + j) = Inr m \<and> matrix_get Width32 m 1 2 = Some 12"
proof -
  have "2 \<le> EXCEL_MAX_ROWS" "3 \<le> EXCEL_MAX_COLUMNS" by (simp_all add: EXCEL_MAX_ROWS_def EXCEL_MAX_COLUMNS_def)
  then show ?thesis using matrix_construction [of 2 3 Width32 "\<lambda>i j. 10 * i + j"] by fastforce
qed

end
