(* ===== verification/Excel_Value.thy ===== *)
theory Excel_Value
  imports Reference_Area Utf16 Matrices
begin

text \<open>
  Views of the values Excel passes (\<open>crates/xlfn/src/value/raw.rs\<close>), the byte budget of array
  conversions (\<open>ArrayInputBudget\<close> in \<open>crates/xlfn/src/value.rs\<close>) and the composable conversions
  of \<open>crates/xlfn/src/value/convert.rs\<close>. A conversion of one cell is an argument of the
  collection conversions, as in the code.
\<close>

section \<open>Definitions\<close>

subsection \<open>Fallible conversions\<close>

text \<open>A conversion may abort the process, fail or give a value; \<open>bind_conv\<close> is the question mark operator.\<close>

type_synonym 'a conversion = "'a XllResult run"

definition bind_conv :: "'a conversion \<Rightarrow> ('a \<Rightarrow> 'b conversion) \<Rightarrow> 'b conversion" where
  "bind_conv m f = bind_run m (\<lambda>r. case r of Inl e \<Rightarrow> Returns (Inl e) | Inr x \<Rightarrow> f x)"

abbreviation "ok_conv x \<equiv> Returns (Inr x)"
abbreviation "err_conv e \<equiv> Returns (Inl e)"

subsection \<open>What the host sends\<close>

text \<open>
  The members of the union beside those of a reference. An array is its dimensions and the
  cells behind its pointer; \<open>xltype\<close> selects the member that is read.
\<close>

datatype xloper = Xloper (header: XLOPER12) (number: u64) (string_pointer: counted_pointer)
  (boolean: "32 word") (error_code: int) (integer: "32 word")
  (array_rows: int) (array_columns: int) (array_values: "xloper list pointer")

definition XLOPER12_SIZE :: nat where "XLOPER12_SIZE = 32"

definition xl_value_type :: "xloper \<Rightarrow> XlValueType run" where
  "xl_value_type v = value_type (header v)"

definition array_cell :: "xloper \<Rightarrow> xloper XllResult" where
  "array_cell v = bind_result (from_array_cell (header v)) (\<lambda>_. Inr v)"

definition is_blank :: "xloper \<Rightarrow> bool run" where
  "is_blank v = bind_run (xl_value_type v) (\<lambda>ty. Returns (ty = XlNil))"

definition wrong_type :: "xloper \<Rightarrow> string \<Rightarrow> string \<Rightarrow> XllError run" where
  "wrong_type v argument expected = bind_run (xl_value_type v) (\<lambda>ty.
     Returns (if ty = XlError
       then (case from_code (error_code v) of
               None \<Rightarrow> Input argument (Malformed ''unknown error code'')
             | Some e \<Rightarrow> ExcelValue e)
       else Input argument (WrongType expected ty)))"

definition utf16_units :: "xloper \<Rightarrow> string \<Rightarrow> nat list conversion" where
  "utf16_units v argument = bind_run (xl_value_type v) (\<lambda>ty.
     if ty \<noteq> XlString then bind_run (wrong_type v argument ''string'') err_conv
     else Returns (borrow_counted (string_pointer v) argument))"

text \<open>
  \<open>array\<close> validates dimensions, sizes and the pointer; the dimensions are then known to be
  natural numbers.
\<close>

definition xl_array :: "target \<Rightarrow> xloper \<Rightarrow> string \<Rightarrow> (nat \<times> nat \<times> xloper list pointer) conversion" where
  "xl_array t v argument = bind_run (xl_value_type v) (\<lambda>ty.
     if ty \<noteq> XlMulti then bind_run (wrong_type v argument ''array'') err_conv
     else if array_rows v < 0 \<or> array_columns v < 0
     then err_conv (Input argument (Malformed ''negative array dimension''))
     else let r = nat (array_rows v); c = nat (array_columns v) in
       bind_conv (Returns (array_element_count t r c argument)) (\<lambda>elements.
       case usize_checked t (elements * XLOPER12_SIZE) of
         None \<Rightarrow> err_conv (Input argument (Malformed ''array byte-size overflow''))
       | Some bytes \<Rightarrow>
           if bytes > MAX_ARRAY_BYTES t then err_conv (Input argument (TooLarge (MAX_ARRAY_BYTES t) bytes))
           else if elements \<noteq> 0 \<and> array_values v = pointer.Null then err_conv (Input argument NullPointer)
           else if elements \<noteq> 0 \<and> array_values v = Misaligned
           then err_conv (Input argument (Malformed ''misaligned array pointer''))
           else ok_conv (r, c, array_values v)))"

text \<open>\<open>slice::from_raw_parts\<close> of the cells of a validated array: the host has that many behind the pointer.\<close>

definition array_slice :: "nat \<Rightarrow> xloper list pointer \<Rightarrow> xloper list" where
  "array_slice n p = (if n = 0 then [] else case p of At cs \<Rightarrow> take n cs | _ \<Rightarrow> [])"

datatype GridView = GridScalar xloper | GridMulti nat nat "xloper list"

definition grid_from_value :: "target \<Rightarrow> xloper \<Rightarrow> string \<Rightarrow> GridView conversion" where
  "grid_from_value t v argument = bind_run (xl_value_type v) (\<lambda>ty.
     if ty = XlMulti
     then bind_conv (xl_array t v argument) (\<lambda>(r, c, p). ok_conv (GridMulti r c (array_slice (r * c) p)))
     else ok_conv (GridScalar v))"

fun grid_shape :: "GridView \<Rightarrow> nat \<times> nat" where
  "grid_shape (GridScalar v) = (1, 1)"
| "grid_shape (GridMulti r c values) = (r, c)"

fun grid_cells :: "GridView \<Rightarrow> xloper list" where
  "grid_cells (GridScalar v) = [v]"
| "grid_cells (GridMulti r c values) = values"

subsection \<open>Raw arrays\<close>

record XlArrayRef =
  raw_cells :: "xloper list"
  raw_rows :: nat
  raw_columns :: nat

definition rename_argument :: "string \<Rightarrow> XllError \<Rightarrow> XllError" where
  "rename_argument argument err = (case err of Input _ reason \<Rightarrow> Input argument reason | other \<Rightarrow> other)"

definition array_ref_from_value :: "target \<Rightarrow> xloper \<Rightarrow> string \<Rightarrow> XlArrayRef conversion" where
  "array_ref_from_value t v argument =
     bind_conv (xl_array t v argument) (\<lambda>(r, c, p).
       let cs = array_slice (r * c) p in
       bind_conv (Returns (each_result (\<lambda>cell. case array_cell cell of
           Inl err \<Rightarrow> Inl (rename_argument argument err) | Inr _ \<Rightarrow> Inr ()) cs)) (\<lambda>_.
         ok_conv \<lparr> raw_cells = cs, raw_rows = r, raw_columns = c \<rparr>))"

definition array_ref_get :: "XlArrayRef \<Rightarrow> nat \<Rightarrow> nat \<Rightarrow> xloper option run" where
  "array_ref_get a i j =
     (if i \<ge> raw_rows a \<or> j \<ge> raw_columns a then Returns None
      else bind_run (unwrap_or_abort (slice_get (raw_cells a) (i * raw_columns a + j))) (\<lambda>v. Returns (Some v)))"

subsection \<open>Shapes\<close>

datatype shape_policy = MatrixShape | VectorShape | RowShape | ColumnShape

fun matrix_limits :: "shape_policy \<Rightarrow> bool" where
  "matrix_limits VectorShape = False"
| "matrix_limits _ = True"

fun expected_shape :: "shape_policy \<Rightarrow> nat \<Rightarrow> nat \<Rightarrow> Shape option" where
  "expected_shape MatrixShape r c = None"
| "expected_shape VectorShape r c = (if r \<noteq> 1 \<and> c \<noteq> 1 then Some \<lparr> rows = 1, columns = r * c \<rparr> else None)"
| "expected_shape RowShape r c = (if r \<noteq> 1 then Some \<lparr> rows = 1, columns = c \<rparr> else None)"
| "expected_shape ColumnShape r c = (if c \<noteq> 1 then Some \<lparr> rows = r, columns = 1 \<rparr> else None)"

definition shaped_grid :: "target \<Rightarrow> shape_policy \<Rightarrow> xloper \<Rightarrow> string \<Rightarrow> GridView conversion" where
  "shaped_grid t S v argument =
     bind_conv (grid_from_value t v argument) (\<lambda>grid.
       let (r, c) = grid_shape grid in
       bind_conv (if matrix_limits S
           then Returns (validate_matrix_dimensions_for_argument t r c (length (grid_cells grid)) argument)
           else ok_conv ()) (\<lambda>_.
         case expected_shape S r c of
           Some expected \<Rightarrow> err_conv (ShapeMismatch expected \<lparr> rows = r, columns = c \<rparr>)
         | None \<Rightarrow> ok_conv grid))"

definition bounded_grid :: "target \<Rightarrow> nat \<Rightarrow> xloper \<Rightarrow> string \<Rightarrow> GridView conversion" where
  "bounded_grid t maximum v argument =
     (if maximum = 0 then err_conv (Input argument (Malformed ''bounded varargs maximum must be non-zero''))
      else bind_conv (shaped_grid t VectorShape v argument) (\<lambda>grid.
        let actual = length (grid_cells grid) in
        if actual > maximum then err_conv (Input argument (TooLarge maximum actual)) else ok_conv grid))"

subsection \<open>The byte budget\<close>

record ArrayInputBudget =
  budget_argument :: string
  referenced_bytes :: nat

definition check_limit :: "target \<Rightarrow> ArrayInputBudget \<Rightarrow> unit XllResult" where
  "check_limit t b =
     (if referenced_bytes b > MAX_ARRAY_BYTES t
      then Inl (Input (budget_argument b) (TooLarge (MAX_ARRAY_BYTES t) (referenced_bytes b))) else Inr ())"

text \<open>The size of the element type is an argument.\<close>

definition array_budget_new :: "target \<Rightarrow> nat \<Rightarrow> nat \<Rightarrow> string \<Rightarrow> ArrayInputBudget XllResult" where
  "array_budget_new t sz element_count argument = (case usize_checked t (element_count * sz) of
       None \<Rightarrow> Inl (Input argument (Malformed ''output byte-size overflow''))
     | Some output_bytes \<Rightarrow>
         (case Option.bind (usize_checked t (element_count * XLOPER12_SIZE)) (\<lambda>bytes. usize_checked t (bytes + output_bytes)) of
            None \<Rightarrow> Inl (Input argument (Malformed ''array byte-size overflow''))
          | Some bytes \<Rightarrow>
              let b = \<lparr> budget_argument = argument, referenced_bytes = bytes \<rparr>
              in bind_result (check_limit t b) (\<lambda>_. Inr b)))"

definition budget_include :: "target \<Rightarrow> ArrayInputBudget \<Rightarrow> xloper \<Rightarrow> ArrayInputBudget conversion" where
  "budget_include t b element = bind_run (xl_value_type element) (\<lambda>ty.
     if ty = XlMulti then err_conv (Input (budget_argument b) (Malformed ''nested arrays are not supported''))
     else if ty = XlString then
       bind_conv (utf16_units element (budget_argument b)) (\<lambda>units.
         case usize_checked t (length units * (2 + 3)) of
           None \<Rightarrow> err_conv (Input (budget_argument b) (Malformed ''array string byte-size overflow''))
         | Some string_bytes \<Rightarrow>
             (case usize_checked t (referenced_bytes b + string_bytes) of
                None \<Rightarrow> err_conv (Input (budget_argument b) (Malformed ''array byte-size overflow''))
              | Some bytes \<Rightarrow>
                  let b = b\<lparr> referenced_bytes := bytes \<rparr>
                  in bind_conv (Returns (check_limit t b)) (\<lambda>_. ok_conv b)))
     else ok_conv b)"

definition budget_include_raw :: "target \<Rightarrow> ArrayInputBudget \<Rightarrow> xloper \<Rightarrow> ArrayInputBudget conversion" where
  "budget_include_raw t b element = bind_run (xl_value_type element) (\<lambda>ty.
     if ty = XlString then
       bind_conv (utf16_units element (budget_argument b)) (\<lambda>units.
         case Option.bind (usize_checked t ((length units + 1) * 2)) (\<lambda>bytes. usize_checked t (referenced_bytes b + bytes)) of
           None \<Rightarrow> err_conv (Input (budget_argument b) (Malformed ''array byte-size overflow''))
         | Some bytes \<Rightarrow>
             let b = b\<lparr> referenced_bytes := bytes \<rparr>
             in bind_conv (Returns (check_limit t b)) (\<lambda>_. ok_conv b))
     else ok_conv b)"

subsection \<open>Collections\<close>

fun convert_cells ::
    "target \<Rightarrow> ArrayInputBudget \<Rightarrow> (xloper \<Rightarrow> 'a conversion) \<Rightarrow> xloper list \<Rightarrow> 'a list conversion" where
  "convert_cells t b convert [] = ok_conv []"
| "convert_cells t b convert (cell # cs) =
     bind_conv (Returns (array_cell cell)) (\<lambda>element.
     bind_conv (budget_include t b element) (\<lambda>b.
     bind_conv (convert element) (\<lambda>x.
     bind_conv (convert_cells t b convert cs) (\<lambda>xs. ok_conv (x # xs)))))"

definition convert_owned_grid_elements ::
    "target \<Rightarrow> nat \<Rightarrow> GridView \<Rightarrow> string \<Rightarrow> (xloper \<Rightarrow> 'a conversion) \<Rightarrow> 'a list conversion" where
  "convert_owned_grid_elements t sz grid argument convert =
     bind_conv (Returns (array_budget_new t sz (length (grid_cells grid)) argument)) (\<lambda>b.
       convert_cells t b convert (grid_cells grid))"

definition convert_matrix ::
    "target \<Rightarrow> nat \<Rightarrow> xloper \<Rightarrow> string \<Rightarrow> (xloper \<Rightarrow> string \<Rightarrow> 'a conversion) \<Rightarrow> 'a Matrix conversion" where
  "convert_matrix t sz v argument convert =
     bind_conv (shaped_grid t MatrixShape v argument) (\<lambda>grid.
       let (r, c) = grid_shape grid in
       bind_conv (convert_owned_grid_elements t sz grid argument (\<lambda>cell. convert cell argument)) (\<lambda>data.
         Returns (matrix_new t r c data)))"

definition convert_vector ::
    "target \<Rightarrow> nat \<Rightarrow> xloper \<Rightarrow> string \<Rightarrow> (xloper \<Rightarrow> string \<Rightarrow> 'a conversion) \<Rightarrow> 'a list conversion" where
  "convert_vector t sz v argument convert =
     bind_conv (shaped_grid t VectorShape v argument) (\<lambda>grid.
       convert_owned_grid_elements t sz grid argument (\<lambda>cell. convert cell argument))"

definition convert_row ::
    "target \<Rightarrow> nat \<Rightarrow> xloper \<Rightarrow> string \<Rightarrow> (xloper \<Rightarrow> string \<Rightarrow> 'a conversion) \<Rightarrow> 'a Row conversion" where
  "convert_row t sz v argument convert =
     bind_conv (shaped_grid t RowShape v argument) (\<lambda>grid.
       bind_conv (convert_owned_grid_elements t sz grid argument (\<lambda>cell. convert cell argument)) (\<lambda>data.
         Returns (row_new t data)))"

definition convert_column ::
    "target \<Rightarrow> nat \<Rightarrow> xloper \<Rightarrow> string \<Rightarrow> (xloper \<Rightarrow> string \<Rightarrow> 'a conversion) \<Rightarrow> 'a Column conversion" where
  "convert_column t sz v argument convert =
     bind_conv (shaped_grid t ColumnShape v argument) (\<lambda>grid.
       bind_conv (convert_owned_grid_elements t sz grid argument (\<lambda>cell. convert cell argument)) (\<lambda>data.
         Returns (column_new t data)))"

definition convert_bounded_var_args ::
    "target \<Rightarrow> nat \<Rightarrow> nat \<Rightarrow> xloper \<Rightarrow> string \<Rightarrow> (xloper \<Rightarrow> string \<Rightarrow> 'a conversion) \<Rightarrow> 'a BoundedVarArgs conversion" where
  "convert_bounded_var_args t sz maximum v argument convert =
     bind_conv (bounded_grid t maximum v argument) (\<lambda>grid.
       bind_conv (convert_owned_grid_elements t sz grid argument (\<lambda>cell. convert cell argument)) (\<lambda>data.
         ok_conv (BoundedVarArgs data)))"

definition convert_optional ::
    "xloper \<Rightarrow> string \<Rightarrow> (xloper \<Rightarrow> string \<Rightarrow> 'a conversion) \<Rightarrow> 'a option conversion" where
  "convert_optional v argument convert = bind_run (xl_value_type v) (\<lambda>ty.
     if ty = XlMissing \<or> ty = XlNil then ok_conv None
     else bind_conv (convert v argument) (\<lambda>x. ok_conv (Some x)))"

datatype 'a OptionalExcelValue = OptMissing | OptBlank | OptValue 'a

definition convert_optional_value ::
    "xloper \<Rightarrow> string \<Rightarrow> (xloper \<Rightarrow> string \<Rightarrow> 'a conversion) \<Rightarrow> 'a OptionalExcelValue conversion" where
  "convert_optional_value v argument convert = bind_run (xl_value_type v) (\<lambda>ty.
     if ty = XlMissing then ok_conv OptMissing
     else if ty = XlNil then ok_conv OptBlank
     else bind_conv (convert v argument) (\<lambda>x. ok_conv (OptValue x)))"

section \<open>Properties\<close>

lemma bind_conv_simps [simp]:
  "bind_conv (ok_conv x) f = f x" "bind_conv (err_conv e) f = err_conv e" "bind_conv Aborts f = Aborts"
  by (simp_all add: bind_conv_def)

lemma bind_conv_ok [simp]: "bind_conv m f = ok_conv y \<longleftrightarrow> (\<exists>x. m = ok_conv x \<and> f x = ok_conv y)"
  by (cases m) (auto simp: bind_conv_def split: sum.splits)

lemma bind_conv_Aborts [simp]: "bind_conv m f = Aborts \<longleftrightarrow> m = Aborts \<or> (\<exists>x. m = ok_conv x \<and> f x = Aborts)"
  by (cases m) (auto simp: bind_conv_def split: sum.splits)

text \<open>A value whose header has been validated has a type.\<close>

definition validated :: "xloper \<Rightarrow> bool" where
  "validated v \<longleftrightarrow> array_cell v = Inr v"

lemma validated_type: "validated v \<Longrightarrow> \<exists>ty. xl_value_type v = Returns ty"
  by (auto simp: validated_def array_cell_def from_array_cell_def xl_value_type_def value_type_def split: if_splits)

lemma array_cell_Inr: "array_cell v = Inr w \<longleftrightarrow> validated v \<and> w = v"
  by (auto simp: validated_def array_cell_def)

text \<open>The UTF-16 units a cell refers to, and the bytes the budget charges for cells of a size.\<close>

definition string_units :: "xloper \<Rightarrow> nat" where
  "string_units v = (case utf16_units v [] of Returns (Inr units) \<Rightarrow> length units | _ \<Rightarrow> 0)"

definition charged :: "nat \<Rightarrow> xloper list \<Rightarrow> nat" where
  "charged sz cs = length cs * (XLOPER12_SIZE + sz) + 5 * sum_list (map string_units cs)"

lemma check_limit_Inr [simp]: "check_limit t b = Inr u \<longleftrightarrow> referenced_bytes b \<le> MAX_ARRAY_BYTES t"
  by (auto simp: check_limit_def)

lemma array_bytes_below_usize: "MAX_ARRAY_BYTES t \<le> usize_max t"
  by (cases t) (simp_all add: usize_max_def)

lemma array_budget_new_Inr:
  "array_budget_new t sz n argument = Inr b \<longleftrightarrow>
     n * (XLOPER12_SIZE + sz) \<le> MAX_ARRAY_BYTES t \<and>
     b = \<lparr>budget_argument = argument, referenced_bytes = n * (XLOPER12_SIZE + sz)\<rparr>"
proof -
  have "n * (XLOPER12_SIZE + sz) \<le> MAX_ARRAY_BYTES t \<Longrightarrow> n * sz \<le> usize_max t \<and> n * XLOPER12_SIZE \<le> usize_max t"
    using array_bytes_below_usize [of t] by (auto simp: algebra_simps)
  then show ?thesis
    using array_bytes_below_usize [of t]
    by (auto simp: array_budget_new_def usize_checked_def Let_def algebra_simps split: option.splits)
qed

lemma utf16_units_name:
  "utf16_units v a = ok_conv us \<Longrightarrow> utf16_units v b = ok_conv us"
  by (cases "string_pointer v") (auto simp: utf16_units_def split: if_splits)

lemma string_units_eq: "utf16_units v a = ok_conv us \<Longrightarrow> string_units v = length us"
  using utf16_units_name [of v a us "[]"] by (simp add: string_units_def)

lemma string_units_other:
  "xl_value_type v = Returns ty \<Longrightarrow> ty \<noteq> XlString \<Longrightarrow> string_units v = 0"
  by (auto simp: string_units_def utf16_units_def wrong_type_def)

lemma budget_include_ok:
  assumes "budget_include t b v = ok_conv b'" "referenced_bytes b \<le> MAX_ARRAY_BYTES t"
  shows "referenced_bytes b' = referenced_bytes b + 5 * string_units v \<and>
    referenced_bytes b' \<le> MAX_ARRAY_BYTES t \<and> budget_argument b' = budget_argument b \<and>
    xl_value_type v \<noteq> Returns XlMulti"
  using assms
  by (auto simp: budget_include_def usize_checked_def Let_def string_units_eq string_units_other
      split: if_splits option.splits)

lemma budget_include_returns:
  assumes "validated v"
  shows "budget_include t b v \<noteq> Aborts"
proof -
  obtain ty where "xl_value_type v = Returns ty" using validated_type [OF assms] by blast
  then show ?thesis
    by (auto simp: budget_include_def utf16_units_def wrong_type_def Let_def split: option.splits)
qed

lemma convert_cells_ok:
  assumes "convert_cells t b convert cs = ok_conv xs" "referenced_bytes b \<le> MAX_ARRAY_BYTES t"
  shows "list_all2 (\<lambda>cell x. validated cell \<and> xl_value_type cell \<noteq> Returns XlMulti \<and> convert cell = ok_conv x) cs xs \<and>
    referenced_bytes b + 5 * sum_list (map string_units cs) \<le> MAX_ARRAY_BYTES t"
  using assms
proof (induction cs arbitrary: b xs)
  case (Cons cell cs)
  from Cons.prems(1) obtain b' x ys where step: "validated cell" "budget_include t b cell = ok_conv b'"
      "convert cell = ok_conv x" "convert_cells t b' convert cs = ok_conv ys" "xs = x # ys"
    by (auto simp: array_cell_Inr)
  note inc = budget_include_ok [OF step(2) Cons.prems(2)]
  from Cons.IH [OF step(4)] inc show ?case using step by simp
qed simp

lemma convert_cells_returns:
  assumes "\<And>cell. cell \<in> set cs \<Longrightarrow> validated cell \<Longrightarrow> convert cell \<noteq> Aborts"
  shows "convert_cells t b convert cs \<noteq> Aborts"
  using assms
proof (induction cs arbitrary: b)
  case (Cons cell cs)
  show ?case
  proof (cases "array_cell cell")
    case (Inr v)
    then have "validated cell" "v = cell" by (simp_all add: array_cell_Inr)
    then show ?thesis using Cons.IH Cons.prems budget_include_returns Inr by auto
  qed simp
qed simp

lemma convert_owned_grid_elements_ok:
  assumes "convert_owned_grid_elements t sz grid argument convert = ok_conv xs"
  shows "list_all2 (\<lambda>cell x. validated cell \<and> xl_value_type cell \<noteq> Returns XlMulti \<and> convert cell = ok_conv x)
      (grid_cells grid) xs \<and> charged sz (grid_cells grid) \<le> MAX_ARRAY_BYTES t"
proof -
  from assms obtain b where b: "array_budget_new t sz (length (grid_cells grid)) argument = Inr b"
      "convert_cells t b convert (grid_cells grid) = ok_conv xs"
    by (auto simp: convert_owned_grid_elements_def)
  then show ?thesis using convert_cells_ok [OF b(2)] by (auto simp: array_budget_new_Inr charged_def)
qed

lemma convert_owned_grid_elements_returns:
  assumes "\<And>cell. cell \<in> set (grid_cells grid) \<Longrightarrow> validated cell \<Longrightarrow> convert cell \<noteq> Aborts"
  shows "convert_owned_grid_elements t sz grid argument convert \<noteq> Aborts"
  using convert_cells_returns [OF assms] by (simp add: convert_owned_grid_elements_def)

lemma shaped_grid_returns:
  assumes "validated v"
  shows "shaped_grid t S v argument \<noteq> Aborts"
proof -
  obtain ty where ty: "xl_value_type v = Returns ty" using validated_type [OF assms] by blast
  then have "xl_array t v argument \<noteq> Aborts"
    by (auto simp: xl_array_def wrong_type_def Let_def split: option.splits)
  then show ?thesis
    using ty by (auto simp: shaped_grid_def grid_from_value_def split: prod.splits option.splits)
qed

lemma shaped_grid_ok:
  assumes "shaped_grid t S v argument = ok_conv grid" "grid_shape grid = (r, c)"
  shows "(matrix_limits S \<longrightarrow> dimensions_ok t r c \<and> length (grid_cells grid) = r * c) \<and> expected_shape S r c = None"
  using assms
  by (auto simp: shaped_grid_def case_prod_unfold Let_def validate_matrix_dimensions_Inr split: if_splits option.splits)

lemma bounded_grid_ok:
  assumes "bounded_grid t maximum v argument = ok_conv grid"
  shows "shaped_grid t VectorShape v argument = ok_conv grid \<and> length (grid_cells grid) \<le> maximum \<and> 0 < maximum"
  using assms by (auto simp: bounded_grid_def Let_def split: if_splits)

section \<open>What collection conversions promise\<close>

text \<open>
  C19. Converting an array costs no more than its budget. For a value with a valid header and
  a cell converter that always returns, converting a matrix or a bounded list always
  returns. If it succeeds, the converter has accepted every cell in row-major order, no cell is
  an array or has an invalid header, the shape is within Excel's limits (the list within its
  maximum), and the host's cells, the converted elements and the worst-case text together
  stay below the byte limit.
\<close>

theorem collections_within_budget:
  assumes "validated v" "\<And>cell. validated cell \<Longrightarrow> convert cell argument \<noteq> Aborts"
  shows "convert_matrix t sz v argument convert \<noteq> Aborts \<and>
    convert_bounded_var_args t sz maximum v argument convert \<noteq> Aborts \<and>
    (\<forall>m. convert_matrix t sz v argument convert = ok_conv m \<longrightarrow> matrix_ok t m \<and>
      (\<exists>grid. shaped_grid t MatrixShape v argument = ok_conv grid \<and> grid_shape grid = (m_rows m, m_columns m) \<and>
        charged sz (grid_cells grid) \<le> MAX_ARRAY_BYTES t \<and>
        list_all2 (\<lambda>cell x. validated cell \<and> xl_value_type cell \<noteq> Returns XlMulti \<and> convert cell argument = ok_conv x)
          (grid_cells grid) (m_data m))) \<and>
    (\<forall>xs. convert_bounded_var_args t sz maximum v argument convert = ok_conv xs \<longrightarrow>
      length (varargs_data xs) \<le> maximum \<and>
      (\<exists>grid. shaped_grid t VectorShape v argument = ok_conv grid \<and>
        charged sz (grid_cells grid) \<le> MAX_ARRAY_BYTES t \<and>
        list_all2 (\<lambda>cell x. validated cell \<and> xl_value_type cell \<noteq> Returns XlMulti \<and> convert cell argument = ok_conv x)
          (grid_cells grid) (varargs_data xs)))"
proof (intro conjI allI impI)
  note total = convert_owned_grid_elements_returns [of _ "\<lambda>cell. convert cell argument", OF assms(2)]
  show "convert_matrix t sz v argument convert \<noteq> Aborts"
    using total shaped_grid_returns [OF assms(1)] by (auto simp: convert_matrix_def split: prod.splits)
  show "convert_bounded_var_args t sz maximum v argument convert \<noteq> Aborts"
    using total shaped_grid_returns [OF assms(1)]
    by (auto simp: convert_bounded_var_args_def bounded_grid_def Let_def)
next
  fix m assume "convert_matrix t sz v argument convert = ok_conv m"
  then obtain grid xs where grid: "shaped_grid t MatrixShape v argument = ok_conv grid"
    and xs: "convert_owned_grid_elements t sz grid argument (\<lambda>cell. convert cell argument) = ok_conv xs"
    and m: "matrix_new t (fst (grid_shape grid)) (snd (grid_shape grid)) xs = Inr m" by (auto simp: convert_matrix_def case_prod_unfold Let_def)
  show "matrix_ok t m" using m by (auto simp: matrix_new_Inr matrix_ok_dimensions)
  show "\<exists>grid. shaped_grid t MatrixShape v argument = ok_conv grid \<and> grid_shape grid = (m_rows m, m_columns m) \<and>
      charged sz (grid_cells grid) \<le> MAX_ARRAY_BYTES t \<and>
      list_all2 (\<lambda>cell x. validated cell \<and> xl_value_type cell \<noteq> Returns XlMulti \<and> convert cell argument = ok_conv x)
        (grid_cells grid) (m_data m)"
    using grid m convert_owned_grid_elements_ok [OF xs] by (auto simp: matrix_new_Inr prod_eq_iff)
next
  fix xs assume "convert_bounded_var_args t sz maximum v argument convert = ok_conv xs"
  then obtain grid ys where grid: "bounded_grid t maximum v argument = ok_conv grid"
    and ys: "convert_owned_grid_elements t sz grid argument (\<lambda>cell. convert cell argument) = ok_conv ys"
      "xs = BoundedVarArgs ys" by (auto simp: convert_bounded_var_args_def)
  note bounded = bounded_grid_ok [OF grid] and elements = convert_owned_grid_elements_ok [OF ys(1)]
  show "length (varargs_data xs) \<le> maximum"
    using bounded elements ys(2) by (auto dest: list_all2_lengthD)
  show "\<exists>grid. shaped_grid t VectorShape v argument = ok_conv grid \<and>
      charged sz (grid_cells grid) \<le> MAX_ARRAY_BYTES t \<and>
      list_all2 (\<lambda>cell x. validated cell \<and> xl_value_type cell \<noteq> Returns XlMulti \<and> convert cell argument = ok_conv x)
        (grid_cells grid) (varargs_data xs)"
    using bounded elements ys(2) by auto
qed

definition sample_header :: "u32 \<Rightarrow> XLOPER12" where
  "sample_header ty = \<lparr> xltype = ty, sref_count = 0,
     sref_reference = \<lparr> rw_first = 0, rw_last = 0, col_first = 0, col_last = 0 \<rparr>,
     mref_references = pointer.Null, mref_sheet_id = 0 \<rparr>"

definition sample_cell :: "u64 \<Rightarrow> xloper" where
  "sample_cell bits = Xloper (sample_header 1) bits NullPtr 0 0 0 0 0 pointer.Null"

definition sample_column :: "xloper" where
  "sample_column = Xloper (sample_header 0x40) 0 NullPtr 0 0 0 2 1 (At [sample_cell 1, sample_cell 2])"

lemma sample_types:
  "xl_value_type (sample_cell b) = Returns XlNumber" "validated (sample_cell b)"
  "xl_value_type sample_column = Returns XlMulti" "validated sample_column"
  by (simp_all add: sample_cell_def sample_column_def sample_header_def xl_value_type_def value_type_def base_type_def
      value_type_from_raw_def XLTYPE_MASK_def validated_def array_cell_def from_array_cell_def XLBIT_XL_FREE_def
      XLBIT_DLL_FREE_def)

lemma sample_fields:
  "array_rows sample_column = 2" "array_columns sample_column = 1"
  "array_values sample_column = At [sample_cell 1, sample_cell 2]" "number (sample_cell b) = b"
  by (simp_all add: sample_column_def sample_cell_def)

lemma array_cell_validated: "validated v \<Longrightarrow> array_cell v = Inr v"
  by (simp add: validated_def)

theorem collections_within_budget_witness:
  "\<exists>m. convert_matrix Width64 8 sample_column ''x'' (\<lambda>cell _. ok_conv (number cell)) = ok_conv m \<and>
     matrix_ok Width64 m \<and> m_data m = [1, 2]"
proof -
  let ?c = "\<lambda>cell (_ :: string). ok_conv (number cell)"
  have "convert_matrix Width64 8 sample_column ''x'' ?c =
      ok_conv \<lparr>m_rows = 2, m_columns = 1, m_data = [1, 2]\<rparr>"
    by (simp add: convert_matrix_def shaped_grid_def grid_from_value_def sample_types sample_fields xl_array_def
        array_element_count_def EXCEL_MAX_ROWS_def EXCEL_MAX_COLUMNS_def usize_checked_def usize_max_def
        XLOPER12_SIZE_def array_slice_def validate_matrix_dimensions_for_argument_def matrix_element_count_def
        convert_owned_grid_elements_def array_budget_new_def check_limit_def budget_include_def array_cell_Inr
        matrix_new_Inr dimensions_ok_def array_cell_validated)
  then show ?thesis
    using collections_within_budget [of sample_column ?c "''x''" Width64 8 5] sample_types by auto
qed

end
