(* ===== verification/Input_Identity.thy ===== *)
theory Input_Identity
  imports Utf16 Handle_Token
begin

text \<open>
  The identity of an argument list (\<open>crates/xlfn/src/input_identity/backend.rs\<close>): an encoder per
  argument that keeps up to 128 bytes inline and streams longer encodings through a buffer
  into a hash, and the builder that frames the encodings of all arguments under one root
  hash. The \<open>blake3\<close> crate is a parameter: its operations are the fields of a record, and what
  the code relies on is the predicate \<open>incremental\<close> on them. A floating point number is its
  64-bit pattern, which is all the encoder sees of it; argument names are their bytes.
\<close>

section \<open>Definitions\<close>

subsection \<open>The hash function\<close>

record 'h Blake3 =
  blake_new :: 'h
  blake_reset :: "'h \<Rightarrow> 'h"
  blake_update :: "'h \<Rightarrow> u8 list \<Rightarrow> 'h"
  blake_finalize :: "'h \<Rightarrow> u8 list"

subsection \<open>The encoder of one argument\<close>

definition INLINE_ARGUMENT_BYTES :: nat where "INLINE_ARGUMENT_BYTES = 128"
definition HASH_BUFFER_BYTES :: nat where "HASH_BUFFER_BYTES = 4096"
definition INPUT_FINGERPRINT_DOMAIN :: "u8 list" where
  "INPUT_FINGERPRINT_DOMAIN = map of_char ''xlfn-input-v3'' @ [0]"

record 'h HashedArgument =
  hasher :: 'h
  hash_buffer :: "u8 list"
  buffered :: nat

datatype 'h ArgumentSink = InlineSink "u8 list" nat | HashedSink "'h HashedArgument"

record 'h InputIdentityEncoder =
  sink :: "'h ArgumentSink"
  spare :: "'h HashedArgument option"
  encoder_error :: "XllError option"
  encoder_argument :: string

definition encoder_new :: "string \<Rightarrow> 'h InputIdentityEncoder" where
  "encoder_new argument =
     \<lparr> sink = InlineSink (replicate INLINE_ARGUMENT_BYTES 0) 0, spare = None, encoder_error = None,
       encoder_argument = argument \<rparr>"

definition flush_hashed :: "'h Blake3 \<Rightarrow> 'h HashedArgument \<Rightarrow> 'h HashedArgument" where
  "flush_hashed B st =
     (if buffered st = 0 then st
      else st\<lparr> hasher := blake_update B (hasher st) (take (buffered st) (hash_buffer st)),
               buffered := 0 \<rparr>)"

definition write_hashed :: "'h Blake3 \<Rightarrow> 'h HashedArgument \<Rightarrow> u8 list \<Rightarrow> 'h HashedArgument" where
  "write_hashed B st bytes =
     (if length bytes \<ge> HASH_BUFFER_BYTES
      then (let st = flush_hashed B st in st\<lparr> hasher := blake_update B (hasher st) bytes \<rparr>)
      else (let st = (if buffered st + length bytes > HASH_BUFFER_BYTES then flush_hashed B st else st)
            in st\<lparr> hash_buffer := copy_from_slice (buffered st) bytes (hash_buffer st),
                   buffered := buffered st + length bytes \<rparr>))"

text \<open>Promotion from the hashed mode is the \<open>unreachable!()\<close> of the source.\<close>

definition promote_to_hashed :: "'h Blake3 \<Rightarrow> 'h InputIdentityEncoder \<Rightarrow> 'h InputIdentityEncoder run" where
  "promote_to_hashed B e = (case sink e of
       HashedSink st \<Rightarrow> Aborts
     | InlineSink bytes len \<Rightarrow>
         let st = (case spare e of
                Some st \<Rightarrow> st\<lparr> hasher := blake_reset B (hasher st) \<rparr>
              | None \<Rightarrow> \<lparr> hasher = blake_new B, hash_buffer = replicate HASH_BUFFER_BYTES 0, buffered = 0 \<rparr>)
         in Returns (e\<lparr> sink := HashedSink (st\<lparr> hash_buffer := copy_from_slice 0 (take len bytes) (hash_buffer st),
                                         buffered := len \<rparr>),
                spare := None \<rparr>))"

definition needs_promotion :: "'h ArgumentSink \<Rightarrow> nat \<Rightarrow> bool" where
  "needs_promotion s n = (case s of InlineSink _ len \<Rightarrow> len + n > INLINE_ARGUMENT_BYTES | HashedSink _ \<Rightarrow> False)"

definition write_sink :: "'h Blake3 \<Rightarrow> 'h ArgumentSink \<Rightarrow> u8 list \<Rightarrow> 'h ArgumentSink" where
  "write_sink B s bytes = (case s of
       InlineSink buffer len \<Rightarrow> InlineSink (copy_from_slice len bytes buffer) (len + length bytes)
     | HashedSink st \<Rightarrow> HashedSink (write_hashed B st bytes))"

definition write_bytes :: "'h Blake3 \<Rightarrow> 'h InputIdentityEncoder \<Rightarrow> u8 list \<Rightarrow> 'h InputIdentityEncoder run" where
  "write_bytes B e bytes =
     (if encoder_error e \<noteq> None then Returns e
      else bind_run (if needs_promotion (sink e) (length bytes) then promote_to_hashed B e else Returns e)
        (\<lambda>e. Returns (e\<lparr> sink := write_sink B (sink e) bytes \<rparr>)))"

definition encode_tag :: "'h Blake3 \<Rightarrow> u8 \<Rightarrow> 'h InputIdentityEncoder \<Rightarrow> 'h InputIdentityEncoder run" where
  "encode_tag B t e = write_bytes B e [t]"

definition encode_u64 :: "'h Blake3 \<Rightarrow> u64 \<Rightarrow> 'h InputIdentityEncoder \<Rightarrow> 'h InputIdentityEncoder run" where
  "encode_u64 B v e = write_bytes B e (to_le_bytes 8 v)"

definition encode_u32 :: "'h Blake3 \<Rightarrow> u32 \<Rightarrow> 'h InputIdentityEncoder \<Rightarrow> 'h InputIdentityEncoder run" where
  "encode_u32 B v e = write_bytes B e (to_le_bytes 4 v)"

definition encode_i64 :: "'h Blake3 \<Rightarrow> 64 word \<Rightarrow> 'h InputIdentityEncoder \<Rightarrow> 'h InputIdentityEncoder run" where
  "encode_i64 B v e = write_bytes B e (to_le_bytes 8 v)"

definition encode_f64 :: "'h Blake3 \<Rightarrow> u64 \<Rightarrow> 'h InputIdentityEncoder \<Rightarrow> 'h InputIdentityEncoder run" where
  "encode_f64 B bits e = encode_u64 B bits e"

definition encode_bool :: "'h Blake3 \<Rightarrow> bool \<Rightarrow> 'h InputIdentityEncoder \<Rightarrow> 'h InputIdentityEncoder run" where
  "encode_bool B b e = write_bytes B e [if b then 1 else 0]"

definition encode_bytes :: "'h Blake3 \<Rightarrow> u8 list \<Rightarrow> 'h InputIdentityEncoder \<Rightarrow> 'h InputIdentityEncoder run" where
  "encode_bytes B bs e = bind_run (encode_u64 B (of_nat (length bs)) e) (\<lambda>e. write_bytes B e bs)"

text \<open>A string is the list of its UTF-8 bytes.\<close>

definition encode_string :: "'h Blake3 \<Rightarrow> nat list \<Rightarrow> 'h InputIdentityEncoder \<Rightarrow> 'h InputIdentityEncoder run" where
  "encode_string B value e = encode_bytes B (map of_nat value) e"

definition reargument :: "string \<Rightarrow> XllError \<Rightarrow> XllError" where
  "reargument argument err = (case err of Input _ reason \<Rightarrow> Input argument reason | other \<Rightarrow> other)"

definition fail :: "XllError \<Rightarrow> 'h InputIdentityEncoder \<Rightarrow> 'h InputIdentityEncoder" where
  "fail err e =
     (if encoder_error e = None then e\<lparr> encoder_error := Some (reargument (encoder_argument e) err) \<rparr> else e)"

definition fail_input :: "InputError \<Rightarrow> 'h InputIdentityEncoder \<Rightarrow> 'h InputIdentityEncoder" where
  "fail_input reason e = fail (Input (encoder_argument e) reason) e"

text \<open>A loop of writes.\<close>

fun put_each :: "('e \<Rightarrow> u8 list \<Rightarrow> 'e run) \<Rightarrow> u8 list list \<Rightarrow> 'e \<Rightarrow> 'e run" where
  "put_each put [] e = Returns e"
| "put_each put (c # cs) e = bind_run (put e c) (put_each put cs)"

text \<open>
  The general path of \<open>semantic_utf16\<close>: \<open>pending\<close> is the used part of the local buffer of 256
  bytes, written out when fewer than four bytes are free.
\<close>

fun semantic_loop ::
    "'h Blake3 \<Rightarrow> (nat + nat) list \<Rightarrow> u8 list \<Rightarrow> 'h InputIdentityEncoder \<Rightarrow>
     ('h InputIdentityEncoder \<times> unit XllResult) run" where
  "semantic_loop B [] pending e = bind_run (write_bytes B e pending) (\<lambda>e. Returns (e, Inr ()))"
| "semantic_loop B (Inl u # rs) pending e =
     (let err = Input (encoder_argument e) InvalidUtf16 in Returns (fail err e, Inl err))"
| "semantic_loop B (Inr c # rs) pending e =
     (if 256 - length pending < 4
      then bind_run (write_bytes B e pending) (semantic_loop B rs (map of_nat (encode_utf8_char c)))
      else semantic_loop B rs (pending @ map of_nat (encode_utf8_char c)) e)"

definition semantic_utf16 ::
    "'h Blake3 \<Rightarrow> nat list \<Rightarrow> 'h InputIdentityEncoder \<Rightarrow> ('h InputIdentityEncoder \<times> unit XllResult) run" where
  "semantic_utf16 B units e =
     bind_run (decoder_new units) (\<lambda>len.
     bind_run (encode_u64 B (of_nat len) e) (\<lambda>e.
       if len = length units
       then bind_run (put_each (write_bytes B) (map (map of_nat) (chunks 256 units)) e) (\<lambda>e. Returns (e, Inr ()))
       else semantic_loop B (decode_utf16 units) [] e))"

definition raw_utf16 :: "'h Blake3 \<Rightarrow> u16 list \<Rightarrow> 'h InputIdentityEncoder \<Rightarrow> 'h InputIdentityEncoder run" where
  "raw_utf16 B units e =
     bind_run (encode_u64 B (of_nat (length units)) e)
       (put_each (write_bytes B) (map (\<lambda>c. concat (map (to_le_bytes 2) c)) (chunks 128 units)))"

text \<open>
  \<open>f64_sequence\<close> over the results its iterator yields: inline until the inline buffer is
  full, then promoted once and streamed through \<open>write_hashed\<close>.
\<close>

fun stream_f64 :: "'h Blake3 \<Rightarrow> u64 XllResult list \<Rightarrow> 'h HashedArgument \<Rightarrow> 'h HashedArgument \<times> unit XllResult" where
  "stream_f64 B [] st = (st, Inr ())"
| "stream_f64 B (Inl err # vs) st = (st, Inl err)"
| "stream_f64 B (Inr bits # vs) st = stream_f64 B vs (write_hashed B st (to_le_bytes 8 bits))"

definition stream_into ::
    "'h Blake3 \<Rightarrow> u64 \<Rightarrow> u64 XllResult list \<Rightarrow> 'h InputIdentityEncoder \<Rightarrow>
     ('h InputIdentityEncoder \<times> unit XllResult) run" where
  "stream_into B bits vs e = (case sink e of
       InlineSink _ _ \<Rightarrow> Aborts
     | HashedSink st \<Rightarrow>
         let (st, result) = stream_f64 B vs (write_hashed B st (to_le_bytes 8 bits));
             e = e\<lparr> sink := HashedSink st \<rparr>
         in Returns ((case result of Inl err \<Rightarrow> fail err e | Inr _ \<Rightarrow> e), result))"

fun f64_loop ::
    "'h Blake3 \<Rightarrow> u64 XllResult list \<Rightarrow> 'h InputIdentityEncoder \<Rightarrow>
     ('h InputIdentityEncoder \<times> unit XllResult) run" where
  "f64_loop B [] e = Returns (e, Inr ())"
| "f64_loop B (Inl err # vs) e = Returns (fail err e, Inl err)"
| "f64_loop B (Inr bits # vs) e = (case sink e of
       InlineSink buffer len \<Rightarrow>
         if len + 8 \<le> INLINE_ARGUMENT_BYTES
         then f64_loop B vs (e\<lparr> sink := InlineSink (copy_from_slice len (to_le_bytes 8 bits) buffer) (len + 8) \<rparr>)
         else bind_run (promote_to_hashed B e) (stream_into B bits vs)
     | HashedSink _ \<Rightarrow> stream_into B bits vs e)"

definition f64_sequence ::
    "'h Blake3 \<Rightarrow> u64 XllResult list \<Rightarrow> 'h InputIdentityEncoder \<Rightarrow>
     ('h InputIdentityEncoder \<times> unit XllResult) run" where
  "f64_sequence B values e =
     (case encoder_error e of Some err \<Rightarrow> Returns (e, Inl err) | None \<Rightarrow> f64_loop B values e)"

text \<open>\<open>finish_into\<close> updates the root hash; the encoder is flushed and goes back as scratch space.\<close>

definition finish_into ::
    "'h Blake3 \<Rightarrow> 'h InputIdentityEncoder \<Rightarrow> 'h \<Rightarrow> 'h InputIdentityEncoder \<times> 'h \<times> unit XllResult" where
  "finish_into B e root = (case encoder_error e of
       Some err \<Rightarrow> (e, root, Inl err)
     | None \<Rightarrow> (case sink e of
           InlineSink bytes len \<Rightarrow>
             let root = blake_update B root [0];
                 root = blake_update B root (to_le_bytes 8 (of_nat len :: u64));
                 root = blake_update B root (take len bytes)
             in (e, root, Inr ())
         | HashedSink st \<Rightarrow>
             let st = flush_hashed B st;
                 root = blake_update B root [1];
                 root = blake_update B root (blake_finalize B (hasher st))
             in (e\<lparr> sink := HashedSink st \<rparr>, root, Inr ())))"

subsection \<open>The fingerprint of an argument list\<close>

record 'h InputFingerprintBuilder =
  root :: 'h
  expected_arguments :: nat
  next_argument :: nat
  scratch :: "'h HashedArgument option"

definition INPUT_FINGERPRINT :: nat where "INPUT_FINGERPRINT = from_ascii8 ''INPFRMPT''"

definition builder_new :: "'h Blake3 \<Rightarrow> nat \<Rightarrow> 'h InputFingerprintBuilder" where
  "builder_new B expected =
     (let root = blake_update B (blake_new B) INPUT_FINGERPRINT_DOMAIN;
          root = blake_update B root (to_le_bytes 8 (of_nat expected :: u64))
      in \<lparr> root = root, expected_arguments = expected, next_argument = 0, scratch = None \<rparr>)"

definition argument_header :: "'h Blake3 \<Rightarrow> 'h \<Rightarrow> nat \<Rightarrow> string \<Rightarrow> 'h" where
  "argument_header B h index argument =
     (let root = blake_update B h [0xA0];
          root = blake_update B root (to_le_bytes 8 (of_nat index :: u64));
          root = blake_update B root (to_le_bytes 8 (of_nat (length argument) :: u64))
      in blake_update B root (map of_char argument))"

definition reclaim_scratch :: "'h InputIdentityEncoder \<Rightarrow> 'h HashedArgument option" where
  "reclaim_scratch e = (case sink e of HashedSink st \<Rightarrow> Some st | InlineSink _ _ \<Rightarrow> spare e)"

definition with_argument ::
    "'h Blake3 \<Rightarrow> nat \<Rightarrow> string \<Rightarrow> ('h InputIdentityEncoder \<Rightarrow> ('h InputIdentityEncoder \<times> 'r XllResult) run) \<Rightarrow>
     'h InputFingerprintBuilder \<Rightarrow> ('h InputFingerprintBuilder \<times> 'r XllResult) run" where
  "with_argument B index argument encode b =
     (if index \<noteq> next_argument b then Returns (b, Inl (Internal INPUT_FINGERPRINT))
      else
        let b = b\<lparr> root := argument_header B (root b) index argument \<rparr>;
            encoder = (encoder_new argument)\<lparr> spare := scratch b \<rparr>;
            b = b\<lparr> scratch := None \<rparr>
        in bind_run (encode encoder) (\<lambda>(encoder, result).
          let (encoder, b, result) = (case result of
                Inl err \<Rightarrow> (encoder, b, Inl err)
              | Inr value \<Rightarrow>
                  let (encoder, root', done) = finish_into B encoder (root b)
                  in (encoder, b\<lparr> root := root' \<rparr>, bind_result done (\<lambda>_. Inr value)));
              b = b\<lparr> scratch := reclaim_scratch encoder \<rparr>
          in Returns (case result of
                Inl err \<Rightarrow> (b, Inl err)
              | Inr value \<Rightarrow> (b\<lparr> next_argument := next_argument b + 1 \<rparr>, Inr value))))"

definition finish_ref :: "'h Blake3 \<Rightarrow> 'h InputFingerprintBuilder \<Rightarrow> u8 list XllResult" where
  "finish_ref B b =
     (if next_argument b \<noteq> expected_arguments b then Inl (Internal INPUT_FINGERPRINT)
      else Inr (blake_finalize B (root b)))"


section \<open>Specification\<close>

text \<open>
  What the code relies on of the hash function: the state of a hasher stands for the bytes
  it has absorbed since it was created or reset, and the digest of 32 bytes is a function of
  those bytes alone.
\<close>

definition incremental :: "'h Blake3 \<Rightarrow> ('h \<Rightarrow> u8 list \<Rightarrow> bool) \<Rightarrow> (u8 list \<Rightarrow> u8 list) \<Rightarrow> bool" where
  "incremental B absorbed digest \<longleftrightarrow>
     absorbed (blake_new B) [] \<and> (\<forall>h. absorbed (blake_reset B h) []) \<and>
     (\<forall>h xs ys. absorbed h xs \<longrightarrow> absorbed (blake_update B h ys) (xs @ ys)) \<and>
     (\<forall>h xs. absorbed h xs \<longrightarrow> blake_finalize B h = digest xs) \<and> (\<forall>xs. length (digest xs) = 32)"

text \<open>A hash that keeps its input, with the digest that fits: the interface can be met.\<close>

definition concat_digest :: "u8 list \<Rightarrow> u8 list" where
  "concat_digest xs = take 32 (xs @ replicate 32 0)"

definition concat_hash :: "u8 list Blake3" where
  "concat_hash = \<lparr> blake_new = [], blake_reset = \<lambda>_. [], blake_update = \<lambda>h xs. h @ xs, blake_finalize = concat_digest \<rparr>"

lemma concat_hash_incremental: "incremental concat_hash (=) concat_digest"
  by (auto simp: incremental_def concat_hash_def concat_digest_def min_def)

text \<open>The bytes of an encoding so far, or the first failure.\<close>

type_synonym encoding = "XllError + u8 list"

definition append_bytes :: "encoding \<Rightarrow> u8 list \<Rightarrow> encoding" where
  "append_bytes r xs = map_sum id (\<lambda>bs. bs @ xs) r"

definition poison :: "encoding \<Rightarrow> XllError \<Rightarrow> encoding" where
  "poison r err = (case r of Inl first \<Rightarrow> Inl first | Inr _ \<Rightarrow> Inl err)"

definition hashed_holds :: "('h \<Rightarrow> u8 list \<Rightarrow> bool) \<Rightarrow> 'h HashedArgument \<Rightarrow> u8 list \<Rightarrow> bool" where
  "hashed_holds absorbed st bs \<longleftrightarrow>
     length (hash_buffer st) = HASH_BUFFER_BYTES \<and> buffered st \<le> HASH_BUFFER_BYTES \<and>
     (\<exists>p. absorbed (hasher st) p \<and> bs = p @ take (buffered st) (hash_buffer st))"

fun sink_holds :: "('h \<Rightarrow> u8 list \<Rightarrow> bool) \<Rightarrow> 'h ArgumentSink \<Rightarrow> u8 list \<Rightarrow> bool" where
  "sink_holds absorbed (InlineSink buffer n) bs \<longleftrightarrow>
     length buffer = INLINE_ARGUMENT_BYTES \<and> n \<le> INLINE_ARGUMENT_BYTES \<and> take n buffer = bs"
| "sink_holds absorbed (HashedSink st) bs \<longleftrightarrow>
     hashed_holds absorbed st bs \<and> INLINE_ARGUMENT_BYTES < length bs"

definition spare_ok :: "'h HashedArgument option \<Rightarrow> bool" where
  "spare_ok s = (case s of None \<Rightarrow> True | Some st \<Rightarrow> length (hash_buffer st) = HASH_BUFFER_BYTES)"

definition encodes ::
    "'h Blake3 \<Rightarrow> ('h \<Rightarrow> u8 list \<Rightarrow> bool) \<Rightarrow> (u8 list \<Rightarrow> u8 list) \<Rightarrow> string \<Rightarrow>
     'h InputIdentityEncoder \<Rightarrow> encoding \<Rightarrow> bool" where
  "encodes B absorbed digest argument e r \<longleftrightarrow>
     incremental B absorbed digest \<and> spare_ok (spare e) \<and> encoder_argument e = argument \<and>
     (\<exists>bs. sink_holds absorbed (sink e) bs \<and> r = (case encoder_error e of Some err \<Rightarrow> Inl err | None \<Rightarrow> Inr bs))"

lemma append_bytes_simps [simp]:
  "append_bytes (Inl err) xs = Inl err" "append_bytes (Inr bs) xs = Inr (bs @ xs)"
  "append_bytes (append_bytes r xs) ys = append_bytes r (xs @ ys)" "append_bytes r [] = r"
  by (cases r; simp add: append_bytes_def)+

lemma poison_simps [simp]:
  "poison (Inl first) err = Inl first" "poison (Inr bs) err = Inl err"
  "poison (append_bytes r xs) err = poison r err"
  by (cases r; simp add: poison_def)+

lemma incrementalD:
  assumes "incremental B absorbed digest"
  shows "absorbed (blake_new B) []" "absorbed (blake_reset B h) []"
    "absorbed h xs \<Longrightarrow> absorbed (blake_update B h ys) (xs @ ys)"
    "absorbed h xs \<Longrightarrow> blake_finalize B h = digest xs" "length (digest xs) = 32"
  using assms by (auto simp: incremental_def)

section \<open>Interface: byte encoders\<close>

text \<open>
  Clients of an encoder see a sequence of bytes: a write appends to it, or leaves the failure
  there is. How the bytes are split over writes does not matter.
\<close>

locale byte_encoder =
  fixes put :: "'e \<Rightarrow> u8 list \<Rightarrow> 'e run"
    and holds :: "'e \<Rightarrow> encoding \<Rightarrow> bool"
  assumes put_appends: "holds e r \<Longrightarrow> yields (put e xs) (\<lambda>e'. holds e' (append_bytes r xs))"
begin

lemma put_then:
  assumes "holds e r" "\<And>e'. holds e' (append_bytes r xs) \<Longrightarrow> yields (f e') Q"
  shows "yields (bind_run (put e xs) f) Q"
  using put_appends [OF assms(1)] assms(2) by (rule yields_bind)

lemma put_each_appends:
  "holds e r \<Longrightarrow> yields (put_each put cs e) (\<lambda>e'. holds e' (append_bytes r (concat cs)))"
proof (induction cs arbitrary: e r)
  case (Cons c cs)
  show ?case unfolding put_each.simps by (rule put_then [OF Cons.prems]) (use Cons.IH in fastforce)
qed simp

end

section \<open>The encoder refines the byte sequence\<close>

lemma take_copy:
  "n + length xs \<le> length buf \<Longrightarrow> take (n + length xs) (copy_from_slice n xs buf) = take n buf @ xs"
  by (simp add: copy_from_slice_def)

lemma length_copy [simp]:
  "n + length xs \<le> length buf \<Longrightarrow> length (copy_from_slice n xs buf) = length buf"
  by (simp add: copy_from_slice_def)

lemma hashed_holds_flush:
  assumes "incremental B absorbed digest" "hashed_holds absorbed st bs"
  shows "hashed_holds absorbed (flush_hashed B st) bs" "buffered (flush_hashed B st) = 0"
    "absorbed (hasher (flush_hashed B st)) bs"
  using assms incrementalD(3) [OF assms(1)] by (auto simp: hashed_holds_def flush_hashed_def)

lemma hashed_holds_write:
  assumes inc: "incremental B absorbed digest" and st: "hashed_holds absorbed st bs"
  shows "hashed_holds absorbed (write_hashed B st xs) (bs @ xs)"
proof (cases "length xs \<ge> HASH_BUFFER_BYTES")
  case True
  show ?thesis
    using hashed_holds_flush [OF inc st] incrementalD(3) [OF inc] True
    by (auto simp: write_hashed_def hashed_holds_def Let_def)
next
  case False
  define st' where "st' = (if buffered st + length xs > HASH_BUFFER_BYTES then flush_hashed B st else st)"
  have st': "hashed_holds absorbed st' bs" "buffered st' + length xs \<le> HASH_BUFFER_BYTES"
    using hashed_holds_flush [OF inc st] st False by (auto simp: st'_def)
  then obtain p where p: "absorbed (hasher st') p" "bs = p @ take (buffered st') (hash_buffer st')"
    and len: "length (hash_buffer st') = HASH_BUFFER_BYTES" by (auto simp: hashed_holds_def)
  have "take (buffered st' + length xs) (copy_from_slice (buffered st') xs (hash_buffer st'))
      = take (buffered st') (hash_buffer st') @ xs"
    by (rule take_copy) (use st'(2) len in simp)
  then have "hashed_holds absorbed (st'\<lparr>hash_buffer := copy_from_slice (buffered st') xs (hash_buffer st'),
      buffered := buffered st' + length xs\<rparr>) (bs @ xs)"
    using p st'(2) len by (auto simp: hashed_holds_def)
  then show ?thesis using False by (simp add: write_hashed_def Let_def st'_def)
qed

lemma promoted_holds:
  assumes inc: "incremental B absorbed digest" and spare: "spare_ok (spare e)"
    and inline: "sink e = InlineSink buffer n" "sink_holds absorbed (sink e) bs"
  shows "\<exists>st. promote_to_hashed B e = Returns (e\<lparr>sink := HashedSink st, spare := None\<rparr>) \<and>
    hashed_holds absorbed st bs"
proof -
  define st0 where "st0 = (case spare e of
      Some st \<Rightarrow> st\<lparr>hasher := blake_reset B (hasher st)\<rparr>
    | None \<Rightarrow> \<lparr>hasher = blake_new B, hash_buffer = replicate HASH_BUFFER_BYTES 0, buffered = 0\<rparr>)"
  define st where "st = st0\<lparr>hash_buffer := copy_from_slice 0 (take n buffer) (hash_buffer st0), buffered := n\<rparr>"
  have st0: "absorbed (hasher st0) []" "length (hash_buffer st0) = HASH_BUFFER_BYTES"
    using incrementalD(1,2) [OF inc] spare by (auto simp: st0_def spare_ok_def split: option.splits)
  have n: "length buffer = INLINE_ARGUMENT_BYTES" "n \<le> INLINE_ARGUMENT_BYTES" "take n buffer = bs"
    using inline by auto
  then have "length bs = n" "n \<le> HASH_BUFFER_BYTES"
    by (auto simp: INLINE_ARGUMENT_BYTES_def HASH_BUFFER_BYTES_def)
  then have "hashed_holds absorbed st bs"
    using st0 n take_copy [of 0 bs "hash_buffer st0"] by (auto simp: hashed_holds_def st_def)
  moreover have "promote_to_hashed B e = Returns (e\<lparr>sink := HashedSink st, spare := None\<rparr>)"
    using inline(1) by (simp add: promote_to_hashed_def st_def st0_def Let_def)
  ultimately show ?thesis by blast
qed

interpretation identity_encoder: byte_encoder "write_bytes B" "encodes B absorbed digest argument"
  for B :: "'h Blake3" and absorbed digest argument
proof
  fix e :: "'h InputIdentityEncoder" and r xs
  assume enc: "encodes B absorbed digest argument e r"
  then obtain bs where bs: "sink_holds absorbed (sink e) bs"
      "r = (case encoder_error e of Some err \<Rightarrow> Inl err | None \<Rightarrow> Inr bs)"
    and inc: "incremental B absorbed digest" and spare: "spare_ok (spare e)"
    and arg: "encoder_argument e = argument" by (auto simp: encodes_def)
  show "yields (write_bytes B e xs) (\<lambda>e'. encodes B absorbed digest argument e' (append_bytes r xs))"
  proof (cases "encoder_error e")
    case (Some err)
    then show ?thesis using enc bs by (simp add: write_bytes_def)
  next
    case None
    show ?thesis
    proof (cases "sink e")
      case (HashedSink st)
      then have "hashed_holds absorbed (write_hashed B st xs) (bs @ xs)"
        using hashed_holds_write [OF inc] bs(1) by simp
      then show ?thesis
        using HashedSink None bs inc spare arg
        by (simp add: write_bytes_def needs_promotion_def write_sink_def encodes_def)
    next
      case (InlineSink buffer n)
      show ?thesis
      proof (cases "n + length xs > INLINE_ARGUMENT_BYTES")
        case True
        obtain st where st: "promote_to_hashed B e = Returns (e\<lparr>sink := HashedSink st, spare := None\<rparr>)"
            "hashed_holds absorbed st bs"
          using promoted_holds [OF inc spare InlineSink bs(1)] by blast
        have "length bs = n" using bs(1) InlineSink by auto
        then have "sink_holds absorbed (HashedSink (write_hashed B st xs)) (bs @ xs)"
          using hashed_holds_write [OF inc st(2)] True by simp
        then show ?thesis
          using InlineSink None bs inc arg True st(1)
          by (simp add: write_bytes_def needs_promotion_def write_sink_def encodes_def spare_ok_def)
      next
        case False
        then show ?thesis
          using InlineSink None bs inc spare arg take_copy [of n xs buffer]
          by (simp add: write_bytes_def needs_promotion_def write_sink_def encodes_def)
      qed
    qed
  qed
qed


section \<open>The operations of the encoder\<close>

definition string_bytes :: "nat list \<Rightarrow> u8 list" where
  "string_bytes value = to_le_bytes 8 (of_nat (length value) :: u64) @ map of_nat value"

definition raw_utf16_bytes :: "u16 list \<Rightarrow> u8 list" where
  "raw_utf16_bytes us = to_le_bytes 8 (of_nat (length us) :: u64) @ concat (map (to_le_bytes 2) us)"

lemma fail_encodes:
  "encodes B absorbed digest argument e r \<Longrightarrow>
   encodes B absorbed digest argument (fail err e) (poison r (reargument argument err))"
  by (auto simp: encodes_def fail_def split: option.splits)

lemmas scalar_encoders = encode_tag_def encode_u64_def encode_u32_def encode_i64_def encode_f64_def encode_bool_def

lemma encode_bytes_appends:
  assumes "encodes B absorbed digest argument e r"
  shows "yields (encode_bytes B bs e) (\<lambda>e'.
    encodes B absorbed digest argument e' (append_bytes r (to_le_bytes 8 (of_nat (length bs) :: u64) @ bs)))"
  unfolding encode_bytes_def scalar_encoders
  by (rule identity_encoder.put_then [OF assms]) (drule identity_encoder.put_appends, simp)

lemma encode_string_appends:
  assumes "encodes B absorbed digest argument e r"
  shows "yields (encode_string B s e) (\<lambda>e'.
    encodes B absorbed digest argument e' (append_bytes r (string_bytes s)))"
  using encode_bytes_appends [OF assms, of "map of_nat s"]
  by (simp add: encode_string_def string_bytes_def)

lemma concat_chunk_map:
  assumes "\<And>c. f c = concat (map g c)"
  shows "concat (map f (chunks n xs)) = concat (map g xs)"
proof -
  have "concat (map f cs) = concat (map g (concat cs))" for cs
    by (induction cs) (simp_all add: assms)
  then show ?thesis by (simp add: concat_chunks)
qed

lemma raw_utf16_appends:
  assumes "encodes B absorbed digest argument e r"
  shows "yields (raw_utf16 B us e) (\<lambda>e'.
    encodes B absorbed digest argument e' (append_bytes r (raw_utf16_bytes us)))"
proof -
  let ?cs = "map (\<lambda>c. concat (map (to_le_bytes 2) c)) (chunks 128 us) :: u8 list list"
  have "concat ?cs = concat (map (to_le_bytes 2) us)" by (rule concat_chunk_map) simp
  then show ?thesis
    unfolding raw_utf16_def scalar_encoders raw_utf16_bytes_def
    by (intro identity_encoder.put_then [OF assms]) (drule identity_encoder.put_each_appends [of _ _ _ _ _ _ ?cs], simp)
qed

subsection \<open>Text\<close>

lemma semantic_loop_encodes:
  assumes "encodes B absorbed digest argument e r" 
  shows "yields (semantic_loop B rs pending e) (\<lambda>(e', v).
    case sequence_results rs of
      Some s \<Rightarrow> v = Inr () \<and>
        encodes B absorbed digest argument e' (append_bytes r (pending @ map of_nat (as_bytes s)))
    | None \<Rightarrow> v = Inl (Input argument InvalidUtf16) \<and>
        encodes B absorbed digest argument e' (poison r (Input argument InvalidUtf16)))"
  using assms
proof (induction rs arbitrary: pending e r)
  case Nil
  show ?case unfolding semantic_loop.simps
    by (rule identity_encoder.put_then [OF Nil]) (simp add: as_bytes_def)
next
  case (Cons x rs)
  show ?case
  proof (cases x)
    case (Inl u)
    moreover have "encoder_argument e = argument" using Cons.prems by (simp add: encodes_def)
    ultimately show ?thesis using fail_encodes [OF Cons.prems, of "Input argument InvalidUtf16"]
      by (simp add: reargument_def Let_def)
  next
    case (Inr c)
    let ?c = "map of_nat (encode_utf8_char c) :: u8 list"
    show ?thesis
    proof (cases "256 - length pending < 4")
      case True
      show ?thesis unfolding Inr semantic_loop.simps if_P [OF True]
        by (rule identity_encoder.put_then [OF Cons.prems], drule Cons.IH [of _ _ ?c])
          (auto elim!: yields_mono simp: as_bytes_Cons split: option.splits)
    next
      case False
      show ?thesis unfolding Inr semantic_loop.simps if_not_P [OF False]
        using Cons.IH [OF Cons.prems, of "pending @ ?c"]
        by (auto elim!: yields_mono simp: as_bytes_Cons split: option.splits)
    qed
  qed
qed

lemma unit_plan_char: "is_scalar c \<Longrightarrow> sum_list (map unit_utf8_len (encode_utf16_char c)) = len_utf8 c"
  by (auto simp: encode_utf16_char_def is_scalar_def unit_utf8_len_cases len_utf8_def)

lemma unit_plan_exact:
  assumes "from_utf16 us = Some s" "units_ok us"
  shows "sum_list (map unit_utf8_len us) = length (as_bytes s)"
proof -
  have s: "is_str s" "us = encode_utf16 s"
    using utf16.dec_sound [of us s] assms by simp_all
  from s(1) have "sum_list (map unit_utf8_len (encode_utf16 s)) = length (as_bytes s)"
    by (induction s) (auto simp: encode_utf16_def is_str_def as_bytes_def unit_plan_char)
  then show ?thesis by (simp add: s(2))
qed

lemma ascii_text:
  assumes "list_all (\<lambda>u. u < 0x80) us"
  shows "from_utf16 us = Some us" "as_bytes us = us"
proof -
  have "decode_utf16 us = map Inr us"
    using assms by (intro decode_utf16_scalars) (auto simp: list_all_iff)
  then show "from_utf16 us = Some us" by (simp add: from_utf16_def sequence_Some_iff)
  show "as_bytes us = us"
    using assms ascii_lengths [of us] by (simp add: is_ascii_str_def is_ascii_char_def [abs_def])
qed

lemma semantic_utf16_encodes:
  assumes e: "encodes B absorbed digest argument e r" and us: "units_ok us"
  shows "yields (semantic_utf16 B us e) (\<lambda>(e', v).
    case from_utf16 us of
      Some s \<Rightarrow> v = Inr () \<and> encodes B absorbed digest argument e' (append_bytes r (string_bytes (as_bytes s)))
    | None \<Rightarrow> v = Inl (Input argument InvalidUtf16) \<and>
        encodes B absorbed digest argument e' (poison r (Input argument InvalidUtf16)))"
proof -
  let ?n = "sum_list (map unit_utf8_len us)"
  let ?Q = "\<lambda>(e', v). case from_utf16 us of
      Some s \<Rightarrow> v = Inr () \<and> encodes B absorbed digest argument e' (append_bytes r (string_bytes (as_bytes s)))
    | None \<Rightarrow> v = Inl (Input argument InvalidUtf16) \<and>
        encodes B absorbed digest argument e' (poison r (Input argument InvalidUtf16))"
  have "yields (if ?n = length us
       then bind_run (put_each (write_bytes B) (map (map of_nat) (chunks 256 us)) e') (\<lambda>e. Returns (e, Inr ()))
       else semantic_loop B (decode_utf16 us) [] e') ?Q"
    if e': "encodes B absorbed digest argument e' (append_bytes r (to_le_bytes 8 (of_nat ?n :: u64)))" for e'
  proof (cases "?n = length us")
    case True
    note ascii = ascii_text [OF plan_ascii [OF True]]
    have "concat (map (map of_nat) (chunks 256 us)) = (map of_nat us :: u8 list)"
      by (simp add: map_concat [symmetric] concat_chunks)
    then show ?thesis
      using identity_encoder.put_each_appends [OF e', of "map (map of_nat) (chunks 256 us)"] True
      by (auto intro!: yields_bind simp: ascii string_bytes_def Let_def)
  next
    case False
    from semantic_loop_encodes [OF e', of "decode_utf16 us" "[]"] show ?thesis
      using False unit_plan_exact [OF _ us]
      by (auto elim!: yields_mono simp: from_utf16_def string_bytes_def Let_def split: option.splits)
  qed
  then show ?thesis
    unfolding semantic_utf16_def decoder_new_eq scalar_encoders bind_run.simps
    by (intro identity_encoder.put_then [OF e])
qed

subsection \<open>Sequences of numbers\<close>

fun split_results :: "('e + 'a) list \<Rightarrow> 'a list \<times> 'e option" where
  "split_results [] = ([], None)"
| "split_results (Inl err # vs) = ([], Some err)"
| "split_results (Inr x # vs) = (let (xs, err) = split_results vs in (x # xs, err))"

definition numbers_bytes :: "u64 list \<Rightarrow> u8 list" where
  "numbers_bytes xs = concat (map (to_le_bytes 8) xs)"

lemma stream_f64_holds:
  assumes inc: "incremental B absorbed digest"
  shows "hashed_holds absorbed st bs \<Longrightarrow>
   hashed_holds absorbed (fst (stream_f64 B vs st)) (bs @ numbers_bytes (fst (split_results vs))) \<and>
   snd (stream_f64 B vs st) = (case snd (split_results vs) of Some err \<Rightarrow> Inl err | None \<Rightarrow> Inr ())"
proof (induction vs arbitrary: st bs rule: split_results.induct)
  case (3 x vs)
  from 3(1) [OF hashed_holds_write [OF inc 3(2)], of "to_le_bytes 8 x"] show ?case
    by (simp add: numbers_bytes_def case_prod_beta Let_def)
qed (simp_all add: numbers_bytes_def)

lemma stream_into_encodes:
  assumes inc: "incremental B absorbed digest" and st: "sink e = HashedSink st" "hashed_holds absorbed st bs"
    and e: "spare_ok (spare e)" "encoder_argument e = argument" "encoder_error e = None"
    and long: "INLINE_ARGUMENT_BYTES < length bs + 8"
  shows "yields (stream_into B bits vs e) (\<lambda>(e', v). case split_results (Inr bits # vs) of
      (xs, None) \<Rightarrow> v = Inr () \<and> encodes B absorbed digest argument e' (Inr (bs @ numbers_bytes xs))
    | (xs, Some err) \<Rightarrow> v = Inl err \<and> encodes B absorbed digest argument e' (Inl (reargument argument err)))"
proof -
  have "hashed_holds absorbed (write_hashed B st (to_le_bytes 8 bits)) (bs @ to_le_bytes 8 bits)"
    by (rule hashed_holds_write [OF inc st(2)])
  from stream_f64_holds [OF inc this, of vs] show ?thesis
    using inc st(1) e long
    by (auto simp: stream_into_def encodes_def fail_def numbers_bytes_def split: prod.splits option.splits)
      (rule exI, rule conjI, assumption, simp)
qed

lemma f64_loop_encodes:
  assumes "encodes B absorbed digest argument e (Inr bs)"
  shows "yields (f64_loop B vs e) (\<lambda>(e', v). case split_results vs of
      (xs, None) \<Rightarrow> v = Inr () \<and> encodes B absorbed digest argument e' (Inr (bs @ numbers_bytes xs))
    | (xs, Some err) \<Rightarrow> v = Inl err \<and> encodes B absorbed digest argument e' (Inl (reargument argument err)))"
  using assms
proof (induction vs arbitrary: e bs rule: split_results.induct)
  case 1
  then show ?case by (simp add: numbers_bytes_def)
next
  case (2 err vs)
  then show ?case using fail_encodes [OF 2, of err] by simp
next
  case (3 x vs)
  have e: "spare_ok (spare e)" "encoder_argument e = argument" "encoder_error e = None"
    and inc: "incremental B absorbed digest" and bs: "sink_holds absorbed (sink e) bs"
    using 3(2) by (auto simp: encodes_def split: option.splits)
  show ?case
  proof (cases "sink e")
    case (HashedSink st)
    then show ?thesis using stream_into_encodes [OF inc HashedSink _ e, of bs x vs] bs by simp
  next
    case (InlineSink buffer n)
    show ?thesis
    proof (cases "n + 8 \<le> INLINE_ARGUMENT_BYTES")
      case True
      let ?e = "e\<lparr>sink := InlineSink (copy_from_slice n (to_le_bytes 8 x) buffer) (n + 8)\<rparr>"
      have "encodes B absorbed digest argument ?e (Inr (bs @ to_le_bytes 8 x))"
        using e inc bs InlineSink True take_copy [of n "to_le_bytes 8 x" buffer] by (simp add: encodes_def)
      from 3(1) [OF this] show ?thesis using InlineSink True
        by (auto elim!: yields_mono simp: numbers_bytes_def split: prod.splits option.splits)
    next
      case False
      obtain st where st: "promote_to_hashed B e = Returns (e\<lparr>sink := HashedSink st, spare := None\<rparr>)"
          "hashed_holds absorbed st bs"
        using promoted_holds [OF inc e(1) InlineSink bs] by blast
      have "INLINE_ARGUMENT_BYTES < length bs + 8" using bs InlineSink False by auto
      from stream_into_encodes [OF inc _ st(2) _ _ _ this, of "e\<lparr>sink := HashedSink st, spare := None\<rparr>" argument x vs]
      show ?thesis using InlineSink False st(1) e by (simp add: spare_ok_def)
    qed
  qed
qed

lemma f64_sequence_encodes:
  assumes "encodes B absorbed digest argument e r"
  shows "yields (f64_sequence B vs e) (\<lambda>(e', v). case r of
      Inl err \<Rightarrow> v = Inl err \<and> encodes B absorbed digest argument e' r
    | Inr bs \<Rightarrow> (case split_results vs of
        (xs, None) \<Rightarrow> v = Inr () \<and> encodes B absorbed digest argument e' (Inr (bs @ numbers_bytes xs))
      | (xs, Some err) \<Rightarrow> v = Inl err \<and> encodes B absorbed digest argument e' (Inl (reargument argument err))))"
proof (cases "encoder_error e")
  case None
  then obtain bs where "r = Inr bs" using assms by (auto simp: encodes_def)
  then show ?thesis using f64_loop_encodes [of B absorbed digest argument e bs vs] assms None
    by (simp add: f64_sequence_def)
next
  case (Some err)
  then have "r = Inl err" using assms by (auto simp: encodes_def)
  then show ?thesis using assms Some by (simp add: f64_sequence_def)
qed

section \<open>The fingerprint\<close>

definition frame :: "(u8 list \<Rightarrow> u8 list) \<Rightarrow> u8 list \<Rightarrow> u8 list" where
  "frame digest bs =
     (if length bs \<le> INLINE_ARGUMENT_BYTES then 0 # to_le_bytes 8 (of_nat (length bs) :: u64) @ bs
      else 1 # digest bs)"

lemma finish_into_encodes:
  assumes e: "encodes B absorbed digest argument e r" and h: "absorbed h p"
  shows "case finish_into B e h of (e', h', v) \<Rightarrow> spare_ok (reclaim_scratch e') \<and>
    (case r of Inl err \<Rightarrow> v = Inl err \<and> h' = h
     | Inr bs \<Rightarrow> v = Inr () \<and> absorbed h' (p @ frame digest bs))"
proof -
  have inc: "incremental B absorbed digest" using e by (simp add: encodes_def)
  have upd: "absorbed (blake_update B h1 ys) (xs @ ys)" if "absorbed h1 xs" for h1 xs ys
    using incrementalD(3) [OF inc that] .
  show ?thesis
  proof (cases "encoder_error e")
    case (Some err)
    then show ?thesis using e
      by (auto simp: encodes_def finish_into_def reclaim_scratch_def spare_ok_def hashed_holds_def split: ArgumentSink.splits)
  next
    case None
    then obtain bs where bs: "r = Inr bs" "sink_holds absorbed (sink e) bs" "spare_ok (spare e)"
      using e by (auto simp: encodes_def)
    show ?thesis
    proof (cases "sink e")
      case (InlineSink buffer n)
      then have "length bs = n" "n \<le> INLINE_ARGUMENT_BYTES" "take n buffer = bs" using bs by auto
      then show ?thesis
        using InlineSink None bs(1,3) upd [OF upd [OF upd [OF h, of "[0]"], of "to_le_bytes 8 (of_nat n :: u64)"], of bs]
        by (simp add: finish_into_def frame_def Let_def reclaim_scratch_def)
    next
      case (HashedSink st)
      then have st: "hashed_holds absorbed st bs" "INLINE_ARGUMENT_BYTES < length bs" using bs by auto
      note fl = hashed_holds_flush [OF inc st(1)]
      show ?thesis
        using HashedSink None bs(1) st fl incrementalD(4) [OF inc fl(3)] upd [OF upd [OF h, of "[1]"], of "digest bs"]
        by (auto simp: finish_into_def frame_def Let_def reclaim_scratch_def spare_ok_def hashed_holds_def)
    qed
  qed
qed

end
