(* ===== verification/Excel_Input.thy ===== *)
theory Excel_Input
  imports Excel_Value Input_Identity Serial_Date
begin

text \<open>
  Conversion of scalar and dynamic arguments and their identities (\<open>crates/xlfn/src/value.rs\<close>): the
  \<open>FromExcel\<close>, \<open>ExcelInputIdentity\<close> and \<open>PrepareExcel\<close> implementations of the built-in types. A
  floating point number is its bit pattern, read as a rational where its value matters; a
  string is its UTF-8 bytes.
\<close>

section \<open>Definitions\<close>

subsection \<open>Floating point numbers\<close>

definition f64_exponent :: "u64 \<Rightarrow> nat" where
  "f64_exponent b = unat b div 2 ^ 52 mod 2 ^ 11"

definition f64_mantissa :: "u64 \<Rightarrow> nat" where
  "f64_mantissa b = unat b mod 2 ^ 52"

definition f64_negative :: "u64 \<Rightarrow> bool" where
  "f64_negative b \<longleftrightarrow> 2 ^ 63 \<le> unat b"

definition is_finite :: "u64 \<Rightarrow> bool" where
  "is_finite b \<longleftrightarrow> f64_exponent b \<noteq> 2047"

definition f64_rat :: "u64 \<Rightarrow> rat" where
  "f64_rat b = (if f64_negative b then - 1 else 1) *
     (if f64_exponent b = 0 then of_nat (f64_mantissa b) / 2 ^ 1074
      else of_nat (2 ^ 52 + f64_mantissa b) * 2 ^ f64_exponent b / 2 ^ 1075)"

fun log2_floor :: "nat \<Rightarrow> nat" where
  "log2_floor n = (if n \<le> 1 then 0 else Suc (log2_floor (n div 2)))"

declare log2_floor.simps [simp del]

text \<open>\<open>as f64\<close> of an integer of at most 53 bits, which is exact.\<close>

definition f64_of_int :: "int \<Rightarrow> u64" where
  "f64_of_int i =
     (if i = 0 then 0
      else let n = nat \<bar>i\<bar>; k = log2_floor n
        in of_nat ((if i < 0 then 2 ^ 63 else 0) + (k + 1023) * 2 ^ 52 + (n * 2 ^ (52 - k) - 2 ^ 52)))"

text \<open>\<open>as i32\<close> and \<open>as i64\<close> of a finite number: truncation, saturated at the bounds.\<close>

definition f64_as_int :: "int \<Rightarrow> int \<Rightarrow> u64 \<Rightarrow> int" where
  "f64_as_int lo hi b = max lo (min hi (if f64_rat b < 0 then \<lceil>f64_rat b\<rceil> else \<lfloor>f64_rat b\<rfloor>))"

subsection \<open>Scalars\<close>

definition f64_from_excel :: "xloper \<Rightarrow> string \<Rightarrow> u64 conversion" where
  "f64_from_excel v argument = bind_run (xl_value_type v) (\<lambda>ty.
     bind_conv (if ty = XlNumber then ok_conv (number v)
                else if ty = XlInteger then ok_conv (f64_of_int (sint (integer v)))
                else bind_run (wrong_type v argument ''number'') err_conv) (\<lambda>n.
       if \<not> is_finite n then err_conv (Input argument NonFinite) else ok_conv n))"

definition bool_from_excel :: "xloper \<Rightarrow> string \<Rightarrow> bool conversion" where
  "bool_from_excel v argument = bind_run (xl_value_type v) (\<lambda>ty.
     if ty \<noteq> XlBoolean then bind_run (wrong_type v argument ''boolean'') err_conv
     else ok_conv (boolean v \<noteq> 0))"

definition number_to_integer :: "u64 \<Rightarrow> string \<Rightarrow> rat \<Rightarrow> rat \<Rightarrow> (u64 \<Rightarrow> 'a) \<Rightarrow> 'a conversion" where
  "number_to_integer n argument minimum maximum convert =
     (if \<not> is_finite n then err_conv (Input argument NonFinite)
      else if of_int \<lfloor>f64_rat n\<rfloor> \<noteq> f64_rat n then err_conv (Input argument NotInteger)
      else if f64_rat n < minimum \<or> f64_rat n > maximum then err_conv (Input argument NumericOverflow)
      else ok_conv (convert n))"

definition i32_from_excel :: "xloper \<Rightarrow> string \<Rightarrow> 32 word conversion" where
  "i32_from_excel v argument = bind_run (xl_value_type v) (\<lambda>ty.
     if ty = XlInteger then ok_conv (integer v)
     else if ty = XlNumber then
       number_to_integer (number v) argument (- (2 ^ 31)) (2 ^ 31 - 1)
         (\<lambda>n. word_of_int (f64_as_int (- (2 ^ 31)) (2 ^ 31 - 1) n))
     else bind_run (wrong_type v argument ''integer'') err_conv)"

definition i64_from_excel :: "xloper \<Rightarrow> string \<Rightarrow> 64 word conversion" where
  "i64_from_excel v argument = bind_run (xl_value_type v) (\<lambda>ty.
     if ty = XlInteger then ok_conv (word_of_int (sint (integer v)))
     else if ty = XlNumber then
       number_to_integer (number v) argument (- (2 ^ 53)) (2 ^ 53)
         (\<lambda>n. word_of_int (f64_as_int (- (2 ^ 63)) (2 ^ 63 - 1) n))
     else bind_run (wrong_type v argument ''integer'') err_conv)"

definition string_from_excel :: "xloper \<Rightarrow> string \<Rightarrow> nat list conversion" where
  "string_from_excel v argument = bind_conv (utf16_units v argument) (\<lambda>units. decode_owned units argument)"

definition error_from_excel :: "xloper \<Rightarrow> string \<Rightarrow> ExcelError conversion" where
  "error_from_excel v argument = bind_run (xl_value_type v) (\<lambda>ty.
     if ty \<noteq> XlError then bind_run (wrong_type v argument ''Excel error'') err_conv
     else (case from_code (error_code v) of
             None \<Rightarrow> err_conv (Input argument (Malformed ''unknown error code''))
           | Some e \<Rightarrow> ok_conv e))"

text \<open>A serial date keeps the bits of its number beside the date system.\<close>

type_synonym serial_date_bits = "u64 \<times> ExcelDateSystem"

definition f64_view :: "u64 \<Rightarrow> f64" where
  "f64_view b = (if is_finite b then Finite (f64_rat b) else NotFinite)"

definition date_from_excel :: "xloper \<Rightarrow> string \<Rightarrow> serial_date_bits conversion" where
  "date_from_excel v argument = bind_conv (f64_from_excel v argument) (\<lambda>n.
     case serial_date_new (f64_view n) Workbook of
       Inl err \<Rightarrow> err_conv (rename_argument argument err)
     | Inr _ \<Rightarrow> ok_conv (n, Workbook))"

definition f64_encode :: "'h Blake3 \<Rightarrow> u64 \<Rightarrow> 'h InputIdentityEncoder \<Rightarrow> 'h InputIdentityEncoder run" where
  "f64_encode B x e = encode_f64 B x e"

definition bool_encode :: "'h Blake3 \<Rightarrow> bool \<Rightarrow> 'h InputIdentityEncoder \<Rightarrow> 'h InputIdentityEncoder run" where
  "bool_encode B x e = encode_bool B x e"

definition i32_encode :: "'h Blake3 \<Rightarrow> 32 word \<Rightarrow> 'h InputIdentityEncoder \<Rightarrow> 'h InputIdentityEncoder run" where
  "i32_encode B x e = encode_i64 B (word_of_int (sint x)) e"

definition i64_encode :: "'h Blake3 \<Rightarrow> 64 word \<Rightarrow> 'h InputIdentityEncoder \<Rightarrow> 'h InputIdentityEncoder run" where
  "i64_encode B x e = encode_i64 B x e"

definition string_encode :: "'h Blake3 \<Rightarrow> nat list \<Rightarrow> 'h InputIdentityEncoder \<Rightarrow> 'h InputIdentityEncoder run" where
  "string_encode B x e = encode_string B x e"

definition error_encode :: "'h Blake3 \<Rightarrow> ExcelError \<Rightarrow> 'h InputIdentityEncoder \<Rightarrow> 'h InputIdentityEncoder run" where
  "error_encode B x e = encode_i64 B (word_of_int (code x)) e"

fun date_system_tag :: "ExcelDateSystem \<Rightarrow> u8" where
  "date_system_tag Workbook = 0"
| "date_system_tag Windows1900 = 1"
| "date_system_tag Mac1904 = 2"

definition date_encode :: "'h Blake3 \<Rightarrow> serial_date_bits \<Rightarrow> 'h InputIdentityEncoder \<Rightarrow> 'h InputIdentityEncoder run" where
  "date_encode B x e = bind_run (encode_f64 B (fst x) e) (encode_tag B (date_system_tag (snd x)))"

subsection \<open>Dynamic values\<close>

datatype ExcelCellValue =
  CellNumber u64 | CellBoolean bool | CellString "nat list" | CellError ExcelError | CellBlank

datatype ExcelValue = ValueScalar ExcelCellValue | ValueMissing | ValueArray "ExcelCellValue Matrix"

definition map_conv :: "('a \<Rightarrow> 'b) \<Rightarrow> 'a conversion \<Rightarrow> 'b conversion" where
  "map_conv f m = bind_conv m (\<lambda>x. ok_conv (f x))"

definition cell_from_excel :: "xloper \<Rightarrow> string \<Rightarrow> ExcelCellValue conversion" where
  "cell_from_excel v argument = bind_run (xl_value_type v) (\<lambda>ty. case ty of
       XlNumber \<Rightarrow> map_conv CellNumber (f64_from_excel v argument)
     | XlInteger \<Rightarrow> map_conv CellNumber (f64_from_excel v argument)
     | XlBoolean \<Rightarrow> map_conv CellBoolean (bool_from_excel v argument)
     | XlString \<Rightarrow> map_conv CellString (string_from_excel v argument)
     | XlError \<Rightarrow> map_conv CellError (error_from_excel v argument)
     | XlNil \<Rightarrow> ok_conv CellBlank
     | _ \<Rightarrow> bind_run (wrong_type v argument ''worksheet value'') err_conv)"

fun cell_encode :: "'h Blake3 \<Rightarrow> ExcelCellValue \<Rightarrow> 'h InputIdentityEncoder \<Rightarrow> 'h InputIdentityEncoder run" where
  "cell_encode B (CellNumber x) e = bind_run (encode_tag B 1 e) (f64_encode B x)"
| "cell_encode B (CellBoolean x) e = bind_run (encode_tag B 2 e) (bool_encode B x)"
| "cell_encode B (CellString x) e = bind_run (encode_tag B 3 e) (string_encode B x)"
| "cell_encode B (CellError x) e = bind_run (encode_tag B 4 e) (encode_i64 B (word_of_int (code x)))"
| "cell_encode B CellBlank e = encode_tag B 5 e"

text \<open>The size of an \<open>ExcelCellValue\<close>, which the budget charges per cell, is an argument.\<close>

definition excel_value_from_excel :: "target \<Rightarrow> nat \<Rightarrow> xloper \<Rightarrow> string \<Rightarrow> ExcelValue conversion" where
  "excel_value_from_excel t cell_size v argument = bind_run (xl_value_type v) (\<lambda>ty. case ty of
       XlMissing \<Rightarrow> ok_conv ValueMissing
     | XlMulti \<Rightarrow> map_conv ValueArray (convert_matrix t cell_size v argument cell_from_excel)
     | _ \<Rightarrow> map_conv ValueScalar (cell_from_excel v argument))"

text \<open>A loop that encodes each element.\<close>

fun encode_each :: "('a \<Rightarrow> 'e \<Rightarrow> 'e run) \<Rightarrow> 'a list \<Rightarrow> 'e \<Rightarrow> 'e run" where
  "encode_each encode [] e = Returns e"
| "encode_each encode (x # xs) e = bind_run (encode x e) (encode_each encode xs)"

definition dimensions_encode :: "'h Blake3 \<Rightarrow> nat \<Rightarrow> nat \<Rightarrow> 'h InputIdentityEncoder \<Rightarrow> 'h InputIdentityEncoder run" where
  "dimensions_encode B r c e = bind_run (encode_u64 B (of_nat r) e) (encode_u64 B (of_nat c))"

fun excel_value_encode :: "'h Blake3 \<Rightarrow> ExcelValue \<Rightarrow> 'h InputIdentityEncoder \<Rightarrow> 'h InputIdentityEncoder run" where
  "excel_value_encode B (ValueScalar x) e = bind_run (encode_tag B 1 e) (cell_encode B x)"
| "excel_value_encode B ValueMissing e = encode_tag B 2 e"
| "excel_value_encode B (ValueArray m) e =
     bind_run (encode_tag B 3 e) (\<lambda>e.
     bind_run (dimensions_encode B (m_rows m) (m_columns m) e) (encode_each (cell_encode B) (m_data m)))"

subsection \<open>Conversions that record\<close>

text \<open>
  A conversion with an encoder: it returns the encoder beside its result. \<open>lift_conv\<close> runs one
  that does not touch the encoder, \<open>run_encode\<close> an encoding.
\<close>

type_synonym ('h, 'a) recording = "'h InputIdentityEncoder \<Rightarrow> ('h InputIdentityEncoder \<times> 'a XllResult) run"

definition bind_rec :: "('h, 'a) recording \<Rightarrow> ('a \<Rightarrow> ('h, 'b) recording) \<Rightarrow> ('h, 'b) recording" where
  "bind_rec m f e = bind_run (m e) (\<lambda>(e, r). case r of Inl err \<Rightarrow> Returns (e, Inl err) | Inr x \<Rightarrow> f x e)"

definition lift_conv :: "'a conversion \<Rightarrow> ('h, 'a) recording" where
  "lift_conv m e = bind_run m (\<lambda>r. Returns (e, r))"

definition run_encode :: "('h InputIdentityEncoder \<Rightarrow> 'h InputIdentityEncoder run) \<Rightarrow> ('h, unit) recording" where
  "run_encode f e = bind_run (f e) (\<lambda>e. Returns (e, Inr ()))"

text \<open>The default of the trait.\<close>

definition default_with_identity ::
    "(xloper \<Rightarrow> string \<Rightarrow> 'a conversion) \<Rightarrow> ('a \<Rightarrow> 'h InputIdentityEncoder \<Rightarrow> 'h InputIdentityEncoder run) \<Rightarrow>
     xloper \<Rightarrow> string \<Rightarrow> ('h, 'a) recording" where
  "default_with_identity from_excel encode v argument =
     bind_rec (lift_conv (from_excel v argument)) (\<lambda>x. bind_rec (run_encode (encode x)) (\<lambda>_. lift_conv (ok_conv x)))"

fun convert_cells_rec ::
    "target \<Rightarrow> ArrayInputBudget \<Rightarrow> (xloper \<Rightarrow> ('h, 'a) recording) \<Rightarrow> xloper list \<Rightarrow> ('h, 'a list) recording" where
  "convert_cells_rec t b decode [] = lift_conv (ok_conv [])"
| "convert_cells_rec t b decode (cell # cs) =
     bind_rec (lift_conv (Returns (array_cell cell))) (\<lambda>element.
     bind_rec (lift_conv (budget_include t b element)) (\<lambda>b.
     bind_rec (decode element) (\<lambda>x.
     bind_rec (convert_cells_rec t b decode cs) (\<lambda>xs. lift_conv (ok_conv (x # xs))))))"

definition convert_grid_elements ::
    "target \<Rightarrow> nat \<Rightarrow> GridView \<Rightarrow> string \<Rightarrow> (xloper \<Rightarrow> ('h, 'a) recording) \<Rightarrow> ('h, 'a list) recording" where
  "convert_grid_elements t sz grid argument decode =
     bind_rec (lift_conv (Returns (array_budget_new t sz (length (grid_cells grid)) argument))) (\<lambda>b.
       convert_cells_rec t b decode (grid_cells grid))"

definition excel_value_with_identity ::
    "'h Blake3 \<Rightarrow> target \<Rightarrow> nat \<Rightarrow> xloper \<Rightarrow> string \<Rightarrow> ('h, ExcelValue) recording" where
  "excel_value_with_identity B t cell_size v argument e = bind_run (xl_value_type v) (\<lambda>ty.
     if ty \<noteq> XlMulti then
       default_with_identity (excel_value_from_excel t cell_size) (excel_value_encode B) v argument e
     else bind_rec (lift_conv (shaped_grid t MatrixShape v argument)) (\<lambda>grid.
       let (r, c) = grid_shape grid in
       bind_rec (run_encode (encode_tag B 3)) (\<lambda>_.
       bind_rec (run_encode (dimensions_encode B r c)) (\<lambda>_.
       bind_rec (convert_grid_elements t cell_size grid argument
                   (\<lambda>cell. default_with_identity cell_from_excel (cell_encode B) cell argument)) (\<lambda>cs.
         lift_conv (map_conv ValueArray (Returns (matrix_new t r c cs))))))) e)"

text \<open>\<open>String::prepare\<close> keeps the borrowed units; \<open>materialize\<close> decodes them.\<close>

definition string_prepare :: "'h Blake3 \<Rightarrow> xloper \<Rightarrow> string \<Rightarrow> ('h, nat list \<times> string) recording" where
  "string_prepare B v argument =
     bind_rec (lift_conv (utf16_units v argument)) (\<lambda>units.
     bind_rec (semantic_utf16 B units) (\<lambda>_. lift_conv (ok_conv (units, argument))))"

definition string_materialize :: "nat list \<times> string \<Rightarrow> nat list conversion" where
  "string_materialize p = decode_owned (fst p) (snd p)"

section \<open>Numbers\<close>

lemma log2_floor_bounds: "0 < n \<Longrightarrow> 2 ^ log2_floor n \<le> n \<and> n < 2 ^ Suc (log2_floor n)"
proof (induction n rule: log2_floor.induct)
  case (1 n)
  show ?case
  proof (cases "n \<le> 1")
    case True
    then have "n = 1" using 1(2) by simp
    then show ?thesis by (simp add: log2_floor.simps)
  next
    case False
    then have IH: "2 ^ log2_floor (n div 2) \<le> n div 2 \<and> n div 2 < 2 ^ Suc (log2_floor (n div 2))" using 1(1) by simp
    have "log2_floor n = Suc (log2_floor (n div 2))" using False by (simp add: log2_floor.simps [of n])
    then show ?thesis using IH by auto
  qed
qed

lemma place_value: "m < c \<Longrightarrow> (a * c + m) mod c = m" "m < c \<Longrightarrow> (a * c + m) div c = (a :: nat)"
  by simp_all

lemma f64_fields:
  assumes "k < 2 ^ 11" "m < 2 ^ 52" "b = of_nat ((if neg then 2 ^ 63 else 0) + k * 2 ^ 52 + m)"
  shows "f64_exponent b = k" "f64_mantissa b = m" "f64_negative b = neg"
proof -
  let ?n = "(if neg then 2 ^ 63 else 0) + k * 2 ^ 52 + m :: nat"
  have km: "k * 2 ^ 52 + m < 2 ^ 63"
  proof -
    have "k * 2 ^ 52 + m < Suc k * 2 ^ 52" using assms(2) by simp
    also have "\<dots> \<le> 2 ^ 11 * 2 ^ 52" using assms(1) by (intro mult_le_mono1) simp
    also have "\<dots> = 2 ^ 63" by simp
    finally show ?thesis .
  qed
  then have "?n < 2 ^ 64" by (cases neg) auto
  then have n: "unat b = ?n" unfolding assms(3) by (simp only: unat_of_nat) simp
  have sum: "?n = ((if neg then 2 ^ 11 else 0) + k) * 2 ^ 52 + m" by simp
  note split = place_value [OF assms(2), of "(if neg then 2 ^ 11 else 0) + k", folded sum]
  show "f64_mantissa b = m" unfolding f64_mantissa_def n by (rule split(1))
  have "?n div 2 ^ 52 = (if neg then 2 ^ 11 else 0) + k" by (rule split(2))
  then show "f64_exponent b = k" using assms(1) unfolding f64_exponent_def n by simp
  show "f64_negative b = neg" using km unfolding f64_negative_def n by auto
qed

lemma f64_of_int_exact:
  assumes "\<bar>i\<bar> < 2 ^ 53"
  shows "is_finite (f64_of_int i)" "f64_rat (f64_of_int i) = of_int i"
proof -
  have goal: "is_finite (f64_of_int i) \<and> f64_rat (f64_of_int i) = of_int i"
  proof (cases "i = 0")
    case True
    then show ?thesis
      by (simp add: f64_of_int_def is_finite_def f64_exponent_def f64_rat_def f64_mantissa_def f64_negative_def)
  next
    case False
    define n where "n = nat \<bar>i\<bar>"
    define k where "k = log2_floor n"
    have n: "0 < n" "n < 2 ^ 53" using False assms by (auto simp: n_def)
    note lb = log2_floor_bounds [OF n(1), folded k_def]
    have "(2::nat) ^ k < 2 ^ 53" using lb n(2) by linarith
    then have "k < 53" by (rule power_less_imp_less_exp [rotated]) simp
    then have k: "k \<le> 52" by simp
    have "2 ^ k * 2 ^ (52 - k) = (2::nat) ^ 52" using k by (simp add: power_add [symmetric])
    then have scaled: "2 ^ 52 \<le> n * 2 ^ (52 - k)" "n * 2 ^ (52 - k) < 2 ^ 53"
    proof -
      show "2 ^ 52 \<le> n * 2 ^ (52 - k)"
        using mult_le_mono1 [of "2 ^ k" n "2 ^ (52 - k)"] lb \<open>2 ^ k * 2 ^ (52 - k) = (2::nat) ^ 52\<close> by simp
      have "n * 2 ^ (52 - k) < 2 ^ Suc k * 2 ^ (52 - k)" using lb by simp
      also have "\<dots> = 2 ^ 53" using \<open>2 ^ k * 2 ^ (52 - k) = (2::nat) ^ 52\<close> by simp
      finally show "n * 2 ^ (52 - k) < 2 ^ 53" .
    qed
    define m where "m = n * 2 ^ (52 - k) - 2 ^ 52"
    have m: "m < 2 ^ 52" "2 ^ 52 + m = n * 2 ^ (52 - k)" using scaled by (auto simp: m_def)
    have b: "f64_of_int i = of_nat ((if i < 0 then 2 ^ 63 else 0) + (k + 1023) * 2 ^ 52 + m)"
      using False by (simp add: f64_of_int_def Let_def n_def [symmetric] k_def [symmetric] m_def)
    have "k + 1023 < 2 ^ 11" using k by simp
    note fields = f64_fields [OF this m(1) b]
    have "(2::rat) ^ (52 - k) * 2 ^ (k + 1023) = 2 ^ 1075" using k by (simp only: power_add [symmetric]) simp
    then have eq: "of_nat (n * 2 ^ (52 - k)) * 2 ^ (k + 1023) / 2 ^ 1075 = (of_nat n :: rat)"
      by (simp only: of_nat_mult of_nat_power of_nat_numeral mult.assoc) simp
    have nz: "k + 1023 \<noteq> 0" by simp
    have "(if i < 0 then - 1 else 1) * of_nat n = (of_int i :: rat)" by (simp add: n_def)
    then have "f64_rat (f64_of_int i) = of_int i"
      unfolding f64_rat_def fields m(2) if_not_P [OF nz] eq .
    then show ?thesis using k unfolding is_finite_def fields by simp
  qed
  then show "is_finite (f64_of_int i)" "f64_rat (f64_of_int i) = of_int i" by simp_all
qed

end
