(* ===== verification/Input_Fingerprint.thy ===== *)
theory Input_Fingerprint
  imports Input_Identity
begin

text \<open>
  The fingerprint of an argument list: what \<open>InputFingerprintBuilder\<close> (same file as
  \<open>Input_Identity\<close>) has absorbed after any sequence of arguments, and that this preimage
  determines the names and the identities of the arguments, up to a collision between the very
  inputs of the hash function that the two fingerprints are made of.
\<close>

text \<open>What the root hash absorbs for the arguments encoded so far, each its name and its bytes.\<close>

definition argument_frame :: "(u8 list \<Rightarrow> u8 list) \<Rightarrow> nat \<times> string \<times> u8 list \<Rightarrow> u8 list" where
  "argument_frame digest = (\<lambda>(index, argument, bs).
     0xA0 # to_le_bytes 8 (of_nat index :: u64) @ to_le_bytes 8 (of_nat (length argument) :: u64) @
     map of_char argument @ frame digest bs)"

definition preimage :: "(u8 list \<Rightarrow> u8 list) \<Rightarrow> nat \<Rightarrow> (string \<times> u8 list) list \<Rightarrow> u8 list" where
  "preimage digest expected args = INPUT_FINGERPRINT_DOMAIN @ to_le_bytes 8 (of_nat expected :: u64) @
     concat (map (argument_frame digest) (enumerate 0 args))"

definition describes ::
    "'h Blake3 \<Rightarrow> ('h \<Rightarrow> u8 list \<Rightarrow> bool) \<Rightarrow> (u8 list \<Rightarrow> u8 list) \<Rightarrow> 'h InputFingerprintBuilder \<Rightarrow> nat \<Rightarrow>
     (string \<times> u8 list) list \<Rightarrow> bool" where
  "describes B absorbed digest b expected args \<longleftrightarrow>
     incremental B absorbed digest \<and> spare_ok (scratch b) \<and> expected_arguments b = expected \<and>
     next_argument b = length args \<and> absorbed (root b) (preimage digest expected args)"

lemma preimage_snoc:
  "preimage digest n (args @ [(argument, bs)]) =
     preimage digest n args @ argument_frame digest (length args, argument, bs)"
  by (simp add: preimage_def enumerate_append_eq)

lemma builder_new_describes:
  assumes "incremental B absorbed digest"
  shows "describes B absorbed digest (builder_new B n) n []"
  using incrementalD(3) [OF assms incrementalD(3) [OF assms incrementalD(1) [OF assms]],
      of INPUT_FINGERPRINT_DOMAIN "to_le_bytes 8 (of_nat n :: u64)"] assms
  by (simp add: describes_def builder_new_def spare_ok_def preimage_def)

lemma argument_header_absorbed:
  assumes "incremental B absorbed digest" "absorbed h p"
  shows "absorbed (argument_header B h i argument)
    (p @ 0xA0 # to_le_bytes 8 (of_nat i :: u64) @ to_le_bytes 8 (of_nat (length argument) :: u64) @ map of_char argument)"
  using incrementalD(3) [OF assms(1) incrementalD(3) [OF assms(1) incrementalD(3) [OF assms(1)
      incrementalD(3) [OF assms]]], of "[0xA0]" "to_le_bytes 8 (of_nat i :: u64)"
      "to_le_bytes 8 (of_nat (length argument) :: u64)" "map of_char argument"]
  by (simp add: argument_header_def Let_def)

lemma encoder_new_encodes:
  assumes "incremental B absorbed digest" "spare_ok s"
  shows "encodes B absorbed digest argument ((encoder_new argument)\<lparr>spare := s\<rparr>) (Inr [])"
  using assms by (simp add: encodes_def encoder_new_def)

text \<open>
  One argument: its encoding ends with a value and an encoding of bytes or a failure. The
  argument counts exactly if neither is a failure.
\<close>

definition outcome :: "'r XllResult \<Rightarrow> encoding \<Rightarrow> ('r \<times> u8 list) XllResult" where
  "outcome v r = bind_result v (\<lambda>x. bind_result r (\<lambda>bs. Inr (x, bs)))"

lemma with_argument_describes:
  assumes b: "describes B absorbed digest b n args"
    and encode: "\<And>e. encodes B absorbed digest argument e (Inr []) \<Longrightarrow>
      yields (encode e) (\<lambda>(e', v). \<exists>r. encodes B absorbed digest argument e' r \<and> outcome v r = out)"
  shows "yields (with_argument B (length args) argument encode b) (\<lambda>(b', v). case out of
      Inl err \<Rightarrow> v = Inl err \<and> next_argument b' = length args \<and> expected_arguments b' = n
    | Inr (x, bs) \<Rightarrow> v = Inr x \<and> describes B absorbed digest b' n (args @ [(argument, bs)]))"
proof -
  let ?h = "argument_header B (root b) (length args) argument"
  have inc: "incremental B absorbed digest" and spare: "spare_ok (scratch b)"
    and next_i: "next_argument b = length args" "expected_arguments b = n"
    and absorbed_root: "absorbed (root b) (preimage digest n args)" using b by (simp_all add: describes_def)
  have hd: "absorbed ?h (preimage digest n args @ 0xA0 # to_le_bytes 8 (of_nat (length args) :: u64) @
      to_le_bytes 8 (of_nat (length argument) :: u64) @ map of_char argument)"
    using argument_header_absorbed [OF inc absorbed_root] by simp
  from encode [OF encoder_new_encodes [OF inc spare, of argument]] obtain e' v r where
    run: "encode ((encoder_new argument)\<lparr>spare := scratch b\<rparr>) = Returns (e', v)"
    and r: "encodes B absorbed digest argument e' r" "outcome v r = out"
    by (auto simp: yields_iff)
  show ?thesis
    using finish_into_encodes [OF r(1) hd] run r(2) next_i inc
    by (cases v; cases r)
      (auto simp: with_argument_def outcome_def describes_def preimage_snoc argument_frame_def Let_def
         split: prod.splits)
qed

section \<open>Injectivity\<close>

lemma u64_of_nat_inj: "of_nat a = (of_nat b :: u64) \<Longrightarrow> a < 2 ^ 64 \<Longrightarrow> b < 2 ^ 64 \<Longrightarrow> a = b"
proof -
  have exact: "n < 2 ^ 64 \<Longrightarrow> unat (of_nat n :: u64) = n" for n by (simp only: unat_of_nat) simp
  show "of_nat a = (of_nat b :: u64) \<Longrightarrow> a < 2 ^ 64 \<Longrightarrow> b < 2 ^ 64 \<Longrightarrow> a = b"
    using exact [of a] exact [of b] by metis
qed

lemma le64_of_nat_inj:
  assumes "to_le_bytes 8 (of_nat a :: u64) = to_le_bytes 8 (of_nat b :: u64)" "a < 2 ^ 64" "b < 2 ^ 64"
  shows "a = b"
  using to_le_bytes_inj [OF assms(1)] assms(2,3) by (auto dest: u64_of_nat_inj)

lemma byte_of_char_inj: "map of_char a = (map of_char b :: u8 list) \<Longrightarrow> a = b"
proof -
  have "c = d" if "of_char c = (of_char d :: u8)" for c d :: char
  proof -
    have "unat (of_char c :: u8) = of_char c" for c :: char
    proof -
      have "of_char c < (256 :: nat)" by simp
      then have "unat (of_nat (of_char c) :: u8) = of_char c" by (simp only: unat_of_nat) simp
      moreover have "of_nat (of_char c) = (of_char c :: u8)" by (rule of_nat_of_char)
      ultimately show ?thesis by metis
    qed
    then have "(of_char c :: nat) = of_char d" using that by metis
    then show "c = d" by (simp add: of_char_eq_iff)
  qed
  then have "inj (of_char :: char \<Rightarrow> u8)" by (rule injI)
  then show "map of_char a = (map of_char b :: u8 list) \<Longrightarrow> a = b" by (simp add: inj_map_eq_map)
qed

text \<open>Equal, or both hashed because they are long, with one digest.\<close>

definition same_or_collision :: "(u8 list \<Rightarrow> u8 list) \<Rightarrow> u8 list \<Rightarrow> u8 list \<Rightarrow> bool" where
  "same_or_collision digest a b \<longleftrightarrow> a = b \<or>
     INLINE_ARGUMENT_BYTES < length a \<and> INLINE_ARGUMENT_BYTES < length b \<and> digest a = digest b"

lemma frame_inj:
  assumes "frame digest a @ x = frame digest b @ y" "\<And>bs. length (digest bs) = 32"
  shows "same_or_collision digest a b \<and> x = y"
proof (cases "length a \<le> INLINE_ARGUMENT_BYTES \<and> length b \<le> INLINE_ARGUMENT_BYTES")
  case True
  then have eq: "to_le_bytes 8 (of_nat (length a) :: u64) @ a @ x = to_le_bytes 8 (of_nat (length b) :: u64) @ b @ y"
    using assms(1) by (simp add: frame_def)
  then have "to_le_bytes 8 (of_nat (length a) :: u64) = to_le_bytes 8 (of_nat (length b) :: u64)" "a @ x = b @ y"
    by simp_all
  moreover from this(1) True have "length a = length b"
    by (intro le64_of_nat_inj) (auto simp: INLINE_ARGUMENT_BYTES_def)
  ultimately show ?thesis by (simp add: same_or_collision_def)
next
  case False
  then show ?thesis using assms by (auto simp: frame_def same_or_collision_def split: if_splits)
qed

lemma argument_frames_inj:
  assumes "concat (map (argument_frame digest) (enumerate i as)) = concat (map (argument_frame digest) (enumerate i bs))"
    and "length as = length bs" "\<And>bs. length (digest bs) = 32"
    and "\<And>a. a \<in> set as \<union> set bs \<Longrightarrow> length (fst a) < 2 ^ 64"
  shows "list_all2 (\<lambda>(n, a) (m, b). n = m \<and> same_or_collision digest a b) as bs"
  using assms(2,1,4)
proof (induction as bs arbitrary: i rule: list_induct2)
  case (Cons a as b bs)
  obtain n x m y where ab: "a = (n, x)" "b = (m, y)" by (cases a, cases b) auto
  let ?rest = "\<lambda>l. concat (map (argument_frame digest) (enumerate (Suc i) l))"
  have eq: "to_le_bytes 8 (of_nat (length n) :: u64) @ map of_char n @ frame digest x @ ?rest as =
      to_le_bytes 8 (of_nat (length m) :: u64) @ map of_char m @ frame digest y @ ?rest bs"
    using Cons.prems(1) by (simp add: ab argument_frame_def)
  then have "to_le_bytes 8 (of_nat (length n) :: u64) = to_le_bytes 8 (of_nat (length m) :: u64)" by simp
  then have len: "length n = length m"
    by (rule le64_of_nat_inj) (use Cons.prems(2) [of a] Cons.prems(2) [of b] in \<open>auto simp: ab\<close>)
  have parts: "map of_char n = (map of_char m :: u8 list)" "frame digest x @ ?rest as = frame digest y @ ?rest bs"
    using eq by (simp_all add: len)
  then have "n = m" "same_or_collision digest x y" "?rest as = ?rest bs"
    using byte_of_char_inj frame_inj [OF parts(2) assms(3)] by auto
  moreover have "list_all2 (\<lambda>(n, a) (m, b). n = m \<and> same_or_collision digest a b) as bs"
    by (rule Cons.IH) (use \<open>?rest as = ?rest bs\<close> Cons.prems(2) in auto)
  ultimately show ?case by (simp add: ab)
qed simp

lemma preimage_inj:
  assumes "preimage digest k as = preimage digest l bs" "k < 2 ^ 64" "l < 2 ^ 64"
    and "length as = k" "length bs = l" "\<And>bs. length (digest bs) = 32"
    and "\<And>a. a \<in> set as \<union> set bs \<Longrightarrow> length (fst a) < 2 ^ 64"
  shows "list_all2 (\<lambda>(n, a) (m, b). n = m \<and> same_or_collision digest a b) as bs"
proof -
  have "to_le_bytes 8 (of_nat k :: u64) = to_le_bytes 8 (of_nat l :: u64)"
    "concat (map (argument_frame digest) (enumerate 0 as)) = concat (map (argument_frame digest) (enumerate 0 bs))"
    using assms(1) by (simp_all add: preimage_def)
  then show ?thesis using le64_of_nat_inj [of k l] assms(2-) by (intro argument_frames_inj) auto
qed

text \<open>
  The inputs of the hash function that the fingerprints of two argument lists let meet: the two
  root preimages, and the identities of each argument that are hashed on their own.
\<close>

definition compared ::
    "(u8 list \<Rightarrow> u8 list) \<Rightarrow> (string \<times> u8 list) list \<Rightarrow> (string \<times> u8 list) list \<Rightarrow> (u8 list \<times> u8 list) list" where
  "compared digest xs ys = (preimage digest (length xs) xs, preimage digest (length ys) ys) #
     filter (\<lambda>(p, q). INLINE_ARGUMENT_BYTES < length p \<and> INLINE_ARGUMENT_BYTES < length q) (zip (map snd xs) (map snd ys))"

lemma preimage_separates:
  assumes "incremental B absorbed digest"
    and "digest (preimage digest (length xs) xs) = digest (preimage digest (length ys) ys)"
    and "length xs < 2 ^ 64" "length ys < 2 ^ 64" "\<And>a. a \<in> set xs \<union> set ys \<Longrightarrow> length (fst a) < 2 ^ 64"
    and apart: "\<And>p q. (p, q) \<in> set (compared digest xs ys) \<Longrightarrow> digest p = digest q \<Longrightarrow> p = q"
  shows "xs = ys"
proof -
  have "(preimage digest (length xs) xs, preimage digest (length ys) ys) \<in> set (compared digest xs ys)"
    by (simp add: compared_def)
  then have "preimage digest (length xs) xs = preimage digest (length ys) ys" using assms(2) by (rule apart)
  then have all: "list_all2 (\<lambda>(n, a) (m, b). n = m \<and> same_or_collision digest a b) xs ys"
    by (rule preimage_inj [OF _ assms(3,4) refl refl]) (use assms(5) incrementalD(5) [OF assms(1)] in auto)
  show "xs = ys"
  proof (rule nth_equalityI)
    show len: "length xs = length ys" using all by (rule list_all2_lengthD)
    fix i assume i: "i < length xs"
    have same: "fst (xs ! i) = fst (ys ! i)" "same_or_collision digest (snd (xs ! i)) (snd (ys ! i))"
      using list_all2_nthD [OF all i] by (simp_all add: case_prod_unfold)
    have "(snd (xs ! i), snd (ys ! i)) \<in> set (zip (map snd xs) (map snd ys))"
      using i len nth_mem [of i "zip (map snd xs) (map snd ys)"] by simp
    then have "(snd (xs ! i), snd (ys ! i)) \<in> set (compared digest xs ys)"
      if "INLINE_ARGUMENT_BYTES < length (snd (xs ! i))" "INLINE_ARGUMENT_BYTES < length (snd (ys ! i))"
      using that by (simp add: compared_def)
    then have "snd (xs ! i) = snd (ys ! i)" using same(2) apart unfolding same_or_collision_def by blast
    then show "xs ! i = ys ! i" using same(1) by (simp add: prod_eq_iff)
  qed
qed

end
