(* ===== verification/Excel_Identity.thy ===== *)
theory Excel_Identity
  imports Excel_Input Input_Fingerprint
begin

text \<open>
  What the identities of arguments promise: the interface of input types (the traits
  \<open>FromExcel\<close>, \<open>ExcelInputIdentity\<close> and \<open>PrepareExcel\<close> of \<open>crates/xlfn/src/value/input.rs\<close>), its
  interpretations for the built-in types, and the properties of fingerprints over typed
  argument lists.
\<close>

section \<open>Recording conversions\<close>

text \<open>
  A recording conversion records \<open>m\<close> with \<open>bytes\<close>: from an encoder that holds some bytes, it
  returns the result of \<open>m\<close>, and if that is a value, the encoder then holds the bytes of this
  value as well.
\<close>

definition records ::
    "'h Blake3 \<Rightarrow> ('h \<Rightarrow> u8 list \<Rightarrow> bool) \<Rightarrow> (u8 list \<Rightarrow> u8 list) \<Rightarrow> string \<Rightarrow> ('h, 'a) recording \<Rightarrow>
     'a conversion \<Rightarrow> ('a \<Rightarrow> u8 list) \<Rightarrow> bool" where
  "records B absorbed digest argument m result bytes \<longleftrightarrow>
     (\<forall>e bs. encodes B absorbed digest argument e (Inr bs) \<longrightarrow>
       yields (m e) (\<lambda>(e', v). result = Returns v \<and> (case v of
           Inr x \<Rightarrow> encodes B absorbed digest argument e' (Inr (bs @ bytes x))
         | Inl _ \<Rightarrow> \<exists>r. encodes B absorbed digest argument e' r)))"

definition appends ::
    "'h Blake3 \<Rightarrow> ('h \<Rightarrow> u8 list \<Rightarrow> bool) \<Rightarrow> (u8 list \<Rightarrow> u8 list) \<Rightarrow>
     ('h InputIdentityEncoder \<Rightarrow> 'h InputIdentityEncoder run) \<Rightarrow> u8 list \<Rightarrow> bool" where
  "appends B absorbed digest f xs \<longleftrightarrow>
     (\<forall>argument e r. encodes B absorbed digest argument e r \<longrightarrow>
       yields (f e) (\<lambda>e'. encodes B absorbed digest argument e' (append_bytes r xs)))"

lemma recordsD:
  assumes "records B absorbed digest argument m result bytes" "encodes B absorbed digest argument e (Inr bs)"
  shows "yields (m e) (\<lambda>(e', v). result = Returns v \<and> (case v of
      Inr x \<Rightarrow> encodes B absorbed digest argument e' (Inr (bs @ bytes x))
    | Inl _ \<Rightarrow> \<exists>r. encodes B absorbed digest argument e' r))"
  using assms unfolding records_def by blast

lemma appends_write: "appends B absorbed digest (\<lambda>e. write_bytes B e xs) xs"
  by (simp add: appends_def identity_encoder.put_appends)

lemma appends_bind:
  "appends B absorbed digest f xs \<Longrightarrow> appends B absorbed digest g ys \<Longrightarrow>
   appends B absorbed digest (\<lambda>e. bind_run (f e) g) (xs @ ys)"
  unfolding appends_def
proof (intro allI impI)
  fix argument e r
  assume f: "\<forall>argument e r. encodes B absorbed digest argument e r \<longrightarrow>
      yields (f e) (\<lambda>e'. encodes B absorbed digest argument e' (append_bytes r xs))"
    and g: "\<forall>argument e r. encodes B absorbed digest argument e r \<longrightarrow>
      yields (g e) (\<lambda>e'. encodes B absorbed digest argument e' (append_bytes r ys))"
    and e: "encodes B absorbed digest argument e r"
  show "yields (bind_run (f e) g) (\<lambda>e'. encodes B absorbed digest argument e' (append_bytes r (xs @ ys)))"
    by (rule yields_bind [OF f [rule_format, OF e]], drule g [rule_format]) simp
qed

lemma appends_each:
  assumes "\<And>x. x \<in> set xs \<Longrightarrow> appends B absorbed digest (f x) (g x)"
  shows "appends B absorbed digest (encode_each f xs) (concat (map g xs))"
  using assms
proof (induction xs)
  case Nil
  then show ?case by (simp add: appends_def)
next
  case (Cons x xs)
  have "appends B absorbed digest (\<lambda>e. bind_run (f x e) (encode_each f xs)) (g x @ concat (map g xs))"
    by (rule appends_bind) (use Cons in auto)
  then show ?case by (simp add: appends_def)
qed

lemma records_lift:
  "m \<noteq> Aborts \<Longrightarrow> (\<And>x. m = ok_conv x \<Longrightarrow> bytes x = []) \<Longrightarrow> records B absorbed digest argument (lift_conv m) m bytes"
  by (cases m) (auto simp: records_def lift_conv_def split: sum.splits)

lemma records_encode:
  "appends B absorbed digest f xs \<Longrightarrow> records B absorbed digest argument (run_encode f) (ok_conv ()) (\<lambda>_. xs)"
  unfolding records_def appends_def run_encode_def by (fastforce intro!: yields_bind)

lemma records_bind:
  assumes m: "records B absorbed digest argument m r bytes"
    and f: "\<And>x. r = ok_conv x \<Longrightarrow> records B absorbed digest argument (f x) (g x) (bytes' x)"
    and whole: "\<And>x y. r = ok_conv x \<Longrightarrow> g x = ok_conv y \<Longrightarrow> bytes x @ bytes' x y = whole y"
  shows "records B absorbed digest argument (bind_rec m f) (bind_conv r g) whole"
  unfolding records_def
proof (intro allI impI)
  fix e bs assume e: "encodes B absorbed digest argument e (Inr bs)"
  then obtain e' v where ev: "m e = Returns (e', v)" "r = Returns v"
      "case v of Inr x \<Rightarrow> encodes B absorbed digest argument e' (Inr (bs @ bytes x))
       | Inl _ \<Rightarrow> \<exists>r. encodes B absorbed digest argument e' r"
    using recordsD [OF m e] by (auto simp: yields_iff)
  show "yields (bind_rec m f e) (\<lambda>(e', v). bind_conv r g = Returns v \<and> (case v of
           Inr x \<Rightarrow> encodes B absorbed digest argument e' (Inr (bs @ whole x))
         | Inl _ \<Rightarrow> \<exists>r. encodes B absorbed digest argument e' r))"
  proof (cases v)
    case (Inl err)
    then show ?thesis using ev by (auto simp: bind_rec_def)
  next
    case (Inr x)
    then have "encodes B absorbed digest argument e' (Inr (bs @ bytes x))" "r = ok_conv x" using ev by auto
    from recordsD [OF f [OF this(2)] this(1)] have "yields (f x e') (\<lambda>(e'', v). g x = Returns v \<and> (case v of
           Inr y \<Rightarrow> encodes B absorbed digest argument e'' (Inr ((bs @ bytes x) @ bytes' x y))
         | Inl _ \<Rightarrow> \<exists>r. encodes B absorbed digest argument e'' r))" .
    then show ?thesis using ev(1) Inr \<open>r = ok_conv x\<close> whole [OF \<open>r = ok_conv x\<close>]
      by (auto simp: bind_rec_def elim!: yields_mono split: sum.splits)
  qed
qed

section \<open>Interface: input types\<close>

text \<open>
  An input type converts a value, encodes what it converted and has an identity: the bytes
  of the encoding. Conversion returns for every validated value, encoding appends the
  identity, and the identity of a value determines the value and where it ends.
\<close>

locale excel_input =
  fixes from_excel :: "xloper \<Rightarrow> string \<Rightarrow> 'a conversion"
    and encode :: "'h Blake3 \<Rightarrow> 'a \<Rightarrow> 'h InputIdentityEncoder \<Rightarrow> 'h InputIdentityEncoder run"
    and identity :: "'a \<Rightarrow> u8 list"
    and good :: "'a \<Rightarrow> bool"
    and typed :: "xloper \<Rightarrow> bool"
  assumes from_returns: "validated v \<Longrightarrow> typed v \<Longrightarrow> from_excel v argument \<noteq> Aborts"
    and from_good: "typed v \<Longrightarrow> from_excel v argument = ok_conv x \<Longrightarrow> good x"
    and encode_appends: "appends B absorbed digest (encode B x) (identity x)"
    and identity_decides: "good x \<Longrightarrow> good y \<Longrightarrow> identity x @ s = identity y @ u \<Longrightarrow> x = y \<and> s = u"
begin

lemma default_records:
  assumes "validated v" "typed v"
  shows "records B absorbed digest argument (default_with_identity from_excel (encode B) v argument)
    (from_excel v argument) identity"
proof -
  have "records B absorbed digest argument (default_with_identity from_excel (encode B) v argument)
      (bind_conv (from_excel v argument) (\<lambda>x. bind_conv (ok_conv ()) (\<lambda>_. ok_conv x))) identity"
    unfolding default_with_identity_def
    by (rule records_bind [where bytes = "\<lambda>_. []" and bytes' = "\<lambda>x _. identity x"],
        rule records_lift [OF from_returns [OF assms]], simp,
        rule records_bind [OF records_encode [OF encode_appends], where bytes' = "\<lambda>_ _. []"])
      (auto intro!: records_lift)
  moreover have "bind_conv (from_excel v argument) (\<lambda>x. bind_conv (ok_conv ()) (\<lambda>_. ok_conv x)) = from_excel v argument"
    by (cases "from_excel v argument") (auto simp: bind_conv_def split: sum.splits)
  ultimately show ?thesis by simp
qed

lemma identities_decide:
  "list_all good xs \<Longrightarrow> list_all good ys \<Longrightarrow> length xs = length ys \<Longrightarrow>
   concat (map identity xs) @ s = concat (map identity ys) @ u \<Longrightarrow> xs = ys \<and> s = u"
proof (induction xs arbitrary: ys)
  case (Cons x xs)
  then obtain y ys' where ys: "ys = y # ys'" by (cases ys) auto
  have "identity x @ (concat (map identity xs) @ s) = identity y @ (concat (map identity ys') @ u)"
    using Cons.prems(4) by (simp add: ys)
  then have "x = y" "concat (map identity xs) @ s = concat (map identity ys') @ u"
    using identity_decides Cons.prems(1,2) by (auto simp: ys)
  then show ?case using Cons.IH [of ys'] Cons.prems by (simp add: ys)
qed simp

end

section \<open>The built-in types\<close>

text \<open>The code units behind a string pointer, and those of the cells of an array, are 16 bits wide.\<close>

definition cell_typed :: "xloper \<Rightarrow> bool" where
  "cell_typed v = (case string_pointer v of CountedPtr _ units \<Rightarrow> units_ok units | _ \<Rightarrow> True)"

definition value_typed :: "xloper \<Rightarrow> bool" where
  "value_typed v \<longleftrightarrow> cell_typed v \<and> (case array_values v of At cs \<Rightarrow> list_all cell_typed cs | _ \<Rightarrow> True)"

definition text_ok :: "nat list \<Rightarrow> bool" where
  "text_ok value \<longleftrightarrow> list_all (\<lambda>b. b < 256) value \<and> length value < 2 ^ 64"

definition error_identity :: "ExcelError \<Rightarrow> u8 list" where
  "error_identity x = to_le_bytes 8 (word_of_int (code x) :: u64)"

definition date_identity :: "serial_date_bits \<Rightarrow> u8 list" where
  "date_identity x = to_le_bytes 8 (fst x) @ [date_system_tag (snd x)]"

fun cell_identity :: "ExcelCellValue \<Rightarrow> u8 list" where
  "cell_identity (CellNumber x) = 1 # to_le_bytes 8 x"
| "cell_identity (CellBoolean x) = [2, if x then 1 else 0]"
| "cell_identity (CellString x) = 3 # string_bytes x"
| "cell_identity (CellError x) = 4 # error_identity x"
| "cell_identity CellBlank = [5]"

fun cell_ok :: "ExcelCellValue \<Rightarrow> bool" where
  "cell_ok (CellString x) = text_ok x"
| "cell_ok _ = True"

fun excel_value_identity :: "ExcelValue \<Rightarrow> u8 list" where
  "excel_value_identity (ValueScalar x) = 1 # cell_identity x"
| "excel_value_identity ValueMissing = [2]"
| "excel_value_identity (ValueArray m) =
     3 # to_le_bytes 8 (of_nat (m_rows m) :: u64) @ to_le_bytes 8 (of_nat (m_columns m) :: u64) @
     concat (map cell_identity (m_data m))"

fun excel_value_ok :: "target \<Rightarrow> ExcelValue \<Rightarrow> bool" where
  "excel_value_ok t (ValueScalar x) = cell_ok x"
| "excel_value_ok t ValueMissing = True"
| "excel_value_ok t (ValueArray m) \<longleftrightarrow> matrix_ok t m \<and> list_all cell_ok (m_data m)"

lemma le64_eq [simp]: "to_le_bytes 8 x = to_le_bytes 8 y \<longleftrightarrow> x = (y :: u64)"
  using to_le_bytes_inj [of 8 x y] by auto

lemma le64_decides: "to_le_bytes 8 x @ s = to_le_bytes 8 y @ u \<Longrightarrow> x = (y :: u64) \<and> s = u"
  by simp

lemma le64_nat_decides:
  assumes "to_le_bytes 8 (of_nat a :: u64) @ s = to_le_bytes 8 (of_nat b :: u64) @ u" "a < 2 ^ 64" "b < 2 ^ 64"
  shows "a = b \<and> s = u"
  using assms le64_of_nat_inj [of a b] by simp

lemma string_bytes_decide:
  assumes "text_ok x" "text_ok y" "string_bytes x @ s = string_bytes y @ u"
  shows "x = y \<and> s = u"
proof -
  have len: "length x = length y" "map of_nat x @ s = map of_nat y @ (u :: u8 list)"
    using le64_nat_decides [of "length x" _ "length y"] assms by (auto simp: string_bytes_def text_ok_def)
  then have eq: "map of_nat x = (map of_nat y :: u8 list)" "s = u" by simp_all
  have "a = b" if "of_nat a = (of_nat b :: u8)" "a < 256" "b < 256" for a b
  proof -
    have "unat (of_nat a :: u8) = a" "unat (of_nat b :: u8) = b"
      using that(2,3) by (simp_all only: unat_of_nat) simp_all
    then show ?thesis using that(1) by metis
  qed
  moreover have "\<forall>a \<in> set x \<union> set y. a < 256" using assms(1,2) by (auto simp: text_ok_def list_all_iff)
  ultimately have "x = y" using eq(1) by (intro map_inj_on [of of_nat]) (auto intro!: inj_onI)
  then show ?thesis using eq(2) by simp
qed

lemma error_identity_decide: "error_identity x @ s = error_identity y @ u \<Longrightarrow> x = y \<and> s = u"
proof -
  assume eq: "error_identity x @ s = error_identity y @ u"
  then have w: "(word_of_int (code x) :: u64) = word_of_int (code y)" "s = u"
    using le64_decides [OF eq [unfolded error_identity_def]] by blast+
  have "uint (word_of_int (code z) :: u64) = code z" for z by (cases z) (simp_all add: xlerr_defs uint_word_of_int)
  then have "code x = code y" using w(1) by metis
  then show "x = y \<and> s = u" using excel_error_code.enc_inj [of x y] w(2) by simp
qed

lemma cell_identity_decide:
  "cell_ok x \<Longrightarrow> cell_ok y \<Longrightarrow> cell_identity x @ s = cell_identity y @ u \<Longrightarrow> x = y \<and> s = u"
proof -
  have texts: "text_ok a \<Longrightarrow> text_ok b \<Longrightarrow> string_bytes a @ s = string_bytes b @ u \<longleftrightarrow> a = b \<and> s = u" for a b
    using string_bytes_decide by blast
  have errors: "error_identity a @ s = error_identity b @ u \<longleftrightarrow> a = b \<and> s = u" for a b
    using error_identity_decide by blast
  show "cell_ok x \<Longrightarrow> cell_ok y \<Longrightarrow> cell_identity x @ s = cell_identity y @ u \<Longrightarrow> x = y \<and> s = u"
    by (cases x; cases y) (simp_all add: texts errors split: if_splits)
qed

subsection \<open>Conversions of scalars\<close>

lemma utf16_units_typed: "cell_typed v \<Longrightarrow> utf16_units v argument = ok_conv us \<Longrightarrow> units_ok us"
  by (cases "string_pointer v")
    (auto simp: utf16_units_def cell_typed_def list_all_iff split: if_splits dest!: in_set_takeD)

lemma utf16_units_returns: "validated v \<Longrightarrow> utf16_units v argument \<noteq> Aborts"
  using validated_type [of v] by (auto simp: utf16_units_def wrong_type_def)

lemma encoded_byte: "c < 0x110000 \<Longrightarrow> b \<in> set (encode_utf8_char c) \<Longrightarrow> b < 256"
  by (auto simp: encode_utf8_char_def split: if_splits)

lemma utf16_units_short: "utf16_units v argument = ok_conv us \<Longrightarrow> length us \<le> EXCEL_STRING_LIMIT"
  by (cases "string_pointer v") (auto simp: utf16_units_def split: if_splits)

lemma decode_owned_text_ok:
  assumes "decode_owned us argument = ok_conv x" "units_ok us" "length us \<le> EXCEL_STRING_LIMIT"
  shows "text_ok x"
proof -
  obtain s where s: "from_utf16 us = Some s" "x = as_bytes s"
    using assms(1,2) by (auto simp: decode_owned_eq decoded_def split: option.splits)
  have str: "is_str s" using utf16.dec_sound [of us s] assms(2) s(1) by simp
  have "list_all (\<lambda>b. b < 256) x"
    using str by (auto simp: s(2) as_bytes_def list_all_iff is_str_def is_scalar_def dest!: encoded_byte [rotated])
  moreover have "length x \<le> length us * 3"
    using unit_plan_exact [OF s(1) assms(2)] plan_maximum [of us] by (simp add: s(2))
  ultimately show ?thesis using assms(3) by (simp add: text_ok_def EXCEL_STRING_LIMIT_def)
qed

lemma string_from_good:
  assumes "cell_typed v" "string_from_excel v argument = ok_conv x"
  shows "text_ok x"
proof -
  obtain us where us: "utf16_units v argument = ok_conv us" "decode_owned us argument = ok_conv x"
    using assms(2) by (auto simp: string_from_excel_def)
  show ?thesis
    by (rule decode_owned_text_ok [OF us(2) utf16_units_typed [OF assms(1) us(1)] utf16_units_short [OF us(1)]])
qed

lemma scalar_returns:
  assumes "validated v"
  shows "f64_from_excel v argument \<noteq> Aborts" "bool_from_excel v argument \<noteq> Aborts"
    "i32_from_excel v argument \<noteq> Aborts" "i64_from_excel v argument \<noteq> Aborts"
    "error_from_excel v argument \<noteq> Aborts" "date_from_excel v argument \<noteq> Aborts"
proof -
  obtain ty where ty: "xl_value_type v = Returns ty" using validated_type [OF assms] by blast
  show f64: "f64_from_excel v argument \<noteq> Aborts"
    using ty by (auto simp: f64_from_excel_def wrong_type_def)
  show "bool_from_excel v argument \<noteq> Aborts" "i32_from_excel v argument \<noteq> Aborts"
    "i64_from_excel v argument \<noteq> Aborts" "error_from_excel v argument \<noteq> Aborts"
    using ty by (auto simp: bool_from_excel_def i32_from_excel_def i64_from_excel_def number_to_integer_def
        error_from_excel_def wrong_type_def split: option.splits)
  show "date_from_excel v argument \<noteq> Aborts" using f64 by (auto simp: date_from_excel_def split: sum.splits)
qed

lemma string_returns:
  assumes "validated v" "cell_typed v"
  shows "string_from_excel v argument \<noteq> Aborts"
  using utf16_units_returns [OF assms(1)] utf16_units_typed [OF assms(2)]
  by (auto simp: string_from_excel_def decode_owned_eq)

lemma map_conv_simps [simp]:
  "map_conv f m = Aborts \<longleftrightarrow> m = Aborts" "map_conv f m = ok_conv y \<longleftrightarrow> (\<exists>x. m = ok_conv x \<and> y = f x)"
  by (auto simp: map_conv_def)

lemma cell_returns:
  assumes "validated v" "cell_typed v"
  shows "cell_from_excel v argument \<noteq> Aborts"
proof -
  obtain ty where "xl_value_type v = Returns ty" using validated_type [OF assms(1)] by blast
  then show ?thesis
    using scalar_returns [OF assms(1)] string_returns [OF assms]
    by (auto simp: cell_from_excel_def wrong_type_def split: XlValueType.splits)
qed

lemma cell_from_good: "cell_typed v \<Longrightarrow> cell_from_excel v argument = ok_conv x \<Longrightarrow> cell_ok x"
proof -
  assume v: "cell_typed v" and x: "cell_from_excel v argument = ok_conv x"
  then obtain ty where ty: "xl_value_type v = Returns ty" by (auto simp: cell_from_excel_def)
  from ty x show "cell_ok x"
    using string_from_good [OF v] by (cases ty) (auto simp: cell_from_excel_def)
qed

lemma appends_tag: "appends B absorbed digest (encode_tag B x) [x]"
  and appends_u64: "appends B absorbed digest (encode_u64 B n) (to_le_bytes 8 n)"
  and appends_i64: "appends B absorbed digest (encode_i64 B i) (to_le_bytes 8 i)"
  and appends_f64: "appends B absorbed digest (encode_f64 B n) (to_le_bytes 8 n)"
  and appends_bool: "appends B absorbed digest (encode_bool B b) [if b then 1 else 0]"
  by (simp_all add: appends_def scalar_encoders identity_encoder.put_appends)

lemma appends_string: "appends B absorbed digest (encode_string B x) (string_bytes x)"
  by (simp add: appends_def encode_string_appends)

lemma appends_eta: "appends B absorbed digest (\<lambda>e. f e) xs = appends B absorbed digest f xs"
  by simp

lemma appends_tagged:
  "appends B absorbed digest f xs \<Longrightarrow> appends B absorbed digest (\<lambda>e. bind_run (encode_tag B x e) f) (x # xs)"
  using appends_bind [OF appends_tag, of B absorbed digest f xs x] by simp

lemma appends_cell: "appends B absorbed digest (cell_encode B x) (cell_identity x)"
proof (cases x)
  case (CellNumber n)
  then show ?thesis
    using appends_tagged [OF appends_f64, of B absorbed digest 1 n] by (simp add: f64_encode_def [abs_def] appends_def)
next
  case (CellBoolean b)
  then show ?thesis
    using appends_tagged [OF appends_bool, of B absorbed digest 2 b] by (simp add: bool_encode_def [abs_def] appends_def)
next
  case (CellString s)
  then show ?thesis
    using appends_tagged [OF appends_string, of B absorbed digest 3 s] by (simp add: string_encode_def [abs_def] appends_def)
next
  case (CellError err)
  then show ?thesis
    using appends_tagged [OF appends_i64, of B absorbed digest 4 "word_of_int (code err)"]
    by (simp add: error_identity_def appends_def)
next
  case CellBlank
  then show ?thesis using appends_tag [of B absorbed digest 5] by (simp add: appends_def)
qed

lemma appends_dimensions:
  "appends B absorbed digest (dimensions_encode B r c)
     (to_le_bytes 8 (of_nat r :: u64) @ to_le_bytes 8 (of_nat c :: u64))"
  using appends_bind [OF appends_u64 appends_u64, of B absorbed digest "of_nat r" "of_nat c"]
  by (simp add: dimensions_encode_def [abs_def])

lemma appends_excel_value: "appends B absorbed digest (excel_value_encode B x) (excel_value_identity x)"
proof (cases x)
  case (ValueScalar c)
  then show ?thesis using appends_tagged [OF appends_cell, of B absorbed digest 1 c] by (simp add: appends_def)
next
  case ValueMissing
  then show ?thesis using appends_tag [of B absorbed digest 2] by (simp add: appends_def)
next
  case (ValueArray m)
  have "appends B absorbed digest (encode_each (cell_encode B) (m_data m)) (concat (map cell_identity (m_data m)))"
    by (rule appends_each) (rule appends_cell)
  from appends_tagged [OF appends_bind [OF appends_dimensions this], of 3 "m_rows m" "m_columns m"]
  show ?thesis using ValueArray by (simp add: appends_def)
qed

interpretation f64_input: excel_input f64_from_excel f64_encode "to_le_bytes 8" "\<lambda>_. True" cell_typed
  by unfold_locales (auto simp: scalar_returns f64_encode_def [abs_def] appends_f64)

interpretation bool_input: excel_input bool_from_excel bool_encode "\<lambda>b. [if b then 1 else 0]" "\<lambda>_. True" cell_typed
  by unfold_locales (auto simp: scalar_returns bool_encode_def [abs_def] appends_bool split: if_splits)

interpretation i64_input: excel_input i64_from_excel i64_encode "to_le_bytes 8" "\<lambda>_. True" cell_typed
  by unfold_locales (auto simp: scalar_returns i64_encode_def [abs_def] appends_i64)

interpretation i32_input: excel_input i32_from_excel i32_encode
  "\<lambda>x. to_le_bytes 8 (word_of_int (sint x) :: u64)" "\<lambda>_. True" cell_typed
proof unfold_locales
  fix x y :: "32 word" and s u :: "u8 list"
  have exact: "sint (word_of_int (sint z) :: u64) = sint z" for z :: "32 word"
  proof -
    have "- (2 ^ 31) \<le> sint z" "sint z < 2 ^ 31" using sint_ge [of z] sint_lt [of z] by simp_all
    then show ?thesis by (subst sint_sbintrunc', intro signed_take_bit_int_eq_self) simp_all
  qed
  assume "to_le_bytes 8 (word_of_int (sint x) :: u64) @ s = to_le_bytes 8 (word_of_int (sint y) :: u64) @ u"
  then have "word_of_int (sint x) = (word_of_int (sint y) :: u64)" "s = u" using le64_decides by blast+
  moreover from this(1) have "sint x = sint y" using exact by metis
  ultimately show "x = y \<and> s = u" by (simp add: signed_word_eqI)
qed (auto simp: scalar_returns i32_encode_def [abs_def] appends_i64)

interpretation string_input: excel_input string_from_excel string_encode string_bytes text_ok cell_typed
proof unfold_locales
  show "appends B absorbed digest (string_encode B x) (string_bytes x)" for B absorbed digest x
    by (simp add: string_encode_def [abs_def] appends_string)
qed (fact string_returns string_from_good string_bytes_decide)+

interpretation error_input: excel_input error_from_excel error_encode error_identity "\<lambda>_. True" cell_typed
proof unfold_locales
  show "appends B absorbed digest (error_encode B x) (error_identity x)" for B absorbed digest x
    by (simp add: error_encode_def [abs_def] error_identity_def appends_i64)
qed (simp_all add: scalar_returns error_identity_decide)

interpretation date_input: excel_input date_from_excel date_encode date_identity "\<lambda>_. True" cell_typed
proof unfold_locales
  fix x y :: serial_date_bits and s u
  have tags: "date_system_tag a = date_system_tag b \<longleftrightarrow> a = b" for a b by (cases a; cases b) simp_all
  show "date_identity x @ s = date_identity y @ u \<Longrightarrow> x = y \<and> s = u"
    by (auto simp: date_identity_def tags prod_eq_iff)
next
  show "appends B absorbed digest (date_encode B x) (date_identity x)" for B absorbed digest x
    using appends_bind [OF appends_f64 appends_tag, of B absorbed digest "fst x" "date_system_tag (snd x)"]
    by (simp add: date_encode_def [abs_def] date_identity_def)
qed (auto simp: scalar_returns)

interpretation cell_input: excel_input cell_from_excel cell_encode cell_identity cell_ok cell_typed
  by unfold_locales (auto simp: cell_returns cell_from_good appends_cell dest: cell_identity_decide)

section \<open>Arrays\<close>

lemma records_convert_cells:
  assumes "\<And>cell. cell \<in> set cs \<Longrightarrow> validated cell \<Longrightarrow>
    records B absorbed digest argument (decode cell) (convert cell) bytes"
  shows "records B absorbed digest argument (convert_cells_rec t b decode cs) (convert_cells t b convert cs)
    (\<lambda>xs. concat (map bytes xs))"
  using assms
proof (induction cs arbitrary: b)
  case Nil
  then show ?case by (auto intro!: records_lift)
next
  case (Cons cell cs)
  have rest: "records B absorbed digest argument (convert_cells_rec t b' decode cs) (convert_cells t b' convert cs)
      (\<lambda>xs. concat (map bytes xs))" for b' by (rule Cons.IH) (use Cons.prems in auto)
  show ?case
    unfolding convert_cells_rec.simps convert_cells.simps
  proof (rule records_bind [where bytes = "\<lambda>_. []"], rule records_lift, simp, simp)
    fix element assume "Returns (array_cell cell) = ok_conv element"
    then have cell: "validated cell" "element = cell" by (simp_all add: array_cell_Inr)
    let ?rest = "\<lambda>b. bind_conv (convert cell) (\<lambda>x. bind_conv (convert_cells t b convert cs) (\<lambda>xs. ok_conv (x # xs)))"
    have after: "records B absorbed digest argument
        (bind_rec (decode cell) (\<lambda>x. bind_rec (convert_cells_rec t b' decode cs) (\<lambda>xs. lift_conv (ok_conv (x # xs)))))
        (?rest b') (\<lambda>xs. concat (map bytes xs))" for b'
    proof (rule records_bind [OF Cons.prems [of cell]])
      show "records B absorbed digest argument (bind_rec (convert_cells_rec t b' decode cs) (\<lambda>xs. lift_conv (ok_conv (x # xs))))
          (bind_conv (convert_cells t b' convert cs) (\<lambda>xs. ok_conv (x # xs))) (\<lambda>xs. concat (map bytes (tl xs)))" for x
        by (rule records_bind [OF rest, where bytes' = "\<lambda>_ _. []"]) (auto intro!: records_lift)
    qed (use cell in auto)
    show "records B absorbed digest argument
        (bind_rec (lift_conv (budget_include t b element)) (\<lambda>b. bind_rec (decode element) (\<lambda>x.
           bind_rec (convert_cells_rec t b decode cs) (\<lambda>xs. lift_conv (ok_conv (x # xs))))))
        (bind_conv (budget_include t b element) (\<lambda>b. bind_conv (convert element) (\<lambda>x.
           bind_conv (convert_cells t b convert cs) (\<lambda>xs. ok_conv (x # xs))))) (\<lambda>xs. concat (map bytes xs))"
      unfolding cell(2)
      by (rule records_bind [where bytes = "\<lambda>_. []" and bytes' = "\<lambda>_ xs. concat (map bytes xs)"],
          rule records_lift [OF budget_include_returns [OF cell(1)]], simp, rule after, simp)
  qed simp
qed

lemma records_convert_grid:
  assumes "\<And>cell. cell \<in> set (grid_cells grid) \<Longrightarrow> validated cell \<Longrightarrow>
    records B absorbed digest argument (decode cell) (convert cell) bytes"
  shows "records B absorbed digest argument (convert_grid_elements t sz grid name decode)
    (convert_owned_grid_elements t sz grid name convert) (\<lambda>xs. concat (map bytes xs))"
  unfolding convert_grid_elements_def convert_owned_grid_elements_def
  by (rule records_bind [where bytes = "\<lambda>_. []" and bytes' = "\<lambda>_ xs. concat (map bytes xs)"])
    (auto intro!: records_lift records_convert_cells assms)

lemma grid_typed:
  assumes "value_typed v" "shaped_grid t S v argument = ok_conv grid"
  shows "list_all cell_typed (grid_cells grid)"
proof -
  have "grid_from_value t v argument = ok_conv grid"
    using assms(2) by (auto simp: shaped_grid_def case_prod_unfold Let_def split: option.splits if_splits)
  then consider "grid = GridScalar v" | r c p where "xl_array t v argument = ok_conv (r, c, p)" "grid = GridMulti r c (array_slice (r * c) p)"
    by (auto simp: grid_from_value_def split: if_splits)
  then show ?thesis
  proof cases
    case 2
    then have "p = array_values v" by (auto simp: xl_array_def Let_def split: if_splits option.splits)
    then show ?thesis using 2 assms(1)
      by (auto simp: value_typed_def array_slice_def list_all_iff dest!: in_set_takeD split: pointer.splits)
  qed (use assms(1) in \<open>simp add: value_typed_def\<close>)
qed

lemma bind_conv_assoc: "bind_conv (bind_conv m f) g = bind_conv m (\<lambda>x. bind_conv (f x) g)"
  by (cases m) (auto simp: bind_conv_def split: sum.splits)

lemma convert_matrix_good:
  assumes "convert_matrix t sz v argument convert = ok_conv m" "value_typed v"
    and "\<And>cell x. cell_typed cell \<Longrightarrow> convert cell argument = ok_conv x \<Longrightarrow> good x"
  shows "matrix_ok t m \<and> list_all good (m_data m)"
proof -
  obtain grid xs where grid: "shaped_grid t MatrixShape v argument = ok_conv grid"
    and xs: "convert_owned_grid_elements t sz grid argument (\<lambda>cell. convert cell argument) = ok_conv xs"
    and m: "matrix_new t (fst (grid_shape grid)) (snd (grid_shape grid)) xs = Inr m"
    using assms(1) by (auto simp: convert_matrix_def case_prod_unfold Let_def)
  have "list_all2 (\<lambda>cell x. convert cell argument = ok_conv x) (grid_cells grid) xs"
    by (rule list_all2_mono [OF convert_owned_grid_elements_ok [OF xs, THEN conjunct1]]) simp
  then have "list_all good xs"
    using grid_typed [OF assms(2) grid] assms(3) by (fastforce simp: list_all2_conv_all_nth list_all_length)
  then show ?thesis using m by (auto simp: matrix_new_Inr matrix_ok_dimensions)
qed

lemma convert_matrix_returns:
  assumes "validated v" "value_typed v"
    and "\<And>cell. validated cell \<Longrightarrow> cell_typed cell \<Longrightarrow> convert cell argument \<noteq> Aborts"
  shows "convert_matrix t sz v argument convert \<noteq> Aborts"
proof -
  have "convert_owned_grid_elements t sz grid argument (\<lambda>cell. convert cell argument) \<noteq> Aborts"
    if "shaped_grid t MatrixShape v argument = ok_conv grid" for grid
    using grid_typed [OF assms(2) that] assms(3)
    by (intro convert_owned_grid_elements_returns) (auto simp: list_all_iff)
  then show ?thesis
    using shaped_grid_returns [OF assms(1)] by (auto simp: convert_matrix_def case_prod_unfold Let_def)
qed

lemma dimensions_small: "matrix_ok t m \<Longrightarrow> m_rows m < 2 ^ 64 \<and> m_columns m < 2 ^ 64"
  by (auto simp: matrix_ok_def EXCEL_MAX_ROWS_def EXCEL_MAX_COLUMNS_def)

lemma excel_value_decide:
  assumes "excel_value_ok t x" "excel_value_ok t y" "excel_value_identity x @ s = excel_value_identity y @ u"
  shows "x = y \<and> s = u"
proof (cases "\<exists>m n. x = ValueArray m \<and> y = ValueArray n")
  case True
  then obtain m n where xy: "x = ValueArray m" "y = ValueArray n" by blast
  let ?m = "concat (map cell_identity (m_data m))" and ?n = "concat (map cell_identity (m_data n))"
  have small: "m_rows m < 2 ^ 64" "m_columns m < 2 ^ 64" "m_rows n < 2 ^ 64" "m_columns n < 2 ^ 64"
    using assms(1,2) dimensions_small by (auto simp: xy)
  have r: "m_rows m = m_rows n \<and> to_le_bytes 8 (of_nat (m_columns m) :: u64) @ ?m @ s =
      to_le_bytes 8 (of_nat (m_columns n) :: u64) @ ?n @ u"
    using assms(3) small by (intro le64_nat_decides) (simp_all add: xy)
  then have c: "m_columns m = m_columns n \<and> ?m @ s = ?n @ u" using small by (intro le64_nat_decides) auto
  then have "m_data m = m_data n \<and> s = u"
    using assms(1,2) r by (intro cell_input.identities_decide) (auto simp: xy matrix_ok_def)
  then show ?thesis using r c by (simp add: xy)
next
  case False
  then show ?thesis using assms by (cases x; cases y) (auto dest: cell_identity_decide)
qed

interpretation excel_value_input: excel_input "excel_value_from_excel t n" excel_value_encode excel_value_identity
  "excel_value_ok t" value_typed for t n
proof unfold_locales
  fix v argument x
  have typed: "value_typed v \<Longrightarrow> cell_typed v" by (simp add: value_typed_def)
  show "validated v \<Longrightarrow> value_typed v \<Longrightarrow> excel_value_from_excel t n v argument \<noteq> Aborts"
    using validated_type [of v] cell_returns [of v] convert_matrix_returns [of v cell_from_excel argument t n] typed
      cell_returns
    by (auto simp: excel_value_from_excel_def split: XlValueType.splits)
  assume v: "value_typed v" and x: "excel_value_from_excel t n v argument = ok_conv x"
  from x obtain ty where ty: "xl_value_type v = Returns ty" by (auto simp: excel_value_from_excel_def)
  show "excel_value_ok t x"
    using x ty typed [OF v] convert_matrix_good [OF _ v, of t n argument cell_from_excel _ cell_ok] cell_from_good
    by (cases ty) (auto simp: excel_value_from_excel_def)
qed (fact appends_excel_value, rule excel_value_decide)

fun array_cells :: "ExcelValue \<Rightarrow> u8 list" where
  "array_cells (ValueArray m) = concat (map cell_identity (m_data m))"
| "array_cells _ = []"

lemma excel_value_records:
  assumes v: "validated v" "value_typed v"
  shows "records B absorbed digest argument (excel_value_with_identity B t n v argument)
    (excel_value_from_excel t n v argument) excel_value_identity"
proof -
  obtain ty where ty: "xl_value_type v = Returns ty" using validated_type [OF v(1)] by blast
  show ?thesis
  proof (cases "ty = XlMulti")
    case False
    then show ?thesis
      using excel_value_input.default_records [OF v, of B absorbed digest argument t n] ty
      by (simp add: records_def excel_value_with_identity_def)
  next
    case True
    let ?decode = "\<lambda>cell. default_with_identity cell_from_excel (cell_encode B) cell argument"
    let ?body = "\<lambda>grid. bind_rec (run_encode (encode_tag B 3)) (\<lambda>_.
        bind_rec (run_encode (dimensions_encode B (fst (grid_shape grid)) (snd (grid_shape grid)))) (\<lambda>_.
        bind_rec (convert_grid_elements t n grid argument ?decode) (\<lambda>cs.
          lift_conv (map_conv ValueArray (Returns (matrix_new t (fst (grid_shape grid)) (snd (grid_shape grid)) cs))))))"
    let ?result = "\<lambda>grid. bind_conv (convert_owned_grid_elements t n grid argument (\<lambda>cell. cell_from_excel cell argument))
        (\<lambda>cs. map_conv ValueArray (Returns (matrix_new t (fst (grid_shape grid)) (snd (grid_shape grid)) cs)))"
    have body: "records B absorbed digest argument (?body grid) (bind_conv (ok_conv ()) (\<lambda>_. bind_conv (ok_conv ()) (\<lambda>_. ?result grid)))
        excel_value_identity" if grid: "shaped_grid t MatrixShape v argument = ok_conv grid" for grid
    proof -
      have cells: "records B absorbed digest argument (convert_grid_elements t n grid argument ?decode)
          (convert_owned_grid_elements t n grid argument (\<lambda>cell. cell_from_excel cell argument))
          (\<lambda>xs. concat (map cell_identity xs))"
        using grid_typed [OF v(2) grid]
        by (intro records_convert_grid cell_input.default_records) (auto simp: list_all_iff)
      let ?last = "\<lambda>cs. map_conv ValueArray (Returns (matrix_new t (fst (grid_shape grid)) (snd (grid_shape grid)) cs))"
      have last: "records B absorbed digest argument
          (bind_rec (convert_grid_elements t n grid argument ?decode) (\<lambda>cs. lift_conv (?last cs))) (?result grid) array_cells"
        by (rule records_bind [OF cells, where bytes' = "\<lambda>_ _. []"], rule records_lift) (auto simp: matrix_new_Inr)
      have dims: "records B absorbed digest argument
          (bind_rec (run_encode (dimensions_encode B (fst (grid_shape grid)) (snd (grid_shape grid))))
            (\<lambda>_. bind_rec (convert_grid_elements t n grid argument ?decode) (\<lambda>cs. lift_conv (?last cs))))
          (bind_conv (ok_conv ()) (\<lambda>_. ?result grid)) (\<lambda>y. tl (excel_value_identity y))"
        by (rule records_bind [OF records_encode [OF appends_dimensions] last]) (auto simp: matrix_new_Inr)
      show ?thesis
        by (rule records_bind [OF records_encode [OF appends_tag] dims]) (auto simp: matrix_new_Inr)
    qed
    have "records B absorbed digest argument (bind_rec (lift_conv (shaped_grid t MatrixShape v argument)) ?body)
        (bind_conv (shaped_grid t MatrixShape v argument) (\<lambda>grid. bind_conv (ok_conv ()) (\<lambda>_. bind_conv (ok_conv ()) (\<lambda>_. ?result grid))))
        excel_value_identity"
      by (rule records_bind [where bytes = "\<lambda>_. []" and bytes' = "\<lambda>_. excel_value_identity"],
          rule records_lift [OF shaped_grid_returns [OF v(1)]], simp, rule body, assumption, simp)
    then show ?thesis
      using ty True
      by (simp add: records_def excel_value_with_identity_def excel_value_from_excel_def convert_matrix_def
          case_prod_unfold Let_def map_conv_def bind_conv_assoc)
  qed
qed

section \<open>Observing an argument\<close>

text \<open>
  What a caller can observe of encoding one argument into a root hash: the result of the
  conversion, and with a value the digest of the root after the argument.
\<close>

definition argument_outcome ::
    "'h Blake3 \<Rightarrow> string \<Rightarrow> ('h, 'a) recording \<Rightarrow> 'h \<Rightarrow> ('a \<times> u8 list) conversion" where
  "argument_outcome B argument m h = bind_run (m (encoder_new argument)) (\<lambda>(e, v).
     Returns (bind_result v (\<lambda>x. case finish_into B e h of
       (e', h', finished) \<Rightarrow> bind_result finished (\<lambda>_. Inr (x, blake_finalize B h')))))"

lemma argument_outcome_records:
  assumes inc: "incremental B absorbed digest" and h: "absorbed h p"
    and m: "records B absorbed digest argument m result bytes"
  shows "argument_outcome B argument m h =
    bind_conv result (\<lambda>x. ok_conv (x, digest (p @ frame digest (bytes x))))"
proof -
  have "encodes B absorbed digest argument (encoder_new argument) (Inr [])"
    using encoder_new_encodes [OF inc, of None argument] by (simp add: spare_ok_def encoder_new_def)
  from recordsD [OF m this, unfolded append_Nil] obtain e v where run: "m (encoder_new argument) = Returns (e, v)" "result = Returns v"
    and v: "case v of Inr x \<Rightarrow> encodes B absorbed digest argument e (Inr (bytes x))
      | Inl _ \<Rightarrow> \<exists>r. encodes B absorbed digest argument e r"
    by (auto simp: yields_iff)
  show ?thesis
  proof (cases v)
    case (Inl err)
    then show ?thesis using run by (simp add: argument_outcome_def)
  next
    case (Inr x)
    then have "encodes B absorbed digest argument e (Inr (bytes x))" using v by simp
    from finish_into_encodes [OF this h] show ?thesis
      using run Inr incrementalD(4) [OF inc] by (auto simp: argument_outcome_def split: prod.splits)
  qed
qed

text \<open>Writes before an operation are part of the identity.\<close>

lemma records_after_writes:
  assumes "records B absorbed digest argument m result bytes"
  shows "records B absorbed digest argument (\<lambda>e. bind_run (put_each (write_bytes B) cs e) m) result
    (\<lambda>x. concat cs @ bytes x)"
  unfolding records_def
proof (intro allI impI)
  fix e bs assume "encodes B absorbed digest argument e (Inr bs)"
  from identity_encoder.put_each_appends [OF this, of cs]
  show "yields (bind_run (put_each (write_bytes B) cs e) m) (\<lambda>(e', v). result = Returns v \<and> (case v of
      Inr x \<Rightarrow> encodes B absorbed digest argument e' (Inr (bs @ concat cs @ bytes x))
    | Inl _ \<Rightarrow> \<exists>r. encodes B absorbed digest argument e' r))"
  proof (rule yields_bind)
    fix e' assume "encodes B absorbed digest argument e' (append_bytes (Inr bs) (concat cs))"
    then have "encodes B absorbed digest argument e' (Inr (bs @ concat cs))" by simp
    from recordsD [OF assms this, unfolded append_assoc] show "yields (m e') (\<lambda>(e', v). result = Returns v \<and> (case v of
        Inr x \<Rightarrow> encodes B absorbed digest argument e' (Inr (bs @ concat cs @ bytes x))
      | Inl _ \<Rightarrow> \<exists>r. encodes B absorbed digest argument e' r))" .
  qed
qed

lemma records_f64_sequence:
  "records B absorbed digest argument (f64_sequence B vs)
     (case split_results vs of (xs, None) \<Rightarrow> ok_conv () | (xs, Some err) \<Rightarrow> err_conv err)
     (\<lambda>_. numbers_bytes (fst (split_results vs)))"
  unfolding records_def
proof (intro allI impI)
  fix e bs assume "encodes B absorbed digest argument e (Inr bs)"
  from f64_sequence_encodes [OF this, of vs]
  show "yields (f64_sequence B vs e) (\<lambda>(e', v).
      (case split_results vs of (xs, None) \<Rightarrow> ok_conv () | (xs, Some err) \<Rightarrow> err_conv err) = Returns v \<and> (case v of
        Inr x \<Rightarrow> encodes B absorbed digest argument e' (Inr (bs @ numbers_bytes (fst (split_results vs))))
      | Inl _ \<Rightarrow> \<exists>r. encodes B absorbed digest argument e' r))"
    by (rule yields_mono) (auto split: prod.splits option.splits)
qed

lemma records_semantic_utf16:
  assumes "units_ok us"
  shows "records B absorbed digest argument (semantic_utf16 B us)
     (case from_utf16 us of Some s \<Rightarrow> ok_conv () | None \<Rightarrow> err_conv (Input argument InvalidUtf16))
     (\<lambda>_. case from_utf16 us of Some s \<Rightarrow> string_bytes (as_bytes s) | None \<Rightarrow> [])"
  unfolding records_def
proof (intro allI impI)
  fix e bs assume "encodes B absorbed digest argument e (Inr bs)"
  from semantic_utf16_encodes [OF this assms]
  show "yields (semantic_utf16 B us e) (\<lambda>(e', v).
      (case from_utf16 us of Some s \<Rightarrow> ok_conv () | None \<Rightarrow> err_conv (Input argument InvalidUtf16)) = Returns v \<and> (case v of
        Inr x \<Rightarrow> encodes B absorbed digest argument e'
          (Inr (bs @ (case from_utf16 us of Some s \<Rightarrow> string_bytes (as_bytes s) | None \<Rightarrow> [])))
      | Inl _ \<Rightarrow> \<exists>r. encodes B absorbed digest argument e' r))"
    by (rule yields_mono) (auto split: option.splits)
qed

lemma split_results_map: "split_results (map Inr xs) = (xs, None)"
  by (induction xs) auto

section \<open>What identities promise\<close>

text \<open>
  C25. The fast paths of the encoder are exact. Whatever was written before, in pieces of any
  size, appending a sequence of numbers through \<open>f64_sequence\<close> is observed like appending them
  one by one with \<open>f64\<close>, and \<open>semantic_utf16\<close> is observed like encoding the string that strict
  decoding gives, or like the \<open>InvalidUtf16\<close> error of that argument. So neither the inline limit
  of 128 bytes nor the buffer of 4096 bytes nor the chunking can be seen in an identity.
\<close>

theorem encoder_fast_paths_exact:
  assumes "incremental B absorbed digest" "absorbed h p" "list_all (\<lambda>u. u < 0x10000) units"
  shows "argument_outcome B argument (\<lambda>e. bind_run (put_each (write_bytes B) cs e) (f64_sequence B (map Inr xs))) h
      = argument_outcome B argument (\<lambda>e. bind_run (write_bytes B e (concat cs))
          (run_encode (encode_each (encode_f64 B) xs))) h \<and>
    argument_outcome B argument (\<lambda>e. bind_run (put_each (write_bytes B) cs e) (semantic_utf16 B units)) h
      = (case from_utf16 units of
           Some s \<Rightarrow> argument_outcome B argument (\<lambda>e. bind_run (write_bytes B e (concat cs))
             (run_encode (encode_string B (as_bytes s)))) h
         | None \<Rightarrow> err_conv (Input argument InvalidUtf16))"
proof -
  have one: "put_each (write_bytes B) [concat cs] = (\<lambda>e. write_bytes B e (concat cs))"
  proof
    show "put_each (write_bytes B) [concat cs] e = write_bytes B e (concat cs)" for e
      by (cases "write_bytes B e (concat cs)") auto
  qed
  note outcome = argument_outcome_records [OF assms(1,2)]
  have numbers: "appends B absorbed digest (encode_each (encode_f64 B) xs) (numbers_bytes xs)"
    unfolding numbers_bytes_def by (rule appends_each) (rule appends_f64)
  have "argument_outcome B argument (\<lambda>e. bind_run (write_bytes B e (concat cs)) (run_encode f)) h =
      ok_conv ((), digest (p @ frame digest (concat cs @ ys)))" if "appends B absorbed digest f ys" for f ys
    using outcome [OF records_after_writes [OF records_encode [OF that], of _ "[concat cs]"]] by (simp add: one)
  note reference = this [OF numbers] this [OF appends_string]
  show ?thesis
    using outcome [OF records_after_writes [OF records_f64_sequence], of argument cs "map Inr xs"]
      outcome [OF records_after_writes [OF records_semantic_utf16 [OF assms(3)]], of argument cs] reference
    by (simp add: split_results_map split: option.splits)
qed

lemma encoder_fast_paths_exact_witness:
  "argument_outcome concat_hash ''x'' (\<lambda>e. bind_run (put_each (write_bytes concat_hash) [[1], [2, 3]] e)
       (f64_sequence concat_hash (map Inr [4, 5]))) []
     = argument_outcome concat_hash ''x'' (\<lambda>e. bind_run (write_bytes concat_hash e (concat [[1], [2, 3]]))
         (run_encode (encode_each (encode_f64 concat_hash) [4, 5]))) [] \<and>
   argument_outcome concat_hash ''x'' (\<lambda>e. bind_run (put_each (write_bytes concat_hash) [[1], [2, 3]] e)
       (semantic_utf16 concat_hash [0x41, 0xD800])) []
     = (case from_utf16 [0x41, 0xD800] of
          Some s \<Rightarrow> argument_outcome concat_hash ''x'' (\<lambda>e. bind_run (write_bytes concat_hash e (concat [[1], [2, 3]]))
            (run_encode (encode_string concat_hash (as_bytes s)))) []
        | None \<Rightarrow> err_conv (Input ''x'' InvalidUtf16))"
  using encoder_fast_paths_exact [OF concat_hash_incremental refl, of "[0x41, 0xD800]" "''x''" "[[1], [2, 3]]" "[4, 5]" "[]"]
  by simp

text \<open>
  C30. The dynamic value keeps the contract of its trait. \<open>ExcelValue\<close> overrides
  \<open>from_excel_with_identity\<close> to record cells while it converts them; for every validated value
  this is observed exactly like converting first and encoding the result afterwards: the same
  value, the same error, the same identity.
\<close>

theorem excel_value_override_contract:
  assumes "incremental B absorbed digest" "absorbed h p" "validated v" "value_typed v"
  shows "argument_outcome B argument (excel_value_with_identity B t n v argument) h =
    argument_outcome B argument (default_with_identity (excel_value_from_excel t n) (excel_value_encode B) v argument) h"
  using argument_outcome_records [OF assms(1,2) excel_value_records [OF assms(3,4)], of argument t n]
    argument_outcome_records [OF assms(1,2) excel_value_input.default_records [OF assms(3,4)], of argument t n]
  by simp

lemma sample_typed: "value_typed (sample_cell b)" "value_typed sample_column"
  by (simp_all add: value_typed_def cell_typed_def sample_cell_def sample_column_def)

lemma excel_value_override_contract_witness:
  "argument_outcome concat_hash ''x'' (excel_value_with_identity concat_hash Width64 8 sample_column ''x'') [] =
   argument_outcome concat_hash ''x''
     (default_with_identity (excel_value_from_excel Width64 8) (excel_value_encode concat_hash) sample_column ''x'') []"
  using excel_value_override_contract [OF concat_hash_incremental refl, of sample_column "''x''" Width64 8 "[]"]
    sample_types(4) sample_typed(2) by simp

end
