(* ===== verification/Excel_Parameter.thy ===== *)
theory Excel_Parameter
  imports Excel_Identity
begin

text \<open>
  Parameters that are collections or optional values (the \<open>ExcelParameter\<close> implementations of
  \<open>crates/xlfn/src/value.rs\<close> and the preparation of cells in \<open>crates/xlfn/src/value/input.rs\<close>), in
  the mode that records identities. Conversion of an element is an argument of the definitions
  as it is a type parameter of the code, with the size of the element beside it.
\<close>

section \<open>Definitions\<close>

subsection \<open>Decoding\<close>

definition decode_matrix ::
    "'h Blake3 \<Rightarrow> target \<Rightarrow> nat \<Rightarrow> (xloper \<Rightarrow> string \<Rightarrow> ('h, 'a) recording) \<Rightarrow> xloper \<Rightarrow> string \<Rightarrow> ('h, 'a Matrix) recording" where
  "decode_matrix B t sz decode v argument =
     bind_rec (lift_conv (shaped_grid t MatrixShape v argument)) (\<lambda>grid.
     bind_rec (run_encode (dimensions_encode B (fst (grid_shape grid)) (snd (grid_shape grid)))) (\<lambda>_.
     bind_rec (convert_grid_elements t sz grid argument (\<lambda>cell. decode cell argument)) (\<lambda>data.
       lift_conv (Returns (matrix_new t (fst (grid_shape grid)) (snd (grid_shape grid)) data)))))"

definition length_encode :: "'h Blake3 \<Rightarrow> GridView \<Rightarrow> 'h InputIdentityEncoder \<Rightarrow> 'h InputIdentityEncoder run" where
  "length_encode B grid = encode_u64 B (of_nat (length (grid_cells grid)))"

definition decode_vector ::
    "'h Blake3 \<Rightarrow> target \<Rightarrow> nat \<Rightarrow> (xloper \<Rightarrow> string \<Rightarrow> ('h, 'a) recording) \<Rightarrow> xloper \<Rightarrow> string \<Rightarrow> ('h, 'a list) recording" where
  "decode_vector B t sz decode v argument =
     bind_rec (lift_conv (shaped_grid t VectorShape v argument)) (\<lambda>grid.
     bind_rec (run_encode (length_encode B grid)) (\<lambda>_.
       convert_grid_elements t sz grid argument (\<lambda>cell. decode cell argument)))"

definition decode_row ::
    "'h Blake3 \<Rightarrow> target \<Rightarrow> nat \<Rightarrow> (xloper \<Rightarrow> string \<Rightarrow> ('h, 'a) recording) \<Rightarrow> xloper \<Rightarrow> string \<Rightarrow> ('h, 'a Row) recording" where
  "decode_row B t sz decode v argument =
     bind_rec (lift_conv (shaped_grid t RowShape v argument)) (\<lambda>grid.
     bind_rec (run_encode (length_encode B grid)) (\<lambda>_.
     bind_rec (convert_grid_elements t sz grid argument (\<lambda>cell. decode cell argument)) (\<lambda>data.
       lift_conv (Returns (row_new t data)))))"

definition decode_column ::
    "'h Blake3 \<Rightarrow> target \<Rightarrow> nat \<Rightarrow> (xloper \<Rightarrow> string \<Rightarrow> ('h, 'a) recording) \<Rightarrow> xloper \<Rightarrow> string \<Rightarrow> ('h, 'a Column) recording" where
  "decode_column B t sz decode v argument =
     bind_rec (lift_conv (shaped_grid t ColumnShape v argument)) (\<lambda>grid.
     bind_rec (run_encode (length_encode B grid)) (\<lambda>_.
     bind_rec (convert_grid_elements t sz grid argument (\<lambda>cell. decode cell argument)) (\<lambda>data.
       lift_conv (Returns (column_new t data)))))"

definition varargs_for_argument :: "nat \<Rightarrow> string \<Rightarrow> 'a list \<Rightarrow> 'a BoundedVarArgs conversion" where
  "varargs_for_argument maximum argument data = Returns (case varargs_new maximum data of
       Inl err \<Rightarrow> Inl (rename_argument argument err) | Inr xs \<Rightarrow> Inr xs)"

definition decode_varargs ::
    "'h Blake3 \<Rightarrow> target \<Rightarrow> nat \<Rightarrow> nat \<Rightarrow> (xloper \<Rightarrow> string \<Rightarrow> ('h, 'a) recording) \<Rightarrow> xloper \<Rightarrow> string \<Rightarrow>
     ('h, 'a BoundedVarArgs) recording" where
  "decode_varargs B t sz maximum decode v argument =
     bind_rec (lift_conv (bounded_grid t maximum v argument)) (\<lambda>grid.
     bind_rec (run_encode (length_encode B grid)) (\<lambda>_.
     bind_rec (convert_grid_elements t sz grid argument (\<lambda>cell. decode cell argument)) (\<lambda>data.
       lift_conv (varargs_for_argument maximum argument data))))"

definition decode_option ::
    "'h Blake3 \<Rightarrow> (xloper \<Rightarrow> string \<Rightarrow> ('h, 'a) recording) \<Rightarrow> xloper \<Rightarrow> string \<Rightarrow> ('h, 'a option) recording" where
  "decode_option B decode v argument e = bind_run (xl_value_type v) (\<lambda>ty.
     bind_rec (run_encode (encode_bool B (\<not> (ty = XlMissing \<or> ty = XlNil)))) (\<lambda>_.
       if ty = XlMissing \<or> ty = XlNil then lift_conv (ok_conv None)
       else bind_rec (decode v argument) (\<lambda>x. lift_conv (ok_conv (Some x)))) e)"

definition presence_tag :: "XlValueType \<Rightarrow> u8" where
  "presence_tag ty = (case ty of XlMissing \<Rightarrow> 0 | XlNil \<Rightarrow> 1 | _ \<Rightarrow> 2)"

definition decode_optional_value ::
    "'h Blake3 \<Rightarrow> (xloper \<Rightarrow> string \<Rightarrow> ('h, 'a) recording) \<Rightarrow> xloper \<Rightarrow> string \<Rightarrow> ('h, 'a OptionalExcelValue) recording" where
  "decode_optional_value B decode v argument e = bind_run (xl_value_type v) (\<lambda>ty.
     bind_rec (run_encode (encode_tag B (presence_tag ty))) (\<lambda>_.
       if ty = XlMissing then lift_conv (ok_conv OptMissing)
       else if ty = XlNil then lift_conv (ok_conv OptBlank)
       else bind_rec (decode v argument) (\<lambda>x. lift_conv (ok_conv (OptValue x)))) e)"

subsection \<open>Encoding a converted value\<close>

definition matrix_encode ::
    "'h Blake3 \<Rightarrow> ('a \<Rightarrow> 'h InputIdentityEncoder \<Rightarrow> 'h InputIdentityEncoder run) \<Rightarrow> 'a Matrix \<Rightarrow>
     'h InputIdentityEncoder \<Rightarrow> 'h InputIdentityEncoder run" where
  "matrix_encode B encode m e = bind_run (dimensions_encode B (m_rows m) (m_columns m) e) (encode_each encode (m_data m))"

definition sequence_encode ::
    "'h Blake3 \<Rightarrow> ('a \<Rightarrow> 'h InputIdentityEncoder \<Rightarrow> 'h InputIdentityEncoder run) \<Rightarrow> 'a list \<Rightarrow>
     'h InputIdentityEncoder \<Rightarrow> 'h InputIdentityEncoder run" where
  "sequence_encode B encode xs e = bind_run (encode_u64 B (of_nat (length xs)) e) (encode_each encode xs)"

fun option_encode ::
    "'h Blake3 \<Rightarrow> ('a \<Rightarrow> 'h InputIdentityEncoder \<Rightarrow> 'h InputIdentityEncoder run) \<Rightarrow> 'a option \<Rightarrow>
     'h InputIdentityEncoder \<Rightarrow> 'h InputIdentityEncoder run" where
  "option_encode B encode None e = encode_bool B False e"
| "option_encode B encode (Some x) e = bind_run (encode_bool B True e) (encode x)"

fun optional_value_encode ::
    "'h Blake3 \<Rightarrow> ('a \<Rightarrow> 'h InputIdentityEncoder \<Rightarrow> 'h InputIdentityEncoder run) \<Rightarrow> 'a OptionalExcelValue \<Rightarrow>
     'h InputIdentityEncoder \<Rightarrow> 'h InputIdentityEncoder run" where
  "optional_value_encode B encode OptMissing e = encode_tag B 0 e"
| "optional_value_encode B encode OptBlank e = encode_tag B 1 e"
| "optional_value_encode B encode (OptValue x) e = bind_run (encode_tag B 2 e) (encode x)"

subsection \<open>Preparation\<close>

text \<open>
  Preparation of borrowed cells validates and records every cell and keeps the cells;
  materialisation converts them again. \<open>prepare_borrowed\<close> is \<open>ExcelInputCells::borrowed\<close>, and
  \<open>borrowed_f64\<close> its bulk form, whose iterator yields the results in \<open>f64_results\<close>: up to the
  first error, since nothing is read after it.
\<close>

type_synonym prepared_cells = "GridView \<times> string"

fun prepare_each ::
    "target \<Rightarrow> ArrayInputBudget \<Rightarrow> (xloper \<Rightarrow> ('h, 'p) recording) \<Rightarrow> xloper list \<Rightarrow> ('h, unit) recording" where
  "prepare_each t b prepare [] = lift_conv (ok_conv ())"
| "prepare_each t b prepare (cell # cs) =
     bind_rec (lift_conv (Returns (array_cell cell))) (\<lambda>element.
     bind_rec (lift_conv (budget_include t b element)) (\<lambda>b.
     bind_rec (prepare element) (\<lambda>_. prepare_each t b prepare cs)))"

definition prepare_borrowed ::
    "target \<Rightarrow> nat \<Rightarrow> (xloper \<Rightarrow> string \<Rightarrow> ('h, 'p) recording) \<Rightarrow> GridView \<Rightarrow> string \<Rightarrow> ('h, prepared_cells) recording" where
  "prepare_borrowed t sz prepare grid argument =
     bind_rec (lift_conv (Returns (array_budget_new t sz (length (grid_cells grid)) argument))) (\<lambda>b.
     bind_rec (prepare_each t b (\<lambda>cell. prepare cell argument) (grid_cells grid)) (\<lambda>_.
       lift_conv (ok_conv (grid, argument))))"

definition f64_result :: "target \<Rightarrow> ArrayInputBudget \<Rightarrow> string \<Rightarrow> xloper \<Rightarrow> (ArrayInputBudget \<times> u64) conversion" where
  "f64_result t b argument cell =
     bind_conv (Returns (array_cell cell)) (\<lambda>element.
     bind_conv (budget_include t b element) (\<lambda>b.
     bind_conv (f64_from_excel element argument) (\<lambda>x. ok_conv (b, x))))"

fun f64_results :: "target \<Rightarrow> ArrayInputBudget \<Rightarrow> string \<Rightarrow> xloper list \<Rightarrow> u64 XllResult list run" where
  "f64_results t b argument [] = Returns []"
| "f64_results t b argument (cell # cs) = bind_run (f64_result t b argument cell) (\<lambda>r. case r of
       Inl err \<Rightarrow> Returns [Inl err]
     | Inr (b, x) \<Rightarrow> bind_run (f64_results t b argument cs) (\<lambda>rs. Returns (Inr x # rs)))"

definition borrowed_f64 ::
    "'h Blake3 \<Rightarrow> target \<Rightarrow> GridView \<Rightarrow> string \<Rightarrow> ('h, prepared_cells) recording" where
  "borrowed_f64 B t grid argument =
     bind_rec (lift_conv (Returns (array_budget_new t 8 (length (grid_cells grid)) argument))) (\<lambda>b.
     bind_rec (\<lambda>e. bind_run (f64_results t b argument (grid_cells grid)) (\<lambda>rs. f64_sequence B rs e)) (\<lambda>_.
       lift_conv (ok_conv (grid, argument))))"

fun materialize_cells :: "(xloper \<Rightarrow> 'a conversion) \<Rightarrow> xloper list \<Rightarrow> 'a list conversion" where
  "materialize_cells convert [] = ok_conv []"
| "materialize_cells convert (cell # cs) =
     bind_conv (Returns (array_cell cell)) (\<lambda>element.
     bind_conv (convert element) (\<lambda>x.
     bind_conv (materialize_cells convert cs) (\<lambda>xs. ok_conv (x # xs))))"

definition materialize_elements :: "(xloper \<Rightarrow> string \<Rightarrow> 'a conversion) \<Rightarrow> prepared_cells \<Rightarrow> 'a list conversion" where
  "materialize_elements from_excel p = materialize_cells (\<lambda>cell. from_excel cell (snd p)) (grid_cells (fst p))"

definition prepare_matrix ::
    "'h Blake3 \<Rightarrow> target \<Rightarrow> (GridView \<Rightarrow> string \<Rightarrow> ('h, prepared_cells) recording) \<Rightarrow> xloper \<Rightarrow> string \<Rightarrow>
     ('h, nat \<times> nat \<times> string \<times> prepared_cells) recording" where
  "prepare_matrix B t prepare_elements v argument =
     bind_rec (lift_conv (shaped_grid t MatrixShape v argument)) (\<lambda>grid.
     bind_rec (run_encode (dimensions_encode B (fst (grid_shape grid)) (snd (grid_shape grid)))) (\<lambda>_.
     bind_rec (prepare_elements grid argument) (\<lambda>elements.
       lift_conv (ok_conv (fst (grid_shape grid), snd (grid_shape grid), argument, elements)))))"

definition materialize_matrix ::
    "target \<Rightarrow> (xloper \<Rightarrow> string \<Rightarrow> 'a conversion) \<Rightarrow> nat \<times> nat \<times> string \<times> prepared_cells \<Rightarrow> 'a Matrix conversion" where
  "materialize_matrix t from_excel = (\<lambda>(r, c, argument, elements).
     bind_conv (materialize_elements from_excel elements) (\<lambda>data. Returns (matrix_new t r c data)))"

definition prepare_sequence ::
    "'h Blake3 \<Rightarrow> GridView conversion \<Rightarrow> (GridView \<Rightarrow> string \<Rightarrow> ('h, prepared_cells) recording) \<Rightarrow> string \<Rightarrow>
     ('h, nat \<times> nat \<times> string \<times> prepared_cells) recording" where
  "prepare_sequence B grid prepare_elements argument =
     bind_rec (lift_conv grid) (\<lambda>grid.
     bind_rec (run_encode (length_encode B grid)) (\<lambda>_.
     bind_rec (prepare_elements grid argument) (\<lambda>elements.
       lift_conv (ok_conv (fst (grid_shape grid), snd (grid_shape grid), argument, elements)))))"

definition prepare_vector where
  "prepare_vector B t prepare_elements v argument =
     prepare_sequence B (shaped_grid t VectorShape v argument) prepare_elements argument"
definition prepare_row where
  "prepare_row B t prepare_elements v argument =
     prepare_sequence B (shaped_grid t RowShape v argument) prepare_elements argument"
definition prepare_column where
  "prepare_column B t prepare_elements v argument =
     prepare_sequence B (shaped_grid t ColumnShape v argument) prepare_elements argument"
definition prepare_varargs where
  "prepare_varargs B t maximum prepare_elements v argument =
     prepare_sequence B (bounded_grid t maximum v argument) prepare_elements argument"

definition materialize_vector ::
    "(xloper \<Rightarrow> string \<Rightarrow> 'a conversion) \<Rightarrow> nat \<times> nat \<times> string \<times> prepared_cells \<Rightarrow> 'a list conversion" where
  "materialize_vector from_excel = (\<lambda>(r, c, argument, elements). materialize_elements from_excel elements)"

definition materialize_row ::
    "target \<Rightarrow> (xloper \<Rightarrow> string \<Rightarrow> 'a conversion) \<Rightarrow> nat \<times> nat \<times> string \<times> prepared_cells \<Rightarrow> 'a Row conversion" where
  "materialize_row t from_excel = (\<lambda>(r, c, argument, elements).
     bind_conv (materialize_elements from_excel elements) (\<lambda>data. Returns (row_new t data)))"

definition materialize_column ::
    "target \<Rightarrow> (xloper \<Rightarrow> string \<Rightarrow> 'a conversion) \<Rightarrow> nat \<times> nat \<times> string \<times> prepared_cells \<Rightarrow> 'a Column conversion" where
  "materialize_column t from_excel = (\<lambda>(r, c, argument, elements).
     bind_conv (materialize_elements from_excel elements) (\<lambda>data. Returns (column_new t data)))"

definition materialize_varargs ::
    "nat \<Rightarrow> (xloper \<Rightarrow> string \<Rightarrow> 'a conversion) \<Rightarrow> nat \<times> nat \<times> string \<times> prepared_cells \<Rightarrow> 'a BoundedVarArgs conversion" where
  "materialize_varargs maximum from_excel = (\<lambda>(r, c, argument, elements).
     bind_conv (materialize_elements from_excel elements) (varargs_for_argument maximum argument))"

section \<open>Properties\<close>

definition matrix_identity :: "('a \<Rightarrow> u8 list) \<Rightarrow> 'a Matrix \<Rightarrow> u8 list" where
  "matrix_identity identity m = to_le_bytes 8 (of_nat (m_rows m) :: u64) @ to_le_bytes 8 (of_nat (m_columns m) :: u64) @
     concat (map identity (m_data m))"

definition sequence_identity :: "('a \<Rightarrow> u8 list) \<Rightarrow> 'a list \<Rightarrow> u8 list" where
  "sequence_identity identity xs = to_le_bytes 8 (of_nat (length xs) :: u64) @ concat (map identity xs)"

fun option_identity :: "('a \<Rightarrow> u8 list) \<Rightarrow> 'a option \<Rightarrow> u8 list" where
  "option_identity identity None = [0]"
| "option_identity identity (Some x) = 1 # identity x"

fun optional_value_identity :: "('a \<Rightarrow> u8 list) \<Rightarrow> 'a OptionalExcelValue \<Rightarrow> u8 list" where
  "optional_value_identity identity OptMissing = [0]"
| "optional_value_identity identity OptBlank = [1]"
| "optional_value_identity identity (OptValue x) = 2 # identity x"

lemma bind_conv_cong: "(\<And>x. m = ok_conv x \<Longrightarrow> f x = g x) \<Longrightarrow> bind_conv m f = bind_conv m g"
  by (cases m) (auto simp: bind_conv_def split: sum.splits)

lemma records_then:
  assumes "records B absorbed digest argument m r bytes"
    and "\<And>x. r = ok_conv x \<Longrightarrow> f x \<noteq> Aborts" "\<And>x y. r = ok_conv x \<Longrightarrow> f x = ok_conv y \<Longrightarrow> whole y = bytes x"
  shows "records B absorbed digest argument (bind_rec m (\<lambda>x. lift_conv (f x))) (bind_conv r f) whole"
  by (rule records_bind [OF assms(1), where bytes' = "\<lambda>_ _. []"]) (auto intro!: records_lift simp: assms(2,3))

lemma records_grid:
  assumes "grid \<noteq> Aborts" "\<And>g. grid = ok_conv g \<Longrightarrow> appends B absorbed digest (head g) (hs g)"
    and "\<And>g. grid = ok_conv g \<Longrightarrow> records B absorbed digest argument (m g) (r g) (bytes g)"
    and "\<And>g y. grid = ok_conv g \<Longrightarrow> r g = ok_conv y \<Longrightarrow> whole y = hs g @ bytes g y"
  shows "records B absorbed digest argument
    (bind_rec (lift_conv grid) (\<lambda>g. bind_rec (run_encode (head g)) (\<lambda>_. m g))) (bind_conv grid r) whole"
proof -
  have "records B absorbed digest argument
      (bind_rec (lift_conv grid) (\<lambda>g. bind_rec (run_encode (head g)) (\<lambda>_. m g)))
      (bind_conv grid (\<lambda>g. bind_conv (ok_conv ()) (\<lambda>_. r g))) whole"
  proof (rule records_bind [where bytes = "\<lambda>_. []"], rule records_lift [OF assms(1)], simp)
    fix g assume g: "grid = ok_conv g"
    show "records B absorbed digest argument (bind_rec (run_encode (head g)) (\<lambda>_. m g))
        (bind_conv (ok_conv ()) (\<lambda>_. r g)) whole"
      by (rule records_bind [OF records_encode [OF assms(2) [OF g]] assms(3) [OF g]]) (simp_all add: assms(4) [OF g])
  qed simp
  then show ?thesis by simp
qed

lemma appends_length:
  "appends B absorbed digest (length_encode B grid) (to_le_bytes 8 (of_nat (length (grid_cells grid)) :: u64))"
  by (simp add: length_encode_def appends_u64)

lemma bounded_grid_returns: "validated v \<Longrightarrow> bounded_grid t maximum v argument \<noteq> Aborts"
  using shaped_grid_returns [of v t VectorShape argument] by (auto simp: bounded_grid_def Let_def)

lemma converted_length:
  "convert_owned_grid_elements t sz grid argument convert = ok_conv xs \<Longrightarrow> length xs = length (grid_cells grid)"
  using convert_owned_grid_elements_ok [of t sz grid argument convert xs] by (auto dest: list_all2_lengthD)

lemma row_new_ok: "row_new t xs = Inr y \<Longrightarrow> row_data y = xs"
  and column_new_ok: "column_new t xs = Inr z \<Longrightarrow> column_data z = xs"
  by (auto simp: row_new_def column_new_def matrix_new_Inr)

lemma varargs_for_argument_ok: "varargs_for_argument maximum argument xs = ok_conv y \<Longrightarrow> varargs_data y = xs"
  by (auto simp: varargs_for_argument_def varargs_new_def split: if_splits)

lemma varargs_for_argument_returns: "varargs_for_argument maximum argument xs \<noteq> Aborts"
  by (simp add: varargs_for_argument_def)

lemma varargs_within: "0 < maximum \<Longrightarrow> length xs \<le> maximum \<Longrightarrow> varargs_for_argument maximum argument xs = ok_conv (BoundedVarArgs xs)"
  by (simp add: varargs_for_argument_def varargs_new_def)

lemma varargs_conversion:
  "bind_conv (bounded_grid t maximum v argument) (\<lambda>grid.
     bind_conv (convert_owned_grid_elements t sz grid argument (\<lambda>cell. from cell argument))
       (varargs_for_argument maximum argument)) = convert_bounded_var_args t sz maximum v argument from"
  unfolding convert_bounded_var_args_def
  by (intro bind_conv_cong) (auto dest!: bounded_grid_ok converted_length intro!: varargs_within)

subsection \<open>Collections of an input type\<close>

locale element_input = excel_input from_excel encode identity good cell_typed
  for from_excel :: "xloper \<Rightarrow> string \<Rightarrow> 'a conversion"
    and encode :: "'h Blake3 \<Rightarrow> 'a \<Rightarrow> 'h InputIdentityEncoder \<Rightarrow> 'h InputIdentityEncoder run"
    and identity :: "'a \<Rightarrow> u8 list"
    and good :: "'a \<Rightarrow> bool"
begin

lemma cells_record:
  assumes "list_all cell_typed (grid_cells grid)"
  shows "records B absorbed digest argument
    (convert_grid_elements t sz grid argument (\<lambda>cell. default_with_identity from_excel (encode B) cell argument))
    (convert_owned_grid_elements t sz grid argument (\<lambda>cell. from_excel cell argument)) (\<lambda>xs. concat (map identity xs))"
  using assms by (intro records_convert_grid default_records) (auto simp: list_all_iff)

lemma matrix_records:
  assumes "validated v" "value_typed v"
  shows "records B absorbed digest argument (decode_matrix B t sz (default_with_identity from_excel (encode B)) v argument)
    (convert_matrix t sz v argument from_excel) (matrix_identity identity)"
  unfolding decode_matrix_def convert_matrix_def case_prod_unfold Let_def
  by (rule records_grid [OF shaped_grid_returns [OF assms(1)] appends_dimensions],
      rule records_then [OF cells_record [OF grid_typed [OF assms(2)]], where whole = "\<lambda>m. concat (map identity (m_data m))"])
    (auto simp: matrix_new_Inr matrix_identity_def)

lemma vector_records:
  assumes "validated v" "value_typed v"
  shows "records B absorbed digest argument (decode_vector B t sz (default_with_identity from_excel (encode B)) v argument)
    (convert_vector t sz v argument from_excel) (sequence_identity identity)"
  unfolding decode_vector_def convert_vector_def
  by (rule records_grid [OF shaped_grid_returns [OF assms(1)] appends_length],
      rule cells_record [OF grid_typed [OF assms(2)]])
    (auto simp: sequence_identity_def converted_length)

lemma row_records:
  assumes "validated v" "value_typed v"
  shows "records B absorbed digest argument (decode_row B t sz (default_with_identity from_excel (encode B)) v argument)
    (convert_row t sz v argument from_excel) (\<lambda>r. sequence_identity identity (row_data r))"
  unfolding decode_row_def convert_row_def
  by (rule records_grid [OF shaped_grid_returns [OF assms(1)] appends_length],
      rule records_then [OF cells_record [OF grid_typed [OF assms(2)]], where whole = "\<lambda>r. concat (map identity (row_data r))"])
    (auto simp: sequence_identity_def converted_length dest!: row_new_ok)

lemma column_records:
  assumes "validated v" "value_typed v"
  shows "records B absorbed digest argument (decode_column B t sz (default_with_identity from_excel (encode B)) v argument)
    (convert_column t sz v argument from_excel) (\<lambda>c. sequence_identity identity (column_data c))"
  unfolding decode_column_def convert_column_def
  by (rule records_grid [OF shaped_grid_returns [OF assms(1)] appends_length],
      rule records_then [OF cells_record [OF grid_typed [OF assms(2)]], where whole = "\<lambda>c. concat (map identity (column_data c))"])
    (auto simp: sequence_identity_def converted_length dest!: column_new_ok)

lemma varargs_records:
  assumes "validated v" "value_typed v"
  shows "records B absorbed digest argument (decode_varargs B t sz maximum (default_with_identity from_excel (encode B)) v argument)
    (convert_bounded_var_args t sz maximum v argument from_excel) (\<lambda>xs. sequence_identity identity (varargs_data xs))"
proof -
  have "records B absorbed digest argument (decode_varargs B t sz maximum (default_with_identity from_excel (encode B)) v argument)
      (bind_conv (bounded_grid t maximum v argument) (\<lambda>grid.
        bind_conv (convert_owned_grid_elements t sz grid argument (\<lambda>cell. from_excel cell argument))
          (varargs_for_argument maximum argument))) (\<lambda>xs. sequence_identity identity (varargs_data xs))"
    unfolding decode_varargs_def
    by (rule records_grid [OF bounded_grid_returns [OF assms(1)] appends_length],
        rule records_then [OF cells_record [OF grid_typed [OF assms(2) bounded_grid_ok [THEN conjunct1]]],
          where whole = "\<lambda>xs. concat (map identity (varargs_data xs))"])
      (auto simp: sequence_identity_def converted_length varargs_for_argument_returns dest!: varargs_for_argument_ok)
  then show ?thesis by (simp only: varargs_conversion)
qed

lemma option_records:
  assumes "validated v" "cell_typed v"
  shows "records B absorbed digest argument (decode_option B (default_with_identity from_excel (encode B)) v argument)
    (convert_optional v argument from_excel) (option_identity identity)"
proof -
  obtain ty where ty: "xl_value_type v = Returns ty" using validated_type [OF assms(1)] by blast
  let ?absent = "ty = XlMissing \<or> ty = XlNil"
  have present: "records B absorbed digest argument
      (bind_rec (default_with_identity from_excel (encode B) v argument) (\<lambda>x. lift_conv (ok_conv (Some x))))
      (bind_conv (from_excel v argument) (\<lambda>x. ok_conv (Some x))) (\<lambda>y. tl (option_identity identity y))"
    by (rule records_then [OF default_records [OF assms]]) auto
  have "records B absorbed digest argument
      (bind_rec (run_encode (encode_bool B (\<not> ?absent))) (\<lambda>_. if ?absent then lift_conv (ok_conv None)
         else bind_rec (default_with_identity from_excel (encode B) v argument) (\<lambda>x. lift_conv (ok_conv (Some x)))))
      (bind_conv (ok_conv ()) (\<lambda>_. if ?absent then ok_conv None else bind_conv (from_excel v argument) (\<lambda>x. ok_conv (Some x))))
      (option_identity identity)"
  proof (rule records_bind [OF records_encode [OF appends_bool], where bytes' = "\<lambda>_ y. tl (option_identity identity y)"])
    show "records B absorbed digest argument (if ?absent then lift_conv (ok_conv None)
         else bind_rec (default_with_identity from_excel (encode B) v argument) (\<lambda>x. lift_conv (ok_conv (Some x))))
        (if ?absent then ok_conv None else bind_conv (from_excel v argument) (\<lambda>x. ok_conv (Some x)))
        (\<lambda>y. tl (option_identity identity y))" for u
      using present by (auto intro!: records_lift)
  qed (auto split: if_splits)
  then show ?thesis by (simp add: records_def decode_option_def convert_optional_def ty)
qed

lemma optional_value_records:
  assumes "validated v" "cell_typed v"
  shows "records B absorbed digest argument (decode_optional_value B (default_with_identity from_excel (encode B)) v argument)
    (convert_optional_value v argument from_excel) (optional_value_identity identity)"
proof -
  obtain ty where ty: "xl_value_type v = Returns ty" using validated_type [OF assms(1)] by blast
  have present: "records B absorbed digest argument
      (bind_rec (default_with_identity from_excel (encode B) v argument) (\<lambda>x. lift_conv (ok_conv (OptValue x))))
      (bind_conv (from_excel v argument) (\<lambda>x. ok_conv (OptValue x))) (\<lambda>y. tl (optional_value_identity identity y))"
    by (rule records_then [OF default_records [OF assms]]) auto
  have "records B absorbed digest argument
      (bind_rec (run_encode (encode_tag B (presence_tag ty))) (\<lambda>_. if ty = XlMissing then lift_conv (ok_conv OptMissing)
         else if ty = XlNil then lift_conv (ok_conv OptBlank)
         else bind_rec (default_with_identity from_excel (encode B) v argument) (\<lambda>x. lift_conv (ok_conv (OptValue x)))))
      (bind_conv (ok_conv ()) (\<lambda>_. if ty = XlMissing then ok_conv OptMissing else if ty = XlNil then ok_conv OptBlank
         else bind_conv (from_excel v argument) (\<lambda>x. ok_conv (OptValue x))))
      (optional_value_identity identity)"
  proof (rule records_bind [OF records_encode [OF appends_tag], where bytes' = "\<lambda>_ y. tl (optional_value_identity identity y)"])
    show "records B absorbed digest argument (if ty = XlMissing then lift_conv (ok_conv OptMissing)
         else if ty = XlNil then lift_conv (ok_conv OptBlank)
         else bind_rec (default_with_identity from_excel (encode B) v argument) (\<lambda>x. lift_conv (ok_conv (OptValue x))))
        (if ty = XlMissing then ok_conv OptMissing else if ty = XlNil then ok_conv OptBlank
         else bind_conv (from_excel v argument) (\<lambda>x. ok_conv (OptValue x)))
        (\<lambda>y. tl (optional_value_identity identity y))" for u
      using present by (auto intro!: records_lift)
  qed (auto simp: presence_tag_def split: if_splits XlValueType.splits)
  then show ?thesis by (simp add: records_def decode_optional_value_def convert_optional_value_def ty)
qed

lemma collection_encoders:
  "appends B absorbed digest (matrix_encode B (encode B) m) (matrix_identity identity m)"
  "appends B absorbed digest (sequence_encode B (encode B) xs) (sequence_identity identity xs)"
  "appends B absorbed digest (option_encode B (encode B) y) (option_identity identity y)"
  "appends B absorbed digest (optional_value_encode B (encode B) z) (optional_value_identity identity z)"
proof -
  have each: "appends B absorbed digest (encode_each (encode B) xs) (concat (map identity xs))" for xs
    by (rule appends_each) (rule encode_appends)
  show "appends B absorbed digest (matrix_encode B (encode B) m) (matrix_identity identity m)"
    using appends_bind [OF appends_dimensions each] by (simp add: matrix_encode_def [abs_def] matrix_identity_def)
  show "appends B absorbed digest (sequence_encode B (encode B) xs) (sequence_identity identity xs)"
    using appends_bind [OF appends_u64 each] by (simp add: sequence_encode_def [abs_def] sequence_identity_def)
  show "appends B absorbed digest (option_encode B (encode B) y) (option_identity identity y)"
  proof (cases y)
    case None
    then show ?thesis using appends_bool [of B absorbed digest False] by (simp add: appends_def)
  next
    case (Some x)
    then show ?thesis using appends_bind [OF appends_bool [of B absorbed digest True] encode_appends]
      by (simp add: appends_def)
  qed
  show "appends B absorbed digest (optional_value_encode B (encode B) z) (optional_value_identity identity z)"
  proof (cases z)
    case (OptValue x)
    then show ?thesis using appends_tagged [OF encode_appends, of B absorbed digest 2 x] by (simp add: appends_def)
  qed (use appends_tag [of B absorbed digest 0] appends_tag [of B absorbed digest 1] in \<open>simp_all add: appends_def\<close>)
qed

end

section \<open>Preparation and materialisation\<close>

text \<open>
  A preparation fails exactly if the conversion fails, with its error; otherwise the encoder
  holds the identity of the value and the prepared state materialises to this value.
\<close>

definition prepares ::
    "'h Blake3 \<Rightarrow> ('h \<Rightarrow> u8 list \<Rightarrow> bool) \<Rightarrow> (u8 list \<Rightarrow> u8 list) \<Rightarrow> string \<Rightarrow> ('h, 'p) recording \<Rightarrow>
     ('p \<Rightarrow> 'a conversion) \<Rightarrow> 'a conversion \<Rightarrow> ('a \<Rightarrow> u8 list) \<Rightarrow> bool" where
  "prepares B absorbed digest argument m materialize result bytes \<longleftrightarrow>
     (\<exists>p pb. records B absorbed digest argument m p pb \<and> (case result of
         Aborts \<Rightarrow> False
       | Returns (Inl err) \<Rightarrow> p = err_conv err
       | Returns (Inr x) \<Rightarrow> \<exists>q. p = ok_conv q \<and> pb q = bytes x \<and> materialize q = ok_conv x))"

lemma preparesI:
  assumes "records B absorbed digest argument m p pb"
    and "\<And>x. result = ok_conv x \<Longrightarrow> \<exists>q. p = ok_conv q \<and> pb q = bytes x \<and> materialize q = ok_conv x"
    and "\<And>err. result = err_conv err \<Longrightarrow> p = err_conv err" "result \<noteq> Aborts"
  shows "prepares B absorbed digest argument m materialize result bytes"
  unfolding prepares_def
  by (intro exI conjI, rule assms(1)) (use assms(2-4) in \<open>auto split: run.splits sum.splits\<close>)

lemma preparesE:
  assumes "prepares B absorbed digest argument m materialize result bytes"
  obtains err p pb where "result = err_conv err" "p = err_conv err" "records B absorbed digest argument m p pb"
  | x q pb where "result = ok_conv x" "records B absorbed digest argument m (ok_conv q) pb" "pb q = bytes x"
      "materialize q = ok_conv x"
proof (cases result)
  case Aborts
  then show ?thesis using assms by (simp add: prepares_def)
next
  case (Returns r)
  show ?thesis
  proof (cases r)
    case (Inl err)
    then show ?thesis using assms that(1) Returns by (auto simp: prepares_def)
  next
    case (Inr x)
    then show ?thesis using assms that(2) Returns by (auto simp: prepares_def)
  qed
qed

lemma bind_rec_lift [simp]:
  "bind_rec (lift_conv (ok_conv x)) f = f x" "bind_rec (lift_conv (err_conv e)) f = lift_conv (err_conv e)"
  by (rule ext, simp add: bind_rec_def lift_conv_def)+

lemma records_prepares:
  "records B absorbed digest argument m result bytes \<Longrightarrow> result \<noteq> Aborts \<Longrightarrow>
   prepares B absorbed digest argument m ok_conv result bytes"
  by (rule preparesI) auto

lemma bind_conv_err [simp]:
  "bind_conv m f = err_conv e \<longleftrightarrow> m = err_conv e \<or> (\<exists>x. m = ok_conv x \<and> f x = err_conv e)"
  by (cases m) (auto simp: bind_conv_def split: sum.splits)

lemma prepares_grid:
  assumes grid: "grid \<noteq> Aborts" and head: "\<And>g. grid = ok_conv g \<Longrightarrow> appends B absorbed digest (head g) (hs g)"
    and elements: "\<And>g. grid = ok_conv g \<Longrightarrow> prepares B absorbed digest argument (prep g) mat (elems g) eb"
    and last: "\<And>g xs. grid = ok_conv g \<Longrightarrow> elems g = ok_conv xs \<Longrightarrow> \<exists>y. f g xs = ok_conv y \<and> whole y = hs g @ eb xs"
    and mat': "\<And>g q. mat' (fst (grid_shape g), snd (grid_shape g), argument, q) = bind_conv (mat q) (f g)"
  shows "prepares B absorbed digest argument
    (bind_rec (lift_conv grid) (\<lambda>g. bind_rec (run_encode (head g)) (\<lambda>_. bind_rec (prep g) (\<lambda>q.
       lift_conv (ok_conv (fst (grid_shape g), snd (grid_shape g), argument, q))))))
    mat' (bind_conv grid (\<lambda>g. bind_conv (elems g) (f g))) whole"
proof (cases grid)
  case (Returns r)
  show ?thesis
  proof (cases r)
    case (Inl err)
    have "records B absorbed digest argument (lift_conv (err_conv err)) (err_conv err) (\<lambda>_. [])"
      by (rule records_lift) auto
    then show ?thesis by (intro preparesI) (auto simp: Returns Inl)
  next
    case (Inr g)
    then have g: "grid = ok_conv g" using Returns by simp
    let ?tail = "\<lambda>q. (fst (grid_shape g), snd (grid_shape g), argument, q)"
    have lift: "records B absorbed digest argument
        (bind_rec (run_encode (head g)) (\<lambda>_. bind_rec (prep g) (\<lambda>q. lift_conv (ok_conv (?tail q)))))
        (bind_conv (ok_conv ()) (\<lambda>_. bind_conv p (\<lambda>q. ok_conv (?tail q)))) (\<lambda>y. hs g @ pb (snd (snd (snd y))))"
      if "records B absorbed digest argument (prep g) p pb" for p pb
      by (rule records_bind [OF records_encode [OF head [OF g]]],
          rule records_then [OF that, where whole = "\<lambda>y. pb (snd (snd (snd y)))"]) auto
    from elements [OF g] show ?thesis
    proof (cases rule: preparesE)
      case (1 err p pb)
      show ?thesis unfolding g bind_rec_lift by (rule preparesI [OF lift [OF 1(3)]]) (auto simp: 1)
    next
      case (2 x q pb)
      then obtain y where "f g x = ok_conv y" "whole y = hs g @ eb x" using last [OF g] by blast
      then show ?thesis unfolding g bind_rec_lift by (intro preparesI [OF lift [OF 2(2)]]) (auto simp: 2 mat')
    qed
  qed
qed (use grid in simp)

lemma records_fail:
  assumes "records B absorbed digest argument m (err_conv err) bytes"
  shows "records B absorbed digest argument (bind_rec m f) (err_conv err) bytes'"
  using records_bind [OF assms, of f "\<lambda>_. err_conv err" "\<lambda>_ _. []" bytes'] by simp

lemma prepares_fail:
  assumes "records B absorbed digest argument m (err_conv err) bytes'" "result = err_conv err"
  shows "prepares B absorbed digest argument m materialize result bytes"
  by (rule preparesI [OF assms(1)]) (auto simp: assms(2))

lemma prepares_err [simp]:
  "prepares B absorbed digest argument (lift_conv (err_conv err)) materialize (err_conv err) bytes"
  by (rule prepares_fail [OF records_lift [where bytes = "\<lambda>_. []"]]) auto

lemma prepares_after:
  assumes m: "records B absorbed digest argument m (ok_conv q) mb"
    and k: "prepares B absorbed digest argument (k q) mat result bytes"
    and mat: "\<And>p x. mat p = ok_conv x \<Longrightarrow> mat' p = ok_conv (f x)"
    and whole: "\<And>x. whole (f x) = mb q @ bytes x"
  shows "prepares B absorbed digest argument (bind_rec m k) mat' (bind_conv result (\<lambda>x. ok_conv (f x))) whole"
  using k
proof (cases rule: preparesE)
  case (1 err p pb)
  have "records B absorbed digest argument (bind_rec m k) (bind_conv (ok_conv q) (\<lambda>_. err_conv err)) (\<lambda>_. [])"
    by (rule records_bind [OF m, where bytes' = "\<lambda>_. pb"]) (use 1 in auto)
  then show ?thesis by (intro prepares_fail) (auto simp: 1)
next
  case (2 x p pb)
  have "records B absorbed digest argument (bind_rec m k) (bind_conv (ok_conv q) (\<lambda>_. ok_conv p)) (\<lambda>y. mb q @ pb y)"
    by (rule records_bind [OF m, where bytes' = "\<lambda>_. pb"]) (use 2 in auto)
  then show ?thesis by (rule preparesI) (auto simp: 2 mat whole)
qed

lemma prepare_each_prepares:
  assumes "\<And>cell. cell \<in> set cs \<Longrightarrow> validated cell \<Longrightarrow>
    prepares B absorbed digest argument (prep cell) mat (convert cell) bytes"
  shows "prepares B absorbed digest argument (prepare_each t b prep cs) (\<lambda>_. materialize_cells convert cs)
    (convert_cells t b convert cs) (\<lambda>xs. concat (map bytes xs))"
  using assms
proof (induction cs arbitrary: b)
  case Nil
  have "records B absorbed digest argument (lift_conv (ok_conv ())) (ok_conv ()) (\<lambda>_. [])" by (rule records_lift) auto
  then show ?case by (intro preparesI) auto
next
  case (Cons cell cs)
  show ?case
  proof (cases "array_cell cell")
    case (Inl err)
    then show ?thesis by simp
  next
    case (Inr element)
    then have cell: "validated cell" "element = cell" by (simp_all add: array_cell_Inr)
    show ?thesis
    proof (cases "budget_include t b cell")
      case Aborts
      then show ?thesis using budget_include_returns [OF cell(1)] by simp
    next
      case (Returns r)
      show ?thesis
      proof (cases r)
        case (Inl err)
        then show ?thesis using Returns Inr cell by simp
      next
        case (Inr b')
        have rest: "prepares B absorbed digest argument (prepare_each t b' prep cs) (\<lambda>_. materialize_cells convert cs)
            (convert_cells t b' convert cs) (\<lambda>xs. concat (map bytes xs))" using Cons by auto
        have "prepares B absorbed digest argument (bind_rec (prep cell) (\<lambda>_. prepare_each t b' prep cs))
            (\<lambda>_. materialize_cells convert (cell # cs))
            (bind_conv (convert cell) (\<lambda>x. bind_conv (convert_cells t b' convert cs) (\<lambda>xs. ok_conv (x # xs))))
            (\<lambda>xs. concat (map bytes xs))"
          using Cons.prems [of cell, OF _ cell(1), simplified]
        proof (cases rule: preparesE)
          case (1 err p pb)
          then show ?thesis using records_fail [OF 1(3) [unfolded 1(2)]] by (intro prepares_fail) auto
        next
          case (2 x q pb)
          show ?thesis unfolding 2(1) bind_conv_simps
            by (rule prepares_after [OF 2(2) rest]) (auto simp: 2 \<open>array_cell cell = Inr element\<close> cell(2))
        qed
        then show ?thesis using Returns Inr \<open>array_cell cell = Inr element\<close> cell(2) by simp
      qed
    qed
  qed
qed

lemma prepares_map:
  assumes m: "prepares B absorbed digest argument m mat result bytes"
    and mat: "\<And>q x. mat q = ok_conv x \<Longrightarrow> mat' (h q) = ok_conv x"
  shows "prepares B absorbed digest argument (bind_rec m (\<lambda>q. lift_conv (ok_conv (h q)))) mat' result bytes"
  using m
proof (cases rule: preparesE)
  case (1 err p pb)
  then show ?thesis using records_fail [OF 1(3) [unfolded 1(2)]] by (intro prepares_fail) auto
next
  case (2 x q pb)
  have "records B absorbed digest argument (bind_rec m (\<lambda>q. lift_conv (ok_conv (h q)))) (bind_conv (ok_conv q) (\<lambda>q. ok_conv (h q)))
      (\<lambda>_. pb q)"
    by (rule records_then [OF 2(2)]) auto
  then show ?thesis by (rule preparesI) (auto simp: 2 mat)
qed

lemma prepare_borrowed_prepares:
  assumes "\<And>cell. cell \<in> set (grid_cells grid) \<Longrightarrow> validated cell \<Longrightarrow>
    prepares B absorbed digest argument (prepare cell argument) mat (convert cell argument) bytes"
  shows "prepares B absorbed digest argument (prepare_borrowed t sz prepare grid argument) (materialize_elements convert)
    (convert_owned_grid_elements t sz grid argument (\<lambda>cell. convert cell argument)) (\<lambda>xs. concat (map bytes xs))"
proof (cases "array_budget_new t sz (length (grid_cells grid)) argument")
  case (Inl err)
  then show ?thesis by (simp add: prepare_borrowed_def convert_owned_grid_elements_def)
next
  case (Inr b)
  have "prepares B absorbed digest argument (prepare_each t b (\<lambda>cell. prepare cell argument) (grid_cells grid))
      (\<lambda>_. materialize_cells (\<lambda>cell. convert cell argument) (grid_cells grid))
      (convert_cells t b (\<lambda>cell. convert cell argument) (grid_cells grid)) (\<lambda>xs. concat (map bytes xs))"
    by (rule prepare_each_prepares [OF assms])
  from prepares_map [OF this, of "materialize_elements convert" "\<lambda>_. (grid, argument)"] Inr show ?thesis
    by (simp add: prepare_borrowed_def convert_owned_grid_elements_def materialize_elements_def)
qed

lemma f64_results_spec:
  "\<exists>rs. f64_results t b argument cs = Returns rs \<and> (case split_results rs of
     (xs, None) \<Rightarrow> convert_cells t b (\<lambda>cell. f64_from_excel cell argument) cs = ok_conv xs
   | (xs, Some err) \<Rightarrow> convert_cells t b (\<lambda>cell. f64_from_excel cell argument) cs = err_conv err)"
proof (induction cs arbitrary: b)
  case (Cons cell cs)
  show ?case
  proof (cases "f64_result t b argument cell")
    case Aborts
    then have False
      using budget_include_returns [of cell t b] scalar_returns(1) [of cell argument]
      by (cases "array_cell cell") (auto simp: f64_result_def array_cell_Inr)
    then show ?thesis ..
  next
    case (Returns r)
    show ?thesis
    proof (cases r)
      case (Inl err)
      then show ?thesis using Returns by (auto simp: f64_result_def)
    next
      case (Inr p)
      then obtain b' x where p: "f64_result t b argument cell = ok_conv (b', x)" using Returns by (cases p) auto
      from Cons.IH [of b'] obtain rs where rs: "f64_results t b' argument cs = Returns rs"
          "case split_results rs of
             (xs, None) \<Rightarrow> convert_cells t b' (\<lambda>cell. f64_from_excel cell argument) cs = ok_conv xs
           | (xs, Some err) \<Rightarrow> convert_cells t b' (\<lambda>cell. f64_from_excel cell argument) cs = err_conv err"
        by (elim exE conjE) (erule (1) that)
      have step: "convert_cells t b (\<lambda>cell. f64_from_excel cell argument) (cell # cs) =
          bind_conv (convert_cells t b' (\<lambda>cell. f64_from_excel cell argument) cs) (\<lambda>xs. ok_conv (x # xs))"
      proof -
        obtain element where "array_cell cell = Inr element" "budget_include t b element = ok_conv b'"
          "f64_from_excel element argument = ok_conv x" using p by (auto simp: f64_result_def)
        then show ?thesis by simp
      qed
      obtain xs m where split: "split_results rs = (xs, m)" by (cases "split_results rs")
      show ?thesis using p rs split unfolding step by (cases m) auto
    qed
  qed
qed simp

lemma materialize_converted:
  "convert_cells t b convert cs = ok_conv xs \<Longrightarrow> materialize_cells convert cs = ok_conv xs"
  by (induction cs arbitrary: b xs) auto

lemma borrowed_f64_prepares:
  "prepares B absorbed digest argument (borrowed_f64 B t grid argument) (materialize_elements f64_from_excel)
    (convert_owned_grid_elements t 8 grid argument (\<lambda>cell. f64_from_excel cell argument))
    (\<lambda>xs. concat (map (to_le_bytes 8) xs))"
proof (cases "array_budget_new t 8 (length (grid_cells grid)) argument")
  case (Inl err)
  then show ?thesis by (simp add: borrowed_f64_def convert_owned_grid_elements_def)
next
  case (Inr b)
  obtain rs where rs: "f64_results t b argument (grid_cells grid) = Returns rs" "case split_results rs of
      (xs, None) \<Rightarrow> convert_cells t b (\<lambda>cell. f64_from_excel cell argument) (grid_cells grid) = ok_conv xs
    | (xs, Some err) \<Rightarrow> convert_cells t b (\<lambda>cell. f64_from_excel cell argument) (grid_cells grid) = err_conv err"
    using f64_results_spec [of t b argument "grid_cells grid"] by (elim exE conjE) (erule (1) that)
  have "prepares B absorbed digest argument (f64_sequence B rs)
      (\<lambda>_. materialize_cells (\<lambda>cell. f64_from_excel cell argument) (grid_cells grid))
      (convert_cells t b (\<lambda>cell. f64_from_excel cell argument) (grid_cells grid)) (\<lambda>xs. concat (map (to_le_bytes 8) xs))"
    by (rule preparesI [OF records_f64_sequence])
      (use rs(2) materialize_converted in \<open>auto simp: numbers_bytes_def split: prod.splits option.splits\<close>)
  from prepares_map [OF this, of "materialize_elements f64_from_excel" "\<lambda>_. (grid, argument)"] Inr rs(1) show ?thesis
    by (simp add: borrowed_f64_def convert_owned_grid_elements_def materialize_elements_def)
qed

lemma string_prepares:
  assumes "validated v" "cell_typed v"
  shows "prepares B absorbed digest argument (string_prepare B v argument) string_materialize
    (string_from_excel v argument) string_bytes"
proof (cases "utf16_units v argument")
  case Aborts
  then show ?thesis using utf16_units_returns [OF assms(1)] by simp
next
  case (Returns r)
  show ?thesis
  proof (cases r)
    case (Inl err)
    then show ?thesis using Returns by (simp add: string_prepare_def string_from_excel_def)
  next
    case (Inr us)
    then have us: "units_ok us" using utf16_units_typed [OF assms(2)] Returns by simp
    have "prepares B absorbed digest argument (semantic_utf16 B us) (\<lambda>_. decode_owned us argument)
        (decode_owned us argument) string_bytes"
      by (rule preparesI [OF records_semantic_utf16 [OF us]])
        (auto simp: decode_owned_eq [OF us] decoded_def split: option.splits)
    from prepares_map [OF this, of string_materialize "\<lambda>_. (us, argument)"] show ?thesis
      using Returns Inr by (simp add: string_prepare_def string_from_excel_def string_materialize_def)
  qed
qed

subsection \<open>Prepared collections\<close>

lemma prepare_matrix_prepares:
  assumes "validated v" "\<And>grid. shaped_grid t MatrixShape v argument = ok_conv grid \<Longrightarrow>
    prepares B absorbed digest argument (prepare_elements grid argument) (materialize_elements from)
      (convert_owned_grid_elements t sz grid argument (\<lambda>cell. from cell argument)) (\<lambda>xs. concat (map bytes xs))"
  shows "prepares B absorbed digest argument (prepare_matrix B t prepare_elements v argument) (materialize_matrix t from)
    (convert_matrix t sz v argument from) (matrix_identity bytes)"
  unfolding prepare_matrix_def convert_matrix_def case_prod_unfold Let_def
proof (rule prepares_grid [OF shaped_grid_returns [OF assms(1)] appends_dimensions assms(2)])
  fix g xs
  assume g: "shaped_grid t MatrixShape v argument = ok_conv g"
    and "convert_owned_grid_elements t sz g argument (\<lambda>cell. from cell argument) = ok_conv xs"
  then have "length xs = length (grid_cells g)" using converted_length by blast
  moreover have "dimensions_ok t (fst (grid_shape g)) (snd (grid_shape g))"
    "length (grid_cells g) = fst (grid_shape g) * snd (grid_shape g)"
    using shaped_grid_ok [OF g, of "fst (grid_shape g)" "snd (grid_shape g)"] by simp_all
  ultimately have "matrix_new t (fst (grid_shape g)) (snd (grid_shape g)) xs =
      Inr \<lparr>m_rows = fst (grid_shape g), m_columns = snd (grid_shape g), m_data = xs\<rparr>"
    by (simp add: matrix_new_Inr)
  then show "\<exists>y. Returns (matrix_new t (fst (grid_shape g)) (snd (grid_shape g)) xs) = ok_conv y \<and>
      matrix_identity bytes y = (to_le_bytes 8 (of_nat (fst (grid_shape g)) :: u64) @
        to_le_bytes 8 (of_nat (snd (grid_shape g)) :: u64)) @ concat (map bytes xs)"
    by (simp add: matrix_identity_def)
qed (simp_all add: materialize_matrix_def)

lemma prepare_sequence_prepares:
  assumes "grid \<noteq> Aborts" "\<And>g. grid = ok_conv g \<Longrightarrow>
    prepares B absorbed digest argument (prepare_elements g argument) (materialize_elements from)
      (convert_owned_grid_elements t sz g argument (\<lambda>cell. from cell argument)) (\<lambda>xs. concat (map bytes xs))"
    and "\<And>g xs. grid = ok_conv g \<Longrightarrow> length xs = length (grid_cells g) \<Longrightarrow> \<exists>y. f xs = ok_conv y \<and> contents y = xs"
    and "\<And>r c q. mat (r, c, argument, q) = bind_conv (materialize_elements from q) f"
  shows "prepares B absorbed digest argument (prepare_sequence B grid prepare_elements argument) mat
    (bind_conv grid (\<lambda>g. bind_conv (convert_owned_grid_elements t sz g argument (\<lambda>cell. from cell argument)) f))
    (\<lambda>y. sequence_identity bytes (contents y))"
  unfolding prepare_sequence_def
proof (rule prepares_grid [OF assms(1) appends_length assms(2)])
  fix g xs
  assume g: "grid = ok_conv g" and "convert_owned_grid_elements t sz g argument (\<lambda>cell. from cell argument) = ok_conv xs"
  then have "length xs = length (grid_cells g)" using converted_length by blast
  then show "\<exists>y. f xs = ok_conv y \<and> sequence_identity bytes (contents y) =
      to_le_bytes 8 (of_nat (length (grid_cells g)) :: u64) @ concat (map bytes xs)"
    using assms(3) [OF g] by (force simp: sequence_identity_def)
qed (simp_all add: assms(4))

lemma bind_conv_right [simp]: "bind_conv m ok_conv = m"
  by (cases m) (auto simp: bind_conv_def split: sum.splits)

lemma prepare_vector_from:
  assumes "validated v" "\<And>g. shaped_grid t VectorShape v argument = ok_conv g \<Longrightarrow>
    prepares B absorbed digest argument (prepare_elements g argument) (materialize_elements from)
      (convert_owned_grid_elements t sz g argument (\<lambda>cell. from cell argument)) (\<lambda>xs. concat (map bytes xs))"
  shows "prepares B absorbed digest argument (prepare_vector B t prepare_elements v argument)
    (materialize_vector from) (convert_vector t sz v argument from) (sequence_identity bytes)"
proof -
  have "prepares B absorbed digest argument (prepare_vector B t prepare_elements v argument) (materialize_vector from)
      (bind_conv (shaped_grid t VectorShape v argument)
        (\<lambda>g. bind_conv (convert_owned_grid_elements t sz g argument (\<lambda>cell. from cell argument)) ok_conv))
      (\<lambda>xs. sequence_identity bytes xs)"
    unfolding prepare_vector_def
  proof (rule prepare_sequence_prepares)
    show "shaped_grid t VectorShape v argument \<noteq> Aborts" by (rule shaped_grid_returns [OF assms(1)])
  qed (simp_all add: materialize_vector_def assms(2))
  then show ?thesis by (simp add: convert_vector_def)
qed

context element_input
begin

lemma prepare_elements:
  assumes "list_all cell_typed (grid_cells grid)"
  shows "prepares B absorbed digest argument
    (prepare_borrowed t sz (default_with_identity from_excel (encode B)) grid argument) (materialize_elements from_excel)
    (convert_owned_grid_elements t sz grid argument (\<lambda>cell. from_excel cell argument)) (\<lambda>xs. concat (map identity xs))"
  using assms
  by (intro prepare_borrowed_prepares [where mat = ok_conv] records_prepares default_records from_returns)
    (auto simp: list_all_iff)

lemma prepare_vector_prepares:
  assumes "validated v" "value_typed v"
  shows "prepares B absorbed digest argument
    (prepare_vector B t (prepare_borrowed t sz (default_with_identity from_excel (encode B))) v argument)
    (materialize_vector from_excel) (convert_vector t sz v argument from_excel) (sequence_identity identity)"
  by (rule prepare_vector_from [OF assms(1)], rule prepare_elements [OF grid_typed [OF assms(2)]])

lemma prepare_row_prepares:
  assumes "validated v" "value_typed v"
  shows "prepares B absorbed digest argument
    (prepare_row B t (prepare_borrowed t sz (default_with_identity from_excel (encode B))) v argument)
    (materialize_row t from_excel) (convert_row t sz v argument from_excel) (\<lambda>r. sequence_identity identity (row_data r))"
  unfolding prepare_row_def convert_row_def
proof (rule prepare_sequence_prepares)
  show "shaped_grid t RowShape v argument \<noteq> Aborts" by (rule shaped_grid_returns [OF assms(1)])
next
  fix g
  assume "shaped_grid t RowShape v argument = ok_conv g"
  then show "prepares B absorbed digest argument
      (prepare_borrowed t sz (default_with_identity from_excel (encode B)) g argument) (materialize_elements from_excel)
      (convert_owned_grid_elements t sz g argument (\<lambda>cell. from_excel cell argument)) (\<lambda>xs. concat (map identity xs))"
    by (rule prepare_elements [OF grid_typed [OF assms(2)]])
next
  fix g and xs :: "'a list"
  assume g: "shaped_grid t RowShape v argument = ok_conv g" and len: "length xs = length (grid_cells g)"
  obtain r c where rc: "grid_shape g = (r, c)" by (cases "grid_shape g")
  from shaped_grid_ok [OF g rc] have "dimensions_ok t 1 (length xs)" by (simp add: len split: if_splits)
  then show "\<exists>y. Returns (row_new t xs) = ok_conv y \<and> row_data y = xs" by (simp add: row_new_def matrix_new_def
      validate_matrix_dimensions_def validate_matrix_dimensions_for_argument_def matrix_element_count_Inr)
qed (simp_all add: materialize_row_def)

lemma prepare_column_prepares:
  assumes "validated v" "value_typed v"
  shows "prepares B absorbed digest argument
    (prepare_column B t (prepare_borrowed t sz (default_with_identity from_excel (encode B))) v argument)
    (materialize_column t from_excel) (convert_column t sz v argument from_excel)
    (\<lambda>c. sequence_identity identity (column_data c))"
  unfolding prepare_column_def convert_column_def
proof (rule prepare_sequence_prepares)
  show "shaped_grid t ColumnShape v argument \<noteq> Aborts" by (rule shaped_grid_returns [OF assms(1)])
next
  fix g
  assume "shaped_grid t ColumnShape v argument = ok_conv g"
  then show "prepares B absorbed digest argument
      (prepare_borrowed t sz (default_with_identity from_excel (encode B)) g argument) (materialize_elements from_excel)
      (convert_owned_grid_elements t sz g argument (\<lambda>cell. from_excel cell argument)) (\<lambda>xs. concat (map identity xs))"
    by (rule prepare_elements [OF grid_typed [OF assms(2)]])
next
  fix g and xs :: "'a list"
  assume g: "shaped_grid t ColumnShape v argument = ok_conv g" and len: "length xs = length (grid_cells g)"
  obtain r c where rc: "grid_shape g = (r, c)" by (cases "grid_shape g")
  from shaped_grid_ok [OF g rc] have "dimensions_ok t (length xs) 1" by (simp add: len split: if_splits)
  then show "\<exists>y. Returns (column_new t xs) = ok_conv y \<and> column_data y = xs" by (simp add: column_new_def matrix_new_def
      validate_matrix_dimensions_def validate_matrix_dimensions_for_argument_def matrix_element_count_Inr)
qed (simp_all add: materialize_column_def)

lemma prepare_varargs_prepares:
  assumes "validated v" "value_typed v"
  shows "prepares B absorbed digest argument
    (prepare_varargs B t maximum (prepare_borrowed t sz (default_with_identity from_excel (encode B))) v argument)
    (materialize_varargs maximum from_excel) (convert_bounded_var_args t sz maximum v argument from_excel)
    (\<lambda>xs. sequence_identity identity (varargs_data xs))"
proof -
  have "prepares B absorbed digest argument
      (prepare_varargs B t maximum (prepare_borrowed t sz (default_with_identity from_excel (encode B))) v argument)
      (materialize_varargs maximum from_excel)
      (bind_conv (bounded_grid t maximum v argument) (\<lambda>g.
        bind_conv (convert_owned_grid_elements t sz g argument (\<lambda>cell. from_excel cell argument))
          (varargs_for_argument maximum argument)))
      (\<lambda>xs. sequence_identity identity (varargs_data xs))"
    unfolding prepare_varargs_def
  proof (rule prepare_sequence_prepares)
    show "bounded_grid t maximum v argument \<noteq> Aborts" by (rule bounded_grid_returns [OF assms(1)])
  next
    fix g
    assume "bounded_grid t maximum v argument = ok_conv g"
    then show "prepares B absorbed digest argument
        (prepare_borrowed t sz (default_with_identity from_excel (encode B)) g argument) (materialize_elements from_excel)
        (convert_owned_grid_elements t sz g argument (\<lambda>cell. from_excel cell argument)) (\<lambda>xs. concat (map identity xs))"
      by (intro prepare_elements grid_typed [OF assms(2)]) (rule bounded_grid_ok [THEN conjunct1])
  next
    fix g and xs :: "'a list"
    assume "bounded_grid t maximum v argument = ok_conv g" "length xs = length (grid_cells g)"
    then show "\<exists>y. varargs_for_argument maximum argument xs = ok_conv y \<and> varargs_data y = xs"
      by (auto dest!: bounded_grid_ok simp: varargs_within)
  qed (simp_all add: materialize_varargs_def)
  then show ?thesis by (simp only: varargs_conversion)
qed

end

interpretation f64_element: element_input f64_from_excel f64_encode "to_le_bytes 8" "\<lambda>_. True" by unfold_locales
interpretation string_element: element_input string_from_excel string_encode string_bytes text_ok by unfold_locales
interpretation cell_element: element_input cell_from_excel cell_encode cell_identity cell_ok by unfold_locales

lemma prepares_observed:
  assumes inc: "incremental B absorbed digest" and h: "absorbed h p"
    and prep: "prepares B absorbed digest argument m mat result bytes"
    and dec: "records B absorbed digest argument m' result bytes"
  shows "bind_conv (argument_outcome B argument m h) (\<lambda>(q, d). map_conv (\<lambda>x. (x, d)) (mat q)) =
      argument_outcome B argument m' h"
    "argument_outcome B argument m h = ok_conv (q, d) \<Longrightarrow> \<exists>x. mat q = ok_conv x"
proof -
  note outcome = argument_outcome_records [OF inc h]
  have "bind_conv (argument_outcome B argument m h) (\<lambda>(q, d). map_conv (\<lambda>x. (x, d)) (mat q)) =
      argument_outcome B argument m' h \<and>
    (argument_outcome B argument m h = ok_conv (q, d) \<longrightarrow> (\<exists>x. mat q = ok_conv x))"
    using prep
  proof (cases rule: preparesE)
    case (1 err r pb)
    then show ?thesis using outcome [OF 1(3)] outcome [OF dec] by simp
  next
    case (2 x q' pb)
    then show ?thesis using outcome [OF 2(2)] outcome [OF dec] by (auto simp: map_conv_def)
  qed
  then show "bind_conv (argument_outcome B argument m h) (\<lambda>(q, d). map_conv (\<lambda>x. (x, d)) (mat q)) =
      argument_outcome B argument m' h"
    "argument_outcome B argument m h = ok_conv (q, d) \<Longrightarrow> \<exists>x. mat q = ok_conv x" by simp_all
qed

section \<open>What prepared arguments promise\<close>

text \<open>
  C31. Preparing first and materialising later is decoding. For a matrix of numbers, which is
  recorded in bulk, and for a vector of strings, which is recorded from the UTF-16 units
  without decoding them, preparation followed by materialisation gives the value, the error and
  the identity that decoding gives; and once preparation has succeeded, materialisation
  cannot fail, so a cache hit that skips it hides no error.
\<close>

theorem prepared_collections_materialize:
  assumes "incremental B absorbed digest" "absorbed h p" "validated v" "value_typed v"
  shows "bind_conv (argument_outcome B argument (prepare_matrix B t (borrowed_f64 B t) v argument) h)
        (\<lambda>(q, d). map_conv (\<lambda>x. (x, d)) (materialize_matrix t f64_from_excel q))
      = argument_outcome B argument (decode_matrix B t 8 (default_with_identity f64_from_excel (f64_encode B)) v argument) h \<and>
    (\<forall>q d. argument_outcome B argument (prepare_matrix B t (borrowed_f64 B t) v argument) h = ok_conv (q, d) \<longrightarrow>
      (\<exists>m. materialize_matrix t f64_from_excel q = ok_conv m)) \<and>
    bind_conv (argument_outcome B argument (prepare_vector B t (prepare_borrowed t sz (string_prepare B)) v argument) h)
        (\<lambda>(q, d). map_conv (\<lambda>x. (x, d)) (materialize_vector string_from_excel q))
      = argument_outcome B argument
          (decode_vector B t sz (default_with_identity string_from_excel (string_encode B)) v argument) h \<and>
    (\<forall>q d. argument_outcome B argument (prepare_vector B t (prepare_borrowed t sz (string_prepare B)) v argument) h
        = ok_conv (q, d) \<longrightarrow> (\<exists>xs. materialize_vector string_from_excel q = ok_conv xs))"
proof -
  have numbers: "prepares B absorbed digest argument (prepare_matrix B t (borrowed_f64 B t) v argument)
      (materialize_matrix t f64_from_excel) (convert_matrix t 8 v argument f64_from_excel) (matrix_identity (to_le_bytes 8))"
    by (rule prepare_matrix_prepares [OF assms(3)]) (rule borrowed_f64_prepares)
  have texts: "prepares B absorbed digest argument (prepare_vector B t (prepare_borrowed t sz (string_prepare B)) v argument)
      (materialize_vector string_from_excel) (convert_vector t sz v argument string_from_excel) (sequence_identity string_bytes)"
    by (rule prepare_vector_from [OF assms(3)], rule prepare_borrowed_prepares, rule string_prepares)
      (use grid_typed [OF assms(4)] in \<open>auto simp: list_all_iff\<close>)
  note observed = prepares_observed [OF assms(1,2)]
  show ?thesis
    using observed [OF numbers f64_element.matrix_records [OF assms(3,4)]]
      observed [OF texts string_element.vector_records [OF assms(3,4)]] by blast
qed

lemma prepared_collections_materialize_witness:
  "bind_conv (argument_outcome concat_hash ''x''
      (prepare_matrix concat_hash Width64 (borrowed_f64 concat_hash Width64) sample_column ''x'') [])
     (\<lambda>(q, d). map_conv (\<lambda>x. (x, d)) (materialize_matrix Width64 f64_from_excel q))
   = argument_outcome concat_hash ''x''
       (decode_matrix concat_hash Width64 8 (default_with_identity f64_from_excel (f64_encode concat_hash)) sample_column ''x'') [] \<and>
   bind_conv (argument_outcome concat_hash ''x''
      (prepare_vector concat_hash Width64 (prepare_borrowed Width64 24 (string_prepare concat_hash)) sample_column ''x'') [])
     (\<lambda>(q, d). map_conv (\<lambda>x. (x, d)) (materialize_vector string_from_excel q))
   = argument_outcome concat_hash ''x''
       (decode_vector concat_hash Width64 24 (default_with_identity string_from_excel (string_encode concat_hash)) sample_column ''x'') []"
  using prepared_collections_materialize
    [OF concat_hash_incremental refl sample_types(4) sample_typed(2), of "''x''" Width64 "[]" 24] by blast

end
