(* ===== verification/Call_Arguments.thy ===== *)
theory Call_Arguments
  imports Excel_Parameter
begin

text \<open>
  The arguments of one formula call (\<open>ArgumentContext\<close> of \<open>crates/xlfn/src/value/input.rs\<close> with
  \<open>FormulaInputMode\<close>). A parameter type and the values it yields form a closed universe here: the
  element types of \<open>Excel_Input\<close>, the collections and optional forms over them, the dynamic value,
  and the arguments Excel passes natively. The sizes of the element types are an argument.
\<close>

section \<open>Definitions\<close>

subsection \<open>Element and parameter types\<close>









subsection \<open>Native arguments\<close>







subsection \<open>The arguments of a call\<close>





section \<open>Properties\<close>

subsection \<open>Identities\<close>









subsection \<open>Parameters\<close>








subsection \<open>Arguments\<close>










subsection \<open>Calls\<close>









end
