(* ===== verification/Registration_Schema.thy ===== *)
theory Registration_Schema
  imports Excel_Input Xlfn_Common
begin

text \<open>
  The registration schema (\<open>crates/xlfn/src/registration/schema.rs\<close>) and its preflight
  (\<open>crates/xlfn/src/registration/preflight.rs\<close>): signatures, their validation and the type text
  Excel reads, and the validation and preparation of a list of descriptors before any call
  into Excel. Texts are lists of characters; \<open>umax\<close> is the largest \<open>usize\<close>.
\<close>

section \<open>Signatures\<close>

definition MAX_REGISTER_ARGUMENT_HELP_ENTRIES :: nat where "MAX_REGISTER_ARGUMENT_HELP_ENTRIES = 244"

definition REGISTRY :: nat where "REGISTRY = from_ascii8 ''REGISTRY''"
definition REGISTRATION_SIGNATURE :: nat where "REGISTRATION_SIGNATURE = from_ascii8 ''REGSIGNA''"
definition STRING_LENGTH :: nat where "STRING_LENGTH = from_ascii8 ''STRINGLE''"

record ArgumentDescriptor =
  arg_name :: ustr
  arg_description :: ustr

record RegistrationSignature =
  execution :: ExecutionKind
  sig_arguments :: "ArgumentAbi list"
  return_abi :: ReturnAbi
  volatile :: bool

definition validate_signature :: "RegistrationSignature \<Rightarrow> unit XllResult" where
  "validate_signature g =
     (if length (sig_arguments g) > max_excel_function_arguments (execution g)
         \<or> (Reference12 \<in> set (sig_arguments g) \<and> \<not> allows_reference_arguments (execution g))
         \<or> (NumericArray12 \<in> set (sig_arguments g) \<and> is_async (execution g))
         \<or> (return_abi g = ReturnNumericArray12 \<and> is_async (execution g))
      then Inl (Internal REGISTRATION_SIGNATURE) else Inr ())"

definition encode_signature :: "RegistrationSignature \<Rightarrow> string" where
  "encode_signature g =
     (if is_async (execution g) then ''>'' else return_registration_code (return_abi g)) @
     concat (map registration_code (sig_arguments g)) @
     (if is_async (execution g) then ''X'' else []) @
     (if execution g = MacroSheet then ''#'' else []) @
     (if is_thread_safe (execution g) then ''$'' else []) @
     (if volatile g then ''!'' else [])"

record RegistrationDescriptor =
  descriptor_export_name :: ustr
  descriptor_excel_name :: ustr
  descriptor_signature :: RegistrationSignature
  descriptor_category :: ustr
  descriptor_description :: ustr
  descriptor_help_topic :: ustr
  descriptor_visibility :: FunctionVisibility
  descriptor_arguments :: "ArgumentDescriptor list"

definition ExcelNameKey :: "ustr \<Rightarrow> ustr" where
  "ExcelNameKey name = map to_ascii_uppercase name"

section \<open>Preflight\<close>

text \<open>The loop of \<open>validate_descriptors\<close>; the two sets hold the keys seen so far.\<close>

fun validate_descriptors ::
    "nat \<Rightarrow> ustr list \<Rightarrow> ustr list \<Rightarrow> RegistrationDescriptor list \<Rightarrow> RegistrationSignature list conversion" where
  "validate_descriptors umax exports excel_names [] = ok_conv []"
| "validate_descriptors umax exports excel_names (d # ds) =
     bind_run (validate_function_name (descriptor_excel_name d)) (\<lambda>function_name.
       let export_key = ExcelNameKey (descriptor_export_name d); name_key = ExcelNameKey (descriptor_excel_name d) in
       if descriptor_export_name d = [] \<or> function_name \<noteq> Inr ()
          \<or> length (descriptor_arguments d) > max_excel_function_arguments (execution (descriptor_signature d))
          \<or> validate_argument_names umax (map arg_name (descriptor_arguments d)) \<noteq> Inr ()
          \<or> export_key \<in> set exports \<or> name_key \<in> set excel_names
          \<or> length (sig_arguments (descriptor_signature d)) \<noteq> length (descriptor_arguments d)
       then err_conv (Internal REGISTRY)
       else (case validate_signature (descriptor_signature d) of
           Inl _ \<Rightarrow> err_conv (Internal REGISTRY)
         | Inr _ \<Rightarrow> bind_conv (validate_descriptors umax (export_key # exports) (name_key # excel_names) ds)
             (\<lambda>signatures. ok_conv (descriptor_signature d # signatures))))"

record PreparedRegistration =
  descriptor_index :: nat
  export_name :: ustr
  excel_name :: ustr
  signature :: RegistrationSignature
  visibility :: FunctionVisibility
  export_name_text :: ustr
  excel_name_text :: ustr
  category_text :: ustr
  help_topic_text :: ustr
  description_text :: ustr
  argument_names :: ustr
  type_text :: ustr
  argument_help :: "ustr list"

definition check_excel_string :: "ustr \<Rightarrow> unit XllResult" where
  "check_excel_string s = (case validate_excel_string s of
     Inl _ \<Rightarrow> Inl (Internal STRING_LENGTH) | Inr _ \<Rightarrow> Inr ())"

fun check_excel_strings :: "ustr list \<Rightarrow> unit XllResult" where
  "check_excel_strings [] = Inr ()"
| "check_excel_strings (s # ss) = (case check_excel_string s of Inl e \<Rightarrow> Inl e | Inr _ \<Rightarrow> check_excel_strings ss)"

definition argument_names_text :: "ArgumentDescriptor list \<Rightarrow> ustr" where
  "argument_names_text args = (case args of
       [] \<Rightarrow> []
     | [argument] \<Rightarrow> arg_name argument
     | _ \<Rightarrow> foldl (\<lambda>names (index, argument).
         (if index \<noteq> 0 then names @ [0x2C] else names) @ arg_name argument) [] (enumerate 0 args))"

definition argument_help_texts :: "ArgumentDescriptor list \<Rightarrow> ustr list" where
  "argument_help_texts args =
     (let help_count = min (length args) MAX_REGISTER_ARGUMENT_HELP_ENTRIES;
          help = map arg_description (take help_count args)
      in if help \<noteq> [] then help @ [[]] else help)"

definition prepare_registration ::
    "nat \<Rightarrow> RegistrationDescriptor \<Rightarrow> RegistrationSignature \<Rightarrow> PreparedRegistration XllResult" where
  "prepare_registration index d g =
     (let names = argument_names_text (descriptor_arguments d); encoded_sig = lit (encode_signature g) in
      case check_excel_strings
        ([descriptor_export_name d, descriptor_excel_name d, descriptor_category d, descriptor_help_topic d,
          descriptor_description d] @
         concat (map (\<lambda>a. [arg_name a, arg_description a]) (descriptor_arguments d)) @ [names, encoded_sig]) of
        Inl e \<Rightarrow> Inl e
      | Inr _ \<Rightarrow> Inr \<lparr> descriptor_index = index, export_name = descriptor_export_name d,
          excel_name = descriptor_excel_name d, signature = g, visibility = descriptor_visibility d,
          export_name_text = descriptor_export_name d, excel_name_text = descriptor_excel_name d,
          category_text = descriptor_category d, help_topic_text = descriptor_help_topic d,
          description_text = descriptor_description d, argument_names = names, type_text = encoded_sig,
          argument_help = argument_help_texts (descriptor_arguments d) \<rparr>)"

fun prepare_registrations ::
    "nat \<Rightarrow> (RegistrationDescriptor \<times> RegistrationSignature) list \<Rightarrow> PreparedRegistration list XllResult" where
  "prepare_registrations index [] = Inr []"
| "prepare_registrations index ((d, g) # rest) = (case prepare_registration index d g of
       Inl e \<Rightarrow> Inl e
     | Inr p \<Rightarrow> (case prepare_registrations (index + 1) rest of Inl e \<Rightarrow> Inl e | Inr ps \<Rightarrow> Inr (p # ps)))"

definition preflight_registration :: "nat \<Rightarrow> RegistrationDescriptor list \<Rightarrow> PreparedRegistration list conversion" where
  "preflight_registration umax ds = bind_conv (validate_descriptors umax [] [] ds)
     (\<lambda>signatures. Returns (prepare_registrations 0 (zip ds signatures)))"

section \<open>Type texts\<close>

text \<open>A reader of type texts: the longest prefix of argument codes and what follows it.\<close>

definition read_more :: "ArgumentAbi \<Rightarrow> ArgumentAbi list \<times> string \<Rightarrow> ArgumentAbi list \<times> string" where
  "read_more a r = (a # fst r, snd r)"

fun read_codes :: "string \<Rightarrow> ArgumentAbi list \<times> string" where
  "read_codes [] = ([], [])"
| "read_codes (c # cs) =
     (if c = CHR ''Q'' then read_more Value12 (read_codes cs)
      else if c = CHR ''U'' then read_more Reference12 (read_codes cs)
      else if c = CHR ''B'' then read_more Float64 (read_codes cs)
      else if c = CHR ''A'' then read_more Boolean16 (read_codes cs)
      else if c = CHR ''J'' then read_more Integer32 (read_codes cs)
      else if c = CHR ''D'' then read_more CountedUtf16 (read_codes (tl cs))
      else if c = CHR ''K'' then read_more NumericArray12 (read_codes (tl cs))
      else ([], c # cs))"

lemma read_codes_concat:
  assumes "read_codes suffix = ([], suffix)"
  shows "read_codes (concat (map registration_code as) @ suffix) = (as, suffix)"
proof (induction as)
  case (Cons a as)
  then show ?case by (cases a) (simp_all add: read_more_def)
qed (simp add: assms)

definition signature_suffix :: "RegistrationSignature \<Rightarrow> string" where
  "signature_suffix g =
     (if is_async (execution g) then ''X'' else []) @
     (if execution g = MacroSheet then ''#'' else []) @
     (if is_thread_safe (execution g) then ''$'' else []) @
     (if volatile g then ''!'' else [])"

lemma read_suffix: "read_codes (signature_suffix g) = ([], signature_suffix g)"
  by (simp add: signature_suffix_def)

lemma suffix_inj:
  "signature_suffix g = signature_suffix h \<Longrightarrow> execution g = execution h \<and> volatile g = volatile h"
  by (cases "execution g"; cases "execution h"; cases "volatile g"; cases "volatile h")
    (simp_all add: signature_suffix_def is_async_def is_thread_safe_def)

text \<open>The leading code, whose reading gives the return ABI as an argument would have it.\<close>

fun as_argument :: "ReturnAbi \<Rightarrow> ArgumentAbi" where
  "as_argument ReturnValue12 = Value12"
| "as_argument ReturnNumericArray12 = NumericArray12"

lemma encode_read:
  "encode_signature g = (if is_async (execution g) then ''>'' @ concat (map registration_code (sig_arguments g))
     else concat (map registration_code (as_argument (return_abi g) # sig_arguments g))) @ signature_suffix g"
  by (cases "return_abi g") (simp_all add: encode_signature_def signature_suffix_def)

lemma encode_signature_inj:
  assumes "validate_signature g = Inr ()" "validate_signature h = Inr ()"
    and eq: "encode_signature g = encode_signature h"
  shows "g = h"
proof -
  have first: "hd (encode_signature k) = CHR ''>'' \<longleftrightarrow> is_async (execution k)" for k
    by (cases "return_abi k") (simp_all add: encode_signature_def)
  have async: "is_async (execution g) = is_async (execution h)" using first [of g] first [of h] eq by simp
  have abi: "is_async (execution k) \<Longrightarrow> validate_signature k = Inr () \<Longrightarrow> return_abi k = ReturnValue12" for k
    by (cases "return_abi k") (auto simp: validate_signature_def split: if_splits)
  have inj: "as_argument a = as_argument b \<Longrightarrow> a = b" for a b by (cases a; cases b) simp_all
  have texts: "concat (map registration_code as) @ signature_suffix g = concat (map registration_code bs) @ signature_suffix h
      \<Longrightarrow> as = bs \<and> signature_suffix g = signature_suffix h" for as bs
    using read_codes_concat [OF read_suffix, of as g] read_codes_concat [OF read_suffix, of bs h] by (metis prod.inject)
  have "sig_arguments g = sig_arguments h \<and> signature_suffix g = signature_suffix h \<and> return_abi g = return_abi h"
  proof (cases "is_async (execution g)")
    case True
    then have "concat (map registration_code (sig_arguments g)) @ signature_suffix g
        = concat (map registration_code (sig_arguments h)) @ signature_suffix h"
      using eq async by (simp add: encode_read)
    from texts [OF this] show ?thesis using abi [of g] abi [of h] True async assms(1,2) by simp
  next
    case False
    then have "concat (map registration_code (as_argument (return_abi g) # sig_arguments g)) @ signature_suffix g
        = concat (map registration_code (as_argument (return_abi h) # sig_arguments h)) @ signature_suffix h"
      using eq async by (simp add: encode_read)
    from texts [OF this] show ?thesis using inj [of "return_abi g" "return_abi h"] by simp
  qed
  then show ?thesis using suffix_inj [of g h] by simp
qed

section \<open>What preflight accepts\<close>

lemma argument_names_text_eq: "argument_names_text args = join_names (map arg_name args)"
proof -
  have loop: "foldl (\<lambda>names (index, argument). (if 0 < index then names @ [0x2C] else names) @ arg_name argument)
      acc (enumerate (Suc n) as) = acc @ concat (map (\<lambda>a. 0x2C # arg_name a) as)" for acc n as
    by (induction as arbitrary: acc n) simp_all
  have join: "join_names (n # ns) = n @ concat (map (\<lambda>m. 0x2C # m) ns)" for n ns
    by (induction ns arbitrary: n) simp_all
  show ?thesis
  proof (cases args)
    case (Cons a as)
    then show ?thesis by (cases as) (simp_all add: argument_names_text_def loop join comp_def)
  qed (simp add: argument_names_text_def)
qed

lemma validate_function_name_returns: "validate_function_name name \<noteq> Aborts"
  by (cases name) (simp_all add: validate_function_name_def is_a1_reference_iff is_r1c1_reference_iff)

lemma validate_descriptors_returns: "validate_descriptors umax exports names ds \<noteq> Aborts"
proof (induction ds arbitrary: exports names)
  case (Cons d ds)
  show ?case
    by (cases "validate_function_name (descriptor_excel_name d)")
      (use Cons validate_function_name_returns [of "descriptor_excel_name d"] in
        \<open>auto simp: Let_def bind_conv_def split: sum.splits\<close>)
qed simp

definition descriptor_ok :: "nat \<Rightarrow> RegistrationDescriptor \<Rightarrow> bool" where
  "descriptor_ok umax d \<longleftrightarrow> descriptor_export_name d \<noteq> [] \<and> validate_function_name (descriptor_excel_name d) = ok_conv () \<and>
     validate_argument_names umax (map arg_name (descriptor_arguments d)) = Inr () \<and>
     length (sig_arguments (descriptor_signature d)) = length (descriptor_arguments d) \<and>
     validate_signature (descriptor_signature d) = Inr ()"

lemma validate_signature_length:
  "validate_signature g = Inr () \<Longrightarrow> length (sig_arguments g) \<le> max_excel_function_arguments (execution g)"
  by (simp add: validate_signature_def split: if_splits)

lemma validate_descriptors_Cons:
  assumes "validate_descriptors umax exports names (d # ds) = ok_conv gs"
  obtains gs' where "descriptor_ok umax d" "gs = descriptor_signature d # gs'"
    "ExcelNameKey (descriptor_export_name d) \<notin> set exports" "ExcelNameKey (descriptor_excel_name d) \<notin> set names"
    "validate_descriptors umax (ExcelNameKey (descriptor_export_name d) # exports)
       (ExcelNameKey (descriptor_excel_name d) # names) ds = ok_conv gs'"
proof -
  obtain v where v: "validate_function_name (descriptor_excel_name d) = Returns v"
    using assms by (cases "validate_function_name (descriptor_excel_name d)") simp_all
  then show ?thesis
    using assms that
    by (cases "validate_signature (descriptor_signature d)";
        cases "validate_descriptors umax (ExcelNameKey (descriptor_export_name d) # exports)
          (ExcelNameKey (descriptor_excel_name d) # names) ds")
      (auto simp: Let_def bind_conv_def descriptor_ok_def split: if_splits sum.splits)
qed

lemma validate_descriptors_ok:
  assumes "validate_descriptors umax exports names ds = ok_conv gs"
  shows "gs = map descriptor_signature ds \<and> list_all (descriptor_ok umax) ds \<and>
    distinct (map (\<lambda>d. ExcelNameKey (descriptor_export_name d)) ds) \<and>
    distinct (map (\<lambda>d. ExcelNameKey (descriptor_excel_name d)) ds) \<and>
    (\<forall>d \<in> set ds. ExcelNameKey (descriptor_export_name d) \<notin> set exports \<and>
      ExcelNameKey (descriptor_excel_name d) \<notin> set names)"
  using assms
proof (induction ds arbitrary: exports names gs)
  case (Cons d ds)
  obtain gs' where "descriptor_ok umax d" "gs = descriptor_signature d # gs'"
    "ExcelNameKey (descriptor_export_name d) \<notin> set exports" "ExcelNameKey (descriptor_excel_name d) \<notin> set names"
    "validate_descriptors umax (ExcelNameKey (descriptor_export_name d) # exports)
       (ExcelNameKey (descriptor_excel_name d) # names) ds = ok_conv gs'"
    by (rule validate_descriptors_Cons [OF Cons.prems])
  with Cons.IH [OF this(5)] show ?case by auto
qed simp

lemma check_excel_strings_ok:
  "check_excel_strings ss = Inr () \<longleftrightarrow>
     (\<forall>s \<in> set ss. length (encode_utf16 s) \<le> EXCEL_STRING_LIMIT \<and> 0 \<notin> set s)"
  by (induction ss) (auto simp: check_excel_string_def validate_excel_string_def not_less split: if_splits sum.splits)

definition texts_of :: "PreparedRegistration \<Rightarrow> ustr list" where
  "texts_of p = [export_name_text p, type_text p, excel_name_text p, argument_names p, category_text p, [],
     help_topic_text p, description_text p] @ argument_help p"

lemma prepare_registration_ok:
  assumes "prepare_registration index d g = Inr p"
  shows "\<forall>t \<in> set (texts_of p). length (encode_utf16 t) \<le> EXCEL_STRING_LIMIT"
    "length (argument_help p) \<le> 245" "excel_name p = descriptor_excel_name d" "excel_name_text p = descriptor_excel_name d"
    "signature p = g" "type_text p = lit (encode_signature g)"
    "argument_names p = join_names (map arg_name (descriptor_arguments d))" "export_name_text p = descriptor_export_name d"
    "descriptor_index p = index"
proof -
  let ?ss = "[descriptor_export_name d, descriptor_excel_name d, descriptor_category d, descriptor_help_topic d,
          descriptor_description d] @ concat (map (\<lambda>a. [arg_name a, arg_description a]) (descriptor_arguments d)) @
          [argument_names_text (descriptor_arguments d), lit (encode_signature g)]"
  have ok: "check_excel_strings ?ss = Inr ()" and p: "p = \<lparr> descriptor_index = index, export_name = descriptor_export_name d,
          excel_name = descriptor_excel_name d, signature = g, visibility = descriptor_visibility d,
          export_name_text = descriptor_export_name d, excel_name_text = descriptor_excel_name d,
          category_text = descriptor_category d, help_topic_text = descriptor_help_topic d,
          description_text = descriptor_description d, argument_names = argument_names_text (descriptor_arguments d),
          type_text = lit (encode_signature g), argument_help = argument_help_texts (descriptor_arguments d) \<rparr>"
    using assms by (auto simp: prepare_registration_def Let_def split: sum.splits)
  have all: "\<forall>t \<in> set ?ss. length (encode_utf16 t) \<le> EXCEL_STRING_LIMIT"
    using ok unfolding check_excel_strings_ok by blast
  have helps: "set (argument_help_texts as) \<subseteq> insert [] (arg_description ` set as)" for as
    using set_take_subset [of _ as] by (auto simp: argument_help_texts_def Let_def)
  show "\<forall>t \<in> set (texts_of p). length (encode_utf16 t) \<le> EXCEL_STRING_LIMIT"
  proof
    fix t assume "t \<in> set (texts_of p)"
    then have "t \<in> set ?ss \<or> t = []" using helps [of "descriptor_arguments d"] by (auto simp: p texts_of_def)
    then show "length (encode_utf16 t) \<le> EXCEL_STRING_LIMIT" using all by (auto simp: encode_utf16_def)
  qed
  show "length (argument_help p) \<le> 245"
    by (simp add: p argument_help_texts_def Let_def MAX_REGISTER_ARGUMENT_HELP_ENTRIES_def)
qed (use assms in \<open>auto simp: prepare_registration_def Let_def argument_names_text_eq split: sum.splits\<close>)

lemma prepare_registrations_ok:
  assumes "prepare_registrations index dgs = Inr ps"
  shows "list_all2 (\<lambda>(d, g) p. \<exists>i. prepare_registration i d g = Inr p) dgs ps"
  using assms
proof (induction index dgs arbitrary: ps rule: prepare_registrations.induct)
  case (2 index d g rest)
  then show ?case
    by (cases "prepare_registration index d g"; cases "prepare_registrations (index + 1) rest") auto
qed simp

end
