(* ===== verification/Registration_Host.thy ===== *)
theory Registration_Host
  imports Registration_Schema
begin

text \<open>
  Calls into Excel and the registration operations over them: the callback session of one entry
  point (\<open>crates/xlfn/src/host_callback.rs\<close>), ownership of a callback result
  (\<open>crates/xlfn/src/callback_value.rs\<close>), the invocation protocol (\<open>crates/xlfn/src/host_api.rs\<close>) and the
  registration facade (\<open>crates/xlfn/src/registration/host.rs\<close>). Excel is a parameter: the record
  \<open>excel\<close> has its callback and whether the module gate admits a call, over a type of worlds.
\<close>

section \<open>Excel\<close>

datatype operand = OperString "nat list" | OperNumber u64 | OperInteger int | OperValue xloper

record 'w excel =
  platform :: target
  admits :: "'w \<Rightarrow> bool"
  resolved :: "'w \<Rightarrow> bool"
  excel_callback :: "int \<Rightarrow> operand list \<Rightarrow> 'w \<Rightarrow> (int \<times> xloper) \<times> 'w"

definition XLRET_FAILED :: int where "XLRET_FAILED = 32"
definition XL_FREE :: int where "XL_FREE = 0x4000"
definition XL_EVENT_REGISTER :: int where "XL_EVENT_REGISTER = 0x4011"
definition XLF_SET_NAME :: int where "XLF_SET_NAME = 88"
definition XLF_REGISTER :: int where "XLF_REGISTER = 149"
definition XLF_UNREGISTER :: int where "XLF_UNREGISTER = 201"
definition XLF_EVALUATE :: int where "XLF_EVALUATE = 257"

lemmas function_ids = XL_FREE_def XL_EVENT_REGISTER_def XLF_SET_NAME_def XLF_REGISTER_def
  XLF_UNREGISTER_def XLF_EVALUATE_def

definition nil_xloper :: xloper where
  "nil_xloper = Xloper (sample_header 0x100) 0 NullPtr 0 0 0 0 0 pointer.Null"

definition excel12_with_invocation ::
    "'w excel \<Rightarrow> int \<Rightarrow> operand list \<Rightarrow> 'w \<Rightarrow> (int \<times> xloper \<times> bool) \<times> 'w" where
  "excel12_with_invocation E function arguments w =
     (if length arguments \<ge> 2 ^ 31 then ((XLRET_FAILED, nil_xloper, False), w)
      else if \<not> resolved E w then ((XLRET_FAILED, nil_xloper, False), w)
      else case excel_callback E function arguments w of ((status, result), w) \<Rightarrow> ((status, result, True), w))"

definition excel_free :: "'w excel \<Rightarrow> xloper \<Rightarrow> 'w \<Rightarrow> int \<times> 'w" where
  "excel_free E value w =
     (if \<not> resolved E w then (XLRET_FAILED, w)
      else case excel_callback E XL_FREE [OperValue value] w of ((status, _), w) \<Rightarrow> (status, w))"

section \<open>The callback session\<close>

datatype HostCallbackState = Available | SessionSuppressed ExcelCallbackStatus

text \<open>The state of a call: the session, the audit of failed cleanups and the world.\<close>

record 'w host_state =
  session :: HostCallbackState
  audit_debts :: "ExcelCallbackStatus list"
  audit_dropped :: nat
  world :: 'w

fun blocked_status :: "HostCallbackState \<Rightarrow> ExcelCallbackStatus option" where
  "blocked_status Available = None"
| "blocked_status (SessionSuppressed status) = Some status"

definition permits_callbacks :: "'w host_state \<Rightarrow> bool" where
  "permits_callbacks s \<longleftrightarrow> session s = Available"

definition terminal_status :: "'w host_state \<Rightarrow> ExcelCallbackStatus option" where
  "terminal_status s = (case session s of Available \<Rightarrow> None | SessionSuppressed status \<Rightarrow> Some status)"

definition observe :: "ExcelCallbackStatus \<Rightarrow> 'w host_state \<Rightarrow> 'w host_state" where
  "observe status s =
     (if is_terminal status \<and> session s = Available then s\<lparr> session := SessionSuppressed status \<rparr> else s)"

definition CALLBACK_CLEANUP_AUDIT_CAPACITY :: nat where "CALLBACK_CLEANUP_AUDIT_CAPACITY = 64"

definition record_callback_value_debt :: "target \<Rightarrow> ExcelCallbackStatus \<Rightarrow> 'w host_state \<Rightarrow> 'w host_state" where
  "record_callback_value_debt t debt s =
     (let s = (if length (audit_debts s) = CALLBACK_CLEANUP_AUDIT_CAPACITY
               then s\<lparr> audit_debts := tl (audit_debts s), audit_dropped := min (usize_max t) (audit_dropped s + 1) \<rparr>
               else s)
      in s\<lparr> audit_debts := audit_debts s @ [debt] \<rparr>)"

subsection \<open>Results and their release\<close>

datatype CallbackValueReleaseState =
  Live | Released | TerminalSuppressed ExcelCallbackStatus | ReleaseIndeterminate ExcelCallbackStatus

record CallbackOwner =
  owner_raw :: xloper
  owner_state :: CallbackValueReleaseState

datatype CallbackResult = Readable CallbackOwner | CleanupOnly CallbackOwner | EmptyResult

fun readable :: "CallbackResult \<Rightarrow> xloper XllResult" where
  "readable (Readable owner) = Inr (owner_raw owner)"
| "readable _ = Inl (Input ''callback'' (Malformed ''callback result is not readable''))"

text \<open>One attempt to free; a second call makes none.\<close>

definition release_in_place ::
    "'w excel \<Rightarrow> CallbackOwner \<Rightarrow> 'w host_state \<Rightarrow> unit XllResult \<times> CallbackOwner \<times> 'w host_state" where
  "release_in_place E owner s = (case owner_state owner of
       Released \<Rightarrow> (Inr (), owner, s)
     | ReleaseIndeterminate status \<Rightarrow> (Inl (ExcelApi Free (Indeterminate status)), owner, s)
     | _ \<Rightarrow>
         (case excel_free E (owner_raw owner) (world s) of (raw_status, w) \<Rightarrow>
            let status = callback_status_from_raw raw_status;
                s = observe status (s\<lparr> world := w \<rparr>)
            in if status = CallbackSuccess then (Inr (), owner\<lparr> owner_state := Released \<rparr>, s)
               else (Inl (ExcelApi Free (Status status)), owner\<lparr> owner_state := ReleaseIndeterminate status \<rparr>,
                     record_callback_value_debt (platform E) status s)))"

fun release_result :: "'w excel \<Rightarrow> CallbackResult \<Rightarrow> 'w host_state \<Rightarrow> unit XllResult \<times> 'w host_state" where
  "release_result E (Readable owner) s = (case release_in_place E owner s of (r, _, s) \<Rightarrow> (r, s))"
| "release_result E (CleanupOnly owner) s = (case release_in_place E owner s of (r, _, s) \<Rightarrow> (r, s))"
| "release_result E EmptyResult s = (Inr (), s)"

definition call_with_session ::
    "'w excel \<Rightarrow> int \<Rightarrow> operand list \<Rightarrow> 'w host_state \<Rightarrow> (ExcelCallbackStatus + int \<times> CallbackResult) \<times> 'w host_state" where
  "call_with_session E function arguments s =
     (if \<not> admits E (world s) then (Inl (Failed XLRET_FAILED), s)
      else case excel12_with_invocation E function arguments (world s) of ((status, raw, callback_invoked), w) \<Rightarrow>
        let s = s\<lparr> world := w \<rparr>; callback_status = callback_status_from_raw status in
        if \<not> callback_invoked then (Inr (status, EmptyResult), s)
        else if is_terminal callback_status
        then (Inr (status, CleanupOnly \<lparr> owner_raw = raw, owner_state = TerminalSuppressed callback_status \<rparr>), s)
        else (Inr (status, Readable \<lparr> owner_raw = raw, owner_state = Live \<rparr>), s))"

definition session_call ::
    "'w excel \<Rightarrow> int \<Rightarrow> operand list \<Rightarrow> 'w host_state \<Rightarrow>
     (ExcelCallbackStatus + ExcelCallbackStatus \<times> CallbackResult) \<times> 'w host_state" where
  "session_call E function arguments s = (case blocked_status (session s) of
       Some status \<Rightarrow> (Inl status, s)
     | None \<Rightarrow> (case call_with_session E function arguments s of
         (Inl status, s) \<Rightarrow> (Inl status, s)
       | (Inr (raw_status, result), s) \<Rightarrow>
           let status = callback_status_from_raw raw_status in (Inr (status, result), observe status s)))"

section \<open>The invocation protocol\<close>

type_synonym ('w, 'a) hosted = "'w host_state \<Rightarrow> ('a \<times> 'w host_state) run"

definition bind_host :: "('w, 'a) hosted \<Rightarrow> ('a \<Rightarrow> ('w, 'b) hosted) \<Rightarrow> ('w, 'b) hosted" where
  "bind_host m f s = bind_run (m s) (\<lambda>(x, s). f x s)"

definition return_host :: "'a \<Rightarrow> ('w, 'a) hosted" where
  "return_host x s = Returns (x, s)"

datatype 'a HostInvocation =
  InvocationSuppressed ExcelCallbackStatus
| Decoded "'a XllResult" "unit XllResult"
| InvocationFailed ExcelCallbackStatus "unit XllResult"

definition invoke_protocol ::
    "'w excel \<Rightarrow> int \<Rightarrow> operand list \<Rightarrow> (xloper \<Rightarrow> 'a conversion) \<Rightarrow> ('w, 'a HostInvocation) hosted" where
  "invoke_protocol E function_id arguments decode s = (case session_call E function_id arguments s of
       (Inl status, s) \<Rightarrow> Returns (InvocationSuppressed status, s)
     | (Inr (status, result), s) \<Rightarrow>
         if status = CallbackSuccess then
           bind_run (bind_conv (Returns (readable result)) decode) (\<lambda>decoded.
             case release_result E result s of (cleanup, s) \<Rightarrow> Returns (Decoded decoded cleanup, s))
         else (case release_result E result s of (cleanup, s) \<Rightarrow> Returns (InvocationFailed status cleanup, s)))"

definition error_or :: "unit XllResult \<Rightarrow> XllError \<Rightarrow> XllError" where
  "error_or cleanup other = (case cleanup of Inl err \<Rightarrow> err | Inr _ \<Rightarrow> other)"

definition invoke_result :: "ExcelApiFunction \<Rightarrow> 'a HostInvocation \<Rightarrow> 'a XllResult" where
  "invoke_result function invocation = (case invocation of
       InvocationSuppressed status \<Rightarrow> Inl (ExcelApi function (Suppressed status))
     | InvocationFailed status cleanup \<Rightarrow> Inl (error_or cleanup (ExcelApi function (Status status)))
     | Decoded (Inl err) _ \<Rightarrow> Inl err
     | Decoded (Inr value) (Inl err) \<Rightarrow> Inl err
     | Decoded (Inr value) (Inr _) \<Rightarrow> Inr value)"

definition invoke ::
    "'w excel \<Rightarrow> int \<Rightarrow> ExcelApiFunction \<Rightarrow> operand list \<Rightarrow> (xloper \<Rightarrow> 'a conversion) \<Rightarrow> ('w, 'a XllResult) hosted" where
  "invoke E function_id function arguments decode =
     bind_host (invoke_protocol E function_id arguments decode) (\<lambda>invocation. return_host (invoke_result function invocation))"

section \<open>Registration operations\<close>

record RegistrationId =
  reg_id :: u64
  reg_name :: ustr

datatype 'a RegistrationMutation =
  Applied 'a "unit XllResult" | Rejected XllError | MutationIndeterminate ExcelCallbackStatus XllError

datatype DecodeFailureDisposition = DecodeRejected | DecodeIndeterminate

definition mutation_from_invocation ::
    "ExcelApiFunction \<Rightarrow> DecodeFailureDisposition \<Rightarrow> 'a HostInvocation \<Rightarrow> 'a RegistrationMutation" where
  "mutation_from_invocation function decode_failure invocation = (case invocation of
       InvocationSuppressed status \<Rightarrow> Rejected (ExcelApi function (Suppressed status))
     | InvocationFailed status cleanup \<Rightarrow>
         if is_terminal status
         then MutationIndeterminate status (error_or cleanup (ExcelApi function (Status status)))
         else Rejected (error_or cleanup (ExcelApi function (Status status)))
     | Decoded (Inr value) cleanup \<Rightarrow> Applied value cleanup
     | Decoded (Inl err) cleanup \<Rightarrow>
         (case decode_failure of
            DecodeIndeterminate \<Rightarrow> MutationIndeterminate CallbackSuccess (error_or cleanup err)
          | DecodeRejected \<Rightarrow> Rejected err))"

subsection \<open>Decoders\<close>

definition callback_value_type :: "xloper \<Rightarrow> XlValueType XllResult" where
  "callback_value_type v = (case value_type_from_raw (base_type (header v)) of
       None \<Rightarrow> Inl (Input ''<callback>'' (Malformed ''unknown base xltype'')) | Some ty \<Rightarrow> Inr ty)"

definition unexpected_result :: "ExcelApiFunction \<Rightarrow> XllError" where
  "unexpected_result function = ExcelApi function UnexpectedResult"

definition valid_registration_id :: "u64 \<Rightarrow> bool" where
  "valid_registration_id i \<longleftrightarrow> is_finite i \<and> f64_rat i \<noteq> 0"

definition read_number :: "xloper \<Rightarrow> string \<Rightarrow> u64 conversion" where
  "read_number v argument = bind_conv (Returns (array_cell v)) (\<lambda>value. f64_from_excel value argument)"

definition decode_registration_id :: "ustr \<Rightarrow> xloper \<Rightarrow> RegistrationId conversion" where
  "decode_registration_id name v = bind_conv (Returns (callback_value_type v)) (\<lambda>ty.
     if ty \<noteq> XlNumber then err_conv (unexpected_result Register)
     else bind_conv (read_number v ''registration'') (\<lambda>i.
       if \<not> valid_registration_id i then err_conv (unexpected_result Register)
       else ok_conv \<lparr> reg_id = i, reg_name = name \<rparr>))"

definition decode_registration_id_result :: "ustr \<Rightarrow> xloper \<Rightarrow> RegistrationId option conversion" where
  "decode_registration_id_result name v = bind_conv (Returns (callback_value_type v)) (\<lambda>ty.
     if ty = XlError then
       (if error_code v = XLERR_NAME then ok_conv None else err_conv (unexpected_result Evaluate))
     else if ty = XlNumber then bind_conv (read_number v ''registration recovery'') (\<lambda>i.
       if \<not> valid_registration_id i then err_conv (unexpected_result Evaluate)
       else ok_conv (Some \<lparr> reg_id = i, reg_name = name \<rparr>))
     else err_conv (unexpected_result Evaluate))"

definition read_excel_bool :: "ExcelApiFunction \<Rightarrow> xloper \<Rightarrow> bool conversion" where
  "read_excel_bool function v = bind_conv (Returns (callback_value_type v)) (\<lambda>ty.
     if ty \<noteq> XlBoolean then err_conv (unexpected_result function) else ok_conv (boolean v \<noteq> 0))"

definition read_applied_bool :: "ExcelApiFunction \<Rightarrow> xloper \<Rightarrow> unit conversion" where
  "read_applied_bool function v = bind_conv (read_excel_bool function v) (\<lambda>b.
     if b then ok_conv () else err_conv (unexpected_result function))"

definition decode_event_registration_id :: "xloper \<Rightarrow> 32 word conversion" where
  "decode_event_registration_id v = bind_conv (Returns (callback_value_type v)) (\<lambda>ty.
     if ty \<noteq> XlInteger then err_conv (unexpected_result EventRegister)
     else if integer v = 0 then err_conv (ExcelApi EventRegister (InvalidRegistrationId (sint (integer v))))
     else ok_conv (integer v))"

definition is_registered_result :: "xloper \<Rightarrow> bool conversion" where
  "is_registered_result v = bind_conv (Returns (callback_value_type v)) (\<lambda>ty.
     if ty = XlError then ok_conv (error_code v \<noteq> XLERR_NAME)
     else if ty = XlNumber then bind_run (read_number v ''is_registered_name'') (\<lambda>r.
       ok_conv (case r of Inl _ \<Rightarrow> False | Inr i \<Rightarrow> valid_registration_id i))
     else ok_conv False)"

subsection \<open>Temporary strings and requests\<close>

definition temporary_string :: "ustr \<Rightarrow> nat list conversion" where
  "temporary_string text = encode_counted text ''registration'' EXCEL_STRING_LIMIT"

definition temporary_from_units :: "nat list \<Rightarrow> nat list XllResult" where
  "temporary_from_units units =
     (if length units > EXCEL_STRING_LIMIT
      then Inl (Input ''registration'' (TooLarge EXCEL_STRING_LIMIT (length units)))
      else Inr (length units mod 2 ^ 16 # units))"

fun temporary_strings :: "ustr list \<Rightarrow> nat list list conversion" where
  "temporary_strings [] = ok_conv []"
| "temporary_strings (text # ts) =
     bind_conv (temporary_string text) (\<lambda>u. bind_conv (temporary_strings ts) (\<lambda>us. ok_conv (u # us)))"

fun macro_type :: "FunctionVisibility \<Rightarrow> u64" where
  "macro_type Public = f64_of_int 1"
| "macro_type Hidden = f64_of_int 0"

definition register_operands :: "nat list \<Rightarrow> PreparedRegistration \<Rightarrow> operand list conversion" where
  "register_operands module_units d =
     bind_conv (Returns (temporary_from_units module_units)) (\<lambda>m.
     bind_conv (temporary_string (export_name_text d)) (\<lambda>procedure.
     bind_conv (temporary_string (type_text d)) (\<lambda>types.
     bind_conv (temporary_string (excel_name_text d)) (\<lambda>function_text.
     bind_conv (temporary_string (argument_names d)) (\<lambda>arguments.
     bind_conv (temporary_string (category_text d)) (\<lambda>category.
     bind_conv (temporary_string []) (\<lambda>shortcut.
     bind_conv (temporary_string (help_topic_text d)) (\<lambda>help_topic.
     bind_conv (temporary_string (description_text d)) (\<lambda>function_help.
     bind_conv (temporary_strings (argument_help d)) (\<lambda>helps.
       ok_conv ([OperString m, OperString procedure, OperString types, OperString function_text, OperString arguments,
         OperNumber (macro_type (visibility d)), OperString category, OperString shortcut, OperString help_topic,
         OperString function_help] @ map OperString helps)))))))))))"

subsection \<open>The operations of the host\<close>

definition with_operands ::
    "'o conversion \<Rightarrow> ('o \<Rightarrow> ('w, 'a RegistrationMutation) hosted) \<Rightarrow> ('w, 'a RegistrationMutation) hosted" where
  "with_operands m f s = bind_run m (\<lambda>r. case r of Inl err \<Rightarrow> Returns (Rejected err, s) | Inr x \<Rightarrow> f x s)"

definition host_register :: "'w excel \<Rightarrow> nat list \<Rightarrow> PreparedRegistration \<Rightarrow> ('w, RegistrationId RegistrationMutation) hosted" where
  "host_register E module_units d = with_operands (register_operands module_units d) (\<lambda>arguments.
     bind_host (invoke_protocol E XLF_REGISTER arguments (decode_registration_id (excel_name d)))
       (\<lambda>invocation. return_host (mutation_from_invocation Register DecodeIndeterminate invocation)))"

definition register_event :: "'w excel \<Rightarrow> ustr \<Rightarrow> int \<Rightarrow> ('w, 32 word RegistrationMutation) hosted" where
  "register_event E procedure event = with_operands (temporary_string procedure) (\<lambda>p.
     bind_host (invoke_protocol E XL_EVENT_REGISTER [OperString p, OperInteger event] decode_event_registration_id)
       (\<lambda>invocation. return_host (mutation_from_invocation EventRegister DecodeIndeterminate invocation)))"

definition with_text :: "nat list conversion \<Rightarrow> (nat list \<Rightarrow> ('w, 'a XllResult) hosted) \<Rightarrow> ('w, 'a XllResult) hosted" where
  "with_text m f s = bind_run m (\<lambda>r. case r of Inl err \<Rightarrow> Returns (Inl err, s) | Inr x \<Rightarrow> f x s)"

definition registration_id :: "'w excel \<Rightarrow> ustr \<Rightarrow> ('w, RegistrationId option XllResult) hosted" where
  "registration_id E name = with_text (temporary_string name) (\<lambda>u.
     invoke E XLF_EVALUATE Evaluate [OperString u] (decode_registration_id_result name))"

definition is_registered_name :: "'w excel \<Rightarrow> ustr \<Rightarrow> ('w, bool XllResult) hosted" where
  "is_registered_name E name = with_text (temporary_string name) (\<lambda>u.
     invoke E XLF_EVALUATE Evaluate [OperString u] is_registered_result)"

definition unregister_registration :: "'w excel \<Rightarrow> RegistrationId \<Rightarrow> ('w, unit RegistrationMutation) hosted" where
  "unregister_registration E r =
     bind_host (invoke_protocol E XLF_UNREGISTER [OperNumber (reg_id r)] (read_applied_bool Unregister))
       (\<lambda>invocation. return_host (mutation_from_invocation Unregister DecodeRejected invocation))"

definition delete_name :: "'w excel \<Rightarrow> ustr \<Rightarrow> ('w, unit RegistrationMutation) hosted" where
  "delete_name E name = with_operands (temporary_string name) (\<lambda>u.
     bind_host (invoke_protocol E XLF_SET_NAME [OperString u] (read_applied_bool SetName))
       (\<lambda>invocation. return_host (mutation_from_invocation SetName DecodeRejected invocation)))"

text \<open>Equality of floating point numbers, as \<open>==\<close> decides it on finite ones.\<close>

definition f64_eq :: "u64 \<Rightarrow> u64 \<Rightarrow> bool" where
  "f64_eq a b \<longleftrightarrow> (if is_finite a \<and> is_finite b then f64_rat a = f64_rat b else a = b \<and> f64_mantissa a = 0)"

definition delete_name_if_binding_matches ::
    "'w excel \<Rightarrow> ustr \<Rightarrow> u64 list \<Rightarrow> ('w, unit RegistrationMutation) hosted" where
  "delete_name_if_binding_matches E name expected_ids = bind_host (registration_id E name) (\<lambda>r. case r of
       Inr None \<Rightarrow> return_host (Applied () (Inr ()))
     | Inr (Some current) \<Rightarrow>
         if list_ex (\<lambda>i. f64_eq i (reg_id current)) expected_ids then delete_name E name
         else return_host (Rejected (MetadataDebtBindingChanged name))
     | Inl err \<Rightarrow> return_host (Rejected err))"

section \<open>The operands of a registration\<close>

definition counted_operand :: "ustr \<Rightarrow> operand" where
  "counted_operand t = OperString (length (encode_utf16 t) # encode_utf16 t)"

lemma temporary_string_fits:
  "is_str t \<Longrightarrow> length (encode_utf16 t) \<le> EXCEL_STRING_LIMIT \<Longrightarrow>
     temporary_string t = ok_conv (length (encode_utf16 t) # encode_utf16 t)"
  by (simp add: temporary_string_def encode_counted_eq EXCEL_STRING_LIMIT_def Let_def)

lemma temporary_string_returns: "is_str t \<Longrightarrow> temporary_string t \<noteq> Aborts"
  by (simp add: temporary_string_def encode_counted_eq)

lemma temporary_strings_fit:
  "\<forall>t \<in> set ts. is_str t \<and> length (encode_utf16 t) \<le> EXCEL_STRING_LIMIT \<Longrightarrow>
     temporary_strings ts = ok_conv (map (\<lambda>t. length (encode_utf16 t) # encode_utf16 t) ts)"
  by (induction ts) (simp_all add: temporary_string_fits bind_conv_def)

lemma register_operands_fit:
  assumes "\<forall>t \<in> set (texts_of p). is_str t \<and> length (encode_utf16 t) \<le> EXCEL_STRING_LIMIT"
    and "length m \<le> EXCEL_STRING_LIMIT"
  shows "register_operands m p = ok_conv
    (OperString (length m # m) # map counted_operand [export_name_text p, type_text p, excel_name_text p, argument_names p] @
     OperNumber (macro_type (visibility p)) # map counted_operand ([category_text p, [], help_topic_text p, description_text p] @
       argument_help p))"
  using assms
  by (simp add: register_operands_def texts_of_def temporary_from_units_def temporary_string_fits temporary_strings_fit
      bind_conv_def counted_operand_def EXCEL_STRING_LIMIT_def)

definition descriptor_strs :: "RegistrationDescriptor \<Rightarrow> bool" where
  "descriptor_strs d \<longleftrightarrow> list_all is_str ([descriptor_export_name d, descriptor_excel_name d, descriptor_category d,
     descriptor_help_topic d, descriptor_description d] @
     concat (map (\<lambda>a. [arg_name a, arg_description a]) (descriptor_arguments d)))"

lemma is_str_lit: "list_all (\<lambda>c. of_char c < (0x80 :: nat)) s \<Longrightarrow> is_str (lit s)"
  by (auto simp: lit_def is_str_def is_scalar_def list_all_iff)

lemma type_text_ascii: "list_all (\<lambda>c. of_char c < (0x80 :: nat)) (encode_signature g)"
proof -
  have "list_all (\<lambda>c. of_char c < (0x80 :: nat)) (registration_code a)" for a by (cases a) simp_all
  then have "list_all (\<lambda>c. of_char c < (0x80 :: nat)) (concat (map registration_code as))" for as
    by (auto simp: list_all_iff)
  then show ?thesis by (cases "return_abi g") (simp_all add: encode_signature_def)
qed

lemma is_str_join: "\<forall>n \<in> set ns. is_str n \<Longrightarrow> is_str (join_names ns)"
  by (induction ns rule: join_names.induct) (simp_all add: is_str_def is_scalar_def)

lemma prepared_strs:
  assumes "prepare_registration i d g = Inr p" "descriptor_strs d"
  shows "\<forall>t \<in> set (texts_of p). is_str t"
proof -
  have "is_str (argument_names_text (descriptor_arguments d))" "is_str []"
    using assms(2) by (auto simp: argument_names_text_eq descriptor_strs_def list_all_iff intro!: is_str_join)
      (simp add: is_str_def)
  moreover have "set (argument_help_texts as) \<subseteq> insert [] (arg_description ` set as)" for as
    using set_take_subset [of _ as] by (auto simp: argument_help_texts_def Let_def)
  ultimately show ?thesis
    using assms is_str_lit [OF type_text_ascii [of g]]
    by (fastforce simp: prepare_registration_def texts_of_def Let_def descriptor_strs_def list_all_iff split: sum.splits)
qed

section \<open>What Excel promises\<close>

definition excel_number :: "xloper \<Rightarrow> u64 \<Rightarrow> bool" where
  "excel_number v i \<longleftrightarrow> value_type_from_raw (base_type (header v)) = Some XlNumber \<and> number v = i \<and> valid_registration_id i"

definition excel_true :: "xloper \<Rightarrow> bool" where
  "excel_true v \<longleftrightarrow> value_type_from_raw (base_type (header v)) = Some XlBoolean \<and> boolean v \<noteq> 0"

definition excel_name_error :: "xloper \<Rightarrow> bool" where
  "excel_name_error v \<longleftrightarrow> value_type_from_raw (base_type (header v)) = Some XlError \<and> error_code v = XLERR_NAME"

lemma conv_ok: "bind_conv m f = ok_conv y \<longleftrightarrow> (\<exists>x. m = ok_conv x \<and> f x = ok_conv y)"
  by (cases m) (auto simp: bind_conv_def split: sum.splits)

lemma conv_aborts: "bind_conv m f = Aborts \<longleftrightarrow> m = Aborts \<or> (\<exists>x. m = ok_conv x \<and> f x = Aborts)"
  by (cases m) (auto simp: bind_conv_def split: sum.splits)

lemma callback_value_type_ok:
  "callback_value_type v = Inr ty \<longleftrightarrow> value_type_from_raw (base_type (header v)) = Some ty"
  by (simp add: callback_value_type_def split: option.splits)

lemmas conv_simps = conv_ok conv_aborts callback_value_type_ok

lemma read_number_typed:
  assumes "value_type_from_raw (base_type (header v)) = Some XlNumber"
  shows "read_number v a \<noteq> Aborts" "read_number v a = ok_conv i \<Longrightarrow> number v = i"
  using assms by (auto simp: read_number_def array_cell_def f64_from_excel_def conv_simps xl_value_type_def value_type_def
      split: if_splits)

lemma decode_registration_id_spec:
  "decode_registration_id n v \<noteq> Aborts"
  "decode_registration_id n v = ok_conv r \<Longrightarrow> excel_number v (reg_id r) \<and> reg_name r = n"
  by (auto simp: decode_registration_id_def conv_simps excel_number_def read_number_typed split: if_splits)

lemma decode_registration_id_result_spec:
  "decode_registration_id_result n v \<noteq> Aborts"
  "decode_registration_id_result n v = ok_conv None \<Longrightarrow> excel_name_error v"
  "decode_registration_id_result n v = ok_conv (Some r) \<Longrightarrow> excel_number v (reg_id r) \<and> reg_name r = n"
  by (auto simp: decode_registration_id_result_def conv_simps excel_number_def excel_name_error_def read_number_typed
      split: if_splits)

lemma read_applied_bool_spec:
  "read_applied_bool f v \<noteq> Aborts" "read_applied_bool f v = ok_conv () \<Longrightarrow> excel_true v"
  by (auto simp: read_applied_bool_def read_excel_bool_def conv_simps excel_true_def split: if_splits)

lemma is_registered_result_returns: "is_registered_result v \<noteq> Aborts"
  by (auto simp: is_registered_result_def conv_simps read_number_typed)

text \<open>
  \<open>live\<close> are the registrations of the module in a world and \<open>bound\<close> the registration a name
  (its counted_operand units) is bound to.
\<close>

definition register_promise :: "'w excel \<Rightarrow> ('w \<Rightarrow> u64 set) \<Rightarrow> ('w \<Rightarrow> nat list \<Rightarrow> u64 option) \<Rightarrow> bool" where
  "register_promise E live bound \<longleftrightarrow> (\<forall>ops units w status res w'.
     excel_callback E XLF_REGISTER ops w = ((status, res), w') \<and> 3 < length ops \<and> ops ! 3 = OperString units \<longrightarrow>
     (status = XLRET_SUCCESS \<longrightarrow> live w \<subseteq> live w' \<and> live w' \<subseteq> live w \<union> set_option (bound w' units) \<and>
       (\<forall>i. excel_number res i \<longrightarrow> live w' = insert i (live w))) \<and>
     (status \<noteq> XLRET_SUCCESS \<and> \<not> is_terminal (callback_status_from_raw status) \<longrightarrow> live w' = live w))"

definition unregister_promise :: "'w excel \<Rightarrow> ('w \<Rightarrow> u64 set) \<Rightarrow> bool" where
  "unregister_promise E live \<longleftrightarrow> (\<forall>i w status res w'.
     excel_callback E XLF_UNREGISTER [OperNumber i] w = ((status, res), w') \<longrightarrow>
     live w' \<subseteq> live w \<and> live w - {i} \<subseteq> live w' \<and> (status = XLRET_SUCCESS \<and> excel_true res \<longrightarrow> i \<notin> live w'))"

definition free_promise :: "'w excel \<Rightarrow> ('w \<Rightarrow> u64 set) \<Rightarrow> ('w \<Rightarrow> nat list \<Rightarrow> u64 option) \<Rightarrow> bool" where
  "free_promise E live bound \<longleftrightarrow> (\<forall>v w status res w'. excel_callback E XL_FREE [OperValue v] w = ((status, res), w') \<longrightarrow>
     live w' = live w \<and> bound w' = bound w)"

definition evaluate_promise :: "'w excel \<Rightarrow> ('w \<Rightarrow> u64 set) \<Rightarrow> ('w \<Rightarrow> nat list \<Rightarrow> u64 option) \<Rightarrow> bool" where
  "evaluate_promise E live bound \<longleftrightarrow> (\<forall>units w status res w'.
     excel_callback E XLF_EVALUATE [OperString units] w = ((status, res), w') \<longrightarrow>
     live w' = live w \<and> bound w' = bound w \<and>
     (status = XLRET_SUCCESS \<longrightarrow> (excel_name_error res \<longrightarrow> bound w units = None) \<and>
       (\<forall>i. excel_number res i \<longrightarrow> bound w units = Some i)))"

definition set_name_promise :: "'w excel \<Rightarrow> ('w \<Rightarrow> u64 set) \<Rightarrow> ('w \<Rightarrow> nat list \<Rightarrow> u64 option) \<Rightarrow> bool" where
  "set_name_promise E live bound \<longleftrightarrow> (\<forall>units w status res w'.
     excel_callback E XLF_SET_NAME [OperString units] w = ((status, res), w') \<longrightarrow>
     live w' = live w \<and> (\<forall>other. bound w' other = bound w other \<or> bound w other = bound w units \<and> bound w' other = None) \<and>
     (status = XLRET_SUCCESS \<and> excel_true res \<longrightarrow> bound w' units = None))"

definition excel_promises :: "'w excel \<Rightarrow> ('w \<Rightarrow> u64 set) \<Rightarrow> ('w \<Rightarrow> nat list \<Rightarrow> u64 option) \<Rightarrow> bool" where
  "excel_promises E live bound \<longleftrightarrow> register_promise E live bound \<and> unregister_promise E live \<and>
     free_promise E live bound \<and> evaluate_promise E live bound \<and> set_name_promise E live bound"

lemma promised:
  assumes "excel_promises E live bound"
  shows "register_promise E live bound" "unregister_promise E live" "free_promise E live bound"
    "evaluate_promise E live bound" "set_name_promise E live bound"
  using assms by (simp_all add: excel_promises_def)

section \<open>The invocation protocol\<close>

text \<open>What a session call comes to: no callback was made, or one was.\<close>

lemma session_call_cases:
  obtains (suppressed) status where "session_call E f args s = (Inl status, s)"
  | (empty) "session_call E f args s = (Inr (Failed XLRET_FAILED, EmptyResult), s)"
  | (called) status res w' where "excel_callback E f args (world s) = ((status, res), w')"
      "session_call E f args s =
        (Inr (callback_status_from_raw status,
          if is_terminal (callback_status_from_raw status)
          then CleanupOnly \<lparr> owner_raw = res, owner_state = TerminalSuppressed (callback_status_from_raw status) \<rparr>
          else Readable \<lparr> owner_raw = res, owner_state = Live \<rparr>),
         observe (callback_status_from_raw status) (s\<lparr> world := w' \<rparr>))"
proof -
  have failed: "callback_status_from_raw XLRET_FAILED = Failed XLRET_FAILED"
    by (simp add: callback_status_from_raw_def XLRET_FAILED_def XLRET_SUCCESS_def XLRET_ABORT_def XLRET_UNCALCED_def)
  obtain status res w' where c: "excel_callback E f args (world s) = ((status, res), w')"
    by (metis surj_pair)
  show ?thesis
  proof (cases "blocked_status (session s)")
    case (Some status)
    then show ?thesis using suppressed by (simp add: session_call_def)
  next
    case None
    show ?thesis
    proof (cases "admits E (world s)")
      case False
      then show ?thesis using None suppressed by (simp add: session_call_def call_with_session_def)
    next
      case True
      show ?thesis
      proof (cases "length args \<ge> 2 ^ 31 \<or> \<not> resolved E (world s)")
        case closed: True
        then show ?thesis
          using None True empty
          by (auto simp: session_call_def call_with_session_def excel12_with_invocation_def Let_def failed observe_def)
      next
        case False
        then show ?thesis
          using None True c called [OF c]
          by (simp add: session_call_def call_with_session_def excel12_with_invocation_def Let_def)
      qed
    qed
  qed
qed

lemma status_success: "callback_status_from_raw status = CallbackSuccess \<longleftrightarrow> status = XLRET_SUCCESS"
  by (simp add: callback_status_from_raw_def)

lemma observe_world [simp]: "world (observe status s) = world s"
  by (simp add: observe_def)

lemma record_debt_world [simp]: "world (record_callback_value_debt t d s) = world s"
  by (simp add: record_callback_value_debt_def Let_def)

lemma free_world:
  assumes "excel_promises E live bound"
  shows "live (snd (excel_free E v w)) = live w" "bound (snd (excel_free E v w)) = bound w"
  using promised(3) [OF assms] by (auto simp: free_promise_def excel_free_def split: prod.splits)

lemma release_world:
  assumes "excel_promises E live bound"
  shows "live (world (snd (release_result E res s))) = live (world s)" "bound (world (snd (release_result E res s))) = bound (world s)"
proof -
  have "live (world (snd (snd (release_in_place E owner s)))) = live (world s) \<and>
      bound (world (snd (snd (release_in_place E owner s)))) = bound (world s)" for owner
    using free_world [OF assms, of "owner_raw owner" "world s"]
    by (cases "excel_free E (owner_raw owner) (world s)")
      (simp add: release_in_place_def Let_def split: CallbackValueReleaseState.splits)
  then have "live (world (snd (release_result E res s))) = live (world s) \<and> bound (world (snd (release_result E res s))) = bound (world s)"
    by (cases res) (simp_all add: case_prod_unfold)
  then show "live (world (snd (release_result E res s))) = live (world s)" "bound (world (snd (release_result E res s))) = bound (world s)"
    by simp_all
qed

lemma hosted_bind:
  "yields (m s) (\<lambda>(x, s'). P x s') \<Longrightarrow> (\<And>x s'. P x s' \<Longrightarrow> yields (f x s') Q) \<Longrightarrow> yields (bind_host m f s) Q"
  unfolding bind_host_def by (erule yields_bind) auto

lemma hosted_mono:
  "yields m (\<lambda>(x, s). P x s) \<Longrightarrow> (\<And>x s. P x s \<Longrightarrow> Q x s) \<Longrightarrow> yields m (\<lambda>(x, s). Q x s)"
  by (erule yields_mono) auto

definition invoked ::
    "('w \<Rightarrow> u64 set) \<Rightarrow> ('w \<Rightarrow> nat list \<Rightarrow> u64 option) \<Rightarrow> 'w excel \<Rightarrow> int \<Rightarrow> operand list \<Rightarrow> (xloper \<Rightarrow> 'a conversion) \<Rightarrow>
     'w \<Rightarrow> 'a HostInvocation \<Rightarrow> 'w \<Rightarrow> bool" where
  "invoked live bound E f args dec w i w' \<longleftrightarrow>
     (live w' = live w \<and> bound w' = bound w \<and>
       ((\<exists>st. i = InvocationSuppressed st) \<or> (\<exists>cl. i = InvocationFailed (Failed XLRET_FAILED) cl)))
   \<or> (\<exists>status res w1. excel_callback E f args w = ((status, res), w1) \<and> live w' = live w1 \<and> bound w' = bound w1 \<and>
       (if status = XLRET_SUCCESS then \<exists>d cl. dec res = Returns d \<and> i = Decoded d cl
        else \<exists>cl. i = InvocationFailed (callback_status_from_raw status) cl))"

lemma invoke_protocol_spec:
  assumes P: "excel_promises E live bound" and dec: "\<And>v. dec v \<noteq> Aborts"
  shows "yields (invoke_protocol E f args dec s) (\<lambda>(i, s'). invoked live bound E f args dec (world s) i (world s'))"
proof (cases rule: session_call_cases [where E = E and f = f and args = args and s = s])
  case (suppressed status)
  then show ?thesis by (simp add: invoke_protocol_def invoked_def)
next
  case empty
  then show ?thesis
    by (simp add: invoke_protocol_def invoked_def)
next
  case (called status res w')
  define result where "result = (if is_terminal (callback_status_from_raw status)
          then CleanupOnly \<lparr> owner_raw = res, owner_state = TerminalSuppressed (callback_status_from_raw status) \<rparr>
          else Readable \<lparr> owner_raw = res, owner_state = Live \<rparr>)"
  define s1 where "s1 = observe (callback_status_from_raw status) (s\<lparr> world := w' \<rparr>)"
  obtain c s2 where r: "release_result E result s1 = (c, s2)" by (metis surj_pair)
  have "world s1 = w'" by (simp add: s1_def)
  then have w: "live (world s2) = live w'" "bound (world s2) = bound w'"
    using release_world [OF P, of result s1] by (simp_all add: r)
  have call: "session_call E f args s = (Inr (callback_status_from_raw status, result), s1)"
    by (simp only: called(2) result_def s1_def)
  show ?thesis
  proof (cases "status = XLRET_SUCCESS")
    case True
    then have "readable result = Inr res" and st: "callback_status_from_raw status = CallbackSuccess"
      by (simp_all add: result_def callback_status_from_raw_def)
    moreover obtain d where "dec res = Returns d" using dec [of res] by (cases "dec res") auto
    ultimately have "invoke_protocol E f args dec s = Returns (Decoded d c, s2)"
      by (simp add: invoke_protocol_def call r bind_conv_def)
    then show ?thesis using called(1) w True \<open>dec res = Returns d\<close> by (auto simp: invoked_def)
  next
    case False
    then have "invoke_protocol E f args dec s = Returns (InvocationFailed (callback_status_from_raw status) c, s2)"
      by (simp add: invoke_protocol_def call r status_success)
    then show ?thesis using called(1) w False by (auto simp: invoked_def)
  qed
qed

section \<open>The operations of the host\<close>

definition kept :: "('w \<Rightarrow> u64 set) \<Rightarrow> ('w \<Rightarrow> nat list \<Rightarrow> u64 option) \<Rightarrow> 'w \<Rightarrow> 'w \<Rightarrow> bool" where
  "kept live bound w w' \<longleftrightarrow> live w' = live w \<and> bound w' = bound w"

lemma not_terminal_failed [simp]: "\<not> is_terminal (Failed i)" by simp

text \<open>An evaluation of a name changes neither the registrations nor the names.\<close>

lemma evaluate_spec:
  fixes E :: "'w excel" and dec :: "xloper \<Rightarrow> 'x conversion"
  assumes P: "excel_promises E live bound" and dec: "\<And>v. dec v \<noteq> Aborts" and name: "is_str name"
  shows "yields (with_text (temporary_string name) (\<lambda>u. invoke E XLF_EVALUATE Evaluate [OperString u] dec) s)
    (\<lambda>(r, s'). kept live bound (world s) (world s') \<and>
      (\<forall>x. r = Inr x \<longrightarrow> (\<exists>u res. temporary_string name = ok_conv u \<and> dec res = ok_conv x \<and>
        (excel_name_error res \<longrightarrow> bound (world s) u = None) \<and> (\<forall>i. excel_number res i \<longrightarrow> bound (world s) u = Some i))))"
proof -
  obtain t where t: "temporary_string name = Returns t"
    using temporary_string_returns [OF name] by (cases "temporary_string name") auto
  show ?thesis
  proof (cases t)
    case (Inl e)
    then show ?thesis using t by (simp add: with_text_def kept_def)
  next
    case (Inr u)
    have "yields (invoke E XLF_EVALUATE Evaluate [OperString u] dec s)
      (\<lambda>(r, s'). kept live bound (world s) (world s') \<and>
        (\<forall>x. r = Inr x \<longrightarrow> (\<exists>res. dec res = ok_conv x \<and>
        (excel_name_error res \<longrightarrow> bound (world s) u = None) \<and> (\<forall>i. excel_number res i \<longrightarrow> bound (world s) u = Some i))))"
      unfolding invoke_def
    proof (rule hosted_bind [OF invoke_protocol_spec [OF P dec]])
      fix i :: "'x HostInvocation" and s' :: "'w host_state"
      assume i: "invoked live bound E XLF_EVALUATE [OperString u] dec (world s) i (world s')"
      have P': "\<forall>units w status res w'. excel_callback E XLF_EVALUATE [OperString units] w = ((status, res), w') \<longrightarrow>
       live w' = live w \<and> bound w' = bound w \<and>
       (status = XLRET_SUCCESS \<longrightarrow> (excel_name_error res \<longrightarrow> bound w units = None) \<and>
         (\<forall>i. excel_number res i \<longrightarrow> bound w units = Some i))"
        using promised(4) [OF P] unfolding evaluate_promise_def .
      have "kept live bound (world s) (world s')"
        using i P' by (auto simp: invoked_def kept_def)
      moreover have "\<exists>res. dec res = ok_conv x \<and> (excel_name_error res \<longrightarrow> bound (world s) u = None) \<and>
          (\<forall>i. excel_number res i \<longrightarrow> bound (world s) u = Some i)" if "invoke_result Evaluate i = Inr x" for x
        using i that P' unfolding invoked_def invoke_result_def
        by (auto split: HostInvocation.splits sum.splits if_splits)
      ultimately show "yields (return_host (invoke_result Evaluate i) s') (\<lambda>(r, s'). kept live bound (world s) (world s') \<and>
        (\<forall>x. r = Inr x \<longrightarrow> (\<exists>res. dec res = ok_conv x \<and>
        (excel_name_error res \<longrightarrow> bound (world s) u = None) \<and> (\<forall>i. excel_number res i \<longrightarrow> bound (world s) u = Some i))))"
        by (simp add: return_host_def)
    qed
    then show ?thesis using t Inr by (simp add: with_text_def)
  qed
qed

lemma is_registered_name_spec:
  assumes P: "excel_promises E live bound" and name: "is_str name"
  shows "yields (is_registered_name E name s) (\<lambda>(r, s'). kept live bound (world s) (world s'))"
  unfolding is_registered_name_def
  by (rule yields_mono [OF evaluate_spec [OF P is_registered_result_returns name]]) auto

lemma registration_id_spec:
  assumes P: "excel_promises E live bound" and name: "is_str name"
  shows "yields (registration_id E name s) (\<lambda>(r, s'). kept live bound (world s) (world s') \<and>
    (\<forall>x. r = Inr x \<longrightarrow> (\<exists>u. temporary_string name = ok_conv u \<and> bound (world s) u = map_option reg_id x)) \<and>
    (\<forall>i. r = Inr (Some i) \<longrightarrow> reg_name i = name))"
  unfolding registration_id_def
proof (rule yields_mono [OF evaluate_spec [OF P decode_registration_id_result_spec(1) name]], clarsimp, intro conjI allI impI)
  fix r :: "XllError + RegistrationId option" and x
  assume "\<forall>x. r = Inr x \<longrightarrow> (\<exists>u. temporary_string name = ok_conv u \<and> (\<exists>res. decode_registration_id_result name res = ok_conv x \<and>
    (excel_name_error res \<longrightarrow> bound (world s) u = None) \<and> (\<forall>i. excel_number res i \<longrightarrow> bound (world s) u = Some i)))"
    and "r = Inr x"
  then show "\<exists>u. temporary_string name = ok_conv u \<and> bound (world s) u = map_option reg_id x"
    by (cases x) (force dest: decode_registration_id_result_spec(2,3))+
qed (auto dest!: decode_registration_id_result_spec(3))

text \<open>A mutation, from the callback it made.\<close>

definition mutated ::
    "('w \<Rightarrow> u64 set) \<Rightarrow> ('w \<Rightarrow> nat list \<Rightarrow> u64 option) \<Rightarrow> 'w excel \<Rightarrow> int \<Rightarrow> operand list \<Rightarrow> (xloper \<Rightarrow> 'a conversion) \<Rightarrow>
     DecodeFailureDisposition \<Rightarrow> 'w \<Rightarrow> 'a RegistrationMutation \<Rightarrow> 'w \<Rightarrow> bool" where
  "mutated live bound E f args dec disp w m w' \<longleftrightarrow>
     (kept live bound w w' \<and> (\<exists>e. m = Rejected e))
   \<or> (\<exists>status res w1. excel_callback E f args w = ((status, res), w1) \<and> live w' = live w1 \<and> bound w' = bound w1 \<and>
       (case m of
          Applied x _ \<Rightarrow> status = XLRET_SUCCESS \<and> dec res = ok_conv x
        | Rejected _ \<Rightarrow> status = XLRET_SUCCESS \<and> disp = DecodeRejected \<or>
            status \<noteq> XLRET_SUCCESS \<and> \<not> is_terminal (callback_status_from_raw status)
        | MutationIndeterminate st _ \<Rightarrow> st = callback_status_from_raw status \<and>
            (status = XLRET_SUCCESS \<or> is_terminal (callback_status_from_raw status))))"

lemma mutatedE:
  assumes "mutated live bound E f args dec disp w m w'"
  obtains (unchanged) e where "live w' = live w" "bound w' = bound w" "m = Rejected e"
  | (called) status res w1 where "excel_callback E f args w = ((status, res), w1)" "live w' = live w1" "bound w' = bound w1"
      "\<And>x c. m = Applied x c \<Longrightarrow> status = XLRET_SUCCESS \<and> dec res = ok_conv x"
      "\<And>e. m = Rejected e \<Longrightarrow> status = XLRET_SUCCESS \<and> disp = DecodeRejected \<or>
         status \<noteq> XLRET_SUCCESS \<and> \<not> is_terminal (callback_status_from_raw status)"
      "\<And>st e. m = MutationIndeterminate st e \<Longrightarrow> st = callback_status_from_raw status \<and>
         (status = XLRET_SUCCESS \<or> is_terminal (callback_status_from_raw status))"
proof (cases "kept live bound w w' \<and> (\<exists>e. m = Rejected e)")
  case True
  then show ?thesis using unchanged by (auto simp: kept_def)
next
  case False
  then obtain status res w1 where "excel_callback E f args w = ((status, res), w1)" "live w' = live w1" "bound w' = bound w1"
    "case m of
          Applied x _ \<Rightarrow> status = XLRET_SUCCESS \<and> dec res = ok_conv x
        | Rejected _ \<Rightarrow> status = XLRET_SUCCESS \<and> disp = DecodeRejected \<or>
            status \<noteq> XLRET_SUCCESS \<and> \<not> is_terminal (callback_status_from_raw status)
        | MutationIndeterminate st _ \<Rightarrow> st = callback_status_from_raw status \<and>
            (status = XLRET_SUCCESS \<or> is_terminal (callback_status_from_raw status))"
    using assms unfolding mutated_def by blast
  then show ?thesis by (intro called) auto
qed

lemma mutation_spec:
  fixes E :: "'w excel" and dec :: "xloper \<Rightarrow> 'x conversion"
  assumes P: "excel_promises E live bound" and dec: "\<And>v. dec v \<noteq> Aborts"
  shows "yields (bind_host (invoke_protocol E f args dec) (\<lambda>i. return_host (mutation_from_invocation g disp i)) s)
    (\<lambda>(m, s'). mutated live bound E f args dec disp (world s) m (world s'))"
proof (rule hosted_bind [OF invoke_protocol_spec [OF P dec]])
  fix i :: "'x HostInvocation" and s' :: "'w host_state"
  assume "invoked live bound E f args dec (world s) i (world s')"
  then consider (kept) "kept live bound (world s) (world s')"
      "(\<exists>st. i = InvocationSuppressed st) \<or> (\<exists>cl. i = InvocationFailed (Failed XLRET_FAILED) cl)"
    | (ok) res w1 d cl where "excel_callback E f args (world s) = ((XLRET_SUCCESS, res), w1)" "live (world s') = live w1"
      "bound (world s') = bound w1" "dec res = Returns d" "i = Decoded d cl"
    | (bad) status res w1 cl where "excel_callback E f args (world s) = ((status, res), w1)" "live (world s') = live w1"
      "bound (world s') = bound w1" "status \<noteq> XLRET_SUCCESS" "i = InvocationFailed (callback_status_from_raw status) cl"
    unfolding invoked_def kept_def by metis
  then show "yields (return_host (mutation_from_invocation g disp i) s')
    (\<lambda>(m, s'). mutated live bound E f args dec disp (world s) m (world s'))"
  proof cases
    case kept
    then show ?thesis by (auto simp: mutation_from_invocation_def return_host_def mutated_def)
  next
    case ok
    have "callback_status_from_raw XLRET_SUCCESS = CallbackSuccess" by (simp add: callback_status_from_raw_def)
    then show ?thesis using ok
      by (cases d; cases disp) (simp_all add: mutation_from_invocation_def return_host_def mutated_def)
  next
    case bad
    then show ?thesis
      by (cases "is_terminal (callback_status_from_raw status)")
        (simp_all add: mutation_from_invocation_def return_host_def mutated_def)
  qed
qed

lemma unregister_registration_spec:
  fixes E :: "'w excel"
  assumes P: "excel_promises E live bound"
  shows "yields (unregister_registration E r s) (\<lambda>(m, s'). live (world s') \<subseteq> live (world s) \<and>
    live (world s) - {reg_id r} \<subseteq> live (world s') \<and> (\<forall>x c. m = Applied x c \<longrightarrow> reg_id r \<notin> live (world s')))"
  unfolding unregister_registration_def
proof (rule hosted_mono [OF mutation_spec [OF P read_applied_bool_spec(1)]])
  fix m :: "unit RegistrationMutation" and s' :: "'w host_state"
  assume "mutated live bound E XLF_UNREGISTER [OperNumber (reg_id r)] (read_applied_bool Unregister) DecodeRejected (world s) m (world s')"
  then show "live (world s') \<subseteq> live (world s) \<and> live (world s) - {reg_id r} \<subseteq> live (world s') \<and>
    (\<forall>x c. m = Applied x c \<longrightarrow> reg_id r \<notin> live (world s'))"
  proof (cases rule: mutatedE)
    case (called status res w1)
    have "live w1 \<subseteq> live (world s) \<and> live (world s) - {reg_id r} \<subseteq> live w1 \<and>
        (status = XLRET_SUCCESS \<and> excel_true res \<longrightarrow> reg_id r \<notin> live w1)"
      by (rule promised(2) [OF P, unfolded unregister_promise_def, rule_format, OF called(1)])
    then show ?thesis using called(2,4) read_applied_bool_spec(2) [of Unregister res] by auto
  qed auto
qed

definition registrable :: "PreparedRegistration \<Rightarrow> bool" where
  "registrable d \<longleftrightarrow> excel_name_text d = excel_name d \<and> list_all is_str (texts_of d)"

lemma registrable_name: "registrable p \<Longrightarrow> is_str (excel_name p)"
  by (auto simp: registrable_def texts_of_def)

lemma temporary_strings_return: "list_all is_str ts \<Longrightarrow> temporary_strings ts \<noteq> Aborts"
  by (induction ts) (auto simp: conv_aborts temporary_string_returns)

lemma register_operands_spec:
  assumes "registrable d"
  shows "register_operands m d \<noteq> Aborts"
    "register_operands m d = ok_conv ops \<Longrightarrow>
       \<exists>u. 3 < length ops \<and> ops ! 3 = OperString u \<and> temporary_string (excel_name d) = ok_conv u"
  using assms
  by (auto simp: register_operands_def registrable_def texts_of_def conv_aborts conv_ok temporary_string_returns
      temporary_strings_return)

definition register_outcome ::
    "('w \<Rightarrow> u64 set) \<Rightarrow> ('w \<Rightarrow> nat list \<Rightarrow> u64 option) \<Rightarrow> PreparedRegistration \<Rightarrow> 'w \<Rightarrow> RegistrationId RegistrationMutation \<Rightarrow> 'w \<Rightarrow> bool" where
  "register_outcome live bound d w m w' \<longleftrightarrow> (case m of
       Applied r _ \<Rightarrow> live w' = insert (reg_id r) (live w) \<and> reg_name r = excel_name d
     | Rejected _ \<Rightarrow> live w' = live w
     | MutationIndeterminate status _ \<Rightarrow> \<not> is_terminal status \<longrightarrow>
         (\<forall>u. temporary_string (excel_name d) = ok_conv u \<longrightarrow> live w' \<subseteq> live w \<union> set_option (bound w' u)))"

lemma host_register_spec:
  fixes E :: "'w excel"
  assumes P: "excel_promises E live bound" and d: "registrable d"
  shows "yields (host_register E units d s) (\<lambda>(m, s'). register_outcome live bound d (world s) m (world s'))"
proof -
  obtain t where t: "register_operands units d = Returns t"
    using register_operands_spec(1) [OF d] by (cases "register_operands units d") auto
  show ?thesis
  proof (cases t)
    case (Inl e)
    then show ?thesis using t by (simp add: host_register_def with_operands_def register_outcome_def)
  next
    case (Inr ops)
    then obtain u where u: "3 < length ops" "ops ! 3 = OperString u" "temporary_string (excel_name d) = ok_conv u"
      using register_operands_spec(2) [OF d, of units ops] t by auto
    have R: "\<And>w status res w'. excel_callback E XLF_REGISTER ops w = ((status, res), w') \<Longrightarrow>
       (status = XLRET_SUCCESS \<longrightarrow> live w \<subseteq> live w' \<and> live w' \<subseteq> live w \<union> set_option (bound w' u) \<and>
         (\<forall>i. excel_number res i \<longrightarrow> live w' = insert i (live w))) \<and>
       (status \<noteq> XLRET_SUCCESS \<and> \<not> is_terminal (callback_status_from_raw status) \<longrightarrow> live w' = live w)"
      by (rule promised(1) [OF P, unfolded register_promise_def, rule_format]) (rule conjI, assumption, rule conjI [OF u(1,2)])
    have "yields (bind_host (invoke_protocol E XLF_REGISTER ops (decode_registration_id (excel_name d)))
       (\<lambda>i. return_host (mutation_from_invocation Register DecodeIndeterminate i)) s)
       (\<lambda>(m, s'). register_outcome live bound d (world s) m (world s'))"
    proof (rule hosted_mono [OF mutation_spec [OF P decode_registration_id_spec(1)]])
      fix m and s' :: "'w host_state"
      assume "mutated live bound E XLF_REGISTER ops (decode_registration_id (excel_name d)) DecodeIndeterminate (world s) m (world s')"
      then show "register_outcome live bound d (world s) m (world s')"
      proof (cases rule: mutatedE)
        case (called status res w1)
        then show ?thesis
          using R [OF called(1)] u(3) decode_registration_id_spec(2) [of "excel_name d" res]
          by (cases m) (auto simp: register_outcome_def)
      qed (simp add: register_outcome_def)
    qed
    then show ?thesis using t Inr by (simp add: host_register_def with_operands_def)
  qed
qed

lemma delete_name_spec:
  fixes E :: "'w excel"
  assumes P: "excel_promises E live bound" and name: "is_str name"
  shows "yields (delete_name E name s) (\<lambda>(m, s'). live (world s') = live (world s) \<and>
    (\<forall>other. bound (world s') other = bound (world s) other \<or> bound (world s') other = None \<and>
      (\<exists>u. temporary_string name = ok_conv u \<and> bound (world s) other = bound (world s) u)) \<and>
    (\<forall>x c. m = Applied x c \<longrightarrow> (\<exists>u. temporary_string name = ok_conv u \<and> bound (world s') u = None)))"
proof -
  obtain t where t: "temporary_string name = Returns t"
    using temporary_string_returns [OF name] by (cases "temporary_string name") auto
  show ?thesis
  proof (cases t)
    case (Inl e)
    then show ?thesis using t by (simp add: delete_name_def with_operands_def)
  next
    case (Inr u)
    have "yields (bind_host (invoke_protocol E XLF_SET_NAME [OperString u] (read_applied_bool SetName))
       (\<lambda>i. return_host (mutation_from_invocation SetName DecodeRejected i)) s)
       (\<lambda>(m, s'). live (world s') = live (world s) \<and>
         (\<forall>other. bound (world s') other = bound (world s) other \<or> bound (world s') other = None \<and> bound (world s) other = bound (world s) u) \<and>
         (\<forall>x c. m = Applied x c \<longrightarrow> bound (world s') u = None))"
    proof (rule hosted_mono [OF mutation_spec [OF P read_applied_bool_spec(1)]])
      fix m and s' :: "'w host_state"
      assume "mutated live bound E XLF_SET_NAME [OperString u] (read_applied_bool SetName) DecodeRejected (world s) m (world s')"
      then show "live (world s') = live (world s) \<and>
         (\<forall>other. bound (world s') other = bound (world s) other \<or> bound (world s') other = None \<and> bound (world s) other = bound (world s) u) \<and>
         (\<forall>x c. m = Applied x c \<longrightarrow> bound (world s') u = None)"
      proof (cases rule: mutatedE)
        case (called status res w1)
        have n: "live w1 = live (world s) \<and>
            (\<forall>other. bound w1 other = bound (world s) other \<or> bound (world s) other = bound (world s) u \<and> bound w1 other = None) \<and>
            (status = XLRET_SUCCESS \<and> excel_true res \<longrightarrow> bound w1 u = None)"
          by (rule promised(5) [OF P, unfolded set_name_promise_def, rule_format, OF called(1)])
        moreover have "bound w1 u = None" if "m = Applied x c" for x c
          using conjunct2 [OF conjunct2 [OF n]] called(4) [OF that] read_applied_bool_spec(2) [of SetName res] by simp
        ultimately show ?thesis unfolding called(2,3) by blast
      qed auto
    qed
    moreover have "delete_name E name s = bind_host (invoke_protocol E XLF_SET_NAME [OperString u] (read_applied_bool SetName))
       (\<lambda>i. return_host (mutation_from_invocation SetName DecodeRejected i)) s"
      using t Inr by (simp add: delete_name_def with_operands_def)
    ultimately show ?thesis using t Inr by (simp only: run.inject sum.inject ex_simps simp_thms)
  qed
qed

lemma delete_name_if_binding_matches_spec:
  fixes E :: "'w excel"
  assumes P: "excel_promises E live bound" and name: "is_str name"
  shows "yields (delete_name_if_binding_matches E name ids s) (\<lambda>(m, s'). live (world s') = live (world s) \<and>
    (\<forall>other i. bound (world s) other = Some i \<and> \<not> list_ex (\<lambda>j. f64_eq j i) ids \<longrightarrow> bound (world s') other = Some i) \<and>
    (\<forall>other. bound (world s) other = None \<longrightarrow> bound (world s') other = None) \<and>
    (\<forall>x c. m = Applied x c \<longrightarrow> (\<exists>u. temporary_string name = ok_conv u \<and> bound (world s') u = None)))"
  unfolding delete_name_if_binding_matches_def
proof (rule hosted_bind [OF registration_id_spec [OF P name]])
  fix r :: "RegistrationId option XllResult" and s1 :: "'w host_state"
  assume r: "kept live bound (world s) (world s1) \<and>
    (\<forall>x. r = Inr x \<longrightarrow> (\<exists>u. temporary_string name = ok_conv u \<and> bound (world s) u = map_option reg_id x)) \<and>
    (\<forall>i. r = Inr (Some i) \<longrightarrow> reg_name i = name)"
  then have k: "live (world s1) = live (world s)" "bound (world s1) = bound (world s)" by (simp_all add: kept_def)
  show "yields ((case r of Inl err \<Rightarrow> return_host (Rejected err)
      | Inr None \<Rightarrow> return_host (Applied () (Inr ()))
      | Inr (Some current) \<Rightarrow> if list_ex (\<lambda>i. f64_eq i (reg_id current)) ids then delete_name E name
          else return_host (Rejected (MetadataDebtBindingChanged name))) s1)
    (\<lambda>(m, s'). live (world s') = live (world s) \<and>
    (\<forall>other i. bound (world s) other = Some i \<and> \<not> list_ex (\<lambda>j. f64_eq j i) ids \<longrightarrow> bound (world s') other = Some i) \<and>
    (\<forall>other. bound (world s) other = None \<longrightarrow> bound (world s') other = None) \<and>
    (\<forall>x c. m = Applied x c \<longrightarrow> (\<exists>u. temporary_string name = ok_conv u \<and> bound (world s') u = None)))"
  proof (cases "\<exists>current. r = Inr (Some current) \<and> list_ex (\<lambda>i. f64_eq i (reg_id current)) ids")
    case False
    then show ?thesis using r k by (auto simp: return_host_def split: sum.splits option.splits)
  next
    case True
    then obtain current where c: "r = Inr (Some current)" "list_ex (\<lambda>i. f64_eq i (reg_id current)) ids" by blast
    obtain u where u: "temporary_string name = ok_conv u" "bound (world s) u = Some (reg_id current)"
      using r c(1) by auto
    have "yields (delete_name E name s1) (\<lambda>(m, s'). live (world s') = live (world s) \<and>
      (\<forall>other i. bound (world s) other = Some i \<and> \<not> list_ex (\<lambda>j. f64_eq j i) ids \<longrightarrow> bound (world s') other = Some i) \<and>
      (\<forall>other. bound (world s) other = None \<longrightarrow> bound (world s') other = None) \<and>
      (\<forall>x c. m = Applied x c \<longrightarrow> (\<exists>u. temporary_string name = ok_conv u \<and> bound (world s') u = None)))"
    proof (rule hosted_mono [OF delete_name_spec [OF P name]], elim conjE, intro conjI)
      fix m and s' :: "'w host_state"
      assume others: "\<forall>other. bound (world s') other = bound (world s1) other \<or> bound (world s') other = None \<and>
          (\<exists>u. temporary_string name = ok_conv u \<and> bound (world s1) other = bound (world s1) u)"
      show "\<forall>other i. bound (world s) other = Some i \<and> \<not> list_ex (\<lambda>j. f64_eq j i) ids \<longrightarrow> bound (world s') other = Some i"
      proof (intro allI impI)
        fix other i
        assume i: "bound (world s) other = Some i \<and> \<not> list_ex (\<lambda>j. f64_eq j i) ids"
        then have "bound (world s) other \<noteq> bound (world s) u" using u(2) c(2) by auto
        then show "bound (world s') other = Some i" using spec [OF others, of other] i u(1) by (auto simp: k)
      qed
      show "\<forall>other. bound (world s) other = None \<longrightarrow> bound (world s') other = None"
        using others by (metis k(2))
    qed (simp_all add: k)
    then show ?thesis by (simp add: c)
  qed
qed

text \<open>The operands Excel documents for a registration, as functions of the descriptor.\<close>

definition descriptor_operands :: "nat list \<Rightarrow> RegistrationDescriptor \<Rightarrow> operand list" where
  "descriptor_operands m d =
     [OperString (length m # m), counted_operand (descriptor_export_name d),
      counted_operand (lit (encode_signature (descriptor_signature d))), counted_operand (descriptor_excel_name d),
      counted_operand (join_names (map arg_name (descriptor_arguments d))), OperNumber (macro_type (descriptor_visibility d)),
      counted_operand (descriptor_category d), counted_operand [], counted_operand (descriptor_help_topic d),
      counted_operand (descriptor_description d)] @
     map counted_operand (argument_help_texts (descriptor_arguments d))"

lemma prepared_registrable:
  assumes "prepare_registration i d (descriptor_signature d) = Inr p" "descriptor_strs d"
  shows "registrable p" "excel_name p = descriptor_excel_name d" "signature p = descriptor_signature d"
    "length m \<le> EXCEL_STRING_LIMIT \<Longrightarrow>
      register_operands m p = ok_conv (descriptor_operands m d) \<and> length (descriptor_operands m d) \<le> 255"
proof -
  note ok = prepare_registration_ok [OF assms(1)]
  have strs: "\<forall>t \<in> set (texts_of p). is_str t" by (rule prepared_strs [OF assms(1,2)])
  show "registrable p" using ok(3,4) strs by (simp add: registrable_def list_all_iff)
  show "excel_name p = descriptor_excel_name d" "signature p = descriptor_signature d" by (fact ok)+
  have rest: "visibility p = descriptor_visibility d" "category_text p = descriptor_category d"
    "help_topic_text p = descriptor_help_topic d" "description_text p = descriptor_description d"
    "argument_help p = argument_help_texts (descriptor_arguments d)"
    using assms(1) by (auto simp: prepare_registration_def Let_def split: sum.splits)
  assume "length m \<le> EXCEL_STRING_LIMIT"
  then show "register_operands m p = ok_conv (descriptor_operands m d) \<and> length (descriptor_operands m d) \<le> 255"
    using register_operands_fit [of p m] strs ok(1,2,4,6-8) by (simp add: descriptor_operands_def rest)
qed

lemma preflight_accepts:
  assumes strs: "list_all descriptor_strs ds" and r: "preflight_registration umax ds = ok_conv ps"
  shows "list_all2 (\<lambda>d p. \<exists>i. prepare_registration i d (descriptor_signature d) = Inr p) ds ps"
    "list_all (descriptor_ok umax) ds" "distinct (map (\<lambda>d. ExcelNameKey (descriptor_excel_name d)) ds)"
proof -
  obtain gs where gs: "validate_descriptors umax [] [] ds = ok_conv gs" "prepare_registrations 0 (zip ds gs) = Inr ps"
    using r by (auto simp: preflight_registration_def conv_ok)
  note v = validate_descriptors_ok [OF gs(1)]
  show "list_all (descriptor_ok umax) ds" "distinct (map (\<lambda>d. ExcelNameKey (descriptor_excel_name d)) ds)"
    using v by blast+
  have "zip ds gs = map (\<lambda>d. (d, descriptor_signature d)) ds" using v by (simp add: zip_map2 zip_same_conv_map)
  then show "list_all2 (\<lambda>d p. \<exists>i. prepare_registration i d (descriptor_signature d) = Inr p) ds ps"
    using prepare_registrations_ok [OF gs(2)] by (simp add: list_all2_map1)
qed

text \<open>
  C29: what preflight accepts can be registered. For descriptors of Rust strings preflight
  always returns; what it accepts has as many entries as descriptors, in their order, with
  names that differ beyond ASCII case and valid signatures; and for a module path within the
  limit the operands of each entry can be built, at most 255 of them: the module path, the
  export name, the type text of the descriptor's signature, the function name, the argument
  names joined by commas, the macro type, category, help topic, description and argument help,
  each text as a counted string. The type text is that of no other valid signature.
\<close>

theorem preflighted_functions_reach_excel:
  assumes "list_all descriptor_strs ds"
  shows "\<exists>r. preflight_registration umax ds = Returns r \<and> (\<forall>ps. r = Inr ps \<longrightarrow>
    length ps = length ds \<and> distinct (map (\<lambda>p. ExcelNameKey (excel_name p)) ps) \<and>
    (\<forall>i < length ds. excel_name (ps ! i) = descriptor_excel_name (ds ! i) \<and> registrable (ps ! i) \<and>
      validate_signature (descriptor_signature (ds ! i)) = Inr () \<and>
      (\<forall>h. validate_signature h = Inr () \<and> encode_signature h = encode_signature (descriptor_signature (ds ! i)) \<longrightarrow>
         h = descriptor_signature (ds ! i)) \<and>
      (\<forall>m. length m \<le> EXCEL_STRING_LIMIT \<longrightarrow> register_operands m (ps ! i) = ok_conv (descriptor_operands m (ds ! i)) \<and>
         length (descriptor_operands m (ds ! i)) \<le> 255)))"
proof -
  obtain r where r: "preflight_registration umax ds = Returns r"
    using validate_descriptors_returns [of umax "[]" "[]" ds]
    by (cases "preflight_registration umax ds") (auto simp: preflight_registration_def conv_aborts)
  moreover have "length ps = length ds \<and> distinct (map (\<lambda>p. ExcelNameKey (excel_name p)) ps) \<and>
    (\<forall>i < length ds. excel_name (ps ! i) = descriptor_excel_name (ds ! i) \<and> registrable (ps ! i) \<and>
      validate_signature (descriptor_signature (ds ! i)) = Inr () \<and>
      (\<forall>h. validate_signature h = Inr () \<and> encode_signature h = encode_signature (descriptor_signature (ds ! i)) \<longrightarrow>
         h = descriptor_signature (ds ! i)) \<and>
      (\<forall>m. length m \<le> EXCEL_STRING_LIMIT \<longrightarrow> register_operands m (ps ! i) = ok_conv (descriptor_operands m (ds ! i)) \<and>
         length (descriptor_operands m (ds ! i)) \<le> 255))"
    if "r = Inr ps" for ps
  proof -
    have acc: "preflight_registration umax ds = ok_conv ps" using r that by simp
    note a = preflight_accepts [OF assms acc]
    have len: "length ps = length ds" using a(1) by (simp add: list_all2_lengthD)
    have each: "\<exists>k. prepare_registration k (ds ! i) (descriptor_signature (ds ! i)) = Inr (ps ! i)"
      "descriptor_strs (ds ! i)" "validate_signature (descriptor_signature (ds ! i)) = Inr ()" if "i < length ds" for i
      using a(1,2) assms that by (auto simp: list_all2_conv_all_nth list_all_length descriptor_ok_def)
    have name: "excel_name (ps ! i) = descriptor_excel_name (ds ! i)" if "i < length ds" for i
      using each [OF that] prepared_registrable(2) by blast
    then have "map (\<lambda>p. ExcelNameKey (excel_name p)) ps = map (\<lambda>d. ExcelNameKey (descriptor_excel_name d)) ds"
      using len by (intro nth_equalityI) simp_all
    then show ?thesis
      using a(3) len name each prepared_registrable(1,4) encode_signature_inj by metis
  qed
  ultimately show ?thesis by blast
qed

section \<open>A host that keeps one registration\<close>

definition one_id :: u64 where "one_id = 0x3FF0000000000000"

definition sample_boolean :: "32 word \<Rightarrow> xloper" where
  "sample_boolean b = Xloper (sample_header 4) 0 NullPtr b 0 0 0 0 pointer.Null"

definition sample_name_error :: xloper where
  "sample_name_error = Xloper (sample_header 0x10) 0 NullPtr 0 29 0 0 0 pointer.Null"

type_synonym sample_world = "bool \<times> nat list option"

fun sample_callback :: "int \<Rightarrow> operand list \<Rightarrow> sample_world \<Rightarrow> (int \<times> xloper) \<times> sample_world" where
  "sample_callback f ops (r, n) =
     (if f = XL_FREE then ((0, nil_xloper), (r, n))
      else if f = XLF_REGISTER \<and> \<not> r then
        (case drop 3 ops of OperString u # _ \<Rightarrow> ((0, sample_cell one_id), (True, Some u)) | _ \<Rightarrow> ((2, nil_xloper), (r, n)))
      else if f = XLF_EVALUATE then
        (case ops of [OperString u] \<Rightarrow> ((0, if n = Some u then sample_cell one_id else sample_name_error), (r, n))
         | _ \<Rightarrow> ((2, nil_xloper), (r, n)))
      else if f = XLF_UNREGISTER then
        (case ops of [OperNumber i] \<Rightarrow> if i = one_id then ((0, sample_boolean 1), (False, n)) else ((0, sample_boolean 0), (r, n))
         | _ \<Rightarrow> ((2, nil_xloper), (r, n)))
      else if f = XLF_SET_NAME then
        (case ops of [OperString u] \<Rightarrow> ((0, sample_boolean 1), (r, if n = Some u then None else n)) | _ \<Rightarrow> ((2, nil_xloper), (r, n)))
      else ((2, nil_xloper), (r, n)))"

definition sample_excel :: "sample_world excel" where
  "sample_excel = \<lparr> platform = Width32, admits = (\<lambda>_. True), resolved = (\<lambda>_. True), excel_callback = sample_callback \<rparr>"

fun sample_live :: "sample_world \<Rightarrow> u64 set" where "sample_live (r, n) = (if r then {one_id} else {})"
fun sample_bound :: "sample_world \<Rightarrow> nat list \<Rightarrow> u64 option" where
  "sample_bound (r, n) u = (if n = Some u then Some one_id else None)"

definition sample_registration :: PreparedRegistration where
  "sample_registration = \<lparr> descriptor_index = 0, export_name = [0x66], excel_name = [0x46],
     signature = \<lparr> execution = MainThread, sig_arguments = [], return_abi = ReturnValue12, volatile = False \<rparr>,
     visibility = Public, export_name_text = [0x66], excel_name_text = [0x46], category_text = [], help_topic_text = [],
     description_text = [], argument_names = [], type_text = [0x51], argument_help = [] \<rparr>"

definition sample_state :: "sample_world \<Rightarrow> sample_world host_state" where
  "sample_state w = \<lparr> session = Available, audit_debts = [], audit_dropped = 0, world = w \<rparr>"

lemma sample_reply_types:
  "value_type_from_raw (base_type (header (sample_cell i))) = Some XlNumber"
  "value_type_from_raw (base_type (header (sample_boolean b))) = Some XlBoolean" "boolean (sample_boolean b) = b"
  "value_type_from_raw (base_type (header sample_name_error)) = Some XlError" "error_code sample_name_error = XLERR_NAME"
  "value_type_from_raw (base_type (header nil_xloper)) = Some XlNil"
  by (simp_all add: sample_cell_def sample_boolean_def sample_name_error_def nil_xloper_def sample_header_def base_type_def
      value_type_from_raw_def XLTYPE_MASK_def XLERR_NAME_def)

lemma one_id_valid: "is_finite one_id" "valid_registration_id one_id"
proof -
  have "f64_exponent one_id = 1023" by (simp add: one_id_def f64_exponent_def)
  then show "is_finite one_id" "valid_registration_id one_id"
    by (simp_all add: is_finite_def valid_registration_id_def f64_rat_def)
qed

lemma sample_results:
  "excel_number (sample_cell one_id) i \<longleftrightarrow> i = one_id" "\<not> excel_number nil_xloper i" "\<not> excel_name_error (sample_cell one_id)"
  "excel_name_error sample_name_error" "\<not> excel_number sample_name_error i"
  "excel_true (sample_boolean b) \<longleftrightarrow> b \<noteq> 0" "\<not> excel_name_error nil_xloper"
  using one_id_valid by (auto simp: excel_number_def excel_name_error_def excel_true_def sample_reply_types sample_fields)

lemma sample_promises: "excel_promises sample_excel sample_live sample_bound"
  unfolding excel_promises_def
proof (intro conjI)
  show "register_promise sample_excel sample_live sample_bound"
    unfolding register_promise_def
  proof (intro allI impI, elim conjE)
    fix ops units status res and w w' :: sample_world
    assume c: "excel_callback sample_excel XLF_REGISTER ops w = ((status, res), w')" and o: "3 < length ops" "ops ! 3 = OperString units"
    have "drop 3 ops = OperString units # drop 4 ops" using Cons_nth_drop_Suc [OF o(1)] o(2) by simp
    then show "(status = XLRET_SUCCESS \<longrightarrow> sample_live w \<subseteq> sample_live w' \<and>
        sample_live w' \<subseteq> sample_live w \<union> set_option (sample_bound w' units) \<and>
       (\<forall>i. excel_number res i \<longrightarrow> sample_live w' = insert i (sample_live w))) \<and>
     (status \<noteq> XLRET_SUCCESS \<and> \<not> is_terminal (callback_status_from_raw status) \<longrightarrow> sample_live w' = sample_live w)"
      using c by (cases w) (auto simp: sample_excel_def function_ids XLRET_SUCCESS_def sample_results split: if_splits)
  qed
  show "unregister_promise sample_excel sample_live"
    unfolding unregister_promise_def sample_excel_def
    by (auto simp: function_ids sample_results split: if_splits)
  show "free_promise sample_excel sample_live sample_bound" by (auto simp: free_promise_def sample_excel_def)
  show "evaluate_promise sample_excel sample_live sample_bound"
    unfolding evaluate_promise_def sample_excel_def by (auto simp: function_ids sample_results split: if_splits)
  show "set_name_promise sample_excel sample_live sample_bound"
    unfolding set_name_promise_def sample_excel_def by (auto simp: function_ids sample_results split: if_splits)
qed

lemma sample_session_call:
  assumes "session s = Available" "length ops < 2 ^ 31" "sample_callback f ops (world s) = ((0, res), w)"
  shows "session_call sample_excel f ops s = (Inr (CallbackSuccess, Readable \<lparr> owner_raw = res, owner_state = Live \<rparr>), s\<lparr> world := w \<rparr>)"
  using assms
  by (simp add: session_call_def call_with_session_def excel12_with_invocation_def sample_excel_def Let_def observe_def
      callback_status_from_raw_def XLRET_SUCCESS_def)

lemma sample_release:
  "release_result sample_excel (Readable \<lparr> owner_raw = res, owner_state = Live \<rparr>) s = (Inr (), s)"
  by (cases "world s") (simp add: release_in_place_def excel_free_def sample_excel_def Let_def observe_def callback_status_from_raw_def
      XLRET_SUCCESS_def)

lemma sample_invoke:
  assumes "session s = Available" "length ops < 2 ^ 31" "sample_callback f ops (world s) = ((0, res), w)" "dec res = Returns d"
  shows "invoke_protocol sample_excel f ops dec s = Returns (Decoded d (Inr ()), s\<lparr> world := w \<rparr>)"
  by (simp add: invoke_protocol_def sample_session_call [OF assms(1-3)] sample_release bind_conv_def assms(4) del: release_result.simps)

abbreviation sample_id :: RegistrationId where
  "sample_id \<equiv> \<lparr> reg_id = one_id, reg_name = [0x46] \<rparr>"

lemma sample_text: "temporary_string [0x46] = ok_conv [1, 0x46]"
  by (simp add: temporary_string_fits is_str_def is_scalar_def encode_utf16_def encode_utf16_char_def EXCEL_STRING_LIMIT_def)

lemma sample_registrable: "registrable sample_registration" "is_str (excel_name sample_registration)"
  by (simp_all add: registrable_def sample_registration_def texts_of_def is_str_def is_scalar_def)

lemma sample_free_name:
  "is_registered_name sample_excel [0x46] (sample_state (False, None)) = Returns (Inr False, sample_state (False, None))"
proof -
  have "invoke_protocol sample_excel XLF_EVALUATE [OperString [1, 0x46]] is_registered_result (sample_state (False, None))
      = Returns (Decoded (Inr False) (Inr ()), (sample_state (False, None))\<lparr> world := (False, None) \<rparr>)"
    by (rule sample_invoke [where res = sample_name_error])
      (simp_all add: sample_state_def function_ids is_registered_result_def callback_value_type_def sample_reply_types bind_conv_def)
  then show ?thesis
    by (simp add: is_registered_name_def sample_text with_text_def invoke_def bind_host_def return_host_def invoke_result_def
        sample_state_def)
qed

lemma sample_operands:
  "register_operands [0x43] sample_registration = ok_conv
    (OperString [1, 0x43] # map counted_operand [[0x66], [0x51], [0x46], []] @
     OperNumber (macro_type Public) # map counted_operand [[], [], [], []])"
  using register_operands_fit [of sample_registration "[0x43]"]
  by (simp add: sample_registration_def texts_of_def is_str_def is_scalar_def encode_utf16_def encode_utf16_char_def EXCEL_STRING_LIMIT_def)

lemma sample_register:
  "host_register sample_excel [0x43] sample_registration (sample_state (False, None)) =
     Returns (Applied sample_id (Inr ()), sample_state (True, Some [1, 0x46]))"
proof -
  have v: "read_number (sample_cell one_id) ''registration'' = ok_conv one_id"
    using one_id_valid(1) sample_types(1,2) [of one_id]
    by (simp add: read_number_def validated_def f64_from_excel_def bind_conv_def sample_fields)
  have n: "excel_name sample_registration = [0x46]" by (simp add: sample_registration_def)
  have "invoke_protocol sample_excel XLF_REGISTER (OperString [1, 0x43] # map counted_operand [[0x66], [0x51], [0x46], []] @
     OperNumber (macro_type Public) # map counted_operand [[], [], [], []]) (decode_registration_id [0x46]) (sample_state (False, None))
      = Returns (Decoded (Inr sample_id) (Inr ()), (sample_state (False, None))\<lparr> world := (True, Some [1, 0x46]) \<rparr>)"
    by (rule sample_invoke [where res = "sample_cell one_id"])
      (simp_all add: sample_state_def function_ids counted_operand_def encode_utf16_def encode_utf16_char_def decode_registration_id_def
        callback_value_type_def sample_reply_types bind_conv_def v one_id_valid)
  then show ?thesis
    by (simp add: host_register_def with_operands_def sample_operands n bind_host_def return_host_def mutation_from_invocation_def
        sample_state_def)
qed

definition sample_descriptor :: RegistrationDescriptor where
  "sample_descriptor = \<lparr> descriptor_export_name = [0x66], descriptor_excel_name = [0x46],
     descriptor_signature = \<lparr> execution = MainThread, sig_arguments = [], return_abi = ReturnValue12, volatile = False \<rparr>,
     descriptor_category = [], descriptor_description = [], descriptor_help_topic = [], descriptor_visibility = Public,
     descriptor_arguments = [] \<rparr>"

lemma sample_preflight: "preflight_registration (2 ^ 64 - 1) [sample_descriptor] = ok_conv [sample_registration]"
proof -
  have "validate_function_name [0x46] = ok_conv ()"
    by (simp add: validate_function_name_def is_a1_reference_eq is_r1c1_reference_eq Let_def
        is_function_name_start_def is_ascii_alphabetic_def EXCEL_FUNCTION_NAME_LIMIT_def encode_utf16_def
        encode_utf16_char_def lit_def ascii_eq_ignore_case_def to_ascii_uppercase_def is_grid_index_def
        unicode_decimal_digit_ascii is_ascii_digit_def)
  then have v: "validate_descriptors (2 ^ 64 - 1) [] [] [sample_descriptor] = ok_conv [descriptor_signature sample_descriptor]"
    by (simp add: sample_descriptor_def validate_argument_names_def saturating_add_def Let_def EXCEL_STRING_LIMIT_def
        validate_signature_def is_async_def bind_conv_def)
  have p: "prepare_registration 0 sample_descriptor (descriptor_signature sample_descriptor) = Inr sample_registration"
    by (simp add: prepare_registration_def sample_descriptor_def Let_def check_excel_string_def validate_excel_string_def
        argument_names_text_def argument_help_texts_def encode_signature_def is_async_def is_thread_safe_def lit_def
        encode_utf16_def encode_utf16_char_def EXCEL_STRING_LIMIT_def sample_registration_def)
  show ?thesis unfolding preflight_registration_def v bind_conv_def by (simp add: p)
qed

theorem preflighted_functions_reach_excel_witness:
  "\<exists>ps. preflight_registration (2 ^ 64 - 1) [sample_descriptor] = ok_conv ps \<and>
     (\<exists>ops. register_operands [0x43] (ps ! 0) = ok_conv ops \<and> ops ! 2 = counted_operand (lit ''Q'') \<and>
        ops ! 3 = counted_operand [0x46])"
proof -
  have "list_all descriptor_strs [sample_descriptor]"
    by (simp add: descriptor_strs_def sample_descriptor_def is_str_def is_scalar_def)
  then obtain r where r: "preflight_registration (2 ^ 64 - 1) [sample_descriptor] = Returns r"
    and all: "\<forall>ps. r = Inr ps \<longrightarrow> (\<forall>i < length [sample_descriptor]. \<forall>m. length m \<le> EXCEL_STRING_LIMIT \<longrightarrow>
      register_operands m (ps ! i) = ok_conv (descriptor_operands m ([sample_descriptor] ! i)))"
    using preflighted_functions_reach_excel [of "[sample_descriptor]" "2 ^ 64 - 1"] by blast
  have "r = Inr [sample_registration]" using r unfolding sample_preflight by simp
  then have "register_operands [0x43] ([sample_registration] ! 0) = ok_conv (descriptor_operands [0x43] sample_descriptor)"
    using all [rule_format, of "[sample_registration]" 0 "[0x43]"] by (simp add: EXCEL_STRING_LIMIT_def)
  moreover have "descriptor_operands [0x43] sample_descriptor ! 2 = counted_operand (lit ''Q'')"
    "descriptor_operands [0x43] sample_descriptor ! 3 = counted_operand [0x46]"
    by (simp_all add: descriptor_operands_def sample_descriptor_def encode_signature_def is_async_def is_thread_safe_def)
  ultimately show ?thesis unfolding sample_preflight by (intro exI [of _ "[sample_registration]"]) simp
qed

end
