(* ===== verification/Registration.thy ===== *)
theory Registration
  imports Registration_Host "HOL-Library.Multiset" "HOL-Library.Sublist"
begin

text \<open>
  The registration transaction and its cleanup: the entries of the recovery ledger
  (\<open>crates/xlfn/src/registration/ledger.rs\<close>), the registrar
  (\<open>crates/xlfn/src/registration/registrar.rs\<close>) and the retry of metadata debt
  (\<open>crates/xlfn/src/registration/recovery.rs\<close>).
\<close>

section \<open>Entries\<close>

datatype RegistrationCleanupState = Registered | Unregistered | NameDeleted

record PendingRegistration =
  registration :: RegistrationId
  cleanup_state :: RegistrationCleanupState

definition pending_from :: "RegistrationId \<Rightarrow> PendingRegistration" where
  "pending_from r = \<lparr> registration = r, cleanup_state = Registered \<rparr>"

datatype CleanupSeverity = BestEffort | UnloadUnsafe

fun cleanup_severity :: "RegistrationCleanupState \<Rightarrow> CleanupSeverity" where
  "cleanup_severity Registered = UnloadUnsafe"
| "cleanup_severity _ = BestEffort"

record MetadataDebt =
  debt_registration :: RegistrationId
  attempts :: nat
  last_error :: XllError

definition new_debt :: "RegistrationId \<Rightarrow> XllError \<Rightarrow> MetadataDebt" where
  "new_debt r e = \<lparr> debt_registration = r, attempts = 1, last_error = e \<rparr>"

definition retry_failed :: "XllError \<Rightarrow> MetadataDebt \<Rightarrow> MetadataDebt" where
  "retry_failed e d = \<lparr> debt_registration = debt_registration d, attempts = min (2 ^ 32 - 1) (attempts d + 1), last_error = e \<rparr>"

definition debt_key :: "MetadataDebt \<Rightarrow> ustr" where
  "debt_key d = ExcelNameKey (reg_name (debt_registration d))"

record UnknownRegistrationState =
  unknown_export_name :: ustr
  unknown_excel_name :: ustr
  recovery_error :: XllError

subsection \<open>The journal\<close>

record HostMutationJournal =
  pending_registrations :: "PendingRegistration list"
  metadata_debt :: "MetadataDebt list"
  unknown_registrations :: "UnknownRegistrationState list"
  superseded_metadata :: "ustr list"

definition empty_journal :: HostMutationJournal where
  "empty_journal = \<lparr> pending_registrations = [], metadata_debt = [], unknown_registrations = [], superseded_metadata = [] \<rparr>"

definition record_registrations :: "RegistrationId list \<Rightarrow> HostMutationJournal \<Rightarrow> HostMutationJournal" where
  "record_registrations rs j = j\<lparr> pending_registrations := pending_registrations j @ map pending_from rs \<rparr>"

definition from_registrations :: "RegistrationId list \<Rightarrow> HostMutationJournal" where
  "from_registrations rs = record_registrations rs empty_journal"

definition retain_pending :: "PendingRegistration list \<Rightarrow> HostMutationJournal \<Rightarrow> HostMutationJournal" where
  "retain_pending ps j = j\<lparr> pending_registrations := pending_registrations j @ ps \<rparr>"

definition retain_metadata :: "MetadataDebt list \<Rightarrow> HostMutationJournal \<Rightarrow> HostMutationJournal" where
  "retain_metadata ds j = j\<lparr> metadata_debt := metadata_debt j @ ds \<rparr>"

definition mark_unknown :: "UnknownRegistrationState \<Rightarrow> HostMutationJournal \<Rightarrow> HostMutationJournal" where
  "mark_unknown u j = j\<lparr> unknown_registrations := unknown_registrations j @ [u] \<rparr>"

definition merge_journal :: "HostMutationJournal \<Rightarrow> HostMutationJournal \<Rightarrow> HostMutationJournal" where
  "merge_journal j other =
     \<lparr> pending_registrations = pending_registrations j @ pending_registrations other,
       metadata_debt = metadata_debt j @ metadata_debt other,
       unknown_registrations = unknown_registrations j @ unknown_registrations other,
       superseded_metadata = superseded_metadata j @ superseded_metadata other \<rparr>"

definition is_unknown :: "HostMutationJournal \<Rightarrow> bool" where
  "is_unknown j \<longleftrightarrow> unknown_registrations j \<noteq> []"

definition into_journal :: "RegistrationId list \<Rightarrow> HostMutationJournal" where
  "into_journal rs = (from_registrations rs)\<lparr> superseded_metadata := map (\<lambda>r. ExcelNameKey (reg_name r)) rs \<rparr>"

record RegistrationTransactionError =
  source :: XllError
  journal :: HostMutationJournal

definition transaction_error :: "XllError \<Rightarrow> RegistrationTransactionError" where
  "transaction_error e = \<lparr> source = e, journal = empty_journal \<rparr>"

section \<open>Unregistering\<close>

record UnregisterResult =
  succeeded :: "PendingRegistration list"
  failed :: "(PendingRegistration \<times> XllError) list"
  debts :: "MetadataDebt list"
  cleanup_issues :: "XllError list"

definition new_result :: UnregisterResult where
  "new_result = \<lparr> succeeded = [], failed = [], debts = [], cleanup_issues = [] \<rparr>"

definition issues_of :: "unit XllResult \<Rightarrow> XllError list" where
  "issues_of cleanup = (case cleanup of Inl e \<Rightarrow> [e] | Inr _ \<Rightarrow> [])"

definition push_failed :: "PendingRegistration \<Rightarrow> XllError \<Rightarrow> UnregisterResult \<Rightarrow> UnregisterResult" where
  "push_failed p e out = out\<lparr> failed := failed out @ [(p, e)] \<rparr>"

definition push_succeeded :: "PendingRegistration \<Rightarrow> UnregisterResult \<Rightarrow> UnregisterResult" where
  "push_succeeded p out = out\<lparr> succeeded := succeeded out @ [p] \<rparr>"

definition push_debt :: "PendingRegistration \<Rightarrow> XllError \<Rightarrow> UnregisterResult \<Rightarrow> UnregisterResult" where
  "push_debt p e out = out\<lparr> debts := debts out @ [new_debt (registration p) e] \<rparr>"

definition push_issues :: "unit XllResult \<Rightarrow> UnregisterResult \<Rightarrow> UnregisterResult" where
  "push_issues cleanup out = out\<lparr> cleanup_issues := cleanup_issues out @ issues_of cleanup \<rparr>"

text \<open>The unregister call of one entry: the entry is settled, or its name is next.\<close>

definition unregister_entry ::
    "'w excel \<Rightarrow> PendingRegistration \<Rightarrow> UnregisterResult \<Rightarrow> ('w, UnregisterResult + PendingRegistration \<times> UnregisterResult) hosted" where
  "unregister_entry E p out =
     (if cleanup_state p = Registered then
        bind_host (unregister_registration E (registration p)) (\<lambda>mutation. return_host (case mutation of
            Applied _ cleanup \<Rightarrow> Inr (p\<lparr> cleanup_state := Unregistered \<rparr>, push_issues cleanup out)
          | Rejected e \<Rightarrow> Inl (push_failed p e out)
          | MutationIndeterminate _ e \<Rightarrow> Inl (push_failed p e out)))
      else return_host (Inr (p, out)))"

definition delete_entry_name :: "'w excel \<Rightarrow> PendingRegistration \<Rightarrow> UnregisterResult \<Rightarrow> ('w, UnregisterResult) hosted" where
  "delete_entry_name E p out s =
     (if \<not> permits_callbacks s then Returns (push_debt p Closing out, s)
      else bind_host (delete_name_if_binding_matches E (reg_name (registration p)) [reg_id (registration p)])
        (\<lambda>mutation. return_host (case mutation of
            Applied _ cleanup \<Rightarrow> push_succeeded (p\<lparr> cleanup_state := NameDeleted \<rparr>) (push_issues cleanup out)
          | Rejected e \<Rightarrow> push_debt p e out
          | MutationIndeterminate _ e \<Rightarrow> push_debt p e out)) s)"

definition unregister_one :: "'w excel \<Rightarrow> PendingRegistration \<Rightarrow> UnregisterResult \<Rightarrow> ('w, UnregisterResult) hosted" where
  "unregister_one E p out s =
     (if \<not> permits_callbacks s then Returns (push_failed p Closing out, s)
      else if cleanup_state p = NameDeleted then Returns (push_succeeded p out, s)
      else bind_host (unregister_entry E p out) (\<lambda>r. case r of
          Inl out \<Rightarrow> return_host out
        | Inr (p, out) \<Rightarrow> delete_entry_name E p out) s)"

fun unregister_loop :: "'w excel \<Rightarrow> PendingRegistration list \<Rightarrow> UnregisterResult \<Rightarrow> ('w, UnregisterResult) hosted" where
  "unregister_loop E [] out = return_host out"
| "unregister_loop E (p # ps) out = bind_host (unregister_one E p out) (unregister_loop E ps)"

definition unregister_pending :: "'w excel \<Rightarrow> PendingRegistration list \<Rightarrow> ('w, UnregisterResult) hosted" where
  "unregister_pending E ps = unregister_loop E (rev ps) new_result"

section \<open>The registrar\<close>

definition retain_outcome :: "UnregisterResult \<Rightarrow> RegistrationTransactionError \<Rightarrow> RegistrationTransactionError" where
  "retain_outcome out err =
     err\<lparr> journal := retain_metadata (debts out) (retain_pending (map fst (failed out)) (journal err)) \<rparr>"

definition registration_release_failure ::
    "'w excel \<Rightarrow> RegistrationId \<Rightarrow> XllError \<Rightarrow> ('w, RegistrationTransactionError) hosted" where
  "registration_release_failure E r src s =
     (let pending = [pending_from r]; err = transaction_error src in
      if \<not> permits_callbacks s then Returns (err\<lparr> journal := retain_pending pending (journal err) \<rparr>, s)
      else bind_host (unregister_pending E pending) (\<lambda>out. return_host (retain_outcome out err)) s)"

definition reconcile_malformed_registration_result ::
    "'w excel \<Rightarrow> PreparedRegistration \<Rightarrow> XllError \<Rightarrow> ('w, RegistrationTransactionError) hosted" where
  "reconcile_malformed_registration_result E d src =
     bind_host (registration_id E (excel_name d)) (\<lambda>r. case r of
         Inr (Some reg) \<Rightarrow> registration_release_failure E reg src
       | Inr None \<Rightarrow> return_host (transaction_error src)
       | Inl e \<Rightarrow> return_host (let err = transaction_error src in err\<lparr> journal := mark_unknown
           \<lparr> unknown_export_name = export_name d, unknown_excel_name = excel_name d, recovery_error = e \<rparr> (journal err) \<rparr>))"

definition register_mutation ::
    "'w excel \<Rightarrow> PreparedRegistration \<Rightarrow> RegistrationId RegistrationMutation \<Rightarrow>
     ('w, RegistrationTransactionError + RegistrationId) hosted" where
  "register_mutation E d mutation = (case mutation of
       Applied v (Inr _) \<Rightarrow> return_host (Inr v)
     | Applied v (Inl e) \<Rightarrow> bind_host (registration_release_failure E v e) (\<lambda>err. return_host (Inl err))
     | Rejected e \<Rightarrow> return_host (Inl (transaction_error e))
     | MutationIndeterminate status e \<Rightarrow>
         if is_terminal status
         then return_host (Inl (let err = transaction_error e in err\<lparr> journal := mark_unknown
           \<lparr> unknown_export_name = export_name d, unknown_excel_name = excel_name d, recovery_error = e \<rparr> (journal err) \<rparr>))
         else bind_host (reconcile_malformed_registration_result E d e) (\<lambda>err. return_host (Inl err)))"

definition register_one ::
    "'w excel \<Rightarrow> nat list \<Rightarrow> PreparedRegistration \<Rightarrow> ('w, RegistrationTransactionError + RegistrationId) hosted" where
  "register_one E module_units d =
     bind_host (is_registered_name E (excel_name d)) (\<lambda>r. case r of
         Inl e \<Rightarrow> return_host (Inl (transaction_error e))
       | Inr True \<Rightarrow> return_host (Inl (transaction_error (RegistrationConflict (excel_name d))))
       | Inr False \<Rightarrow> bind_host (host_register E module_units d) (register_mutation E d))"

text \<open>The rollback of a failed transaction, then its loop.\<close>

definition roll_back :: "'w excel \<Rightarrow> RegistrationId list \<Rightarrow> RegistrationTransactionError \<Rightarrow> ('w, RegistrationTransactionError) hosted" where
  "roll_back E registered err s =
     (let pending = map pending_from registered in
      if \<not> permits_callbacks s then Returns (err\<lparr> journal := retain_pending pending (journal err) \<rparr>, s)
      else bind_host (unregister_pending E pending) (\<lambda>out. return_host (retain_outcome out err)) s)"

fun register_all_transaction ::
    "'w excel \<Rightarrow> nat list \<Rightarrow> RegistrationId list \<Rightarrow> PreparedRegistration list \<Rightarrow>
     ('w, RegistrationTransactionError + RegistrationId list) hosted" where
  "register_all_transaction E module_units registered [] = return_host (Inr registered)"
| "register_all_transaction E module_units registered (d # ds) =
     bind_host (register_one E module_units d) (\<lambda>r. case r of
         Inr i \<Rightarrow> register_all_transaction E module_units (registered @ [i]) ds
       | Inl err \<Rightarrow> bind_host (roll_back E registered err) (\<lambda>err. return_host (Inl err)))"

definition register_all ::
    "'w excel \<Rightarrow> nat list \<Rightarrow> PreparedRegistration list \<Rightarrow> ('w, RegistrationTransactionError + RegistrationId list) hosted" where
  "register_all E module_units ds = register_all_transaction E module_units [] ds"

section \<open>Metadata debt\<close>

type_synonym debt_map = "(ustr \<times> MetadataDebt list) list"

record MetadataDebtRetryResult =
  remaining :: debt_map
  retry_issues :: "XllError list"
  terminal :: "XllError option"

definition terminal_retry_error :: "'w host_state \<Rightarrow> XllError option" where
  "terminal_retry_error s = map_option (\<lambda>status. ExcelApi Evaluate (Suppressed status)) (terminal_status s)"

fun retry_loop :: "'w excel \<Rightarrow> debt_map \<Rightarrow> MetadataDebtRetryResult \<Rightarrow> ('w, MetadataDebtRetryResult) hosted" where
  "retry_loop E [] out s = Returns (out, s)"
| "retry_loop E ((key, bucket) # later) out s =
     (if bucket = [] then retry_loop E later out s
      else if \<not> permits_callbacks s then
        Returns (out\<lparr> terminal := (case terminal_status s of None \<Rightarrow> terminal out
            | Some status \<Rightarrow> Some (ExcelApi Evaluate (Suppressed status))),
          remaining := remaining out @ (key, bucket) # later \<rparr>, s)
      else bind_host (delete_name_if_binding_matches E (reg_name (debt_registration (hd bucket)))
          (map (\<lambda>d. reg_id (debt_registration d)) bucket)) (\<lambda>mutation s.
        let give_up = (\<lambda>e.
          let out = out\<lparr> remaining := remaining out @ [(key, map (retry_failed e) bucket)] \<rparr> in
          if \<not> permits_callbacks s then Returns (out\<lparr> remaining := remaining out @ later, terminal := Some e \<rparr>, s)
          else retry_loop E later out s)
        in case mutation of
          Applied _ cleanup \<Rightarrow> retry_loop E later (out\<lparr> retry_issues := retry_issues out @ issues_of cleanup \<rparr>) s
        | Rejected e \<Rightarrow> give_up e
        | MutationIndeterminate _ e \<Rightarrow> give_up e) s)"

definition retry_metadata_debt_with_host :: "'w excel \<Rightarrow> debt_map \<Rightarrow> ('w, MetadataDebtRetryResult) hosted" where
  "retry_metadata_debt_with_host E ds =
     bind_host (retry_loop E ds \<lparr> remaining = [], retry_issues = [], terminal = None \<rparr>) (\<lambda>out s.
       Returns (out\<lparr> terminal := (case terminal out of Some e \<Rightarrow> Some e | None \<Rightarrow> terminal_retry_error s) \<rparr>, s))"

section \<open>Unregistering\<close>

definition registered_ids :: "PendingRegistration list \<Rightarrow> u64 set" where
  "registered_ids ps = {reg_id (registration p) | p. p \<in> set ps \<and> cleanup_state p = Registered}"

definition entry_names :: "PendingRegistration list \<Rightarrow> bool" where
  "entry_names ps \<longleftrightarrow> list_all (\<lambda>p. is_str (reg_name (registration p))) ps"

definition entries :: "UnregisterResult \<Rightarrow> RegistrationId list" where
  "entries out = map registration (succeeded out) @ map (registration \<circ> fst) (failed out) @ map debt_registration (debts out)"

lemmas push_defs = push_failed_def push_succeeded_def push_debt_def push_issues_def

definition unregistered ::
    "('w \<Rightarrow> u64 set) \<Rightarrow> PendingRegistration list \<Rightarrow> UnregisterResult \<Rightarrow> 'w \<Rightarrow> UnregisterResult \<Rightarrow> 'w \<Rightarrow> bool" where
  "unregistered live ps out w out' w' \<longleftrightarrow>
     live w' \<subseteq> live w \<and> live w - registered_ids ps \<subseteq> live w' \<and>
     live w' \<inter> registered_ids ps \<subseteq> registered_ids (map fst (failed out')) \<and> set (failed out) \<subseteq> set (failed out') \<and>
     registered_ids (map fst (failed out')) \<subseteq> registered_ids (map fst (failed out)) \<union> registered_ids ps \<and>
     mset (entries out') = mset (entries out) + mset (map registration ps)"

lemma registered_ids_simps [simp]:
  "registered_ids [] = {}"
  "registered_ids (p # ps) = (if cleanup_state p = Registered then {reg_id (registration p)} else {}) \<union> registered_ids ps"
  "registered_ids (ps @ qs) = registered_ids ps \<union> registered_ids qs"
  by (auto simp: registered_ids_def)

lemma registered_ids_mono: "set ps \<subseteq> set qs \<Longrightarrow> registered_ids ps \<subseteq> registered_ids qs"
  by (auto simp: registered_ids_def)

lemma unregistered_trans:
  assumes "unregistered live [p] out w out1 w1" "unregistered live ps out1 w1 out2 w2"
  shows "unregistered live (p # ps) out w out2 w2"
proof -
  have "registered_ids (map fst (failed out1)) \<subseteq> registered_ids (map fst (failed out2))"
    using assms(2) by (intro registered_ids_mono) (auto simp: unregistered_def)
  moreover have "registered_ids (p # ps) = registered_ids [p] \<union> registered_ids ps" by simp
  ultimately show ?thesis
    using assms unfolding unregistered_def by (simp del: registered_ids_simps(2)) blast
qed

lemma delete_entry_name_spec:
  assumes P: "excel_promises E live bound" and name: "is_str (reg_name (registration p))" and p: "cleanup_state p \<noteq> Registered"
  shows "yields (delete_entry_name E p out s) (\<lambda>(out', s'). unregistered live [p] out (world s) out' (world s'))"
proof (cases "permits_callbacks s")
  case False
  then show ?thesis using p by (simp add: delete_entry_name_def unregistered_def push_defs entries_def new_debt_def)
next
  case True
  have "yields (bind_host (delete_name_if_binding_matches E (reg_name (registration p)) [reg_id (registration p)])
        (\<lambda>mutation. return_host (case mutation of
            Applied _ cleanup \<Rightarrow> push_succeeded (p\<lparr> cleanup_state := NameDeleted \<rparr>) (push_issues cleanup out)
          | Rejected e \<Rightarrow> push_debt p e out
          | MutationIndeterminate _ e \<Rightarrow> push_debt p e out)) s)
        (\<lambda>(out', s'). unregistered live [p] out (world s) out' (world s'))"
    by (rule hosted_bind [OF delete_name_if_binding_matches_spec [OF P name]])
      (use p in \<open>auto simp: return_host_def unregistered_def push_defs entries_def new_debt_def split: RegistrationMutation.splits\<close>)
  then show ?thesis using True by (simp add: delete_entry_name_def)
qed

lemma unregister_one_spec:
  fixes E :: "'w excel"
  assumes P: "excel_promises E live bound" and name: "is_str (reg_name (registration p))"
  shows "yields (unregister_one E p out s) (\<lambda>(out', s'). unregistered live [p] out (world s) out' (world s'))"
proof (cases "permits_callbacks s \<and> cleanup_state p \<noteq> NameDeleted")
  case False
  then show ?thesis by (auto simp: unregister_one_def unregistered_def push_defs entries_def)
next
  case run: True
  have "yields (bind_host (unregister_entry E p out) (\<lambda>r. case r of
          Inl out \<Rightarrow> return_host out | Inr (p, out) \<Rightarrow> delete_entry_name E p out) s)
      (\<lambda>(out', s'). unregistered live [p] out (world s) out' (world s'))"
  proof (cases "cleanup_state p = Registered")
    case False
    then show ?thesis using delete_entry_name_spec [OF P name, of out s]
      by (simp add: unregister_entry_def bind_host_def return_host_def)
  next
    case True
    define Q where "Q = (\<lambda>r w'. case r of
        Inl out' \<Rightarrow> unregistered live [p] out (world s) out' w'
      | Inr (q, out') \<Rightarrow> q = p\<lparr> cleanup_state := Unregistered \<rparr> \<and> (\<exists>c. out' = push_issues c out) \<and>
          live w' \<subseteq> live (world s) \<and> live (world s) - {reg_id (registration p)} \<subseteq> live w' \<and> reg_id (registration p) \<notin> live w')"
    have "yields (unregister_entry E p out s) (\<lambda>(r, s'). Q r (world s'))"
      unfolding unregister_entry_def if_P [OF True]
    proof (rule hosted_bind [OF unregister_registration_spec [OF P]], elim conjE)
      fix m :: "unit RegistrationMutation" and s' :: "'w host_state"
      assume "live (world s') \<subseteq> live (world s)" "live (world s) - {reg_id (registration p)} \<subseteq> live (world s')"
        "\<forall>x c. m = Applied x c \<longrightarrow> reg_id (registration p) \<notin> live (world s')"
      then show "yields (return_host (case m of
            Applied _ cleanup \<Rightarrow> Inr (p\<lparr> cleanup_state := Unregistered \<rparr>, push_issues cleanup out)
          | Rejected e \<Rightarrow> Inl (push_failed p e out)
          | MutationIndeterminate _ e \<Rightarrow> Inl (push_failed p e out)) s') (\<lambda>(r, s'). Q r (world s'))"
        using True by (cases m) (auto simp: Q_def return_host_def unregistered_def push_defs entries_def)
    qed
    then show ?thesis
    proof (rule hosted_bind)
      fix r and s' :: "'w host_state"
      assume q: "Q r (world s')"
      show "yields ((case r of Inl out \<Rightarrow> return_host out | Inr (p, out) \<Rightarrow> delete_entry_name E p out) s')
        (\<lambda>(out', s'). unregistered live [p] out (world s) out' (world s'))"
      proof (cases r)
        case (Inl out')
        then show ?thesis using q by (simp add: Q_def return_host_def)
      next
        case (Inr x)
        obtain q out' where x: "x = (q, out')" by (cases x)
        have "yields (delete_entry_name E q out' s') (\<lambda>(out'', s''). unregistered live [q] out' (world s') out'' (world s''))"
          using q Inr x name by (intro delete_entry_name_spec [OF P]) (simp_all add: Q_def)
        then have "yields (delete_entry_name E q out' s') (\<lambda>(out'', s''). unregistered live [p] out (world s) out'' (world s''))"
          by (rule hosted_mono) (use q Inr x True in \<open>auto simp: Q_def unregistered_def push_defs entries_def\<close>)
        then show ?thesis by (simp add: Inr x)
      qed
    qed
  qed
  then show ?thesis using run by (simp add: unregister_one_def)
qed

lemma unregister_loop_spec:
  assumes P: "excel_promises E live bound" and names: "entry_names ps"
  shows "yields (unregister_loop E ps out s) (\<lambda>(out', s'). unregistered live ps out (world s) out' (world s'))"
  using names
proof (induction ps arbitrary: out s)
  case Nil
  then show ?case by (simp add: return_host_def unregistered_def)
next
  case (Cons p ps)
  then have "is_str (reg_name (registration p))" "entry_names ps" by (simp_all add: entry_names_def)
  then show ?case
    unfolding unregister_loop.simps
    by (intro hosted_bind [OF unregister_one_spec [OF P]] hosted_mono [OF Cons.IH])
      (auto intro: unregistered_trans)
qed

lemma unregister_pending_spec:
  assumes P: "excel_promises E live bound" and names: "entry_names ps"
  shows "yields (unregister_pending E ps s) (\<lambda>(out, s'). unregistered live ps new_result (world s) out (world s'))"
proof -
  have "entry_names (rev ps)" using names by (simp add: entry_names_def)
  moreover have "registered_ids (rev ps) = registered_ids ps" by (simp add: registered_ids_def)
  ultimately show ?thesis
    unfolding unregister_pending_def
    by (intro hosted_mono [OF unregister_loop_spec [OF P]]) (simp_all add: unregistered_def rev_map [symmetric])
qed

lemma unregistered_live:
  assumes u: "unregistered live ps out w out' w'" and w: "live w \<subseteq> A \<union> registered_ids ps"
  shows "live w' \<subseteq> A \<union> registered_ids (map fst (failed out'))"
proof
  fix i assume i: "i \<in> live w'"
  have "live w' \<subseteq> live w" "live w' \<inter> registered_ids ps \<subseteq> registered_ids (map fst (failed out'))"
    using u by (simp_all add: unregistered_def)
  then show "i \<in> A \<union> registered_ids (map fst (failed out'))" using w i by blast
qed

lemma unregistered_names:
  assumes "unregistered live ps new_result w out w'" "entry_names ps"
  shows "entry_names (map fst (failed out))" "list_all (\<lambda>d. is_str (reg_name (debt_registration d))) (debts out)"
proof -
  have "mset (entries out) = mset (map registration ps)"
    using assms(1) by (simp add: unregistered_def new_result_def entries_def)
  then have "set (entries out) = set (map registration ps)" by (rule mset_eq_setD)
  moreover have "set (map (registration \<circ> fst) (failed out)) \<subseteq> set (entries out)"
    "set (map debt_registration (debts out)) \<subseteq> set (entries out)" by (auto simp: entries_def)
  ultimately show "entry_names (map fst (failed out))" "list_all (\<lambda>d. is_str (reg_name (debt_registration d))) (debts out)"
    using assms(2) unfolding entry_names_def list_all_iff by fastforce+
qed

section \<open>The registrar\<close>

definition journal_names :: "HostMutationJournal \<Rightarrow> bool" where
  "journal_names j \<longleftrightarrow> entry_names (pending_registrations j) \<and>
     list_all (\<lambda>d. is_str (reg_name (debt_registration d))) (metadata_debt j)"

text \<open>The journal accounts for the registrations of the new world that were not there in the old.\<close>

definition accounted_by :: "('w \<Rightarrow> u64 set) \<Rightarrow> HostMutationJournal \<Rightarrow> 'w \<Rightarrow> 'w \<Rightarrow> bool" where
  "accounted_by live j w w' \<longleftrightarrow> journal_names j \<and>
     (\<not> is_unknown j \<longrightarrow> live w' \<subseteq> live w \<union> registered_ids (pending_registrations j))"

lemmas journal_defs = retain_pending_def retain_metadata_def mark_unknown_def is_unknown_def transaction_error_def
  empty_journal_def retain_outcome_def pending_from_def

lemma registered_pending_from [simp]: "registered_ids (map pending_from rs) = reg_id ` set rs"
  by (induction rs) (auto simp: pending_from_def)

lemma roll_back_spec:
  fixes E :: "'w excel"
  assumes P: "excel_promises E live bound" and names: "list_all (\<lambda>r. is_str (reg_name r)) rs"
    and j: "journal_names (journal err)"
    and w: "\<not> is_unknown (journal err) \<Longrightarrow>
      live (world s) \<subseteq> live w0 \<union> registered_ids (pending_registrations (journal err)) \<union> reg_id ` set rs"
  shows "yields (roll_back E rs err s) (\<lambda>(err', s'). source err' = source err \<and> accounted_by live (journal err') w0 (world s'))"
proof -
  have n: "entry_names (map pending_from rs)" using names by (simp add: entry_names_def list_all_iff pending_from_def)
  show ?thesis
  proof (cases "permits_callbacks s")
    case False
    have "journal_names (retain_pending (map pending_from rs) (journal err))"
      using n j by (simp add: journal_names_def retain_pending_def entry_names_def)
    then show ?thesis using False w
      by (auto simp: roll_back_def Let_def accounted_by_def retain_pending_def is_unknown_def)
  next
    case True
    have "yields (bind_host (unregister_pending E (map pending_from rs)) (\<lambda>out. return_host (retain_outcome out err)) s)
      (\<lambda>(err', s'). source err' = source err \<and> accounted_by live (journal err') w0 (world s'))"
    proof (rule hosted_bind [OF unregister_pending_spec [OF P n]])
      fix out and s' :: "'w host_state"
      assume u: "unregistered live (map pending_from rs) new_result (world s) out (world s')"
      have "live (world s') \<subseteq> live w0 \<union> registered_ids (pending_registrations (journal err)) \<union> registered_ids (map fst (failed out))"
        if "\<not> is_unknown (journal err)"
        by (rule unregistered_live [OF u]) (use w [OF that] in simp)
      then show "yields (return_host (retain_outcome out err) s')
          (\<lambda>(err', s'). source err' = source err \<and> accounted_by live (journal err') w0 (world s'))"
        using j unregistered_names [OF u n]
        by (auto simp: return_host_def accounted_by_def journal_names_def retain_outcome_def retain_pending_def
            retain_metadata_def is_unknown_def entry_names_def)
    qed
    then show ?thesis using True by (simp add: roll_back_def Let_def)
  qed
qed

lemma release_failure_is_roll_back: "registration_release_failure E r src = roll_back E [r] (transaction_error src)"
  by (rule ext) (simp add: registration_release_failure_def roll_back_def Let_def)

lemma accounts_transaction_error: "live w' \<subseteq> live w \<Longrightarrow> accounted_by live (journal (transaction_error e)) w w'"
  by (simp add: accounted_by_def journal_defs journal_names_def entry_names_def)

lemma accounts_unknown:
  "accounted_by live (mark_unknown u (journal (transaction_error e))) w w'"
  by (simp add: accounted_by_def journal_defs journal_names_def entry_names_def)

lemma release_failure_spec:
  assumes P: "excel_promises E live bound" and name: "is_str (reg_name r)" and w: "live (world s) \<subseteq> insert (reg_id r) (live w)"
  shows "yields (registration_release_failure E r src s) (\<lambda>(err, s'). accounted_by live (journal err) w (world s'))"
proof -
  have "yields (roll_back E [r] (transaction_error src) s)
      (\<lambda>(err', s'). source err' = source (transaction_error src) \<and> accounted_by live (journal err') w (world s'))"
    using name w by (intro roll_back_spec [OF P]) (auto simp: journal_defs journal_names_def entry_names_def)
  then show ?thesis unfolding release_failure_is_roll_back by (rule hosted_mono) simp
qed

lemma reconcile_spec:
  fixes E :: "'w excel"
  assumes P: "excel_promises E live bound" and name: "is_str (excel_name d)"
    and w: "\<And>u. temporary_string (excel_name d) = ok_conv u \<Longrightarrow> live (world s) \<subseteq> live w \<union> set_option (bound (world s) u)"
  shows "yields (reconcile_malformed_registration_result E d src s) (\<lambda>(err, s'). accounted_by live (journal err) w (world s'))"
  unfolding reconcile_malformed_registration_result_def
proof (rule hosted_bind [OF registration_id_spec [OF P name]], elim conjE)
  fix r :: "RegistrationId option XllResult" and s1 :: "'w host_state"
  assume k: "kept live bound (world s) (world s1)"
    and b: "\<forall>x. r = Inr x \<longrightarrow> (\<exists>u. temporary_string (excel_name d) = ok_conv u \<and> bound (world s) u = map_option reg_id x)"
    and n: "\<forall>i. r = Inr (Some i) \<longrightarrow> reg_name i = excel_name d"
  consider (failed) e where "r = Inl e" | (none) "r = Inr None" | (some) reg where "r = Inr (Some reg)"
    by (metis option.exhaust sum.exhaust)
  then show "yields ((case r of
         Inr (Some reg) \<Rightarrow> registration_release_failure E reg src
       | Inr None \<Rightarrow> return_host (transaction_error src)
       | Inl e \<Rightarrow> return_host (let err = transaction_error src in err\<lparr> journal := mark_unknown
           \<lparr> unknown_export_name = export_name d, unknown_excel_name = excel_name d, recovery_error = e \<rparr> (journal err) \<rparr>)) s1)
       (\<lambda>(err, s'). accounted_by live (journal err) w (world s'))"
  proof cases
    case failed
    then show ?thesis by (simp add: return_host_def accounts_unknown Let_def)
  next
    case none
    then have "live (world s1) \<subseteq> live w" using b w k by (auto simp: kept_def)
    then show ?thesis using none by (simp add: return_host_def accounts_transaction_error)
  next
    case (some reg)
    then obtain u where "temporary_string (excel_name d) = ok_conv u" "bound (world s) u = Some (reg_id reg)"
      using b by auto
    then have "live (world s1) \<subseteq> insert (reg_id reg) (live w)" using w [of u] k by (auto simp: kept_def)
    then show ?thesis using some n name release_failure_spec [OF P, of reg s1 w src] by simp
  qed
qed

definition registered_or_accounted ::
    "('w \<Rightarrow> u64 set) \<Rightarrow> PreparedRegistration \<Rightarrow> 'w \<Rightarrow> RegistrationTransactionError + RegistrationId \<Rightarrow> 'w \<Rightarrow> bool" where
  "registered_or_accounted live d w r w' \<longleftrightarrow> (case r of
       Inr i \<Rightarrow> live w' = insert (reg_id i) (live w) \<and> reg_name i = excel_name d
     | Inl err \<Rightarrow> accounted_by live (journal err) w w')"

lemma register_mutation_spec:
  assumes P: "excel_promises E live bound" and name: "is_str (excel_name d)"
    and m: "register_outcome live bound d w m (world s)"
  shows "yields (register_mutation E d m s) (\<lambda>(r, s'). registered_or_accounted live d w r (world s'))"
proof -
  have fails: "yields (f s) (\<lambda>(err, s'). accounted_by live (journal err) w (world s')) \<Longrightarrow>
      yields (bind_host f (\<lambda>err. return_host (Inl err)) s) (\<lambda>(r, s'). registered_or_accounted live d w r (world s'))" for f
    by (erule hosted_bind) (simp add: return_host_def registered_or_accounted_def)
  show ?thesis
  proof (cases m)
    case (Applied v c)
    then have v: "live (world s) = insert (reg_id v) (live w)" "reg_name v = excel_name d"
      using m by (simp_all add: register_outcome_def)
    show ?thesis
    proof (cases c)
      case (Inl e)
      then show ?thesis using Applied v name
        by (simp add: register_mutation_def) (intro fails release_failure_spec [OF P]; simp)
    next
      case (Inr x)
      then show ?thesis using Applied v by (simp add: register_mutation_def return_host_def registered_or_accounted_def)
    qed
  next
    case (Rejected e)
    then show ?thesis using m
      by (simp add: register_mutation_def register_outcome_def return_host_def registered_or_accounted_def accounts_transaction_error)
  next
    case (MutationIndeterminate st e)
    show ?thesis
    proof (cases "is_terminal st")
      case True
      then show ?thesis using MutationIndeterminate
        by (simp add: register_mutation_def return_host_def registered_or_accounted_def Let_def accounts_unknown)
    next
      case False
      then have "yields (reconcile_malformed_registration_result E d e s) (\<lambda>(err, s'). accounted_by live (journal err) w (world s'))"
        using m MutationIndeterminate by (intro reconcile_spec [OF P name]) (simp add: register_outcome_def)
      then show ?thesis using False MutationIndeterminate fails by (simp add: register_mutation_def)
    qed
  qed
qed

lemma register_one_spec:
  fixes E :: "'w excel"
  assumes P: "excel_promises E live bound" and d: "registrable d" and name: "is_str (excel_name d)"
  shows "yields (register_one E units d s) (\<lambda>(r, s'). registered_or_accounted live d (world s) r (world s'))"
  unfolding register_one_def
proof (rule hosted_bind [OF is_registered_name_spec [OF P name]])
  fix r :: "bool XllResult" and s1 :: "'w host_state"
  assume k: "kept live bound (world s) (world s1)"
  have "yields (bind_host (host_register E units d) (register_mutation E d) s1)
      (\<lambda>(r, s'). registered_or_accounted live d (world s) r (world s'))"
  proof (rule hosted_bind [OF host_register_spec [OF P d]])
    fix m and s2 :: "'w host_state"
    assume "register_outcome live bound d (world s1) m (world s2)"
    then have "register_outcome live bound d (world s) m (world s2)"
      using k by (cases m) (simp_all add: register_outcome_def kept_def)
    then show "yields (register_mutation E d m s2) (\<lambda>(r, s'). registered_or_accounted live d (world s) r (world s'))"
      by (rule register_mutation_spec [OF P name])
  qed
  moreover have "live (world s1) \<subseteq> live (world s)" using k by (simp add: kept_def)
  ultimately show "yields ((case r of
         Inl e \<Rightarrow> return_host (Inl (transaction_error e))
       | Inr True \<Rightarrow> return_host (Inl (transaction_error (RegistrationConflict (excel_name d))))
       | Inr False \<Rightarrow> bind_host (host_register E units d) (register_mutation E d)) s1)
     (\<lambda>(r, s'). registered_or_accounted live d (world s) r (world s'))"
    by (auto simp: return_host_def registered_or_accounted_def accounts_transaction_error split: sum.splits bool.splits)
qed

lemma register_all_transaction_spec:
  fixes E :: "'w excel"
  assumes P: "excel_promises E live bound"
    and ds: "list_all registrable ds"
    and rs: "list_all (\<lambda>r. is_str (reg_name r)) rs" and w: "live (world s) = live w \<union> reg_id ` set rs"
  shows "yields (register_all_transaction E units rs ds s) (\<lambda>(r, s'). case r of
      Inr ids \<Rightarrow> live (world s') = live w \<union> reg_id ` set ids \<and> map reg_name ids = map reg_name rs @ map excel_name ds
    | Inl err \<Rightarrow> accounted_by live (journal err) w (world s'))"
  using ds rs w
proof (induction ds arbitrary: rs s)
  case Nil
  then show ?case by (simp add: return_host_def)
next
  case (Cons d ds)
  then have d: "registrable d" "is_str (excel_name d)" by (simp_all add: registrable_name)
  show ?case
    unfolding register_all_transaction.simps
  proof (rule hosted_bind [OF register_one_spec [OF P d]])
    fix r and s1 :: "'w host_state"
    assume r: "registered_or_accounted live d (world s) r (world s1)"
    show "yields ((case r of
         Inr i \<Rightarrow> register_all_transaction E units (rs @ [i]) ds
       | Inl err \<Rightarrow> bind_host (roll_back E rs err) (\<lambda>err. return_host (Inl err))) s1)
       (\<lambda>(r, s'). case r of
          Inr ids \<Rightarrow> live (world s') = live w \<union> reg_id ` set ids \<and> map reg_name ids = map reg_name rs @ map excel_name (d # ds)
        | Inl err \<Rightarrow> accounted_by live (journal err) w (world s'))"
    proof (cases r)
      case (Inr i)
      then have i: "live (world s1) = live w \<union> reg_id ` set (rs @ [i])" "reg_name i = excel_name d"
        using r Cons.prems(3) by (auto simp: registered_or_accounted_def)
      have "yields (register_all_transaction E units (rs @ [i]) ds s1) (\<lambda>(r, s'). case r of
          Inr ids \<Rightarrow> live (world s') = live w \<union> reg_id ` set ids \<and> map reg_name ids = map reg_name (rs @ [i]) @ map excel_name ds
        | Inl err \<Rightarrow> accounted_by live (journal err) w (world s'))"
        by (rule Cons.IH) (use Cons.prems d i in simp_all)
      moreover have "map reg_name (rs @ [i]) @ map excel_name ds = map reg_name rs @ map excel_name (d # ds)"
        using i(2) by simp
      ultimately show ?thesis by (simp only: Inr sum.case)
    next
      case (Inl err)
      have "yields (roll_back E rs err s1) (\<lambda>(err', s'). source err' = source err \<and> accounted_by live (journal err') w (world s'))"
        using r Inl Cons.prems by (intro roll_back_spec [OF P]) (auto simp: registered_or_accounted_def accounted_by_def)
      then show ?thesis
        unfolding Inl by simp (erule hosted_bind, simp add: return_host_def)
    qed
  qed
qed

section \<open>Metadata debt\<close>

definition debt_names :: "debt_map \<Rightarrow> bool" where
  "debt_names ms \<longleftrightarrow> (\<forall>(key, bucket) \<in> set ms. \<forall>d \<in> set bucket. is_str (reg_name (debt_registration d)))"

definition owned :: "debt_map \<Rightarrow> u64 \<Rightarrow> bool" where
  "owned ms i \<longleftrightarrow> (\<exists>(key, bucket) \<in> set ms. \<exists>d \<in> set bucket. f64_eq (reg_id (debt_registration d)) i)"

text \<open>A bucket is still owed, with the same registrations, or its name is bound to nothing.\<close>

definition settled_debt :: "('w \<Rightarrow> nat list \<Rightarrow> u64 option) \<Rightarrow> debt_map \<Rightarrow> 'w \<Rightarrow> ustr \<times> MetadataDebt list \<Rightarrow> bool" where
  "settled_debt bound rest w entry \<longleftrightarrow> snd entry = [] \<or>
     (\<exists>b. (fst entry, b) \<in> set rest \<and> map debt_registration b = map debt_registration (snd entry)) \<or>
     (\<exists>u. temporary_string (reg_name (debt_registration (hd (snd entry)))) = ok_conv u \<and> bound w u = None)"

definition debtors :: "debt_map \<Rightarrow> RegistrationId set" where
  "debtors ms = (\<Union>(key, bucket) \<in> set ms. debt_registration ` set bucket)"

lemma debtors_simps [simp]: "debtors [] = {}" "debtors (m # ms) = debt_registration ` set (snd m) \<union> debtors ms"
  by (auto simp: debtors_def)

definition retried ::
    "('w \<Rightarrow> u64 set) \<Rightarrow> ('w \<Rightarrow> nat list \<Rightarrow> u64 option) \<Rightarrow> debt_map \<Rightarrow> debt_map \<Rightarrow> 'w \<Rightarrow> debt_map \<Rightarrow> 'w \<Rightarrow> bool" where
  "retried live bound ms before w after w' \<longleftrightarrow>
     live w' = live w \<and> (\<forall>other i. bound w other = Some i \<and> \<not> owned ms i \<longrightarrow> bound w' other = Some i) \<and>
     (\<forall>other. bound w other = None \<longrightarrow> bound w' other = None) \<and>
     (\<exists>rest. after = before @ rest \<and> subseq (map fst rest) (map fst ms) \<and> list_all (settled_debt bound rest w') ms \<and>
       debtors rest \<subseteq> debtors ms)"

lemma retry_failed_registration [simp]: "debt_registration (retry_failed e d) = debt_registration d"
  by (simp add: retry_failed_def)

lemma settled_more: "settled_debt bound rest w entry \<Longrightarrow> settled_debt bound (x # rest) w entry"
  by (auto simp: settled_debt_def)

lemma settled_later:
  "settled_debt bound rest w entry \<Longrightarrow> (\<forall>other. bound w other = None \<longrightarrow> bound w' other = None) \<Longrightarrow> settled_debt bound rest w' entry"
  unfolding settled_debt_def by blast

lemma retried_all: "retried live bound ms before w (before @ ms) w"
  by (auto simp: retried_def settled_debt_def list_all_iff)

text \<open>One bucket: what is kept of it (nothing, or the bucket after the attempt), then the rest.\<close>

lemma retried_Cons:
  assumes w1: "live w1 = live w" "\<forall>other i. bound w other = Some i \<and> \<not> owned [m] i \<longrightarrow> bound w1 other = Some i"
    "\<forall>other. bound w other = None \<longrightarrow> bound w1 other = None"
    and kept: "before1 = before \<and> settled_debt bound [] w1 m \<or>
      (\<exists>b. before1 = before @ [(fst m, b)] \<and> map debt_registration b = map debt_registration (snd m))"
    and rest: "retried live bound ms before1 w1 after w'"
  shows "retried live bound (m # ms) before w after w'"
proof -
  obtain rest where r: "after = before1 @ rest" "subseq (map fst rest) (map fst ms)" "list_all (settled_debt bound rest w') ms"
    "debtors rest \<subseteq> debtors ms"
    using rest by (auto simp: retried_def)
  have later: "\<forall>other. bound w1 other = None \<longrightarrow> bound w' other = None" using rest by (simp add: retried_def)
  have own: "owned (m # ms) i \<longleftrightarrow> owned [m] i \<or> owned ms i" for i by (auto simp: owned_def)
  have bounds: "live w' = live w" "\<forall>other i. bound w other = Some i \<and> \<not> owned (m # ms) i \<longrightarrow> bound w' other = Some i"
    "\<forall>other. bound w other = None \<longrightarrow> bound w' other = None"
    using rest w1 unfolding own retried_def by blast+
  from kept show ?thesis
  proof
    assume k: "before1 = before \<and> settled_debt bound [] w1 m"
    then have "settled_debt bound [] w' m" using settled_later [OF _ later] by blast
    then have "settled_debt bound rest w' m" by (auto simp: settled_debt_def)
    then have "\<exists>rest. after = before @ rest \<and> subseq (map fst rest) (map fst (m # ms)) \<and> list_all (settled_debt bound rest w') (m # ms) \<and>
      debtors rest \<subseteq> debtors (m # ms)"
      using r k by (intro exI [of _ rest]) auto
    then show ?thesis using bounds unfolding retried_def by blast
  next
    assume "\<exists>b. before1 = before @ [(fst m, b)] \<and> map debt_registration b = map debt_registration (snd m)"
    then obtain b where b: "before1 = before @ [(fst m, b)]" "map debt_registration b = map debt_registration (snd m)" by blast
    have "settled_debt bound ((fst m, b) # rest) w' m" using b(2) by (auto simp: settled_debt_def)
    moreover have "debt_registration ` set b = debt_registration ` set (snd m)" by (metis b(2) set_map)
    ultimately have "\<exists>rest. after = before @ rest \<and> subseq (map fst rest) (map fst (m # ms)) \<and> list_all (settled_debt bound rest w') (m # ms) \<and>
      debtors rest \<subseteq> debtors (m # ms)"
      using r b(1) by (intro exI [of _ "(fst m, b) # rest"]) (auto simp: list_all_iff intro: settled_more)
    then show ?thesis using bounds unfolding retried_def by blast
  qed
qed

lemma retry_loop_spec:
  fixes E :: "'w excel"
  assumes P: "excel_promises E live bound" and names: "debt_names ms"
  shows "yields (retry_loop E ms out s) (\<lambda>(out', s'). retried live bound ms (remaining out) (world s) (remaining out') (world s'))"
  using names
proof (induction ms arbitrary: out s)
  case Nil
  then show ?case by (simp add: retried_def)
next
  case (Cons m ms)
  obtain key bucket where m: "m = (key, bucket)" by (cases m)
  have names: "debt_names ms" using Cons.prems by (simp add: debt_names_def m)
  show ?case
  proof (cases "bucket = []")
    case True
    have "retried live bound (m # ms) (remaining out) (world s) after w'"
      if "retried live bound ms (remaining out) (world s) after w'" for after w'
      by (rule retried_Cons [OF _ _ _ _ that]) (simp_all add: True m settled_debt_def)
    then have "yields (retry_loop E ms out s)
        (\<lambda>(out', s'). retried live bound (m # ms) (remaining out) (world s) (remaining out') (world s'))"
      by (intro hosted_mono [OF Cons.IH [OF names]])
    then show ?thesis by (simp add: m True)
  next
    case False
    show ?thesis
    proof (cases "permits_callbacks s")
      case closed: False
      then show ?thesis
        using False retried_all [of live bound "(key, bucket) # ms" "remaining out" "world s"] by (simp add: m)
    next
      case True
      define name where "name = reg_name (debt_registration (hd bucket))"
      define ids where "ids = map (\<lambda>d. reg_id (debt_registration d)) bucket"
      have "is_str name" using Cons.prems False by (auto simp: debt_names_def m name_def)
      define next_step where "next_step = (\<lambda>(mutation :: unit RegistrationMutation) (s :: 'w host_state).
        let give_up = (\<lambda>e.
          let out = out\<lparr> remaining := remaining out @ [(key, map (retry_failed e) bucket)] \<rparr> in
          if \<not> permits_callbacks s then Returns (out\<lparr> remaining := remaining out @ ms, terminal := Some e \<rparr>, s)
          else retry_loop E ms out s)
        in case mutation of
          Applied _ cleanup \<Rightarrow> retry_loop E ms (out\<lparr> retry_issues := retry_issues out @ issues_of cleanup \<rparr>) s
        | Rejected e \<Rightarrow> give_up e
        | MutationIndeterminate _ e \<Rightarrow> give_up e)"
      have "yields (bind_host (delete_name_if_binding_matches E name ids) next_step s)
        (\<lambda>(out', s'). retried live bound (m # ms) (remaining out) (world s) (remaining out') (world s'))"
      proof (rule hosted_bind [OF delete_name_if_binding_matches_spec [OF P \<open>is_str name\<close>]], elim conjE)
        fix mutation :: "unit RegistrationMutation" and s1 :: "'w host_state"
        assume l: "live (world s1) = live (world s)"
          and o: "\<forall>other i. bound (world s) other = Some i \<and> \<not> list_ex (\<lambda>j. f64_eq j i) ids \<longrightarrow> bound (world s1) other = Some i"
          and n: "\<forall>other. bound (world s) other = None \<longrightarrow> bound (world s1) other = None"
          and a: "\<forall>x c. mutation = Applied x c \<longrightarrow> (\<exists>u. temporary_string name = ok_conv u \<and> bound (world s1) u = None)"
        have o': "\<forall>other i. bound (world s) other = Some i \<and> \<not> owned [m] i \<longrightarrow> bound (world s1) other = Some i"
        proof (intro allI impI)
          fix other i assume i: "bound (world s) other = Some i \<and> \<not> owned [m] i"
          then have "\<not> list_ex (\<lambda>j. f64_eq j i) ids" by (auto simp: owned_def ids_def m list_ex_iff)
          then show "bound (world s1) other = Some i" using o i by blast
        qed
        have up: "retried live bound (m # ms) (remaining out) (world s) after w'"
          if "retried live bound ms before1 (world s1) after w'"
            "before1 = remaining out \<and> settled_debt bound [] (world s1) m \<or>
             (\<exists>b. before1 = remaining out @ [(fst m, b)] \<and> map debt_registration b = map debt_registration (snd m))" for before1 after w'
          by (rule retried_Cons [OF l o' n that(2,1)])
        show "yields (next_step mutation s1)
          (\<lambda>(out', s'). retried live bound (m # ms) (remaining out) (world s) (remaining out') (world s'))"
        proof (cases "\<exists>x c. mutation = Applied x c")
          case True
          then obtain x c where mu: "mutation = Applied x c" by blast
          then have "settled_debt bound [] (world s1) m" using a by (simp add: settled_debt_def m name_def)
          then have "yields (retry_loop E ms (out\<lparr> retry_issues := retry_issues out @ issues_of c \<rparr>) s1)
            (\<lambda>(out', s'). retried live bound (m # ms) (remaining out) (world s) (remaining out') (world s'))"
            by (intro hosted_mono [OF Cons.IH [OF names]] up) auto
          then show ?thesis by (simp add: next_step_def mu)
        next
          case False
          then obtain e where mu: "mutation = Rejected e \<or> (\<exists>st. mutation = MutationIndeterminate st e)"
            by (cases mutation) auto
          define out1 where "out1 = out\<lparr> remaining := remaining out @ [(key, map (retry_failed e) bucket)] \<rparr>"
          have k: "remaining out1 = remaining out @ [(fst m, map (retry_failed e) bucket)]"
            "map debt_registration (map (retry_failed e) bucket) = map debt_registration (snd m)"
            by (simp_all add: out1_def m)
          have "yields (if \<not> permits_callbacks s1 then Returns (out1\<lparr> remaining := remaining out1 @ ms, terminal := Some e \<rparr>, s1)
              else retry_loop E ms out1 s1)
            (\<lambda>(out', s'). retried live bound (m # ms) (remaining out) (world s) (remaining out') (world s'))"
          proof (cases "permits_callbacks s1")
            case True
            have "yields (retry_loop E ms out1 s1)
              (\<lambda>(out', s'). retried live bound (m # ms) (remaining out) (world s) (remaining out') (world s'))"
              by (rule hosted_mono [OF Cons.IH [OF names]], rule up, assumption) (use k in blast)
            then show ?thesis using True by simp
          next
            case False
            then show ?thesis
              using up [OF retried_all [of live bound ms "remaining out1" "world s1"]] k by simp
          qed
          then show ?thesis using mu by (auto simp: next_step_def Let_def out1_def)
        qed
      qed
      then show ?thesis using False True by (simp add: m name_def ids_def next_step_def)
    qed
  qed
qed

lemma retry_spec:
  fixes E :: "'w excel"
  assumes P: "excel_promises E live bound" and names: "debt_names ms"
  shows "yields (retry_metadata_debt_with_host E ms s) (\<lambda>(out, s'). retried live bound ms [] (world s) (remaining out) (world s'))"
  unfolding retry_metadata_debt_with_host_def
  by (rule hosted_bind [OF retry_loop_spec [OF P names]]) simp

lemma register_all_spec:
  assumes P: "excel_promises E live bound" and ds: "list_all registrable ds"
  shows "yields (register_all E units ds s) (\<lambda>(r, s'). case r of
      Inr ids \<Rightarrow> live (world s') = live (world s) \<union> reg_id ` set ids \<and> map reg_name ids = map excel_name ds
    | Inl err \<Rightarrow> accounted_by live (journal err) (world s) (world s'))"
  using register_all_transaction_spec [OF P ds, of "[]" s "world s" units, unfolded list.map append_Nil]
  by (simp add: register_all_def)

lemma sample_register_all:
  "register_all sample_excel [0x43] [sample_registration] (sample_state (False, None)) =
     Returns (Inr [sample_id], sample_state (True, Some [1, 0x46]))"
proof -
  have n: "excel_name sample_registration = [0x46]" by (simp add: sample_registration_def)
  show ?thesis
    by (simp add: register_all_def bind_host_def register_one_def n sample_free_name sample_register register_mutation_def
        return_host_def)
qed

lemma sample_unregister:
  "unregister_pending sample_excel [pending_from sample_id] (sample_state (True, Some [1, 0x46])) =
     Returns (new_result\<lparr> succeeded := [\<lparr> registration = sample_id, cleanup_state = NameDeleted \<rparr>] \<rparr>, sample_state (False, None))"
proof -
  have b: "read_applied_bool f (sample_boolean 1) = ok_conv ()" for f
    by (simp add: read_applied_bool_def read_excel_bool_def callback_value_type_def sample_reply_types bind_conv_def)
  have "invoke_protocol sample_excel XLF_UNREGISTER [OperNumber one_id] (read_applied_bool Unregister) (sample_state (True, Some [1, 0x46]))
      = Returns (Decoded (Inr ()) (Inr ()), (sample_state (True, Some [1, 0x46]))\<lparr> world := (False, Some [1, 0x46]) \<rparr>)"
    by (rule sample_invoke [where res = "sample_boolean 1"]) (simp_all add: sample_state_def function_ids b)
  then have u: "unregister_registration sample_excel sample_id (sample_state (True, Some [1, 0x46])) =
      Returns (Applied () (Inr ()), sample_state (False, Some [1, 0x46]))"
    by (simp add: unregister_registration_def bind_host_def return_host_def mutation_from_invocation_def sample_state_def)
  have v: "read_number (sample_cell one_id) ''registration recovery'' = ok_conv one_id"
    using one_id_valid(1) sample_types(1,2) [of one_id]
    by (simp add: read_number_def validated_def f64_from_excel_def bind_conv_def sample_fields)
  have "invoke_protocol sample_excel XLF_EVALUATE [OperString [1, 0x46]] (decode_registration_id_result [0x46]) (sample_state (False, Some [1, 0x46]))
      = Returns (Decoded (Inr (Some sample_id)) (Inr ()), (sample_state (False, Some [1, 0x46]))\<lparr> world := (False, Some [1, 0x46]) \<rparr>)"
    by (rule sample_invoke [where res = "sample_cell one_id"])
      (simp_all add: sample_state_def function_ids decode_registration_id_result_def callback_value_type_def sample_reply_types
        bind_conv_def v one_id_valid)
  then have i: "registration_id sample_excel [0x46] (sample_state (False, Some [1, 0x46])) =
      Returns (Inr (Some sample_id), sample_state (False, Some [1, 0x46]))"
    by (simp add: registration_id_def sample_text with_text_def invoke_def bind_host_def return_host_def invoke_result_def
        sample_state_def)
  have "invoke_protocol sample_excel XLF_SET_NAME [OperString [1, 0x46]] (read_applied_bool SetName) (sample_state (False, Some [1, 0x46]))
      = Returns (Decoded (Inr ()) (Inr ()), (sample_state (False, Some [1, 0x46]))\<lparr> world := (False, None) \<rparr>)"
    by (rule sample_invoke [where res = "sample_boolean 1"]) (simp_all add: sample_state_def function_ids b)
  then have d: "delete_name sample_excel [0x46] (sample_state (False, Some [1, 0x46])) =
      Returns (Applied () (Inr ()), sample_state (False, None))"
    by (simp add: delete_name_def sample_text with_operands_def bind_host_def return_host_def mutation_from_invocation_def
        sample_state_def)
  have p: "permits_callbacks (sample_state w)" for w by (simp add: permits_callbacks_def sample_state_def)
  have e: "f64_eq one_id one_id" using one_id_valid(1) by (simp add: f64_eq_def)
  show ?thesis
    by (simp add: unregister_pending_def bind_host_def unregister_one_def p pending_from_def unregister_entry_def u
        return_host_def delete_entry_name_def delete_name_if_binding_matches_def i e d push_defs issues_of_def new_result_def
        del: One_nat_def)
qed

section \<open>Properties\<close>

text \<open>
  C39: registering a set of functions either registers all of them or leaves a journal of
  what may be left. Under what Excel documents of its calls, for prepared registrations
  and a session in any state the call returns. On success the registrations returned have
  the names asked for, in order, and the live registrations are those of before and these. On an
  error, after whatever roll back the session permits, either the journal says that its
  knowledge is incomplete or every live registration was live before or is in the journal as
  still registered.
\<close>

theorem register_all_accounts:
  assumes "excel_promises E live bound" "list_all registrable ds"
  shows "\<exists>r s'. register_all E units ds s = Returns (r, s') \<and> (case r of
      Inr ids \<Rightarrow> map reg_name ids = map excel_name ds \<and> live (world s') = live (world s) \<union> reg_id ` set ids
    | Inl err \<Rightarrow> is_unknown (journal err) \<or>
        live (world s') \<subseteq> live (world s) \<union> registered_ids (pending_registrations (journal err)))"
proof -
  obtain r s' where r: "register_all E units ds s = Returns (r, s')"
    and c: "case r of
      Inr ids \<Rightarrow> live (world s') = live (world s) \<union> reg_id ` set ids \<and> map reg_name ids = map excel_name ds
    | Inl err \<Rightarrow> accounted_by live (journal err) (world s) (world s')"
    using register_all_spec [OF assms, of units s] by (auto simp: yields_iff)
  then show ?thesis by (intro exI [of _ r] exI [of _ s'] conjI) (auto simp: accounted_by_def split: sum.splits)
qed

theorem register_all_accounts_witness:
  "\<exists>ids s'. register_all sample_excel [0x43] [sample_registration] (sample_state (False, None)) = Returns (Inr ids, s') \<and>
     map reg_name ids = [[0x46]] \<and> sample_live (world s') = reg_id ` set ids"
proof -
  have "list_all registrable [sample_registration]" by (simp add: sample_registrable)
  from register_all_accounts [OF sample_promises this, of "[0x43]" "sample_state (False, None)"] show ?thesis
    unfolding sample_register_all by (auto simp: sample_state_def sample_registration_def)
qed

text \<open>
  C35: retrying metadata debt never deletes a name that someone else has taken. Under what
  Excel documents, a retry of any debts always returns, changes no live registration, and a name
  bound to a registration that no debt is about stays bound to it. The entries that remain are
  in the order of the map; each bucket of debts remains with the registrations it had, or its name
  is bound to nothing when the retry ends.
\<close>

theorem metadata_retry_spares_foreign_names:
  assumes "excel_promises E live bound" "debt_names ms"
  shows "\<exists>out s'. retry_metadata_debt_with_host E ms s = Returns (out, s') \<and> live (world s') = live (world s) \<and>
    (\<forall>name i. bound (world s) name = Some i \<and> \<not> owned ms i \<longrightarrow> bound (world s') name = Some i) \<and>
    subseq (map fst (remaining out)) (map fst ms) \<and>
    (\<forall>(key, bucket) \<in> set ms. bucket = [] \<or>
      (\<exists>b. (key, b) \<in> set (remaining out) \<and> map debt_registration b = map debt_registration bucket) \<or>
      (\<exists>u. temporary_string (reg_name (debt_registration (hd bucket))) = ok_conv u \<and> bound (world s') u = None))"
proof -
  obtain out s' where r: "retry_metadata_debt_with_host E ms s = Returns (out, s')"
    and c: "retried live bound ms [] (world s) (remaining out) (world s')"
    using retry_spec [OF assms, of s] by (auto simp: yields_iff)
  have "\<forall>(key, bucket) \<in> set ms. bucket = [] \<or>
      (\<exists>b. (key, b) \<in> set (remaining out) \<and> map debt_registration b = map debt_registration bucket) \<or>
      (\<exists>u. temporary_string (reg_name (debt_registration (hd bucket))) = ok_conv u \<and> bound (world s') u = None)"
  proof (intro ballI, clarify)
    fix key bucket
    assume "(key, bucket) \<in> set ms" and none: "\<nexists>u. temporary_string (reg_name (debt_registration (hd bucket))) = ok_conv u \<and>
        bound (world s') u = None" "bucket \<noteq> []"
    then have "settled_debt bound (remaining out) (world s') (key, bucket)" using c by (auto simp: retried_def list_all_iff)
    then show "\<exists>b. (key, b) \<in> set (remaining out) \<and> map debt_registration b = map debt_registration bucket"
      using none by (auto simp: settled_debt_def)
  qed
  then show ?thesis using r c by (auto simp: retried_def)
qed

definition foreign_debt :: MetadataDebt where
  "foreign_debt = new_debt \<lparr> reg_id = 0x4000000000000000, reg_name = [0x46] \<rparr> Closing"

theorem metadata_retry_spares_foreign_names_witness:
  "\<exists>out s'. retry_metadata_debt_with_host sample_excel [([0x46], [foreign_debt])] (sample_state (True, Some [1, 0x46])) =
     Returns (out, s') \<and> sample_bound (world s') [1, 0x46] = Some one_id \<and> map fst (remaining out) = [[0x46]]"
proof -
  have n: "debt_names [([0x46], [foreign_debt])]"
    by (simp add: debt_names_def foreign_debt_def new_debt_def is_str_def is_scalar_def)
  have o: "\<not> owned [([0x46], [foreign_debt])] one_id"
    by (simp add: owned_def foreign_debt_def new_debt_def f64_eq_def is_finite_def f64_exponent_def one_id_def
        f64_rat_def f64_negative_def f64_mantissa_def)
  have t: "temporary_string (reg_name (debt_registration foreign_debt)) = ok_conv [1, 0x46]"
    using sample_text by (simp add: foreign_debt_def new_debt_def)
  obtain out s' where r: "retry_metadata_debt_with_host sample_excel [([0x46], [foreign_debt])] (sample_state (True, Some [1, 0x46])) =
      Returns (out, s')"
    and kept: "\<forall>name i. sample_bound (True, Some [1, 0x46]) name = Some i \<and> \<not> owned [([0x46], [foreign_debt])] i \<longrightarrow>
      sample_bound (world s') name = Some i"
    and sub: "subseq (map fst (remaining out)) [[0x46]]"
    and owes: "(\<exists>b. ([0x46], b) \<in> set (remaining out)) \<or>
      (\<exists>u. temporary_string (reg_name (debt_registration foreign_debt)) = ok_conv u \<and> sample_bound (world s') u = None)"
    using metadata_retry_spares_foreign_names [OF sample_promises n, of "sample_state (True, Some [1, 0x46])"]
    by (auto simp: sample_state_def)
  have "sample_bound (world s') [1, 0x46] = Some one_id" using kept o by simp
  moreover have "map fst (remaining out) \<noteq> []" using owes t calculation by auto
  then have "map fst (remaining out) = [[0x46]]"
    using sub by (cases "map fst (remaining out)") (auto split: if_splits)
  ultimately show ?thesis using r by (intro exI [of _ out] exI [of _ s']) simp
qed

end
