(* ===== verification/Host_Ledger.thy ===== *)
theory Host_Ledger
  imports Registration "HOL-Library.List_Lexorder"
begin

text \<open>
  The host ledger (\<open>crates/xlfn/src/runtime_components/host_ledger.rs\<close>): registrations and metadata
  debt under one mutex, the claims that move them out while Excel is called, and the retry of
  metadata debt at the start of an open (\<open>retry_metadata_debt\<close> of
  \<open>crates/xlfn/src/registration/recovery.rs\<close>). Each critical section is one function of the state.
  The B-tree map of debts is its entries in key order.
\<close>

section \<open>The state\<close>

datatype RegistrationState = KnownState | UnknownState

record HostLedgerState =
  registrations :: "PendingRegistration list"
  ledger_debt :: debt_map
  registration_state :: RegistrationState
  cleanup_in_progress :: bool
  metadata_cleanup_in_progress :: bool

definition new_ledger :: HostLedgerState where
  "new_ledger = \<lparr> registrations = [], ledger_debt = [], registration_state = KnownState,
     cleanup_in_progress = False, metadata_cleanup_in_progress = False \<rparr>"

text \<open>\<open>entry(key).or_default()\<close> with values appended, and \<open>remove\<close>.\<close>

fun entry_append :: "ustr \<Rightarrow> MetadataDebt list \<Rightarrow> debt_map \<Rightarrow> debt_map" where
  "entry_append key ds [] = [(key, ds)]"
| "entry_append key ds ((k, b) # m) =
     (if key < k then (key, ds) # (k, b) # m
      else if key = k then (k, b @ ds) # m
      else (k, b) # entry_append key ds m)"

definition push_debts :: "MetadataDebt list \<Rightarrow> debt_map \<Rightarrow> debt_map" where
  "push_debts ds m = fold (\<lambda>d. entry_append (debt_key d) [d]) ds m"

definition append_debts :: "debt_map \<Rightarrow> debt_map \<Rightarrow> debt_map" where
  "append_debts extra m = fold (\<lambda>(key, ds). entry_append key ds) extra m"

definition remove_debts :: "ustr list \<Rightarrow> debt_map \<Rightarrow> debt_map" where
  "remove_debts keys m = fold (\<lambda>key. filter (\<lambda>(k, b). k \<noteq> key)) keys m"

section \<open>Operations\<close>

definition merge_ledger :: "HostMutationJournal \<Rightarrow> HostLedgerState \<Rightarrow> HostLedgerState" where
  "merge_ledger j L = L\<lparr>
     registrations := registrations L @ pending_registrations j,
     ledger_debt := push_debts (metadata_debt j) (remove_debts (superseded_metadata j) (ledger_debt L)),
     registration_state := (if is_unknown j then UnknownState else registration_state L) \<rparr>"

definition registration_resources :: "HostLedgerState \<Rightarrow> nat \<times> bool" where
  "registration_resources L = (length (registrations L),
     \<not> cleanup_in_progress L \<and> \<not> metadata_cleanup_in_progress L \<and> registration_state L = KnownState)"

definition generation_callbacks_detached :: "HostLedgerState \<Rightarrow> bool" where
  "generation_callbacks_detached L \<longleftrightarrow>
     \<not> cleanup_in_progress L \<and> \<not> metadata_cleanup_in_progress L \<and> registrations L = []"

definition is_quiescent :: "HostLedgerState \<Rightarrow> bool" where
  "is_quiescent L \<longleftrightarrow> \<not> cleanup_in_progress L \<and> \<not> metadata_cleanup_in_progress L \<and> registrations L = [] \<and>
     registration_state L = KnownState"

definition registration_state_unknown :: "HostLedgerState \<Rightarrow> bool" where
  "registration_state_unknown L \<longleftrightarrow>
     cleanup_in_progress L \<or> metadata_cleanup_in_progress L \<or> registration_state L = UnknownState"

definition has_metadata_debt :: "HostLedgerState \<Rightarrow> bool" where
  "has_metadata_debt L \<longleftrightarrow> metadata_cleanup_in_progress L \<or> ledger_debt L \<noteq> []"

definition claim_cleanup :: "HostLedgerState \<Rightarrow> (PendingRegistration list \<times> HostLedgerState) XllResult" where
  "claim_cleanup L = (if cleanup_in_progress L then Inl Closing
     else Inr (registrations L, L\<lparr> cleanup_in_progress := True, registrations := [] \<rparr>))"

text \<open>The end of \<open>execute\<close>, after the calls into Excel, and the drop of a claim that never ran.\<close>

definition finish_cleanup :: "UnregisterResult \<Rightarrow> HostLedgerState \<Rightarrow> HostLedgerState" where
  "finish_cleanup out L = L\<lparr>
     registrations := registrations L @ map fst (failed out),
     ledger_debt := push_debts (debts out) (ledger_debt L),
     cleanup_in_progress := False \<rparr>"

definition drop_cleanup :: "PendingRegistration list \<Rightarrow> HostLedgerState \<Rightarrow> HostLedgerState" where
  "drop_cleanup rs L = L\<lparr> registrations := registrations L @ rs, cleanup_in_progress := False \<rparr>"

definition cleanup_registrations ::
    "'w excel \<Rightarrow> HostLedgerState \<Rightarrow> ('w, UnregisterResult XllResult \<times> HostLedgerState) hosted" where
  "cleanup_registrations E L = (case claim_cleanup L of
       Inl e \<Rightarrow> return_host (Inl e, L)
     | Inr (rs, L) \<Rightarrow> bind_host (unregister_pending E rs) (\<lambda>out. return_host (Inr out, finish_cleanup out L)))"

definition claim_metadata :: "HostLedgerState \<Rightarrow> (debt_map \<times> HostLedgerState) option" where
  "claim_metadata L = (if metadata_cleanup_in_progress L then None
     else Some (ledger_debt L, L\<lparr> metadata_cleanup_in_progress := True, ledger_debt := [] \<rparr>))"

definition finish_metadata :: "debt_map \<Rightarrow> HostLedgerState \<Rightarrow> HostLedgerState" where
  "finish_metadata rest L = L\<lparr> ledger_debt := append_debts rest (ledger_debt L), metadata_cleanup_in_progress := False \<rparr>"

definition drop_metadata :: "debt_map \<Rightarrow> HostLedgerState \<Rightarrow> HostLedgerState" where
  "drop_metadata ds L = L\<lparr> ledger_debt := append_debts ds (ledger_debt L), metadata_cleanup_in_progress := False \<rparr>"

definition retry_metadata_cleanup ::
    "'w excel \<Rightarrow> HostLedgerState \<Rightarrow> ('w, MetadataDebtRetryResult \<times> HostLedgerState) hosted" where
  "retry_metadata_cleanup E L = (case claim_metadata L of
       None \<Rightarrow> return_host (\<lparr> remaining = [], retry_issues = [], terminal = Some Closing \<rparr>, L)
     | Some (ds, L) \<Rightarrow> bind_host (retry_metadata_debt_with_host E ds) (\<lambda>out.
         return_host (out\<lparr> remaining := [] \<rparr>, finish_metadata (remaining out) L)))"

definition retry_metadata_debt :: "'w excel \<Rightarrow> HostLedgerState \<Rightarrow> ('w, unit XllResult \<times> HostLedgerState) hosted" where
  "retry_metadata_debt E L s =
     (if ledger_debt L = [] then
        Returns ((case terminal_retry_error s of Some e \<Rightarrow> Inl e | None \<Rightarrow> Inr (), L), s)
      else bind_host (retry_metadata_cleanup E L) (\<lambda>(out, L).
        return_host (case terminal out of Some e \<Rightarrow> Inl e | None \<Rightarrow> Inr (), L)) s)"

section \<open>Runs\<close>

datatype registration_claim = ClaimHeld "PendingRegistration list" | ClaimExecuted UnregisterResult
datatype metadata_claim = DebtsHeld debt_map | DebtsExecuted MetadataDebtRetryResult

text \<open>
  The ledger, the journal of the opening transaction, the registrations the open call holds
  before it stages them, the two claims and Excel's world. A transaction that is dropped instead
  of committed or rolled back (\<open>abandon\<close>: a panic, or a commit whose attempt is no longer valid)
  takes its journal along unmerged. \<open>lost\<close> records that an open dropped what it answered for:
  registrations it held when its lifecycle state could not be installed, or a journal with
  registrations or an unknown outcome. An abandoned module is quarantined, but its ledger
  does not know what it left in Excel.
\<close>

record 'w host_system =
  ledger :: HostLedgerState
  open_journal :: "HostMutationJournal option"
  staged :: "RegistrationId list"
  lost :: bool
  cleaning :: "registration_claim option"
  retrying :: "metadata_claim option"
  host :: 'w

inductive ledger_step :: "'w excel \<Rightarrow> ('w \<Rightarrow> u64 set) \<Rightarrow> 'w host_system \<Rightarrow> 'w host_system \<Rightarrow> bool" for E live where
  begin_open: "open_journal S = None \<Longrightarrow> ledger_step E live S (S\<lparr> open_journal := Some empty_journal \<rparr>)"
| registered: "open_journal S = Some j \<Longrightarrow> staged S = [] \<Longrightarrow> world s = host S \<Longrightarrow>
    list_all registrable ds \<Longrightarrow> register_all E units ds s = Returns (Inr ids, s') \<Longrightarrow>
    ledger_step E live S (S\<lparr> staged := ids, host := world s' \<rparr>)"
| register_failed: "open_journal S = Some j \<Longrightarrow> staged S = [] \<Longrightarrow> world s = host S \<Longrightarrow>
    list_all registrable ds \<Longrightarrow> register_all E units ds s = Returns (Inl err, s') \<Longrightarrow>
    ledger_step E live S (S\<lparr> open_journal := Some (merge_journal j (journal err)), host := world s' \<rparr>)"
| stage: "open_journal S = Some j \<Longrightarrow>
    ledger_step E live S (S\<lparr> open_journal := Some (merge_journal j (into_journal (staged S))), staged := [] \<rparr>)"
| install_failed: "open_journal S = Some j \<Longrightarrow> staged S \<noteq> [] \<Longrightarrow> ledger_step E live S (S\<lparr> staged := [], lost := True \<rparr>)"
| abandon: "open_journal S = Some j \<Longrightarrow>
    ledger_step E live S (S\<lparr> open_journal := None, staged := [],
      lost := (lost S \<or> staged S \<noteq> [] \<or> pending_registrations j \<noteq> [] \<or> is_unknown j) \<rparr>)"
| end_open: "open_journal S = Some j \<Longrightarrow> staged S = [] \<Longrightarrow>
    ledger_step E live S (S\<lparr> open_journal := None, ledger := merge_ledger j (ledger S) \<rparr>)"
| claim: "cleaning S = None \<Longrightarrow> claim_cleanup (ledger S) = Inr (rs, L) \<Longrightarrow>
    ledger_step E live S (S\<lparr> cleaning := Some (ClaimHeld rs), ledger := L \<rparr>)"
| drop_claim: "cleaning S = Some (ClaimHeld rs) \<Longrightarrow>
    ledger_step E live S (S\<lparr> cleaning := None, ledger := drop_cleanup rs (ledger S) \<rparr>)"
| execute: "cleaning S = Some (ClaimHeld rs) \<Longrightarrow> world s = host S \<Longrightarrow> unregister_pending E rs s = Returns (out, s') \<Longrightarrow>
    ledger_step E live S (S\<lparr> cleaning := Some (ClaimExecuted out), host := world s' \<rparr>)"
| finish: "cleaning S = Some (ClaimExecuted out) \<Longrightarrow>
    ledger_step E live S (S\<lparr> cleaning := None, ledger := finish_cleanup out (ledger S) \<rparr>)"
| forget_claim: "cleaning S = Some c \<Longrightarrow> ledger_step E live S (S\<lparr> cleaning := None \<rparr>)"
| claim_debts: "retrying S = None \<Longrightarrow> claim_metadata (ledger S) = Some (ds, L) \<Longrightarrow>
    ledger_step E live S (S\<lparr> retrying := Some (DebtsHeld ds), ledger := L \<rparr>)"
| drop_debts: "retrying S = Some (DebtsHeld ds) \<Longrightarrow>
    ledger_step E live S (S\<lparr> retrying := None, ledger := drop_metadata ds (ledger S) \<rparr>)"
| execute_debts: "retrying S = Some (DebtsHeld ds) \<Longrightarrow> world s = host S \<Longrightarrow>
    retry_metadata_debt_with_host E ds s = Returns (out, s') \<Longrightarrow>
    ledger_step E live S (S\<lparr> retrying := Some (DebtsExecuted out), host := world s' \<rparr>)"
| finish_debts: "retrying S = Some (DebtsExecuted out) \<Longrightarrow>
    ledger_step E live S (S\<lparr> retrying := None, ledger := finish_metadata (remaining out) (ledger S) \<rparr>)"
| forget_debts: "retrying S = Some c \<Longrightarrow> ledger_step E live S (S\<lparr> retrying := None \<rparr>)"
| elsewhere: "live w \<subseteq> live (host S) \<Longrightarrow> ledger_step E live S (S\<lparr> host := w \<rparr>)"

section \<open>Debts\<close>

definition map_ok :: "debt_map \<Rightarrow> bool" where
  "map_ok m \<longleftrightarrow> sorted_wrt (<) (map fst m) \<and> debt_names m"

lemma entry_append_keys: "set (map fst (entry_append key ds m)) = insert key (set (map fst m))"
  by (induction key ds m rule: entry_append.induct) auto

lemma entry_append_ok:
  assumes "map_ok m" "\<forall>d \<in> set ds. is_str (reg_name (debt_registration d))"
  shows "map_ok (entry_append key ds m)"
  using assms
proof (induction key ds m rule: entry_append.induct)
  case (1 key ds)
  then show ?case by (simp add: map_ok_def debt_names_def)
next
  case (2 key ds k b m)
  have keys: "x \<in> set (map fst (entry_append key ds m)) \<longleftrightarrow> x = key \<or> x \<in> set (map fst m)" for x
    using entry_append_keys [of key ds m] by simp
  consider "key < k" | "key = k" | "k < key" by fastforce
  then show ?case
  proof cases
    case 3
    then have "map_ok (entry_append key ds m)" using 2 by (auto simp: map_ok_def debt_names_def)
    then show ?thesis using 2(2) 3 keys by (auto simp: map_ok_def debt_names_def simp del: set_map)
  qed (use 2 in \<open>auto simp: map_ok_def debt_names_def\<close>)
qed

lemma push_debts_ok:
  "map_ok m \<Longrightarrow> list_all (\<lambda>d. is_str (reg_name (debt_registration d))) ds \<Longrightarrow> map_ok (push_debts ds m)"
  unfolding push_debts_def by (induction ds arbitrary: m) (auto simp: entry_append_ok)

lemma append_debts_ok: "map_ok m \<Longrightarrow> debt_names extra \<Longrightarrow> map_ok (append_debts extra m)"
  unfolding append_debts_def by (induction extra arbitrary: m) (auto simp: debt_names_def entry_append_ok)

lemma remove_debts_ok: "map_ok m \<Longrightarrow> map_ok (remove_debts keys m)"
proof -
  have "map_ok m \<Longrightarrow> map_ok (filter p m)" for m p
    by (induction m) (auto simp: map_ok_def debt_names_def)
  then show "map_ok m \<Longrightarrow> map_ok (remove_debts keys m)"
    unfolding remove_debts_def by (induction keys arbitrary: m) auto
qed

lemma retried_names:
  assumes "retried live bound ms [] w rest w'" "debt_names ms"
  shows "debt_names rest"
proof -
  have "debt_names m \<longleftrightarrow> (\<forall>r \<in> debtors m. is_str (reg_name r))" for m
    by (fastforce simp: debt_names_def debtors_def)
  moreover have "debtors rest \<subseteq> debtors ms" using assms(1) by (auto simp: retried_def)
  ultimately show ?thesis using assms(2) by blast
qed

section \<open>The invariant\<close>

fun claim_entries :: "registration_claim option \<Rightarrow> PendingRegistration list" where
  "claim_entries None = []"
| "claim_entries (Some (ClaimHeld rs)) = rs"
| "claim_entries (Some (ClaimExecuted out)) = map fst (failed out)"

fun claim_debts_of :: "registration_claim option \<Rightarrow> MetadataDebt list" where
  "claim_debts_of (Some (ClaimExecuted out)) = debts out"
| "claim_debts_of _ = []"

fun retry_map :: "metadata_claim option \<Rightarrow> debt_map" where
  "retry_map None = []"
| "retry_map (Some (DebtsHeld ds)) = ds"
| "retry_map (Some (DebtsExecuted out)) = remaining out"

definition the_journal :: "'w host_system \<Rightarrow> HostMutationJournal" where
  "the_journal S = (case open_journal S of None \<Rightarrow> empty_journal | Some j \<Rightarrow> j)"

text \<open>Every registration someone answers for, and when nothing else can be live.\<close>

definition owed :: "'w host_system \<Rightarrow> u64 set" where
  "owed S = registered_ids (registrations (ledger S)) \<union> registered_ids (pending_registrations (the_journal S)) \<union>
     reg_id ` set (staged S) \<union> registered_ids (claim_entries (cleaning S))"

definition certain :: "'w host_system \<Rightarrow> bool" where
  "certain S \<longleftrightarrow> registration_state (ledger S) = KnownState \<and> \<not> is_unknown (the_journal S) \<and> \<not> lost S \<and>
     (cleanup_in_progress (ledger S) \<longrightarrow> cleaning S \<noteq> None)"

definition system_names_ok :: "'w host_system \<Rightarrow> bool" where
  "system_names_ok S \<longleftrightarrow> entry_names (registrations (ledger S)) \<and> map_ok (ledger_debt (ledger S)) \<and> journal_names (the_journal S) \<and>
     list_all (\<lambda>r. is_str (reg_name r)) (staged S) \<and> entry_names (claim_entries (cleaning S)) \<and>
     list_all (\<lambda>d. is_str (reg_name (debt_registration d))) (claim_debts_of (cleaning S)) \<and> debt_names (retry_map (retrying S))"

definition ledger_inv ::
    "'w excel \<Rightarrow> ('w \<Rightarrow> u64 set) \<Rightarrow> ('w \<Rightarrow> nat list \<Rightarrow> u64 option) \<Rightarrow> 'w host_system \<Rightarrow> bool" where
  "ledger_inv E live bound S \<longleftrightarrow> excel_promises E live bound \<and> system_names_ok S \<and>
     (certain S \<longrightarrow> live (host S) \<subseteq> owed S) \<and> (cleaning S \<noteq> None \<longrightarrow> cleanup_in_progress (ledger S)) \<and>
     (open_journal S = None \<longrightarrow> staged S = [])"

definition ledger_init ::
    "'w excel \<Rightarrow> ('w \<Rightarrow> u64 set) \<Rightarrow> ('w \<Rightarrow> nat list \<Rightarrow> u64 option) \<Rightarrow> 'w host_system \<Rightarrow> bool" where
  "ledger_init E live bound S \<longleftrightarrow> excel_promises E live bound \<and> live (host S) = {} \<and>
     S = \<lparr> ledger = new_ledger, open_journal = None, staged = [], lost = False, cleaning = None, retrying = None, host = host S \<rparr>"

lemma ledger_inv_init: "ledger_init E live bound S \<Longrightarrow> ledger_inv E live bound S"
  unfolding ledger_init_def
  by (erule conjE, erule conjE, erule ssubst)
    (simp add: ledger_inv_def system_names_ok_def new_ledger_def entry_names_def map_ok_def debt_names_def the_journal_def
      journal_names_def empty_journal_def)

lemma entry_names_append [simp]: "entry_names (ps @ qs) \<longleftrightarrow> entry_names ps \<and> entry_names qs"
  by (simp add: entry_names_def)

lemma entry_names_Nil [simp]: "entry_names []" by (simp add: entry_names_def)

lemma merge_journal_facts:
  "pending_registrations (merge_journal j k) = pending_registrations j @ pending_registrations k"
  "is_unknown (merge_journal j k) \<longleftrightarrow> is_unknown j \<or> is_unknown k"
  "journal_names (merge_journal j k) \<longleftrightarrow> journal_names j \<and> journal_names k"
  by (auto simp: merge_journal_def is_unknown_def journal_names_def)

lemma into_journal_facts:
  "registered_ids (pending_registrations (into_journal rs)) = reg_id ` set rs"
  "\<not> is_unknown (into_journal rs)"
  "list_all (\<lambda>r. is_str (reg_name r)) rs \<Longrightarrow> journal_names (into_journal rs)"
proof -
  have p: "pending_registrations (into_journal rs) = map pending_from rs" "metadata_debt (into_journal rs) = []"
    "unknown_registrations (into_journal rs) = []"
    by (simp_all add: into_journal_def from_registrations_def record_registrations_def empty_journal_def)
  show "registered_ids (pending_registrations (into_journal rs)) = reg_id ` set rs" "\<not> is_unknown (into_journal rs)"
    by (simp_all only: p registered_pending_from is_unknown_def simp_thms)
  show "list_all (\<lambda>r. is_str (reg_name r)) rs \<Longrightarrow> journal_names (into_journal rs)"
    unfolding journal_names_def p by (simp add: entry_names_def list_all_iff pending_from_def)
qed

lemma empty_journal_facts [simp]:
  "pending_registrations empty_journal = []" "metadata_debt empty_journal = []" "\<not> is_unknown empty_journal" "journal_names empty_journal"
  by (simp_all add: empty_journal_def is_unknown_def journal_names_def)

lemma registered_facts:
  assumes "excel_promises E live bound" "list_all registrable ds"
    and "register_all E units ds s = Returns (Inr ids, s')"
  shows "live (world s') = live (world s) \<union> reg_id ` set ids" "list_all (\<lambda>r. is_str (reg_name r)) ids"
proof -
  have "live (world s') = live (world s) \<union> reg_id ` set ids" "map reg_name ids = map excel_name ds"
    using register_all_spec [OF assms(1,2), of units s] by (simp_all add: assms(3))
  moreover have "reg_name ` set ids = excel_name ` set ds" using calculation(2) by (metis set_map)
  then have "is_str (reg_name r)" if "r \<in> set ids" for r
    using that assms(2) registrable_name unfolding list_all_iff by (metis imageE imageI)
  ultimately show "live (world s') = live (world s) \<union> reg_id ` set ids" "list_all (\<lambda>r. is_str (reg_name r)) ids"
    by (simp_all add: list_all_iff)
qed

lemma register_failed_facts:
  assumes "excel_promises E live bound" "list_all registrable ds"
    and "register_all E units ds s = Returns (Inl err, s')"
  shows "journal_names (journal err)"
    "\<not> is_unknown (journal err) \<Longrightarrow> live (world s') \<subseteq> live (world s) \<union> registered_ids (pending_registrations (journal err))"
  using register_all_spec [OF assms(1,2), of units s] by (simp_all add: assms(3) accounted_by_def)

lemma executed_facts:
  assumes "excel_promises E live bound" "entry_names rs" "unregister_pending E rs s = Returns (out, s')"
  shows "entry_names (map fst (failed out))" "list_all (\<lambda>d. is_str (reg_name (debt_registration d))) (debts out)"
    "live (world s) \<subseteq> A \<union> registered_ids rs \<Longrightarrow> live (world s') \<subseteq> A \<union> registered_ids (map fst (failed out))"
proof -
  have u: "unregistered live rs new_result (world s) out (world s')"
    using unregister_pending_spec [OF assms(1,2), of s] by (simp add: assms(3))
  show "entry_names (map fst (failed out))" "list_all (\<lambda>d. is_str (reg_name (debt_registration d))) (debts out)"
    by (fact unregistered_names [OF u assms(2)])+
  show "live (world s) \<subseteq> A \<union> registered_ids rs \<Longrightarrow> live (world s') \<subseteq> A \<union> registered_ids (map fst (failed out))"
    by (rule unregistered_live [OF u])
qed

lemma executed_debts_facts:
  assumes "excel_promises E live bound" "debt_names ds" "retry_metadata_debt_with_host E ds s = Returns (out, s')"
  shows "debt_names (remaining out)" "live (world s') = live (world s)"
proof -
  have r: "retried live bound ds [] (world s) (remaining out) (world s')"
    using retry_spec [OF assms(1,2), of s] by (simp add: assms(3))
  show "debt_names (remaining out)" by (rule retried_names [OF r assms(2)])
  show "live (world s') = live (world s)" using r by (simp add: retried_def)
qed

lemmas ledger_ops = merge_ledger_def claim_cleanup_def finish_cleanup_def drop_cleanup_def claim_metadata_def
  finish_metadata_def drop_metadata_def

lemma map_ok_names: "map_ok m \<Longrightarrow> debt_names m"
  by (simp add: map_ok_def)

lemma names_step:
  assumes "ledger_step E live S T" "system_names_ok S" "excel_promises E live bound"
  shows "system_names_ok T"
  using assms
proof (cases rule: ledger_step.cases)
  case (registered j s ds units ids s')
  then show ?thesis using assms(2) registered_facts(2) [OF assms(3)] by (auto simp: system_names_ok_def the_journal_def)
next
  case (register_failed j s ds units err s')
  then show ?thesis using assms(2) register_failed_facts(1) [OF assms(3)]
    by (auto simp: system_names_ok_def the_journal_def merge_journal_facts)
next
  case (stage j)
  then show ?thesis using assms(2) by (auto simp: system_names_ok_def the_journal_def merge_journal_facts into_journal_facts)
next
  case (end_open j)
  then show ?thesis using assms(2)
    by (auto simp: system_names_ok_def the_journal_def merge_ledger_def journal_names_def push_debts_ok remove_debts_ok)
next
  case (execute rs s out s')
  then show ?thesis using assms(2) executed_facts(1,2) [OF assms(3)] by (auto simp: system_names_ok_def the_journal_def)
next
  case (execute_debts ds s out s')
  then show ?thesis using assms(2) executed_debts_facts(1) [OF assms(3)] by (auto simp: system_names_ok_def the_journal_def)
qed (auto simp: system_names_ok_def the_journal_def ledger_ops push_debts_ok append_debts_ok map_ok_names map_ok_def [of "[]"] debt_names_def [of "[]"]
    split: if_splits)

lemma cover_step:
  assumes "ledger_step E live S T" "ledger_inv E live bound S" "certain T"
  shows "live (host T) \<subseteq> owed T"
proof -
  have P: "excel_promises E live bound" and names: "system_names_ok S" and cover: "certain S \<Longrightarrow> live (host S) \<subseteq> owed S"
    and flag: "cleaning S \<noteq> None \<Longrightarrow> cleanup_in_progress (ledger S)"
    using assms(2) by (auto simp: ledger_inv_def)
  from assms(1) show ?thesis
  proof (cases rule: ledger_step.cases)
    case (registered j s ds units ids s')
    then have "certain S" using assms(3) by (simp add: certain_def the_journal_def)
    then show ?thesis using cover registered registered_facts(1) [OF P registered(5,6)]
      by (auto simp: owed_def the_journal_def)
  next
    case (register_failed j s ds units err s')
    then have "certain S" "\<not> is_unknown (journal err)" using assms(3) by (simp_all add: certain_def the_journal_def merge_journal_facts)
    then show ?thesis using cover register_failed register_failed_facts(2) [OF P register_failed(5,6)]
      by (fastforce simp: owed_def the_journal_def merge_journal_facts)
  next
    case (stage j)
    then have "certain S" using assms(3) by (simp add: certain_def the_journal_def merge_journal_facts)
    then show ?thesis using cover stage by (auto simp: owed_def the_journal_def merge_journal_facts into_journal_facts)
  next
    case (end_open j)
    then have "certain S" using assms(3) by (simp add: certain_def the_journal_def merge_ledger_def split: if_splits)
    then show ?thesis using cover end_open by (auto simp: owed_def the_journal_def merge_ledger_def)
  next
    case (execute rs s out s')
    then have "certain S" using assms(3) by (simp add: certain_def the_journal_def)
    then have "live (world s) \<subseteq> (registered_ids (registrations (ledger S)) \<union> registered_ids (pending_registrations (the_journal S)) \<union>
        reg_id ` set (staged S)) \<union> registered_ids rs"
      using cover execute by (simp add: owed_def)
    moreover have "entry_names rs" using names execute by (simp add: system_names_ok_def)
    ultimately have "live (world s') \<subseteq> (registered_ids (registrations (ledger S)) \<union> registered_ids (pending_registrations (the_journal S)) \<union>
        reg_id ` set (staged S)) \<union> registered_ids (map fst (failed out))"
      using executed_facts(3) [OF P _ execute(4)] by blast
    then show ?thesis using execute by (simp add: owed_def the_journal_def)
  next
    case (execute_debts ds s out s')
    then have "certain S" using assms(3) by (simp add: certain_def the_journal_def)
    moreover have "live (world s') = live (world s)"
      using executed_debts_facts(2) [OF P _ execute_debts(4)] names execute_debts by (simp add: system_names_ok_def)
    ultimately show ?thesis using cover execute_debts by (simp add: owed_def the_journal_def)
  next
    case (elsewhere w)
    then have "certain S" using assms(3) by (simp add: certain_def the_journal_def)
    then show ?thesis using cover elsewhere by (auto simp: owed_def the_journal_def)
  qed (use assms(3) cover flag in \<open>auto simp: certain_def owed_def the_journal_def ledger_ops split: if_splits\<close>)
qed

lemma ledger_inv_step:
  assumes "ledger_inv E live bound S" "ledger_step E live S T"
  shows "ledger_inv E live bound T"
proof -
  have "excel_promises E live bound" "system_names_ok S" "cleaning S \<noteq> None \<Longrightarrow> cleanup_in_progress (ledger S)"
    "open_journal S = None \<Longrightarrow> staged S = []"
    using assms(1) by (auto simp: ledger_inv_def)
  moreover from assms(2) this(3,4) have "(cleaning T \<noteq> None \<longrightarrow> cleanup_in_progress (ledger T)) \<and> (open_journal T = None \<longrightarrow> staged T = [])"
    by (cases rule: ledger_step.cases) (auto simp: ledger_ops split: if_splits)
  ultimately show ?thesis
    using names_step [OF assms(2)] cover_step [OF assms(2,1)] by (auto simp: ledger_inv_def)
qed

interpretation host_ledger: transition_system "ledger_init E live bound" "ledger_step E live" "ledger_inv E live bound"
  for E :: "'w excel" and live bound
  by unfold_locales (fact ledger_inv_init, fact ledger_inv_step)

text \<open>
  C37: a quiescent ledger means that Excel holds no registration of the module. From a new
  ledger and no live registration, whatever opens, registrations, roll backs, cleanups
  (interrupted or dropped ones too) and metadata retries have run, in any interleaving of
  their critical sections and calls into Excel, opens abandoned half-way included: if the
  ledger is quiescent, no open is under way and no open dropped the registrations it held or
  journalled, then no registration is live.
\<close>

theorem quiescent_ledger_means_unregistered:
  assumes "ledger_init E live bound S0" "(ledger_step E live)\<^sup>*\<^sup>* S0 S"
    and "is_quiescent (ledger S)" "open_journal S = None" "\<not> lost S"
  shows "live (host S) = {}"
proof -
  have inv: "ledger_inv E live bound S" by (rule host_ledger.inv_reachable [OF assms(1,2)])
  have q: "\<not> cleanup_in_progress (ledger S)" "registrations (ledger S) = []" "registration_state (ledger S) = KnownState"
    using assms(3) by (simp_all add: is_quiescent_def)
  moreover have "cleaning S = None" "staged S = []" using inv q(1) assms(4) by (auto simp: ledger_inv_def)
  ultimately have "certain S" "owed S = {}" using assms(4,5) by (simp_all add: certain_def owed_def the_journal_def)
  then show ?thesis using inv by (simp add: ledger_inv_def)
qed

section \<open>Runs on the sample host\<close>

definition sample_start :: "sample_world host_system" where
  "sample_start = \<lparr> ledger = new_ledger, open_journal = None, staged = [], lost = False, cleaning = None, retrying = None,
     host = (False, None) \<rparr>"

abbreviation sample_step :: "sample_world host_system \<Rightarrow> sample_world host_system \<Rightarrow> bool" where
  "sample_step \<equiv> ledger_step sample_excel sample_live"

lemma sample_init: "ledger_init sample_excel sample_live sample_bound sample_start"
  by (simp add: ledger_init_def sample_promises sample_start_def)

lemma sample_registered:
  "sample_step\<^sup>*\<^sup>* sample_start
     (sample_start\<lparr> open_journal := Some empty_journal, staged := [sample_id], host := (True, Some [1, 0x46]) \<rparr>)"
proof -
  have "sample_step sample_start (sample_start\<lparr> open_journal := Some empty_journal \<rparr>)"
    by (rule begin_open) (simp add: sample_start_def)
  moreover have "sample_step (sample_start\<lparr> open_journal := Some empty_journal \<rparr>)
      (sample_start\<lparr> open_journal := Some empty_journal, staged := [sample_id], host := world (sample_state (True, Some [1, 0x46])) \<rparr>)"
    using registered [of "sample_start\<lparr> open_journal := Some empty_journal \<rparr>" empty_journal "sample_state (False, None)"
      "[sample_registration]" sample_excel "[0x43]" "[sample_id]" "sample_state (True, Some [1, 0x46])" sample_live] sample_register_all
    by (simp add: sample_start_def sample_state_def sample_registrable)
  ultimately show ?thesis by (simp add: sample_state_def)
qed

abbreviation sample_registered_state :: "sample_world host_system" where
  "sample_registered_state \<equiv>
     sample_start\<lparr> open_journal := Some empty_journal, staged := [sample_id], host := (True, Some [1, 0x46]) \<rparr>"

lemma sample_cleaned:
  "sample_step\<^sup>*\<^sup>* sample_registered_state sample_start"
proof -
  let ?M = "sample_registered_state"
  let ?j = "merge_journal empty_journal (into_journal [sample_id])"
  let ?L = "merge_ledger ?j new_ledger"
  let ?out = "new_result\<lparr> succeeded := [\<lparr> registration = sample_id, cleanup_state = NameDeleted \<rparr>] \<rparr>"
  let ?A = "?M\<lparr> open_journal := Some ?j, staged := [] \<rparr>"
  let ?B = "?A\<lparr> open_journal := None, ledger := ?L \<rparr>"
  let ?C = "?B\<lparr> cleaning := Some (ClaimHeld [pending_from sample_id]), ledger := ?L\<lparr> cleanup_in_progress := True, registrations := [] \<rparr> \<rparr>"
  let ?D = "?C\<lparr> cleaning := Some (ClaimExecuted ?out), host := (False, None) \<rparr>"
  have L: "ledger ?M = new_ledger" by (simp add: sample_start_def)
  have R: "registrations ?L = [pending_from sample_id]" "\<not> cleanup_in_progress ?L"
    by (simp_all add: merge_ledger_def merge_journal_def into_journal_def from_registrations_def record_registrations_def
        empty_journal_def new_ledger_def)
  have "sample_step ?M ?A" using stage [of ?M empty_journal sample_excel sample_live] by simp
  moreover have "sample_step ?A ?B" using end_open [of ?A ?j sample_excel sample_live] L by simp
  moreover have "sample_step ?B ?C"
    using claim [of ?B "[pending_from sample_id]" _ sample_excel sample_live] R by (simp add: claim_cleanup_def sample_start_def)
  moreover have "sample_step ?C ?D"
    using execute [of ?C "[pending_from sample_id]" "sample_state (True, Some [1, 0x46])" sample_excel ?out
      "sample_state (False, None)" sample_live] sample_unregister
    by (simp add: sample_state_def del: One_nat_def)
  moreover have "sample_step ?D sample_start"
    using finish [of ?D ?out sample_excel sample_live]
    by (simp add: finish_cleanup_def merge_ledger_def merge_journal_def into_journal_def from_registrations_def
        record_registrations_def empty_journal_def new_ledger_def sample_start_def new_result_def push_debts_def remove_debts_def
        is_unknown_def)
  ultimately show ?thesis by (meson rtranclp.rtrancl_into_rtrancl rtranclp.rtrancl_refl)
qed

theorem quiescent_ledger_means_unregistered_witness:
  "\<exists>M S. sample_step\<^sup>*\<^sup>* sample_start M \<and> sample_live (host M) \<noteq> {} \<and> sample_step\<^sup>*\<^sup>* M S \<and> sample_live (host S) = {}"
proof (intro exI conjI)
  show "sample_step\<^sup>*\<^sup>* sample_start sample_registered_state" by (rule sample_registered)
  show "sample_live (host sample_registered_state) \<noteq> {}" by simp
  show "sample_step\<^sup>*\<^sup>* sample_registered_state sample_start" by (rule sample_cleaned)
  show "sample_live (host sample_start) = {}"
    by (rule quiescent_ledger_means_unregistered [OF sample_init rtranclp_trans [OF sample_registered sample_cleaned]])
      (simp_all add: sample_start_def new_ledger_def is_quiescent_def)
qed

text \<open>
  An open whose lifecycle state cannot be installed returns without staging the registrations it
  holds: its rollback does not know of them and the ledger is quiescent while they are live.
\<close>

lemma dropped_registrations_stay_live:
  "\<exists>S. sample_step\<^sup>*\<^sup>* sample_start S \<and> is_quiescent (ledger S) \<and> open_journal S = None \<and> sample_live (host S) \<noteq> {}"
proof -
  let ?S = "sample_start\<lparr> open_journal := Some empty_journal, staged := [sample_id], host := (True, Some [1, 0x46]) \<rparr>"
  have "sample_step ?S (?S\<lparr> staged := [], lost := True \<rparr>)" by (rule install_failed) simp_all
  moreover have "sample_step (?S\<lparr> staged := [], lost := True \<rparr>)
      (?S\<lparr> staged := [], lost := True, open_journal := None, ledger := merge_ledger empty_journal (ledger ?S) \<rparr>)"
    using end_open [of "?S\<lparr> staged := [], lost := True \<rparr>" empty_journal sample_excel sample_live] by simp
  ultimately have "sample_step\<^sup>*\<^sup>* sample_start
      (?S\<lparr> staged := [], lost := True, open_journal := None, ledger := merge_ledger empty_journal (ledger ?S) \<rparr>)"
    using sample_registered by (meson rtranclp.rtrancl_into_rtrancl)
  then show ?thesis
    by (intro exI conjI, assumption)
      (simp_all add: is_quiescent_def merge_ledger_def sample_start_def new_ledger_def empty_journal_def is_unknown_def)
qed

end
