(* ===== verification/Spec2Isabelle.thy ===== *)
theory Spec2Isabelle
  imports Striped_Gate Operation_Gate Quota Rtd_Budget Unicode Errors Generation Utf16 Serial_Date
    Handle_Token Reference_Area Rotating_Domain Package_Graph Package_Manifest Lifecycle
    Call_Arguments Host_Ledger
begin

text \<open>
  A verification of \<^emph>\<open>xlfn\<close>, a Rust framework for Excel add-ins.

  \<^bold>\<open>The program.\<close> An add-in is a library that Excel loads and calls from several threads. Its
  parts, bottom up:

  \<^item> \<open>crates/xlfn-kernel\<close>: the concurrency kernel. A \<^emph>\<open>sealable counter\<close> packs a count of
    permits, a sealed bit and a waiting bit into one atomic word. A \<^emph>\<open>drain gate\<close> admits
    permits through such a counter and lets managers seal it, wait until it is idle and reopen
    it; the striped gate spreads the count over several words; the terminal gate and the
    \<^emph>\<open>operation gate\<close> above it close for good. A \<^emph>\<open>quota\<close> bounds permits by a limit.
  \<^item> \<open>crates/xlfn-common\<close>: the registration rules shared by the macros, the runtime and the
    packaging tool (names of functions and arguments, file names, limits).
  \<^item> \<open>crates/xlfn\<close>: the runtime. It turns host values into Rust values and back (UTF-16 text,
    references, dates, errors), identifies generations and handles, and accounts for buffered
    updates of live-data subscriptions with budgets.
  \<^item> \<open>crates/xlfn-sys\<close>: the host's C interface; \<open>crates/xlfn-macros\<close>, \<open>crates/xlfn-package\<close> and
    \<open>crates/cargo-xlfn\<close>: compile-time and packaging tools.

  The gates are the core: the lifecycle, the ingress of calls, the caches and the
  subscriptions of the runtime free memory and unload code because a gate reported that it
  is drained.

  \<^bold>\<open>The theories.\<close>

  \<^item> \<open>Prelude\<close>: machine words with checked arithmetic, runs that abort the process
    (\<open>run\<close>), and the interfaces as locales: codecs, transition systems with an invariant,
    accounted pools.
  \<^item> \<open>Sealable_Counter\<close> (\<open>sealable_counter.rs\<close>, \<open>sealable_counter/transitions.rs\<close>): the transition
    functions on words at every width and at 32 and 64 bits, the atomic operations, an abstract
    counter of three fields, and the refinement between them (C5). The locale
    \<open>admission\<close>, interpreted at both widths, states what sealing promises its clients.
  \<^item> \<open>Drain_Gate\<close> (\<open>drain_gate.rs\<close>, \<open>drain_gate/control.rs\<close>): one gate with any number of permits
    and managers as an inductive step relation. A permit and a manager have a program counter
    each; the mutex and the condition variable of the notification are explicit, with spurious
    wakeups. One atomic operation of the code is one step, so the theorems speak about every
    interleaving under sequential consistency: reclamation safety, no lost wakeup, absence of
    fail-stops and progress (C1 to C4).
  \<^item> \<open>Striped_Gate\<close> (\<open>drain_gate.rs\<close>, \<open>drain_gate/protocol.rs\<close>): the stripe loops as functions on
    the list of words, whole-gate sealing also as a step relation with interference from other
    threads, and the assignment of stripes to threads (C9).
  \<^item> \<open>Rotating_Domain\<close> (\<open>rotating_read_domain.rs\<close> and its submodules): two striped gates as
    generations, each with its notification mutex, readers with the tails of their releases,
    writers that retire items, and managers that rotate or close the domain, as one step
    relation; the grace period (C6) and the discipline of the generations, by which none of the
    causes of a fail-stop in a rotation can arise (C40).
  \<^item> \<open>Quota\<close>, \<open>Operation_Gate\<close> (\<open>quota.rs\<close>, \<open>invariant.rs\<close>, \<open>operation_gate.rs\<close>): C15, C17.
  \<^item> \<open>Errors\<close> (\<open>error.rs\<close>, \<open>value/raw.rs\<close>): worksheet errors, framework errors and what a
    worksheet sees of them.
  \<^item> \<open>Rtd_Budget\<close> (\<open>subscription/budget.rs\<close>, \<open>subscription/topic.rs\<close>): limits, budgets per source
    and runtime, the ledger of a channel and its permits; exactness as an accounted pool and as
    a transition system (C18, C20).
  \<^item> \<open>Generation\<close> (\<open>generation.rs\<close>): nonzero identities that are never reused.
  \<^item> \<open>Unicode\<close>: what the sources use of the standard library's strings, with UTF-16 as an exact
    codec. \<open>Utf16\<close> (\<open>utf16.rs\<close>): the planned decoder, length computation, comparison and counted
    encoder (C24, C26).
  \<^item> \<open>Xlfn_Common\<close> (\<open>xlfn-common/src/lib.rs\<close>): the validators, against a grammar of references and
    names (C28).
  \<^item> \<open>Serial_Date\<close> (\<open>value/date.rs\<close>): serial dates and the Gregorian calendar: which dates have a
    serial, and which serials a date (C32, C33).
  \<^item> \<open>Handle_Token\<close> (\<open>handle/token.rs\<close>): the wire text of handles, authentication and the cache of
    verified tokens (C34).
  \<^item> \<open>Reference_Area\<close> (\<open>reference.rs\<close>): reference arguments, areas and their A1 text (C38, which
    connects it with the name rules of \<open>Xlfn_Common\<close>).
  \<^item> \<open>Package_Base\<close> (\<open>xlfn-package/src/error.rs\<close>, \<open>names.rs\<close>, \<open>architecture.rs\<close>, \<open>xlfn/src/crt.rs\<close>): the errors,
    name and path rules of the packaging tool, and the runtime marker that the add-in embeds and
    the tool reads. \<open>Package_Pe\<close> (\<open>pe.rs\<close>): sections, exports, forwarders, manifests and
    imports of one image, and the closed-world check of an add-in (C13). \<open>Package_Graph\<close> (\<open>pe.rs\<close>):
    the import graph walked with an explicit stack and the chains of forwarded exports, against
    a declarative closure (C11, C12). \<open>Package_Manifest\<close> (\<open>manifest.rs\<close>, \<open>artifact.rs\<close>, the
    permissions of \<open>staging.rs\<close>): the artifacts that a verified package is assembled from, the build
    manifest, its addition to the package and its validation (C10, C14).

  \<^item> \<open>Ingress\<close> (\<open>ingress.rs\<close>), \<open>Module_Runtime\<close> (\<open>module_runtime.rs\<close>): the phases of the export
    ingress, module epochs and the authorities over them. \<open>Lifecycle_State\<close> (\<open>lifecycle/state.rs\<close>,
    \<open>phase.rs\<close>, \<open>state/authority_slot.rs\<close>): the canonical lifecycle state with every operation on it.
    \<open>Lifecycle_Ownership\<close>: those operations as one relation, which conserves what is owned (C21).
    \<open>Lifecycle_Ops\<close>: what they do to the published generation, the finality of a quarantine and
    the order of identities (C23, C27). \<open>Striped_Readers\<close> counts the permits of clients per stripe;
    \<open>Lifecycle\<close> (\<open>lifecycle/state.rs\<close>) adds the projection and its readers: each transition commits its
    effect one atomic operation at a time while readers are admitted, use the published
    generation and leave (C8, C16).

  \<^item> \<open>Matrices\<close> (\<open>value/matrix.rs\<close>): rectangular values, their limits and every way to read and
    change them (C7, C22). \<open>Excel_Value\<close> (\<open>value/raw.rs\<close>, \<open>value/convert.rs\<close>, the budget of \<open>value.rs\<close>):
    views of host values, grids, shape policies and conversions within a byte budget (C19).
    \<open>Excel_Input\<close> (\<open>value.rs\<close>): conversion and identity of the input types, floating point numbers
    as their bits. \<open>Input_Identity\<close> and \<open>Input_Fingerprint\<close> (\<open>input_identity/backend.rs\<close>): the encoder
    of one argument and the fingerprint of all of them; the locale \<open>byte_encoder\<close> states what every
    write promises. \<open>Excel_Identity\<close>: the locale \<open>excel_input\<close> of types whose identity decides their
    value, interpreted for each input type, and the fast paths of the encoder (C25, C30).
    \<open>Excel_Parameter\<close> (\<open>value.rs\<close>, \<open>value/input.rs\<close>): collections, decoded at once or prepared and
    materialised later (C31). \<open>Call_Arguments\<close> (\<open>value/input.rs\<close>, and the order of the
    conversions that \<open>xlfn-macros/src/codegen/udf.rs\<close> generates): the arguments of one call, whose
    fingerprints can be equal for different values only by a collision on what these calls
    hash (C36).

  \<^item> \<open>Registration_Schema\<close> (\<open>registration/schema.rs\<close>, \<open>preflight.rs\<close>): signatures, their type text
    and the preparation of descriptors. \<open>Registration_Host\<close> (\<open>host_callback.rs\<close>, \<open>callback_value.rs\<close>,
    \<open>host_api.rs\<close>, \<open>registration/host.rs\<close>): one call into Excel, from admission to the release of its
    result, the registration operations, what Excel promises of them, and that prepared
    functions are sent with exactly the operands of their descriptors (C29). \<open>Registration\<close> (\<open>registration/registrar.rs\<close>, \<open>ledger.rs\<close>, \<open>recovery.rs\<close>):
    the registration transaction with its roll back (C39) and the retry of metadata debt (C35).
    \<open>Host_Ledger\<close> (\<open>runtime_components/host_ledger.rs\<close>): the ledger and its claims as a transition
    system with the opening transaction, committed, rolled back or abandoned, and Excel, in which a quiescent ledger means that nothing
    is registered (C37). One step stands for \<open>open.rs\<close> dropping the registrations it holds
    when the lifecycle state cannot be installed; \<open>dropped_registrations_stay_live\<close> shows what
    remains then.

  \<^bold>\<open>Conventions.\<close> A struct is a record, an enum a datatype, \<open>Result\<close> a sum with the error on
  the left. A panic, an abort or an out-of-range write is the value \<open>Aborts\<close> of \<open>run\<close>, and
  theorems that an operation returns say so. Machine integers are words where wrap-around
  could matter; the width of \<open>usize\<close> is a type variable, and a hypothesis such as
  \<open>2 < LENGTH('w)\<close> holds on every supported target. Text is a list of Unicode scalar values or
  of bytes, as numbers. A finite \<open>f64\<close> of a date is its rational value.

  \<^bold>\<open>Bounds.\<close> No definition uses fuel. Loops are structural recursions, or have a
  measure: the bisection over years its interval, the walk over months the days left, the
  chunked sums the rest of the slice, the walk over imports the images not yet visited and
  then the imports left on the stack, a chain of forwarders the forwarding exports not yet on
  it. The concurrent theorems hold for any number of
  threads, permits and managers and for runs of any length; memory orderings weaker than
  sequential consistency are not modelled.

  \<^bold>\<open>Parameters.\<close> The incremental hash of input identities is the record \<open>Blake3\<close> with the
  hypothesis \<open>incremental\<close>: a digest depends only on the bytes absorbed, and has 32 bytes. The keyed hash and the constant-time comparison of handle tokens come from
  third-party crates and are arguments of the definitions; \<open>crypto_ok\<close> states the 32-byte output
  and that the comparison decides equality, and nothing about collisions. The crate that
  decodes the structures of a PE file is the record \<open>pe_parser\<close>, whose tables \<open>parse_pe_file\<close>
  reads; C13 assumes that it enumerates the slots of an export table (\<open>enumerates_slots\<close>), and
  nothing else is assumed of it. What a temporary file's permissions are, or why they cannot be
  read, is an argument of \<open>manifest_permissions\<close>. The JSON library is a pair of functions, and only C10 relies
  on it, namely that it reads back the manifest it wrote. Excel is the record \<open>excel\<close> over a type of
  worlds: its callback, and whether the callback is resolved and the module gate admits a
  call. \<open>excel_promises\<close> states its documented behaviour: which calls can change the registrations and the
  names, and what their answers mean; nothing is assumed of when calls fail.

  \<^bold>\<open>Not modelled, in the order of the plan.\<close> Next: the service slot
  of the kernel, the admission of calls, the shutdown pipeline, the pins and the resident index of the cache, the
  binding table of handles and the queue of a subscription channel.
  Not planned: the executor of asynchronous functions, the
  layout of returned values, the COM server, the procedural macros, file staging and the
  command-line tool, which are I/O, foreign memory or generated code.
\<close>

end
